(* ===== verification/Prelude.thy ===== *)
theory Prelude
  imports Main "HOL-Library.Word"
begin

unbundle bit_operations_syntax

text \<open>
  Shared vocabulary of the development: the machine integer types, bit ranges inside a word
  (C++ bit-fields and union byte views), spans (a pointer with an element count), and the two
  interfaces that several components use: \<open>field_access\<close> (a part of a value that can be read
  and assigned) and \<open>slot_memory\<close> (a memory of separately addressed slots, with the
  "copy every non-zero slot" loop that both the bus exchange and the scheduler run).
\<close>

type_synonym u8 = "8 word"
type_synonym u16 = "16 word"
type_synonym u32 = "32 word"
type_synonym u64 = "64 word"

named_theorems bitfield_simps
named_theorems span_simps

subsection \<open>Bit ranges of a word\<close>

text \<open>
  A bit-field of width \<open>w\<close> at offset \<open>off\<close>, allocated from the least significant bit as on the
  little-endian targets the sources assert. Reading zero-extends; assigning keeps the low
  \<open>w\<close> bits of the assigned value.
\<close>

definition bf_get :: "nat \<Rightarrow> nat \<Rightarrow> 'a::len word \<Rightarrow> 'a word" where
  "bf_get off w x = take_bit w (drop_bit off x)"

definition bf_put :: "nat \<Rightarrow> nat \<Rightarrow> 'a::len word \<Rightarrow> 'a word \<Rightarrow> 'a word" where
  "bf_put off w x v = (x AND NOT (push_bit off (mask w))) OR push_bit off (take_bit w v)"

lemma bit_bf_get [bitfield_simps]:
  "bit (bf_get off w x) i \<longleftrightarrow> i < w \<and> bit x (off + i)"
  by (auto simp: bf_get_def bit_simps)

lemma bit_bf_put [bitfield_simps]:
  fixes x :: "'a::len word"
  shows "bit (bf_put off w x v) i \<longleftrightarrow>
    (if off \<le> i \<and> i < off + w then bit v (i - off) \<and> i < LENGTH('a) else bit x i)"
  by (auto simp: bf_put_def bit_simps dest: bit_imp_le_length)

lemma bf_get_put_same:
  fixes x :: "'a::len word"
  assumes "off + w \<le> LENGTH('a)"
  shows "bf_get off w (bf_put off w x v) = take_bit w v"
  using assms by (intro bit_word_eqI) (auto simp: bitfield_simps bit_simps)

lemma bf_get_put_other:
  assumes "off + w \<le> off' \<or> off' + w' \<le> off"
  shows "bf_get off w (bf_put off' w' x v) = bf_get off w x"
  using assms
  by (intro bit_word_eqI) (auto simp: bitfield_simps dest: bit_imp_le_length)

lemma bf_put_get: "bf_put off w x (bf_get off w x) = x"
  by (intro bit_word_eqI) (auto simp: bitfield_simps dest: bit_imp_le_length)

lemma bf_put_put: "bf_put off w (bf_put off w x v) u = bf_put off w x u"
  by (intro bit_word_eqI) (auto simp: bitfield_simps)

lemma bf_put_commute:
  assumes "off + w \<le> off' \<or> off' + w' \<le> off"
  shows "bf_put off w (bf_put off' w' x v) u = bf_put off' w' (bf_put off w x u) v"
  using assms by (intro bit_word_eqI) (auto simp: bitfield_simps)

lemma bf_get_bound: "bf_get off w x = take_bit w (bf_get off w x)"
  by (intro bit_word_eqI) (auto simp: bitfield_simps bit_simps)

lemma unat_bf_get_less:
  "unat (bf_get off w (x :: 'a::len word)) < 2 ^ w"
  unfolding bf_get_def unsigned_take_bit_eq by (simp add: take_bit_eq_mod)

subsection \<open>Reading and assigning a part of a value\<close>

locale field_access =
  fixes get :: "'s \<Rightarrow> 'v"
    and put :: "'s \<Rightarrow> 'v \<Rightarrow> 's"
    and fits :: "'v \<Rightarrow> bool"
  assumes get_put: "fits v \<Longrightarrow> get (put s v) = v"
    and put_get: "put s (get s) = s"
    and put_put: "put (put s v) u = put s u"
    and fits_get: "fits (get s)"
begin

lemma put_same_iff: "fits v \<Longrightarrow> put s v = s \<longleftrightarrow> get s = v"
  using get_put [of v s] put_get [of s] by metis

lemma put_eq_imp: "fits v \<Longrightarrow> fits u \<Longrightarrow> put s v = put s u \<Longrightarrow> v = u"
  using get_put by metis

end

text \<open>Two parts of the same value that do not overlap.\<close>

locale field_pair =
  a: field_access get1 put1 fits1 + b: field_access get2 put2 fits2
  for get1 :: "'s \<Rightarrow> 'v" and put1 :: "'s \<Rightarrow> 'v \<Rightarrow> 's" and fits1 :: "'v \<Rightarrow> bool"
    and get2 :: "'s \<Rightarrow> 'u" and put2 :: "'s \<Rightarrow> 'u \<Rightarrow> 's" and fits2 :: "'u \<Rightarrow> bool" +
  assumes get1_put2: "get1 (put2 s v) = get1 s"
    and get2_put1: "get2 (put1 s u) = get2 s"
    and put_swap: "put1 (put2 s v) u = put2 (put1 s u) v"
begin

lemma both_read_back:
  "fits1 v \<Longrightarrow> fits2 u \<Longrightarrow>
   get1 (put2 (put1 s v) u) = v \<and> get2 (put2 (put1 s v) u) = u"
  by (simp add: get1_put2 a.get_put b.get_put)

lemma pair_determined:
  "fits1 v \<Longrightarrow> fits2 u \<Longrightarrow> put2 (put1 s v) u = s \<longleftrightarrow> get1 s = v \<and> get2 s = u"
  using both_read_back [of v u s] a.put_get b.put_get by metis

end

subsection \<open>A memory of slots\<close>

text \<open>
  \<open>merge_slots\<close> is the loop "for every item, if the slot of the item in the source memory is
  readable and not zero, store its value in the item's slot of the destination memory". It is
  parametric in the memory's read and write; a failing read or write skips the item.
\<close>

fun merge_slots :: "('m \<Rightarrow> 'a \<Rightarrow> 'v::zero option) \<Rightarrow> ('m \<Rightarrow> 'a \<Rightarrow> 'v \<Rightarrow> 'm option) \<Rightarrow>
    'm \<Rightarrow> ('i \<Rightarrow> 'a) \<Rightarrow> ('i \<Rightarrow> 'a) \<Rightarrow> 'i list \<Rightarrow> 'm \<Rightarrow> 'm" where
  "merge_slots rd wr src sa da [] dst = dst"
| "merge_slots rd wr src sa da (i # is) dst =
     merge_slots rd wr src sa da is
       (case rd src (sa i) of
          None \<Rightarrow> dst
        | Some v \<Rightarrow> if v = 0 then dst
                    else (case wr dst (da i) v of None \<Rightarrow> dst | Some dst' \<Rightarrow> dst'))"

locale slot_memory =
  fixes rd :: "'m \<Rightarrow> 'a \<Rightarrow> 'v::zero option"
    and wr :: "'m \<Rightarrow> 'a \<Rightarrow> 'v \<Rightarrow> 'm option"
    and inv :: "'m \<Rightarrow> bool"
    and apart :: "'a \<Rightarrow> 'a \<Rightarrow> bool"
    and fitv :: "'a \<Rightarrow> 'v \<Rightarrow> bool"
  assumes wr_iff_rd: "wr m a v \<noteq> None \<longleftrightarrow> rd m a \<noteq> None"
    and inv_wr: "inv m \<Longrightarrow> wr m a v = Some m' \<Longrightarrow> inv m'"
    and rd_wr_same: "inv m \<Longrightarrow> wr m a v = Some m' \<Longrightarrow> fitv a v \<Longrightarrow> rd m' a = Some v"
    and rd_wr_other: "inv m \<Longrightarrow> wr m a v = Some m' \<Longrightarrow> apart a b \<Longrightarrow> rd m' b = rd m b"
    and rd_fits: "rd m a = Some v \<Longrightarrow> fitv a v"
begin

text \<open>The slots of a list of items do not overlap.\<close>

definition slots_apart :: "('i \<Rightarrow> 'a) \<Rightarrow> 'i list \<Rightarrow> bool" where
  "slots_apart da is \<longleftrightarrow> sorted_wrt (\<lambda>i j. apart (da i) (da j) \<and> apart (da j) (da i)) is"

lemma slots_apart_Cons:
  "slots_apart da (i # is) \<longleftrightarrow>
     (\<forall>j \<in> set is. apart (da i) (da j) \<and> apart (da j) (da i)) \<and> slots_apart da is"
  by (simp add: slots_apart_def)

lemma merge_slots_inv: "inv dst \<Longrightarrow> inv (merge_slots rd wr src sa da is dst)"
  by (induction "is" arbitrary: dst) (auto intro: inv_wr split: option.splits)

lemma merge_slots_frame:
  assumes "\<And>i. i \<in> set is \<Longrightarrow> apart (da i) b" and "inv dst"
  shows "rd (merge_slots rd wr src sa da is dst) b = rd dst b"
  using assms
proof (induction "is" arbitrary: dst)
  case Nil
  show ?case by simp
next
  case (Cons i "is")
  then show ?case
    using rd_wr_other [of _ "da i" _ _ b] inv_wr by (auto split: option.splits)
qed

lemma merge_slots_value:
  assumes "slots_apart da is" and "i \<in> set is" and "rd dst (da i) \<noteq> None" and "inv dst"
    and fit: "\<And>v. rd src (sa i) = Some v \<Longrightarrow> fitv (da i) v"
  shows "rd (merge_slots rd wr src sa da is dst) (da i) =
    (case rd src (sa i) of None \<Rightarrow> rd dst (da i)
     | Some v \<Rightarrow> if v = 0 then rd dst (da i) else Some v)"
  using assms(1-4)
proof (induction "is" arbitrary: dst)
  case Nil
  then show ?case by simp
next
  case (Cons j "is")
  define dst1 where "dst1 = (case rd src (sa j) of None \<Rightarrow> dst
     | Some v \<Rightarrow> if v = 0 then dst
                 else (case wr dst (da j) v of None \<Rightarrow> dst | Some d \<Rightarrow> d))"
  have unf: "merge_slots rd wr src sa da (j # is) dst = merge_slots rd wr src sa da is dst1"
    by (simp add: dst1_def)
  have inv1: "inv dst1"
    using Cons.prems(4) by (auto simp: dst1_def intro: inv_wr split: option.splits)
  show ?case
  proof (cases "i \<in> set is")
    case True
    with Cons.prems have "apart (da j) (da i)"
      by (auto simp: slots_apart_Cons)
    with Cons.prems(4) have same: "rd dst1 (da i) = rd dst (da i)"
      by (auto simp: dst1_def rd_wr_other split: option.splits)
    show ?thesis
      unfolding unf using Cons.IH [of dst1] True Cons.prems inv1
      by (simp add: slots_apart_Cons same split: option.split)
  next
    case False
    with Cons.prems have ij: "j = i" by simp
    with Cons.prems False have "\<And>k. k \<in> set is \<Longrightarrow> apart (da k) (da i)"
      by (auto simp: slots_apart_Cons)
    then have "rd (merge_slots rd wr src sa da is dst1) (da i) = rd dst1 (da i)"
      using inv1 by (rule merge_slots_frame)
    moreover have "wr dst (da i) v \<noteq> None" for v
      using Cons.prems wr_iff_rd by blast
    ultimately show ?thesis
      unfolding unf using fit rd_wr_same [OF Cons.prems(4)]
      by (auto simp: dst1_def ij split: option.splits)
  qed
qed

end

subsection \<open>Lists as arrays\<close>

lemma nth_list_update_if [span_simps]:
  "i < length xs \<Longrightarrow> xs[j := v] ! i = (if i = j then v else xs ! i)"
  by (simp add: nth_list_update)

lemma map_nth_slice:
  "m + n \<le> length xs \<Longrightarrow> map (\<lambda>i. xs ! (m + i)) [0..<n] = take n (drop m xs)"
  by (intro nth_equalityI) auto

lemma list_eq_splice:
  assumes "length ys = length xs"
    and "\<And>i. i < length xs \<Longrightarrow> ys ! i = (if m \<le> i \<and> i < m + length zs then zs ! (i - m) else xs ! i)"
    and "m + length zs \<le> length xs"
  shows "ys = take m xs @ zs @ drop (m + length zs) xs"
  using assms by (intro nth_equalityI) (auto simp: nth_append)

end
