(* ===== verification/MsgBlock.thy ===== *)
theory MsgBlock
  imports Prelude
begin

text \<open>
  The 16-bit message block layer, \<open>sub/interface/i_msg_block.hpp\<close> and \<open>sub/src/i_msg_block.cpp\<close>.
  A pointer to blocks is \<open>u16 list option\<close> (\<open>None\<close> for \<open>nullptr\<close>) with its element count passed
  separately, as in the code; \<open>span_ok\<close> says that the count is within the array. A function that
  reports failure by returning \<open>false\<close> and leaves its output alone returns an option.
\<close>

definition k_block_bits :: nat where "k_block_bits = 16"
definition k_block_bytes :: nat where "k_block_bytes = 2"

definition span_ok :: "'a list option \<Rightarrow> nat \<Rightarrow> bool" where
  "span_ok bs n \<longleftrightarrow> (case bs of None \<Rightarrow> True | Some xs \<Rightarrow> n \<le> length xs)"

subsection \<open>The block view: raw word, bytes, single bits\<close>

definition byte_lo :: "u16 \<Rightarrow> u8" where
  "byte_lo x = ucast (bf_get 0 8 x)"

definition byte_hi :: "u16 \<Rightarrow> u8" where
  "byte_hi x = ucast (bf_get 8 8 x)"

definition set_byte_lo :: "u16 \<Rightarrow> u8 \<Rightarrow> u16" where
  "set_byte_lo x v = bf_put 0 8 x (ucast v)"

definition set_byte_hi :: "u16 \<Rightarrow> u8 \<Rightarrow> u16" where
  "set_byte_hi x v = bf_put 8 8 x (ucast v)"

definition read_discrete :: "u16 \<Rightarrow> u8 \<Rightarrow> u32 option" where
  "read_discrete block block_offset =
     (if unat block_offset < 16
      then Some (ucast (bf_get (unat block_offset) 1 block)) else None)"

definition write_discrete :: "u16 \<Rightarrow> u8 \<Rightarrow> bool \<Rightarrow> u16 option" where
  "write_discrete block block_offset v =
     (if unat block_offset < 16
      then Some (bf_put (unat block_offset) 1 block (if v then 1 else 0)) else None)"

subsection \<open>Layout, value, byte and copy operations\<close>

definition layout_supported :: "u8 \<Rightarrow> int \<Rightarrow> bool" where
  "layout_supported width_bits block_offset =
     (if block_offset < 0 \<or> block_offset \<ge> int k_block_bits then False
      else if width_bits = 1 then True
      else if width_bits = 8 then block_offset = 0 \<or> block_offset = 8
      else if width_bits = 16 then block_offset = 0
      else False)"

definition read_value ::
    "u16 list option \<Rightarrow> nat \<Rightarrow> nat \<Rightarrow> u8 \<Rightarrow> u8 \<Rightarrow> u32 option" where
  "read_value blocks block_count block_n block_offset width_bits =
     (case blocks of None \<Rightarrow> None
      | Some xs \<Rightarrow>
        if width_bits = 0 \<or> block_n \<ge> block_count then None
        else let block = xs ! block_n in
          if width_bits = 1 then read_discrete block block_offset
          else if width_bits = 8 then
            (if block_offset = 0 then Some (ucast (byte_lo block))
             else if block_offset = 8 then Some (ucast (byte_hi block))
             else None)
          else if width_bits = 16 then
            (if block_offset \<noteq> 0 then None else Some (ucast block))
          else None)"

definition write_value ::
    "u16 list option \<Rightarrow> nat \<Rightarrow> nat \<Rightarrow> u8 \<Rightarrow> u8 \<Rightarrow> u32 \<Rightarrow> u16 list option" where
  "write_value blocks block_count block_n block_offset width_bits raw_value =
     (case blocks of None \<Rightarrow> None
      | Some xs \<Rightarrow>
        if width_bits = 0 \<or> block_n \<ge> block_count then None
        else let block = xs ! block_n in
          map_option (\<lambda>b. xs[block_n := b])
           (if width_bits = 1 then write_discrete block block_offset (raw_value \<noteq> 0)
            else if width_bits = 8 then
              (if block_offset = 0 then Some (set_byte_lo block (ucast raw_value))
               else if block_offset = 8 then Some (set_byte_hi block (ucast raw_value))
               else None)
            else if width_bits = 16 then
              (if block_offset \<noteq> 0 then None else Some (ucast raw_value))
            else None))"

definition blk_read_byte :: "u16 list option \<Rightarrow> nat \<Rightarrow> nat \<Rightarrow> u8 option" where
  "blk_read_byte blocks block_count byte_index =
     (let block_n = byte_index div k_block_bytes in
      case blocks of None \<Rightarrow> None
      | Some xs \<Rightarrow>
        if block_n \<ge> block_count then None
        else Some (if byte_index mod k_block_bytes = 0
                   then byte_lo (xs ! block_n) else byte_hi (xs ! block_n)))"

definition blk_write_byte :: "u16 list option \<Rightarrow> nat \<Rightarrow> nat \<Rightarrow> u8 \<Rightarrow> u16 list option" where
  "blk_write_byte blocks block_count byte_index v =
     (let block_n = byte_index div k_block_bytes in
      case blocks of None \<Rightarrow> None
      | Some xs \<Rightarrow>
        if block_n \<ge> block_count then None
        else Some (xs[block_n := (if byte_index mod k_block_bytes = 0
                                  then set_byte_lo (xs ! block_n) v
                                  else set_byte_hi (xs ! block_n) v)]))"

text \<open>The copy loop: \<open>count\<close> steps from index \<open>i\<close>, one element each.\<close>

fun copy_loop :: "nat \<Rightarrow> nat \<Rightarrow> u16 list \<Rightarrow> nat \<Rightarrow> u16 list \<Rightarrow> nat \<Rightarrow> u16 list" where
  "copy_loop 0 i dst doff src soff = dst"
| "copy_loop (Suc count) i dst doff src soff =
     copy_loop count (Suc i) (dst[doff + i := src ! (soff + i)]) doff src soff"

definition copy_blocks ::
    "u16 list option \<Rightarrow> nat \<Rightarrow> nat \<Rightarrow> u16 list option \<Rightarrow> nat \<Rightarrow> nat \<Rightarrow> nat \<Rightarrow> u16 list option" where
  "copy_blocks dst dst_block_count dst_block_offset src src_block_count src_block_offset blocks_to_copy =
     (case dst of None \<Rightarrow> dst
      | Some d \<Rightarrow>
        (case src of None \<Rightarrow> dst
         | Some s \<Rightarrow>
           if blocks_to_copy = 0 then dst
           else if dst_block_offset \<ge> dst_block_count \<or> src_block_offset \<ge> src_block_count then dst
           else
             let dst_available = dst_block_count - dst_block_offset;
                 src_available = src_block_count - src_block_offset;
                 count = min blocks_to_copy (min dst_available src_available)
             in Some (copy_loop count 0 d dst_block_offset s src_block_offset)))"

subsection \<open>Every supported layout is one bit range\<close>

definition slot_supported :: "u8 \<Rightarrow> u8 \<Rightarrow> bool" where
  "slot_supported off w \<longleftrightarrow> layout_supported w (int (unat off))"

lemma u8_eq_iff: "(x::u8) = y \<longleftrightarrow> unat x = unat y"
  by (rule word_unat_eq_iff)

lemma slot_supported_iff:
  "slot_supported off w \<longleftrightarrow>
     unat w = 1 \<and> unat off < 16 \<or> unat w = 8 \<and> (unat off = 0 \<or> unat off = 8) \<or>
     unat w = 16 \<and> unat off = 0"
proof -
  have "layout_supported w (int k) \<longleftrightarrow>
     unat w = 1 \<and> k < 16 \<or> unat w = 8 \<and> (k = 0 \<or> k = 8) \<or> unat w = 16 \<and> k = 0" for k
    by (auto simp: layout_supported_def k_block_bits_def u8_eq_iff)
  from this [of "unat off"] show ?thesis unfolding slot_supported_def .
qed

lemma slot_supported_range: "slot_supported off w \<Longrightarrow> unat off + unat w \<le> 16"
  by (auto simp: slot_supported_iff)

lemma bf_16: "bf_get 0 16 (x::u16) = x" "bf_put 0 16 (x::u16) v = v"
  by (intro bit_word_eqI; auto simp: bitfield_simps)+

text \<open>The value a slot of width \<open>w\<close> stores for a raw value: a single bit stores "not zero".\<close>

definition slot_norm :: "u8 \<Rightarrow> u32 \<Rightarrow> u32" where
  "slot_norm w v = (if w = 1 then (if v \<noteq> 0 then 1 else 0) else take_bit (unat w) v)"

lemma read_value_bf:
  "read_value (Some xs) n bn off w =
     (if bn < n \<and> slot_supported off w
      then Some (ucast (bf_get (unat off) (unat w) (xs ! bn))) else None)"
proof -
  have b: "ucast (ucast (bf_get k 8 x) :: u8) = (ucast (bf_get k 8 x) :: u32)" for k and x :: u16
    by (intro bit_word_eqI) (auto simp: bit_simps bitfield_simps)
  show ?thesis
    by (auto simp: read_value_def Let_def slot_supported_iff read_discrete_def byte_lo_def
        byte_hi_def b bf_16 u8_eq_iff)
qed

lemma write_value_bf:
  "write_value (Some xs) n bn off w v =
     (if bn < n \<and> slot_supported off w
      then Some (xs[bn := bf_put (unat off) (unat w) (xs ! bn) (ucast (slot_norm w v))]) else None)"
proof -
  have b: "bf_put k 8 x (ucast (ucast v :: u8)) = bf_put k 8 x (ucast (take_bit 8 v))"
    for k and x :: u16
    by (intro bit_word_eqI) (auto simp: bit_simps bitfield_simps)
  have c: "ucast (take_bit 16 v) = (ucast v :: u16)"
    by (intro bit_word_eqI) (auto simp: bit_simps)
  show ?thesis
    by (auto simp: write_value_def Let_def slot_supported_iff write_discrete_def set_byte_lo_def
        set_byte_hi_def b c bf_16 u8_eq_iff slot_norm_def)
qed

lemma value_null [simp]:
  "read_value None n bn off w = None" "write_value None n bn off w v = None"
  by (simp_all add: read_value_def write_value_def)

lemma slot_norm_take:
  assumes "slot_supported off w"
  shows "take_bit (unat w) (slot_norm w v) = slot_norm w v"
proof -
  have one: "take_bit (unat w) (1::u32) = 1" if "w = 1"
    using that by simp
  show ?thesis by (simp add: slot_norm_def one)
qed

lemma slot_norm_idem [simp]: "slot_norm w (slot_norm w v) = slot_norm w v"
  by (simp add: slot_norm_def)

lemma ucast_take_16:
  assumes "k \<le> 16"
  shows "ucast (take_bit k (ucast (v::u32) :: u16)) = (take_bit k v :: u32)"
  using assms by (intro bit_word_eqI) (auto simp: bit_simps)

lemma read_slot_norm:
  assumes "slot_supported off w"
  shows "slot_norm w (ucast (bf_get (unat off) (unat w) (x::u16))) = ucast (bf_get (unat off) (unat w) x)"
proof (cases "w = 1")
  case True
  define b where "b = (ucast (bf_get (unat off) 1 x) :: u32)"
  have "\<not> bit b i" if "i \<noteq> 0" for i
    using that by (simp add: b_def bit_simps bitfield_simps)
  then have "b = (if bit b 0 then 1 else 0)"
    by (intro bit_word_eqI) (auto simp: bit_1_iff, metis neq0_conv)
  then have "b = 0 \<or> b = 1" by metis
  then show ?thesis using True by (auto simp: slot_norm_def b_def)
next
  case False
  then show ?thesis
    by (intro bit_word_eqI) (auto simp: slot_norm_def bit_simps bitfield_simps)
qed

subsection \<open>The block memory as a slot memory\<close>

text \<open>
  A slot is (block, offset, width); a memory is the block array with its count. Two slots are
  apart when they lie in different blocks or in disjoint bit ranges of one block.
\<close>

type_synonym block_slot = "nat \<times> u8 \<times> u8"
type_synonym block_mem = "u16 list option \<times> nat"

definition blk_rd :: "block_mem \<Rightarrow> block_slot \<Rightarrow> u32 option" where
  "blk_rd = (\<lambda>(bs, n) (bn, off, w). read_value bs n bn off w)"

definition blk_wr :: "block_mem \<Rightarrow> block_slot \<Rightarrow> u32 \<Rightarrow> block_mem option" where
  "blk_wr = (\<lambda>(bs, n) (bn, off, w) v.
     map_option (\<lambda>xs. (Some xs, n)) (write_value bs n bn off w v))"

definition blk_inv :: "block_mem \<Rightarrow> bool" where
  "blk_inv = (\<lambda>(bs, n). span_ok bs n)"

definition blk_apart :: "block_slot \<Rightarrow> block_slot \<Rightarrow> bool" where
  "blk_apart = (\<lambda>(bn, off, w) (bn', off', w').
     bn \<noteq> bn' \<or> unat off + unat w \<le> unat off' \<or> unat off' + unat w' \<le> unat off)"

definition blk_fit :: "block_slot \<Rightarrow> u32 \<Rightarrow> bool" where
  "blk_fit = (\<lambda>(bn, off, w) v. slot_norm w v = v)"

lemma read_after_write:
  assumes "span_ok bs n" and "write_value bs n bn off w v = Some xs"
  shows "read_value (Some xs) n bn off w = Some (slot_norm w v)"
proof (cases bs)
  case None
  with assms show ?thesis by simp
next
  case (Some ys)
  with assms have sup: "slot_supported off w" and bn: "bn < n" "n \<le> length ys"
    and xs: "xs = ys[bn := bf_put (unat off) (unat w) (ys ! bn) (ucast (slot_norm w v))]"
    by (auto simp: write_value_bf span_ok_def split: if_splits)
  from sup have le: "unat off + unat w \<le> 16" by (rule slot_supported_range)
  then have "unat w \<le> 16" by simp
  with le sup bn show ?thesis
    by (simp add: read_value_bf xs bf_get_put_same ucast_take_16 slot_norm_take)
qed

lemma read_after_write_apart:
  assumes "span_ok bs n" and "write_value bs n bn off w v = Some xs"
    and "blk_apart (bn, off, w) (bn', off', w')"
  shows "read_value (Some xs) n bn' off' w' = read_value bs n bn' off' w'"
proof (cases bs)
  case None
  with assms show ?thesis by simp
next
  case (Some ys)
  with assms(1,2) have bn: "bn < n" "n \<le> length ys"
    and xs: "xs = ys[bn := bf_put (unat off) (unat w) (ys ! bn) (ucast (slot_norm w v))]"
    by (auto simp: write_value_bf span_ok_def split: if_splits)
  show ?thesis
  proof (cases "bn' = bn")
    case True
    with assms(3) have "unat off' + unat w' \<le> unat off \<or> unat off + unat w \<le> unat off'"
      by (auto simp: blk_apart_def)
    with True bn show ?thesis
      by (simp add: Some read_value_bf xs bf_get_put_other)
  next
    case False
    with bn show ?thesis by (simp add: Some read_value_bf xs)
  qed
qed

lemma write_defined_iff: "write_value bs n bn off w v \<noteq> None \<longleftrightarrow> read_value bs n bn off w \<noteq> None"
  by (cases bs) (simp_all add: write_value_bf read_value_bf)

lemma write_value_span:
  "write_value bs n bn off w v = Some xs \<Longrightarrow> span_ok bs n \<Longrightarrow> span_ok (Some xs) n"
  by (cases bs) (auto simp: write_value_bf span_ok_def split: if_splits)

lemma write_value_length:
  "write_value (Some ys) n bn off w v = Some xs \<Longrightarrow> length xs = length ys"
  by (auto simp: write_value_bf split: if_splits)

interpretation blkmem: slot_memory blk_rd blk_wr blk_inv blk_apart blk_fit
proof unfold_locales
  fix m :: block_mem and a :: block_slot and v :: u32 and m' :: block_mem and b :: block_slot
  obtain bs n where m: "m = (bs, n)" by (cases m)
  obtain bn off w where a: "a = (bn, off, w)" by (cases a)
  obtain bn' off' w' where b: "b = (bn', off', w')" by (cases b)
  show "blk_wr m a v \<noteq> None \<longleftrightarrow> blk_rd m a \<noteq> None"
    using write_defined_iff [of bs n bn off w v]
    by (simp add: m a blk_wr_def blk_rd_def)
  show "blk_inv m \<Longrightarrow> blk_wr m a v = Some m' \<Longrightarrow> blk_inv m'"
    by (auto simp: m a blk_wr_def blk_inv_def dest: write_value_span)
  show "blk_inv m \<Longrightarrow> blk_wr m a v = Some m' \<Longrightarrow> blk_fit a v \<Longrightarrow> blk_rd m' a = Some v"
    by (auto simp: m a blk_wr_def blk_inv_def blk_rd_def blk_fit_def read_after_write)
  show "blk_inv m \<Longrightarrow> blk_wr m a v = Some m' \<Longrightarrow> blk_apart a b \<Longrightarrow> blk_rd m' b = blk_rd m b"
    by (auto simp: m a b blk_wr_def blk_inv_def blk_rd_def read_after_write_apart)
  show "blk_rd m a = Some v \<Longrightarrow> blk_fit a v"
    by (cases bs) (auto simp: m a blk_rd_def blk_fit_def read_value_bf read_slot_norm split: if_splits)
qed

subsection \<open>The copy loop as a slice\<close>

lemma copy_loop_length [simp]: "length (copy_loop n i dst doff src soff) = length dst"
  by (induction n arbitrary: i dst) simp_all

lemma copy_loop_nth:
  "j < length dst \<Longrightarrow> copy_loop n i dst doff src soff ! j =
     (if doff + i \<le> j \<and> j < doff + i + n then src ! (soff + (j - doff)) else dst ! j)"
proof (induction n arbitrary: i dst)
  case 0
  then show ?case by auto
next
  case (Suc n)
  then show ?case by (cases "j = doff + i") (auto simp: nth_list_update)
qed

lemma copy_loop_slice:
  assumes "doff + n \<le> length dst" and "soff + n \<le> length src"
  shows "copy_loop n 0 dst doff src soff =
    take doff dst @ take n (drop soff src) @ drop (doff + n) dst"
proof -
  have "copy_loop n 0 dst doff src soff =
      take doff dst @ take n (drop soff src) @ drop (doff + length (take n (drop soff src))) dst"
    using assms by (intro list_eq_splice) (auto simp: copy_loop_nth)
  then show ?thesis using assms by simp
qed

definition copy_count :: "nat \<Rightarrow> nat \<Rightarrow> nat \<Rightarrow> nat \<Rightarrow> nat \<Rightarrow> nat" where
  "copy_count dn doff sn soff n =
     (if doff \<ge> dn \<or> soff \<ge> sn then 0 else min n (min (dn - doff) (sn - soff)))"

lemma copy_blocks_Some:
  "copy_blocks (Some d) dn doff (Some s) sn soff n = Some (copy_loop (copy_count dn doff sn soff n) 0 d doff s soff)"
  by (simp add: copy_blocks_def copy_count_def Let_def)

lemma copy_blocks_null [simp]:
  "copy_blocks None dn doff src sn soff n = None"
  "copy_blocks dst dn doff None sn soff n = dst"
  by (simp_all add: copy_blocks_def split: option.split)

subsection \<open>Byte access\<close>

lemma byte_lo_hi_bits:
  "bit (byte_lo x) i \<longleftrightarrow> i < 8 \<and> bit x i"
  "bit (byte_hi x) i \<longleftrightarrow> i < 8 \<and> bit x (8 + i)"
  by (auto simp: byte_lo_def byte_hi_def bit_simps bitfield_simps)

lemma byte_set_simps [simp]:
  "byte_lo (set_byte_lo x v) = v" "byte_hi (set_byte_lo x v) = byte_hi x"
  "byte_lo (set_byte_hi x v) = byte_lo x" "byte_hi (set_byte_hi x v) = v"
  by (rule bit_word_eqI; auto simp: byte_lo_hi_bits set_byte_lo_def set_byte_hi_def
      bitfield_simps bit_simps)+

lemma block_of_bytes: "byte_lo x = byte_lo y \<Longrightarrow> byte_hi x = byte_hi y \<Longrightarrow> x = y"
proof (rule bit_word_eqI)
  fix n
  assume lo: "byte_lo x = byte_lo y" and hi: "byte_hi x = byte_hi y" and n: "n < LENGTH(16)"
  show "bit x n \<longleftrightarrow> bit y n"
  proof (cases "n < 8")
    case True
    then show ?thesis using lo byte_lo_hi_bits(1) [of x n] byte_lo_hi_bits(1) [of y n] by simp
  next
    case False
    with n have "n - 8 < 8" by simp
    with False show ?thesis
      using hi byte_lo_hi_bits(2) [of x "n - 8"] byte_lo_hi_bits(2) [of y "n - 8"] by simp
  qed
qed

lemma blk_read_byte_write_byte:
  assumes "span_ok (Some xs) n" and "blk_write_byte (Some xs) n k v = Some ys"
  shows "blk_read_byte (Some ys) n j = (if j = k then Some v else blk_read_byte (Some xs) n j)"
proof -
  have len: "n \<le> length xs" using assms(1) by (simp add: span_ok_def)
  have ys: "k div 2 < n"
    "ys = xs[k div 2 := (if k mod 2 = 0 then set_byte_lo (xs ! (k div 2)) v
                          else set_byte_hi (xs ! (k div 2)) v)]"
    using assms(2) by (auto simp: blk_write_byte_def Let_def k_block_bytes_def split: if_splits)
  consider "j = k" | "j \<noteq> k" "j div 2 = k div 2" | "j div 2 \<noteq> k div 2" by blast
  then show ?thesis
  proof cases
    case 1
    then show ?thesis using ys len by (simp add: blk_read_byte_def Let_def k_block_bytes_def)
  next
    case 2
    then have "(j mod 2 = 0) \<noteq> (k mod 2 = 0)"
      by presburger
    then show ?thesis using ys len 2 by (auto simp: blk_read_byte_def Let_def k_block_bytes_def)
  next
    case 3
    then have "j \<noteq> k" by auto
    then show ?thesis using ys len 3 by (auto simp: blk_read_byte_def Let_def k_block_bytes_def)
  qed
qed

lemma blk_write_byte_defined:
  "blk_write_byte (Some xs) n k v \<noteq> None \<longleftrightarrow> k < 2 * n"
  by (auto simp: blk_write_byte_def Let_def k_block_bytes_def)

lemma blk_write_byte_length:
  "blk_write_byte (Some xs) n k v = Some ys \<Longrightarrow> length ys = length xs"
  by (auto simp: blk_write_byte_def Let_def split: if_splits)

subsection \<open>Properties\<close>

text \<open>
  C12: writing a value into a message-block slot succeeds exactly when the slot's layout is
  supported and its block is inside the array; afterwards the slot reads back as the value
  reduced to the slot's width (a single bit stores "not zero"), every slot that does not overlap
  it reads as before, and the array keeps its length.
\<close>

theorem write_value_correct:
  assumes "span_ok (Some xs) n"
  shows "(write_value (Some xs) n bn off w v \<noteq> None \<longleftrightarrow>
            bn < n \<and> layout_supported w (int (unat off))) \<and>
         (\<forall>ys. write_value (Some xs) n bn off w v = Some ys \<longrightarrow>
            length ys = length xs \<and>
            read_value (Some ys) n bn off w =
              Some (if w = 1 then (if v \<noteq> 0 then 1 else 0) else take_bit (unat w) v) \<and>
            (\<forall>bn' off' w'. blk_apart (bn, off, w) (bn', off', w') \<longrightarrow>
               read_value (Some ys) n bn' off' w' = read_value (Some xs) n bn' off' w'))"
  using assms read_after_write [of "Some xs" n bn off w v]
    read_after_write_apart [of "Some xs" n bn off w v]
  by (auto simp: write_value_bf slot_supported_def slot_norm_def [symmetric]
      dest: write_value_length)

theorem write_value_correct_witness:
  "write_value (Some [0x1234, 0xFFFF]) 2 1 8 8 0xAB = Some [0x1234, 0xABFF] \<and>
   read_value (Some [0x1234, 0xABFF]) 2 1 8 8 = Some 0xAB \<and>
   read_value (Some [0x1234, 0xABFF]) 2 1 3 1 = read_value (Some [0x1234, 0xFFFF]) 2 1 3 1"
proof -
  have s: "span_ok (Some [0x1234, 0xFFFF :: u16]) 2" by (simp add: span_ok_def)
  have w: "write_value (Some [0x1234, 0xFFFF]) 2 1 8 8 0xAB = Some [0x1234, 0xABFF]" by code_simp
  have ap: "blk_apart (1, 8, 8) (1, 3, 1)" by (simp add: blk_apart_def)
  show ?thesis
    using write_value_correct [OF s, of 1 8 8 "0xAB"] w ap by simp
qed

text \<open>
  \<open>copy_blocks\<close> copies exactly the requested number of blocks, cut to what both arrays hold
  past their offsets, as one slice; it changes nothing outside that window and never the length.
\<close>

lemma copy_blocks_slice:
  assumes "span_ok (Some d) dn" and "span_ok (Some s) sn"
  shows "copy_blocks (Some d) dn doff (Some s) sn soff n =
    (let c = copy_count dn doff sn soff n
     in Some (if c = 0 then d else take doff d @ take c (drop soff s) @ drop (doff + c) d))"
proof -
  let ?c = "copy_count dn doff sn soff n"
  show ?thesis
  proof (cases "?c = 0")
    case True
    then show ?thesis by (simp add: copy_blocks_Some)
  next
    case False
    then have "doff + ?c \<le> length d" "soff + ?c \<le> length s"
      using assms by (auto simp: copy_count_def span_ok_def split: if_splits)
    then have "copy_loop ?c 0 d doff s soff = take doff d @ take ?c (drop soff s) @ drop (doff + ?c) d"
      by (rule copy_loop_slice)
    with False show ?thesis by (simp add: copy_blocks_Some Let_def)
  qed
qed

lemma copy_blocks_slice_witness:
  "copy_blocks (Some [0, 0, 0, 9]) 4 1 (Some [1, 2, 3, 4, 5]) 5 0 2 = Some [0, 1, 2, 9] \<and>
   copy_blocks (Some [0, 0, 0, 9]) 4 1 (Some [1, 2, 3, 4, 5]) 5 0 99 = Some [0, 1, 2, 3]"
  using copy_blocks_slice [of "[0, 0, 0, 9]" 4 "[1, 2, 3, 4, 5]" 5 1 0 2]
    copy_blocks_slice [of "[0, 0, 0, 9]" 4 "[1, 2, 3, 4, 5]" 5 1 0 99]
  by (simp add: span_ok_def copy_count_def)

end
