(* ===== verification/MsgHeader.thy ===== *)
theory MsgHeader
  imports MsgBlock
begin

text \<open>
  The frame header, \<open>sub/interface/i_msg_header.hpp\<close> and \<open>sub/src/i_msg_header.cpp\<close>: sixteen bits
  holding a parity bit, a 5-bit address, a 2-bit message flag, a 3-bit marker and a 5-bit block
  count, read and written through a union with a raw word and two bytes.

  The header storage is reached through two pointers, a \<open>u16\<close> view and a byte view; \<open>u16 option\<close>
  and \<open>(u8 \<times> u8) option\<close> hold what each points to (\<open>None\<close> for \<open>nullptr\<close>). In the program both
  point to the same union, so a state is \<open>hdr_coherent\<close> when the views that exist agree.
\<close>

definition k_header_bytes :: nat where "k_header_bytes = 2"

type_synonym hdr_views = "u16 option \<times> (u8 \<times> u8) option"

record hdr_value =
  hv_parity :: u8
  hv_addr :: u8
  hv_flag :: u8
  hv_marker :: u8
  hv_nblocks :: u8

definition hdr_value0 :: hdr_value where
  "hdr_value0 = \<lparr>hv_parity = 0, hv_addr = 0, hv_flag = 0, hv_marker = 0, hv_nblocks = 0\<rparr>"

subsection \<open>The bit-fields\<close>

definition bits_parity :: "u16 \<Rightarrow> u8" where "bits_parity x = ucast (bf_get 0 1 x)"
definition bits_addr :: "u16 \<Rightarrow> u8" where "bits_addr x = ucast (bf_get 1 5 x)"
definition bits_flag :: "u16 \<Rightarrow> u8" where "bits_flag x = ucast (bf_get 6 2 x)"
definition bits_marker :: "u16 \<Rightarrow> u8" where "bits_marker x = ucast (bf_get 8 3 x)"
definition bits_nblocks :: "u16 \<Rightarrow> u8" where "bits_nblocks x = ucast (bf_get 11 5 x)"

definition set_bits_parity :: "u16 \<Rightarrow> u8 \<Rightarrow> u16" where "set_bits_parity x v = bf_put 0 1 x (ucast v)"
definition set_bits_addr :: "u16 \<Rightarrow> u8 \<Rightarrow> u16" where "set_bits_addr x v = bf_put 1 5 x (ucast v)"
definition set_bits_flag :: "u16 \<Rightarrow> u8 \<Rightarrow> u16" where "set_bits_flag x v = bf_put 6 2 x (ucast v)"
definition set_bits_marker :: "u16 \<Rightarrow> u8 \<Rightarrow> u16" where "set_bits_marker x v = bf_put 8 3 x (ucast v)"
definition set_bits_nblocks :: "u16 \<Rightarrow> u8 \<Rightarrow> u16" where "set_bits_nblocks x v = bf_put 11 5 x (ucast v)"

lemmas hdr_bits_defs =
  bits_parity_def bits_addr_def bits_flag_def bits_marker_def bits_nblocks_def
  set_bits_parity_def set_bits_addr_def set_bits_flag_def set_bits_marker_def set_bits_nblocks_def

subsection \<open>Parity, \<open>make\<close> and \<open>parse\<close>\<close>

text \<open>\<open>std::popcount\<close>: the number of one bits.\<close>

definition popcount :: "'a::len word \<Rightarrow> nat" where
  "popcount x = length (filter (bit x) [0..<LENGTH('a)])"

definition calc_parity :: "u16 \<Rightarrow> u8" where
  "calc_parity raw_header = of_nat (popcount (set_bits_parity raw_header 0)) AND 1"

definition hdr_make :: "u8 \<Rightarrow> u8 \<Rightarrow> u8 \<Rightarrow> u8 \<Rightarrow> u16" where
  "hdr_make addr flag marker nblocks =
     (let h1 = set_bits_addr 0 addr;
          h2 = set_bits_flag h1 flag;
          h3 = set_bits_marker h2 marker;
          h4 = set_bits_nblocks h3 nblocks
      in set_bits_parity h4 (calc_parity h4))"

definition parity_ok :: "u16 \<Rightarrow> bool" where
  "parity_ok raw_header \<longleftrightarrow> bits_parity raw_header = calc_parity raw_header"

definition parse :: "u16 \<Rightarrow> hdr_value option" where
  "parse raw_header =
     (if \<not> parity_ok raw_header then None
      else Some \<lparr>hv_parity = bits_parity raw_header, hv_addr = bits_addr raw_header,
                 hv_flag = bits_flag raw_header, hv_marker = bits_marker raw_header,
                 hv_nblocks = bits_nblocks raw_header\<rparr>)"

subsection \<open>Header storage\<close>

definition load_view :: "hdr_views \<Rightarrow> u16" where
  "load_view = (\<lambda>(h16, h8).
     case h16 of Some x \<Rightarrow> x
     | None \<Rightarrow> (case h8 of Some (lo, hi) \<Rightarrow> set_byte_hi (set_byte_lo 0 lo) hi | None \<Rightarrow> 0))"

definition read_raw :: "hdr_views \<Rightarrow> u16 option" where
  "read_raw h = (if fst h = None \<and> snd h = None then None else Some (load_view h))"

definition write_raw :: "hdr_views \<Rightarrow> u16 \<Rightarrow> hdr_views" where
  "write_raw = (\<lambda>(h16, h8) raw_header.
     (map_option (\<lambda>_. raw_header) h16,
      map_option (\<lambda>_. (byte_lo raw_header, byte_hi raw_header)) h8))"

definition hdr_read_byte :: "hdr_views \<Rightarrow> nat \<Rightarrow> u8 option" where
  "hdr_read_byte h byte_index =
     (if byte_index \<ge> k_header_bytes then None
      else Some (if byte_index = 0 then byte_lo (load_view h) else byte_hi (load_view h)))"

definition hdr_write_byte :: "hdr_views \<Rightarrow> nat \<Rightarrow> u8 \<Rightarrow> hdr_views option" where
  "hdr_write_byte h byte_index v =
     (if byte_index \<ge> k_header_bytes then None
      else Some (write_raw h (if byte_index = 0 then set_byte_lo (load_view h) v
                              else set_byte_hi (load_view h) v)))"

definition parse_storage :: "hdr_views \<Rightarrow> hdr_value option" where
  "parse_storage h = (case read_raw h of None \<Rightarrow> None | Some raw \<Rightarrow> parse raw)"

definition write_storage :: "hdr_views \<Rightarrow> hdr_value \<Rightarrow> hdr_views" where
  "write_storage h v = write_raw h (hdr_make (hv_addr v) (hv_flag v) (hv_marker v) (hv_nblocks v))"

definition hdr_coherent :: "hdr_views \<Rightarrow> bool" where
  "hdr_coherent h \<longleftrightarrow>
     (case h of (Some x, Some (lo, hi)) \<Rightarrow> lo = byte_lo x \<and> hi = byte_hi x | _ \<Rightarrow> True)"

subsection \<open>The five fields as parts of the header word\<close>

text \<open>
  Each field is a \<open>field_access\<close>; any two are a \<open>field_pair\<close>. The generic lemma about two
  disjoint bit ranges gives all of them.
\<close>

definition fld_get :: "nat \<Rightarrow> nat \<Rightarrow> u16 \<Rightarrow> u8" where
  "fld_get off w x = ucast (bf_get off w x)"

definition fld_put :: "nat \<Rightarrow> nat \<Rightarrow> u16 \<Rightarrow> u8 \<Rightarrow> u16" where
  "fld_put off w x v = bf_put off w x (ucast v)"

definition fld_fits :: "nat \<Rightarrow> u8 \<Rightarrow> bool" where
  "fld_fits w v \<longleftrightarrow> take_bit w v = v"

lemma fld_fits_bit: "fld_fits w v \<Longrightarrow> bit v i \<Longrightarrow> i < w"
  unfolding fld_fits_def by (metis bit_take_bit_iff)

lemma fld_fits_less: "v < 2 ^ w \<Longrightarrow> fld_fits w v"
  unfolding fld_fits_def
  by (metis take_bit_eq_mod mod_word_less)

lemma field_access_fld:
  assumes "off + w \<le> 16" "w \<le> 8"
  shows "field_access (fld_get off w) (fld_put off w) (fld_fits w)"
proof
  fix v s u
  show "fld_fits w v \<Longrightarrow> fld_get off w (fld_put off w s v) = v"
    using assms
    by (intro bit_word_eqI)
      (auto simp: fld_get_def fld_put_def bitfield_simps bit_simps dest: fld_fits_bit bit_imp_le_length)
  show "fld_put off w s (fld_get off w s) = s"
    using assms by (intro bit_word_eqI)
      (auto simp: fld_get_def fld_put_def bitfield_simps bit_simps dest: bit_imp_le_length)
  show "fld_put off w (fld_put off w s v) u = fld_put off w s u"
    by (simp add: fld_put_def bf_put_put)
  show "fld_fits w (fld_get off w s)"
    unfolding fld_fits_def
    by (intro bit_word_eqI) (auto simp: fld_get_def bitfield_simps bit_simps)
qed

lemma field_pair_fld:
  assumes "off + w \<le> 16" "w \<le> 8" "off' + w' \<le> 16" "w' \<le> 8" "off + w \<le> off' \<or> off' + w' \<le> off"
  shows "field_pair (fld_get off w) (fld_put off w) (fld_fits w)
    (fld_get off' w') (fld_put off' w') (fld_fits w')"
  using assms
  by (intro field_pair.intro field_access_fld field_pair_axioms.intro)
    (auto simp: fld_get_def fld_put_def bf_get_put_other bf_put_commute)

lemmas hdr_fld_defs = fld_get_def fld_put_def hdr_bits_defs

text \<open>The fields of the header in terms of the generic ones.\<close>

lemma hdr_field_eqs:
  "bits_parity = fld_get 0 1" "bits_addr = fld_get 1 5" "bits_flag = fld_get 6 2"
  "bits_marker = fld_get 8 3" "bits_nblocks = fld_get 11 5"
  "set_bits_parity = fld_put 0 1" "set_bits_addr = fld_put 1 5" "set_bits_flag = fld_put 6 2"
  "set_bits_marker = fld_put 8 3" "set_bits_nblocks = fld_put 11 5"
  by (simp_all add: fun_eq_iff hdr_fld_defs)

interpretation addr_nblocks: field_pair bits_addr set_bits_addr "fld_fits 5" bits_nblocks set_bits_nblocks "fld_fits 5"
  unfolding hdr_field_eqs by (rule field_pair_fld) simp_all

interpretation flag_marker: field_pair bits_flag set_bits_flag "fld_fits 2" bits_marker set_bits_marker "fld_fits 3"
  unfolding hdr_field_eqs by (rule field_pair_fld) simp_all

interpretation parity_fld: field_access bits_parity set_bits_parity "fld_fits 1"
  unfolding hdr_field_eqs by (rule field_access_fld) simp_all

lemma fld_get_put_other:
  "off + w \<le> off' \<or> off' + w' \<le> off \<Longrightarrow> fld_get off w (fld_put off' w' x v) = fld_get off w x"
  by (simp add: fld_get_def fld_put_def bf_get_put_other)

lemma fld_get_put_trunc:
  "off + w \<le> 16 \<Longrightarrow> w \<le> 8 \<Longrightarrow> fld_get off w (fld_put off w x v) = take_bit w v"
  by (intro bit_word_eqI)
    (auto simp: fld_get_def fld_put_def bitfield_simps bit_simps dest: bit_imp_le_length)

subsection \<open>Parity\<close>

lemma popcount_update:
  fixes x y :: "'a::len word"
  assumes "k < LENGTH('a)" and "\<And>i. i < LENGTH('a) \<Longrightarrow> i \<noteq> k \<Longrightarrow> bit y i = bit x i"
    and "bit y k \<noteq> bit x k"
  shows "odd (popcount y) \<longleftrightarrow> even (popcount x)"
proof -
  have split: "[0..<LENGTH('a)] = [0..<k] @ [k] @ [Suc k..<LENGTH('a)]"
    using assms(1) upt_add_eq_append [of 0 k "LENGTH('a) - k"] upt_conv_Cons [of k "LENGTH('a)"]
    by simp
  have "filter (bit y) [0..<k] = filter (bit x) [0..<k]"
    "filter (bit y) [Suc k..<LENGTH('a)] = filter (bit x) [Suc k..<LENGTH('a)]"
    using assms(1,2) by (auto intro!: filter_cong)
  then show ?thesis using assms(3) by (simp add: popcount_def split)
qed

lemma odd_and_1: "(of_nat n AND 1 :: u8) = (if odd n then 1 else 0)"
  by (intro bit_word_eqI) (auto simp: bit_simps bit_0 bit_1_iff)

lemma calc_parity_eq: "calc_parity x = (if odd (popcount (set_bits_parity x 0)) then 1 else 0)"
  by (simp add: calc_parity_def odd_and_1)

lemma set_parity_cong:
  "(\<And>i. i < 16 \<Longrightarrow> i \<noteq> 0 \<Longrightarrow> bit x i = bit y i) \<Longrightarrow> set_bits_parity x v = set_bits_parity y v"
  by (intro bit_word_eqI) (auto simp: set_bits_parity_def bitfield_simps)

lemma calc_parity_ignores: "calc_parity (set_bits_parity x v) = calc_parity x"
  by (simp add: calc_parity_def parity_fld.put_put)

lemma calc_parity_fits: "fld_fits 1 (calc_parity x)"
  by (simp add: calc_parity_eq fld_fits_def)

lemma parity_ok_make: "parity_ok (set_bits_parity x (calc_parity x))"
  by (simp add: parity_ok_def calc_parity_ignores parity_fld.get_put [OF calc_parity_fits])

lemma bits_parity_01: "bits_parity x = (if bit x 0 then 1 else 0)"
  by (intro bit_word_eqI) (auto simp: bits_parity_def bitfield_simps bit_simps bit_1_iff)

text \<open>A header is accepted exactly when its sixteen bits hold an even number of ones.\<close>

lemma parity_ok_even: "parity_ok x \<longleftrightarrow> even (popcount x)"
proof (cases "bit x 0")
  case True
  have "odd (popcount (set_bits_parity x 0)) \<longleftrightarrow> even (popcount x)"
    using True by (intro popcount_update [of 0]) (auto simp: set_bits_parity_def bitfield_simps)
  with True show ?thesis by (auto simp: parity_ok_def calc_parity_eq bits_parity_01)
next
  case False
  then have "set_bits_parity x 0 = x"
    by (intro bit_word_eqI) (auto simp: set_bits_parity_def bitfield_simps)
  with False show ?thesis by (auto simp: parity_ok_def calc_parity_eq bits_parity_01)
qed

lemma field_values_make:
  "bits_parity (hdr_make a f m n) = calc_parity (hdr_make a f m n)"
  "bits_addr (hdr_make a f m n) = take_bit 5 a"
  "bits_flag (hdr_make a f m n) = take_bit 2 f"
  "bits_marker (hdr_make a f m n) = take_bit 3 m"
  "bits_nblocks (hdr_make a f m n) = take_bit 5 n"
proof -
  show "bits_parity (hdr_make a f m n) = calc_parity (hdr_make a f m n)"
    using parity_ok_make by (simp add: parity_ok_def hdr_make_def Let_def)
qed (simp_all add: hdr_make_def Let_def hdr_field_eqs fld_get_put_other fld_get_put_trunc)

lemma fld_get_eq_bit:
  assumes "fld_get off w x = fld_get off w y" and "off \<le> i" "i < off + w" "w \<le> 8"
  shows "bit x i \<longleftrightarrow> bit y i"
proof -
  from assms(2-4) have "i - off < w" "i - off < 8" "off + (i - off) = i" by auto
  then show ?thesis
    using arg_cong [OF assms(1), of "\<lambda>z. bit z (i - off)"]
    by (simp add: fld_get_def bitfield_simps bit_simps)
qed

lemma header_ext:
  assumes "bits_parity x = bits_parity y" "bits_addr x = bits_addr y" "bits_flag x = bits_flag y"
    "bits_marker x = bits_marker y" "bits_nblocks x = bits_nblocks y"
  shows "x = y"
proof (rule bit_word_eqI)
  fix i assume "i < LENGTH(16)"
  then consider "i < 0 + 1" | "1 \<le> i" "i < 1 + 5" | "6 \<le> i" "i < 6 + 2" | "8 \<le> i" "i < 8 + 3" | "11 \<le> i" "i < 11 + 5"
    by force
  then show "bit x i \<longleftrightarrow> bit y i"
  proof cases
    case 1
    show ?thesis by (rule fld_get_eq_bit [OF assms(1) [unfolded hdr_field_eqs] _ 1]) simp_all
  next
    case 2
    show ?thesis by (rule fld_get_eq_bit [OF assms(2) [unfolded hdr_field_eqs] 2]) simp
  next
    case 3
    show ?thesis by (rule fld_get_eq_bit [OF assms(3) [unfolded hdr_field_eqs] 3]) simp
  next
    case 4
    show ?thesis by (rule fld_get_eq_bit [OF assms(4) [unfolded hdr_field_eqs] 4]) simp
  next
    case 5
    show ?thesis by (rule fld_get_eq_bit [OF assms(5) [unfolded hdr_field_eqs] 5]) simp
  qed
qed

lemma make_of_parse:
  assumes "parse x = Some h"
  shows "hdr_make (hv_addr h) (hv_flag h) (hv_marker h) (hv_nblocks h) = x"
proof -
  from assms have ok: "bits_parity x = calc_parity x"
    and h: "h = \<lparr>hv_parity = bits_parity x, hv_addr = bits_addr x, hv_flag = bits_flag x,
      hv_marker = bits_marker x, hv_nblocks = bits_nblocks x\<rparr>"
    by (auto simp: parse_def parity_ok_def split: if_splits)
  let ?y = "hdr_make (bits_addr x) (bits_flag x) (bits_marker x) (bits_nblocks x)"
  have tk: "take_bit 5 (bits_addr x) = bits_addr x" "take_bit 2 (bits_flag x) = bits_flag x"
    "take_bit 3 (bits_marker x) = bits_marker x" "take_bit 5 (bits_nblocks x) = bits_nblocks x"
    using addr_nblocks.a.fits_get addr_nblocks.b.fits_get flag_marker.a.fits_get flag_marker.b.fits_get
    by (simp_all add: fld_fits_def)
  have "set_bits_parity ?y 0 = set_bits_parity x 0"
    by (rule header_ext)
      (simp_all add: hdr_make_def Let_def hdr_field_eqs fld_get_put_other fld_get_put_trunc tk [unfolded hdr_field_eqs]
        del: One_nat_def)
  then have "calc_parity ?y = calc_parity x" by (simp add: calc_parity_def)
  then have "?y = x"
    by (intro header_ext) (simp_all add: field_values_make tk ok)
  then show ?thesis by (simp add: h)
qed

subsection \<open>Storage views\<close>

lemma load_write_raw [simp]:
  "fst h \<noteq> None \<or> snd h \<noteq> None \<Longrightarrow> load_view (write_raw h x) = x"
  by (cases h) (auto simp: load_view_def write_raw_def intro: block_of_bytes split: option.splits)

lemma write_raw_coherent [simp]: "hdr_coherent (write_raw h x)"
  by (cases h) (auto simp: hdr_coherent_def write_raw_def split: option.splits)

lemma write_raw_present [simp]:
  "fst (write_raw h x) = None \<longleftrightarrow> fst h = None" "snd (write_raw h x) = None \<longleftrightarrow> snd h = None"
  by (simp_all add: write_raw_def split: prod.split)

subsection \<open>Properties\<close>

text \<open>
  C29: a header made from address, flag, marker and block count parses back to those values,
  reduced to the widths of their bit-fields, with the parity bit that makes the total number of
  ones even; and every header that parses is the one \<open>hdr_make\<close> builds from the parsed fields.
\<close>

theorem make_parse_roundtrip:
  "parse (hdr_make addr flag marker nblocks) =
     Some \<lparr>hv_parity = calc_parity (hdr_make addr flag marker nblocks), hv_addr = take_bit 5 addr,
           hv_flag = take_bit 2 flag, hv_marker = take_bit 3 marker, hv_nblocks = take_bit 5 nblocks\<rparr> \<and>
   even (popcount (hdr_make addr flag marker nblocks)) \<and>
   (parse raw = Some h \<longrightarrow> hdr_make (hv_addr h) (hv_flag h) (hv_marker h) (hv_nblocks h) = raw)"
  using make_of_parse [of raw h] field_values_make(1) [of addr flag marker nblocks]
  by (auto simp: parse_def parity_ok_def field_values_make parity_ok_even [symmetric])

theorem make_parse_roundtrip_witness:
  "parse (hdr_make 2 2 5 15) = Some \<lparr>hv_parity = 0, hv_addr = 2, hv_flag = 2, hv_marker = 5, hv_nblocks = 15\<rparr> \<and>
   hdr_make 2 2 5 15 = 0x7D84"
proof -
  have c: "calc_parity (hdr_make 2 2 5 15) = 0" by code_simp
  have r: "parse 0x7D84 = Some \<lparr>hv_parity = 0, hv_addr = 2, hv_flag = 2, hv_marker = 5, hv_nblocks = 15\<rparr>"
    by code_simp
  show ?thesis
    using make_parse_roundtrip [of 2 2 5 15 "0x7D84"
        "\<lparr>hv_parity = 0, hv_addr = 2, hv_flag = 2, hv_marker = 5, hv_nblocks = 15\<rparr>"] r c
    by simp
qed

text \<open>
  C7: the header parity detects every single-bit error: if a header parses, the header with any
  one of its sixteen bits inverted is rejected.
\<close>

theorem header_single_bit_error_detected:
  assumes "parse raw \<noteq> None" and "k < 16"
  shows "parse (raw XOR push_bit k 1) = None"
proof -
  have "odd (popcount (raw XOR push_bit k 1)) \<longleftrightarrow> even (popcount raw)"
    using assms(2) by (intro popcount_update [of k]) (auto simp: bit_simps bit_1_iff)
  with assms(1) show ?thesis by (auto simp: parse_def parity_ok_even split: if_splits)
qed

theorem header_single_bit_error_detected_witness:
  "parse 0x7D84 \<noteq> None \<and> parse (0x7D84 XOR push_bit 12 1) = None"
proof -
  have h: "parse 0x7D84 \<noteq> None" by code_simp
  show ?thesis using h header_single_bit_error_detected [OF h, of 12] by simp
qed

text \<open>
  The header storage keeps its two views coherent: after a raw, byte or field write through
  coherent views, the word view and the byte view hold the same header, reading gives what was
  written, and writing the two bytes of a header in order stores exactly that header.
\<close>

lemma header_storage_coherent:
  assumes "fst h \<noteq> None \<or> snd h \<noteq> None"
  shows "read_raw (write_raw h raw) = Some raw \<and> hdr_coherent (write_raw h raw) \<and>
    parse_storage (write_storage h v) = parse (hdr_make (hv_addr v) (hv_flag v) (hv_marker v) (hv_nblocks v)) \<and>
    (\<exists>h1 h2. hdr_write_byte h 0 (byte_lo raw) = Some h1 \<and> hdr_write_byte h1 1 (byte_hi raw) = Some h2 \<and>
           hdr_coherent h1 \<and> hdr_coherent h2 \<and> read_raw h2 = Some raw \<and>
           hdr_read_byte h2 0 = Some (byte_lo raw) \<and> hdr_read_byte h2 1 = Some (byte_hi raw))"
proof -
  have a: "read_raw (write_raw h raw) = Some raw" "hdr_coherent (write_raw h raw)"
    using assms by (auto simp: read_raw_def)
  have b: "parse_storage (write_storage h v) = parse (hdr_make (hv_addr v) (hv_flag v) (hv_marker v) (hv_nblocks v))"
    using assms by (auto simp: parse_storage_def write_storage_def read_raw_def)
  have bytes: "set_byte_hi (set_byte_lo x (byte_lo raw)) (byte_hi raw) = raw" for x
    by (rule block_of_bytes) simp_all
  have c: "\<exists>h1 h2. hdr_write_byte h 0 (byte_lo raw) = Some h1 \<and> hdr_write_byte h1 1 (byte_hi raw) = Some h2 \<and>
           hdr_coherent h1 \<and> hdr_coherent h2 \<and> read_raw h2 = Some raw \<and>
           hdr_read_byte h2 0 = Some (byte_lo raw) \<and> hdr_read_byte h2 1 = Some (byte_hi raw)"
    using assms by (auto simp: hdr_write_byte_def hdr_read_byte_def k_header_bytes_def read_raw_def bytes)
  from a b c show ?thesis by blast
qed

lemma header_storage_coherent_witness:
  "read_raw (write_raw (Some 7, Some (7, 0)) 0x7D84) = Some 0x7D84 \<and>
   hdr_coherent (write_raw (Some 7, Some (7, 0)) 0x7D84)"
  using header_storage_coherent [of "(Some 7, Some (7, 0))" "0x7D84"] by simp

end
