(* ===== verification/MockBus.thy ===== *)
theory MockBus
  imports Prelude
begin

text \<open>
  The simulated transport, \<open>bus_mock/include/mock_bus.hpp\<close> and \<open>bus_mock/src/mock_bus.cpp\<close>: one byte
  visible in the current tick and one pending byte for the next. Every operation holds the
  mutex for its whole body, so each is one atomic step of the model.

  \<open>byte_medium\<close> is the interface the exchange code relies on. Its clients are the two nodes of
  the simulation, which read at most one byte and write at most one byte per tick: \<open>pair_tick\<close>
  runs them in turn over the medium, and is shown to refine \<open>wire_tick\<close>, a plain synchronous
  wire that hands each node the byte of the previous tick.
\<close>

record mock_bus =
  visible_data :: u8
  visible_tick :: u32
  visible_valid :: bool
  pending_data :: u8
  pending_tick :: u32
  pending_valid :: bool

definition mock_bus_init :: mock_bus where
  "mock_bus_init = \<lparr>visible_data = 0, visible_tick = 0, visible_valid = False,
     pending_data = 0, pending_tick = 0, pending_valid = False\<rparr>"

definition mock_bus_tick :: "mock_bus \<Rightarrow> u32 \<Rightarrow> mock_bus" where
  "mock_bus_tick b t =
     (if pending_valid b \<and> pending_tick b + 1 = t
      then b\<lparr>visible_data := pending_data b, visible_tick := t, visible_valid := True,
             pending_valid := False\<rparr>
      else b\<lparr>visible_data := 0, visible_tick := t, visible_valid := False,
             pending_valid := False\<rparr>)"

definition mock_bus_write_u8 :: "mock_bus \<Rightarrow> u32 \<Rightarrow> u8 \<Rightarrow> mock_bus" where
  "mock_bus_write_u8 b t v = b\<lparr>pending_data := v, pending_tick := t, pending_valid := True\<rparr>"

definition mock_bus_read_u8 :: "mock_bus \<Rightarrow> u32 \<Rightarrow> u8 option" where
  "mock_bus_read_u8 b t =
     (if \<not> visible_valid b \<or> visible_tick b \<noteq> t then None else Some (visible_data b))"

definition bus_quiet :: "mock_bus \<Rightarrow> bool" where
  "bus_quiet b \<longleftrightarrow> \<not> pending_valid b"

subsection \<open>Two nodes on a medium\<close>

text \<open>A node takes the byte it reads, if any, and its state to the byte it writes and its new state.\<close>

type_synonym 's node_fn = "u8 option \<Rightarrow> 's \<Rightarrow> u8 option \<times> 's"

definition put_opt :: "('m \<Rightarrow> u32 \<Rightarrow> u8 \<Rightarrow> 'm) \<Rightarrow> 'm \<Rightarrow> u32 \<Rightarrow> u8 option \<Rightarrow> 'm" where
  "put_opt wr m t out = (case out of None \<Rightarrow> m | Some v \<Rightarrow> wr m t v)"

definition pair_tick :: "('m \<Rightarrow> u32 \<Rightarrow> u8 option) \<Rightarrow> ('m \<Rightarrow> u32 \<Rightarrow> u8 \<Rightarrow> 'm) \<Rightarrow> ('m \<Rightarrow> u32 \<Rightarrow> 'm) \<Rightarrow>
    'a node_fn \<Rightarrow> 'b node_fn \<Rightarrow> u32 \<Rightarrow> 'm \<times> 'a \<times> 'b \<Rightarrow> 'm \<times> 'a \<times> 'b" where
  "pair_tick rd wr tk f g t = (\<lambda>(m, a, b).
     let (oa, a') = f (rd m t) a;
         m1 = put_opt wr m t oa;
         (ob, b') = g (rd m1 t) b;
         m2 = put_opt wr m1 t ob
     in (tk m2 (t + 1), a', b'))"

text \<open>The same tick with the second node's thread scheduled first.\<close>

definition pair_tick_swapped :: "('m \<Rightarrow> u32 \<Rightarrow> u8 option) \<Rightarrow> ('m \<Rightarrow> u32 \<Rightarrow> u8 \<Rightarrow> 'm) \<Rightarrow> ('m \<Rightarrow> u32 \<Rightarrow> 'm) \<Rightarrow>
    'a node_fn \<Rightarrow> 'b node_fn \<Rightarrow> u32 \<Rightarrow> 'm \<times> 'a \<times> 'b \<Rightarrow> 'm \<times> 'a \<times> 'b" where
  "pair_tick_swapped rd wr tk f g t = (\<lambda>(m, a, b).
     let (ob, b') = g (rd m t) b;
         m1 = put_opt wr m t ob;
         (oa, a') = f (rd m1 t) a;
         m2 = put_opt wr m1 t oa
     in (tk m2 (t + 1), a', b'))"

definition last_of :: "u8 option \<Rightarrow> u8 option \<Rightarrow> u8 option" where
  "last_of x y = (case y of None \<Rightarrow> x | Some _ \<Rightarrow> y)"

definition wire_tick :: "'a node_fn \<Rightarrow> 'b node_fn \<Rightarrow> u8 option \<times> 'a \<times> 'b \<Rightarrow> u8 option \<times> 'a \<times> 'b" where
  "wire_tick f g = (\<lambda>(c, a, b).
     let (oa, a') = f c a; (ob, b') = g c b in (last_of oa ob, a', b'))"

fun pair_run :: "('m \<Rightarrow> u32 \<Rightarrow> u8 option) \<Rightarrow> ('m \<Rightarrow> u32 \<Rightarrow> u8 \<Rightarrow> 'm) \<Rightarrow> ('m \<Rightarrow> u32 \<Rightarrow> 'm) \<Rightarrow>
    (u32 \<Rightarrow> 'a node_fn) \<Rightarrow> (u32 \<Rightarrow> 'b node_fn) \<Rightarrow> nat \<Rightarrow> u32 \<Rightarrow> 'm \<times> 'a \<times> 'b \<Rightarrow> 'm \<times> 'a \<times> 'b" where
  "pair_run rd wr tk f g 0 t s = s"
| "pair_run rd wr tk f g (Suc n) t s = pair_run rd wr tk f g n (t + 1) (pair_tick rd wr tk (f t) (g t) t s)"

fun wire_run :: "(u32 \<Rightarrow> 'a node_fn) \<Rightarrow> (u32 \<Rightarrow> 'b node_fn) \<Rightarrow> nat \<Rightarrow> u32 \<Rightarrow>
    u8 option \<times> 'a \<times> 'b \<Rightarrow> u8 option \<times> 'a \<times> 'b" where
  "wire_run f g 0 t s = s"
| "wire_run f g (Suc n) t s = wire_run f g n (t + 1) (wire_tick (f t) (g t) s)"

lemma wire_run_add:
  "wire_run f g (m + n) t s = wire_run f g n (t + of_nat m) (wire_run f g m t s)"
  by (induction m arbitrary: t s) (simp_all add: add.assoc)

text \<open>
  One node driven by a list of inputs, and how the runs of two nodes that see each other's bytes
  one tick later combine into a run over the wire.
\<close>

fun node_run :: "(u32 \<Rightarrow> 's node_fn) \<Rightarrow> u32 \<Rightarrow> u8 option list \<Rightarrow> 's \<Rightarrow> u8 option list \<times> 's" where
  "node_run f t [] s = ([], s)"
| "node_run f t (c # cs) s =
     (let (out, s1) = f t c s; (outs, s2) = node_run f (t + 1) cs s1 in (out # outs, s2))"

lemma node_run_append:
  "node_run f t (xs @ ys) s =
     (let (o1, s1) = node_run f t xs s; (o2, s2) = node_run f (t + of_nat (length xs)) ys s1
      in (o1 @ o2, s2))"
  by (induction xs arbitrary: t s) (simp_all add: Let_def add.assoc split: prod.splits)

lemma node_run_length: "node_run f t xs s = (out, s') \<Longrightarrow> length out = length xs"
  by (induction xs arbitrary: t s out s') (auto simp: Let_def split: prod.splits)

lemma wire_run_traces:
  assumes "node_run f t xs a = (oa, a')" "node_run g t xs b = (ob, b')"
    and "map2 last_of oa ob = tl (xs @ [c'])" "hd (xs @ [c']) = c"
  shows "wire_run f g (length xs) t (c, a, b) = (c', a', b')"
  using assms
proof (induction xs arbitrary: t a b c oa ob)
  case Nil
  then show ?case by simp
next
  case (Cons x xs)
  obtain o1 a1 oa2 where a: "f t x a = (o1, a1)" "node_run f (t + 1) xs a1 = (oa2, a')" "oa = o1 # oa2"
    using Cons.prems(1) by (auto simp: Let_def split: prod.splits)
  obtain q1 b1 ob2 where b: "g t x b = (q1, b1)" "node_run g (t + 1) xs b1 = (ob2, b')" "ob = q1 # ob2"
    using Cons.prems(2) by (auto simp: Let_def split: prod.splits)
  have x: "x = c" using Cons.prems(4) by simp
  have "last_of o1 q1 # map2 last_of oa2 ob2 = xs @ [c']" using Cons.prems(3) a(3) b(3) by simp
  then have "map2 last_of oa2 ob2 = tl (xs @ [c'])" "hd (xs @ [c']) = last_of o1 q1"
    by (metis list.sel(3)) (metis \<open>last_of o1 q1 # map2 last_of oa2 ob2 = xs @ [c']\<close> list.sel(1))
  with Cons.IH [OF a(2) b(2)] show ?case using a(1) b(1) x by (simp add: wire_tick_def)
qed

locale byte_medium =
  fixes rd :: "'m \<Rightarrow> u32 \<Rightarrow> u8 option"
    and wr :: "'m \<Rightarrow> u32 \<Rightarrow> u8 \<Rightarrow> 'm"
    and tk :: "'m \<Rightarrow> u32 \<Rightarrow> 'm"
    and quiet :: "'m \<Rightarrow> bool"
  assumes rd_wr: "rd (wr m t v) t' = rd m t'"
    and wr_wr: "wr (wr m t v) t' v' = wr m t' v'"
    and deliver: "rd (tk (wr m t v) (t + 1)) (t + 1) = Some v"
    and silence: "quiet m \<Longrightarrow> rd (tk m t) t = None"
    and quiet_tk: "quiet (tk m t)"
begin

lemma rd_put_opt [simp]: "rd (put_opt wr m t out) t' = rd m t'"
  by (simp add: put_opt_def rd_wr split: option.split)

lemma put_opt_twice: "put_opt wr (put_opt wr m t x) t y = put_opt wr m t (last_of x y)"
  by (simp add: put_opt_def last_of_def wr_wr split: option.split)

lemma rd_tk_put_opt: "quiet m \<Longrightarrow> rd (tk (put_opt wr m t out) (t + 1)) (t + 1) = out"
  by (simp add: put_opt_def deliver silence split: option.split)

definition sees :: "u32 \<Rightarrow> 'm \<times> 'a \<times> 'b \<Rightarrow> u8 option \<times> 'a \<times> 'b \<Rightarrow> bool" where
  "sees t = (\<lambda>(m, a, b) (c, a', b'). quiet m \<and> rd m t = c \<and> a' = a \<and> b' = b)"

lemma pair_tick_refines:
  "sees t s w \<Longrightarrow> sees (t + 1) (pair_tick rd wr tk f g t s) (wire_tick f g w)"
  by (auto simp: sees_def pair_tick_def wire_tick_def Let_def put_opt_twice rd_tk_put_opt quiet_tk
      split: prod.splits)

lemma pair_run_refines:
  "sees t s w \<Longrightarrow> sees (t + of_nat n) (pair_run rd wr tk f g n t s) (wire_run f g n t w)"
proof (induction n arbitrary: t s w)
  case 0
  then show ?case by simp
next
  case (Suc n)
  from Suc.IH [OF pair_tick_refines [OF Suc.prems, of "f t" "g t"]] show ?case
    by (simp add: add.assoc)
qed

lemma order_irrelevant:
  assumes "fst (f (rd m t) a) = None \<or> fst (g (rd m t) b) = None"
  shows "pair_tick_swapped rd wr tk f g t (m, a, b) = pair_tick rd wr tk f g t (m, a, b)"
  using assms
  by (auto simp: pair_tick_def pair_tick_swapped_def Let_def put_opt_twice last_of_def
      split: prod.splits option.splits)

end

interpretation mockbus: byte_medium mock_bus_read_u8 mock_bus_write_u8 mock_bus_tick bus_quiet
  by unfold_locales
    (auto simp: mock_bus_read_u8_def mock_bus_write_u8_def mock_bus_tick_def bus_quiet_def)

subsection \<open>Properties\<close>

text \<open>
  A byte written at tick \<open>t\<close> is invisible during tick \<open>t\<close>, is exactly what every reader sees
  during tick \<open>t + 1\<close> (modulo the wrap of the 32-bit tick), and is gone one tick later; a tick
  in which nothing was written delivers nothing.
\<close>

lemma mock_bus_one_tick_latency:
  "mock_bus_read_u8 (mock_bus_write_u8 b t v) t' = mock_bus_read_u8 b t' \<and>
   mock_bus_read_u8 (mock_bus_tick (mock_bus_write_u8 b t v) (t + 1)) (t + 1) = Some v \<and>
   mock_bus_read_u8 (mock_bus_tick (mock_bus_tick (mock_bus_write_u8 b t v) (t + 1)) (t + 2)) (t + 2) = None"
  using mockbus.silence [OF mockbus.quiet_tk]
  by (simp add: mockbus.rd_wr mockbus.deliver)

end
