(* ===== verification/Flt.thy ===== *)
theory Flt
  imports Complex_Main Prelude "HOL-Library.Log_Nat"
begin

text \<open>
  IEEE 754 binary floating point as the sources use it: \<open>float\<close> (binary32) and \<open>double\<close>
  (binary64) with round-to-nearest-even, subnormals, overflow to infinity and NaN. A finite value
  is the rational it denotes; the sign of zero is not kept, which no operation of the program
  can observe (divisors are tested for zero first, and only comparisons and conversions to
  integers consume results). All operations compute.
\<close>

datatype fp = Fin rat | PInf | MInf | NaN

record fmt =
  fprec :: nat
  femin :: int
  femax :: int

definition f32 :: fmt where "f32 = \<lparr>fprec = 24, femin = -126, femax = 127\<rparr>"
definition f64 :: fmt where "f64 = \<lparr>fprec = 53, femin = -1022, femax = 1023\<rparr>"

subsection \<open>Rounding\<close>

text \<open>The binary exponent of a non-zero rational: \<open>2 powi ratexp x \<le> \<bar>x\<bar> < 2 powi (ratexp x + 1)\<close>.\<close>

definition ratexp :: "rat \<Rightarrow> int" where
  "ratexp x = (let (n, d) = quotient_of \<bar>x\<bar>; e = bitlen n - bitlen d
               in if 2 powi e \<le> \<bar>x\<bar> then e else e - 1)"

text \<open>Round to the nearest integer, ties to even.\<close>

definition rne :: "rat \<Rightarrow> int" where
  "rne x = (let k = \<lfloor>x\<rfloor>; d = x - of_int k
            in if d < 1/2 then k else if d > 1/2 then k + 1 else if even k then k else k + 1)"

definition fquantum :: "fmt \<Rightarrow> rat \<Rightarrow> rat" where
  "fquantum f x = 2 powi (max (ratexp x) (femin f) - (int (fprec f) - 1))"

definition rnd :: "fmt \<Rightarrow> rat \<Rightarrow> rat" where
  "rnd f x = (if x = 0 then 0 else fquantum f x * of_int (rne (x / fquantum f x)))"

definition to_fp :: "fmt \<Rightarrow> rat \<Rightarrow> fp" where
  "to_fp f x = (let r = rnd f x in
     if r = 0 \<or> ratexp r \<le> femax f then Fin r else if r > 0 then PInf else MInf)"

subsection \<open>Operations\<close>

fun fp_neg :: "fp \<Rightarrow> fp" where
  "fp_neg (Fin x) = Fin (- x)"
| "fp_neg PInf = MInf"
| "fp_neg MInf = PInf"
| "fp_neg NaN = NaN"

fun fp_abs :: "fp \<Rightarrow> fp" where
  "fp_abs (Fin x) = Fin \<bar>x\<bar>"
| "fp_abs NaN = NaN"
| "fp_abs _ = PInf"

fun fp_add :: "fmt \<Rightarrow> fp \<Rightarrow> fp \<Rightarrow> fp" where
  "fp_add f (Fin x) (Fin y) = to_fp f (x + y)"
| "fp_add f NaN b = NaN"
| "fp_add f a NaN = NaN"
| "fp_add f PInf MInf = NaN"
| "fp_add f MInf PInf = NaN"
| "fp_add f PInf b = PInf"
| "fp_add f MInf b = MInf"
| "fp_add f a b = b"

definition fp_sub :: "fmt \<Rightarrow> fp \<Rightarrow> fp \<Rightarrow> fp" where
  "fp_sub f a b = fp_add f a (fp_neg b)"

definition fp_sgn :: "fp \<Rightarrow> int" where
  "fp_sgn a = (case a of Fin x \<Rightarrow> (if x > 0 then 1 else if x < 0 then -1 else 0)
                | PInf \<Rightarrow> 1 | MInf \<Rightarrow> -1 | NaN \<Rightarrow> 0)"

definition fp_inf :: "int \<Rightarrow> fp" where
  "fp_inf s = (if s > 0 then PInf else if s < 0 then MInf else NaN)"

fun fp_mul :: "fmt \<Rightarrow> fp \<Rightarrow> fp \<Rightarrow> fp" where
  "fp_mul f (Fin x) (Fin y) = to_fp f (x * y)"
| "fp_mul f NaN b = NaN"
| "fp_mul f a NaN = NaN"
| "fp_mul f a b = fp_inf (fp_sgn a * fp_sgn b)"

fun fp_div :: "fmt \<Rightarrow> fp \<Rightarrow> fp \<Rightarrow> fp" where
  "fp_div f (Fin x) (Fin y) = (if y = 0 then fp_inf (fp_sgn (Fin x)) else to_fp f (x / y))"
| "fp_div f NaN b = NaN"
| "fp_div f a NaN = NaN"
| "fp_div f (Fin x) b = Fin 0"
| "fp_div f a (Fin y) = fp_inf (fp_sgn a * (if y < 0 then -1 else 1))"
| "fp_div f a b = NaN"

text \<open>Comparisons are false when an operand is NaN; \<open>\<noteq>\<close> is the negation of \<open>fp_eq\<close>.\<close>

fun fp_lt :: "fp \<Rightarrow> fp \<Rightarrow> bool" where
  "fp_lt (Fin x) (Fin y) = (x < y)"
| "fp_lt NaN b = False"
| "fp_lt a NaN = False"
| "fp_lt PInf b = False"
| "fp_lt a MInf = False"
| "fp_lt a b = True"

fun fp_eq :: "fp \<Rightarrow> fp \<Rightarrow> bool" where
  "fp_eq (Fin x) (Fin y) = (x = y)"
| "fp_eq PInf PInf = True"
| "fp_eq MInf MInf = True"
| "fp_eq a b = False"

text \<open>\<open>std::min(a, b)\<close> returns \<open>b\<close> only if \<open>b < a\<close>; \<open>std::max(a, b)\<close> returns \<open>b\<close> only if \<open>a < b\<close>.\<close>

definition fp_min :: "fp \<Rightarrow> fp \<Rightarrow> fp" where "fp_min a b = (if fp_lt b a then b else a)"
definition fp_max :: "fp \<Rightarrow> fp \<Rightarrow> fp" where "fp_max a b = (if fp_lt a b then b else a)"

fun fp_isfinite :: "fp \<Rightarrow> bool" where
  "fp_isfinite (Fin x) = True"
| "fp_isfinite _ = False"

fun fp_cast :: "fmt \<Rightarrow> fp \<Rightarrow> fp" where
  "fp_cast f (Fin x) = to_fp f x"
| "fp_cast f a = a"

definition fp_of_int :: "fmt \<Rightarrow> int \<Rightarrow> fp" where
  "fp_of_int f n = to_fp f (of_int n)"

text \<open>Round half away from zero.\<close>

definition rhaz :: "rat \<Rightarrow> int" where
  "rhaz x = (if x \<ge> 0 then \<lfloor>x + 1/2\<rfloor> else - \<lfloor>- x + 1/2\<rfloor>)"

text \<open>
  Conversions to integers return \<open>None\<close> where the C++ result is unspecified or undefined: the
  operand is not finite or the result does not fit the 64-bit type.
\<close>

definition fits_i64 :: "int \<Rightarrow> bool" where
  "fits_i64 n \<longleftrightarrow> - (2 ^ 63) \<le> n \<and> n < 2 ^ 63"

definition in_i64 :: "int \<Rightarrow> int option" where
  "in_i64 n = (if fits_i64 n then Some n else None)"

fun fp_llround :: "fp \<Rightarrow> int option" where
  "fp_llround (Fin x) = in_i64 (rhaz x)"
| "fp_llround _ = None"

fun fp_floor_i64 :: "fp \<Rightarrow> int option" where
  "fp_floor_i64 (Fin x) = in_i64 \<lfloor>x\<rfloor>"
| "fp_floor_i64 _ = None"

fun fp_ceil_i64 :: "fp \<Rightarrow> int option" where
  "fp_ceil_i64 (Fin x) = in_i64 \<lceil>x\<rceil>"
| "fp_ceil_i64 _ = None"

text \<open>
  \<open>std::sqrt\<close>, correctly rounded: the integer square root of the operand scaled by a power of
  four gives more than enough leading bits, and a sticky bit records whether it was exact.
\<close>

function isqrt :: "nat \<Rightarrow> nat" where
  "isqrt n = (if n = 0 then 0 else let r = 2 * isqrt (n div 4) in
     if (r + 1) * (r + 1) \<le> n then r + 1 else r)"
  by pat_completeness auto
termination
  by (relation "measure id") auto

declare isqrt.simps [simp del]

definition sqrt_pos :: "fmt \<Rightarrow> rat \<Rightarrow> rat" where
  "sqrt_pos f x =
     (let k = int (fprec f) + 2 - ratexp x div 2;
          y = x * 4 powi k;
          m = nat \<lfloor>y\<rfloor>;
          r = isqrt m;
          sticky = (if of_nat (r * r) = y then 0 else 1)
      in rnd f ((2 * of_nat r + sticky) / 2 powi (k + 1)))"

fun fp_sqrt :: "fmt \<Rightarrow> fp \<Rightarrow> fp" where
  "fp_sqrt f (Fin x) = (if x = 0 then Fin 0 else if x < 0 then NaN else Fin (sqrt_pos f x))"
| "fp_sqrt f PInf = PInf"
| "fp_sqrt f _ = NaN"

subsection \<open>The exponent and the rounding to an integer\<close>

lemma powi_2_pos [simp]: "(2 powi e :: rat) > 0"
  by simp

lemma powi_2_mono: "a \<le> b \<Longrightarrow> (2 powi a :: rat) \<le> 2 powi b"
  by (simp add: power_int_increasing)

lemma powi_2_add: "(2 powi (a + b) :: rat) = 2 powi a * 2 powi b"
  by (simp add: power_int_add)

lemma powi_2_diff: "(2 powi (a - b) :: rat) = 2 powi a / 2 powi b"
  by (simp add: power_int_diff)

lemma powi_2_nonneg_int: "0 \<le> e \<Longrightarrow> (2 powi e :: rat) = of_int (2 ^ nat e)"
  by (simp add: power_int_def)

lemma bitlen_powi:
  assumes "n > 0"
  shows "2 powi (bitlen n - 1) \<le> (of_int n :: rat)" "(of_int n :: rat) < 2 powi bitlen n"
proof -
  from assms have "1 \<le> bitlen n" by (simp add: bitlen_def floorlog_def Suc_le_eq)
  then have "0 \<le> bitlen n - 1" "0 \<le> bitlen n" by simp_all
  then have e: "(2 powi (bitlen n - 1) :: rat) = of_int (2 ^ nat (bitlen n - 1))"
    "(2 powi bitlen n :: rat) = of_int (2 ^ nat (bitlen n))"
    using powi_2_nonneg_int [of "bitlen n - 1"] powi_2_nonneg_int [of "bitlen n"] by fastforce+
  from bitlen_bounds [OF assms] show "2 powi (bitlen n - 1) \<le> (of_int n :: rat)"
    "(of_int n :: rat) < 2 powi bitlen n"
    unfolding e of_int_le_iff of_int_less_iff by auto
qed

lemma ratexp_bounds:
  assumes "x \<noteq> 0"
  shows "2 powi ratexp x \<le> \<bar>x\<bar>" "\<bar>x\<bar> < 2 powi (ratexp x + 1)"
proof -
  obtain n d where q: "quotient_of \<bar>x\<bar> = (n, d)" by force
  from q have d: "d > 0" by (rule quotient_of_denom_pos)
  from q have x: "\<bar>x\<bar> = of_int n / of_int d" by (rule quotient_of_div)
  with assms d have n: "n > 0"
    by (metis abs_ge_zero abs_le_zero_iff divide_nonpos_pos linorder_not_less of_int_0_less_iff of_int_le_0_iff)
  let ?e = "bitlen n - bitlen d"
  have lo: "2 powi (?e - 1) \<le> \<bar>x\<bar>"
  proof -
    have "2 powi (?e - 1) = 2 powi (bitlen n - 1) / (2 powi bitlen d :: rat)"
      by (simp add: powi_2_diff [symmetric] algebra_simps)
    also have "\<dots> \<le> of_int n / of_int d"
      using bitlen_powi [OF n] bitlen_powi [OF d] n d by (intro frac_le) auto
    finally show ?thesis by (simp add: x)
  qed
  have hi: "\<bar>x\<bar> < 2 powi (?e + 1)"
  proof -
    have "\<bar>x\<bar> = of_int n / of_int d" by (simp add: x)
    also have "\<dots> < 2 powi bitlen n / 2 powi (bitlen d - 1)"
      using bitlen_powi [OF n] bitlen_powi [OF d] n d by (intro frac_less) auto
    also have "\<dots> = 2 powi (?e + 1)"
      by (simp add: powi_2_diff [symmetric] algebra_simps)
    finally show ?thesis .
  qed
  show "2 powi ratexp x \<le> \<bar>x\<bar>" "\<bar>x\<bar> < 2 powi (ratexp x + 1)"
    using lo hi by (auto simp: ratexp_def q Let_def)
qed

lemma ratexp_minus [simp]: "ratexp (- x) = ratexp x"
  by (simp add: ratexp_def)

lemma ratexp_less: "x \<noteq> 0 \<Longrightarrow> \<bar>x\<bar> < 2 powi e \<Longrightarrow> ratexp x < e"
  using ratexp_bounds(1) [of x] powi_2_mono [of e "ratexp x"] by linarith

lemma ratexp_le_iff: "x \<noteq> 0 \<Longrightarrow> ratexp x \<le> e \<longleftrightarrow> \<bar>x\<bar> < 2 powi (e + 1)"
  using ratexp_less [of x "e + 1"] ratexp_bounds(2) [of x] powi_2_mono [of "ratexp x + 1" "e + 1"] by force

lemma to_fp_in_range:
  "\<bar>rnd f x\<bar> < 2 powi (femax f + 1) \<Longrightarrow> to_fp f x = Fin (rnd f x)"
  using ratexp_le_iff [of "rnd f x" "femax f"] by (auto simp: to_fp_def Let_def)

lemma ratexp_mono:
  assumes "x \<noteq> 0" "\<bar>x\<bar> \<le> \<bar>y\<bar>"
  shows "ratexp x \<le> ratexp y"
proof -
  from assms have "y \<noteq> 0" by auto
  with assms ratexp_bounds(2) [of y] have "\<bar>x\<bar> < 2 powi (ratexp y + 1)" by linarith
  with assms(1) show ?thesis using ratexp_less by fastforce
qed

lemma rne_of_int [simp]: "rne (of_int n) = n"
  by (simp add: rne_def)

lemma rne_le: "x \<le> of_int n \<Longrightarrow> rne x \<le> n"
proof -
  assume a: "x \<le> of_int n"
  then have "\<lfloor>x\<rfloor> \<le> n" by linarith
  then show ?thesis
  proof (cases "\<lfloor>x\<rfloor> = n")
    case True
    with a have "x = of_int n" by linarith
    then show ?thesis by simp
  next
    case False
    with \<open>\<lfloor>x\<rfloor> \<le> n\<close> show ?thesis by (auto simp: rne_def Let_def)
  qed
qed

lemma rne_ge: "of_int n \<le> x \<Longrightarrow> n \<le> rne x"
  by (auto simp: rne_def Let_def) linarith+

lemma rne_mono: "x \<le> y \<Longrightarrow> rne x \<le> rne y"
proof -
  assume xy: "x \<le> y"
  show ?thesis
  proof (cases "\<lfloor>x\<rfloor> = \<lfloor>y\<rfloor>")
    case True
    with xy show ?thesis by (auto simp: rne_def Let_def)
  next
    case False
    with xy have "\<lfloor>x\<rfloor> + 1 \<le> \<lfloor>y\<rfloor>" using floor_mono [of x y] by linarith
    moreover have "rne x \<le> \<lfloor>x\<rfloor> + 1" by (auto simp: rne_def Let_def)
    moreover have "\<lfloor>y\<rfloor> \<le> rne y" by (auto simp: rne_def Let_def)
    ultimately show ?thesis by linarith
  qed
qed

lemma rne_near: "\<bar>of_int (rne x) - x\<bar> \<le> 1/2"
  by (auto simp: rne_def Let_def abs_if) linarith+

subsection \<open>Exact values\<close>

text \<open>A value with at most \<open>fprec\<close> significant bits above the smallest quantum rounds to itself.\<close>

lemma rnd_exact_quantum:
  assumes "x = fquantum f x * of_int k"
  shows "rnd f x = x"
proof -
  have q: "fquantum f x \<noteq> 0" by (simp add: fquantum_def)
  with assms have "x / fquantum f x = of_int k" by (simp add: field_simps)
  with assms show ?thesis by (simp add: rnd_def)
qed

lemma rnd_exact:
  assumes "x = of_int k * 2 powi e" "\<bar>k\<bar> < 2 ^ fprec f" "femin f - (int (fprec f) - 1) \<le> e"
  shows "rnd f x = x"
proof (cases "x = 0")
  case True
  then show ?thesis by (simp add: rnd_def)
next
  case False
  define q where "q = max (ratexp x) (femin f) - (int (fprec f) - 1)"
  have "\<bar>x\<bar> < 2 powi (int (fprec f) + e)"
  proof -
    have "\<bar>x\<bar> = of_int \<bar>k\<bar> * 2 powi e" by (simp add: assms(1) abs_mult)
    also have "\<dots> < of_int (2 ^ fprec f) * 2 powi e"
      using assms(2) by (intro mult_strict_right_mono) (simp_all only: of_int_less_iff powi_2_pos)
    finally show ?thesis by (simp add: powi_2_add)
  qed
  with False have "ratexp x < int (fprec f) + e" by (rule ratexp_less)
  with assms(3) have "q \<le> e" by (simp add: q_def)
  then have "2 powi e = (2 powi q :: rat) * of_int (2 ^ nat (e - q))"
    using powi_2_add [of q "e - q"] powi_2_nonneg_int [of "e - q"] by simp
  with assms(1) have "x = fquantum f x * of_int (k * 2 ^ nat (e - q))"
    by (simp add: fquantum_def q_def mult_ac)
  then show ?thesis by (rule rnd_exact_quantum)
qed

lemma rnd_of_int:
  assumes "\<bar>n\<bar> < 2 ^ fprec f" "femin f \<le> int (fprec f) - 1"
  shows "rnd f (of_int n) = of_int n"
  using assms by (intro rnd_exact [where k = n and e = 0]) simp_all

lemma rnd_0 [simp]: "rnd f 0 = 0"
  by (simp add: rnd_def)

lemma fquantum_pos [simp]: "fquantum f x > 0"
  by (simp add: fquantum_def)

lemma rnd_nonneg: "0 \<le> x \<Longrightarrow> 0 \<le> rnd f x"
  using rne_ge [of 0 "x / fquantum f x"]
  by (simp add: rnd_def zero_le_mult_iff less_imp_le)

lemma rnd_nonpos: "x \<le> 0 \<Longrightarrow> rnd f x \<le> 0"
  using rne_le [of "x / fquantum f x" 0]
  by (simp add: rnd_def mult_le_0_iff divide_le_0_iff less_imp_le)

lemma rne_minus: "rne (- x) = - rne x"
proof (cases "x = of_int \<lfloor>x\<rfloor>")
  case True
  then show ?thesis by (metis of_int_minus rne_of_int)
next
  case False
  then have "\<lfloor>- x\<rfloor> = - \<lfloor>x\<rfloor> - 1" by linarith
  with False show ?thesis
    by (auto simp: rne_def Let_def)
qed

lemma fquantum_minus [simp]: "fquantum f (- x) = fquantum f x"
  by (simp add: fquantum_def)

lemma rnd_minus: "rnd f (- x) = - rnd f x"
  by (simp add: rnd_def rne_minus)

lemma rnd_abs: "\<bar>rnd f x\<bar> = rnd f \<bar>x\<bar>"
  using rnd_nonneg [of x f] rnd_nonpos [of x f] by (cases "0 \<le> x") (simp_all add: rnd_minus)

lemma powi_over_quantum:
  assumes "max (ratexp x) (femin f) - (int (fprec f) - 1) \<le> e"
  shows "2 powi e / fquantum f x = of_int (2 ^ nat (e - (max (ratexp x) (femin f) - (int (fprec f) - 1))))"
  using assms by (simp add: fquantum_def powi_2_diff [symmetric] powi_2_nonneg_int)

lemma rnd_le_powi:
  assumes "0 < x" "x \<le> 2 powi e" "max (ratexp x) (femin f) - (int (fprec f) - 1) \<le> e"
  shows "rnd f x \<le> 2 powi e"
proof -
  have "x / fquantum f x \<le> 2 powi e / fquantum f x"
    using assms(2) by (simp add: divide_right_mono less_imp_le)
  then have "rne (x / fquantum f x) \<le> 2 ^ nat (e - (max (ratexp x) (femin f) - (int (fprec f) - 1)))"
    unfolding powi_over_quantum [OF assms(3)] by (rule rne_le)
  then have "of_int (rne (x / fquantum f x)) \<le> 2 powi e / fquantum f x"
    unfolding powi_over_quantum [OF assms(3)] by (simp only: of_int_le_iff)
  then show ?thesis using assms(1) by (simp add: rnd_def pos_le_divide_eq mult.commute)
qed

lemma rnd_ge_powi:
  assumes "2 powi e \<le> x" "max (ratexp x) (femin f) - (int (fprec f) - 1) \<le> e"
  shows "2 powi e \<le> rnd f x"
proof -
  have "2 powi e / fquantum f x \<le> x / fquantum f x"
    using assms(1) by (simp add: divide_right_mono less_imp_le)
  then have "2 ^ nat (e - (max (ratexp x) (femin f) - (int (fprec f) - 1))) \<le> rne (x / fquantum f x)"
    unfolding powi_over_quantum [OF assms(2)] by (rule rne_ge)
  then have "2 powi e / fquantum f x \<le> of_int (rne (x / fquantum f x))"
    unfolding powi_over_quantum [OF assms(2)] by (simp only: of_int_le_iff)
  moreover have "x \<noteq> 0" using assms(1) powi_2_pos [of e] by linarith
  ultimately show ?thesis by (simp add: rnd_def pos_divide_le_eq mult.commute)
qed

lemma rnd_mono:
  assumes "0 \<le> x" "x \<le> y" "1 \<le> fprec f"
  shows "rnd f x \<le> rnd f y"
proof (cases "x = 0")
  case True
  with assms show ?thesis by (simp add: rnd_nonneg)
next
  case False
  define ex ey where "ex = max (ratexp x) (femin f)" and "ey = max (ratexp y) (femin f)"
  from False assms have pos: "0 < x" "0 < y" by auto
  have "ratexp x \<le> ratexp y" using assms False by (intro ratexp_mono) auto
  then have "ex \<le> ey" by (auto simp: ex_def ey_def)
  show ?thesis
  proof (cases "ex = ey")
    case True
    then have q: "fquantum f x = fquantum f y" by (simp add: fquantum_def ex_def ey_def)
    have "rne (x / fquantum f y) \<le> rne (y / fquantum f y)"
      using assms by (intro rne_mono divide_right_mono) (simp_all add: less_imp_le)
    with pos show ?thesis by (simp add: rnd_def q less_imp_le)
  next
    case False
    with \<open>ex \<le> ey\<close> have lt: "ex < ey" by simp
    then have ey: "ey = ratexp y" by (auto simp: ey_def ex_def)
    have "x < 2 powi (ratexp x + 1)" using ratexp_bounds(2) [of x] pos by simp
    also have "\<dots> \<le> 2 powi ey" using lt by (intro powi_2_mono) (auto simp: ex_def)
    finally have "rnd f x \<le> 2 powi ey"
      using pos lt assms(3) by (intro rnd_le_powi) (auto simp: ex_def)
    also have "\<dots> \<le> rnd f y"
      using ratexp_bounds(1) [of y] pos assms(3) by (intro rnd_ge_powi) (auto simp: ey ey_def [symmetric])
    finally show ?thesis .
  qed
qed

text \<open>Values that are exact in a format, and how the operations act on them.\<close>

definition exact_in :: "fmt \<Rightarrow> rat \<Rightarrow> bool" where
  "exact_in f x \<longleftrightarrow> to_fp f x = Fin x"

lemma exact_in_int:
  assumes "\<bar>n\<bar> < 2 ^ 24"
  shows "exact_in f32 (of_int n)" "exact_in f64 (of_int n)"
proof -
  have "rnd f32 (of_int n) = of_int n" "rnd f64 (of_int n) = of_int n"
    using assms by (auto intro!: rnd_of_int simp: f32_def f64_def)
  moreover have "\<bar>of_int n :: rat\<bar> < 2 ^ 24"
    using assms by (metis of_int_abs of_int_less_iff of_int_numeral of_int_power)
  moreover have "(2::rat) ^ 24 \<le> 2 powi (femax f32 + 1)" "(2::rat) ^ 24 \<le> 2 powi (femax f64 + 1)"
    using powi_2_mono [of 24 "femax f32 + 1"] powi_2_mono [of 24 "femax f64 + 1"]
    by (simp_all add: f32_def f64_def power_int_def)
  ultimately show "exact_in f32 (of_int n)" "exact_in f64 (of_int n)"
    by (auto simp: exact_in_def to_fp_in_range)
qed

subsection \<open>The error of one rounding in \<open>float\<close>\<close>

lemma rnd_f32_err: "\<bar>rnd f32 x - x\<bar> \<le> \<bar>x\<bar> / 2 ^ 24 + 1 / 2 ^ 150"
proof (cases "x = 0")
  case False
  define q where "q = fquantum f32 x"
  have q: "0 < q" "q = 2 powi (max (ratexp x) (- 126) - 23)" by (simp_all add: q_def fquantum_def f32_def)
  have "rnd f32 x - x = q * (of_int (rne (x / q)) - x / q)" 
  proof -
    have "rnd f32 x = q * of_int (rne (x / q))" using False by (simp add: rnd_def q_def)
    moreover have "x = q * (x / q)" using q(1) by simp
    ultimately show ?thesis by (metis right_diff_distrib)
  qed
  then have "\<bar>rnd f32 x - x\<bar> \<le> q / 2" using rne_near [of "x / q"] q(1) by (simp add: abs_mult)
  moreover have "q / 2 \<le> \<bar>x\<bar> / 2 ^ 24 + 1 / 2 ^ 150"
  proof (cases "- 126 \<le> ratexp x")
    case True
    then have "q = 2 powi ratexp x / 2 ^ 23" by (simp add: q(2) powi_2_diff)
    then show ?thesis using ratexp_bounds(1) [OF False] by simp
  next
    case False
    then have "q = 2 powi (- 149)" by (simp add: q(2))
    also have "\<dots> = 1 / 2 ^ 149" by (simp add: power_int_def power_one_over)
    finally show ?thesis by simp
  qed
  ultimately show ?thesis by linarith
qed simp

lemma to_fp_f32_near:
  assumes "0 \<le> x" "x \<le> 2 ^ 120"
  shows "to_fp f32 x = Fin (rnd f32 x) \<and> 0 \<le> rnd f32 x \<and> \<bar>rnd f32 x - x\<bar> \<le> x / 2 ^ 24 + 1 / 2 ^ 150"
proof -
  note e = rnd_f32_err [of x]
  have "rnd f32 x \<le> x + (x / 2 ^ 24 + 1 / 2 ^ 150)" using e assms(1) by (simp only: abs_le_iff abs_of_nonneg) linarith
  also have "\<dots> < 2 ^ 128" using assms(2) by simp
  finally have "rnd f32 x < 2 ^ 128" .
  moreover have "(2 :: rat) powi 128 = 2 ^ 128" by (simp add: power_int_def)
  ultimately show ?thesis using e assms to_fp_in_range [of f32 x] rnd_nonneg [of x f32] by (simp add: f32_def)
qed

end
