(* ===== verification/Tables.thy ===== *)
theory Tables
  imports Flt MsgBlock
begin

text \<open>
  The generated tables of \<open>systems/base/\<close>: system ids and message sizes (\<open>sys_list.hpp\<close>), data,
  physical and algorithm type codes, the parameter and command identifiers
  (\<open>param_comm_list.hpp\<close>, command ids follow parameter ids) and the two rows-per-item tables
  \<open>S_baseparamtab\<close> and \<open>S_basecommtab\<close> with the place of every item in its system's message and in
  the CS image. Codes that the sources cast to \<open>uint8_t\<close> are \<open>8 word\<close>; block numbers and
  offsets are the \<open>char\<close> fields read as integers.
\<close>

abbreviation (input) SYS_NONE :: u8 where "SYS_NONE \<equiv> 0"
abbreviation (input) SYS_CS :: u8 where "SYS_CS \<equiv> 1"
abbreviation (input) SYS_PSS :: u8 where "SYS_PSS \<equiv> 2"
abbreviation (input) SYS_TCS :: u8 where "SYS_TCS \<equiv> 3"
abbreviation (input) SYS_TMS :: u8 where "SYS_TMS \<equiv> 4"
abbreviation (input) SYS_MNS :: u8 where "SYS_MNS \<equiv> 5"
abbreviation (input) SYS_LS :: u8 where "SYS_LS \<equiv> 6"

abbreviation (input) TYPE_D :: u8 where "TYPE_D \<equiv> 1"
abbreviation (input) TYPE_A :: u8 where "TYPE_A \<equiv> 2"
abbreviation (input) TYPE_AP :: u8 where "TYPE_AP \<equiv> 3"
abbreviation (input) TYPE_SIGN :: u8 where "TYPE_SIGN \<equiv> 4"
abbreviation (input) TYPE_UNSIGN :: u8 where "TYPE_UNSIGN \<equiv> 5"

abbreviation (input) RTYPE_BOOL :: u8 where "RTYPE_BOOL \<equiv> 1"
abbreviation (input) RTYPE_INT8 :: u8 where "RTYPE_INT8 \<equiv> 2"
abbreviation (input) RTYPE_INT16 :: u8 where "RTYPE_INT16 \<equiv> 4"
abbreviation (input) RTYPE_FLOAT32 :: u8 where "RTYPE_FLOAT32 \<equiv> 6"

abbreviation (input) ALG_NONE :: u8 where "ALG_NONE \<equiv> 0"
abbreviation (input) ALG_AN :: u8 where "ALG_AN \<equiv> 1"
abbreviation (input) ALG_AC :: u8 where "ALG_AC \<equiv> 2"
abbreviation (input) ALG_ABC :: u8 where "ALG_ABC \<equiv> 3"
abbreviation (input) ALG_AAC :: u8 where "ALG_AAC \<equiv> 4"

abbreviation (input) Param_max :: nat where "Param_max \<equiv> 52"
abbreviation (input) Comm_max :: nat where "Comm_max \<equiv> 53"
abbreviation (input) Param_Comm_max :: nat where "Param_Comm_max \<equiv> 105"

subsection \<open>Parameter and command identifiers\<close>

abbreviation (input) PSSPWR :: nat where "PSSPWR \<equiv> 0"
abbreviation (input) PSSPWR12 :: nat where "PSSPWR12 \<equiv> 1"
abbreviation (input) PSSPWR6 :: nat where "PSSPWR6 \<equiv> 2"
abbreviation (input) PSSPWR5 :: nat where "PSSPWR5 \<equiv> 3"
abbreviation (input) PSSPWR33 :: nat where "PSSPWR33 \<equiv> 4"
abbreviation (input) PSSECO :: nat where "PSSECO \<equiv> 5"
abbreviation (input) PSSCLOCK :: nat where "PSSCLOCK \<equiv> 6"
abbreviation (input) PSSMAXT1 :: nat where "PSSMAXT1 \<equiv> 7"
abbreviation (input) PSSMAXT2 :: nat where "PSSMAXT2 \<equiv> 8"
abbreviation (input) PSSMAXA :: nat where "PSSMAXA \<equiv> 9"
abbreviation (input) PSSMAXW :: nat where "PSSMAXW \<equiv> 10"
abbreviation (input) PSSMINC :: nat where "PSSMINC \<equiv> 11"
abbreviation (input) PSSMINV :: nat where "PSSMINV \<equiv> 12"
abbreviation (input) PSSMAXA12 :: nat where "PSSMAXA12 \<equiv> 13"
abbreviation (input) PSSMAXA6 :: nat where "PSSMAXA6 \<equiv> 14"
abbreviation (input) PSSMAXA5 :: nat where "PSSMAXA5 \<equiv> 15"
abbreviation (input) PSSMAXA33 :: nat where "PSSMAXA33 \<equiv> 16"
abbreviation (input) PSST1 :: nat where "PSST1 \<equiv> 17"
abbreviation (input) PSST2 :: nat where "PSST2 \<equiv> 18"
abbreviation (input) PSSA :: nat where "PSSA \<equiv> 19"
abbreviation (input) PSSW :: nat where "PSSW \<equiv> 20"
abbreviation (input) PSSV :: nat where "PSSV \<equiv> 21"
abbreviation (input) PSSC :: nat where "PSSC \<equiv> 22"
abbreviation (input) PSSA12 :: nat where "PSSA12 \<equiv> 23"
abbreviation (input) PSSV12 :: nat where "PSSV12 \<equiv> 24"
abbreviation (input) PSSA6 :: nat where "PSSA6 \<equiv> 25"
abbreviation (input) PSSV6 :: nat where "PSSV6 \<equiv> 26"
abbreviation (input) PSSA5 :: nat where "PSSA5 \<equiv> 27"
abbreviation (input) PSSV5 :: nat where "PSSV5 \<equiv> 28"
abbreviation (input) PSSA33 :: nat where "PSSA33 \<equiv> 29"
abbreviation (input) PSSV33 :: nat where "PSSV33 \<equiv> 30"
abbreviation (input) TCSPWR :: nat where "TCSPWR \<equiv> 31"
abbreviation (input) TCSPSS :: nat where "TCSPSS \<equiv> 32"
abbreviation (input) TCSTMS :: nat where "TCSTMS \<equiv> 33"
abbreviation (input) TCSMNS :: nat where "TCSMNS \<equiv> 34"
abbreviation (input) TCSLS :: nat where "TCSLS \<equiv> 35"
abbreviation (input) TCSCLOCK :: nat where "TCSCLOCK \<equiv> 36"
abbreviation (input) TCSFRQ :: nat where "TCSFRQ \<equiv> 37"
abbreviation (input) TCST :: nat where "TCST \<equiv> 38"
abbreviation (input) TMSPWR :: nat where "TMSPWR \<equiv> 39"
abbreviation (input) TMSCLOCK :: nat where "TMSCLOCK \<equiv> 40"
abbreviation (input) TMSPWRFAN1 :: nat where "TMSPWRFAN1 \<equiv> 41"
abbreviation (input) TMSPWRFAN2 :: nat where "TMSPWRFAN2 \<equiv> 42"
abbreviation (input) TMSPWRFAN3 :: nat where "TMSPWRFAN3 \<equiv> 43"
abbreviation (input) TMSPWRFAN4 :: nat where "TMSPWRFAN4 \<equiv> 44"
abbreviation (input) TMST :: nat where "TMST \<equiv> 45"
abbreviation (input) MNSPWR :: nat where "MNSPWR \<equiv> 46"
abbreviation (input) MNSCLOCK :: nat where "MNSCLOCK \<equiv> 47"
abbreviation (input) MNST :: nat where "MNST \<equiv> 48"
abbreviation (input) LSPWR :: nat where "LSPWR \<equiv> 49"
abbreviation (input) LSCLOCK :: nat where "LSCLOCK \<equiv> 50"
abbreviation (input) LST :: nat where "LST \<equiv> 51"
abbreviation (input) CPSSINIT :: nat where "CPSSINIT \<equiv> 52"
abbreviation (input) CPSSPWRON :: nat where "CPSSPWRON \<equiv> 53"
abbreviation (input) CPSSPWROFF :: nat where "CPSSPWROFF \<equiv> 54"
abbreviation (input) CPSSPWR12ON :: nat where "CPSSPWR12ON \<equiv> 55"
abbreviation (input) CPSSPWR12OFF :: nat where "CPSSPWR12OFF \<equiv> 56"
abbreviation (input) CPSSPWR6ON :: nat where "CPSSPWR6ON \<equiv> 57"
abbreviation (input) CPSSPWR6OFF :: nat where "CPSSPWR6OFF \<equiv> 58"
abbreviation (input) CPSSPWR5ON :: nat where "CPSSPWR5ON \<equiv> 59"
abbreviation (input) CPSSPWR5OFF :: nat where "CPSSPWR5OFF \<equiv> 60"
abbreviation (input) CPSSPWR33ON :: nat where "CPSSPWR33ON \<equiv> 61"
abbreviation (input) CPSSPWR33OFF :: nat where "CPSSPWR33OFF \<equiv> 62"
abbreviation (input) CPSSECOON :: nat where "CPSSECOON \<equiv> 63"
abbreviation (input) CPSSECOOFF :: nat where "CPSSECOOFF \<equiv> 64"
abbreviation (input) CPSSMAXT1 :: nat where "CPSSMAXT1 \<equiv> 65"
abbreviation (input) CPSSMAXT2 :: nat where "CPSSMAXT2 \<equiv> 66"
abbreviation (input) CPSSMAXA :: nat where "CPSSMAXA \<equiv> 67"
abbreviation (input) CPSSMAXW :: nat where "CPSSMAXW \<equiv> 68"
abbreviation (input) CPSSMINC :: nat where "CPSSMINC \<equiv> 69"
abbreviation (input) CPSSMINV :: nat where "CPSSMINV \<equiv> 70"
abbreviation (input) CPSSMAXA12 :: nat where "CPSSMAXA12 \<equiv> 71"
abbreviation (input) CPSSMAXA6 :: nat where "CPSSMAXA6 \<equiv> 72"
abbreviation (input) CPSSMAXA5 :: nat where "CPSSMAXA5 \<equiv> 73"
abbreviation (input) CPSSMAXA33 :: nat where "CPSSMAXA33 \<equiv> 74"
abbreviation (input) CPSSCLOCK :: nat where "CPSSCLOCK \<equiv> 75"
abbreviation (input) CTCSINIT :: nat where "CTCSINIT \<equiv> 76"
abbreviation (input) CTCSPWRON :: nat where "CTCSPWRON \<equiv> 77"
abbreviation (input) CTCSPWROFF :: nat where "CTCSPWROFF \<equiv> 78"
abbreviation (input) CTCSPSSON :: nat where "CTCSPSSON \<equiv> 79"
abbreviation (input) CTCSPSSOFF :: nat where "CTCSPSSOFF \<equiv> 80"
abbreviation (input) CTCSTMSON :: nat where "CTCSTMSON \<equiv> 81"
abbreviation (input) CTCSTMSOFF :: nat where "CTCSTMSOFF \<equiv> 82"
abbreviation (input) CTCSMNSON :: nat where "CTCSMNSON \<equiv> 83"
abbreviation (input) CTCSMNSOFF :: nat where "CTCSMNSOFF \<equiv> 84"
abbreviation (input) CTCSLSON :: nat where "CTCSLSON \<equiv> 85"
abbreviation (input) CTCSLSOFF :: nat where "CTCSLSOFF \<equiv> 86"
abbreviation (input) CTCSFRQ :: nat where "CTCSFRQ \<equiv> 87"
abbreviation (input) CTCSCLOCK :: nat where "CTCSCLOCK \<equiv> 88"
abbreviation (input) CTMSINIT :: nat where "CTMSINIT \<equiv> 89"
abbreviation (input) CTMSPWRON :: nat where "CTMSPWRON \<equiv> 90"
abbreviation (input) CTMSPWROFF :: nat where "CTMSPWROFF \<equiv> 91"
abbreviation (input) CTMSCLOCK :: nat where "CTMSCLOCK \<equiv> 92"
abbreviation (input) CTMSPWRFAN1 :: nat where "CTMSPWRFAN1 \<equiv> 93"
abbreviation (input) CTMSPWRFAN2 :: nat where "CTMSPWRFAN2 \<equiv> 94"
abbreviation (input) CTMSPWRFAN3 :: nat where "CTMSPWRFAN3 \<equiv> 95"
abbreviation (input) CTMSPWRFAN4 :: nat where "CTMSPWRFAN4 \<equiv> 96"
abbreviation (input) CMNSINIT :: nat where "CMNSINIT \<equiv> 97"
abbreviation (input) CMNSPWRON :: nat where "CMNSPWRON \<equiv> 98"
abbreviation (input) CMNSPWROFF :: nat where "CMNSPWROFF \<equiv> 99"
abbreviation (input) CMNSCLOCK :: nat where "CMNSCLOCK \<equiv> 100"
abbreviation (input) CLSINIT :: nat where "CLSINIT \<equiv> 101"
abbreviation (input) CLSPWRON :: nat where "CLSPWRON \<equiv> 102"
abbreviation (input) CLSPWROFF :: nat where "CLSPWROFF \<equiv> 103"
abbreviation (input) CLSCLOCK :: nat where "CLSCLOCK \<equiv> 104"

subsection \<open>The tables\<close>

record tab_entry =
  te_sys_id :: u8
  te_type :: u8
  te_type_real :: u8
  te_sign :: u8
  te_tar_a :: fp
  te_tar_b :: fp
  te_tar_c :: fp
  te_msg_offset :: nat
  te_block_offset :: int
  te_block_n :: int
  te_cs_offset :: nat
  te_cs_block_n :: int
  te_key :: string
  te_alg :: u8

definition base_row :: "u8 \<Rightarrow> u8 \<Rightarrow> u8 \<Rightarrow> u8 \<Rightarrow> fp \<Rightarrow> fp \<Rightarrow> fp \<Rightarrow> nat \<Rightarrow> int \<Rightarrow> int \<Rightarrow> nat \<Rightarrow> int \<Rightarrow>
    string \<Rightarrow> u8 \<Rightarrow> tab_entry" where
  "base_row sys ty rt sg a b c off boff bn csoff csbn key alg =
     \<lparr>te_sys_id = sys, te_type = ty, te_type_real = rt, te_sign = sg, te_tar_a = a, te_tar_b = b,
      te_tar_c = c, te_msg_offset = off, te_block_offset = boff, te_block_n = bn,
      te_cs_offset = csoff, te_cs_block_n = csbn, te_key = key, te_alg = alg\<rparr>"

definition S_baseparamtab :: "tab_entry list" where
  "S_baseparamtab = [
     base_row SYS_PSS TYPE_D RTYPE_BOOL TYPE_UNSIGN (Fin 0) (Fin 1) (Fin 0) 0 0 0 0 0 ''PSSPWR'' ALG_AN,
     base_row SYS_PSS TYPE_D RTYPE_BOOL TYPE_UNSIGN (Fin 0) (Fin 1) (Fin 0) 1 1 0 1 0 ''PSSPWR12'' ALG_AN,
     base_row SYS_PSS TYPE_D RTYPE_BOOL TYPE_UNSIGN (Fin 0) (Fin 1) (Fin 0) 2 2 0 2 0 ''PSSPWR6'' ALG_AN,
     base_row SYS_PSS TYPE_D RTYPE_BOOL TYPE_UNSIGN (Fin 0) (Fin 1) (Fin 0) 3 3 0 3 0 ''PSSPWR5'' ALG_AN,
     base_row SYS_PSS TYPE_D RTYPE_BOOL TYPE_UNSIGN (Fin 0) (Fin 1) (Fin 0) 4 4 0 4 0 ''PSSPWR33'' ALG_AN,
     base_row SYS_PSS TYPE_D RTYPE_BOOL TYPE_UNSIGN (Fin 0) (Fin 1) (Fin 0) 5 5 0 5 0 ''PSSECO'' ALG_AN,
     base_row SYS_PSS TYPE_A RTYPE_INT8 TYPE_UNSIGN (Fin 0) (Fin 1) (Fin 0) 8 8 0 8 0 ''PSSCLOCK'' ALG_AN,
     base_row SYS_PSS TYPE_AP RTYPE_FLOAT32 TYPE_SIGN (Fin 0) (Fin 1) (Fin 0) 16 0 1 16 1 ''PSSMAXT1'' ALG_ABC,
     base_row SYS_PSS TYPE_AP RTYPE_FLOAT32 TYPE_SIGN (Fin 0) (Fin 1) (Fin 0) 32 0 2 32 2 ''PSSMAXT2'' ALG_ABC,
     base_row SYS_PSS TYPE_A RTYPE_FLOAT32 TYPE_UNSIGN (Fin 0) (Fin 1) (Fin 0) 48 0 3 48 3 ''PSSMAXA'' ALG_ABC,
     base_row SYS_PSS TYPE_A RTYPE_FLOAT32 TYPE_UNSIGN (Fin 0) (Fin 1) (Fin 0) 56 8 3 56 3 ''PSSMAXW'' ALG_ABC,
     base_row SYS_PSS TYPE_A RTYPE_INT8 TYPE_UNSIGN (Fin 0) (Fin 1) (Fin 0) 64 0 4 64 4 ''PSSMINC'' ALG_AN,
     base_row SYS_PSS TYPE_A RTYPE_FLOAT32 TYPE_UNSIGN (Fin 0) (Fin 1) (Fin 0) 72 8 4 72 4 ''PSSMINV'' ALG_ABC,
     base_row SYS_PSS TYPE_A RTYPE_FLOAT32 TYPE_UNSIGN (Fin 0) (Fin 1) (Fin 0) 80 0 5 80 5 ''PSSMAXA12'' ALG_ABC,
     base_row SYS_PSS TYPE_A RTYPE_FLOAT32 TYPE_UNSIGN (Fin 0) (Fin 1) (Fin 0) 88 8 5 88 5 ''PSSMAXA6'' ALG_ABC,
     base_row SYS_PSS TYPE_A RTYPE_FLOAT32 TYPE_UNSIGN (Fin 0) (Fin 1) (Fin 0) 96 0 6 96 6 ''PSSMAXA5'' ALG_ABC,
     base_row SYS_PSS TYPE_A RTYPE_FLOAT32 TYPE_UNSIGN (Fin 0) (Fin 1) (Fin 0) 104 8 6 104 6 ''PSSMAXA33'' ALG_ABC,
     base_row SYS_PSS TYPE_AP RTYPE_FLOAT32 TYPE_SIGN (Fin 0) (Fin 1) (Fin 0) 112 0 7 112 7 ''PSST1'' ALG_ABC,
     base_row SYS_PSS TYPE_AP RTYPE_FLOAT32 TYPE_SIGN (Fin 0) (Fin 1) (Fin 0) 128 0 8 128 8 ''PSST2'' ALG_ABC,
     base_row SYS_PSS TYPE_A RTYPE_FLOAT32 TYPE_UNSIGN (Fin 0) (Fin 1) (Fin 0) 144 0 9 144 9 ''PSSA'' ALG_ABC,
     base_row SYS_PSS TYPE_A RTYPE_FLOAT32 TYPE_UNSIGN (Fin 0) (Fin 1) (Fin 0) 152 8 9 152 9 ''PSSW'' ALG_ABC,
     base_row SYS_PSS TYPE_A RTYPE_FLOAT32 TYPE_UNSIGN (Fin 0) (Fin 1) (Fin 0) 160 0 10 160 10 ''PSSV'' ALG_ABC,
     base_row SYS_PSS TYPE_A RTYPE_INT8 TYPE_UNSIGN (Fin 0) (Fin 1) (Fin 0) 168 8 10 168 10 ''PSSC'' ALG_AN,
     base_row SYS_PSS TYPE_A RTYPE_FLOAT32 TYPE_UNSIGN (Fin 0) (Fin 1) (Fin 0) 176 0 11 176 11 ''PSSA12'' ALG_ABC,
     base_row SYS_PSS TYPE_A RTYPE_FLOAT32 TYPE_UNSIGN (Fin 0) (Fin 1) (Fin 0) 184 8 11 184 11 ''PSSV12'' ALG_ABC,
     base_row SYS_PSS TYPE_A RTYPE_FLOAT32 TYPE_UNSIGN (Fin 0) (Fin 1) (Fin 0) 192 0 12 192 12 ''PSSA6'' ALG_ABC,
     base_row SYS_PSS TYPE_A RTYPE_FLOAT32 TYPE_UNSIGN (Fin 0) (Fin 1) (Fin 0) 200 8 12 200 12 ''PSSV6'' ALG_ABC,
     base_row SYS_PSS TYPE_A RTYPE_FLOAT32 TYPE_UNSIGN (Fin 0) (Fin 1) (Fin 0) 208 0 13 208 13 ''PSSA5'' ALG_ABC,
     base_row SYS_PSS TYPE_A RTYPE_FLOAT32 TYPE_UNSIGN (Fin 0) (Fin 1) (Fin 0) 216 8 13 216 13 ''PSSV5'' ALG_ABC,
     base_row SYS_PSS TYPE_A RTYPE_FLOAT32 TYPE_UNSIGN (Fin 0) (Fin 1) (Fin 0) 224 0 14 224 14 ''PSSA33'' ALG_ABC,
     base_row SYS_PSS TYPE_A RTYPE_FLOAT32 TYPE_UNSIGN (Fin 0) (Fin 1) (Fin 0) 232 8 14 232 14 ''PSSV33'' ALG_ABC,
     base_row SYS_TCS TYPE_D RTYPE_BOOL TYPE_UNSIGN (Fin 0) (Fin 1) (Fin 0) 0 0 0 240 15 ''TCSPWR'' ALG_AN,
     base_row SYS_TCS TYPE_D RTYPE_BOOL TYPE_UNSIGN (Fin 0) (Fin 1) (Fin 0) 1 1 0 241 15 ''TCSPSS'' ALG_AN,
     base_row SYS_TCS TYPE_D RTYPE_BOOL TYPE_UNSIGN (Fin 0) (Fin 1) (Fin 0) 2 2 0 242 15 ''TCSTMS'' ALG_AN,
     base_row SYS_TCS TYPE_D RTYPE_BOOL TYPE_UNSIGN (Fin 0) (Fin 1) (Fin 0) 3 3 0 243 15 ''TCSMNS'' ALG_AN,
     base_row SYS_TCS TYPE_D RTYPE_BOOL TYPE_UNSIGN (Fin 0) (Fin 1) (Fin 0) 4 4 0 244 15 ''TCSLS'' ALG_AN,
     base_row SYS_TCS TYPE_A RTYPE_INT8 TYPE_UNSIGN (Fin 0) (Fin 1) (Fin 0) 8 8 0 248 15 ''TCSCLOCK'' ALG_AN,
     base_row SYS_TCS TYPE_AP RTYPE_INT16 TYPE_UNSIGN (Fin 0) (Fin 1) (Fin 0) 16 0 1 256 16 ''TCSFRQ'' ALG_AN,
     base_row SYS_TCS TYPE_AP RTYPE_FLOAT32 TYPE_SIGN (Fin 0) (Fin 1) (Fin 0) 32 0 2 272 17 ''TCST'' ALG_ABC,
     base_row SYS_TMS TYPE_D RTYPE_BOOL TYPE_UNSIGN (Fin 0) (Fin 1) (Fin 0) 0 0 0 288 18 ''TMSPWR'' ALG_AN,
     base_row SYS_TMS TYPE_A RTYPE_INT8 TYPE_UNSIGN (Fin 0) (Fin 1) (Fin 0) 8 8 0 296 18 ''TMSCLOCK'' ALG_AN,
     base_row SYS_TMS TYPE_A RTYPE_INT8 TYPE_UNSIGN (Fin 0) (Fin 1) (Fin 0) 16 0 1 304 19 ''TMSPWRFAN1'' ALG_AC,
     base_row SYS_TMS TYPE_A RTYPE_INT8 TYPE_UNSIGN (Fin 0) (Fin 1) (Fin 0) 24 8 1 312 19 ''TMSPWRFAN2'' ALG_AC,
     base_row SYS_TMS TYPE_A RTYPE_INT8 TYPE_UNSIGN (Fin 0) (Fin 1) (Fin 0) 32 0 2 320 20 ''TMSPWRFAN3'' ALG_AC,
     base_row SYS_TMS TYPE_A RTYPE_INT8 TYPE_UNSIGN (Fin 0) (Fin 1) (Fin 0) 40 8 2 328 20 ''TMSPWRFAN4'' ALG_AC,
     base_row SYS_TMS TYPE_AP RTYPE_FLOAT32 TYPE_SIGN (Fin 0) (Fin 1) (Fin 0) 48 0 3 336 21 ''TMST'' ALG_ABC,
     base_row SYS_MNS TYPE_D RTYPE_BOOL TYPE_UNSIGN (Fin 0) (Fin 1) (Fin 0) 0 0 0 352 22 ''MNSPWR'' ALG_AN,
     base_row SYS_MNS TYPE_A RTYPE_INT8 TYPE_UNSIGN (Fin 0) (Fin 1) (Fin 0) 8 8 0 360 22 ''MNSCLOCK'' ALG_AN,
     base_row SYS_MNS TYPE_AP RTYPE_FLOAT32 TYPE_SIGN (Fin 0) (Fin 1) (Fin 0) 16 0 1 368 23 ''MNST'' ALG_ABC,
     base_row SYS_LS TYPE_D RTYPE_BOOL TYPE_UNSIGN (Fin 0) (Fin 1) (Fin 0) 0 0 0 384 24 ''LSPWR'' ALG_AN,
     base_row SYS_LS TYPE_A RTYPE_INT8 TYPE_UNSIGN (Fin 0) (Fin 1) (Fin 0) 8 8 0 392 24 ''LSCLOCK'' ALG_AN,
     base_row SYS_LS TYPE_AP RTYPE_FLOAT32 TYPE_SIGN (Fin 0) (Fin 1) (Fin 0) 16 0 1 400 25 ''LST'' ALG_ABC]"

definition S_basecommtab :: "tab_entry list" where
  "S_basecommtab = [
     base_row SYS_PSS TYPE_D RTYPE_BOOL TYPE_UNSIGN (Fin 0) (Fin 1) (Fin 0) 0 0 0 0 0 ''CPSSINIT'' ALG_AN,
     base_row SYS_PSS TYPE_D RTYPE_BOOL TYPE_UNSIGN (Fin 0) (Fin 1) (Fin 0) 1 1 0 1 0 ''CPSSPWRON'' ALG_AN,
     base_row SYS_PSS TYPE_D RTYPE_BOOL TYPE_UNSIGN (Fin 0) (Fin 1) (Fin 0) 2 2 0 2 0 ''CPSSPWROFF'' ALG_AN,
     base_row SYS_PSS TYPE_D RTYPE_BOOL TYPE_UNSIGN (Fin 0) (Fin 1) (Fin 0) 3 3 0 3 0 ''CPSSPWR12ON'' ALG_AN,
     base_row SYS_PSS TYPE_D RTYPE_BOOL TYPE_UNSIGN (Fin 0) (Fin 1) (Fin 0) 4 4 0 4 0 ''CPSSPWR12OFF'' ALG_AN,
     base_row SYS_PSS TYPE_D RTYPE_BOOL TYPE_UNSIGN (Fin 0) (Fin 1) (Fin 0) 5 5 0 5 0 ''CPSSPWR6ON'' ALG_AN,
     base_row SYS_PSS TYPE_D RTYPE_BOOL TYPE_UNSIGN (Fin 0) (Fin 1) (Fin 0) 6 6 0 6 0 ''CPSSPWR6OFF'' ALG_AN,
     base_row SYS_PSS TYPE_D RTYPE_BOOL TYPE_UNSIGN (Fin 0) (Fin 1) (Fin 0) 7 7 0 7 0 ''CPSSPWR5ON'' ALG_AN,
     base_row SYS_PSS TYPE_D RTYPE_BOOL TYPE_UNSIGN (Fin 0) (Fin 1) (Fin 0) 8 8 0 8 0 ''CPSSPWR5OFF'' ALG_AN,
     base_row SYS_PSS TYPE_D RTYPE_BOOL TYPE_UNSIGN (Fin 0) (Fin 1) (Fin 0) 9 9 0 9 0 ''CPSSPWR33ON'' ALG_AN,
     base_row SYS_PSS TYPE_D RTYPE_BOOL TYPE_UNSIGN (Fin 0) (Fin 1) (Fin 0) 10 10 0 10 0 ''CPSSPWR33OFF'' ALG_AN,
     base_row SYS_PSS TYPE_D RTYPE_BOOL TYPE_UNSIGN (Fin 0) (Fin 1) (Fin 0) 11 11 0 11 0 ''CPSSECOON'' ALG_AN,
     base_row SYS_PSS TYPE_D RTYPE_BOOL TYPE_UNSIGN (Fin 0) (Fin 1) (Fin 0) 12 12 0 12 0 ''CPSSECOOFF'' ALG_AN,
     base_row SYS_PSS TYPE_AP RTYPE_INT16 TYPE_SIGN (Fin 0) (Fin 1) (Fin 0) 16 0 1 16 1 ''CPSSMAXT1'' ALG_AN,
     base_row SYS_PSS TYPE_AP RTYPE_INT16 TYPE_SIGN (Fin 0) (Fin 1) (Fin 0) 32 0 2 32 2 ''CPSSMAXT2'' ALG_AN,
     base_row SYS_PSS TYPE_A RTYPE_FLOAT32 TYPE_UNSIGN (Fin 0) (Fin 1) (Fin 0) 48 0 3 48 3 ''CPSSMAXA'' ALG_ABC,
     base_row SYS_PSS TYPE_A RTYPE_FLOAT32 TYPE_UNSIGN (Fin 0) (Fin 1) (Fin 0) 56 8 3 56 3 ''CPSSMAXW'' ALG_ABC,
     base_row SYS_PSS TYPE_A RTYPE_INT8 TYPE_UNSIGN (Fin 0) (Fin 1) (Fin 0) 64 0 4 64 4 ''CPSSMINC'' ALG_AN,
     base_row SYS_PSS TYPE_A RTYPE_FLOAT32 TYPE_UNSIGN (Fin 0) (Fin 1) (Fin 0) 72 8 4 72 4 ''CPSSMINV'' ALG_ABC,
     base_row SYS_PSS TYPE_A RTYPE_FLOAT32 TYPE_UNSIGN (Fin 0) (Fin 1) (Fin 0) 80 0 5 80 5 ''CPSSMAXA12'' ALG_ABC,
     base_row SYS_PSS TYPE_A RTYPE_FLOAT32 TYPE_UNSIGN (Fin 0) (Fin 1) (Fin 0) 88 8 5 88 5 ''CPSSMAXA6'' ALG_ABC,
     base_row SYS_PSS TYPE_A RTYPE_FLOAT32 TYPE_UNSIGN (Fin 0) (Fin 1) (Fin 0) 96 0 6 96 6 ''CPSSMAXA5'' ALG_ABC,
     base_row SYS_PSS TYPE_A RTYPE_FLOAT32 TYPE_UNSIGN (Fin 0) (Fin 1) (Fin 0) 104 8 6 104 6 ''CPSSMAXA33'' ALG_ABC,
     base_row SYS_PSS TYPE_A RTYPE_INT8 TYPE_UNSIGN (Fin 0) (Fin 1) (Fin 0) 112 0 7 112 7 ''CPSSCLOCK'' ALG_AN,
     base_row SYS_TCS TYPE_D RTYPE_BOOL TYPE_UNSIGN (Fin 0) (Fin 1) (Fin 0) 0 0 0 128 8 ''CTCSINIT'' ALG_AN,
     base_row SYS_TCS TYPE_D RTYPE_BOOL TYPE_UNSIGN (Fin 0) (Fin 1) (Fin 0) 1 1 0 129 8 ''CTCSPWRON'' ALG_AN,
     base_row SYS_TCS TYPE_D RTYPE_BOOL TYPE_UNSIGN (Fin 0) (Fin 1) (Fin 0) 2 2 0 130 8 ''CTCSPWROFF'' ALG_AN,
     base_row SYS_TCS TYPE_D RTYPE_BOOL TYPE_UNSIGN (Fin 0) (Fin 1) (Fin 0) 3 3 0 131 8 ''CTCSPSSON'' ALG_AN,
     base_row SYS_TCS TYPE_D RTYPE_BOOL TYPE_UNSIGN (Fin 0) (Fin 1) (Fin 0) 4 4 0 132 8 ''CTCSPSSOFF'' ALG_AN,
     base_row SYS_TCS TYPE_D RTYPE_BOOL TYPE_UNSIGN (Fin 0) (Fin 1) (Fin 0) 5 5 0 133 8 ''CTCSTMSON'' ALG_AN,
     base_row SYS_TCS TYPE_D RTYPE_BOOL TYPE_UNSIGN (Fin 0) (Fin 1) (Fin 0) 6 6 0 134 8 ''CTCSTMSOFF'' ALG_AN,
     base_row SYS_TCS TYPE_D RTYPE_BOOL TYPE_UNSIGN (Fin 0) (Fin 1) (Fin 0) 7 7 0 135 8 ''CTCSMNSON'' ALG_AN,
     base_row SYS_TCS TYPE_D RTYPE_BOOL TYPE_UNSIGN (Fin 0) (Fin 1) (Fin 0) 8 8 0 136 8 ''CTCSMNSOFF'' ALG_AN,
     base_row SYS_TCS TYPE_D RTYPE_BOOL TYPE_UNSIGN (Fin 0) (Fin 1) (Fin 0) 9 9 0 137 8 ''CTCSLSON'' ALG_AN,
     base_row SYS_TCS TYPE_D RTYPE_BOOL TYPE_UNSIGN (Fin 0) (Fin 1) (Fin 0) 10 10 0 138 8 ''CTCSLSOFF'' ALG_AN,
     base_row SYS_TCS TYPE_AP RTYPE_INT16 TYPE_UNSIGN (Fin 0) (Fin 1) (Fin 0) 16 0 1 144 9 ''CTCSFRQ'' ALG_AN,
     base_row SYS_TCS TYPE_A RTYPE_INT8 TYPE_UNSIGN (Fin 0) (Fin 1) (Fin 0) 32 0 2 160 10 ''CTCSCLOCK'' ALG_AN,
     base_row SYS_TMS TYPE_D RTYPE_BOOL TYPE_UNSIGN (Fin 0) (Fin 1) (Fin 0) 0 0 0 176 11 ''CTMSINIT'' ALG_AN,
     base_row SYS_TMS TYPE_D RTYPE_BOOL TYPE_UNSIGN (Fin 0) (Fin 1) (Fin 0) 1 1 0 177 11 ''CTMSPWRON'' ALG_AN,
     base_row SYS_TMS TYPE_D RTYPE_BOOL TYPE_UNSIGN (Fin 0) (Fin 1) (Fin 0) 2 2 0 178 11 ''CTMSPWROFF'' ALG_AN,
     base_row SYS_TMS TYPE_A RTYPE_INT8 TYPE_UNSIGN (Fin 0) (Fin 1) (Fin 0) 8 8 0 184 11 ''CTMSCLOCK'' ALG_AN,
     base_row SYS_TMS TYPE_A RTYPE_INT8 TYPE_UNSIGN (Fin 0) (Fin 1) (Fin 10) 16 0 1 192 12 ''CTMSPWRFAN1'' ALG_AC,
     base_row SYS_TMS TYPE_A RTYPE_INT8 TYPE_UNSIGN (Fin 0) (Fin 1) (Fin 10) 24 8 1 200 12 ''CTMSPWRFAN2'' ALG_AC,
     base_row SYS_TMS TYPE_A RTYPE_INT8 TYPE_UNSIGN (Fin 0) (Fin 1) (Fin 10) 32 0 2 208 13 ''CTMSPWRFAN3'' ALG_AC,
     base_row SYS_TMS TYPE_A RTYPE_INT8 TYPE_UNSIGN (Fin 0) (Fin 1) (Fin 10) 40 8 2 216 13 ''CTMSPWRFAN4'' ALG_AC,
     base_row SYS_MNS TYPE_D RTYPE_BOOL TYPE_UNSIGN (Fin 0) (Fin 1) (Fin 0) 0 0 0 224 14 ''CMNSINIT'' ALG_AN,
     base_row SYS_MNS TYPE_D RTYPE_BOOL TYPE_UNSIGN (Fin 0) (Fin 1) (Fin 0) 1 1 0 225 14 ''CMNSPWRON'' ALG_AN,
     base_row SYS_MNS TYPE_D RTYPE_BOOL TYPE_UNSIGN (Fin 0) (Fin 1) (Fin 0) 2 2 0 226 14 ''CMNSPWROFF'' ALG_AN,
     base_row SYS_MNS TYPE_A RTYPE_INT8 TYPE_UNSIGN (Fin 0) (Fin 1) (Fin 0) 8 8 0 232 14 ''CMNSCLOCK'' ALG_AN,
     base_row SYS_LS TYPE_D RTYPE_BOOL TYPE_UNSIGN (Fin 0) (Fin 1) (Fin 0) 0 0 0 240 15 ''CLSINIT'' ALG_AN,
     base_row SYS_LS TYPE_D RTYPE_BOOL TYPE_UNSIGN (Fin 0) (Fin 1) (Fin 0) 1 1 0 241 15 ''CLSPWRON'' ALG_AN,
     base_row SYS_LS TYPE_D RTYPE_BOOL TYPE_UNSIGN (Fin 0) (Fin 1) (Fin 0) 2 2 0 242 15 ''CLSPWROFF'' ALG_AN,
     base_row SYS_LS TYPE_A RTYPE_INT8 TYPE_UNSIGN (Fin 0) (Fin 1) (Fin 0) 8 8 0 248 15 ''CLSCLOCK'' ALG_AN]"

subsection \<open>Message sizes\<close>

text \<open>The \<open>*_PARAM_MSG_BLOCKS\<close> and \<open>*_COMM_MSG_BLOCKS\<close> macros of \<open>sys_list.hpp\<close>.\<close>

definition param_msg_blocks :: "u8 \<Rightarrow> nat" where
  "param_msg_blocks s = (if s = SYS_CS then 26 else if s = SYS_PSS then 15 else if s = SYS_TCS then 3
     else if s = SYS_TMS then 4 else if s = SYS_MNS then 2 else if s = SYS_LS then 2 else 0)"

definition comm_msg_blocks :: "u8 \<Rightarrow> nat" where
  "comm_msg_blocks s = (if s = SYS_CS then 16 else if s = SYS_PSS then 8 else if s = SYS_TCS then 3
     else if s = SYS_TMS then 3 else if s = SYS_MNS then 1 else if s = SYS_LS then 1 else 0)"

definition device_systems :: "u8 list" where
  "device_systems = [SYS_PSS, SYS_TCS, SYS_TMS, SYS_MNS, SYS_LS]"

definition type_width_bits :: "u8 \<Rightarrow> u8" where
  "type_width_bits t = (if t = TYPE_D then 1 else if t = TYPE_A then 8 else if t = TYPE_AP then 16 else 0)"

text \<open>The first block of each system's window in the CS image: the windows follow one another.\<close>

fun window_base :: "(u8 \<Rightarrow> nat) \<Rightarrow> u8 list \<Rightarrow> u8 \<Rightarrow> nat" where
  "window_base sz [] s = 0"
| "window_base sz (x # xs) s = (if x = s then 0 else sz x + window_base sz xs s)"

definition entry_bits :: "(tab_entry \<Rightarrow> nat) \<Rightarrow> tab_entry \<Rightarrow> nat list" where
  "entry_bits ofs e = map (\<lambda>i. ofs e + i) [0..<unat (type_width_bits (te_type e))]"

definition entry_placed :: "(u8 \<Rightarrow> nat) \<Rightarrow> tab_entry \<Rightarrow> bool" where
  "entry_placed sz e \<longleftrightarrow>
     layout_supported (type_width_bits (te_type e)) (te_block_offset e) \<and>
     te_sys_id e \<in> set device_systems \<and>
     0 \<le> te_block_n e \<and> te_block_n e < int (sz (te_sys_id e)) \<and>
     int (te_msg_offset e) = 16 * te_block_n e + te_block_offset e \<and>
     int (te_cs_offset e) = 16 * te_cs_block_n e + te_block_offset e \<and>
     te_cs_block_n e = int (window_base sz device_systems (te_sys_id e)) + te_block_n e \<and>
     te_cs_block_n e < int (sz SYS_CS)"

definition entry_before :: "(tab_entry \<Rightarrow> nat) \<Rightarrow> tab_entry \<Rightarrow> tab_entry \<Rightarrow> bool" where
  "entry_before ofs e e' \<longleftrightarrow> ofs e + unat (type_width_bits (te_type e)) \<le> ofs e'"

lemma set_entry_bits: "set (entry_bits ofs e) = {ofs e ..< ofs e + unat (type_width_bits (te_type e))}"
  by (auto simp: entry_bits_def image_iff)

lemma distinct_entry_bits [simp]: "distinct (entry_bits ofs e)"
  by (simp add: entry_bits_def distinct_map inj_on_def)

lemma ordered_rows:
  "successively (entry_before ofs) es \<Longrightarrow> sorted_wrt (entry_before ofs) es"
  by (rule successively_conv_sorted_wrt [THEN iffD1]) (auto simp: transp_def entry_before_def)

lemma distinct_by_order:
  "sorted_wrt (entry_before ofs) es \<Longrightarrow> distinct (concat (map (entry_bits ofs) es))"
  by (induction es) (auto simp: set_entry_bits entry_before_def)

lemma param_rows_placed: "list_all (entry_placed param_msg_blocks) S_baseparamtab"
  by code_simp

lemma comm_rows_placed: "list_all (entry_placed comm_msg_blocks) S_basecommtab"
  by code_simp

lemma length_S_baseparamtab [simp]: "length S_baseparamtab = Param_max"
  by code_simp

lemma length_S_basecommtab [simp]: "length S_basecommtab = Comm_max"
  by code_simp

lemma param_rows_ordered: "sorted_wrt (entry_before te_cs_offset) S_baseparamtab"
  by (rule ordered_rows) code_simp

lemma comm_rows_ordered: "sorted_wrt (entry_before te_cs_offset) S_basecommtab"
  by (rule ordered_rows) code_simp

subsection \<open>Properties\<close>

text \<open>
  Every row of both tables has a layout the block code supports, lies inside its system's
  message, has the redundant bit offsets its block numbers imply, and sits in the CS image at the
  same place relative to the base of its system's window, the windows being laid one after the
  other in the order of the system ids.
\<close>

lemma base_tables_placed:
  "list_all (entry_placed param_msg_blocks) S_baseparamtab \<and>
   list_all (entry_placed comm_msg_blocks) S_basecommtab \<and>
   length S_baseparamtab = Param_max \<and> length S_basecommtab = Comm_max"
  by (simp add: param_rows_placed comm_rows_placed)

text \<open>
  C24: no two items of a table share a bit of the CS image, and no two items of one system share
  a bit of that system's message.
\<close>

theorem base_tables_disjoint:
  "distinct (concat (map (entry_bits te_cs_offset) S_baseparamtab)) \<and>
   distinct (concat (map (entry_bits te_cs_offset) S_basecommtab)) \<and>
   list_all (\<lambda>s.
     distinct (concat (map (entry_bits te_msg_offset) (filter (\<lambda>e. te_sys_id e = s) S_baseparamtab))) \<and>
     distinct (concat (map (entry_bits te_msg_offset) (filter (\<lambda>e. te_sys_id e = s) S_basecommtab))))
     device_systems"
proof (intro conjI)
  show "distinct (concat (map (entry_bits te_cs_offset) S_baseparamtab))"
    by (rule distinct_by_order [OF param_rows_ordered])
  show "distinct (concat (map (entry_bits te_cs_offset) S_basecommtab))"
    by (rule distinct_by_order [OF comm_rows_ordered])
  have "list_all (\<lambda>s.
     successively (entry_before te_msg_offset) (filter (\<lambda>e. te_sys_id e = s) S_baseparamtab) \<and>
     successively (entry_before te_msg_offset) (filter (\<lambda>e. te_sys_id e = s) S_basecommtab))
     device_systems" by code_simp
  then show "list_all (\<lambda>s.
     distinct (concat (map (entry_bits te_msg_offset) (filter (\<lambda>e. te_sys_id e = s) S_baseparamtab))) \<and>
     distinct (concat (map (entry_bits te_msg_offset) (filter (\<lambda>e. te_sys_id e = s) S_basecommtab))))
     device_systems"
    by (auto simp: list_all_iff intro!: distinct_by_order ordered_rows)
qed

end
