(* ===== verification/ParCodec.thy ===== *)
theory ParCodec
  imports Tables
begin

text \<open>
  The parameter codec, \<open>sub/src/i_par.cpp\<close> and \<open>sub/interface/i_par.hpp\<close>: \<open>IMSGGET\<close> decodes an item of a
  received message, \<open>IMSGSET\<close> quantises a value and stores it in a message to send. A context holds
  the two message buffers; writing through its pointers returns the context with the buffer
  updated. \<open>IMSGSET\<close> returns \<open>None\<close> where the C++ code converts a floating-point value that does
  not fit \<open>int64_t\<close> (an unspecified or undefined result).
\<close>

datatype role_t = role_cs | role_device

datatype par_status = par_ok | par_no_context | par_id_out_of_range | par_direction_mismatch
  | par_system_mismatch | par_null_buffer | par_bad_type | par_bad_layout | par_buffer_too_small
  | par_value_out_of_range

record context_t =
  ctx_role :: role_t
  ctx_system_id :: u8
  msg_prm :: "u16 list option"
  msg_prm_blocks :: nat
  msg_cmd :: "u16 list option"
  msg_cmd_blocks :: nat

record resolved_item =
  read_buf :: "u16 list option"
  write_buf :: "u16 list option"
  block_count :: nat
  ri_block_n :: nat
  ri_block_offset :: u8
  width_bits :: u8
  wire_signed :: bool
  ri_type_real :: u8
  tar_a :: fp
  tar_b :: fp
  tar_c :: fp
  ri_alg :: u8

definition is_param_id :: "nat \<Rightarrow> bool" where "is_param_id i \<longleftrightarrow> i < Param_max"
definition is_comm_id :: "nat \<Rightarrow> bool" where "is_comm_id i \<longleftrightarrow> Param_max \<le> i \<and> i < Param_Comm_max"

subsection \<open>Decoding\<close>

definition decode_raw :: "u32 \<Rightarrow> u8 \<Rightarrow> bool \<Rightarrow> u32" where
  "decode_raw raw w is_signed =
     (let full_mask = push_bit (unat w) 1 - 1; clipped = raw AND full_mask in
      if \<not> is_signed then clipped
      else let sign_bit = push_bit (unat w - 1) 1 in
        if clipped AND sign_bit = 0 then clipped else clipped OR NOT full_mask)"

definition wire_min :: "resolved_item \<Rightarrow> int" where
  "wire_min item = (if wire_signed item then - (2 ^ (unat (width_bits item) - 1)) else 0)"

definition wire_max :: "resolved_item \<Rightarrow> int" where
  "wire_max item = (if wire_signed item then 2 ^ (unat (width_bits item) - 1) - 1
                    else 2 ^ unat (width_bits item) - 1)"

definition clamp_wire_value :: "resolved_item \<Rightarrow> int \<Rightarrow> int" where
  "clamp_wire_value item v =
     (if v < wire_min item then wire_min item else if v > wire_max item then wire_max item else v)"

definition decode_processed :: "resolved_item \<Rightarrow> fp \<Rightarrow> fp" where
  "decode_processed item x =
     (if ri_alg item = ALG_NONE \<or> ri_alg item = ALG_AN then x
      else if ri_alg item = ALG_AC then fp_add f64 x (tar_c item)
      else if ri_alg item = ALG_ABC then fp_add f64 (fp_mul f64 (tar_b item) x) (tar_c item)
      else if ri_alg item = ALG_AAC
        then fp_add f64 (fp_mul f64 (fp_mul f64 (tar_a item) x) x) (tar_c item)
      else x)"

subsection \<open>Quantisation\<close>

definition add_candidate :: "int list \<Rightarrow> nat \<Rightarrow> int \<Rightarrow> int list" where
  "add_candidate cs capacity v =
     (if v \<in> set cs then cs else if length cs < capacity then cs @ [v] else cs)"

definition add_quant_candidates :: "int list \<Rightarrow> nat \<Rightarrow> fp \<Rightarrow> int list option" where
  "add_quant_candidates cs capacity q =
     (if \<not> fp_isfinite q then Some cs
      else case fp_llround q of None \<Rightarrow> None | Some a \<Rightarrow>
        case fp_floor_i64 q of None \<Rightarrow> None | Some b \<Rightarrow>
          case fp_ceil_i64 q of None \<Rightarrow> None | Some c \<Rightarrow>
            Some (add_candidate (add_candidate (add_candidate cs capacity a) capacity b) capacity c))"

definition k_max_candidates :: nat where "k_max_candidates = 12"

text \<open>The first part of \<open>prepare_raw_value\<close>: the candidate list, or the status it returns early with.\<close>

definition quant_candidates :: "resolved_item \<Rightarrow> fp \<Rightarrow> (par_status + int list) option" where
  "quant_candidates item desired =
     (let add = \<lambda>q. map_option Inr (add_quant_candidates [] k_max_candidates q) in
      if ri_alg item = ALG_NONE \<or> ri_alg item = ALG_AN then add desired
      else if ri_alg item = ALG_AC then add (fp_sub f64 desired (tar_c item))
      else if ri_alg item = ALG_ABC then
        (if fp_eq (tar_b item) (Fin 0) then Some (Inl par_value_out_of_range)
         else add (fp_div f64 (fp_sub f64 desired (tar_c item)) (tar_b item)))
      else if ri_alg item = ALG_AAC then
        (if fp_eq (tar_a item) (Fin 0) then Some (Inl par_value_out_of_range)
         else let ratio = fp_div f64 (fp_sub f64 desired (tar_c item)) (tar_a item) in
           if fp_lt ratio (Fin 0) then Some (Inl par_value_out_of_range)
           else let root = fp_sqrt f64 ratio in
             case add_quant_candidates [] k_max_candidates root of None \<Rightarrow> None
             | Some cs \<Rightarrow> map_option Inr (add_quant_candidates cs k_max_candidates (fp_neg root)))
      else Some (Inl par_bad_type))"

definition quant_error :: "resolved_item \<Rightarrow> fp \<Rightarrow> int \<Rightarrow> fp" where
  "quant_error item desired clamped =
     fp_abs (fp_sub f64 (decode_processed item (fp_of_int f64 clamped)) desired)"

text \<open>The selection loop: \<open>best\<close> and \<open>err\<close> are \<open>best_candidate\<close> and \<open>best_error\<close>.\<close>

fun best_loop :: "resolved_item \<Rightarrow> fp \<Rightarrow> int list \<Rightarrow> int \<Rightarrow> fp \<Rightarrow> int" where
  "best_loop item desired [] best err = best"
| "best_loop item desired (c # cs) best err =
     (let clamped = clamp_wire_value item c; e = quant_error item desired clamped in
      if fp_lt e err then best_loop item desired cs clamped e
      else best_loop item desired cs best err)"

definition prepare_raw_value :: "resolved_item \<Rightarrow> fp \<Rightarrow> (par_status + u32) option" where
  "prepare_raw_value item input_value =
     (let desired = fp_cast f64 input_value in
      case quant_candidates item desired of None \<Rightarrow> None
      | Some (Inl st) \<Rightarrow> Some (Inl st)
      | Some (Inr []) \<Rightarrow> Some (Inl par_value_out_of_range)
      | Some (Inr (c # cs)) \<Rightarrow>
          Some (Inr (word_of_int (best_loop item desired (c # cs) (clamp_wire_value item c) PInf))))"

definition encode_to_bits :: "u32 \<Rightarrow> u8 \<Rightarrow> u32" where
  "encode_to_bits v w = v AND (push_bit (unat w) 1 - 1)"

subsection \<open>Resolving an item\<close>

definition fill_item_layout ::
    "u16 list option \<Rightarrow> u16 list option \<Rightarrow> nat \<Rightarrow> int \<Rightarrow> tab_entry \<Rightarrow> par_status + resolved_item" where
  "fill_item_layout rb wb n bn e =
     (if rb = None \<and> wb = None then Inl par_null_buffer
      else if n = 0 then Inl par_null_buffer
      else let w = type_width_bits (te_type e) in
        if w = 0 then Inl par_bad_type
        else if bn < 0 \<or> nat bn \<ge> n then Inl par_bad_layout
        else if \<not> layout_supported w (te_block_offset e) then Inl par_bad_layout
        else Inr \<lparr>read_buf = rb, write_buf = wb, block_count = n, ri_block_n = nat bn,
               ri_block_offset = word_of_int (te_block_offset e), width_bits = w,
               wire_signed = (te_sign e = TYPE_SIGN), ri_type_real = te_type_real e,
               tar_a = te_tar_a e, tar_b = te_tar_b e, tar_c = te_tar_c e, ri_alg = te_alg e\<rparr>)"

definition system_mismatch :: "context_t \<Rightarrow> u8 \<Rightarrow> bool" where
  "system_mismatch ctx s = (if ctx_system_id ctx = SYS_NONE then False else ctx_system_id ctx \<noteq> s)"

definition resolve_for_parse :: "context_t \<Rightarrow> nat \<Rightarrow> par_status + resolved_item" where
  "resolve_for_parse ctx i =
     (if ctx_role ctx = role_cs then
        (if \<not> is_param_id i then Inl par_direction_mismatch
         else let p = S_baseparamtab ! i in
           fill_item_layout (msg_prm ctx) None (msg_prm_blocks ctx) (te_cs_block_n p) p)
      else if \<not> is_comm_id i then Inl par_direction_mismatch
      else let c = S_basecommtab ! (i - Param_max) in
        if system_mismatch ctx (te_sys_id c) then Inl par_system_mismatch
        else fill_item_layout (msg_cmd ctx) None (msg_cmd_blocks ctx) (te_block_n c) c)"

definition resolve_for_generate :: "context_t \<Rightarrow> nat \<Rightarrow> par_status + resolved_item" where
  "resolve_for_generate ctx i =
     (if ctx_role ctx = role_cs then
        (if \<not> is_comm_id i then Inl par_direction_mismatch
         else let c = S_basecommtab ! (i - Param_max) in
           fill_item_layout None (msg_cmd ctx) (msg_cmd_blocks ctx) (te_cs_block_n c) c)
      else if \<not> is_param_id i then Inl par_direction_mismatch
      else let p = S_baseparamtab ! i in
        if system_mismatch ctx (te_sys_id p) then Inl par_system_mismatch
        else fill_item_layout None (msg_prm ctx) (msg_prm_blocks ctx) (te_block_n p) p)"

subsection \<open>The two operations\<close>

definition IMSGGET :: "context_t \<Rightarrow> nat \<Rightarrow> par_status \<times> fp" where
  "IMSGGET ctx i =
     (if \<not> is_param_id i \<and> \<not> is_comm_id i then (par_id_out_of_range, Fin 0)
      else case resolve_for_parse ctx i of
        Inl st \<Rightarrow> (st, Fin 0)
      | Inr item \<Rightarrow>
          (case read_value (read_buf item) (block_count item) (ri_block_n item)
                  (ri_block_offset item) (width_bits item) of
             None \<Rightarrow> (par_buffer_too_small, Fin 0)
           | Some raw \<Rightarrow>
               let decoded = decode_raw raw (width_bits item) (wire_signed item) in
               (par_ok, fp_cast f32 (decode_processed item (fp_of_int f64 (sint decoded))))))"

text \<open>The buffer that \<open>write_buf\<close> of a resolved item points to: the commands for CS, else the parameters.\<close>

definition set_write_buf :: "context_t \<Rightarrow> u16 list \<Rightarrow> context_t" where
  "set_write_buf ctx xs =
     (if ctx_role ctx = role_cs then ctx\<lparr>msg_cmd := Some xs\<rparr> else ctx\<lparr>msg_prm := Some xs\<rparr>)"

definition IMSGSET :: "context_t \<Rightarrow> nat \<Rightarrow> fp \<Rightarrow> (par_status \<times> context_t) option" where
  "IMSGSET ctx i v =
     (if \<not> is_param_id i \<and> \<not> is_comm_id i then Some (par_id_out_of_range, ctx)
      else case resolve_for_generate ctx i of
        Inl st \<Rightarrow> Some (st, ctx)
      | Inr item \<Rightarrow>
          (case prepare_raw_value item v of
             None \<Rightarrow> None
           | Some (Inl st) \<Rightarrow> Some (st, ctx)
           | Some (Inr prepared) \<Rightarrow>
               (case write_value (write_buf item) (block_count item) (ri_block_n item)
                       (ri_block_offset item) (width_bits item)
                       (encode_to_bits prepared (width_bits item)) of
                  None \<Rightarrow> Some (par_buffer_too_small, ctx)
                | Some xs \<Rightarrow> Some (par_ok, set_write_buf ctx xs))))"

text \<open>The wrappers on the thread-local bound context.\<close>

definition IMSGGET_bound :: "context_t option \<Rightarrow> nat \<Rightarrow> par_status \<times> fp" where
  "IMSGGET_bound g_ctx i = (case g_ctx of None \<Rightarrow> (par_no_context, Fin 0) | Some ctx \<Rightarrow> IMSGGET ctx i)"

definition IMSGSET_bound ::
    "context_t option \<Rightarrow> nat \<Rightarrow> fp \<Rightarrow> (par_status \<times> context_t option) option" where
  "IMSGSET_bound g_ctx i v =
     (case g_ctx of None \<Rightarrow> Some (par_no_context, None)
      | Some ctx \<Rightarrow> map_option (\<lambda>(st, c). (st, Some c)) (IMSGSET ctx i v))"

subsection \<open>Identity items\<close>

text \<open>
  An item whose algorithm and coefficients make decoding the identity. All parameters, and every
  command but the four fan set points, are of this kind (\<open>CTMSPWRFAN*\<close> add 10).
\<close>

definition identity_item :: "resolved_item \<Rightarrow> bool" where
  "identity_item item \<longleftrightarrow>
     ri_alg item = ALG_NONE \<or> ri_alg item = ALG_AN \<or>
     ri_alg item = ALG_AC \<and> tar_c item = Fin 0 \<or>
     ri_alg item = ALG_ABC \<and> tar_b item = Fin 1 \<and> tar_c item = Fin 0"

lemma to_fp_exact [simp]: "exact_in f x \<Longrightarrow> to_fp f x = Fin x"
  by (simp add: exact_in_def)

lemma identity_decode:
  assumes "identity_item item" "exact_in f64 x"
  shows "decode_processed item (Fin x) = Fin x"
  using assms by (auto simp: identity_item_def decode_processed_def)

definition three_candidates :: "rat \<Rightarrow> int list" where
  "three_candidates v = add_candidate (add_candidate [rhaz v] 12 \<lfloor>v\<rfloor>) 12 \<lceil>v\<rceil>"

definition quantisable :: "rat \<Rightarrow> bool" where
  "quantisable v \<longleftrightarrow> exact_in f64 v \<and> fits_i64 (rhaz v) \<and> fits_i64 \<lfloor>v\<rfloor> \<and> fits_i64 \<lceil>v\<rceil>"

lemma add_quant_first:
  "quantisable v \<Longrightarrow> add_quant_candidates [] k_max_candidates (Fin v) = Some (three_candidates v)"
  by (simp add: add_quant_candidates_def three_candidates_def quantisable_def in_i64_def
      k_max_candidates_def add_candidate_def)

lemma identity_quant:
  assumes "identity_item item" "quantisable v"
  shows "quant_candidates item (Fin v) = Some (Inr (three_candidates v))"
proof -
  have s: "fp_sub f64 (Fin v) (Fin 0) = Fin v" "fp_div f64 (Fin v) (Fin 1) = Fin v" "to_fp f64 v = Fin v"
    using assms(2) by (simp_all add: fp_sub_def quantisable_def)
  show ?thesis
    using assms(1) add_quant_first [OF assms(2)]
    by (elim identity_item_def [THEN iffD1, THEN disjE] disjE conjE)
      (simp_all add: quant_candidates_def Let_def s)
qed

lemma set_three_candidates: "set (three_candidates v) = {rhaz v, \<lfloor>v\<rfloor>, \<lceil>v\<rceil>}"
  by (auto simp: three_candidates_def add_candidate_def)

lemma three_candidates_Cons: "\<exists>cs. three_candidates v = rhaz v # cs"
  by (auto simp: three_candidates_def add_candidate_def)

subsection \<open>The nearest value in the wire range\<close>

lemma rhaz_cases: "rhaz v = \<lfloor>v\<rfloor> \<or> rhaz v = \<lceil>v\<rceil>"
proof (cases "v = of_int \<lfloor>v\<rfloor>")
  case True
  then obtain k where "v = of_int k" ..
  then show ?thesis by (auto simp: rhaz_def) linarith+
next
  case False
  then have "\<lceil>v\<rceil> = \<lfloor>v\<rfloor> + 1" by linarith
  then show ?thesis by (auto simp: rhaz_def) linarith+
qed

lemma rhaz_nearest: "\<bar>of_int (rhaz v) - v\<bar> \<le> \<bar>of_int n - v\<bar>"
proof -
  have "\<bar>of_int (rhaz v) - v\<bar> \<le> 1/2"
    by (auto simp: rhaz_def abs_if) linarith+
  moreover have "1 \<le> \<bar>rhaz v - n\<bar>" if "n \<noteq> rhaz v" using that by simp
  then have "n \<noteq> rhaz v \<Longrightarrow> 1 \<le> \<bar>of_int (rhaz v) - (of_int n :: rat)\<bar>"
    by (metis of_int_1_le_iff of_int_abs of_int_diff)
  ultimately show ?thesis by (cases "n = rhaz v") (simp, linarith)
qed

lemma wire_min_le_max: "width_bits item \<in> {1, 8, 16} \<Longrightarrow> wire_min item \<le> wire_max item"
  by (auto simp: wire_min_def wire_max_def)

lemma clamp_nearest:
  assumes "wire_min item \<le> wire_max item"
  shows "\<bar>of_int (clamp_wire_value item (rhaz v)) - v\<bar> \<le> \<bar>of_int (clamp_wire_value item n) - v\<bar>"
proof -
  let ?a = "wire_min item" and ?b = "wire_max item" and ?r = "rhaz v"
  consider "?r < ?a" | "?b < ?r" | "?a \<le> ?r" "?r \<le> ?b" by linarith
  then show ?thesis
  proof cases
    case 1
    have "v \<le> of_int ?a" using 1 by (auto simp: rhaz_def split: if_splits) linarith+
    moreover have "?a \<le> clamp_wire_value item n" using assms by (simp add: clamp_wire_value_def)
    then have "(of_int ?a :: rat) \<le> of_int (clamp_wire_value item n)" by simp
    ultimately show ?thesis using 1 by (simp add: clamp_wire_value_def)
  next
    case 2
    have "of_int ?b \<le> v" using 2 by (auto simp: rhaz_def split: if_splits) linarith+
    moreover have "clamp_wire_value item n \<le> ?b" using assms by (simp add: clamp_wire_value_def)
    then have "(of_int (clamp_wire_value item n) :: rat) \<le> of_int ?b" by simp
    ultimately show ?thesis using 2 assms by (simp add: clamp_wire_value_def)
  next
    case 3
    then have "clamp_wire_value item ?r = ?r" by (simp add: clamp_wire_value_def)
    then show ?thesis by (simp add: rhaz_nearest)
  qed
qed

lemma width_one_of:
  assumes "width_bits item \<in> {1, 8, 16}"
  shows "\<bar>clamp_wire_value item n\<bar> < 2 ^ 16"
  using assms by (auto simp: clamp_wire_value_def wire_min_def wire_max_def)

lemma fits_i64_abs: "fits_i64 \<lfloor>v\<rfloor> \<Longrightarrow> fits_i64 \<lceil>v\<rceil> \<Longrightarrow> \<bar>v\<bar> \<le> 2 ^ 63"
  unfolding fits_i64_def by (auto simp: abs_if)

lemma to_fp_bounded:
  assumes "\<bar>x\<bar> \<le> 2 ^ 64"
  shows "to_fp f64 x = Fin (rnd f64 x)"
proof -
  have "rnd f64 (2 ^ 64) = 2 ^ 64"
    by (rule rnd_exact [where k = 1 and e = 64]) (simp_all add: f64_def power_int_def)
  then have "\<bar>rnd f64 x\<bar> \<le> 2 ^ 64"
    using rnd_mono [of "\<bar>x\<bar>" "2 ^ 64" f64] assms by (simp add: rnd_abs f64_def)
  also have "(2 ^ 64 :: rat) = 2 powi 64" by (simp add: power_int_def)
  also have "\<dots> < 2 powi (femax f64 + 1)" by (simp add: f64_def power_int_strict_increasing)
  finally show ?thesis by (rule to_fp_in_range)
qed

lemma identity_error:
  assumes "identity_item item" "quantisable v" "width_bits item \<in> {1, 8, 16}"
  shows "quant_error item (Fin v) (clamp_wire_value item n) =
    Fin (rnd f64 \<bar>of_int (clamp_wire_value item n) - v\<bar>)"
proof -
  let ?c = "clamp_wire_value item n"
  have c: "\<bar>?c\<bar> < 2 ^ 16" using assms(3) by (rule width_one_of)
  then have e: "exact_in f64 (of_int ?c)" by (intro exact_in_int) simp
  have "\<bar>of_int ?c :: rat\<bar> < 2 ^ 16"
    using c by (metis of_int_abs of_int_less_iff of_int_numeral of_int_power)
  moreover have "\<bar>v\<bar> \<le> 2 ^ 63" using assms(2) fits_i64_abs [of v] by (simp add: quantisable_def)
  ultimately have "\<bar>of_int ?c - v\<bar> \<le> 2 ^ 64" by (auto simp: abs_if split: if_splits)
  then show ?thesis
    using identity_decode [OF assms(1) e]
    by (simp add: quant_error_def fp_of_int_def e fp_sub_def to_fp_bounded rnd_abs)
qed

lemma best_loop_keeps:
  assumes "\<forall>c \<in> set cs. \<not> fp_lt (quant_error item d (clamp_wire_value item c)) err"
  shows "best_loop item d cs best err = best"
  using assms by (induction cs) (auto simp: Let_def)

lemma prepare_identity:
  assumes "identity_item item" "quantisable v" "width_bits item \<in> {1, 8, 16}"
  shows "prepare_raw_value item (Fin v) = Some (Inr (word_of_int (clamp_wire_value item (rhaz v))))"
proof -
  let ?e = "\<lambda>n. quant_error item (Fin v) (clamp_wire_value item n)"
  from three_candidates_Cons obtain cs where cs: "three_candidates v = rhaz v # cs" ..
  have le: "\<not> fp_lt (?e c) (?e (rhaz v))" for c
    using clamp_nearest [OF wire_min_le_max, OF assms(3), of v c]
    by (simp add: identity_error [OF assms] linorder_not_less rnd_mono f64_def)
  have d: "fp_cast f64 (Fin v) = Fin v" using assms(2) by (simp add: quantisable_def)
  have "best_loop item (Fin v) (rhaz v # cs) (clamp_wire_value item (rhaz v)) PInf =
      clamp_wire_value item (rhaz v)"
    using le by (simp add: Let_def best_loop_keeps identity_error [OF assms])
  then show ?thesis
    using identity_quant [OF assms(1,2)] by (simp add: prepare_raw_value_def Let_def d cs del: fp_cast.simps)
qed

subsection \<open>Encoding and decoding a raw value\<close>

lemma push_one_minus: "push_bit n 1 - 1 = (mask n :: 'a::len word)"
  by (simp add: mask_eq_exp_minus_1)

lemma and_full_mask: "x AND (push_bit n 1 - 1) = take_bit n (x :: 'a::len word)"
  unfolding push_one_minus by (simp add: take_bit_eq_mask)

lemma decode_raw_unsigned: "decode_raw raw w False = take_bit (unat w) raw"
  unfolding decode_raw_def and_full_mask Let_def by simp

lemma and_push_bit_eq_0:
  "(x::'a::len word) AND push_bit n 1 = 0 \<longleftrightarrow> \<not> bit x n"
  by (metis and_exp_eq_0_iff_not_bit push_bit_of_1)

lemma decode_raw_signed:
  assumes "0 < unat w" "unat w < 32"
  shows "decode_raw raw w True = signed_take_bit (unat w - 1) raw"
proof -
  obtain k where k: "unat w = Suc k" using assms(1) by (cases "unat w") auto
  show ?thesis
    unfolding decode_raw_def and_full_mask push_one_minus Let_def and_push_bit_eq_0 simp_thms if_False
    using assms(2)
    by (intro bit_word_eqI) (auto simp: k bit_simps min_def not_less not_le le_less_Suc_eq less_Suc_eq_le)
qed

lemma decode_encode:
  assumes "width_bits item \<in> {1, 8, 16}" "wire_min item \<le> k" "k \<le> wire_max item"
  shows "sint (decode_raw (slot_norm (width_bits item) (encode_to_bits (word_of_int k) (width_bits item)))
            (width_bits item) (wire_signed item)) = k"
proof -
  let ?w = "unat (width_bits item)"
  have w: "0 < ?w" "?w < 32" "?w \<in> {1, 8, 16}" using assms(1) by auto
  have enc: "encode_to_bits (word_of_int k) (width_bits item) = take_bit ?w (word_of_int k)"
    unfolding encode_to_bits_def and_full_mask ..
  have one: "(if take_bit (Suc 0) x \<noteq> 0 then 1 else 0) = take_bit (Suc 0) x" for x :: u32
    by (auto simp: take_bit_Suc)
  have norm: "slot_norm (width_bits item) (take_bit ?w x) = take_bit ?w x" for x
    using assms(1) one [of x] by (auto simp: slot_norm_def)
  show ?thesis
  proof (cases "wire_signed item")
    case True
    then have r: "- (2 ^ (?w - 1)) \<le> k" "k < 2 ^ (?w - 1)"
      using assms(2,3) by (simp_all add: wire_min_def wire_max_def)
    then have k: "signed_take_bit (?w - 1) k = k"
      by (rule signed_take_bit_int_eq_self)
    have "k \<in> {- (2 ^ 31) ..< 2 ^ 31}"
      using r w(3) by auto
    then have "sint (word_of_int k :: u32) = k"
      by (simp add: sint_sbintrunc' signed_take_bit_int_eq_self)
    moreover have "signed_take_bit (?w - 1) (take_bit ?w (word_of_int k :: u32)) = word_of_int k"
      using w(1) k by (cases ?w) (simp_all add: signed_take_bit_take_bit signed_take_bit_of_int)
    ultimately show ?thesis
      using True w by (simp add: enc norm decode_raw_signed)
  next
    case False
    then have r: "0 \<le> k" "k < 2 ^ ?w"
      using assms(2,3) by (simp_all add: wire_min_def wire_max_def)
    then have k: "take_bit ?w k = k" by (simp add: take_bit_int_eq_self)
    have "k \<in> {- (2 ^ 31) ..< 2 ^ 31}"
      using r w(3) by auto
    then have "sint (word_of_int k :: u32) = k"
      by (simp add: sint_sbintrunc' signed_take_bit_int_eq_self)
    moreover have t: "take_bit ?w (word_of_int k :: u32) = word_of_int k"
      using k by (simp add: take_bit_of_int)
    moreover have "slot_norm (width_bits item) (word_of_int k) = word_of_int k"
      using norm [of "word_of_int k"] unfolding t .
    ultimately show ?thesis
      using False by (simp add: enc norm decode_raw_unsigned)
  qed
qed

subsection \<open>Resolved items\<close>

lemma type_width_cases: "type_width_bits t \<in> {0, 1, 8, 16}"
  by (simp add: type_width_bits_def)

lemma layout_offset: "layout_supported w b \<Longrightarrow> uint (word_of_int b :: u8) = b"
  by (auto simp: layout_supported_def k_block_bits_def unsigned_of_int take_bit_int_eq_self
      split: if_splits)

lemma fill_item_Inr:
  assumes "fill_item_layout rb wb n bn e = Inr item"
  shows "(rb \<noteq> None \<or> wb \<noteq> None) \<and> read_buf item = rb \<and> write_buf item = wb \<and> block_count item = n \<and>
    ri_block_n item = nat bn \<and> 0 \<le> bn \<and> nat bn < n \<and> width_bits item = type_width_bits (te_type e) \<and>
    type_width_bits (te_type e) \<in> {1, 8, 16} \<and>
    slot_supported (word_of_int (te_block_offset e)) (type_width_bits (te_type e)) \<and>
    ri_block_offset item = word_of_int (te_block_offset e) \<and>
    wire_signed item = (te_sign e = TYPE_SIGN) \<and> ri_alg item = te_alg e \<and>
    tar_a item = te_tar_a e \<and> tar_b item = te_tar_b e \<and> tar_c item = te_tar_c e"
  using assms type_width_cases [of "te_type e"]
  by (auto simp: fill_item_layout_def Let_def slot_supported_def layout_offset split: if_splits)

subsection \<open>Rows of the tables\<close>

definition entry_min :: "tab_entry \<Rightarrow> int" where
  "entry_min e = (if te_sign e = TYPE_SIGN then - (2 ^ (unat (type_width_bits (te_type e)) - 1)) else 0)"

definition entry_max :: "tab_entry \<Rightarrow> int" where
  "entry_max e = (if te_sign e = TYPE_SIGN then 2 ^ (unat (type_width_bits (te_type e)) - 1) - 1
                  else 2 ^ unat (type_width_bits (te_type e)) - 1)"

text \<open>The value an identity row of a table delivers for an input \<open>v\<close>: nearest integer, saturated.\<close>

definition entry_quantise :: "tab_entry \<Rightarrow> rat \<Rightarrow> int" where
  "entry_quantise e v = max (entry_min e) (min (entry_max e) (rhaz v))"

definition entry_identity :: "tab_entry \<Rightarrow> bool" where
  "entry_identity e \<longleftrightarrow>
     te_alg e = ALG_NONE \<or> te_alg e = ALG_AN \<or>
     te_alg e = ALG_AC \<and> te_tar_c e = Fin 0 \<or>
     te_alg e = ALG_ABC \<and> te_tar_b e = Fin 1 \<and> te_tar_c e = Fin 0"

lemma param_rows_identity: "list_all entry_identity S_baseparamtab"
  by code_simp

lemma comm_rows_identity:
  "list_all (\<lambda>e. entry_identity e \<or> te_alg e = ALG_AC \<and> te_tar_c e = Fin 10) S_basecommtab"
  by code_simp

lemma param_row:
  assumes "i < Param_max"
  shows "entry_placed param_msg_blocks (S_baseparamtab ! i)" "entry_identity (S_baseparamtab ! i)"
  using assms param_rows_placed param_rows_identity by (auto simp: list_all_length)

lemma comm_row:
  assumes "i < Comm_max"
  shows "entry_placed comm_msg_blocks (S_basecommtab ! i)"
  using assms comm_rows_placed by (auto simp: list_all_length)

lemma entry_placed_nat:
  assumes "entry_placed sz e"
  shows "0 \<le> te_block_n e" "nat (te_block_n e) < sz (te_sys_id e)" "0 \<le> te_cs_block_n e"
    "nat (te_cs_block_n e) = window_base sz device_systems (te_sys_id e) + nat (te_block_n e)"
    "nat (te_cs_block_n e) < sz SYS_CS"
  using assms unfolding entry_placed_def by linarith+

lemma layout_supported_0 [simp]: "layout_supported 0 b = False"
  by (simp add: layout_supported_def)

lemma fill_item_placed:
  assumes "entry_placed sz e" "rb \<noteq> None \<or> wb \<noteq> None" "0 \<le> bn" "nat bn < n"
  obtains item where "fill_item_layout rb wb n bn e = Inr item"
  using assms type_width_cases [of "te_type e"]
  by (auto simp: fill_item_layout_def Let_def entry_placed_def)

lemma fill_item_clamp:
  assumes "fill_item_layout rb wb n bn e = Inr item"
  shows "clamp_wire_value item (rhaz v) = entry_quantise e v" "identity_item item = entry_identity e"
proof -
  note f = fill_item_Inr [OF assms]
  then have "wire_min item = entry_min e" "wire_max item = entry_max e"
    by (simp_all add: wire_min_def wire_max_def entry_min_def entry_max_def)
  moreover have "wire_min item \<le> wire_max item" using f by (intro wire_min_le_max) simp
  ultimately show "clamp_wire_value item (rhaz v) = entry_quantise e v"
    by (auto simp: clamp_wire_value_def entry_quantise_def)
  show "identity_item item = entry_identity e"
    using f by (auto simp: identity_item_def entry_identity_def)
qed

text \<open>What one \<open>IMSGSET\<close> of a resolved identity item stores, and what any reader of that block gets.\<close>

lemma set_item:
  assumes fill: "fill_item_layout None (Some xs) n bn e = Inr item"
    and idt: "entry_identity e" and q: "quantisable v" and len: "n \<le> length xs"
  obtains ys where
    "prepare_raw_value item (Fin v) = Some (Inr (word_of_int (entry_quantise e v)))"
    "write_value (write_buf item) (block_count item) (ri_block_n item) (ri_block_offset item)
       (width_bits item) (encode_to_bits (word_of_int (entry_quantise e v)) (width_bits item)) = Some ys"
    "length ys = length xs"
    "\<And>k. k \<noteq> nat bn \<Longrightarrow> ys ! k = xs ! k"
    "sint (decode_raw (ucast (bf_get (unat (ri_block_offset item)) (unat (width_bits item)) (ys ! nat bn)))
       (width_bits item) (wire_signed item)) = entry_quantise e v"
proof -
  note f = fill_item_Inr [OF fill]
  let ?r = "encode_to_bits (word_of_int (entry_quantise e v)) (width_bits item)"
  let ?ys = "xs[nat bn := bf_put (unat (ri_block_offset item)) (unat (width_bits item)) (xs ! nat bn)
                 (ucast (slot_norm (width_bits item) ?r))]"
  have wb: "width_bits item \<in> {1, 8, 16}" using f by simp
  have idi: "identity_item item" using idt fill_item_clamp(2) [OF fill] by simp
  have p: "prepare_raw_value item (Fin v) = Some (Inr (word_of_int (entry_quantise e v)))"
    using prepare_identity [OF idi q wb] by (simp add: fill_item_clamp(1) [OF fill])
  have w: "write_value (Some xs) n (nat bn) (ri_block_offset item) (width_bits item) ?r = Some ?ys"
    using f by (simp add: write_value_bf)
  have r: "read_value (Some ?ys) n (nat bn) (ri_block_offset item) (width_bits item) =
      Some (slot_norm (width_bits item) ?r)"
    using read_after_write [OF _ w] len by (simp add: span_ok_def)
  then have g: "ucast (bf_get (unat (ri_block_offset item)) (unat (width_bits item)) (?ys ! nat bn)) =
      slot_norm (width_bits item) ?r"
    using f by (simp add: read_value_bf)
  have "wire_min item \<le> entry_quantise e v" "entry_quantise e v \<le> wire_max item"
    using fill_item_clamp(1) [OF fill, of v] wire_min_le_max [of item] f
    by (auto simp: clamp_wire_value_def split: if_splits)
  with f have d: "sint (decode_raw (slot_norm (width_bits item) ?r) (width_bits item) (wire_signed item)) =
      entry_quantise e v" by (intro decode_encode) auto
  show thesis
    by (rule that [of ?ys]) (use p w f g d in simp_all)
qed

lemma entry_quantise_exact:
  assumes "fill_item_layout rb wb n bn e = Inr item"
  shows "exact_in f32 (of_int (entry_quantise e v))" "exact_in f64 (of_int (entry_quantise e v))"
proof -
  have "\<bar>entry_quantise e v\<bar> < 2 ^ 16"
    using width_one_of [of item "rhaz v"] fill_item_clamp(1) [OF assms] fill_item_Inr [OF assms] by simp
  then show "exact_in f32 (of_int (entry_quantise e v))" "exact_in f64 (of_int (entry_quantise e v))"
    by (simp_all add: exact_in_int)
qed

text \<open>
  A row is read at one block of a buffer that was written at another block of another buffer:
  \<open>bw\<close>/\<open>nw\<close> on the sender, \<open>br\<close>/\<open>nr\<close> on the receiver.
\<close>

lemma get_item:
  assumes fillw: "fill_item_layout None (Some xs) nw bw e = Inr itemw"
    and fillr: "fill_item_layout (Some zs) None nr br e = Inr item"
    and idt: "entry_identity e"
    and val: "sint (decode_raw (ucast (bf_get (unat (ri_block_offset itemw)) (unat (width_bits itemw)) (zs ! nat br)))
       (width_bits itemw) (wire_signed itemw)) = entry_quantise e v"
  shows "(case read_value (read_buf item) (block_count item) (ri_block_n item) (ri_block_offset item)
             (width_bits item) of
           None \<Rightarrow> (par_buffer_too_small, Fin 0)
         | Some raw \<Rightarrow> let decoded = decode_raw raw (width_bits item) (wire_signed item) in
             (par_ok, fp_cast f32 (decode_processed item (fp_of_int f64 (sint decoded))))) =
         (par_ok, Fin (of_int (entry_quantise e v)))"
proof -
  note w = fill_item_Inr [OF fillw] and r = fill_item_Inr [OF fillr]
  have rd: "read_value (read_buf item) (block_count item) (ri_block_n item) (ri_block_offset item)
      (width_bits item) =
      Some (ucast (bf_get (unat (ri_block_offset itemw)) (unat (width_bits itemw)) (zs ! nat br)))"
    using w r by (simp add: read_value_bf)
  have "identity_item item" using idt fill_item_clamp(2) [OF fillr] by simp
  then have d: "decode_processed item (Fin (of_int (entry_quantise e v))) = Fin (of_int (entry_quantise e v))"
    using entry_quantise_exact [OF fillr] by (simp add: identity_decode)
  have l: "width_bits item = width_bits itemw" "wire_signed item = wire_signed itemw" using w r by simp_all
  show ?thesis
    unfolding rd option.case unfolding l Let_def fp_of_int_def val
    using d entry_quantise_exact [OF fillr, of v] by simp
qed

definition entry_slot :: "tab_entry \<Rightarrow> block_slot" where
  "entry_slot e = (nat (te_block_n e), word_of_int (te_block_offset e), type_width_bits (te_type e))"

lemma entry_before_apart:
  assumes "entry_placed sz e" "entry_placed sz e'" "te_sys_id e = te_sys_id e'" "entry_before te_cs_offset e e'"
  shows "blk_apart (entry_slot e) (entry_slot e')" "blk_apart (entry_slot e') (entry_slot e)"
proof -
  have l: "layout_supported (type_width_bits (te_type e)) (te_block_offset e)"
    "layout_supported (type_width_bits (te_type e')) (te_block_offset e')"
    using assms(1,2) by (simp_all add: entry_placed_def)
  then have o: "unat (word_of_int (te_block_offset e) :: u8) = nat (te_block_offset e)"
    "unat (word_of_int (te_block_offset e') :: u8) = nat (te_block_offset e')" "0 \<le> te_block_offset e"
    by (simp_all only: unat_eq_nat_uint layout_offset) (simp add: layout_supported_def split: if_splits)
  have "int (te_cs_offset e) = 16 * te_cs_block_n e + te_block_offset e"
    "int (te_cs_offset e') = 16 * te_cs_block_n e' + te_block_offset e'"
    "te_cs_block_n e - te_block_n e = te_cs_block_n e' - te_block_n e'"
    "te_cs_offset e + unat (type_width_bits (te_type e)) \<le> te_cs_offset e'"
    "0 \<le> te_block_n e" "0 \<le> te_block_n e'"
    using assms by (simp_all add: entry_placed_def entry_before_def)
  then have "nat (te_block_n e) = nat (te_block_n e') \<Longrightarrow>
      unat (word_of_int (te_block_offset e) :: u8) + unat (type_width_bits (te_type e)) \<le>
      unat (word_of_int (te_block_offset e') :: u8)"
    using o by linarith
  then show "blk_apart (entry_slot e) (entry_slot e')" "blk_apart (entry_slot e') (entry_slot e)"
    by (auto simp: blk_apart_def entry_slot_def)
qed

lemma rows_apart:
  assumes "sorted_wrt (entry_before te_cs_offset) es" "list_all (entry_placed sz) es"
    "i < length es" "j < length es" "i \<noteq> j" "te_sys_id (es ! i) = te_sys_id (es ! j)"
  shows "blk_apart (entry_slot (es ! i)) (entry_slot (es ! j))"
proof -
  have p: "entry_placed sz (es ! i)" "entry_placed sz (es ! j)"
    using assms(2-4) by (simp_all add: list_all_length)
  from assms(5) consider "i < j" | "j < i" by linarith
  then show ?thesis
  proof cases
    case 1
    with assms have "entry_before te_cs_offset (es ! i) (es ! j)" by (simp add: sorted_wrt_nth_less)
    with p assms(6) show ?thesis by (intro entry_before_apart)
  next
    case 2
    with assms have "entry_before te_cs_offset (es ! j) (es ! i)" by (simp add: sorted_wrt_nth_less)
    with p assms(6) show ?thesis by (intro entry_before_apart) simp_all
  qed
qed

lemma imsgset_cases:
  assumes "IMSGSET ctx i v = Some (st, ctx')"
  shows "ctx' = ctx \<or> (\<exists>item raw xs. resolve_for_generate ctx i = Inr item \<and>
    write_value (write_buf item) (block_count item) (ri_block_n item) (ri_block_offset item)
      (width_bits item) raw = Some xs \<and> ctx' = set_write_buf ctx xs)"
proof (cases "resolve_for_generate ctx i")
  case (Inl st')
  with assms show ?thesis by (auto simp: IMSGSET_def split: if_splits)
next
  case (Inr item)
  with assms show ?thesis
    by (auto simp: IMSGSET_def split: if_splits sum.splits option.splits)
qed

subsection \<open>Values that can be sent\<close>

text \<open>
  A value that is not a number or infinite is refused, and one of magnitude up to \<open>2 ^ 61\<close> is converted
  to \<open>int64_t\<close> in range by every row; a larger finite one may reach a conversion that has no meaning.
\<close>

definition sendable :: "fp \<Rightarrow> bool" where
  "sendable v \<longleftrightarrow> (case v of Fin x \<Rightarrow> \<bar>x\<bar> \<le> 2 ^ 61 | _ \<Rightarrow> True)"

lemma to_fp_finite_bound:
  assumes "\<bar>x\<bar> \<le> 2 powi e" "0 \<le> e" "e \<le> 1000"
  shows "\<exists>y. to_fp f64 x = Fin y \<and> \<bar>y\<bar> \<le> 2 powi e"
proof -
  have b: "\<bar>rnd f64 x\<bar> \<le> 2 powi e"
  proof (cases "x = 0")
    case False
    have "ratexp \<bar>x\<bar> \<le> e" using ratexp_mono [of "\<bar>x\<bar>" "2 powi e"] False assms(1) ratexp_le_iff [of "2 powi e" e]
      by (simp add: power_int_strict_increasing)
    then have "max (ratexp \<bar>x\<bar>) (femin f64) - (int (fprec f64) - 1) \<le> e" using assms(2) by (simp add: f64_def)
    from rnd_le_powi [OF _ assms(1) this] False show ?thesis by (simp add: rnd_abs)
  qed simp
  also have "(2 powi e :: rat) < 2 powi (femax f64 + 1)"
    by (rule power_int_strict_increasing) (use assms(3) in \<open>simp_all add: f64_def\<close>)
  finally have "to_fp f64 x = Fin (rnd f64 x)" by (rule to_fp_in_range)
  with b show ?thesis by blast
qed

lemma candidates_defined:
  assumes "\<bar>z\<bar> \<le> 2 ^ 62"
  shows "\<exists>d ds. add_quant_candidates [] k_max_candidates (Fin z) = Some (d # ds)"
proof -
  have f: "- (2 ^ 62) \<le> \<lfloor>z\<rfloor>" "\<lfloor>z\<rfloor> \<le> 2 ^ 62" "- (2 ^ 62) \<le> \<lceil>z\<rceil>" "\<lceil>z\<rceil> \<le> 2 ^ 62"
    using assms [simplified] by (simp; linarith)+
  then have r: "- (2 ^ 62) \<le> rhaz z" "rhaz z \<le> 2 ^ 62" using rhaz_cases [of z] by (metis)+
  show ?thesis using f r by (simp add: add_quant_candidates_def in_i64_def fits_i64_def add_candidate_def k_max_candidates_def)
qed

text \<open>Every row of the command table decodes as the value itself or the value plus ten.\<close>

definition simple_row :: "tab_entry \<Rightarrow> bool" where
  "simple_row e \<longleftrightarrow> te_alg e = ALG_NONE \<or> te_alg e = ALG_AN \<or> te_alg e = ALG_AC \<and> (te_tar_c e = Fin 0 \<or> te_tar_c e = Fin 10) \<or>
     te_alg e = ALG_ABC \<and> te_tar_b e = Fin 1 \<and> te_tar_c e = Fin 0"

lemma command_rows_simple: "list_all simple_row S_basecommtab"
  by code_simp

lemma quant_defined:
  assumes "sendable v" "simple_row e" "ri_alg item = te_alg e" "tar_b item = te_tar_b e" "tar_c item = te_tar_c e"
  shows "\<exists>cs. quant_candidates item (fp_cast f64 v) = Some (Inr cs) \<and> (cs = [] \<longleftrightarrow> \<not> fp_isfinite v)"
proof (cases "fp_isfinite v")
  case False
  have sub: "\<not> fp_isfinite (fp_sub f64 v (Fin c))" for c using False by (cases v) (simp_all add: fp_sub_def)
  have div: "\<not> fp_isfinite (fp_div f64 w (Fin 1))" if "\<not> fp_isfinite w" for w using that by (cases w) (simp_all add: fp_inf_def)
  have "fp_cast f64 v = v" using False by (cases v) simp_all
  then show ?thesis
    using assms(2-5) False sub div [OF sub] unfolding simple_row_def
    by (elim disjE conjE) (simp_all add: quant_candidates_def Let_def add_quant_candidates_def)
next
  case True
  then obtain x where x: "v = Fin x" "\<bar>x\<bar> \<le> 2 ^ 61" using assms(1) by (cases v) (simp_all add: sendable_def)
  have p: "(2 powi 61 :: rat) = 2 ^ 61" "(2 powi 62 :: rat) = 2 ^ 62" by (simp_all add: power_int_def)
  obtain y where y: "to_fp f64 x = Fin y" "\<bar>y\<bar> \<le> 2 ^ 61" using to_fp_finite_bound [of x 61] x(2) unfolding p by auto
  have sub: "\<exists>z. fp_sub f64 (Fin y) (Fin c) = Fin z \<and> \<bar>z\<bar> \<le> 2 ^ 62" if "c = 0 \<or> c = 10" for c
    using to_fp_finite_bound [of "y - c" 62] y(2) that unfolding p by (auto simp: fp_sub_def)
  obtain z where z: "fp_sub f64 (Fin y) (Fin 0) = Fin z" "\<bar>z\<bar> \<le> 2 ^ 62" using sub by blast
  obtain z' where z': "fp_sub f64 (Fin y) (Fin 10) = Fin z'" "\<bar>z'\<bar> \<le> 2 ^ 62" using sub by blast
  obtain w where w: "to_fp f64 z = Fin w" "\<bar>w\<bar> \<le> 2 ^ 62" using to_fp_finite_bound [of z 62] z(2) unfolding p by auto
  have c: "\<exists>d ds. add_quant_candidates [] k_max_candidates (Fin u) = Some (d # ds)" if "u \<in> {y, z, z', w}" for u
    by (rule candidates_defined) (use that y z z' w in auto)
  show ?thesis
    using assms(2-5) c [of y] c [of z] c [of z'] c [of w] True unfolding simple_row_def
    by (elim disjE conjE) (auto simp: quant_candidates_def Let_def x(1) y(1) z(1) z'(1) w(1))
qed

lemma imsgset_accepts:
  assumes "resolve_for_generate ctx i = Inr item" "is_param_id i \<or> is_comm_id i"
    and fill: "fill_item_layout None (Some xs) n bn e = Inr item" and "simple_row e" "sendable x"
  shows "\<exists>ctx'. IMSGSET ctx i x = Some (if fp_isfinite x then (par_ok, ctx') else (par_value_out_of_range, ctx))"
proof -
  note f = fill_item_Inr [OF fill]
  obtain cs where cs: "quant_candidates item (fp_cast f64 x) = Some (Inr cs)" "cs = [] \<longleftrightarrow> \<not> fp_isfinite x"
    using quant_defined [OF assms(5,4), of item] f by auto
  obtain g where g: "write_value (write_buf item) (block_count item) (ri_block_n item) (ri_block_offset item) (width_bits item) r = Some (g r)" for r
    by (rule that [of "\<lambda>r. the (write_value (write_buf item) (block_count item) (ri_block_n item) (ri_block_offset item) (width_bits item) r)"])
      (use f in \<open>simp add: write_value_bf\<close>)
  show ?thesis using assms(1,2) cs by (cases cs) (auto simp: IMSGSET_def prepare_raw_value_def Let_def g)
qed

lemma fill_item_slot:
  assumes "fill_item_layout rb wb n (te_block_n e) e = Inr item"
  shows "(ri_block_n item, ri_block_offset item, width_bits item) = entry_slot e"
  using fill_item_Inr [OF assms] by (simp add: entry_slot_def)

subsection \<open>Properties\<close>

text \<open>
  C18: telemetry end to end at the level of values. A device that generates any parameter of its
  own from a value within the range of \<open>int64_t\<close> succeeds, and CS, having copied the device's blocks
  into the device's window of the CS image, reads back the nearest integer, saturated to the
  range of the item's wire field.
\<close>

theorem telemetry_roundtrip:
  assumes i: "is_param_id i"
    and dev: "ctx_role d = role_device" "ctx_system_id d = te_sys_id (S_baseparamtab ! i)"
      "msg_prm d = Some xs" "msg_prm_blocks d = param_msg_blocks (ctx_system_id d)"
      "msg_prm_blocks d \<le> length xs"
    and cs: "ctx_role c = role_cs" "msg_prm c = Some zs" "msg_prm_blocks c = param_msg_blocks SYS_CS"
      "msg_prm_blocks c \<le> length zs"
    and q: "quantisable v"
  shows "\<exists>d'. IMSGSET d i (Fin v) = Some (par_ok, d') \<and>
    IMSGGET (c\<lparr>msg_prm := copy_blocks (msg_prm c) (msg_prm_blocks c)
        (window_base param_msg_blocks device_systems (ctx_system_id d))
        (msg_prm d') (msg_prm_blocks d') 0 (msg_prm_blocks d')\<rparr>) i =
    (par_ok, Fin (of_int (entry_quantise (S_baseparamtab ! i) v)))"
proof -
  let ?e = "S_baseparamtab ! i"
  let ?base = "window_base param_msg_blocks device_systems (ctx_system_id d)"
  from i have i': "i < Param_max" by (simp add: is_param_id_def)
  note row = param_row [OF i']
  let ?n = "msg_prm_blocks d"
  have bn: "0 \<le> te_block_n ?e" "nat (te_block_n ?e) < ?n"
    using entry_placed_nat [OF row(1)] dev by simp_all
  have csn: "nat (te_cs_block_n ?e) = ?base + nat (te_block_n ?e)" "0 \<le> te_cs_block_n ?e"
    "nat (te_cs_block_n ?e) < msg_prm_blocks c"
    using entry_placed_nat [OF row(1)] dev cs by simp_all
  obtain item where fill: "fill_item_layout None (Some xs) ?n (te_block_n ?e) ?e = Inr item"
    using fill_item_placed [OF row(1), of None "Some xs" "te_block_n ?e" ?n] bn by auto
  obtain ys where ys:
    "prepare_raw_value item (Fin v) = Some (Inr (word_of_int (entry_quantise ?e v)))"
    "write_value (write_buf item) (block_count item) (ri_block_n item) (ri_block_offset item)
       (width_bits item) (encode_to_bits (word_of_int (entry_quantise ?e v)) (width_bits item)) = Some ys"
    "length ys = length xs"
    "sint (decode_raw (ucast (bf_get (unat (ri_block_offset item)) (unat (width_bits item)) (ys ! nat (te_block_n ?e))))
       (width_bits item) (wire_signed item)) = entry_quantise ?e v"
    using set_item [OF fill row(2) q] dev(5) by metis
  have set: "IMSGSET d i (Fin v) = Some (par_ok, d\<lparr>msg_prm := Some ys\<rparr>)"
    using i dev fill ys(1,2)
    by (simp add: IMSGSET_def resolve_for_generate_def system_mismatch_def Let_def set_write_buf_def)
  let ?zs = "copy_loop (copy_count (msg_prm_blocks c) ?base ?n 0 ?n) 0 zs ?base ys 0"
  have "nat (te_block_n ?e) < copy_count (msg_prm_blocks c) ?base ?n 0 ?n"
    using csn bn by (auto simp: copy_count_def)
  then have z: "?zs ! nat (te_cs_block_n ?e) = ys ! nat (te_block_n ?e)"
    using csn cs(4) by (simp add: copy_loop_nth)
  obtain itemr where fillr:
    "fill_item_layout (Some ?zs) None (msg_prm_blocks c) (te_cs_block_n ?e) ?e = Inr itemr"
    using fill_item_placed [OF row(1), of "Some ?zs" None "te_cs_block_n ?e" "msg_prm_blocks c"] csn by auto
  have get: "IMSGGET (c\<lparr>msg_prm := Some ?zs\<rparr>) i = (par_ok, Fin (of_int (entry_quantise ?e v)))"
    unfolding IMSGGET_def resolve_for_parse_def
    using i cs fillr get_item [OF fill fillr row(2), of v] ys(4) z by (simp add: Let_def)
  show ?thesis
    using set get cs by (auto simp: copy_blocks_Some)
qed

theorem telemetry_roundtrip_witness:
  "\<exists>d'. IMSGSET \<lparr>ctx_role = role_device, ctx_system_id = SYS_TCS, msg_prm = Some [0, 0, 0], msg_prm_blocks = 3,
             msg_cmd = None, msg_cmd_blocks = 0\<rparr> TCST (Fin (- (207 / 4))) = Some (par_ok, d') \<and>
    IMSGGET \<lparr>ctx_role = role_cs, ctx_system_id = SYS_CS, msg_prm = copy_blocks (Some (replicate 26 0)) 26 15
               (msg_prm d') (msg_prm_blocks d') 0 (msg_prm_blocks d'), msg_prm_blocks = 26,
             msg_cmd = None, msg_cmd_blocks = 0\<rparr> TCST = (par_ok, Fin (- 52))"
proof -
  let ?d = "\<lparr>ctx_role = role_device, ctx_system_id = SYS_TCS, msg_prm = Some [0, 0, 0], msg_prm_blocks = 3,
             msg_cmd = None, msg_cmd_blocks = 0\<rparr>"
  let ?c = "\<lparr>ctx_role = role_cs, ctx_system_id = SYS_CS, msg_prm = Some (replicate 26 0), msg_prm_blocks = 26,
             msg_cmd = None, msg_cmd_blocks = 0\<rparr>"
  have i: "is_param_id TCST" by (simp add: is_param_id_def)
  have s: "te_sys_id (S_baseparamtab ! TCST) = SYS_TCS" by code_simp
  have b: "window_base param_msg_blocks device_systems SYS_TCS = 15" by code_simp
  have n: "param_msg_blocks SYS_TCS = 3" "param_msg_blocks SYS_CS = 26" by code_simp+
  have q: "quantisable (- (207 / 4))" unfolding quantisable_def exact_in_def by code_simp
  have e: "entry_quantise (S_baseparamtab ! TCST) (- (207 / 4)) = - 52" by code_simp
  show ?thesis
    using telemetry_roundtrip [OF i, of ?d "[0, 0, 0]" ?c "replicate 26 0", OF _ _ _ _ _ _ _ _ _ q]
    by (simp add: s b n e)
qed

text \<open>
  C23: commands end to end at the level of values. CS stores a command of an identity row (every command
  but the four set points of the fans) with a value that its conversions can represent in its command
  image; the addressed device, having received its window of that image, decodes the
  nearest integer, saturated to the command's wire field.
\<close>

theorem command_roundtrip:
  assumes i: "is_comm_id i" and idt: "entry_identity (S_basecommtab ! (i - Param_max))"
    and cs: "ctx_role c = role_cs" "msg_cmd c = Some xs" "msg_cmd_blocks c = comm_msg_blocks SYS_CS"
      "msg_cmd_blocks c \<le> length xs"
    and dev: "ctx_role d = role_device" "ctx_system_id d = te_sys_id (S_basecommtab ! (i - Param_max))"
      "msg_cmd d = Some zs" "msg_cmd_blocks d = comm_msg_blocks (ctx_system_id d)"
      "msg_cmd_blocks d \<le> length zs"
    and q: "quantisable v"
  shows "\<exists>c'. IMSGSET c i (Fin v) = Some (par_ok, c') \<and>
    IMSGGET (d\<lparr>msg_cmd := copy_blocks (msg_cmd d) (msg_cmd_blocks d) 0 (msg_cmd c') (msg_cmd_blocks c')
        (window_base comm_msg_blocks device_systems (ctx_system_id d)) (msg_cmd_blocks d)\<rparr>) i =
    (par_ok, Fin (of_int (entry_quantise (S_basecommtab ! (i - Param_max)) v)))"
proof -
  let ?e = "S_basecommtab ! (i - Param_max)"
  let ?base = "window_base comm_msg_blocks device_systems (ctx_system_id d)"
  from i have i': "i - Param_max < Comm_max" "\<not> is_param_id i" by (auto simp: is_comm_id_def is_param_id_def)
  note row = comm_row [OF i'(1)]
  let ?n = "msg_cmd_blocks c"
  have bn: "0 \<le> te_block_n ?e" "nat (te_block_n ?e) < msg_cmd_blocks d"
    using entry_placed_nat [OF row] dev by simp_all
  have csn: "nat (te_cs_block_n ?e) = ?base + nat (te_block_n ?e)" "0 \<le> te_cs_block_n ?e"
    "nat (te_cs_block_n ?e) < ?n"
    using entry_placed_nat [OF row] dev cs by simp_all
  obtain item where fill: "fill_item_layout None (Some xs) ?n (te_cs_block_n ?e) ?e = Inr item"
    using fill_item_placed [OF row, of None "Some xs" "te_cs_block_n ?e" ?n] csn by auto
  obtain ys where ys:
    "prepare_raw_value item (Fin v) = Some (Inr (word_of_int (entry_quantise ?e v)))"
    "write_value (write_buf item) (block_count item) (ri_block_n item) (ri_block_offset item)
       (width_bits item) (encode_to_bits (word_of_int (entry_quantise ?e v)) (width_bits item)) = Some ys"
    "sint (decode_raw (ucast (bf_get (unat (ri_block_offset item)) (unat (width_bits item)) (ys ! nat (te_cs_block_n ?e))))
       (width_bits item) (wire_signed item)) = entry_quantise ?e v"
    using set_item [OF fill idt q] cs(4) by metis
  have set: "IMSGSET c i (Fin v) = Some (par_ok, c\<lparr>msg_cmd := Some ys\<rparr>)"
    using i i' cs fill ys(1,2)
    by (simp add: IMSGSET_def resolve_for_generate_def Let_def set_write_buf_def)
  let ?c = "copy_count (msg_cmd_blocks d) 0 ?n ?base (msg_cmd_blocks d)"
  let ?zs = "copy_loop ?c 0 zs 0 ys ?base"
  have "nat (te_block_n ?e) < ?c"
    using csn bn by (simp add: copy_count_def less_diff_conv add.commute)
  then have z: "?zs ! nat (te_block_n ?e) = ys ! nat (te_cs_block_n ?e)"
    using csn bn dev(5) by (simp add: copy_loop_nth)
  obtain itemr where fillr:
    "fill_item_layout (Some ?zs) None (msg_cmd_blocks d) (te_block_n ?e) ?e = Inr itemr"
    using fill_item_placed [OF row, of "Some ?zs" None "te_block_n ?e" "msg_cmd_blocks d"] bn by auto
  have get: "IMSGGET (d\<lparr>msg_cmd := Some ?zs\<rparr>) i = (par_ok, Fin (of_int (entry_quantise ?e v)))"
    unfolding IMSGGET_def resolve_for_parse_def
    using i dev fillr get_item [OF fill fillr idt, of v] ys(3) z by (simp add: Let_def system_mismatch_def)
  show ?thesis
    using set get dev by (auto simp: copy_blocks_Some)
qed

theorem command_roundtrip_witness:
  "\<exists>c'. IMSGSET \<lparr>ctx_role = role_cs, ctx_system_id = SYS_CS, msg_prm = None, msg_prm_blocks = 0,
             msg_cmd = Some (replicate 16 0), msg_cmd_blocks = 16\<rparr> CTCSFRQ (Fin 70000) = Some (par_ok, c') \<and>
    IMSGGET \<lparr>ctx_role = role_device, ctx_system_id = SYS_TCS, msg_prm = None, msg_prm_blocks = 0,
             msg_cmd = copy_blocks (Some [0, 0, 0]) 3 0 (msg_cmd c') (msg_cmd_blocks c') 8 3,
             msg_cmd_blocks = 3\<rparr> CTCSFRQ = (par_ok, Fin 65535)"
proof -
  let ?c = "\<lparr>ctx_role = role_cs, ctx_system_id = SYS_CS, msg_prm = None, msg_prm_blocks = 0,
             msg_cmd = Some (replicate 16 0), msg_cmd_blocks = 16\<rparr>"
  let ?d = "\<lparr>ctx_role = role_device, ctx_system_id = SYS_TCS, msg_prm = None, msg_prm_blocks = 0,
             msg_cmd = Some [0, 0, 0], msg_cmd_blocks = 3\<rparr>"
  have i: "is_comm_id CTCSFRQ" by (simp add: is_comm_id_def)
  have x: "CTCSFRQ - Param_max = 35" by simp
  have idt: "entry_identity (S_basecommtab ! (CTCSFRQ - Param_max))" by code_simp
  have s: "te_sys_id (S_basecommtab ! 35) = SYS_TCS" by code_simp
  have b: "window_base comm_msg_blocks device_systems SYS_TCS = 8" by code_simp
  have n: "comm_msg_blocks SYS_TCS = 3" "comm_msg_blocks SYS_CS = 16" by code_simp+
  have q: "quantisable 70000" unfolding quantisable_def exact_in_def by code_simp
  have e: "entry_quantise (S_basecommtab ! 35) 70000 = 65535" by code_simp
  show ?thesis
    using command_roundtrip [OF i idt, of ?c "replicate 16 0" ?d "[0, 0, 0]", OF _ _ _ _ _ _ _ _ _ q]
    by (simp add: x s b n e)
qed

text \<open>
  Generating one parameter never disturbs another. Whatever the status, each other parameter
  of the device's system keeps the raw value it had in the message, and no block is added.
\<close>

lemma imsgset_frame:
  assumes "IMSGSET d i v = Some (st, d')" and i: "is_param_id i"
    and dev: "ctx_role d = role_device" "ctx_system_id d = te_sys_id (S_baseparamtab ! i)"
      "span_ok (msg_prm d) (msg_prm_blocks d)"
    and j: "is_param_id j" "j \<noteq> i" "te_sys_id (S_baseparamtab ! j) = ctx_system_id d"
  shows "blk_rd (msg_prm d', msg_prm_blocks d') (entry_slot (S_baseparamtab ! j)) =
         blk_rd (msg_prm d, msg_prm_blocks d) (entry_slot (S_baseparamtab ! j)) \<and>
         msg_cmd d' = msg_cmd d \<and> msg_prm_blocks d' = msg_prm_blocks d"
proof (cases "d' = d")
  case True
  then show ?thesis by simp
next
  case False
  let ?e = "S_baseparamtab ! i"
  have "\<exists>item raw xs. fill_item_layout None (msg_prm d) (msg_prm_blocks d) (te_block_n ?e) ?e = Inr item \<and>
      write_value (write_buf item) (block_count item) (ri_block_n item) (ri_block_offset item) (width_bits item) raw = Some xs \<and>
      d' = d\<lparr>msg_prm := Some xs\<rparr>"
    using imsgset_cases [OF assms(1)] False i dev
    by (auto simp: resolve_for_generate_def system_mismatch_def Let_def set_write_buf_def split: if_splits)
  then obtain item raw xs where fill: "fill_item_layout None (msg_prm d) (msg_prm_blocks d) (te_block_n ?e) ?e = Inr item"
    and w: "write_value (write_buf item) (block_count item) (ri_block_n item) (ri_block_offset item) (width_bits item) raw = Some xs"
    and d': "d' = d\<lparr>msg_prm := Some xs\<rparr>" by blast
  note f = fill_item_Inr [OF fill]
  have "blk_wr (msg_prm d, msg_prm_blocks d) (entry_slot ?e) raw = Some (Some xs, msg_prm_blocks d)"
    using w f by (simp add: blk_wr_def fill_item_slot [OF fill, symmetric])
  moreover have "blk_inv (msg_prm d, msg_prm_blocks d)" using dev(3) by (simp add: blk_inv_def)
  moreover have "blk_apart (entry_slot ?e) (entry_slot (S_baseparamtab ! j))"
    using rows_apart [OF param_rows_ordered param_rows_placed, of i j] i j dev(2) by (simp add: is_param_id_def)
  ultimately show ?thesis
    using blkmem.rd_wr_other by (simp add: d')
qed

text \<open>
  C30: the status of \<open>IMSGSET\<close>, on every branch that a well-sized context can reach, for every row of both
  tables, and that every refusal leaves the messages untouched: an unknown id, an item of the wrong
  direction, an item of another system, a value that is not finite; every finite value up to \<open>2 ^ 61\<close> is
  accepted. (Larger finite values reach a conversion to \<open>int64_t\<close> that may be out of range.)
\<close>

theorem imsgset_status:
  assumes prm: "msg_prm ctx = Some xs" "msg_prm_blocks ctx = param_msg_blocks (ctx_system_id ctx)"
      "msg_prm_blocks ctx \<le> length xs"
    and cmd: "msg_cmd ctx = Some ys" "msg_cmd_blocks ctx = comm_msg_blocks (ctx_system_id ctx)"
      "msg_cmd_blocks ctx \<le> length ys"
    and sys: "(ctx_role ctx = role_cs) = (ctx_system_id ctx = SYS_CS)" "ctx_system_id ctx \<noteq> SYS_NONE"
    and x: "sendable x"
  shows "\<exists>ctx'. IMSGSET ctx i x =
    (if Param_Comm_max \<le> i then Some (par_id_out_of_range, ctx)
     else if (ctx_role ctx = role_cs) \<noteq> is_comm_id i then Some (par_direction_mismatch, ctx)
     else if ctx_role ctx = role_device \<and> te_sys_id (S_baseparamtab ! i) \<noteq> ctx_system_id ctx
       then Some (par_system_mismatch, ctx)
     else if \<not> fp_isfinite x then Some (par_value_out_of_range, ctx)
     else Some (par_ok, ctx'))"
proof -
  have kind: "is_param_id i \<longleftrightarrow> i < Param_max" "is_comm_id i \<longleftrightarrow> Param_max \<le> i \<and> i < Param_Comm_max"
    by (simp_all add: is_param_id_def is_comm_id_def)
  consider "Param_Comm_max \<le> i" | "(ctx_role ctx = role_cs) \<noteq> is_comm_id i" "i < Param_Comm_max"
    | "ctx_role ctx = role_cs" "is_comm_id i" | "ctx_role ctx = role_device" "is_param_id i"
    using kind by (cases "ctx_role ctx"; cases "i < Param_max"; cases "i < Param_Comm_max") simp_all
  then show ?thesis
  proof cases
    case 1
    then show ?thesis by (simp add: IMSGSET_def kind)
  next
    case 2
    then show ?thesis by (auto simp: IMSGSET_def resolve_for_generate_def kind)
  next
    case 3
    let ?e = "S_basecommtab ! (i - Param_max)"
    have row: "entry_placed comm_msg_blocks ?e" using 3 kind by (intro comm_row) linarith
    have "ctx_system_id ctx = SYS_CS" using 3(1) sys(1) by blast
    then have bn: "nat (te_cs_block_n ?e) < msg_cmd_blocks ctx" "0 \<le> te_cs_block_n ?e"
      using entry_placed_nat(3,5) [OF row] cmd(2) by simp_all
    obtain item where fill: "fill_item_layout None (Some ys) (msg_cmd_blocks ctx) (te_cs_block_n ?e) ?e = Inr item"
      using fill_item_placed [OF row, of None "Some ys" "te_cs_block_n ?e"] bn by auto
    have "simple_row ?e" using command_rows_simple 3(2) by (auto simp: list_all_length is_comm_id_def)
    then show ?thesis
      using imsgset_accepts [OF _ _ fill _ x, of ctx i] 3 kind cmd(1) fill
      by (auto simp: resolve_for_generate_def Let_def)
  next
    case 4
    let ?e = "S_baseparamtab ! i"
    have i: "i < Param_max" using 4 kind by simp
    note row = param_row [OF i]
    show ?thesis
    proof (cases "te_sys_id ?e = ctx_system_id ctx")
      case False
      with 4 kind sys show ?thesis
        by (auto simp: IMSGSET_def resolve_for_generate_def Let_def system_mismatch_def)
    next
      case True
      have bn: "nat (te_block_n ?e) < msg_prm_blocks ctx" "0 \<le> te_block_n ?e"
        using entry_placed_nat(1,2) [OF row(1)] True prm(2) by simp_all
      obtain item where fill: "fill_item_layout None (Some xs) (msg_prm_blocks ctx) (te_block_n ?e) ?e = Inr item"
        using fill_item_placed [OF row(1), of None "Some xs" "te_block_n ?e"] bn by auto
      have "simple_row ?e" using row(2) by (auto simp: entry_identity_def simple_row_def)
      then show ?thesis
        using imsgset_accepts [OF _ _ fill _ x, of ctx i] 4 kind prm(1) fill True
        by (auto simp: resolve_for_generate_def Let_def system_mismatch_def)
    qed
  qed
qed

theorem imsgset_status_witness:
  "IMSGSET \<lparr>ctx_role = role_device, ctx_system_id = SYS_LS, msg_prm = Some [1, 2], msg_prm_blocks = 2,
             msg_cmd = Some [0], msg_cmd_blocks = 1\<rparr> PSSPWR (Fin 1) =
   Some (par_system_mismatch, \<lparr>ctx_role = role_device, ctx_system_id = SYS_LS, msg_prm = Some [1, 2],
             msg_prm_blocks = 2, msg_cmd = Some [0], msg_cmd_blocks = 1\<rparr>) \<and>
   fst (the (IMSGSET \<lparr>ctx_role = role_cs, ctx_system_id = SYS_CS, msg_prm = Some (replicate 26 0), msg_prm_blocks = 26,
             msg_cmd = Some (replicate 16 0), msg_cmd_blocks = 16\<rparr> CTMSPWRFAN1 NaN)) = par_value_out_of_range"
proof -
  let ?d = "\<lparr>ctx_role = role_device, ctx_system_id = SYS_LS, msg_prm = Some [1, 2], msg_prm_blocks = 2,
             msg_cmd = Some [0], msg_cmd_blocks = 1\<rparr>"
  let ?c = "\<lparr>ctx_role = role_cs, ctx_system_id = SYS_CS, msg_prm = Some (replicate 26 0), msg_prm_blocks = 26,
             msg_cmd = Some (replicate 16 0), msg_cmd_blocks = 16\<rparr>"
  have n: "param_msg_blocks SYS_LS = 2" "comm_msg_blocks SYS_LS = 1" "param_msg_blocks SYS_CS = 26" "comm_msg_blocks SYS_CS = 16" by code_simp+
  have q: "sendable (Fin 1)" "sendable NaN" by (simp_all add: sendable_def)
  have s: "te_sys_id (S_baseparamtab ! PSSPWR) = SYS_PSS" by code_simp
  have c: "\<not> is_comm_id PSSPWR" "is_comm_id CTMSPWRFAN1" by (simp_all add: is_comm_id_def)
  show ?thesis
    using imsgset_status [of ?d "[1, 2]" "[0]" "Fin 1" PSSPWR] imsgset_status [of ?c "replicate 26 0" "replicate 16 0" NaN CTMSPWRFAN1] q
    by (auto simp: n s c)
qed

end
