(* ===== verification/SimStore.thy ===== *)
theory SimStore
  imports Flt
begin

text \<open>
  The parameter store of the simulation models: \<open>simulation/base/include/sim_base.hpp\<close> (parameter
  tables and their initialisation), \<open>sub/src/i_isim_registry.cpp\<close> (building the binding table) and
  \<open>sub/src/i_sim.cpp\<close> (typed access by parameter id).

  The parameter variables are cells of a memory \<open>nat \<Rightarrow> value_t\<close>, a pointer to one is \<open>nat option\<close>,
  and the tag of a \<open>value_t\<close> is the member of the union that is in use. A result \<open>None\<close> means
  that the C++ result is unspecified or undefined: an \<open>lround\<close> outside of \<open>long\<close>, or an access through
  a pointer whose variable has another type. Every operation that touches the variables holds the
  model mutex for its whole body and is one step.
\<close>

datatype value_kind_t = kind_u8 | kind_s8 | kind_u16 | kind_s16 | kind_u32 | kind_s32 | kind_f32

datatype value_domain_t = dom_plain | dom_non_negative | dom_binary

datatype sim_status = sim_ok | sim_no_registry | sim_bad_argument | sim_id_not_found
  | sim_type_mismatch | sim_value_out_of_range | sim_null_pointer

datatype value_t = V_u8 u8 | V_s8 u8 | V_u16 u16 | V_s16 u16 | V_u32 u32 | V_s32 u32 | V_f32 fp

fun kind_of :: "value_t \<Rightarrow> value_kind_t" where
  "kind_of (V_u8 _) = kind_u8"
| "kind_of (V_s8 _) = kind_s8"
| "kind_of (V_u16 _) = kind_u16"
| "kind_of (V_s16 _) = kind_s16"
| "kind_of (V_u32 _) = kind_u32"
| "kind_of (V_s32 _) = kind_s32"
| "kind_of (V_f32 _) = kind_f32"

record sim_binding =
  sb_id :: nat
  sb_kind :: value_kind_t
  sb_domain :: value_domain_t
  sb_ptr :: "nat option"

record registry_t =
  rg_bindings :: "sim_binding list option"
  rg_count :: nat
  rg_system_id :: u8

type_synonym mem = "nat \<Rightarrow> value_t"

subsection \<open>Parameter tables\<close>

datatype physical_type_t = phys_boolean | phys_int8 | phys_uint8 | phys_int16 | phys_uint16
  | phys_float32 | phys_ufloat32

record param_entry =
  pe_id :: nat
  pe_key :: string
  pe_wire_bits :: u8
  pe_physical_type :: physical_type_t
  pe_ptr :: "nat option"
  pe_init_value :: fp

definition zero_value :: "physical_type_t \<Rightarrow> value_t" where
  "zero_value p = (case p of phys_boolean \<Rightarrow> V_u8 0 | phys_int8 \<Rightarrow> V_s8 0 | phys_uint8 \<Rightarrow> V_u8 0
     | phys_int16 \<Rightarrow> V_s16 0 | phys_uint16 \<Rightarrow> V_u16 0 | phys_float32 \<Rightarrow> V_f32 (Fin 0)
     | phys_ufloat32 \<Rightarrow> V_f32 (Fin 0))"

definition zero_param :: "mem \<Rightarrow> param_entry \<Rightarrow> mem" where
  "zero_param m e = (case pe_ptr e of None \<Rightarrow> m | Some p \<Rightarrow> m(p := zero_value (pe_physical_type e)))"

text \<open>A conversion of a \<open>double\<close> to an integer type truncates, and must fit the type.\<close>

definition trunc_in :: "int \<Rightarrow> int \<Rightarrow> fp \<Rightarrow> int option" where
  "trunc_in lo hi x = (case x of Fin r \<Rightarrow>
       let n = (if 0 \<le> r then \<lfloor>r\<rfloor> else \<lceil>r\<rceil>) in if lo \<le> n \<and> n \<le> hi then Some n else None
     | _ \<Rightarrow> None)"

definition init_value :: "physical_type_t \<Rightarrow> fp \<Rightarrow> value_t option" where
  "init_value p x = (case p of
       phys_boolean \<Rightarrow> Some (V_u8 (if \<not> fp_eq x (Fin 0) then 1 else 0))
     | phys_int8 \<Rightarrow> map_option (\<lambda>n. V_s8 (word_of_int n)) (trunc_in (- 128) 127 x)
     | phys_uint8 \<Rightarrow> map_option (\<lambda>n. V_u8 (word_of_int n)) (trunc_in 0 255 x)
     | phys_int16 \<Rightarrow> map_option (\<lambda>n. V_s16 (word_of_int n)) (trunc_in (- 32768) 32767 x)
     | phys_uint16 \<Rightarrow> map_option (\<lambda>n. V_u16 (word_of_int n)) (trunc_in 0 65535 x)
     | phys_float32 \<Rightarrow> Some (V_f32 (fp_cast f32 x))
     | phys_ufloat32 \<Rightarrow> Some (V_f32 (fp_cast f32 x)))"

definition init_param :: "mem \<Rightarrow> param_entry \<Rightarrow> mem option" where
  "init_param m e = (case pe_ptr e of None \<Rightarrow> Some m
     | Some p \<Rightarrow> map_option (\<lambda>v. m(p := v)) (init_value (pe_physical_type e) (pe_init_value e)))"

fun zero_params :: "param_entry list \<Rightarrow> mem \<Rightarrow> mem" where
  "zero_params [] m = m"
| "zero_params (e # es) m = zero_params es (zero_param m e)"

fun init_params :: "param_entry list \<Rightarrow> mem \<Rightarrow> mem option" where
  "init_params [] m = Some m"
| "init_params (e # es) m = (case init_param m e of None \<Rightarrow> None | Some m' \<Rightarrow> init_params es m')"

subsection \<open>Building the registry\<close>

definition ISIMKIND :: "param_entry \<Rightarrow> value_kind_t" where
  "ISIMKIND e = (case pe_physical_type e of phys_boolean \<Rightarrow> kind_u8 | phys_uint8 \<Rightarrow> kind_u8
     | phys_int8 \<Rightarrow> kind_s8 | phys_uint16 \<Rightarrow> kind_u16 | phys_int16 \<Rightarrow> kind_s16
     | phys_float32 \<Rightarrow> kind_f32 | phys_ufloat32 \<Rightarrow> kind_f32)"

definition ISIMDOMAIN :: "param_entry \<Rightarrow> value_domain_t" where
  "ISIMDOMAIN e = (case pe_physical_type e of phys_boolean \<Rightarrow> dom_binary
     | phys_uint8 \<Rightarrow> dom_non_negative | phys_uint16 \<Rightarrow> dom_non_negative
     | phys_ufloat32 \<Rightarrow> dom_non_negative | phys_int8 \<Rightarrow> dom_plain | phys_int16 \<Rightarrow> dom_plain
     | phys_float32 \<Rightarrow> dom_plain)"

definition entry_binding :: "param_entry \<Rightarrow> sim_binding" where
  "entry_binding e = \<lparr>sb_id = pe_id e, sb_kind = ISIMKIND e, sb_domain = ISIMDOMAIN e, sb_ptr = pe_ptr e\<rparr>"

definition registry0 :: registry_t where
  "registry0 = \<lparr>rg_bindings = None, rg_count = 0, rg_system_id = 0\<rparr>"

text \<open>
  The result is the caller's binding array, the registry, and the new thread-local bound registry;
  with missing arguments the registry is cleared and the bound one stays.
\<close>

definition ISIMREG_BUILD :: "param_entry list option \<Rightarrow> nat \<Rightarrow> sim_binding list option \<Rightarrow> u8 \<Rightarrow>
    registry_t option \<Rightarrow> sim_binding list option \<times> registry_t \<times> registry_t option" where
  "ISIMREG_BUILD params n bindings system_id g_registry =
     (case params of None \<Rightarrow> (bindings, registry0, g_registry)
      | Some ps \<Rightarrow> (case bindings of None \<Rightarrow> (bindings, registry0, g_registry)
        | Some bs \<Rightarrow>
            if n = 0 then (bindings, registry0, g_registry)
            else let bs' = map entry_binding (take n ps) @ drop n bs;
                     reg = \<lparr>rg_bindings = Some bs', rg_count = n, rg_system_id = system_id\<rparr>
                 in (Some bs', reg, Some reg)))"

subsection \<open>Finding a binding\<close>

text \<open>\<open>std::lower_bound\<close> on the ids: the first of \<open>len\<close> bindings from \<open>first\<close> that is not below \<open>i\<close>.\<close>

function lower_bound :: "sim_binding list \<Rightarrow> nat \<Rightarrow> nat \<Rightarrow> nat \<Rightarrow> nat" where
  "lower_bound bs i first len =
     (if len = 0 then first
      else let half = len div 2; mid = first + half in
        if sb_id (bs ! mid) < i then lower_bound bs i (mid + 1) (len - half - 1)
        else lower_bound bs i first half)"
  by pat_completeness auto
termination
  by (relation "measure (\<lambda>(bs, i, first, len). len)") auto

declare lower_bound.simps [simp del]

definition find_binding :: "registry_t \<Rightarrow> nat \<Rightarrow> sim_binding option" where
  "find_binding reg i =
     (case rg_bindings reg of None \<Rightarrow> None
      | Some bs \<Rightarrow>
          if rg_count reg = 0 then None
          else let it = lower_bound bs i 0 (rg_count reg) in
            if it = rg_count reg \<or> sb_id (bs ! it) \<noteq> i then None else Some (bs ! it))"

subsection \<open>Typed access\<close>

definition clamp_i32 :: "u32 \<Rightarrow> int \<Rightarrow> int \<Rightarrow> int" where
  "clamp_i32 v lo hi = (if sint v < lo then lo else if hi < sint v then hi else sint v)"

definition clamp_f32_domain :: "sim_binding \<Rightarrow> fp \<Rightarrow> fp" where
  "clamp_f32_domain b v =
     (if sb_domain b = dom_binary then (if \<not> fp_eq v (Fin 0) then Fin 1 else Fin 0)
      else if sb_domain b = dom_non_negative \<and> fp_lt v (Fin 0) then Fin 0
      else v)"

text \<open>The out-pointer argument is the variable it points to (\<open>None\<close> for \<open>nullptr\<close>).\<close>

definition read_typed_value :: "mem \<Rightarrow> sim_binding \<Rightarrow> value_t option \<Rightarrow> (sim_status \<times> value_t option) option" where
  "read_typed_value m b out =
     (case out of None \<Rightarrow> Some (sim_bad_argument, None)
      | Some _ \<Rightarrow> (case sb_ptr b of None \<Rightarrow> Some (sim_null_pointer, out)
        | Some p \<Rightarrow> if kind_of (m p) = sb_kind b then Some (sim_ok, Some (m p)) else None))"

definition domain_value :: "sim_binding \<Rightarrow> value_t \<Rightarrow> value_t" where
  "domain_value b v = (case v of
       V_u8 x \<Rightarrow> V_u8 (if sb_domain b = dom_binary then (if x \<noteq> 0 then 1 else 0) else x)
     | V_f32 x \<Rightarrow> V_f32 (clamp_f32_domain b x)
     | _ \<Rightarrow> v)"

definition write_typed_value :: "mem \<Rightarrow> sim_binding \<Rightarrow> value_t option \<Rightarrow> (sim_status \<times> mem) option" where
  "write_typed_value m b v =
     (case v of None \<Rightarrow> Some (sim_bad_argument, m)
      | Some x \<Rightarrow> (case sb_ptr b of None \<Rightarrow> Some (sim_null_pointer, m)
        | Some p \<Rightarrow>
            if kind_of x \<noteq> sb_kind b then Some (sim_type_mismatch, m)
            else if kind_of (m p) \<noteq> sb_kind b then None
            else Some (sim_ok, m(p := domain_value b x))))"

definition ISIMI32 :: "value_t \<Rightarrow> u32 option" where
  "ISIMI32 v = (case v of
       V_u8 x \<Rightarrow> Some (ucast x) | V_s8 x \<Rightarrow> Some (scast x)
     | V_u16 x \<Rightarrow> Some (ucast x) | V_s16 x \<Rightarrow> Some (scast x)
     | V_u32 x \<Rightarrow> Some x | V_s32 x \<Rightarrow> Some x
     | V_f32 x \<Rightarrow> map_option word_of_int (fp_llround x))"

definition ISIMF32 :: "value_t \<Rightarrow> fp" where
  "ISIMF32 v = (case v of
       V_u8 x \<Rightarrow> fp_of_int f32 (uint x) | V_s8 x \<Rightarrow> fp_of_int f32 (sint x)
     | V_u16 x \<Rightarrow> fp_of_int f32 (uint x) | V_s16 x \<Rightarrow> fp_of_int f32 (sint x)
     | V_u32 x \<Rightarrow> fp_of_int f32 (uint x) | V_s32 x \<Rightarrow> fp_of_int f32 (sint x)
     | V_f32 x \<Rightarrow> x)"

definition ISIMGET :: "registry_t option \<Rightarrow> mem \<Rightarrow> nat \<Rightarrow> value_t option \<Rightarrow> (sim_status \<times> value_t option) option" where
  "ISIMGET g_registry m i out =
     (case g_registry of None \<Rightarrow> Some (sim_no_registry, out)
      | Some reg \<Rightarrow> (case find_binding reg i of None \<Rightarrow> Some (sim_id_not_found, out)
        | Some b \<Rightarrow> read_typed_value m b out))"

definition ISIMSET :: "registry_t option \<Rightarrow> mem \<Rightarrow> nat \<Rightarrow> value_t option \<Rightarrow> (sim_status \<times> mem) option" where
  "ISIMSET g_registry m i v =
     (case g_registry of None \<Rightarrow> Some (sim_no_registry, m)
      | Some reg \<Rightarrow> (case find_binding reg i of None \<Rightarrow> Some (sim_id_not_found, m)
        | Some b \<Rightarrow> write_typed_value m b v))"

definition value0 :: value_t where "value0 = V_s32 0"

definition ISIMGETI32 :: "registry_t option \<Rightarrow> mem \<Rightarrow> nat \<Rightarrow> u32 option \<Rightarrow> (sim_status \<times> u32 option) option" where
  "ISIMGETI32 g_registry m i out =
     (case out of None \<Rightarrow> Some (sim_bad_argument, None)
      | Some _ \<Rightarrow> (case ISIMGET g_registry m i (Some value0) of
            None \<Rightarrow> None
          | Some (st, v) \<Rightarrow>
              if st \<noteq> sim_ok then Some (st, out)
              else (case v of None \<Rightarrow> None
                | Some x \<Rightarrow> map_option (\<lambda>n. (sim_ok, Some n)) (ISIMI32 x))))"

definition ISIMGETF32 :: "registry_t option \<Rightarrow> mem \<Rightarrow> nat \<Rightarrow> fp option \<Rightarrow> (sim_status \<times> fp option) option" where
  "ISIMGETF32 g_registry m i out =
     (case out of None \<Rightarrow> Some (sim_bad_argument, None)
      | Some _ \<Rightarrow> (case ISIMGET g_registry m i (Some value0) of
            None \<Rightarrow> None
          | Some (st, v) \<Rightarrow>
              if st \<noteq> sim_ok then Some (st, out)
              else (case v of None \<Rightarrow> None | Some x \<Rightarrow> Some (sim_ok, Some (ISIMF32 x)))))"

text \<open>The payload that \<open>ISIMSETI32\<close> builds for a binding's kind, or the status it refuses with.\<close>

definition payload_i32 :: "value_kind_t \<Rightarrow> u32 \<Rightarrow> sim_status + value_t" where
  "payload_i32 k v = (case k of
       kind_u8 \<Rightarrow> Inr (V_u8 (word_of_int (clamp_i32 v 0 255)))
     | kind_s8 \<Rightarrow> Inr (V_s8 (word_of_int (clamp_i32 v (- 128) 127)))
     | kind_u16 \<Rightarrow> Inr (V_u16 (word_of_int (clamp_i32 v 0 65535)))
     | kind_s16 \<Rightarrow> Inr (V_s16 (word_of_int (clamp_i32 v (- 32768) 32767)))
     | kind_u32 \<Rightarrow> (if sint v < 0 then Inl sim_value_out_of_range else Inr (V_u32 v))
     | kind_s32 \<Rightarrow> Inr (V_s32 v)
     | kind_f32 \<Rightarrow> Inr (V_f32 (fp_of_int f32 (sint v))))"

definition ISIMSETI32 :: "registry_t option \<Rightarrow> mem \<Rightarrow> nat \<Rightarrow> u32 \<Rightarrow> (sim_status \<times> mem) option" where
  "ISIMSETI32 g_registry m i v =
     (case g_registry of None \<Rightarrow> Some (sim_no_registry, m)
      | Some reg \<Rightarrow> (case find_binding reg i of None \<Rightarrow> Some (sim_id_not_found, m)
        | Some b \<Rightarrow> (case payload_i32 (sb_kind b) v of
              Inl st \<Rightarrow> Some (st, m)
            | Inr x \<Rightarrow> write_typed_value m b (Some x))))"

text \<open>\<open>std::lround\<close> gives a 64-bit \<open>long\<close>, which the casts to \<open>int32_t\<close> and \<open>uint32_t\<close> reduce modulo 2^32.\<close>

definition lround_i32 :: "fp \<Rightarrow> u32 option" where
  "lround_i32 v = map_option word_of_int (fp_llround v)"

definition payload_f32 :: "value_kind_t \<Rightarrow> fp \<Rightarrow> (sim_status + value_t) option" where
  "payload_f32 k v = (case k of
       kind_u8 \<Rightarrow> map_option (\<lambda>r. Inr (V_u8 (word_of_int (clamp_i32 r 0 255)))) (lround_i32 v)
     | kind_s8 \<Rightarrow> map_option (\<lambda>r. Inr (V_s8 (word_of_int (clamp_i32 r (- 128) 127)))) (lround_i32 v)
     | kind_u16 \<Rightarrow> map_option (\<lambda>r. Inr (V_u16 (word_of_int (clamp_i32 r 0 65535)))) (lround_i32 v)
     | kind_s16 \<Rightarrow> map_option (\<lambda>r. Inr (V_s16 (word_of_int (clamp_i32 r (- 32768) 32767)))) (lround_i32 v)
     | kind_u32 \<Rightarrow> (if fp_lt v (Fin 0) then Some (Inl sim_value_out_of_range)
                    else map_option (\<lambda>r. Inr (V_u32 r)) (lround_i32 v))
     | kind_s32 \<Rightarrow> map_option (\<lambda>r. Inr (V_s32 r)) (lround_i32 v)
     | kind_f32 \<Rightarrow> Some (Inr (V_f32 v)))"

definition ISIMSETF32 :: "registry_t option \<Rightarrow> mem \<Rightarrow> nat \<Rightarrow> fp \<Rightarrow> (sim_status \<times> mem) option" where
  "ISIMSETF32 g_registry m i v =
     (case g_registry of None \<Rightarrow> Some (sim_no_registry, m)
      | Some reg \<Rightarrow> (case find_binding reg i of None \<Rightarrow> Some (sim_id_not_found, m)
        | Some b \<Rightarrow> (case payload_f32 (sb_kind b) v of
              None \<Rightarrow> None
            | Some (Inl st) \<Rightarrow> Some (st, m)
            | Some (Inr x) \<Rightarrow> write_typed_value m b (Some x))))"

subsection \<open>The binary search\<close>

lemma lower_bound_spec:
  assumes "\<And>k l. first \<le> k \<Longrightarrow> k < l \<Longrightarrow> l < first + len \<Longrightarrow> sb_id (bs ! k) \<le> sb_id (bs ! l)"
  shows "first \<le> lower_bound bs i first len \<and> lower_bound bs i first len \<le> first + len \<and>
    (\<forall>k. first \<le> k \<longrightarrow> k < lower_bound bs i first len \<longrightarrow> sb_id (bs ! k) < i) \<and>
    (\<forall>k. lower_bound bs i first len \<le> k \<longrightarrow> k < first + len \<longrightarrow> i \<le> sb_id (bs ! k))"
  using assms
proof (induction bs i first len rule: lower_bound.induct)
  case (1 bs i first len)
  let ?half = "len div 2"
  let ?mid = "first + ?half"
  show ?case
  proof (cases "len = 0")
    case True
    then have "lower_bound bs i first len = first" by (subst lower_bound.simps) simp
    with True show ?thesis by simp
  next
    case False
    then have mid: "?mid < first + len" by simp
    show ?thesis
    proof (cases "sb_id (bs ! ?mid) < i")
      case True
      have unf: "lower_bound bs i first len = lower_bound bs i (?mid + 1) (len - ?half - 1)"
        using False True by (simp add: lower_bound.simps [of bs i first len] Let_def)
      have tot: "?mid + 1 + (len - ?half - 1) = first + len" using mid by simp
      have below: "sb_id (bs ! k) < i" if "first \<le> k" "k \<le> ?mid" for k
        using "1.prems" [of k ?mid] that mid True by (cases "k = ?mid") auto
      let ?r = "lower_bound bs i (?mid + 1) (len - ?half - 1)"
      have r: "?mid + 1 \<le> ?r" "?r \<le> first + len"
        "\<And>k. ?mid + 1 \<le> k \<Longrightarrow> k < ?r \<Longrightarrow> sb_id (bs ! k) < i"
        "\<And>k. ?r \<le> k \<Longrightarrow> k < first + len \<Longrightarrow> i \<le> sb_id (bs ! k)"
        using "1.IH"(1) [OF False refl refl True, unfolded tot] "1.prems" by auto
      have "sb_id (bs ! k) < i" if "first \<le> k" "k < ?r" for k
        using that below [of k] r(3) [of k] by (cases "k \<le> ?mid") auto
      with r show ?thesis unfolding unf by auto
    next
      case F: False
      have unf: "lower_bound bs i first len = lower_bound bs i first ?half"
        using False F by (simp add: lower_bound.simps [of bs i first len] Let_def)
      have above: "i \<le> sb_id (bs ! k)" if "?mid \<le> k" "k < first + len" for k
        using "1.prems" [of ?mid k] that mid F by (cases "k = ?mid") auto
      let ?r = "lower_bound bs i first ?half"
      have r: "first \<le> ?r" "?r \<le> ?mid"
        "\<And>k. first \<le> k \<Longrightarrow> k < ?r \<Longrightarrow> sb_id (bs ! k) < i"
        "\<And>k. ?r \<le> k \<Longrightarrow> k < ?mid \<Longrightarrow> i \<le> sb_id (bs ! k)"
        using "1.IH"(2) [OF False refl refl F] "1.prems" mid by auto
      have "i \<le> sb_id (bs ! k)" if "?r \<le> k" "k < first + len" for k
        using that above [of k] r(4) [of k] by (cases "?mid \<le> k") auto
      with r mid show ?thesis unfolding unf by auto
    qed
  qed
qed

definition registry_sorted :: "registry_t \<Rightarrow> bool" where
  "registry_sorted reg \<longleftrightarrow> (case rg_bindings reg of None \<Rightarrow> rg_count reg = 0
     | Some bs \<Rightarrow> rg_count reg \<le> length bs \<and> sorted_wrt (<) (map sb_id (take (rg_count reg) bs)))"

definition active_bindings :: "registry_t \<Rightarrow> sim_binding list" where
  "active_bindings reg = (case rg_bindings reg of None \<Rightarrow> [] | Some bs \<Rightarrow> take (rg_count reg) bs)"

lemma find_by_index:
  assumes "k < length xs" "P (xs ! k)" "\<And>j. j < k \<Longrightarrow> \<not> P (xs ! j)"
  shows "find P xs = Some (xs ! k)"
  using assms by (auto simp: find_Some_iff)

lemma find_binding_linear:
  assumes "registry_sorted reg"
  shows "find_binding reg i = find (\<lambda>b. sb_id b = i) (active_bindings reg)"
proof (cases "rg_bindings reg")
  case None
  then show ?thesis by (simp add: find_binding_def active_bindings_def)
next
  case (Some bs)
  let ?n = "rg_count reg" and ?r = "lower_bound bs i 0 (rg_count reg)"
  have len: "?n \<le> length bs" using assms Some by (simp add: registry_sorted_def)
  have mono: "k < l \<Longrightarrow> l < ?n \<Longrightarrow> sb_id (bs ! k) \<le> sb_id (bs ! l)" for k l
    using assms Some len sorted_wrt_nth_less [of "(<)" "map sb_id (take ?n bs)" k l]
    by (simp add: registry_sorted_def)
  have spec: "?r \<le> ?n" "\<And>k. k < ?r \<Longrightarrow> sb_id (bs ! k) < i" "\<And>k. ?r \<le> k \<Longrightarrow> k < ?n \<Longrightarrow> i \<le> sb_id (bs ! k)"
    using lower_bound_spec [of 0 ?n bs i] mono by auto
  have act: "active_bindings reg = take ?n bs" by (simp add: active_bindings_def Some)
  show ?thesis
  proof (cases "?r < ?n \<and> sb_id (bs ! ?r) = i")
    case True
    then have "find (\<lambda>b. sb_id b = i) (take ?n bs) = Some (take ?n bs ! ?r)"
      using len spec(2) by (intro find_by_index) (auto dest: spec(2) simp: less_trans [of _ ?r ?n])
    with True show ?thesis by (auto simp: find_binding_def Some act Let_def)
  next
    case False
    have "sb_id (bs ! k) \<noteq> i" if "k < ?n" for k
    proof (cases "k < ?r")
      case True
      then show ?thesis using spec(2) [of k] by simp
    next
      case F: False
      with that have "?r < ?n" by simp
      with False have "i < sb_id (bs ! ?r)" using spec(3) [of ?r] by auto
      moreover have "sb_id (bs ! ?r) \<le> sb_id (bs ! k)"
        using F mono [of ?r k] that by (cases "k = ?r") auto
      ultimately show ?thesis by simp
    qed
    then have "find (\<lambda>b. sb_id b = i) (take ?n bs) = None"
      using len by (auto simp: find_None_iff in_set_conv_nth)
    moreover have "find_binding reg i = None"
      using False spec(1) by (auto simp: find_binding_def Some Let_def)
    ultimately show ?thesis by (simp add: act)
  qed
qed

subsection \<open>A store of keyed cells\<close>

text \<open>
  What the command handlers rely on: setting a key that accepts the value succeeds when the key
  exists, changes that key's cell to the converted value and no other, and keeps the invariant.
  \<open>put_all\<close> is a sequence of sets whose failures are ignored.
\<close>

fun put_all :: "('m \<Rightarrow> 'k \<Rightarrow> 'w \<Rightarrow> 'm option) \<Rightarrow> ('k \<times> 'w) list \<Rightarrow> 'm \<Rightarrow> 'm" where
  "put_all st [] m = m"
| "put_all st ((k, w) # kws) m = put_all st kws (case st m k w of None \<Rightarrow> m | Some m' \<Rightarrow> m')"

locale keyed_store =
  fixes cell :: "'m \<Rightarrow> 'k \<Rightarrow> 'v option"
    and st :: "'m \<Rightarrow> 'k \<Rightarrow> 'w \<Rightarrow> 'm option"
    and conv :: "'k \<Rightarrow> 'w \<Rightarrow> 'v"
    and accepts :: "'k \<Rightarrow> 'w \<Rightarrow> bool"
    and inv :: "'m \<Rightarrow> bool"
  assumes st_defined: "inv m \<Longrightarrow> accepts k w \<Longrightarrow> cell m k \<noteq> None \<Longrightarrow> st m k w \<noteq> None"
    and st_inv: "inv m \<Longrightarrow> st m k w = Some m' \<Longrightarrow> inv m'"
    and st_same: "inv m \<Longrightarrow> st m k w = Some m' \<Longrightarrow> cell m' k = Some (conv k w)"
    and st_other: "inv m \<Longrightarrow> st m k w = Some m' \<Longrightarrow> j \<noteq> k \<Longrightarrow> cell m' j = cell m j"
begin

lemma st_dom: "inv m \<Longrightarrow> st m k w = Some m' \<Longrightarrow> cell m k \<noteq> None \<Longrightarrow> cell m' j \<noteq> None \<longleftrightarrow> cell m j \<noteq> None"
  using st_same [of m k w m'] st_other [of m k w m' j] by (cases "j = k") auto

lemma step_inv: "inv m \<Longrightarrow> inv (case st m k w of None \<Rightarrow> m | Some m' \<Rightarrow> m')"
  by (cases "st m k w") (simp_all, metis st_inv)

lemma step_other:
  "inv m \<Longrightarrow> j \<noteq> k \<Longrightarrow> cell (case st m k w of None \<Rightarrow> m | Some m' \<Rightarrow> m') j = cell m j"
  by (cases "st m k w") (simp_all, metis st_other)

lemma put_all_inv: "inv m \<Longrightarrow> inv (put_all st kws m)"
  by (induction kws arbitrary: m) (auto simp: step_inv simp del: option.case)

lemma put_all_other: "inv m \<Longrightarrow> j \<notin> fst ` set kws \<Longrightarrow> cell (put_all st kws m) j = cell m j"
  by (induction kws arbitrary: m) (auto simp: step_inv step_other simp del: option.case)

lemma put_all_value:
  assumes "inv m" "distinct (map fst kws)" "(k, w) \<in> set kws" "accepts k w" "cell m k \<noteq> None"
  shows "cell (put_all st kws m) k = Some (conv k w)"
  using assms
proof (induction kws arbitrary: m)
  case Nil
  then show ?case by simp
next
  case (Cons x kws)
  obtain j u where x: "x = (j, u)" by (cases x)
  define m1 where "m1 = (case st m j u of None \<Rightarrow> m | Some m' \<Rightarrow> m')"
  have inv1: "inv m1" using Cons.prems(1) by (auto simp: m1_def intro: st_inv split: option.splits)
  have unf: "put_all st (x # kws) m = put_all st kws m1" by (simp add: x m1_def)
  show ?case
  proof (cases "j = k")
    case True
    with Cons.prems x have w: "u = w" "k \<notin> fst ` set kws" by (auto simp: image_iff)
    obtain m' where m': "st m k w = Some m'" using st_defined Cons.prems by blast
    then have "cell m1 k = Some (conv k w)"
      using st_same Cons.prems(1) by (simp add: m1_def True w)
    then show ?thesis unfolding unf using put_all_other [OF inv1 w(2)] by simp
  next
    case False
    then have "cell m1 k = cell m k"
      using st_other Cons.prems(1) by (auto simp: m1_def split: option.splits)
    then show ?thesis
      unfolding unf using Cons.IH [OF inv1] Cons.prems False x by simp
  qed
qed

end

subsection \<open>The store by id\<close>

text \<open>
  A registry and memory as the sources build them: sorted, every binding with a variable of its
  own of the binding's type, and of one of the kinds \<open>ISIMKIND\<close> produces.
\<close>

definition own_variable :: "mem \<Rightarrow> sim_binding \<Rightarrow> bool" where
  "own_variable m b \<longleftrightarrow> (case sb_ptr b of None \<Rightarrow> False
     | Some p \<Rightarrow> kind_of (m p) = sb_kind b \<and> sb_kind b \<noteq> kind_u32 \<and> sb_kind b \<noteq> kind_s32)"

definition sim_inv :: "registry_t \<Rightarrow> mem \<Rightarrow> bool" where
  "sim_inv reg m \<longleftrightarrow> registry_sorted reg \<and> list_all (own_variable m) (active_bindings reg) \<and>
     distinct (map sb_ptr (active_bindings reg))"

definition sim_cell :: "registry_t \<Rightarrow> mem \<Rightarrow> nat \<Rightarrow> value_t option" where
  "sim_cell reg m i = (case ISIMGET (Some reg) m i (Some value0) of
     Some (sim_ok, v) \<Rightarrow> v | _ \<Rightarrow> None)"

definition accepted :: "(sim_status \<times> mem) option \<Rightarrow> mem option" where
  "accepted r = (case r of Some (sim_ok, m) \<Rightarrow> Some m | _ \<Rightarrow> None)"

definition stored_i32 :: "registry_t \<Rightarrow> nat \<Rightarrow> u32 \<Rightarrow> value_t" where
  "stored_i32 reg i v = (case find_binding reg i of None \<Rightarrow> value0
     | Some b \<Rightarrow> (case payload_i32 (sb_kind b) v of Inl _ \<Rightarrow> value0 | Inr x \<Rightarrow> domain_value b x))"

definition stored_f32 :: "registry_t \<Rightarrow> nat \<Rightarrow> fp \<Rightarrow> value_t" where
  "stored_f32 reg i v = (case find_binding reg i of None \<Rightarrow> value0
     | Some b \<Rightarrow> (case payload_f32 (sb_kind b) v of Some (Inr x) \<Rightarrow> domain_value b x | _ \<Rightarrow> value0))"

definition accepts_f32 :: "registry_t \<Rightarrow> nat \<Rightarrow> fp \<Rightarrow> bool" where
  "accepts_f32 reg i v \<longleftrightarrow> (case find_binding reg i of None \<Rightarrow> False
     | Some b \<Rightarrow> sb_kind b = kind_f32 \<or> fp_llround v \<noteq> None)"

lemma find_binding_mem:
  assumes "sim_inv reg m" "find_binding reg i = Some b"
  shows "b \<in> set (active_bindings reg)" "sb_id b = i" "own_variable m b"
  using assms by (auto simp: sim_inv_def find_binding_linear find_Some_iff list_all_iff)

lemma kind_of_domain [simp]: "kind_of (domain_value b v) = kind_of v"
  by (cases v) (simp_all add: domain_value_def)

lemma sim_cell_eq:
  assumes "sim_inv reg m"
  shows "sim_cell reg m i = (case find_binding reg i of None \<Rightarrow> None
    | Some b \<Rightarrow> (case sb_ptr b of None \<Rightarrow> None | Some p \<Rightarrow> Some (m p)))"
proof (cases "find_binding reg i")
  case None
  then show ?thesis by (simp add: sim_cell_def ISIMGET_def)
next
  case (Some b)
  from find_binding_mem(3) [OF assms Some] show ?thesis
    by (auto simp: Some sim_cell_def ISIMGET_def read_typed_value_def own_variable_def split: option.splits)
qed

text \<open>One write through a binding, whatever produced the payload.\<close>

lemma write_binding:
  assumes inv: "sim_inv reg m" and b: "find_binding reg i = Some b" and k: "kind_of x = sb_kind b"
  obtains p where "sb_ptr b = Some p"
    "write_typed_value m b (Some x) = Some (sim_ok, m(p := domain_value b x))"
    "sim_inv reg (m(p := domain_value b x))"
    "\<And>j. sim_cell reg (m(p := domain_value b x)) j =
       (if j = i then Some (domain_value b x) else sim_cell reg m j)"
proof -
  note bm = find_binding_mem [OF inv b]
  obtain p where p: "sb_ptr b = Some p" "kind_of (m p) = sb_kind b"
    using bm(3) by (auto simp: own_variable_def split: option.splits)
  let ?m = "m(p := domain_value b x)"
  have w: "write_typed_value m b (Some x) = Some (sim_ok, ?m)"
    using p k by (simp add: write_typed_value_def)
  have "own_variable ?m c = own_variable m c" for c
    using p k by (auto simp: own_variable_def split: option.splits)
  then have inv': "sim_inv reg ?m" using inv by (simp add: sim_inv_def list_all_iff)
  have other: "q \<noteq> p" if "find_binding reg j = Some c" "j \<noteq> i" "sb_ptr c = Some q" for j c q
  proof
    assume "q = p"
    with that p have "sb_ptr c = sb_ptr b" by simp
    with find_binding_mem(1) [OF inv that(1)] bm(1) inv have "c = b"
      by (auto simp: sim_inv_def distinct_map inj_on_def)
    with find_binding_mem(2) [OF inv that(1)] bm(2) that(2) show False by simp
  qed
  have "sim_cell reg ?m j = (if j = i then Some (domain_value b x) else sim_cell reg m j)" for j
    unfolding sim_cell_eq [OF inv'] sim_cell_eq [OF inv]
    using b p other by (auto split: option.splits)
  with p(1) w inv' show thesis by (rule that)
qed

lemma payload_i32_kind: "payload_i32 k v = Inr x \<Longrightarrow> kind_of x = k"
  by (cases k) (auto simp: payload_i32_def split: if_splits)

lemma payload_f32_kind: "payload_f32 k v = Some (Inr x) \<Longrightarrow> kind_of x = k"
  by (cases k) (auto simp: payload_f32_def split: if_splits)

lemma payload_i32_total: "k \<noteq> kind_u32 \<Longrightarrow> \<exists>x. payload_i32 k v = Inr x"
  by (cases k) (auto simp: payload_i32_def)

lemma payload_f32_total:
  "k \<noteq> kind_u32 \<Longrightarrow> k = kind_f32 \<or> fp_llround v \<noteq> None \<Longrightarrow> \<exists>x. payload_f32 k v = Some (Inr x)"
  by (cases k) (auto simp: payload_f32_def lround_i32_def)

definition set_i32 :: "registry_t \<Rightarrow> mem \<Rightarrow> nat \<Rightarrow> u32 \<Rightarrow> mem option" where
  "set_i32 reg m i v = accepted (ISIMSETI32 (Some reg) m i v)"

definition set_f32 :: "registry_t \<Rightarrow> mem \<Rightarrow> nat \<Rightarrow> fp \<Rightarrow> mem option" where
  "set_f32 reg m i v = accepted (ISIMSETF32 (Some reg) m i v)"

lemma set_i32_eq:
  assumes "sim_inv reg m" "find_binding reg i = Some b"
  shows "\<exists>m'. ISIMSETI32 (Some reg) m i v = Some (sim_ok, m') \<and> sim_inv reg m' \<and>
    (\<forall>j. sim_cell reg m' j = (if j = i then Some (stored_i32 reg i v) else sim_cell reg m j))"
proof -
  have "sb_kind b \<noteq> kind_u32"
    using find_binding_mem(3) [OF assms] by (auto simp: own_variable_def split: option.splits)
  then obtain x where x: "payload_i32 (sb_kind b) v = Inr x" using payload_i32_total by blast
  obtain p where
    "write_typed_value m b (Some x) = Some (sim_ok, m(p := domain_value b x))"
    "sim_inv reg (m(p := domain_value b x))"
    "\<And>j. sim_cell reg (m(p := domain_value b x)) j =
       (if j = i then Some (domain_value b x) else sim_cell reg m j)"
    by (rule write_binding [OF assms payload_i32_kind [OF x]]) blast
  with assms(2) x show ?thesis
    by (intro exI [of _ "m(p := domain_value b x)"]) (simp add: ISIMSETI32_def stored_i32_def)
qed

lemma set_f32_eq:
  assumes "sim_inv reg m" "find_binding reg i = Some b" "accepts_f32 reg i v"
  shows "\<exists>m'. ISIMSETF32 (Some reg) m i v = Some (sim_ok, m') \<and> sim_inv reg m' \<and>
    (\<forall>j. sim_cell reg m' j = (if j = i then Some (stored_f32 reg i v) else sim_cell reg m j))"
proof -
  have "sb_kind b \<noteq> kind_u32"
    using find_binding_mem(3) [OF assms(1,2)] by (auto simp: own_variable_def split: option.splits)
  moreover have "sb_kind b = kind_f32 \<or> fp_llround v \<noteq> None"
    using assms(2,3) by (simp add: accepts_f32_def)
  ultimately obtain x where x: "payload_f32 (sb_kind b) v = Some (Inr x)" using payload_f32_total by blast
  obtain p where
    "write_typed_value m b (Some x) = Some (sim_ok, m(p := domain_value b x))"
    "sim_inv reg (m(p := domain_value b x))"
    "\<And>j. sim_cell reg (m(p := domain_value b x)) j =
       (if j = i then Some (domain_value b x) else sim_cell reg m j)"
    by (rule write_binding [OF assms(1,2) payload_f32_kind [OF x]]) blast
  with assms(2) x show ?thesis
    by (intro exI [of _ "m(p := domain_value b x)"]) (simp add: ISIMSETF32_def stored_f32_def)
qed

lemma cell_bound: "sim_inv reg m \<Longrightarrow> sim_cell reg m i \<noteq> None \<longleftrightarrow> find_binding reg i \<noteq> None"
  using find_binding_mem(3) [of reg m i]
  by (auto simp: sim_cell_eq own_variable_def split: option.splits)

lemma accepted_Some: "accepted r = Some m' \<longleftrightarrow> r = Some (sim_ok, m')"
  by (auto simp: accepted_def split: option.splits sim_status.splits)

lemma set_i32_bound: "set_i32 reg m i v = Some m' \<Longrightarrow> find_binding reg i \<noteq> None"
  by (auto simp: set_i32_def accepted_Some ISIMSETI32_def split: option.splits)

lemma set_f32_bound:
  "set_f32 reg m i v = Some m' \<Longrightarrow> sim_inv reg m \<Longrightarrow> find_binding reg i \<noteq> None \<and> accepts_f32 reg i v"
  by (auto simp: set_f32_def accepted_Some ISIMSETF32_def accepts_f32_def payload_f32_def lround_i32_def
      split: option.splits value_kind_t.splits dest: find_binding_mem(3))
    (auto simp: own_variable_def split: option.splits dest!: find_binding_mem(3))

interpretation simi32: keyed_store "sim_cell reg" "set_i32 reg" "stored_i32 reg" "\<lambda>_ _. True" "sim_inv reg" for reg
proof unfold_locales
  fix m m' i v
  assume inv: "sim_inv reg m"
  show "set_i32 reg m i v \<noteq> None" if "sim_cell reg m i \<noteq> None"
  proof -
    have "find_binding reg i \<noteq> None" using that cell_bound [OF inv, of i] by argo
    then obtain b where "find_binding reg i = Some b" by auto
    from set_i32_eq [OF inv this, of v] obtain m2 where "ISIMSETI32 (Some reg) m i v = Some (sim_ok, m2)" by blast
    then show ?thesis by (simp add: set_i32_def accepted_def)
  qed
  assume s: "set_i32 reg m i v = Some m'"
  obtain b where "find_binding reg i = Some b" using set_i32_bound [OF s] by blast
  from set_i32_eq [OF inv this, of v]
  obtain m2 where m2: "ISIMSETI32 (Some reg) m i v = Some (sim_ok, m2)" "sim_inv reg m2"
    "\<forall>j. sim_cell reg m2 j = (if j = i then Some (stored_i32 reg i v) else sim_cell reg m j)" by blast
  have "m' = m2" using s m2(1) by (simp add: set_i32_def accepted_Some)
  with m2(2,3) show "sim_inv reg m'" "sim_cell reg m' i = Some (stored_i32 reg i v)"
    "\<And>j. j \<noteq> i \<Longrightarrow> sim_cell reg m' j = sim_cell reg m j" by simp_all
qed

interpretation simf32: keyed_store "sim_cell reg" "set_f32 reg" "stored_f32 reg" "accepts_f32 reg" "sim_inv reg" for reg
proof unfold_locales
  fix m m' i v
  assume inv: "sim_inv reg m"
  show "set_f32 reg m i v \<noteq> None" if "accepts_f32 reg i v" "sim_cell reg m i \<noteq> None"
  proof -
    have "find_binding reg i \<noteq> None" using that cell_bound [OF inv, of i] by argo
    then obtain b where "find_binding reg i = Some b" by auto
    from set_f32_eq [OF inv this that(1)] obtain m2 where "ISIMSETF32 (Some reg) m i v = Some (sim_ok, m2)" by blast
    then show ?thesis by (simp add: set_f32_def accepted_def)
  qed
  assume s: "set_f32 reg m i v = Some m'"
  obtain b where b: "find_binding reg i = Some b" and a: "accepts_f32 reg i v"
    using set_f32_bound [OF s inv] by blast
  from set_f32_eq [OF inv b a]
  obtain m2 where m2: "ISIMSETF32 (Some reg) m i v = Some (sim_ok, m2)" "sim_inv reg m2"
    "\<forall>j. sim_cell reg m2 j = (if j = i then Some (stored_f32 reg i v) else sim_cell reg m j)" by blast
  have "m' = m2" using s m2(1) by (simp add: set_f32_def accepted_Some)
  with m2(2,3) show "sim_inv reg m'" "sim_cell reg m' i = Some (stored_f32 reg i v)"
    "\<And>j. j \<noteq> i \<Longrightarrow> sim_cell reg m' j = sim_cell reg m j" by simp_all
qed

subsection \<open>Values read back\<close>

text \<open>The integer a cell of a binding holds after a set of the integer \<open>n\<close>: saturated to the type and domain.\<close>

definition saturated :: "sim_binding \<Rightarrow> int \<Rightarrow> int" where
  "saturated b n = (case sb_kind b of
       kind_u8 \<Rightarrow> (if sb_domain b = dom_binary then (if 0 < n then 1 else 0) else max 0 (min 255 n))
     | kind_s8 \<Rightarrow> max (- 128) (min 127 n)
     | kind_u16 \<Rightarrow> max 0 (min 65535 n)
     | kind_s16 \<Rightarrow> max (- 32768) (min 32767 n)
     | kind_f32 \<Rightarrow> (if sb_domain b = dom_binary then (if n \<noteq> 0 then 1 else 0)
                    else if sb_domain b = dom_non_negative then max 0 n else n)
     | _ \<Rightarrow> n)"

lemma rhaz_of_int [simp]: "rhaz (of_int n) = n"
  by (simp add: rhaz_def) linarith

lemma clamp_i32_max_min: "lo \<le> hi \<Longrightarrow> clamp_i32 v lo hi = max lo (min hi (sint v))"
  by (auto simp: clamp_i32_def)

lemma sint_narrow_u8: "0 \<le> k \<Longrightarrow> k \<le> 255 \<Longrightarrow> ucast (word_of_int k :: u8) = (word_of_int k :: u32)"
  by (simp add: word_eq_iff_unsigned unsigned_ucast_eq unsigned_of_int take_bit_int_eq_self)

lemma nonzero_u8: "0 \<le> k \<Longrightarrow> k \<le> 255 \<Longrightarrow> (word_of_int k :: u8) = 0 \<longleftrightarrow> k = 0"
proof -
  assume "0 \<le> k" "k \<le> 255"
  then have "uint (word_of_int k :: u8) = k" by (simp add: unsigned_of_int take_bit_int_eq_self)
  then show ?thesis by (metis of_int_0 unsigned_0)
qed

lemma sint_narrow_u16: "0 \<le> k \<Longrightarrow> k \<le> 65535 \<Longrightarrow> ucast (word_of_int k :: u16) = (word_of_int k :: u32)"
  by (simp add: word_eq_iff_unsigned unsigned_ucast_eq unsigned_of_int take_bit_int_eq_self)

lemma sint_narrow_s8:
  assumes "- 128 \<le> k" "k \<le> 127"
  shows "scast (word_of_int k :: u8) = (word_of_int k :: u32)"
proof -
  have "sint (word_of_int k :: u8) = k"
    using assms by (simp add: sint_sbintrunc' signed_take_bit_int_eq_self)
  then show ?thesis by (metis of_int_sint scast_eq)
qed

lemma sint_narrow_s16:
  assumes "- 32768 \<le> k" "k \<le> 32767"
  shows "scast (word_of_int k :: u16) = (word_of_int k :: u32)"
proof -
  have "sint (word_of_int k :: u16) = k"
    using assms by (simp add: sint_sbintrunc' signed_take_bit_int_eq_self)
  then show ?thesis by (metis of_int_sint scast_eq)
qed

lemma getf_llround:
  assumes "\<bar>n\<bar> < 2 ^ 24"
  shows "fp_of_int f32 n = Fin (of_int n)" "fp_llround (Fin (of_int n)) = Some n"
  using exact_in_int(1) [OF assms] assms
  by (auto simp: fp_of_int_def exact_in_def in_i64_def fits_i64_def)

lemma ISIMGETI32_cell:
  assumes "sim_cell reg m i = Some x"
  shows "ISIMGETI32 (Some reg) m i (Some w) = map_option (\<lambda>n. (sim_ok, Some n)) (ISIMI32 x)"
  using assms
  by (auto simp: sim_cell_def ISIMGETI32_def split: option.splits prod.splits sim_status.splits)

lemma payload_saturated:
  assumes "payload_i32 (sb_kind b) v = Inr x" "sb_kind b = kind_f32 \<Longrightarrow> \<bar>sint v\<bar> < 2 ^ 24"
    "sb_kind b \<noteq> kind_u32"
  shows "ISIMI32 (domain_value b x) = Some (word_of_int (saturated b (sint v)))"
proof (cases "sb_kind b")
  case kind_u8
  with assms(1) have x: "x = V_u8 (word_of_int (max 0 (min 255 (sint v))))"
    by (auto simp: payload_i32_def clamp_i32_max_min)
  have "(word_of_int (max 0 (min 255 (sint v))) :: u8) \<noteq> 0 \<longleftrightarrow> 0 < sint v"
    using nonzero_u8 [of "max 0 (min 255 (sint v))"] by auto
  then show ?thesis
    by (simp add: x kind_u8 saturated_def ISIMI32_def domain_value_def sint_narrow_u8)
next
  case kind_f32
  with assms(1) have x: "x = V_f32 (fp_of_int f32 (sint v))" by (simp add: payload_i32_def)
  have s: "\<bar>saturated b (sint v)\<bar> < 2 ^ 24" using assms(2) kind_f32 by (auto simp: saturated_def)
  have "clamp_f32_domain b (Fin (of_int (sint v))) = Fin (of_int (saturated b (sint v)))"
    by (cases "sb_domain b") (auto simp: clamp_f32_domain_def saturated_def kind_f32 simp del: of_int_sint)
  then show ?thesis
    using getf_llround(1) [OF assms(2)] getf_llround(2) [OF s] kind_f32
    by (simp add: x ISIMI32_def domain_value_def)
qed (use assms in \<open>auto simp: payload_i32_def clamp_i32_max_min saturated_def ISIMI32_def domain_value_def
       sint_narrow_s8 sint_narrow_u16 sint_narrow_s16\<close>)

subsection \<open>Properties\<close>

text \<open>
  C17: in a sorted registry the binary search is the linear search by id.
\<close>

theorem find_binding_correct:
  assumes "registry_sorted reg"
  shows "find_binding reg i = find (\<lambda>b. sb_id b = i) (active_bindings reg)"
  using assms by (rule find_binding_linear)

theorem find_binding_correct_witness:
  "let b = \<lambda>i. \<lparr>sb_id = i, sb_kind = kind_u8, sb_domain = dom_binary, sb_ptr = Some i\<rparr>;
       reg = \<lparr>rg_bindings = Some [b 3, b 5, b 8, b 9], rg_count = 4, rg_system_id = 2\<rparr>
   in find_binding reg 5 = Some (b 5) \<and> find_binding reg 7 = None"
proof -
  let ?b = "\<lambda>i. \<lparr>sb_id = i, sb_kind = kind_u8, sb_domain = dom_binary, sb_ptr = Some i\<rparr>"
  let ?reg = "\<lparr>rg_bindings = Some [?b 3, ?b 5, ?b 8, ?b 9], rg_count = 4, rg_system_id = 2\<rparr>"
  have "registry_sorted ?reg" by (simp add: registry_sorted_def)
  from find_binding_correct [OF this, of 5] find_binding_correct [OF this, of 7] show ?thesis
    by (simp add: Let_def active_bindings_def)
qed

text \<open>
  Setting a bound parameter to a 32-bit integer succeeds, keeps the store well-formed, changes
  no other parameter, and reads back as that integer saturated to the variable's type and domain
  (exactly, for a \<open>float\<close> variable, when the integer is below 2^24).
\<close>

lemma isim_set_get_i32:
  assumes "sim_inv reg m" "find_binding reg i = Some b"
    and "sb_kind b = kind_f32 \<Longrightarrow> \<bar>sint v\<bar> < 2 ^ 24"
  shows "\<exists>m'. ISIMSETI32 (Some reg) m i v = Some (sim_ok, m') \<and> sim_inv reg m' \<and>
    ISIMGETI32 (Some reg) m' i (Some w) = Some (sim_ok, Some (word_of_int (saturated b (sint v)))) \<and>
    (\<forall>j. j \<noteq> i \<longrightarrow> sim_cell reg m' j = sim_cell reg m j)"
proof -
  have k: "sb_kind b \<noteq> kind_u32"
    using find_binding_mem(3) [OF assms(1,2)] by (auto simp: own_variable_def split: option.splits)
  then obtain x where x: "payload_i32 (sb_kind b) v = Inr x" using payload_i32_total by blast
  then have st: "stored_i32 reg i v = domain_value b x" by (simp add: stored_i32_def assms(2))
  obtain m' where m': "ISIMSETI32 (Some reg) m i v = Some (sim_ok, m')" "sim_inv reg m'"
    "\<forall>j. sim_cell reg m' j = (if j = i then Some (stored_i32 reg i v) else sim_cell reg m j)"
    using set_i32_eq [OF assms(1,2), of v] by blast
  then have "sim_cell reg m' i = Some (domain_value b x)" by (simp add: st)
  from ISIMGETI32_cell [OF this] have "ISIMGETI32 (Some reg) m' i (Some w) =
      Some (sim_ok, Some (word_of_int (saturated b (sint v))))"
    using payload_saturated [OF x assms(3) k] by simp
  with m' show ?thesis by auto
qed

definition sim_demo :: registry_t where
  "sim_demo = \<lparr>rg_bindings = Some
     [\<lparr>sb_id = 3, sb_kind = kind_u8, sb_domain = dom_binary, sb_ptr = Some 0\<rparr>,
      \<lparr>sb_id = 5, sb_kind = kind_s8, sb_domain = dom_plain, sb_ptr = Some 1\<rparr>,
      \<lparr>sb_id = 8, sb_kind = kind_u8, sb_domain = dom_non_negative, sb_ptr = Some 2\<rparr>],
     rg_count = 3, rg_system_id = 2\<rparr>"

definition sim_demo_mem :: mem where
  "sim_demo_mem = ((\<lambda>_. value0)(0 := V_u8 0, 1 := V_s8 7, 2 := V_u8 9))"

lemma sim_demo_inv: "sim_inv sim_demo sim_demo_mem"
  by (simp add: sim_inv_def registry_sorted_def active_bindings_def sim_demo_def sim_demo_mem_def
      own_variable_def)

text \<open>Setting an integer variable from a \<open>float\<close> is setting it to the rounded value, reduced modulo 2^32.\<close>

lemma stored_f32_rounded:
  assumes "find_binding reg i = Some b" "sb_kind b \<noteq> kind_f32" "sb_kind b \<noteq> kind_u32" "fits_i64 (rhaz x)"
  shows "accepts_f32 reg i (Fin x)" "stored_f32 reg i (Fin x) = stored_i32 reg i (word_of_int (rhaz x))"
proof -
  show "accepts_f32 reg i (Fin x)" using assms(1,4) by (simp add: accepts_f32_def in_i64_def)
  have "payload_f32 (sb_kind b) (Fin x) = Some (payload_i32 (sb_kind b) (word_of_int (rhaz x)))"
    using assms(2-4) by (cases "sb_kind b") (simp_all add: payload_f32_def payload_i32_def lround_i32_def in_i64_def)
  then show "stored_f32 reg i (Fin x) = stored_i32 reg i (word_of_int (rhaz x))"
    using payload_i32_total [OF assms(3), of "word_of_int (rhaz x)"] by (auto simp: stored_f32_def stored_i32_def assms(1))
qed

definition row_variable :: "mem \<Rightarrow> param_entry \<Rightarrow> bool" where
  "row_variable m e \<longleftrightarrow> (case pe_ptr e of None \<Rightarrow> False | Some p \<Rightarrow> kind_of (m p) = ISIMKIND e)"

text \<open>
  Building a registry from a parameter table with ascending ids whose rows each own a variable
  of their physical type gives a well-formed store, bound for the thread, in which every row is
  found under its id.
\<close>

lemma registry_build_sound:
  assumes "sorted_wrt (<) (map pe_id ps)" "distinct (map pe_ptr ps)" "list_all (row_variable m) ps"
    and "ps \<noteq> []" "length ps \<le> length bs"
  shows "\<exists>bs' reg. ISIMREG_BUILD (Some ps) (length ps) (Some bs) sys g = (Some bs', reg, Some reg) \<and>
    sim_inv reg m \<and> list_all (\<lambda>e. find_binding reg (pe_id e) = Some (entry_binding e)) ps"
proof -
  let ?bs = "map entry_binding ps @ drop (length ps) bs"
  let ?reg = "\<lparr>rg_bindings = Some ?bs, rg_count = length ps, rg_system_id = sys\<rparr>"
  have act: "active_bindings ?reg = map entry_binding ps" by (simp add: active_bindings_def)
  have ids: "map sb_id (map entry_binding ps) = map pe_id ps" "map sb_ptr (map entry_binding ps) = map pe_ptr ps"
    by (simp_all add: entry_binding_def comp_def)
  have srt: "registry_sorted ?reg" using assms(1) ids(1) by (simp add: registry_sorted_def del: map_map)
  have "ISIMKIND e \<noteq> kind_u32 \<and> ISIMKIND e \<noteq> kind_s32" for e
    by (cases "pe_physical_type e") (simp_all add: ISIMKIND_def)
  then have "list_all (own_variable m) (map entry_binding ps)"
    using assms(3) by (auto simp: list_all_iff own_variable_def row_variable_def entry_binding_def split: option.splits)
  then have inv: "sim_inv ?reg m" using srt ids(2) assms(2) by (simp add: sim_inv_def act del: map_map)
  have "find_binding ?reg (pe_id e) = Some (entry_binding e)" if "e \<in> set ps" for e
  proof -
    obtain k where k: "k < length ps" "ps ! k = e" using \<open>e \<in> set ps\<close> by (metis in_set_conv_nth)
    have "pe_id (ps ! j) \<noteq> pe_id e" if "j < k" for j
      using sorted_wrt_nth_less [OF assms(1) that] k that by simp
    then have "find (\<lambda>b. sb_id b = pe_id e) (map entry_binding ps) = Some (map entry_binding ps ! k)"
      using k by (intro find_by_index) (auto simp: entry_binding_def)
    then show ?thesis using k by (simp add: find_binding_linear [OF srt] act)
  qed
  then have "list_all (\<lambda>e. find_binding ?reg (pe_id e) = Some (entry_binding e)) ps"
    by (simp add: list_all_iff)
  moreover have "ISIMREG_BUILD (Some ps) (length ps) (Some bs) sys g = (Some ?bs, ?reg, Some ?reg)"
    using assms(4) by (simp add: ISIMREG_BUILD_def Let_def)
  ultimately show ?thesis using inv by blast
qed

lemma registry_build_sound_demo:
  "let e = \<lambda>i p v. \<lparr>pe_id = i, pe_key = ''K'', pe_wire_bits = 8, pe_physical_type = p, pe_ptr = Some v, pe_init_value = Fin 0\<rparr>;
       ps = [e 3 phys_boolean 0, e 5 phys_int8 1, e 8 phys_uint8 2];
       (bs, reg, g) = ISIMREG_BUILD (Some ps) (length ps) (Some (replicate 3 undefined)) 2 None
   in g = Some reg \<and> sim_inv reg sim_demo_mem \<and> find_binding reg 5 = Some (entry_binding (e 5 phys_int8 1))"
proof -
  let ?e = "\<lambda>i p v. \<lparr>pe_id = i, pe_key = ''K'', pe_wire_bits = 8, pe_physical_type = p, pe_ptr = Some v, pe_init_value = Fin 0\<rparr>"
  let ?ps = "[?e 3 phys_boolean 0, ?e 5 phys_int8 1, ?e 8 phys_uint8 2]"
  have v: "list_all (row_variable sim_demo_mem) ?ps"
    by (simp add: row_variable_def sim_demo_mem_def ISIMKIND_def)
  show ?thesis
    using registry_build_sound [of ?ps sim_demo_mem "replicate 3 undefined" 2 None, OF _ _ v]
    by (auto simp: Let_def split: prod.split)
qed

end
