(* ===== verification/CmdExec.thy ===== *)
theory CmdExec
  imports ParCodec SimStore
begin

text \<open>
  Commands received in the command image of a context: \<open>sub/src/i_cmd.cpp\<close> (is a command active,
  what is its value, clear it) and \<open>sub/src/i_cmd_exec.cpp\<close> (apply a table of command-to-parameter
  bindings to the parameter store). A command is active when its raw field is not zero. The status
  hook is a function on the caller's user state, \<open>None\<close> for \<open>nullptr\<close>; a result \<open>None\<close> is an unspecified
  conversion inside the store.
\<close>

subsection \<open>Command access\<close>

definition cmd_width :: "nat \<Rightarrow> u8" where
  "cmd_width i = type_width_bits (te_type (S_basecommtab ! (i - Param_max)))"

definition cmd_block_n :: "context_t \<Rightarrow> nat \<Rightarrow> nat" where
  "cmd_block_n ctx i = (let e = S_basecommtab ! (i - Param_max) in
     if ctx_role ctx = role_cs then nat (te_cs_block_n e mod 256) else nat (te_block_n e mod 256))"

definition cmd_offset :: "nat \<Rightarrow> u8" where
  "cmd_offset i = word_of_int (te_block_offset (S_basecommtab ! (i - Param_max)))"

definition read_command_raw :: "context_t \<Rightarrow> nat \<Rightarrow> u32 option" where
  "read_command_raw ctx i =
     (if msg_cmd ctx = None \<or> i < Param_max \<or> i \<ge> Param_Comm_max then None
      else if cmd_width i = 0 then None
      else read_value (msg_cmd ctx) (msg_cmd_blocks ctx) (cmd_block_n ctx i) (cmd_offset i) (cmd_width i))"

definition ICMDPAR :: "context_t \<Rightarrow> nat \<Rightarrow> par_status \<times> fp" where
  "ICMDPAR ctx i = IMSGGET ctx i"

definition ICMDF32 :: "context_t \<Rightarrow> nat \<Rightarrow> fp \<Rightarrow> fp" where
  "ICMDF32 ctx i fallback = (let (st, v) = IMSGGET ctx i in if st \<noteq> par_ok then fallback else v)"

definition ICMDVAL :: "context_t \<Rightarrow> nat \<Rightarrow> u32 \<Rightarrow> u32 option" where
  "ICMDVAL ctx i fallback =
     (let (st, v) = IMSGGET ctx i in if st \<noteq> par_ok then Some fallback else lround_i32 v)"

definition ICMDACT :: "context_t \<Rightarrow> nat \<Rightarrow> bool" where
  "ICMDACT ctx i = (case read_command_raw ctx i of None \<Rightarrow> False | Some raw \<Rightarrow> raw \<noteq> 0)"

definition ICMDCLEAR :: "context_t \<Rightarrow> nat \<Rightarrow> context_t" where
  "ICMDCLEAR ctx i =
     (if msg_cmd ctx = None \<or> i < Param_max \<or> i \<ge> Param_Comm_max then ctx
      else if cmd_width i = 0 then ctx
      else (case write_value (msg_cmd ctx) (msg_cmd_blocks ctx) (cmd_block_n ctx i) (cmd_offset i) (cmd_width i) 0 of
              None \<Rightarrow> ctx | Some xs \<Rightarrow> ctx\<lparr>msg_cmd := Some xs\<rparr>))"

subsection \<open>Applying bindings\<close>

datatype exec_mode = mode_bool_pair | mode_nonzero_value

record cmd_binding =
  cb_mode :: exec_mode
  cb_cmd_id :: nat
  cb_alt_cmd_id :: nat
  cb_param_id :: nat

type_synonym 'u status_hook = "('u \<Rightarrow> cmd_binding \<Rightarrow> sim_status \<Rightarrow> 'u) option"

definition call_status_hook :: "'u status_hook \<Rightarrow> 'u \<Rightarrow> cmd_binding \<Rightarrow> sim_status \<Rightarrow> 'u" where
  "call_status_hook hook user b st = (case hook of None \<Rightarrow> user | Some h \<Rightarrow> h user b st)"

text \<open>One half of a pair: if the command is active, set the parameter to \<open>v\<close> and clear the command.\<close>

definition apply_pair_half ::
    "registry_t option \<Rightarrow> 'u status_hook \<Rightarrow> cmd_binding \<Rightarrow> nat \<Rightarrow> u32 \<Rightarrow>
     context_t \<times> mem \<times> 'u \<Rightarrow> (bool \<times> context_t \<times> mem \<times> 'u) option" where
  "apply_pair_half g hook b i v = (\<lambda>(ctx, m, user).
     if \<not> ICMDACT ctx i then Some (False, ctx, m, user)
     else (case ISIMSETI32 g m (cb_param_id b) v of
             None \<Rightarrow> None
           | Some (st, m') \<Rightarrow>
               if st \<noteq> sim_ok then Some (False, ctx, m', call_status_hook hook user b st)
               else Some (True, ICMDCLEAR ctx i, m', user)))"

definition apply_bool_pair ::
    "registry_t option \<Rightarrow> 'u status_hook \<Rightarrow> cmd_binding \<Rightarrow>
     context_t \<times> mem \<times> 'u \<Rightarrow> (bool \<times> context_t \<times> mem \<times> 'u) option" where
  "apply_bool_pair g hook b s =
     (case apply_pair_half g hook b (cb_cmd_id b) 1 s of None \<Rightarrow> None
      | Some (c1, s1) \<Rightarrow>
          (case apply_pair_half g hook b (cb_alt_cmd_id b) 0 s1 of None \<Rightarrow> None
           | Some (c2, s2) \<Rightarrow> Some (c1 \<or> c2, s2)))"

definition apply_nonzero_value ::
    "registry_t option \<Rightarrow> 'u status_hook \<Rightarrow> cmd_binding \<Rightarrow>
     context_t \<times> mem \<times> 'u \<Rightarrow> (bool \<times> context_t \<times> mem \<times> 'u) option" where
  "apply_nonzero_value g hook b = (\<lambda>(ctx, m, user).
     if \<not> ICMDACT ctx (cb_cmd_id b) then Some (False, ctx, m, user)
     else (case ISIMSETF32 g m (cb_param_id b) (ICMDF32 ctx (cb_cmd_id b) (Fin 0)) of
             None \<Rightarrow> None
           | Some (st, m') \<Rightarrow>
               if st \<noteq> sim_ok then Some (False, ctx, m', call_status_hook hook user b st)
               else Some (True, ICMDCLEAR ctx (cb_cmd_id b), m', user)))"

definition apply_binding ::
    "registry_t option \<Rightarrow> 'u status_hook \<Rightarrow> cmd_binding \<Rightarrow>
     context_t \<times> mem \<times> 'u \<Rightarrow> (bool \<times> context_t \<times> mem \<times> 'u) option" where
  "apply_binding g hook b s =
     (case cb_mode b of mode_bool_pair \<Rightarrow> apply_bool_pair g hook b s
      | mode_nonzero_value \<Rightarrow> apply_nonzero_value g hook b s)"

fun apply_loop ::
    "registry_t option \<Rightarrow> 'u status_hook \<Rightarrow> cmd_binding list \<Rightarrow> nat \<Rightarrow>
     context_t \<times> mem \<times> 'u \<Rightarrow> (nat \<times> context_t \<times> mem \<times> 'u) option" where
  "apply_loop g hook [] applied s = Some (applied, s)"
| "apply_loop g hook (b # bs) applied s =
     (case apply_binding g hook b s of None \<Rightarrow> None
      | Some (c, s') \<Rightarrow> apply_loop g hook bs (if c then applied + 1 else applied) s')"

definition apply_all ::
    "registry_t option \<Rightarrow> 'u status_hook \<Rightarrow> cmd_binding list option \<Rightarrow> nat \<Rightarrow>
     context_t \<times> mem \<times> 'u \<Rightarrow> (nat \<times> context_t \<times> mem \<times> 'u) option" where
  "apply_all g hook bindings n s =
     (case bindings of None \<Rightarrow> Some (0, s)
      | Some bs \<Rightarrow> if n = 0 then Some (0, s) else apply_loop g hook (take n bs) 0 s)"

subsection \<open>Command slots of a device\<close>

definition cmd_slot :: "nat \<Rightarrow> block_slot" where
  "cmd_slot i = entry_slot (S_basecommtab ! (i - Param_max))"

definition cmd_mem :: "context_t \<Rightarrow> block_mem" where
  "cmd_mem ctx = (msg_cmd ctx, msg_cmd_blocks ctx)"

text \<open>A device context with its whole command message, and a command of that device.\<close>

definition device_cmds :: "context_t \<Rightarrow> bool" where
  "device_cmds ctx \<longleftrightarrow> ctx_role ctx = role_device \<and> msg_cmd ctx \<noteq> None \<and> blk_inv (cmd_mem ctx) \<and>
     msg_cmd_blocks ctx = comm_msg_blocks (ctx_system_id ctx)"

definition own_command :: "context_t \<Rightarrow> nat \<Rightarrow> bool" where
  "own_command ctx i \<longleftrightarrow> is_comm_id i \<and> te_sys_id (S_basecommtab ! (i - Param_max)) = ctx_system_id ctx"

lemma own_command_row:
  assumes "own_command ctx i"
  shows "i - Param_max < Comm_max" "entry_placed comm_msg_blocks (S_basecommtab ! (i - Param_max))"
proof -
  show "i - Param_max < Comm_max" using assms by (auto simp: own_command_def is_comm_id_def)
  then show "entry_placed comm_msg_blocks (S_basecommtab ! (i - Param_max))" by (rule comm_row)
qed

lemma comm_blocks_small: "s \<in> set device_systems \<Longrightarrow> comm_msg_blocks s \<le> 8"
  by (auto simp: device_systems_def comm_msg_blocks_def)

lemma placed_width: "entry_placed sz e \<Longrightarrow> type_width_bits (te_type e) \<noteq> 0"
  by (auto simp: entry_placed_def)

lemma placed_slot_supported:
  assumes "entry_placed sz e"
  shows "slot_supported (word_of_int (te_block_offset e)) (type_width_bits (te_type e))"
proof -
  have "layout_supported (type_width_bits (te_type e)) (te_block_offset e)"
    using assms by (simp add: entry_placed_def)
  from this layout_offset [OF this] show ?thesis by (simp add: slot_supported_def)
qed

lemma own_command_slot:
  assumes "device_cmds ctx" "own_command ctx i"
  shows "(cmd_block_n ctx i, cmd_offset i, cmd_width i) = cmd_slot i" "cmd_width i \<noteq> 0"
    "blk_rd (cmd_mem ctx) (cmd_slot i) \<noteq> None"
proof -
  let ?e = "S_basecommtab ! (i - Param_max)"
  note row = own_command_row(2) [OF assms(2)]
  note pl = entry_placed_nat [OF row]
  have "te_sys_id ?e \<in> set device_systems" using row by (simp add: entry_placed_def)
  then have "nat (te_block_n ?e) < 8" using pl(2) comm_blocks_small by fastforce
  then have "te_block_n ?e mod 256 = te_block_n ?e" using pl(1) by simp
  then show slot: "(cmd_block_n ctx i, cmd_offset i, cmd_width i) = cmd_slot i"
    using assms(1)
    by (simp add: cmd_block_n_def cmd_offset_def cmd_width_def cmd_slot_def entry_slot_def device_cmds_def Let_def)
  show "cmd_width i \<noteq> 0" using placed_width [OF row] by (simp add: cmd_width_def)
  have "slot_supported (word_of_int (te_block_offset ?e)) (type_width_bits (te_type ?e))"
    by (rule placed_slot_supported [OF row])
  then show "blk_rd (cmd_mem ctx) (cmd_slot i) \<noteq> None"
    using assms pl(2)
    by (auto simp: blk_rd_def cmd_mem_def cmd_slot_def entry_slot_def read_value_bf device_cmds_def own_command_def)
qed

lemma read_command_raw_slot:
  assumes "device_cmds ctx" "own_command ctx i"
  shows "read_command_raw ctx i = blk_rd (cmd_mem ctx) (cmd_slot i)"
  using assms own_command_slot [OF assms]
  by (auto simp: read_command_raw_def blk_rd_def cmd_mem_def own_command_def is_comm_id_def device_cmds_def
      split: prod.splits)

lemma cmd_apart:
  assumes "own_command ctx i" "own_command ctx j" "i \<noteq> j"
  shows "blk_apart (cmd_slot i) (cmd_slot j)"
proof -
  have "i - Param_max \<noteq> j - Param_max"
    using assms by (auto simp: own_command_def is_comm_id_def)
  then show ?thesis
    unfolding cmd_slot_def
    using rows_apart [OF comm_rows_ordered comm_rows_placed] own_command_row [OF assms(1)]
      own_command_row [OF assms(2)] assms(1,2)
    by (simp add: own_command_def)
qed

lemma cmd_clear:
  assumes "device_cmds ctx" "own_command ctx i"
  shows "device_cmds (ICMDCLEAR ctx i)" "ctx_system_id (ICMDCLEAR ctx i) = ctx_system_id ctx"
    "msg_prm (ICMDCLEAR ctx i) = msg_prm ctx" "msg_prm_blocks (ICMDCLEAR ctx i) = msg_prm_blocks ctx"
    "blk_rd (cmd_mem (ICMDCLEAR ctx i)) (cmd_slot i) = Some 0"
    "\<And>j. own_command ctx j \<Longrightarrow> j \<noteq> i \<Longrightarrow>
       blk_rd (cmd_mem (ICMDCLEAR ctx i)) (cmd_slot j) = blk_rd (cmd_mem ctx) (cmd_slot j)"
proof -
  note sl = own_command_slot [OF assms]
  obtain xs where xs: "write_value (msg_cmd ctx) (msg_cmd_blocks ctx) (cmd_block_n ctx i) (cmd_offset i) (cmd_width i) 0 = Some xs"
    using sl(3) blkmem.wr_iff_rd [of "cmd_mem ctx" "cmd_slot i" 0]
    by (auto simp: sl(1) [symmetric] blk_wr_def cmd_mem_def)
  have c: "ICMDCLEAR ctx i = ctx\<lparr>msg_cmd := Some xs\<rparr>"
    using assms sl(2) xs by (auto simp: ICMDCLEAR_def own_command_def is_comm_id_def device_cmds_def)
  have w: "blk_wr (cmd_mem ctx) (cmd_slot i) 0 = Some (cmd_mem (ICMDCLEAR ctx i))"
    using xs by (simp add: c sl(1) [symmetric] blk_wr_def cmd_mem_def)
  have inv: "blk_inv (cmd_mem ctx)" using assms(1) by (simp add: device_cmds_def)
  show "device_cmds (ICMDCLEAR ctx i)"
    using assms(1) blkmem.inv_wr [OF inv w] by (simp add: c device_cmds_def)
  show "ctx_system_id (ICMDCLEAR ctx i) = ctx_system_id ctx"
    "msg_prm (ICMDCLEAR ctx i) = msg_prm ctx" "msg_prm_blocks (ICMDCLEAR ctx i) = msg_prm_blocks ctx"
    by (simp_all add: c)
  have "blk_fit (cmd_slot i) 0"
    by (cases "cmd_slot i") (simp add: blk_fit_def slot_norm_def)
  then show "blk_rd (cmd_mem (ICMDCLEAR ctx i)) (cmd_slot i) = Some 0"
    using blkmem.rd_wr_same [OF inv w] by simp
  show "blk_rd (cmd_mem (ICMDCLEAR ctx i)) (cmd_slot j) = blk_rd (cmd_mem ctx) (cmd_slot j)"
    if "own_command ctx j" "j \<noteq> i" for j
    using blkmem.rd_wr_other [OF inv w cmd_apart [OF assms(2) that(1)]] that(2) by simp
qed

subsection \<open>Properties\<close>

text \<open>The state after one half of a pair, for a bound parameter.\<close>

definition half_post :: "registry_t \<Rightarrow> context_t \<Rightarrow> mem \<Rightarrow> nat \<Rightarrow> nat \<Rightarrow> u32 \<Rightarrow> context_t \<Rightarrow> mem \<Rightarrow> bool" where
  "half_post reg ctx m i p v ctx' m' \<longleftrightarrow>
     device_cmds ctx' \<and> ctx_system_id ctx' = ctx_system_id ctx \<and> sim_inv reg m' \<and>
     (\<forall>j. own_command ctx j \<longrightarrow> blk_rd (cmd_mem ctx') (cmd_slot j) =
        (if j = i then Some 0 else blk_rd (cmd_mem ctx) (cmd_slot j))) \<and>
     (\<forall>j. sim_cell reg m' j =
        (if j = p \<and> ICMDACT ctx i then Some (stored_i32 reg j v) else sim_cell reg m j))"

lemma inactive_zero:
  assumes "device_cmds ctx" "own_command ctx i" "\<not> ICMDACT ctx i"
  shows "blk_rd (cmd_mem ctx) (cmd_slot i) = Some 0"
  using assms(3) own_command_slot(3) [OF assms(1,2)]
  by (auto simp: ICMDACT_def read_command_raw_slot [OF assms(1,2)] split: option.splits)

lemma apply_pair_half_eq:
  assumes "device_cmds ctx" "own_command ctx i" "sim_inv reg m" "find_binding reg (cb_param_id b) \<noteq> None"
  shows "\<exists>ctx' m'. apply_pair_half (Some reg) hook b i v (ctx, m, u) = Some (ICMDACT ctx i, ctx', m', u) \<and>
    half_post reg ctx m i (cb_param_id b) v ctx' m'"
proof (cases "ICMDACT ctx i")
  case False
  then have "half_post reg ctx m i (cb_param_id b) v ctx m"
    using assms inactive_zero [OF assms(1,2)] by (simp add: half_post_def)
  with False show ?thesis by (auto simp: apply_pair_half_def)
next
  case True
  obtain bd where bd: "find_binding reg (cb_param_id b) = Some bd" using assms(4) by blast
  obtain m' where m': "ISIMSETI32 (Some reg) m (cb_param_id b) v = Some (sim_ok, m')" "sim_inv reg m'"
    "\<forall>j. sim_cell reg m' j =
       (if j = cb_param_id b then Some (stored_i32 reg (cb_param_id b) v) else sim_cell reg m j)"
    using set_i32_eq [OF assms(3) bd, of v] by blast
  have "half_post reg ctx m i (cb_param_id b) v (ICMDCLEAR ctx i) m'"
    using True m'(2,3) cmd_clear [OF assms(1,2)] by (simp add: half_post_def)
  with True m'(1) show ?thesis by (auto simp: apply_pair_half_def)
qed

text \<open>
  An on/off pair of commands. Whatever subset of the two is active, applying the binding
  succeeds, reports whether any was, leaves both inactive and every other command of the device
  as it was, and sets the parameter as the commands say, OFF winning over ON when both arrived;
  no other parameter changes and the status hook is not called.
\<close>

lemma apply_bool_pair_correct:
  assumes "device_cmds ctx" "own_command ctx (cb_cmd_id b)" "own_command ctx (cb_alt_cmd_id b)"
    and "cb_cmd_id b \<noteq> cb_alt_cmd_id b" "cb_mode b = mode_bool_pair"
    and "sim_inv reg m" "find_binding reg (cb_param_id b) \<noteq> None"
  shows "\<exists>ctx' m'. apply_binding (Some reg) hook b (ctx, m, u) =
      Some (ICMDACT ctx (cb_cmd_id b) \<or> ICMDACT ctx (cb_alt_cmd_id b), ctx', m', u) \<and>
    device_cmds ctx' \<and> sim_inv reg m' \<and>
    (\<forall>j. own_command ctx j \<longrightarrow> blk_rd (cmd_mem ctx') (cmd_slot j) =
       (if j = cb_cmd_id b \<or> j = cb_alt_cmd_id b then Some 0 else blk_rd (cmd_mem ctx) (cmd_slot j))) \<and>
    (\<forall>j. sim_cell reg m' j =
       (if j \<noteq> cb_param_id b then sim_cell reg m j
        else if ICMDACT ctx (cb_alt_cmd_id b) then Some (stored_i32 reg j 0)
        else if ICMDACT ctx (cb_cmd_id b) then Some (stored_i32 reg j 1)
        else sim_cell reg m j))"
proof -
  obtain c1 m1 where 1: "apply_pair_half (Some reg) hook b (cb_cmd_id b) 1 (ctx, m, u) =
      Some (ICMDACT ctx (cb_cmd_id b), c1, m1, u)"
    and p1: "half_post reg ctx m (cb_cmd_id b) (cb_param_id b) 1 c1 m1"
    using apply_pair_half_eq [OF assms(1,2,6,7), of hook 1 u] by blast
  have d1: "device_cmds c1" "sim_inv reg m1" using p1 by (simp_all add: half_post_def)
  have own: "own_command c1 j = own_command ctx j" for j
    using p1 by (simp add: own_command_def half_post_def)
  have alt: "own_command c1 (cb_alt_cmd_id b)" using assms(3) own by simp
  have act: "ICMDACT c1 (cb_alt_cmd_id b) = ICMDACT ctx (cb_alt_cmd_id b)"
    using assms(3,4) p1
    by (simp add: ICMDACT_def half_post_def read_command_raw_slot [OF d1(1) alt] read_command_raw_slot [OF assms(1,3)])
  obtain c2 m2 where 2: "apply_pair_half (Some reg) hook b (cb_alt_cmd_id b) 0 (c1, m1, u) =
      Some (ICMDACT ctx (cb_alt_cmd_id b), c2, m2, u)"
    and p2: "half_post reg c1 m1 (cb_alt_cmd_id b) (cb_param_id b) 0 c2 m2"
    using apply_pair_half_eq [OF d1(1) alt d1(2) assms(7), of hook 0 u] unfolding act by blast
  have "apply_binding (Some reg) hook b (ctx, m, u) =
      Some (ICMDACT ctx (cb_cmd_id b) \<or> ICMDACT ctx (cb_alt_cmd_id b), c2, m2, u)"
    using 1 2 assms(5) by (simp add: apply_binding_def apply_bool_pair_def)
  moreover have "device_cmds c2" "sim_inv reg m2" using p2 by (simp_all add: half_post_def)
  moreover have "\<forall>j. own_command ctx j \<longrightarrow> blk_rd (cmd_mem c2) (cmd_slot j) =
       (if j = cb_cmd_id b \<or> j = cb_alt_cmd_id b then Some 0 else blk_rd (cmd_mem ctx) (cmd_slot j))"
    using p1 p2 own by (simp add: half_post_def)
  moreover have "\<forall>j. sim_cell reg m2 j =
       (if j \<noteq> cb_param_id b then sim_cell reg m j
        else if ICMDACT ctx (cb_alt_cmd_id b) then Some (stored_i32 reg j 0)
        else if ICMDACT ctx (cb_cmd_id b) then Some (stored_i32 reg j 1)
        else sim_cell reg m j)"
    using p1 p2 act by (simp add: half_post_def)
  ultimately show ?thesis by blast
qed

text \<open>
  A value command. An inactive one changes nothing; an active one hands its decoded value to
  the parameter, which it alone changes, and is consumed, every other command of the device
  staying as it was.
\<close>

lemma apply_nonzero_value_correct:
  assumes "device_cmds ctx" "own_command ctx (cb_cmd_id b)" "cb_mode b = mode_nonzero_value"
    and "sim_inv reg m" "find_binding reg (cb_param_id b) \<noteq> None"
    and "accepts_f32 reg (cb_param_id b) (ICMDF32 ctx (cb_cmd_id b) (Fin 0))"
  shows "\<exists>ctx' m'. apply_binding (Some reg) hook b (ctx, m, u) = Some (ICMDACT ctx (cb_cmd_id b), ctx', m', u) \<and>
    device_cmds ctx' \<and> sim_inv reg m' \<and>
    (\<forall>j. own_command ctx j \<longrightarrow> blk_rd (cmd_mem ctx') (cmd_slot j) =
       (if j = cb_cmd_id b then Some 0 else blk_rd (cmd_mem ctx) (cmd_slot j))) \<and>
    (\<forall>j. sim_cell reg m' j =
       (if j = cb_param_id b \<and> ICMDACT ctx (cb_cmd_id b)
        then Some (stored_f32 reg j (ICMDF32 ctx (cb_cmd_id b) (Fin 0))) else sim_cell reg m j))"
proof (cases "ICMDACT ctx (cb_cmd_id b)")
  case False
  then have "apply_binding (Some reg) hook b (ctx, m, u) = Some (False, ctx, m, u)"
    using assms(3) by (simp add: apply_binding_def apply_nonzero_value_def)
  with False assms(1,4) inactive_zero [OF assms(1,2) False] show ?thesis by simp
next
  case True
  obtain bd where bd: "find_binding reg (cb_param_id b) = Some bd" using assms(5) by blast
  obtain m' where m': "ISIMSETF32 (Some reg) m (cb_param_id b) (ICMDF32 ctx (cb_cmd_id b) (Fin 0)) = Some (sim_ok, m')"
    "sim_inv reg m'"
    "\<forall>j. sim_cell reg m' j = (if j = cb_param_id b
       then Some (stored_f32 reg (cb_param_id b) (ICMDF32 ctx (cb_cmd_id b) (Fin 0))) else sim_cell reg m j)"
    using set_f32_eq [OF assms(4) bd assms(6)] by blast
  have "apply_binding (Some reg) hook b (ctx, m, u) = Some (True, ICMDCLEAR ctx (cb_cmd_id b), m', u)"
    using True assms(3) m'(1) by (simp add: apply_binding_def apply_nonzero_value_def)
  with True m'(2,3) cmd_clear [OF assms(1,2)] show ?thesis by simp
qed

lemma apply_nonzero_value_correct_witness:
  "let b = \<lparr>cb_mode = mode_nonzero_value, cb_cmd_id = CPSSMAXT1, cb_alt_cmd_id = 0, cb_param_id = 8\<rparr>;
       ctx = \<lparr>ctx_role = role_device, ctx_system_id = SYS_PSS, msg_prm = None, msg_prm_blocks = 0,
              msg_cmd = Some [0, 300, 0, 0, 0, 0, 0, 0], msg_cmd_blocks = 8\<rparr>
   in \<exists>ctx' m'. apply_binding (Some sim_demo) None b (ctx, sim_demo_mem, ()) = Some (True, ctx', m', ()) \<and>
        sim_cell sim_demo m' 8 = Some (V_u8 255) \<and> sim_cell sim_demo m' 5 = Some (V_s8 7)"
proof -
  let ?b = "\<lparr>cb_mode = mode_nonzero_value, cb_cmd_id = CPSSMAXT1, cb_alt_cmd_id = 0, cb_param_id = 8\<rparr>"
  let ?ctx = "\<lparr>ctx_role = role_device, ctx_system_id = SYS_PSS, msg_prm = None, msg_prm_blocks = 0,
              msg_cmd = Some [0, 300, 0, 0, 0, 0, 0, 0], msg_cmd_blocks = 8\<rparr>"
  have n: "comm_msg_blocks SYS_PSS = 8" by code_simp
  have d: "device_cmds ?ctx" by (simp add: device_cmds_def n blk_inv_def cmd_mem_def span_ok_def)
  have o: "own_command ?ctx CPSSMAXT1" unfolding own_command_def is_comm_id_def by code_simp
  have f: "find_binding sim_demo 8 \<noteq> None" by code_simp
  have val: "ICMDF32 ?ctx CPSSMAXT1 (Fin 0) = Fin 300" by code_simp
  have acc: "accepts_f32 sim_demo 8 (Fin 300)" unfolding accepts_f32_def by code_simp
  have act: "ICMDACT ?ctx CPSSMAXT1 = True" by code_simp
  have st: "stored_f32 sim_demo 8 (Fin 300) = V_u8 255" by code_simp
  have c: "sim_cell sim_demo sim_demo_mem 5 = Some (V_s8 7)" by code_simp
  show ?thesis
    using apply_nonzero_value_correct [of ?ctx ?b sim_demo sim_demo_mem None "()"] d o f sim_demo_inv val acc act st c
    by auto
qed

end
