(* ===== verification/BusExchange.thy ===== *)
theory BusExchange
  imports MsgHeader MockBus CmdExec
begin

text \<open>
  The byte-level exchange, \<open>sub/src/i_sys_algo.cpp\<close>: the state machine that sends and receives one
  frame byte per tick, in the roles of master (CS) and device, and the base algorithm that runs it
  once per tick.

  \<open>bus_state\<close> is the source's \<open>bus_state_t\<close>; a pointer field holds the array it points to (\<open>None\<close> for
  \<open>nullptr\<close>), so that writing through it updates the field. The byte pointers to MSG_CMD and
  MSG_PRM are never read and are left out. A step reads the bus at most once and writes at most
  once: it is a function from the byte visible in its tick to the byte it writes and its new state
  (a \<open>node_fn\<close> of \<open>MockBus\<close>). The hooks of \<open>bus_hooks_t\<close> are functions on the state, \<open>None\<close> for \<open>nullptr\<close>
  as in both programs; \<open>log_exchange\<close> receives the state as \<open>const\<close> and has no effect on it.
\<close>

abbreviation (input) ARP_BUS_SOF :: u8 where "ARP_BUS_SOF \<equiv> 0xAA"
abbreviation (input) ARP_BUS_EOF :: u8 where "ARP_BUS_EOF \<equiv> 0x55"
abbreviation (input) ARP_FLAG_CMD_REQ :: u8 where "ARP_FLAG_CMD_REQ \<equiv> 0"
abbreviation (input) ARP_FLAG_CMD_RESP :: u8 where "ARP_FLAG_CMD_RESP \<equiv> 1"
abbreviation (input) ARP_FLAG_DATA_REQ :: u8 where "ARP_FLAG_DATA_REQ \<equiv> 2"
abbreviation (input) ARP_FLAG_DATA_RESP :: u8 where "ARP_FLAG_DATA_RESP \<equiv> 3"
abbreviation (input) ARP_BUS_RESPONSE_TIMEOUT_FRAMES :: u16 where "ARP_BUS_RESPONSE_TIMEOUT_FRAMES \<equiv> 10"
abbreviation (input) ARP_ADDR_CS :: u8 where "ARP_ADDR_CS \<equiv> 1"
abbreviation (input) ARP_ADDR_PSS :: u8 where "ARP_ADDR_PSS \<equiv> 2"
abbreviation (input) ARP_ADDR_TCS :: u8 where "ARP_ADDR_TCS \<equiv> 3"
abbreviation (input) ARP_ADDR_TMS :: u8 where "ARP_ADDR_TMS \<equiv> 4"
abbreviation (input) ARP_ADDR_MNS :: u8 where "ARP_ADDR_MNS \<equiv> 5"
abbreviation (input) ARP_ADDR_LS :: u8 where "ARP_ADDR_LS \<equiv> 6"

datatype bus_role_t = bus_device | bus_master
datatype exchange_flag_t = ex_rx | ex_tx | ex_bypass
datatype rx_flag_t = rx_sof | rx_header | rx_data | rx_eof
datatype tx_flag_t = tx_sof | tx_header | tx_data | tx_eof
datatype exchange_result_t = res_none | res_success | res_timeout | res_invalid_eof

record bus_state =
  b_role :: bus_role_t
  b_system_id :: u8
  b_self_addr :: u8
  b_target_addr :: u8
  b_header :: hdr_views
  b_cmd_buf_u8 :: "u8 list option"
  b_cmd_buf :: "u16 list option"
  b_prm_buf_u8 :: "u8 list option"
  b_prm_buf :: "u16 list option"
  b_cmd :: "u16 list option"
  b_prm :: "u16 list option"
  b_cmd_blocks :: nat
  b_cmd_buf_blocks :: nat
  b_prm_blocks :: nat
  b_prm_buf_blocks :: nat
  b_cmd_frame_offset :: nat
  b_cmd_frame_blocks :: nat
  b_prm_frame_offset :: nat
  b_prm_frame_blocks :: nat
  b_exchange_flag :: exchange_flag_t
  b_rx_flag :: rx_flag_t
  b_tx_flag :: tx_flag_t
  b_adr_flag :: bool
  b_n_blocks :: u8
  b_msg_flag :: u8
  b_sub_clock :: u16
  b_wait_clock :: u16
  b_busy :: bool
  b_result_ready :: bool
  b_last_result :: exchange_result_t
  b_writer_tick :: u32

record bus_hooks =
  hk_parse_header :: "(bus_state \<Rightarrow> bus_state) option"
  hk_gen_header :: "(bus_state \<Rightarrow> bus_state) option"
  hk_bypass :: "(bus_state \<Rightarrow> bus_state) option"
  hk_on_error :: "(bus_state \<Rightarrow> bus_state) option"

definition call_hook :: "('s \<Rightarrow> 's) option \<Rightarrow> 's \<Rightarrow> 's" where
  "call_hook f s = (case f of None \<Rightarrow> s | Some g \<Rightarrow> g s)"

definition no_bus_hooks :: bus_hooks where
  "no_bus_hooks = \<lparr>hk_parse_header = None, hk_gen_header = None, hk_bypass = None, hk_on_error = None\<rparr>"

lemma no_hooks [simp]:
  "hk_parse_header no_bus_hooks = None" "hk_gen_header no_bus_hooks = None"
  "hk_bypass no_bus_hooks = None" "hk_on_error no_bus_hooks = None"
  by (simp_all add: no_bus_hooks_def)

lemma call_hook_None [simp]: "call_hook None s = s"
  by (simp add: call_hook_def)

subsection \<open>Frame layout and buffers\<close>

definition clamp_frame_blocks :: "nat \<Rightarrow> nat \<Rightarrow> nat" where
  "clamp_frame_blocks requested buffer = (if buffer = 0 then requested else min requested buffer)"

definition cmd_frame_blocks :: "bus_state \<Rightarrow> nat" where
  "cmd_frame_blocks s = clamp_frame_blocks
     (if b_cmd_frame_blocks s = 0 then b_cmd_blocks s else b_cmd_frame_blocks s) (b_cmd_buf_blocks s)"

definition prm_frame_blocks :: "bus_state \<Rightarrow> nat" where
  "prm_frame_blocks s = clamp_frame_blocks
     (if b_prm_frame_blocks s = 0 then b_prm_blocks s else b_prm_frame_blocks s) (b_prm_buf_blocks s)"

definition read_buffer_byte :: "u16 list option \<Rightarrow> nat \<Rightarrow> u8 list option \<Rightarrow> nat \<Rightarrow> u8 option" where
  "read_buffer_byte blocks n bytes i =
     (case blocks of Some _ \<Rightarrow> blk_read_byte blocks n i
      | None \<Rightarrow> (case bytes of None \<Rightarrow> None | Some bs \<Rightarrow> Some (bs ! i)))"

definition write_buffer_byte :: "u16 list option \<Rightarrow> nat \<Rightarrow> u8 list option \<Rightarrow> nat \<Rightarrow> u8 \<Rightarrow>
    u16 list option \<times> u8 list option" where
  "write_buffer_byte blocks n bytes i v =
     (case blocks of Some _ \<Rightarrow> (case blk_write_byte blocks n i v of None \<Rightarrow> blocks | Some xs \<Rightarrow> Some xs, bytes)
      | None \<Rightarrow> (None, map_option (\<lambda>bs. bs[i := v]) bytes))"

definition sys_copy_blocks :: "u16 list option \<Rightarrow> nat \<Rightarrow> nat \<Rightarrow> u16 list option \<Rightarrow> nat \<Rightarrow> nat \<Rightarrow> nat \<Rightarrow> u16 list option" where
  "sys_copy_blocks dst dn doff src sn soff n =
     (if dst \<noteq> None \<and> src \<noteq> None then copy_blocks dst dn doff src sn soff n else dst)"

definition item_slot :: "tab_entry \<Rightarrow> block_slot" where
  "item_slot e = (nat (te_block_n e mod 256), word_of_int (te_block_offset e), type_width_bits (te_type e))"

definition merge_nonzero_cmd_fields :: "bus_state \<Rightarrow> bus_state" where
  "merge_nonzero_cmd_fields s =
     (if b_system_id s = SYS_NONE \<or> b_cmd s = None \<or> b_cmd_buf s = None then s
      else s\<lparr>b_cmd := fst (merge_slots blk_rd blk_wr (b_cmd_buf s, b_cmd_buf_blocks s) item_slot item_slot
               (filter (\<lambda>e. te_sys_id e = b_system_id s \<and> type_width_bits (te_type e) \<noteq> 0) S_basecommtab)
               (b_cmd s, b_cmd_blocks s))\<rparr>)"

definition expected_bytes :: "bus_state \<Rightarrow> nat" where
  "expected_bytes s = unat (b_n_blocks s) * 2"

definition com_capacity_bytes :: "bus_state \<Rightarrow> nat" where
  "com_capacity_bytes s = cmd_frame_blocks s * 2"

definition par_capacity_bytes :: "bus_state \<Rightarrow> nat" where
  "par_capacity_bytes s = prm_frame_blocks s * 2"

definition calc_nblocks :: "bus_state \<Rightarrow> u8" where
  "calc_nblocks s =
     (if b_msg_flag s = ARP_FLAG_CMD_REQ then of_nat (cmd_frame_blocks s)
      else if b_msg_flag s = ARP_FLAG_DATA_RESP then of_nat (prm_frame_blocks s)
      else 0)"

definition mark_result :: "bus_state \<Rightarrow> exchange_result_t \<Rightarrow> bus_state" where
  "mark_result s r = s\<lparr>b_last_result := r, b_result_ready := True\<rparr>"

definition IBUS_RESET_FRAME_LAYOUT :: "bus_state \<Rightarrow> bus_state" where
  "IBUS_RESET_FRAME_LAYOUT s = s\<lparr>
     b_cmd_frame_offset := 0,
     b_cmd_frame_blocks := clamp_frame_blocks (b_cmd_blocks s) (b_cmd_buf_blocks s),
     b_prm_frame_offset := 0,
     b_prm_frame_blocks := clamp_frame_blocks (b_prm_blocks s) (b_prm_buf_blocks s)\<rparr>"

definition reset_to_idle :: "bus_state \<Rightarrow> bus_state" where
  "reset_to_idle s = IBUS_RESET_FRAME_LAYOUT (s\<lparr>
     b_exchange_flag := ex_rx, b_rx_flag := rx_sof, b_tx_flag := tx_sof, b_adr_flag := False,
     b_n_blocks := 0, b_msg_flag := ARP_FLAG_CMD_REQ, b_sub_clock := 0, b_wait_clock := 0,
     b_busy := False\<rparr>)"

definition bus_state0 :: bus_state where
  "bus_state0 = \<lparr>b_role = bus_device, b_system_id = SYS_NONE, b_self_addr = 0, b_target_addr = 0,
     b_header = (None, None), b_cmd_buf_u8 = None, b_cmd_buf = None, b_prm_buf_u8 = None,
     b_prm_buf = None, b_cmd = None, b_prm = None, b_cmd_blocks = 0, b_cmd_buf_blocks = 0,
     b_prm_blocks = 0, b_prm_buf_blocks = 0, b_cmd_frame_offset = 0, b_cmd_frame_blocks = 0,
     b_prm_frame_offset = 0, b_prm_frame_blocks = 0, b_exchange_flag = ex_rx, b_rx_flag = rx_sof,
     b_tx_flag = tx_sof, b_adr_flag = False, b_n_blocks = 0, b_msg_flag = ARP_FLAG_CMD_REQ,
     b_sub_clock = 0, b_wait_clock = 0, b_busy = False, b_result_ready = False,
     b_last_result = res_none, b_writer_tick = 0\<rparr>"

definition IBUS_BIND_STD :: "bus_role_t \<Rightarrow> u8 \<Rightarrow> u8 \<Rightarrow> u8 \<Rightarrow> hdr_views \<Rightarrow>
    u8 list option \<Rightarrow> u16 list option \<Rightarrow> nat \<Rightarrow> u8 list option \<Rightarrow> u16 list option \<Rightarrow> nat \<Rightarrow>
    u16 list option \<Rightarrow> u16 list option \<Rightarrow> nat \<Rightarrow> nat \<Rightarrow> bus_state" where
  "IBUS_BIND_STD role sys self_addr target_addr hdr cb8 cb16 cbn pb8 pb16 pbn cmd prm cn pn =
     bus_state0\<lparr>b_role := role, b_system_id := sys, b_self_addr := self_addr, b_target_addr := target_addr,
       b_header := hdr, b_cmd_buf_u8 := cb8, b_cmd_buf := cb16, b_cmd_buf_blocks := cbn,
       b_prm_buf_u8 := pb8, b_prm_buf := pb16, b_prm_buf_blocks := pbn, b_cmd := cmd, b_prm := prm,
       b_cmd_blocks := cn, b_prm_blocks := pn,
       b_cmd_frame_offset := 0, b_cmd_frame_blocks := clamp_frame_blocks cn cbn,
       b_prm_frame_offset := 0, b_prm_frame_blocks := clamp_frame_blocks pn pbn\<rparr>"

subsection \<open>Headers, frames and results\<close>

definition IBUS_PARSE_STD_HEADER :: "bus_state \<Rightarrow> bus_state" where
  "IBUS_PARSE_STD_HEADER s =
     (case parse_storage (b_header s) of
        None \<Rightarrow> s\<lparr>b_adr_flag := False, b_n_blocks := 0\<rparr>
      | Some h \<Rightarrow> s\<lparr>b_adr_flag := (hv_addr h = b_self_addr s), b_msg_flag := hv_flag h,
                   b_n_blocks := hv_nblocks h\<rparr>)"

definition IBUS_GEN_STD_HEADER :: "bus_state \<Rightarrow> bus_state" where
  "IBUS_GEN_STD_HEADER s =
     (if fst (b_header s) = None \<and> snd (b_header s) = None then s
      else let n = calc_nblocks s;
               h = hdr_value0\<lparr>hv_addr := b_target_addr s, hv_flag := b_msg_flag s,
                              hv_marker := ucast (b_writer_tick s), hv_nblocks := n\<rparr>
           in s\<lparr>b_n_blocks := n, b_header := write_storage (b_header s) h\<rparr>)"

definition IBUS_SET_CMD_FRAME :: "bus_state \<Rightarrow> nat \<Rightarrow> nat \<Rightarrow> bool \<times> bus_state" where
  "IBUS_SET_CMD_FRAME s off n =
     (if off > b_cmd_blocks s \<or> n > b_cmd_blocks s \<or> off + n > b_cmd_blocks s \<or> n > b_cmd_buf_blocks s
      then (False, s)
      else (True, s\<lparr>b_cmd_frame_offset := off, b_cmd_frame_blocks := n\<rparr>))"

definition IBUS_SET_PRM_FRAME :: "bus_state \<Rightarrow> nat \<Rightarrow> nat \<Rightarrow> bool \<times> bus_state" where
  "IBUS_SET_PRM_FRAME s off n =
     (if off > b_prm_blocks s \<or> n > b_prm_blocks s \<or> off + n > b_prm_blocks s \<or> n > b_prm_buf_blocks s
      then (False, s)
      else (True, s\<lparr>b_prm_frame_offset := off, b_prm_frame_blocks := n\<rparr>))"

definition IBUS_CLEAR_RESULT :: "bus_state \<Rightarrow> bus_state" where
  "IBUS_CLEAR_RESULT s = s\<lparr>b_result_ready := False, b_last_result := res_none\<rparr>"

definition IBUS_TAKE_RESULT :: "bus_state \<Rightarrow> exchange_result_t option \<times> bus_state" where
  "IBUS_TAKE_RESULT s =
     (if \<not> b_result_ready s then (None, s) else (Some (b_last_result s), IBUS_CLEAR_RESULT s))"

definition IBUS_RESULT_TO_STRING :: "exchange_result_t \<Rightarrow> string" where
  "IBUS_RESULT_TO_STRING r =
     (case r of res_success \<Rightarrow> ''success'' | res_timeout \<Rightarrow> ''timeout''
      | res_invalid_eof \<Rightarrow> ''invalid_eof'' | res_none \<Rightarrow> ''none'')"

definition ISYS_SYNC_MSGCMD_TO_BUF :: "bus_state \<Rightarrow> bus_state" where
  "ISYS_SYNC_MSGCMD_TO_BUF s =
     (if b_cmd s = None \<or> b_cmd_buf s = None then s
      else s\<lparr>b_cmd_buf := copy_blocks (b_cmd_buf s) (b_cmd_buf_blocks s) 0 (b_cmd s) (b_cmd_blocks s) 0
               (min (b_cmd_buf_blocks s) (b_cmd_blocks s))\<rparr>)"

definition ISYS_SYNC_MSGPRM_TO_BUF :: "bus_state \<Rightarrow> bus_state" where
  "ISYS_SYNC_MSGPRM_TO_BUF s =
     (if b_prm s = None \<or> b_prm_buf s = None then s
      else s\<lparr>b_prm_buf := copy_blocks (b_prm_buf s) (b_prm_buf_blocks s) 0 (b_prm s) (b_prm_blocks s) 0
               (min (b_prm_buf_blocks s) (b_prm_blocks s))\<rparr>)"

subsection \<open>Receiving\<close>

text \<open>Each step takes the byte that the bus shows in the tick, if any, and returns the new state.\<close>

definition IRX_SOF :: "u8 option \<Rightarrow> bus_state \<Rightarrow> bus_state" where
  "IRX_SOF rx s =
     (if rx = Some ARP_BUS_SOF
      then (let s1 = s\<lparr>b_rx_flag := rx_header, b_sub_clock := 0, b_wait_clock := 0\<rparr> in
            if b_role s = bus_device then s1\<lparr>b_busy := True\<rparr> else s1)
      else s)"

definition write_header_byte :: "bus_state \<Rightarrow> nat \<Rightarrow> u8 \<Rightarrow> bus_state" where
  "write_header_byte s i v =
     (case hdr_write_byte (b_header s) i v of None \<Rightarrow> s | Some h \<Rightarrow> s\<lparr>b_header := h\<rparr>)"

definition IRX_HEADER :: "bus_hooks \<Rightarrow> u8 option \<Rightarrow> bus_state \<Rightarrow> bus_state" where
  "IRX_HEADER hooks rx s =
     (if b_sub_clock s = 0 then
        (case rx of None \<Rightarrow> s
         | Some v \<Rightarrow> (write_header_byte s 0 v)\<lparr>b_sub_clock := 1, b_wait_clock := 0\<rparr>)
      else if b_sub_clock s = 1 then
        (case rx of None \<Rightarrow> s
         | Some v \<Rightarrow>
             let s1 = (write_header_byte s 1 v)\<lparr>b_wait_clock := 0\<rparr>;
                 s2 = (case hk_parse_header hooks of Some f \<Rightarrow> f s1 | None \<Rightarrow> IBUS_PARSE_STD_HEADER s1)
             in s2\<lparr>b_rx_flag := (if b_n_blocks s2 > 0 then rx_data else rx_eof), b_sub_clock := 0\<rparr>)
      else s)"

definition store_rx_byte :: "bus_state \<Rightarrow> u8 \<Rightarrow> bus_state" where
  "store_rx_byte s v =
     (let i = unat (b_sub_clock s) in
      if b_adr_flag s \<and> (b_msg_flag s = ARP_FLAG_CMD_REQ \<or> b_msg_flag s = ARP_FLAG_DATA_RESP) then
        (if b_msg_flag s = ARP_FLAG_CMD_REQ then
           (if i < com_capacity_bytes s
            then let (b16, b8) = write_buffer_byte (b_cmd_buf s) (b_cmd_buf_blocks s) (b_cmd_buf_u8 s) i v
                 in s\<lparr>b_cmd_buf := b16, b_cmd_buf_u8 := b8\<rparr>
            else s)
         else
           (if i < par_capacity_bytes s
            then let (b16, b8) = write_buffer_byte (b_prm_buf s) (b_prm_buf_blocks s) (b_prm_buf_u8 s) i v
                 in s\<lparr>b_prm_buf := b16, b_prm_buf_u8 := b8\<rparr>
            else s))
      else s)"

definition IRX_DATA :: "u8 option \<Rightarrow> bus_state \<Rightarrow> bus_state" where
  "IRX_DATA rx s =
     (case rx of None \<Rightarrow> s
      | Some v \<Rightarrow>
          let s1 = store_rx_byte (s\<lparr>b_wait_clock := 0\<rparr>) v;
              s2 = s1\<lparr>b_sub_clock := b_sub_clock s1 + 1\<rparr>
          in if unat (b_sub_clock s2) \<ge> expected_bytes s2 then s2\<lparr>b_rx_flag := rx_eof\<rparr> else s2)"

definition to_response :: "bus_state \<Rightarrow> u8 \<Rightarrow> bus_state" where
  "to_response s flag = s\<lparr>b_msg_flag := flag, b_tx_flag := tx_sof, b_exchange_flag := ex_tx, b_sub_clock := 0\<rparr>"

definition IRX_EOF :: "bus_hooks \<Rightarrow> u8 option \<Rightarrow> bus_state \<Rightarrow> bus_state" where
  "IRX_EOF hooks rx s =
     (case rx of None \<Rightarrow> s
      | Some v \<Rightarrow>
          if v \<noteq> ARP_BUS_EOF then reset_to_idle (call_hook (hk_on_error hooks) (mark_result s res_invalid_eof))
          else if \<not> b_adr_flag s then reset_to_idle s
          else if b_msg_flag s = ARP_FLAG_CMD_REQ then to_response (merge_nonzero_cmd_fields s) ARP_FLAG_CMD_RESP
          else if b_msg_flag s = ARP_FLAG_DATA_REQ then to_response s ARP_FLAG_DATA_RESP
          else let s1 = (if b_msg_flag s = ARP_FLAG_DATA_RESP
                         then s\<lparr>b_prm := sys_copy_blocks (b_prm s) (b_prm_blocks s) (b_prm_frame_offset s)
                                  (b_prm_buf s) (b_prm_buf_blocks s) 0 (prm_frame_blocks s)\<rparr>
                         else s);
                   s2 = (if b_role s1 = bus_master then mark_result s1 res_success else s1)
               in reset_to_idle s2)"

definition IBUS_RX_EXCHANGE :: "bus_hooks \<Rightarrow> u8 option \<Rightarrow> bus_state \<Rightarrow> bus_state" where
  "IBUS_RX_EXCHANGE hooks rx s =
     (let waiting = (b_role s = bus_master \<and> b_busy s);
          s1 = (if waiting then s\<lparr>b_wait_clock := b_wait_clock s + 1\<rparr> else s)
      in if waiting \<and> b_wait_clock s1 > ARP_BUS_RESPONSE_TIMEOUT_FRAMES
         then reset_to_idle (call_hook (hk_on_error hooks) (mark_result s1 res_timeout))
         else (case b_rx_flag s1 of
                 rx_sof \<Rightarrow> IRX_SOF rx s1
               | rx_header \<Rightarrow> IRX_HEADER hooks rx s1
               | rx_data \<Rightarrow> IRX_DATA rx s1
               | rx_eof \<Rightarrow> IRX_EOF hooks rx s1))"

subsection \<open>Transmitting\<close>

text \<open>Each step returns the byte it writes to the bus and the new state.\<close>

definition ITX_SOF :: "bus_state \<Rightarrow> u8 option \<times> bus_state" where
  "ITX_SOF s =
     (Some ARP_BUS_SOF,
      let s1 = s\<lparr>b_tx_flag := tx_header, b_sub_clock := 0, b_wait_clock := 0\<rparr>
      in if b_role s = bus_master then s1\<lparr>b_busy := True\<rparr> else s1)"

definition header_byte :: "bus_state \<Rightarrow> nat \<Rightarrow> u8" where
  "header_byte s i = (case hdr_read_byte (b_header s) i of None \<Rightarrow> 0 | Some v \<Rightarrow> v)"

definition ITX_HEADER :: "bus_hooks \<Rightarrow> bus_state \<Rightarrow> u8 option \<times> bus_state" where
  "ITX_HEADER hooks s =
     (if b_sub_clock s = 0 then
        (let s1 = (case hk_gen_header hooks of Some f \<Rightarrow> f s | None \<Rightarrow> IBUS_GEN_STD_HEADER s)
         in (Some (header_byte s1 0), s1\<lparr>b_sub_clock := 1, b_wait_clock := 0\<rparr>))
      else if b_sub_clock s = 1 then
        (Some (header_byte s 1),
         s\<lparr>b_tx_flag := (if b_n_blocks s > 0 then tx_data else tx_eof), b_sub_clock := 0, b_wait_clock := 0\<rparr>)
      else (None, s))"

definition tx_data_byte :: "bus_state \<Rightarrow> u8" where
  "tx_data_byte s =
     (let i = unat (b_sub_clock s);
          r = (if b_msg_flag s = ARP_FLAG_CMD_REQ then
                 (if i < com_capacity_bytes s
                  then read_buffer_byte (b_cmd_buf s) (b_cmd_buf_blocks s) (b_cmd_buf_u8 s) i else None)
               else if b_msg_flag s = ARP_FLAG_DATA_RESP then
                 (if i < par_capacity_bytes s
                  then read_buffer_byte (b_prm_buf s) (b_prm_buf_blocks s) (b_prm_buf_u8 s) i else None)
               else None)
      in case r of None \<Rightarrow> 0 | Some v \<Rightarrow> v)"

definition ITX_DATA :: "bus_state \<Rightarrow> u8 option \<times> bus_state" where
  "ITX_DATA s =
     (let s1 = s\<lparr>b_sub_clock := b_sub_clock s + 1, b_wait_clock := 0\<rparr>
      in (Some (tx_data_byte s),
          if unat (b_sub_clock s1) \<ge> expected_bytes s1 then s1\<lparr>b_tx_flag := tx_eof\<rparr> else s1))"

definition ITX_EOF :: "bus_state \<Rightarrow> u8 option \<times> bus_state" where
  "ITX_EOF s =
     (let s1 = s\<lparr>b_rx_flag := rx_sof, b_exchange_flag := ex_rx, b_sub_clock := 0, b_wait_clock := 0\<rparr>
      in (Some ARP_BUS_EOF,
          if b_role s = bus_device
          then s1\<lparr>b_busy := False, b_msg_flag := ARP_FLAG_CMD_REQ, b_tx_flag := tx_sof\<rparr>
          else (if b_msg_flag s = ARP_FLAG_CMD_REQ then s1\<lparr>b_msg_flag := ARP_FLAG_CMD_RESP\<rparr>
                else if b_msg_flag s = ARP_FLAG_DATA_REQ then s1\<lparr>b_msg_flag := ARP_FLAG_DATA_RESP\<rparr>
                else s1\<lparr>b_busy := False, b_msg_flag := ARP_FLAG_CMD_REQ\<rparr>)\<lparr>b_tx_flag := tx_sof\<rparr>))"

definition IBUS_TX_EXCHANGE :: "bus_hooks \<Rightarrow> bus_state \<Rightarrow> u8 option \<times> bus_state" where
  "IBUS_TX_EXCHANGE hooks s =
     (case b_tx_flag s of
        tx_sof \<Rightarrow> ITX_SOF s
      | tx_header \<Rightarrow> ITX_HEADER hooks s
      | tx_data \<Rightarrow> ITX_DATA s
      | tx_eof \<Rightarrow> ITX_EOF s)"

definition IBUS_BYPASS :: "bus_hooks \<Rightarrow> bus_state \<Rightarrow> bus_state" where
  "IBUS_BYPASS hooks s = call_hook (hk_bypass hooks) s"

definition IBUS_EXCHANGE :: "bus_hooks \<Rightarrow> bus_state node_fn" where
  "IBUS_EXCHANGE hooks rx s =
     (case b_exchange_flag s of
        ex_rx \<Rightarrow> (None, IBUS_RX_EXCHANGE hooks rx s)
      | ex_tx \<Rightarrow> IBUS_TX_EXCHANGE hooks s
      | ex_bypass \<Rightarrow> (None, IBUS_BYPASS hooks s))"

lemmas exchange_defs =
  IBUS_EXCHANGE_def IBUS_RX_EXCHANGE_def IBUS_TX_EXCHANGE_def IRX_SOF_def IRX_HEADER_def IRX_DATA_def
  IRX_EOF_def ITX_SOF_def ITX_HEADER_def ITX_DATA_def ITX_EOF_def

subsection \<open>The algorithms of a tick\<close>

text \<open>
  The hooks of \<open>ISYSALG\<close> and \<open>ISYSBASEALG\<close> act on the system's globals, an environment that contains
  the bus state and the tick counters: they are functions on it, and \<open>getb\<close>, \<open>putb\<close>, \<open>gett\<close>, \<open>putt\<close>
  are the two parts of it that the algorithm itself works on.
\<close>

record tick_state =
  tk_count :: u64
  tk_clock :: u8

definition ISYSRESET :: tick_state where
  "ISYSRESET = \<lparr>tk_count = 0, tk_clock = 0\<rparr>"

definition ISYSTEP :: "tick_state \<Rightarrow> tick_state" where
  "ISYSTEP t = \<lparr>tk_count = tk_count t + 1,
     tk_clock = (if tk_clock t = 0xFF then 1 else tk_clock t + 1)\<rparr>"

definition ISYSCLEAR :: "u16 list option \<Rightarrow> nat \<Rightarrow> u16 list option" where
  "ISYSCLEAR buf n = map_option (\<lambda>xs. replicate n 0 @ drop n xs) buf"

definition ISYSCTX :: "role_t \<Rightarrow> u8 \<Rightarrow> u16 list option \<Rightarrow> nat \<Rightarrow> u16 list option \<Rightarrow> nat \<Rightarrow> context_t" where
  "ISYSCTX r s prm pn cmd cn = \<lparr>ctx_role = r, ctx_system_id = s, msg_prm = prm, msg_prm_blocks = pn,
     msg_cmd = cmd, msg_cmd_blocks = cn\<rparr>"

record 'e sysalg_hooks =
  hk_ICMDUPD :: "('e \<Rightarrow> 'e) option"
  hk_LOCALSYSALG :: "('e \<Rightarrow> 'e) option"
  hk_ISYSNODES :: "('e \<Rightarrow> 'e) option"
  hk_IPRMUPD :: "('e \<Rightarrow> 'e) option"

record 'e base_hooks =
  hk_ISYSALG :: "'e sysalg_hooks"
  hk_IBUSEXCHANGE :: "(u8 option \<Rightarrow> bus_state \<Rightarrow> u8 option \<times> bus_state) option"
  hk_IEXCHANGECTRL :: "('e \<Rightarrow> 'e) option"
  hk_ICMDPWRUPD :: "('e \<Rightarrow> 'e) option"
  hk_ILOG :: "('e \<Rightarrow> 'e) option"

definition ISYSALG :: "'e sysalg_hooks \<Rightarrow> 'e \<Rightarrow> 'e" where
  "ISYSALG h e = call_hook (hk_IPRMUPD h) (call_hook (hk_ISYSNODES h)
     (call_hook (hk_LOCALSYSALG h) (call_hook (hk_ICMDUPD h) e)))"

definition ISYSBASEALG :: "('e \<Rightarrow> bus_state) \<Rightarrow> ('e \<Rightarrow> bus_state \<Rightarrow> 'e) \<Rightarrow> ('e \<Rightarrow> tick_state) \<Rightarrow>
    ('e \<Rightarrow> tick_state \<Rightarrow> 'e) \<Rightarrow> bus_hooks \<Rightarrow> 'e base_hooks \<Rightarrow> bool \<Rightarrow> u8 option \<Rightarrow> 'e \<Rightarrow> u8 option \<times> 'e" where
  "ISYSBASEALG getb putb gett putt bh h power_on rx e =
     (let e1 = putt e (ISYSTEP (gett e));
          e2 = (if power_on then ISYSALG (hk_ISYSALG h) e1 else e1);
          e3 = (if \<not> b_busy (getb e2) then call_hook (hk_IEXCHANGECTRL h) e2 else e2);
          (out, b) = (case hk_IBUSEXCHANGE h of
                        Some f \<Rightarrow> f rx (getb e3) | None \<Rightarrow> IBUS_EXCHANGE bh rx (getb e3));
          e4 = putb e3 b
      in (out, call_hook (hk_ILOG h) (call_hook (hk_ICMDPWRUPD h) e4)))"

text \<open>
  Writing the model's parameters into the message: an override may supply a value, a parameter
  without one is skipped when the store has none; a result \<open>None\<close> is an unspecified conversion.
\<close>

fun export_loop :: "registry_t option \<Rightarrow> mem \<Rightarrow> (nat \<Rightarrow> fp option) option \<Rightarrow> nat \<Rightarrow> nat \<Rightarrow> context_t \<Rightarrow> context_t option" where
  "export_loop g m ov i 0 ctx = Some ctx"
| "export_loop g m ov i (Suc n) ctx =
     (let value = (case ov of None \<Rightarrow> None | Some f \<Rightarrow> f i) in
      case value of
        Some v \<Rightarrow> (case IMSGSET ctx i v of None \<Rightarrow> None | Some (_, ctx') \<Rightarrow> export_loop g m ov (i + 1) n ctx')
      | None \<Rightarrow>
          (case ISIMGET g m i (Some value0) of None \<Rightarrow> None
           | Some (st, x) \<Rightarrow>
               if st \<noteq> sim_ok then export_loop g m ov (i + 1) n ctx
               else (case x of None \<Rightarrow> None
                 | Some w \<Rightarrow> (case IMSGSET ctx i (ISIMF32 w) of None \<Rightarrow> None
                     | Some (_, ctx') \<Rightarrow> export_loop g m ov (i + 1) n ctx'))))"

definition ISYS_EXPORT_MODEL_PARAMS ::
    "registry_t option \<Rightarrow> mem \<Rightarrow> (nat \<Rightarrow> fp option) option \<Rightarrow> nat \<Rightarrow> nat \<Rightarrow> context_t \<Rightarrow> context_t option" where
  "ISYS_EXPORT_MODEL_PARAMS g m ov base_id n ctx = export_loop g m ov base_id n ctx"

subsection \<open>Well-formed states\<close>

text \<open>
  Every count is within its array, both frames lie inside their messages, the header views agree,
  and the response timer is at most its limit. \<open>same_wiring\<close>: nothing but contents and exchange
  state changed - the arrays keep their lengths, and role, addresses and sizes are as bound.
\<close>

definition bus_wf :: "bus_state \<Rightarrow> bool" where
  "bus_wf s \<longleftrightarrow>
     span_ok (b_cmd_buf s) (b_cmd_buf_blocks s) \<and> span_ok (b_prm_buf s) (b_prm_buf_blocks s) \<and>
     span_ok (b_cmd s) (b_cmd_blocks s) \<and> span_ok (b_prm s) (b_prm_blocks s) \<and>
     hdr_coherent (b_header s) \<and>
     b_cmd_frame_offset s + b_cmd_frame_blocks s \<le> b_cmd_blocks s \<and>
     b_prm_frame_offset s + b_prm_frame_blocks s \<le> b_prm_blocks s \<and>
     b_wait_clock s \<le> ARP_BUS_RESPONSE_TIMEOUT_FRAMES"

definition same_wiring :: "bus_state \<Rightarrow> bus_state \<Rightarrow> bool" where
  "same_wiring s s' \<longleftrightarrow>
     b_role s' = b_role s \<and> b_system_id s' = b_system_id s \<and> b_self_addr s' = b_self_addr s \<and>
     b_target_addr s' = b_target_addr s \<and> b_cmd_blocks s' = b_cmd_blocks s \<and>
     b_cmd_buf_blocks s' = b_cmd_buf_blocks s \<and> b_prm_blocks s' = b_prm_blocks s \<and>
     b_prm_buf_blocks s' = b_prm_buf_blocks s \<and>
     map_option length (b_cmd s') = map_option length (b_cmd s) \<and>
     map_option length (b_prm s') = map_option length (b_prm s) \<and>
     map_option length (b_cmd_buf s') = map_option length (b_cmd_buf s) \<and>
     map_option length (b_prm_buf s') = map_option length (b_prm_buf s)"

lemma same_wiring_refl [simp]: "same_wiring s s"
  by (simp add: same_wiring_def)

lemma same_wiring_trans: "same_wiring s t \<Longrightarrow> same_wiring t u \<Longrightarrow> same_wiring s u"
  by (simp add: same_wiring_def)

text \<open>A step is good if it keeps the wiring and leads from well-formed states to well-formed states.\<close>

definition good_step :: "bus_state \<Rightarrow> bus_state \<Rightarrow> bool" where
  "good_step s s' \<longleftrightarrow> same_wiring s s' \<and> (bus_wf s \<longrightarrow> bus_wf s')"

lemma good_step_trans: "good_step s t \<Longrightarrow> good_step t u \<Longrightarrow> good_step s u"
  by (auto simp: good_step_def intro: same_wiring_trans)

lemma span_ok_length: "span_ok bs n \<longleftrightarrow> (case map_option length bs of None \<Rightarrow> True | Some k \<Rightarrow> n \<le> k)"
  by (simp add: span_ok_def split: option.split)

lemma write_buffer_byte_length:
  "map_option length (fst (write_buffer_byte bs n b8 i v)) = map_option length bs"
  by (auto simp: write_buffer_byte_def dest: blk_write_byte_length split: option.split)

lemma copy_blocks_length:
  "map_option length (copy_blocks d dn doff src sn soff n) = map_option length d"
  by (cases d; cases src) (simp_all add: copy_blocks_Some)

lemma sys_copy_blocks_length:
  "map_option length (sys_copy_blocks d dn doff src sn soff n) = map_option length d"
  by (simp add: sys_copy_blocks_def copy_blocks_length)

lemma merge_slots_length:
  "map_option length (fst (merge_slots blk_rd blk_wr src sa da is dst)) = map_option length (fst dst)"
proof (induction "is" arbitrary: dst)
  case Nil
  show ?case by simp
next
  case (Cons i "is")
  have "map_option length (fst d') = map_option length (fst dst)" if "blk_wr dst (da i) v = Some d'" for v d'
    using that by (cases "fst dst") (auto simp: blk_wr_def split: prod.splits dest: write_value_length)
  then show ?case by (auto simp: Cons.IH split: option.split)
qed

lemma merge_same_wiring [simp]: "same_wiring s (merge_nonzero_cmd_fields s)"
  by (simp add: merge_nonzero_cmd_fields_def same_wiring_def merge_slots_length)

lemma merge_fields [simp]:
  "b_cmd_buf (merge_nonzero_cmd_fields s) = b_cmd_buf s" "b_prm_buf (merge_nonzero_cmd_fields s) = b_prm_buf s"
  "b_prm (merge_nonzero_cmd_fields s) = b_prm s" "b_header (merge_nonzero_cmd_fields s) = b_header s"
  "b_cmd_frame_offset (merge_nonzero_cmd_fields s) = b_cmd_frame_offset s"
  "b_cmd_frame_blocks (merge_nonzero_cmd_fields s) = b_cmd_frame_blocks s"
  "b_prm_frame_offset (merge_nonzero_cmd_fields s) = b_prm_frame_offset s"
  "b_prm_frame_blocks (merge_nonzero_cmd_fields s) = b_prm_frame_blocks s"
  "b_wait_clock (merge_nonzero_cmd_fields s) = b_wait_clock s"
  by (simp_all add: merge_nonzero_cmd_fields_def)

lemma hdr_write_byte_coherent:
  "hdr_write_byte h i v = Some h' \<Longrightarrow> hdr_coherent h'"
  by (auto simp: hdr_write_byte_def split: if_splits)

lemma good_reset: "good_step s (reset_to_idle s)"
  by (simp add: good_step_def same_wiring_def bus_wf_def reset_to_idle_def IBUS_RESET_FRAME_LAYOUT_def
      clamp_frame_blocks_def)

lemma good_write_header: "good_step s (write_header_byte s i v)"
  by (auto simp: good_step_def same_wiring_def bus_wf_def write_header_byte_def hdr_write_byte_coherent
      split: option.split)

lemma good_parse: "good_step s (IBUS_PARSE_STD_HEADER s)"
  by (auto simp: good_step_def same_wiring_def bus_wf_def IBUS_PARSE_STD_HEADER_def split: option.split)

lemma good_gen: "good_step s (IBUS_GEN_STD_HEADER s)"
  by (auto simp: good_step_def same_wiring_def bus_wf_def IBUS_GEN_STD_HEADER_def Let_def write_storage_def)

lemma good_merge: "good_step s (merge_nonzero_cmd_fields s)"
proof -
  have "same_wiring s (merge_nonzero_cmd_fields s)" by simp
  then show ?thesis by (auto simp: good_step_def bus_wf_def same_wiring_def span_ok_length)
qed

lemma good_store: "good_step s (store_rx_byte s v)"
proof -
  have "same_wiring s (store_rx_byte s v)"
    using write_buffer_byte_length [of "b_cmd_buf s" "b_cmd_buf_blocks s" "b_cmd_buf_u8 s" "unat (b_sub_clock s)" v]
      write_buffer_byte_length [of "b_prm_buf s" "b_prm_buf_blocks s" "b_prm_buf_u8 s" "unat (b_sub_clock s)" v]
    by (auto simp: store_rx_byte_def same_wiring_def Let_def split: prod.splits)
  then show ?thesis
    by (auto simp: good_step_def bus_wf_def same_wiring_def span_ok_length)
      (auto simp: store_rx_byte_def Let_def split: prod.splits)
qed

text \<open>Updates of exchange fields alone; the response timer may be set to a value within its limit.\<close>

lemma good_fields:
  assumes "same_wiring s s'"
    and "b_cmd_buf s' = b_cmd_buf s" "b_prm_buf s' = b_prm_buf s" "b_cmd s' = b_cmd s" "b_prm s' = b_prm s"
    and "b_header s' = b_header s"
    and "b_cmd_frame_offset s' = b_cmd_frame_offset s" "b_cmd_frame_blocks s' = b_cmd_frame_blocks s"
    and "b_prm_frame_offset s' = b_prm_frame_offset s" "b_prm_frame_blocks s' = b_prm_frame_blocks s"
    and "b_wait_clock s \<le> 10 \<Longrightarrow> b_wait_clock s' \<le> 10"
  shows "good_step s s'"
  using assms by (simp add: good_step_def bus_wf_def same_wiring_def)

lemma good_commit: "good_step s (s\<lparr>b_prm := sys_copy_blocks (b_prm s) dn doff src sn soff n\<rparr>)"
  by (simp add: good_step_def bus_wf_def same_wiring_def span_ok_length sys_copy_blocks_length)

lemma good_IRX_SOF: "good_step s (IRX_SOF rx s)"
  by (intro good_fields) (auto simp: IRX_SOF_def same_wiring_def Let_def)

lemma good_IRX_HEADER: "good_step s (IRX_HEADER no_bus_hooks rx s)"
proof (cases rx)
  case None
  then show ?thesis by (simp add: IRX_HEADER_def good_step_def)
next
  case (Some v)
  have 0: "good_step s ((write_header_byte s 0 v)\<lparr>b_sub_clock := 1, b_wait_clock := 0\<rparr>)"
    by (rule good_step_trans [OF good_write_header good_fields]) (simp_all add: same_wiring_def)
  let ?s1 = "(write_header_byte s 1 v)\<lparr>b_wait_clock := 0\<rparr>"
  let ?s2 = "IBUS_PARSE_STD_HEADER ?s1"
  have "good_step s ?s1"
    by (rule good_step_trans [OF good_write_header good_fields]) (simp_all add: same_wiring_def)
  then have "good_step s ?s2" by (rule good_step_trans [OF _ good_parse])
  then have 1: "good_step s (?s2\<lparr>b_rx_flag := f, b_sub_clock := 0\<rparr>)" for f
    by (rule good_step_trans [OF _ good_fields]) (simp_all add: same_wiring_def)
  show ?thesis
    using 0 1 by (simp add: IRX_HEADER_def Some no_bus_hooks_def Let_def good_step_def)
qed

lemma good_IRX_DATA: "good_step s (IRX_DATA rx s)"
proof (cases rx)
  case None
  then show ?thesis by (simp add: IRX_DATA_def good_step_def)
next
  case (Some v)
  have "good_step s (s\<lparr>b_wait_clock := 0\<rparr>)" by (intro good_fields) (simp_all add: same_wiring_def)
  then have g: "good_step s (store_rx_byte (s\<lparr>b_wait_clock := 0\<rparr>) v)" by (rule good_step_trans [OF _ good_store])
  show ?thesis
    unfolding IRX_DATA_def Some option.case Let_def
    by (rule good_step_trans [OF g good_fields]) (simp_all add: same_wiring_def)
qed

lemma good_IRX_EOF: "good_step s (IRX_EOF no_bus_hooks rx s)"
proof (cases rx)
  case None
  then show ?thesis by (simp add: IRX_EOF_def good_step_def)
next
  case (Some v)
  have m: "good_step t (mark_result t r)" for t r
    by (intro good_fields) (simp_all add: mark_result_def same_wiring_def)
  have r: "good_step t (to_response t f)" for t f
    by (intro good_fields) (simp_all add: to_response_def same_wiring_def)
  show ?thesis
    unfolding IRX_EOF_def Some option.case Let_def
    using good_step_trans [OF m good_reset] good_reset good_step_trans [OF good_merge r] r
      good_step_trans [OF good_commit good_step_trans [OF m good_reset]] good_step_trans [OF good_commit good_reset]
    by (simp add: no_bus_hooks_def call_hook_def)
qed

lemma wait_clock_bound: "(w::u16) \<le> 10 \<Longrightarrow> w + 1 \<le> 10 \<longleftrightarrow> \<not> 10 < w + 1"
  by auto

lemma good_RX_EXCHANGE: "good_step s (IBUS_RX_EXCHANGE no_bus_hooks rx s)"
proof -
  let ?w = "b_role s = bus_master \<and> b_busy s"
  let ?s1 = "if ?w then s\<lparr>b_wait_clock := b_wait_clock s + 1\<rparr> else s"
  show ?thesis
  proof (cases "?w \<and> b_wait_clock ?s1 > 10")
    case True
    have "good_step s (reset_to_idle (mark_result (s\<lparr>b_wait_clock := b_wait_clock s + 1\<rparr>) res_timeout))"
      by (simp add: good_step_def same_wiring_def bus_wf_def reset_to_idle_def IBUS_RESET_FRAME_LAYOUT_def
          clamp_frame_blocks_def mark_result_def)
    with True show ?thesis by (auto simp: IBUS_RX_EXCHANGE_def Let_def no_bus_hooks_def call_hook_def)
  next
    case False
    then have g: "good_step s ?s1"
      by (intro good_fields) (auto simp: same_wiring_def not_less)
    show ?thesis
      using good_step_trans [OF g good_IRX_SOF] good_step_trans [OF g good_IRX_HEADER]
        good_step_trans [OF g good_IRX_DATA] good_step_trans [OF g good_IRX_EOF] False
      by (cases "b_rx_flag s") (auto simp: IBUS_RX_EXCHANGE_def Let_def)
  qed
qed

lemma good_TX_EXCHANGE: "good_step s (snd (IBUS_TX_EXCHANGE no_bus_hooks s))"
proof -
  have g: "good_step s ((IBUS_GEN_STD_HEADER s)\<lparr>b_sub_clock := 1, b_wait_clock := 0\<rparr>)"
    by (rule good_step_trans [OF good_gen good_fields]) (simp_all add: same_wiring_def)
  have "good_step s (snd (ITX_HEADER no_bus_hooks s))"
    using g by (auto simp: ITX_HEADER_def no_bus_hooks_def Let_def intro!: good_fields)
      (simp_all add: same_wiring_def)
  moreover have "good_step s (snd (ITX_SOF s))" "good_step s (snd (ITX_DATA s))" "good_step s (snd (ITX_EOF s))"
    by (intro good_fields; simp add: ITX_SOF_def ITX_DATA_def ITX_EOF_def same_wiring_def Let_def)+
  ultimately show ?thesis by (simp add: IBUS_TX_EXCHANGE_def split: tx_flag_t.split)
qed

lemma good_EXCHANGE: "good_step s (snd (IBUS_EXCHANGE no_bus_hooks rx s))"
  using good_RX_EXCHANGE good_TX_EXCHANGE
  by (auto simp: IBUS_EXCHANGE_def IBUS_BYPASS_def no_bus_hooks_def call_hook_def good_step_def
      split: exchange_flag_t.split)

subsection \<open>Properties\<close>

text \<open>
  C21: every tick of the exchange, in any state and on any input, keeps the state well-formed and
  the wiring unchanged (so no array is ever accessed outside of its length), and a byte is written
  only in the transmit state.
\<close>

theorem exchange_preserves_wf:
  assumes "bus_wf s"
  shows "bus_wf (snd (IBUS_EXCHANGE no_bus_hooks rx s)) \<and> same_wiring s (snd (IBUS_EXCHANGE no_bus_hooks rx s)) \<and>
    (b_exchange_flag s \<noteq> ex_tx \<longrightarrow> fst (IBUS_EXCHANGE no_bus_hooks rx s) = None)"
  using assms good_EXCHANGE [of s rx]
  by (auto simp: good_step_def IBUS_EXCHANGE_def split: exchange_flag_t.splits)

theorem exchange_preserves_wf_witness:
  "let s = IBUS_BIND_STD bus_device SYS_PSS 2 1 (Some 0, Some (0, 0)) None (Some (replicate 8 0)) 8
             None (Some (replicate 15 0)) 15 (Some (replicate 8 0)) (Some (replicate 15 0)) 8 15
   in bus_wf (snd (IBUS_EXCHANGE no_bus_hooks (Some ARP_BUS_SOF) s)) \<and>
      b_rx_flag (snd (IBUS_EXCHANGE no_bus_hooks (Some ARP_BUS_SOF) s)) = rx_header"
proof -
  let ?s = "IBUS_BIND_STD bus_device SYS_PSS 2 1 (Some 0, Some (0, 0)) None (Some (replicate 8 0)) 8
             None (Some (replicate 15 0)) 15 (Some (replicate 8 0)) (Some (replicate 15 0)) 8 15"
  have z: "byte_lo 0 = 0" "byte_hi 0 = 0" by code_simp+
  have "bus_wf ?s"
    by (simp add: bus_wf_def IBUS_BIND_STD_def bus_state0_def span_ok_def hdr_coherent_def clamp_frame_blocks_def z)
  from exchange_preserves_wf [OF this, of "Some ARP_BUS_SOF"] show ?thesis
    by (simp add: IBUS_EXCHANGE_def IBUS_RX_EXCHANGE_def IRX_SOF_def IBUS_BIND_STD_def bus_state0_def Let_def)
qed

text \<open>
  C10: received data is committed only by the end of a frame. A tick changes the commands or the
  parameters of the node only if it reads the end-of-frame byte of a frame that was addressed to
  the node, and it changes a receive buffer only while such a frame's data arrives.
\<close>

theorem commit_only_after_eof:
  "(b_cmd (snd (IBUS_EXCHANGE no_bus_hooks rx s)) \<noteq> b_cmd s \<or> b_prm (snd (IBUS_EXCHANGE no_bus_hooks rx s)) \<noteq> b_prm s \<longrightarrow>
      b_exchange_flag s = ex_rx \<and> b_rx_flag s = rx_eof \<and> rx = Some ARP_BUS_EOF \<and> b_adr_flag s) \<and>
   (b_cmd_buf (snd (IBUS_EXCHANGE no_bus_hooks rx s)) \<noteq> b_cmd_buf s \<or>
    b_prm_buf (snd (IBUS_EXCHANGE no_bus_hooks rx s)) \<noteq> b_prm_buf s \<longrightarrow>
      b_exchange_flag s = ex_rx \<and> b_rx_flag s = rx_data \<and> rx \<noteq> None \<and> b_adr_flag s)"
proof (cases "b_exchange_flag s")
  case ex_tx
  then show ?thesis
    by (cases "b_tx_flag s")
      (auto simp: IBUS_EXCHANGE_def IBUS_TX_EXCHANGE_def ITX_SOF_def ITX_HEADER_def ITX_DATA_def ITX_EOF_def
        Let_def IBUS_GEN_STD_HEADER_def split: if_splits)
next
  case ex_bypass
  then show ?thesis by (simp add: IBUS_EXCHANGE_def IBUS_BYPASS_def)
next
  case ex_rx
  let ?w = "b_role s = bus_master \<and> b_busy s"
  define s1 where "s1 = (if ?w then s\<lparr>b_wait_clock := b_wait_clock s + 1\<rparr> else s)"
  have f: "b_cmd s1 = b_cmd s" "b_prm s1 = b_prm s" "b_cmd_buf s1 = b_cmd_buf s" "b_prm_buf s1 = b_prm_buf s"
    "b_rx_flag s1 = b_rx_flag s" "b_adr_flag s1 = b_adr_flag s"
    by (simp_all add: s1_def)
  have r: "b_cmd (reset_to_idle t) = b_cmd t" "b_prm (reset_to_idle t) = b_prm t"
    "b_cmd_buf (reset_to_idle t) = b_cmd_buf t" "b_prm_buf (reset_to_idle t) = b_prm_buf t" for t
    by (simp_all add: reset_to_idle_def IBUS_RESET_FRAME_LAYOUT_def)
  have step: "IBUS_RX_EXCHANGE no_bus_hooks rx s =
      (if ?w \<and> b_wait_clock s1 > 10 then reset_to_idle (mark_result s1 res_timeout)
       else (case b_rx_flag s1 of rx_sof \<Rightarrow> IRX_SOF rx s1 | rx_header \<Rightarrow> IRX_HEADER no_bus_hooks rx s1
             | rx_data \<Rightarrow> IRX_DATA rx s1 | rx_eof \<Rightarrow> IRX_EOF no_bus_hooks rx s1))"
    unfolding IBUS_RX_EXCHANGE_def Let_def s1_def [symmetric] no_hooks call_hook_None ..
  show ?thesis
    using ex_rx f
    by (cases "b_rx_flag s")
      (auto simp: IBUS_EXCHANGE_def step r mark_result_def IRX_SOF_def Let_def
        IRX_HEADER_def write_header_byte_def IBUS_PARSE_STD_HEADER_def
        IRX_DATA_def store_rx_byte_def IRX_EOF_def to_response_def split: if_splits option.splits prod.splits)
qed

theorem commit_only_after_eof_witness:
  "let s = (IBUS_BIND_STD bus_master SYS_CS 1 2 (Some 0, Some (0, 0)) None (Some [0]) 1 None (Some [5]) 1
             (Some [0]) (Some [0]) 1 1)\<lparr>b_rx_flag := rx_eof, b_adr_flag := True, b_msg_flag := ARP_FLAG_DATA_RESP\<rparr>
   in b_prm (snd (IBUS_EXCHANGE no_bus_hooks (Some ARP_BUS_EOF) s)) = Some [5] \<and> b_rx_flag s = rx_eof"
proof -
  let ?s = "(IBUS_BIND_STD bus_master SYS_CS 1 2 (Some 0, Some (0, 0)) None (Some [0]) 1 None (Some [5]) 1
             (Some [0]) (Some [0]) 1 1)\<lparr>b_rx_flag := rx_eof, b_adr_flag := True, b_msg_flag := ARP_FLAG_DATA_RESP\<rparr>"
  have "b_prm (snd (IBUS_EXCHANGE no_bus_hooks (Some ARP_BUS_EOF) ?s)) = Some [5]" by code_simp
  moreover have "b_prm ?s \<noteq> Some [5]" by code_simp
  ultimately show ?thesis using commit_only_after_eof [of "Some ARP_BUS_EOF" ?s] by simp
qed

end
