(* ===== verification/BusLink.thy ===== *)
theory BusLink
  imports BusExchange
begin

text \<open>
  Whole frames and whole exchanges. \<open>bus_node\<close> is what one tick of a system does on the bus: it sets
  \<open>writer_tick\<close> to the tick and runs \<open>IBUS_EXCHANGE\<close> with the hooks both programs use (none). The
  theory runs it over lists of inputs: what a node in the transmit state puts on the bus, what a
  node in the receive state makes of a frame, and, over the simulated bus, a complete request and
  response between a master and a device.
\<close>

definition bus_node :: "u32 \<Rightarrow> bus_state node_fn" where
  "bus_node t rx s = IBUS_EXCHANGE no_bus_hooks rx (s\<lparr>b_writer_tick := t\<rparr>)"

definition block_bytes :: "u16 list \<Rightarrow> u8 list" where
  "block_bytes xs = concat (map (\<lambda>x. [byte_lo x, byte_hi x]) xs)"

definition frame_bytes :: "u8 \<Rightarrow> u8 \<Rightarrow> u8 \<Rightarrow> u8 \<Rightarrow> u8 list \<Rightarrow> u8 list" where
  "frame_bytes addr flag marker n payload =
     [ARP_BUS_SOF, byte_lo (hdr_make addr flag marker n), byte_hi (hdr_make addr flag marker n)] @ payload @ [ARP_BUS_EOF]"

definition bus_idle :: "bus_state \<Rightarrow> bool" where
  "bus_idle s \<longleftrightarrow> b_exchange_flag s = ex_rx \<and> b_rx_flag s = rx_sof \<and> b_tx_flag s = tx_sof \<and> \<not> b_busy s"

lemma block_bytes_simps [simp]:
  "block_bytes [] = []" "block_bytes (x # xs) = byte_lo x # byte_hi x # block_bytes xs"
  by (simp_all add: block_bytes_def)

lemma length_block_bytes [simp]: "length (block_bytes xs) = 2 * length xs"
  by (induction xs) simp_all

lemma nth_block_bytes:
  "i < 2 * length xs \<Longrightarrow> block_bytes xs ! i = (if even i then byte_lo (xs ! (i div 2)) else byte_hi (xs ! (i div 2)))"
proof (induction xs arbitrary: i)
  case Nil
  then show ?case by simp
next
  case (Cons x xs)
  show ?case
  proof (cases "i < 2")
    case True
    then have "i = 0 \<or> i = 1" by auto
    then show ?thesis by auto
  next
    case False
    then obtain j where "i = Suc (Suc j)" by (metis add_2_eq_Suc le_add_diff_inverse not_less)
    with Cons show ?thesis by simp
  qed
qed

subsection \<open>One tick in the receive state\<close>

lemma bus_node_writer [simp]: "bus_node t rx (s\<lparr>b_writer_tick := w\<rparr>) = bus_node t rx s"
  by (simp add: bus_node_def)

lemma wait_step: "(w::u16) < 10 \<Longrightarrow> \<not> 10 < w + 1"
  by (metis inc_le linorder_not_le)

definition rx_entry :: "u32 \<Rightarrow> bus_state \<Rightarrow> bus_state" where
  "rx_entry t s = (if b_role s = bus_master \<and> b_busy s
     then s\<lparr>b_writer_tick := t, b_wait_clock := b_wait_clock s + 1\<rparr> else s\<lparr>b_writer_tick := t\<rparr>)"

lemma rx_step:
  assumes "b_exchange_flag s = ex_rx" "b_wait_clock s < 10"
  shows "bus_node t rx s = (None, case b_rx_flag s of
      rx_sof \<Rightarrow> IRX_SOF rx (rx_entry t s) | rx_header \<Rightarrow> IRX_HEADER no_bus_hooks rx (rx_entry t s)
    | rx_data \<Rightarrow> IRX_DATA rx (rx_entry t s) | rx_eof \<Rightarrow> IRX_EOF no_bus_hooks rx (rx_entry t s))"
  using assms wait_step [OF assms(2)]
  by (cases "b_rx_flag s") (auto simp: bus_node_def IBUS_EXCHANGE_def IBUS_RX_EXCHANGE_def Let_def rx_entry_def)

lemma rx_silent:
  assumes "b_exchange_flag s = ex_rx" "b_wait_clock s < 10"
  shows "bus_node t None s = (None, rx_entry t s)"
  by (auto simp: rx_step [OF assms] IRX_SOF_def IRX_HEADER_def IRX_DATA_def IRX_EOF_def split: rx_flag_t.split)

subsection \<open>The response timer\<close>

lemma silent_run:
  assumes "b_role s = bus_master" "b_busy s" "b_exchange_flag s = ex_rx" "unat (b_wait_clock s) + k \<le> 10"
  shows "\<exists>s'. node_run bus_node t (replicate k None) s = (replicate k None, s') \<and>
     unat (b_wait_clock s') = unat (b_wait_clock s) + k \<and>
     (\<exists>w. s' = s\<lparr>b_wait_clock := b_wait_clock s', b_writer_tick := w\<rparr>)"
  using assms
proof (induction k arbitrary: s t)
  case 0
  show ?case by (auto intro!: exI [of _ "b_writer_tick s"])
next
  case (Suc k)
  have lt: "b_wait_clock s < 10" using Suc.prems(4) by (simp add: word_less_nat_alt)
  let ?s1 = "s\<lparr>b_writer_tick := t, b_wait_clock := b_wait_clock s + 1\<rparr>"
  have st: "bus_node t None s = (None, ?s1)"
    using rx_silent [OF Suc.prems(3) lt] Suc.prems(1,2) by (simp add: rx_entry_def)
  have w: "unat (b_wait_clock s + 1) = unat (b_wait_clock s) + 1"
    using Suc.prems(4) by (simp add: unat_word_ariths)
  obtain s' where s': "node_run bus_node (t + 1) (replicate k None) ?s1 = (replicate k None, s')"
    "unat (b_wait_clock s') = unat (b_wait_clock ?s1) + k"
    "\<exists>w. s' = ?s1\<lparr>b_wait_clock := b_wait_clock s', b_writer_tick := w\<rparr>"
    using Suc.IH [of ?s1 "t + 1"] Suc.prems w by auto
  show ?case
    using s' w by (auto simp: st)
qed

subsection \<open>Sending a frame\<close>

definition tx_payload :: "bus_state \<Rightarrow> u8 list" where
  "tx_payload s = map (\<lambda>i. tx_data_byte (s\<lparr>b_sub_clock := of_nat i\<rparr>)) [0..<2 * unat (calc_nblocks s)]"

definition tx_length :: "bus_state \<Rightarrow> nat" where
  "tx_length s = 4 + 2 * unat (calc_nblocks s)"

definition tx_frame :: "u32 \<Rightarrow> bus_state \<Rightarrow> u8 list" where
  "tx_frame t s = frame_bytes (b_target_addr s) (b_msg_flag s) (ucast (t + 1)) (calc_nblocks s) (tx_payload s)"

text \<open>The state after the frame: a device is idle, a master waits for the response.\<close>

definition after_tx :: "u32 \<Rightarrow> bus_state \<Rightarrow> bus_state" where
  "after_tx t s = s\<lparr>b_header := write_raw (b_header s)
         (hdr_make (b_target_addr s) (b_msg_flag s) (ucast (t + 1)) (calc_nblocks s)),
       b_n_blocks := calc_nblocks s, b_exchange_flag := ex_rx, b_rx_flag := rx_sof, b_tx_flag := tx_sof,
       b_sub_clock := 0, b_wait_clock := 0, b_writer_tick := t + of_nat (tx_length s) - 1,
       b_msg_flag := (if b_role s = bus_device then ARP_FLAG_CMD_REQ
                      else if b_msg_flag s = ARP_FLAG_CMD_REQ then ARP_FLAG_CMD_RESP
                      else if b_msg_flag s = ARP_FLAG_DATA_REQ then ARP_FLAG_DATA_RESP
                      else ARP_FLAG_CMD_REQ),
       b_busy := (b_role s = bus_master \<and> (b_msg_flag s = ARP_FLAG_CMD_REQ \<or> b_msg_flag s = ARP_FLAG_DATA_REQ))\<rparr>"

lemma tx_step: "b_exchange_flag s = ex_tx \<Longrightarrow> bus_node t rx s = IBUS_TX_EXCHANGE no_bus_hooks (s\<lparr>b_writer_tick := t\<rparr>)"
  by (simp add: bus_node_def IBUS_EXCHANGE_def)

lemma tx_data_byte_other [simp]:
  "tx_data_byte (s\<lparr>b_writer_tick := w\<rparr>) = tx_data_byte s" "tx_data_byte (s\<lparr>b_wait_clock := x\<rparr>) = tx_data_byte s"
  "tx_data_byte (s\<lparr>b_tx_flag := y\<rparr>) = tx_data_byte s" "tx_data_byte (s\<lparr>b_n_blocks := n\<rparr>) = tx_data_byte s"
  "tx_data_byte (s\<lparr>b_header := h\<rparr>) = tx_data_byte s" "tx_data_byte (s\<lparr>b_busy := b\<rparr>) = tx_data_byte s"
  by (simp_all add: tx_data_byte_def com_capacity_bytes_def par_capacity_bytes_def cmd_frame_blocks_def
      prm_frame_blocks_def Let_def cong: if_cong)

lemma tx_data_run:
  assumes "b_exchange_flag s = ex_tx" "b_tx_flag s = tx_data" "b_sub_clock s = of_nat i"
    "i + length xs = 2 * unat (b_n_blocks s)" "xs \<noteq> []"
  shows "node_run bus_node t xs s =
    (map (\<lambda>j. Some (tx_data_byte (s\<lparr>b_sub_clock := of_nat j\<rparr>))) [i..<i + length xs],
     s\<lparr>b_sub_clock := of_nat (i + length xs), b_wait_clock := 0, b_tx_flag := tx_eof,
       b_writer_tick := t + of_nat (length xs) - 1\<rparr>)"
  using assms
proof (induction xs arbitrary: s t i)
  case Nil
  then show ?case by simp
next
  case (Cons x xs)
  have lim: "unat (b_n_blocks s) < 256" using unsigned_less [of "b_n_blocks s"] by simp
  let ?s1 = "s\<lparr>b_writer_tick := t, b_sub_clock := of_nat (Suc i), b_wait_clock := 0\<rparr>"
  have sc: "b_sub_clock s + 1 = of_nat (Suc i)" using Cons.prems(3) by simp
  have un: "unat (of_nat (Suc i) :: u16) = Suc i"
    unfolding unsigned_of_nat using Cons.prems(4) lim by (subst take_bit_nat_eq_self) simp_all
  have byte: "tx_data_byte s = tx_data_byte (s\<lparr>b_sub_clock := of_nat i\<rparr>)"
    using Cons.prems(3) by (metis bus_state.surjective bus_state.update_convs(26))
  have step: "bus_node t x s = (Some (tx_data_byte (s\<lparr>b_sub_clock := of_nat i\<rparr>)),
      if Suc i \<ge> 2 * unat (b_n_blocks s) then ?s1\<lparr>b_tx_flag := tx_eof\<rparr> else ?s1)"
    using Cons.prems(1,2) un
    by (simp add: tx_step IBUS_TX_EXCHANGE_def ITX_DATA_def Let_def expected_bytes_def byte sc
        del: of_nat_Suc)
  have upt: "[i..<i + length (x # xs)] = i # [Suc i..<Suc i + length xs]"
    using upt_conv_Cons [of i "i + length (x # xs)"] by simp
  show ?case
  proof (cases "xs = []")
    case True
    with Cons.prems(4) step show ?thesis by (simp add: upt_conv_Cons)
  next
    case False
    with Cons.prems(4) have "Suc i < 2 * unat (b_n_blocks s)" by (cases xs) auto
    with step have st: "bus_node t x s = (Some (tx_data_byte (s\<lparr>b_sub_clock := of_nat i\<rparr>)), ?s1)" by simp
    have "node_run bus_node (t + 1) xs ?s1 =
      (map (\<lambda>j. Some (tx_data_byte (?s1\<lparr>b_sub_clock := of_nat j\<rparr>))) [Suc i..<Suc i + length xs],
       ?s1\<lparr>b_sub_clock := of_nat (Suc i + length xs), b_wait_clock := 0, b_tx_flag := tx_eof,
         b_writer_tick := t + 1 + of_nat (length xs) - 1\<rparr>)"
      by (rule Cons.IH) (use Cons.prems False in \<open>simp_all\<close>)
    moreover have "tx_data_byte (?s1\<lparr>b_sub_clock := of_nat j\<rparr>) = tx_data_byte (s\<lparr>b_sub_clock := of_nat j\<rparr>)" for j
      by (simp add: tx_data_byte_def com_capacity_bytes_def par_capacity_bytes_def cmd_frame_blocks_def
          prm_frame_blocks_def Let_def cong: if_cong)
    ultimately show ?thesis
      unfolding upt node_run.simps st Let_def by (simp add: add.assoc)
  qed
qed

lemma calc_nblocks_other [simp]:
  "calc_nblocks (s\<lparr>b_writer_tick := w\<rparr>) = calc_nblocks s" "calc_nblocks (s\<lparr>b_wait_clock := x\<rparr>) = calc_nblocks s"
  "calc_nblocks (s\<lparr>b_tx_flag := y\<rparr>) = calc_nblocks s" "calc_nblocks (s\<lparr>b_sub_clock := n\<rparr>) = calc_nblocks s"
  "calc_nblocks (s\<lparr>b_busy := b\<rparr>) = calc_nblocks s"
  by (simp_all add: calc_nblocks_def cmd_frame_blocks_def prm_frame_blocks_def)

lemma tx_done_eof:
  assumes "b_exchange_flag s = ex_tx" "b_tx_flag s = tx_eof"
  shows "bus_node t x s = (Some ARP_BUS_EOF, snd (ITX_EOF (s\<lparr>b_writer_tick := t\<rparr>)))"
  using assms by (simp add: tx_step IBUS_TX_EXCHANGE_def ITX_EOF_def Let_def)

lemma tx_frame_run:
  assumes "b_exchange_flag s = ex_tx" "b_tx_flag s = tx_sof" "fst (b_header s) \<noteq> None \<or> snd (b_header s) \<noteq> None"
    "length xs = tx_length s"
  shows "node_run bus_node t xs s = (map Some (tx_frame t s), after_tx t s)"
proof -
  let ?n = "calc_nblocks s" and ?N = "2 * unat (calc_nblocks s)"
  let ?h = "hdr_make (b_target_addr s) (b_msg_flag s) (ucast (t + 1)) ?n"
  obtain x0 x1 x2 ys y where xs: "xs = [x0, x1, x2] @ ys @ [y]" and ys: "length ys = ?N"
  proof -
    obtain x0 x1 x2 zs where z: "xs = x0 # x1 # x2 # zs" "length zs = Suc ?N"
      using assms(4) by (auto simp: tx_length_def numeral_eq_Suc length_Suc_conv)
    then obtain ys y where "zs = ys @ [y]" "length ys = ?N" by (metis length_Suc_conv_rev)
    with z that show ?thesis by simp
  qed
  define s1 where "s1 = s\<lparr>b_writer_tick := t, b_tx_flag := tx_header, b_sub_clock := 0, b_wait_clock := 0,
     b_busy := (b_role s = bus_master \<or> b_busy s)\<rparr>"
  define s2 where "s2 = s1\<lparr>b_writer_tick := t + 1, b_n_blocks := ?n, b_header := write_raw (b_header s) ?h, b_sub_clock := 1\<rparr>"
  define s3 where "s3 = s2\<lparr>b_writer_tick := t + 2, b_tx_flag := (if ?n > 0 then tx_data else tx_eof), b_sub_clock := 0\<rparr>"
  define s4 where "s4 = s3\<lparr>b_writer_tick := t + 2 + of_nat ?N, b_tx_flag := tx_eof, b_sub_clock := of_nat ?N\<rparr>"
  have 1: "bus_node t x0 s = (Some ARP_BUS_SOF, s1)"
    using assms(1,2) by (simp add: tx_step IBUS_TX_EXCHANGE_def ITX_SOF_def Let_def s1_def)
  have n1: "calc_nblocks (s1\<lparr>b_writer_tick := t + 1\<rparr>) = ?n" by (simp add: s1_def)
  have 2: "bus_node (t + 1) x1 s1 = (Some (byte_lo ?h), s2)"
    using assms(1,3) n1
    by (simp add: s1_def s2_def tx_step IBUS_TX_EXCHANGE_def ITX_HEADER_def Let_def IBUS_GEN_STD_HEADER_def)
      (auto simp: write_storage_def hdr_value0_def header_byte_def hdr_read_byte_def k_header_bytes_def)
  have 3: "bus_node (t + 2) x2 s2 = (Some (byte_hi ?h), s3)"
    using assms(1,3)
    by (simp add: s1_def s2_def s3_def tx_step IBUS_TX_EXCHANGE_def ITX_HEADER_def Let_def)
      (simp add: header_byte_def hdr_read_byte_def k_header_bytes_def)
  have 4: "node_run bus_node (t + 3) ys s3 = (map Some (tx_payload s), s4)"
  proof (cases "?n = 0")
    case True
    with ys have "ys = []" by simp
    with True show ?thesis by (simp add: s4_def s3_def tx_payload_def)
  next
    case False
    then have pos: "?n > 0" by (simp add: word_gt_0)
    then have "ys \<noteq> []" using ys False by (auto simp: unat_eq_0)
    have b: "tx_data_byte (s3\<lparr>b_sub_clock := of_nat j\<rparr>) = tx_data_byte (s\<lparr>b_sub_clock := of_nat j\<rparr>)" for j
      by (simp add: s3_def s2_def s1_def tx_data_byte_def com_capacity_bytes_def par_capacity_bytes_def
          cmd_frame_blocks_def prm_frame_blocks_def Let_def cong: if_cong)
    have "node_run bus_node (t + 3) ys s3 =
      (map (\<lambda>j. Some (tx_data_byte (s3\<lparr>b_sub_clock := of_nat j\<rparr>))) [0..<0 + length ys],
       s3\<lparr>b_sub_clock := of_nat (0 + length ys), b_wait_clock := 0, b_tx_flag := tx_eof,
         b_writer_tick := t + 3 + of_nat (length ys) - 1\<rparr>)"
      by (rule tx_data_run)
        (use assms pos \<open>ys \<noteq> []\<close> ys in \<open>simp_all add: s3_def s2_def s1_def\<close>)
    then show ?thesis unfolding b using pos ys by (simp add: tx_payload_def s4_def s3_def s2_def s1_def)
  qed
  have 5: "bus_node (t + 3 + of_nat ?N) y s4 = (Some ARP_BUS_EOF, after_tx t s)"
  proof -
    have "b_exchange_flag s4 = ex_tx" "b_tx_flag s4 = tx_eof"
      using assms(1) by (simp_all add: s4_def s3_def s2_def s1_def)
    then have "bus_node (t + 3 + of_nat ?N) y s4 =
        (Some ARP_BUS_EOF, snd (ITX_EOF (s4\<lparr>b_writer_tick := t + 3 + of_nat ?N\<rparr>)))" by (rule tx_done_eof)
    also have "snd (ITX_EOF (s4\<lparr>b_writer_tick := t + 3 + of_nat ?N\<rparr>)) = after_tx t s"
      by (cases "b_role s") (simp_all add: ITX_EOF_def Let_def after_tx_def s4_def s3_def s2_def s1_def tx_length_def)
    finally show ?thesis .
  qed
  have "node_run bus_node (t + 3 + of_nat ?N) [y] s4 = ([Some ARP_BUS_EOF], after_tx t s)"
    unfolding node_run.simps 5 by (simp add: Let_def)
  then have "node_run bus_node (t + 3) (ys @ [y]) s3 = (map Some (tx_payload s) @ [Some ARP_BUS_EOF], after_tx t s)"
    unfolding node_run_append 4 ys by (simp add: Let_def)
  then show ?thesis
    unfolding xs by (simp add: 1 2 3 add.assoc tx_frame_def frame_bytes_def Let_def)
qed

text \<open>The payload: the first blocks of the buffer that the message flag selects.\<close>

definition tx_buffer :: "bus_state \<Rightarrow> u16 list" where
  "tx_buffer s =
     (if b_msg_flag s = ARP_FLAG_CMD_REQ then take (cmd_frame_blocks s) (case b_cmd_buf s of None \<Rightarrow> [] | Some xs \<Rightarrow> xs)
      else if b_msg_flag s = ARP_FLAG_DATA_RESP then take (prm_frame_blocks s) (case b_prm_buf s of None \<Rightarrow> [] | Some xs \<Rightarrow> xs)
      else [])"

text \<open>Buffers bound, and frames that fit the block count of a header.\<close>

definition buffers_ok :: "bus_state \<Rightarrow> bool" where
  "buffers_ok s \<longleftrightarrow>
     b_cmd_buf s \<noteq> None \<and> b_prm_buf s \<noteq> None \<and> 0 < b_cmd_buf_blocks s \<and> 0 < b_prm_buf_blocks s \<and>
     cmd_frame_blocks s < 32 \<and> prm_frame_blocks s < 32 \<and>
     (fst (b_header s) \<noteq> None \<or> snd (b_header s) \<noteq> None)"

lemma frame_blocks_bound:
  "0 < b_cmd_buf_blocks s \<Longrightarrow> cmd_frame_blocks s \<le> b_cmd_buf_blocks s"
  "0 < b_prm_buf_blocks s \<Longrightarrow> prm_frame_blocks s \<le> b_prm_buf_blocks s"
  by (simp_all add: cmd_frame_blocks_def prm_frame_blocks_def clamp_frame_blocks_def)

lemma unat_small: "n < 32 \<Longrightarrow> unat (of_nat n :: u8) = n"
  unfolding unsigned_of_nat by (subst take_bit_nat_eq_self) simp_all

lemma tx_payload_buffer:
  assumes "bus_wf s" "buffers_ok s"
  shows "tx_payload s = block_bytes (tx_buffer s)" "unat (calc_nblocks s) = length (tx_buffer s)"
proof -
  obtain cb pb where b: "b_cmd_buf s = Some cb" "b_prm_buf s = Some pb"
    using assms(2) by (auto simp: buffers_ok_def)
  have len: "cmd_frame_blocks s \<le> length cb" "prm_frame_blocks s \<le> length pb"
    using assms frame_blocks_bound [of s] b by (auto simp: buffers_ok_def bus_wf_def span_ok_def)
  have small: "cmd_frame_blocks s < 32" "prm_frame_blocks s < 32" using assms(2) by (auto simp: buffers_ok_def)
  show n: "unat (calc_nblocks s) = length (tx_buffer s)"
    using len small b by (simp add: calc_nblocks_def tx_buffer_def unat_small)
  have cap: "com_capacity_bytes (s\<lparr>b_sub_clock := c\<rparr>) = 2 * cmd_frame_blocks s"
    "par_capacity_bytes (s\<lparr>b_sub_clock := c\<rparr>) = 2 * prm_frame_blocks s" for c
    by (simp_all add: com_capacity_bytes_def par_capacity_bytes_def cmd_frame_blocks_def prm_frame_blocks_def)
  have un: "unat (of_nat i :: u16) = i" if "i < 64" for i
    unfolding unsigned_of_nat using that by (subst take_bit_nat_eq_self) simp_all
  have byte: "tx_data_byte (s\<lparr>b_sub_clock := of_nat i\<rparr>) = block_bytes (tx_buffer s) ! i"
    if lt: "i < 2 * length (tx_buffer s)" for i
  proof -
    consider "b_msg_flag s = ARP_FLAG_CMD_REQ" | "b_msg_flag s = ARP_FLAG_DATA_RESP"
      using lt by (auto simp: tx_buffer_def split: if_splits)
    then show ?thesis
    proof cases
      case 1
      then have "i < 2 * cmd_frame_blocks s" using lt len by (simp add: tx_buffer_def b)
      with 1 show ?thesis
        using len small frame_blocks_bound(1) [of s] assms(2) un [of i]
        by (auto simp: tx_data_byte_def Let_def cap read_buffer_byte_def b blk_read_byte_def k_block_bytes_def
            tx_buffer_def nth_block_bytes buffers_ok_def even_iff_mod_2_eq_zero)
    next
      case 2
      then have "i < 2 * prm_frame_blocks s" using lt len by (simp add: tx_buffer_def b)
      with 2 show ?thesis
        using len small frame_blocks_bound(2) [of s] assms(2) un [of i]
        by (auto simp: tx_data_byte_def Let_def cap read_buffer_byte_def b blk_read_byte_def k_block_bytes_def
            tx_buffer_def nth_block_bytes buffers_ok_def even_iff_mod_2_eq_zero)
    qed
  qed
  show "tx_payload s = block_bytes (tx_buffer s)"
    unfolding tx_payload_def n by (rule nth_equalityI) (use byte in \<open>simp_all\<close>)
qed

subsection \<open>Receiving a frame\<close>

lemma parse_make: "parse (hdr_make a f m n) = Some \<lparr>hv_parity = calc_parity (hdr_make a f m n),
    hv_addr = take_bit 5 a, hv_flag = take_bit 2 f, hv_marker = take_bit 3 m, hv_nblocks = take_bit 5 n\<rparr>"
  by (simp add: parse_def parity_ok_def field_values_make)

definition rx_header_done :: "u32 \<Rightarrow> u8 \<Rightarrow> u8 \<Rightarrow> u8 \<Rightarrow> u8 \<Rightarrow> bus_state \<Rightarrow> bus_state" where
  "rx_header_done t a f m n s = s\<lparr>
     b_header := write_raw (b_header s) (hdr_make a f m n), b_adr_flag := (take_bit 5 a = b_self_addr s),
     b_msg_flag := take_bit 2 f, b_n_blocks := take_bit 5 n,
     b_rx_flag := (if take_bit 5 n > 0 then rx_data else rx_eof), b_sub_clock := 0, b_wait_clock := 0,
     b_busy := (b_role s = bus_device \<or> b_busy s), b_writer_tick := t + 2\<rparr>"

lemma bytes_of_block: "set_byte_hi (set_byte_lo x (byte_lo raw)) (byte_hi raw) = raw"
  by (rule block_of_bytes) simp_all

lemma rx_header_run:
  assumes "b_exchange_flag s = ex_rx" "b_rx_flag s = rx_sof" "b_wait_clock s < 10"
    "fst (b_header s) \<noteq> None \<or> snd (b_header s) \<noteq> None"
  shows "node_run bus_node t
      (map Some [ARP_BUS_SOF, byte_lo (hdr_make a f m n), byte_hi (hdr_make a f m n)]) s =
    (replicate 3 None, rx_header_done t a f m n s)"
proof -
  let ?h = "hdr_make a f m n"
  define s1 where "s1 = s\<lparr>b_writer_tick := t, b_rx_flag := rx_header, b_sub_clock := 0, b_wait_clock := 0,
     b_busy := (b_role s = bus_device \<or> b_busy s)\<rparr>"
  define h1 where "h1 = write_raw (b_header s) (set_byte_lo (load_view (b_header s)) (byte_lo ?h))"
  define s2 where "s2 = s1\<lparr>b_writer_tick := t + 1, b_header := h1, b_sub_clock := 1\<rparr>"
  have p: "fst h1 \<noteq> None \<or> snd h1 \<noteq> None" using assms(4) by (simp add: h1_def)
  have h2: "write_raw h1 (set_byte_hi (load_view h1) (byte_hi ?h)) = write_raw (b_header s) ?h"
    using assms(4) by (cases "b_header s") (auto simp: h1_def write_raw_def load_view_def bytes_of_block split: option.splits)
  have ps: "parse_storage (write_raw (b_header s) ?h) = parse ?h"
    using assms(4) by (auto simp: parse_storage_def read_raw_def)
  have 1: "bus_node t (Some ARP_BUS_SOF) s = (None, s1)"
    using assms(2) by (cases "b_role s") (simp_all add: rx_step [OF assms(1,3)] rx_entry_def IRX_SOF_def Let_def s1_def)
  have e1: "b_exchange_flag s1 = ex_rx" "b_wait_clock s1 < 10" "b_exchange_flag s2 = ex_rx" "b_wait_clock s2 < 10"
    using assms(1) by (simp_all add: s1_def s2_def)
  have 2: "bus_node (t + 1) (Some (byte_lo ?h)) s1 = (None, s2)"
    by (simp add: rx_step [OF e1(1,2)])
      (simp add: s1_def s2_def h1_def rx_entry_def IRX_HEADER_def write_header_byte_def hdr_write_byte_def k_header_bytes_def)
  have 3: "bus_node (t + 2) (Some (byte_hi ?h)) s2 = (None, rx_header_done t a f m n s)"
    by (simp add: rx_step [OF e1(3,4)])
      (simp add: s1_def s2_def rx_entry_def IRX_HEADER_def write_header_byte_def hdr_write_byte_def k_header_bytes_def
        h2 Let_def IBUS_PARSE_STD_HEADER_def ps parse_make rx_header_done_def)
  have t2: "t + 1 + 1 = t + 2" by simp
  show ?thesis
    by (simp only: list.map node_run.simps 1 2 t2 3 Let_def prod.case) (simp add: numeral_eq_Suc)
qed

text \<open>What the data of a frame does to the buffers, block by block.\<close>

definition takes_cmd :: "bus_state \<Rightarrow> nat \<Rightarrow> bool" where
  "takes_cmd s k \<longleftrightarrow> b_adr_flag s \<and> b_msg_flag s = ARP_FLAG_CMD_REQ \<and> k < cmd_frame_blocks s \<and> k < b_cmd_buf_blocks s"

definition takes_prm :: "bus_state \<Rightarrow> nat \<Rightarrow> bool" where
  "takes_prm s k \<longleftrightarrow> b_adr_flag s \<and> b_msg_flag s = ARP_FLAG_DATA_RESP \<and> k < prm_frame_blocks s \<and> k < b_prm_buf_blocks s"

definition put_rx_block :: "bus_state \<Rightarrow> nat \<Rightarrow> u16 \<Rightarrow> bus_state" where
  "put_rx_block s k x =
     (if takes_cmd s k then s\<lparr>b_cmd_buf := map_option (\<lambda>xs. xs[k := x]) (b_cmd_buf s)\<rparr>
      else if takes_prm s k then s\<lparr>b_prm_buf := map_option (\<lambda>xs. xs[k := x]) (b_prm_buf s)\<rparr>
      else s)"

fun put_rx_blocks :: "bus_state \<Rightarrow> nat \<Rightarrow> u16 list \<Rightarrow> bus_state" where
  "put_rx_blocks s k [] = s"
| "put_rx_blocks s k (x # xs) = put_rx_blocks (put_rx_block s k x) (Suc k) xs"

lemma put_rx_block_fields [simp]:
  "b_role (put_rx_block s k x) = b_role s" "b_busy (put_rx_block s k x) = b_busy s"
  "b_exchange_flag (put_rx_block s k x) = b_exchange_flag s" "b_rx_flag (put_rx_block s k x) = b_rx_flag s"
  "b_wait_clock (put_rx_block s k x) = b_wait_clock s" "b_sub_clock (put_rx_block s k x) = b_sub_clock s"
  "b_n_blocks (put_rx_block s k x) = b_n_blocks s" "b_adr_flag (put_rx_block s k x) = b_adr_flag s"
  "b_msg_flag (put_rx_block s k x) = b_msg_flag s" "b_cmd_buf_blocks (put_rx_block s k x) = b_cmd_buf_blocks s"
  "b_prm_buf_blocks (put_rx_block s k x) = b_prm_buf_blocks s"
  "cmd_frame_blocks (put_rx_block s k x) = cmd_frame_blocks s" "prm_frame_blocks (put_rx_block s k x) = prm_frame_blocks s"
  "b_cmd_buf (put_rx_block s k x) = None \<longleftrightarrow> b_cmd_buf s = None"
  "b_prm_buf (put_rx_block s k x) = None \<longleftrightarrow> b_prm_buf s = None"
  by (simp_all add: put_rx_block_def cmd_frame_blocks_def prm_frame_blocks_def)

definition rx_tail :: "u32 \<Rightarrow> nat \<Rightarrow> bus_state \<Rightarrow> bus_state" where
  "rx_tail t c s = s\<lparr>b_sub_clock := of_nat c, b_wait_clock := 0, b_writer_tick := t\<rparr>"

lemma rx_tail_fields [simp]:
  "b_role (rx_tail t c s) = b_role s" "b_busy (rx_tail t c s) = b_busy s"
  "b_exchange_flag (rx_tail t c s) = b_exchange_flag s" "b_rx_flag (rx_tail t c s) = b_rx_flag s"
  "b_wait_clock (rx_tail t c s) = 0" "b_sub_clock (rx_tail t c s) = of_nat c"
  "b_n_blocks (rx_tail t c s) = b_n_blocks s"
  by (simp_all add: rx_tail_def)

lemma rx_tail_same: "b_wait_clock r = 0 \<Longrightarrow> b_writer_tick r = t \<Longrightarrow> r\<lparr>b_sub_clock := of_nat c\<rparr> = rx_tail t c r"
  unfolding rx_tail_def by (cases r) simp

lemma rx_data_byte:
  assumes "b_exchange_flag s = ex_rx" "b_rx_flag s = rx_data" "b_wait_clock s < 10" "b_sub_clock s = of_nat i"
    "i < 2 * unat (b_n_blocks s)"
  shows "bus_node t (Some v) s = (None,
    let s' = rx_tail t (Suc i) (store_rx_byte (s\<lparr>b_wait_clock := 0, b_writer_tick := t\<rparr>) v)
    in if Suc i \<ge> 2 * unat (b_n_blocks s) then s'\<lparr>b_rx_flag := rx_eof\<rparr> else s')"
proof -
  have lim: "unat (b_n_blocks s) < 256" using unsigned_less [of "b_n_blocks s"] by simp
  have un: "unat (of_nat (Suc i) :: u16) = Suc i"
    unfolding unsigned_of_nat using assms(5) lim by (subst take_bit_nat_eq_self) simp_all
  have un2: "unat (of_nat i + 1 :: u16) = Suc i" using un by (simp add: add.commute)
  let ?s0 = "(rx_entry t s)\<lparr>b_wait_clock := 0\<rparr>"
  have s0: "?s0 = s\<lparr>b_wait_clock := 0, b_writer_tick := t\<rparr>" by (simp add: rx_entry_def)
  have f: "b_sub_clock (store_rx_byte ?s0 v) = of_nat i" "b_n_blocks (store_rx_byte ?s0 v) = b_n_blocks s"
    "b_wait_clock (store_rx_byte ?s0 v) = 0" "b_writer_tick (store_rx_byte ?s0 v) = t"
    using assms(4) by (simp_all add: store_rx_byte_def Let_def rx_entry_def split: prod.split)
  have inc: "of_nat i + 1 = (of_nat (Suc i) :: u16)" by simp
  have s1: "(store_rx_byte ?s0 v)\<lparr>b_sub_clock := of_nat i + 1\<rparr> = rx_tail t (Suc i) (store_rx_byte ?s0 v)"
    unfolding inc by (rule rx_tail_same) (use f in simp_all)
  show ?thesis
    using assms(2) un un2
    by (simp add: mult.commute rx_step [OF assms(1,3)] IRX_DATA_def Let_def f(1) s1 expected_bytes_def f(2) del: of_nat_Suc)
      (simp add: s0)
qed

lemma takes_other [simp]:
  "takes_cmd (s\<lparr>b_sub_clock := c\<rparr>) k = takes_cmd s k" "takes_prm (s\<lparr>b_sub_clock := c\<rparr>) k = takes_prm s k"
  "takes_cmd (s\<lparr>b_wait_clock := w\<rparr>) k = takes_cmd s k" "takes_prm (s\<lparr>b_wait_clock := w\<rparr>) k = takes_prm s k"
  "takes_cmd (s\<lparr>b_writer_tick := t\<rparr>) k = takes_cmd s k" "takes_prm (s\<lparr>b_writer_tick := t\<rparr>) k = takes_prm s k"
  "takes_cmd (s\<lparr>b_cmd_buf := x\<rparr>) k = takes_cmd s k" "takes_prm (s\<lparr>b_cmd_buf := x\<rparr>) k = takes_prm s k"
  "takes_cmd (s\<lparr>b_prm_buf := y\<rparr>) k = takes_cmd s k" "takes_prm (s\<lparr>b_prm_buf := y\<rparr>) k = takes_prm s k"
  by (simp_all add: takes_cmd_def takes_prm_def cmd_frame_blocks_def prm_frame_blocks_def)

lemma takes_not_both: "takes_prm s k \<Longrightarrow> \<not> takes_cmd s j"
  by (simp add: takes_cmd_def takes_prm_def)

lemma frame_blocks_other [simp]:
  "cmd_frame_blocks (s\<lparr>b_cmd_buf := x\<rparr>) = cmd_frame_blocks s" "prm_frame_blocks (s\<lparr>b_cmd_buf := x\<rparr>) = prm_frame_blocks s"
  "cmd_frame_blocks (s\<lparr>b_prm_buf := y\<rparr>) = cmd_frame_blocks s" "prm_frame_blocks (s\<lparr>b_prm_buf := y\<rparr>) = prm_frame_blocks s"
  "cmd_frame_blocks (s\<lparr>b_writer_tick := t\<rparr>) = cmd_frame_blocks s" "prm_frame_blocks (s\<lparr>b_writer_tick := t\<rparr>) = prm_frame_blocks s"
  "cmd_frame_blocks (s\<lparr>b_wait_clock := w\<rparr>) = cmd_frame_blocks s" "prm_frame_blocks (s\<lparr>b_wait_clock := w\<rparr>) = prm_frame_blocks s"
  by (simp_all add: cmd_frame_blocks_def prm_frame_blocks_def)

lemma store_rx_byte_blocks:
  assumes "b_cmd_buf s = Some cb" "b_prm_buf s = Some pb"
  shows "store_rx_byte s v =
    (let i = unat (b_sub_clock s); k = i div 2;
         put = (\<lambda>xs. xs[k := (if even i then set_byte_lo (xs ! k) v else set_byte_hi (xs ! k) v)])
     in if takes_cmd s k then s\<lparr>b_cmd_buf := Some (put cb)\<rparr>
        else if takes_prm s k then s\<lparr>b_prm_buf := Some (put pb)\<rparr> else s)"
proof -
  have c: "unat (b_sub_clock s) < n * 2 \<longleftrightarrow> unat (b_sub_clock s) div 2 < n" for n
    by (auto simp: div_less_iff_less_mult)
  have same: "s\<lparr>b_cmd_buf := Some cb, b_cmd_buf_u8 := b_cmd_buf_u8 s\<rparr> = s"
    "s\<lparr>b_prm_buf := Some pb, b_prm_buf_u8 := b_prm_buf_u8 s\<rparr> = s"
    "s\<lparr>b_cmd_buf := x, b_cmd_buf_u8 := b_cmd_buf_u8 s\<rparr> = s\<lparr>b_cmd_buf := x\<rparr>"
    "s\<lparr>b_prm_buf := x, b_prm_buf_u8 := b_prm_buf_u8 s\<rparr> = s\<lparr>b_prm_buf := x\<rparr>" for x
    using assms by (cases s; simp)+
  show ?thesis
    by (simp add: store_rx_byte_def Let_def com_capacity_bytes_def par_capacity_bytes_def c assms same
        write_buffer_byte_def blk_write_byte_def k_block_bytes_def even_iff_mod_2_eq_zero takes_cmd_def takes_prm_def)
qed

lemma store_two_bytes:
  assumes b: "b_cmd_buf s = Some cb" "b_prm_buf s = Some pb" and wf: "bus_wf s" and k: "2 * k + 1 < 65536"
  shows "store_rx_byte ((rx_tail t0 (Suc (2 * k))
        (store_rx_byte (s\<lparr>b_sub_clock := of_nat (2 * k), b_wait_clock := 0, b_writer_tick := t0\<rparr>) (byte_lo x)))
          \<lparr>b_wait_clock := 0, b_writer_tick := t1\<rparr>) (byte_hi x) =
    rx_tail t1 (Suc (2 * k)) (put_rx_block s k x)"
proof -
  have un: "unat (of_nat (2 * k) :: u16) = 2 * k" "unat (of_nat (Suc (2 * k)) :: u16) = Suc (2 * k)"
    unfolding unsigned_of_nat using k by (subst take_bit_nat_eq_self; simp)+
  have len: "takes_cmd s k \<Longrightarrow> k < length cb" "takes_prm s k \<Longrightarrow> k < length pb"
    using wf b by (auto simp: bus_wf_def span_ok_def takes_cmd_def takes_prm_def)
  let ?s0 = "s\<lparr>b_sub_clock := of_nat (2 * k), b_wait_clock := 0, b_writer_tick := t0\<rparr>"
  have first: "store_rx_byte ?s0 (byte_lo x) =
      (if takes_cmd s k then ?s0\<lparr>b_cmd_buf := Some (cb[k := set_byte_lo (cb ! k) (byte_lo x)])\<rparr>
       else if takes_prm s k then ?s0\<lparr>b_prm_buf := Some (pb[k := set_byte_lo (pb ! k) (byte_lo x)])\<rparr> else ?s0)"
    by (subst store_rx_byte_blocks [of _ cb pb]) (simp_all add: b un Let_def del: of_nat_mult)
  consider (c) "takes_cmd s k" | (p) "\<not> takes_cmd s k" "takes_prm s k" | (n) "\<not> takes_cmd s k" "\<not> takes_prm s k"
    by blast
  then show ?thesis
  proof cases
    case c
    then show ?thesis
      unfolding first rx_tail_def
      using len by (subst store_rx_byte_blocks [of _ "cb[k := set_byte_lo (cb ! k) (byte_lo x)]" pb])
        (simp_all add: b un Let_def put_rx_block_def bytes_of_block del: of_nat_mult of_nat_Suc of_nat_add)
  next
    case p
    then show ?thesis
      unfolding first rx_tail_def
      using len by (subst store_rx_byte_blocks [of _ cb "pb[k := set_byte_lo (pb ! k) (byte_lo x)]"])
        (simp_all add: b un Let_def put_rx_block_def bytes_of_block del: of_nat_mult of_nat_Suc of_nat_add)
  next
    case n
    then show ?thesis
      unfolding first rx_tail_def
      by (subst store_rx_byte_blocks [of _ cb pb])
        (simp_all add: b un Let_def put_rx_block_def del: of_nat_mult of_nat_Suc of_nat_add)
  qed
qed

lemma rx_tail_tail [simp]: "rx_tail t c (rx_tail t' c' s) = rx_tail t c s"
  by (simp add: rx_tail_def)

lemma put_rx_block_tail: "put_rx_block (rx_tail t c s) k x = rx_tail t c (put_rx_block s k x)"
  by (simp add: put_rx_block_def rx_tail_def)

lemma put_rx_blocks_tail: "put_rx_blocks (rx_tail t c s) k xs = rx_tail t c (put_rx_blocks s k xs)"
  by (induction xs arbitrary: s k) (simp_all add: put_rx_block_tail)

lemma span_ok_update [simp]: "span_ok (map_option (\<lambda>xs. xs[k := x]) b) n = span_ok b n"
  by (cases b) (simp_all add: span_ok_def)

lemma wf_put_rx_block: "bus_wf s \<Longrightarrow> bus_wf (put_rx_block s k x)"
  by (simp add: put_rx_block_def bus_wf_def)

lemma wf_rx_tail: "bus_wf s \<Longrightarrow> bus_wf (rx_tail t c s)"
  by (simp add: rx_tail_def bus_wf_def)

lemma store_rx_byte_fields [simp]:
  "b_exchange_flag (store_rx_byte s v) = b_exchange_flag s" "b_rx_flag (store_rx_byte s v) = b_rx_flag s"
  "b_n_blocks (store_rx_byte s v) = b_n_blocks s"
  by (simp_all add: store_rx_byte_def Let_def split: prod.split)

lemma node_run_two:
  "bus_node t u s = (None, s1) \<Longrightarrow> bus_node (t + 1) v s1 = (None, s2) \<Longrightarrow> node_run bus_node t [u, v] s = ([None, None], s2)"
  by simp

lemma rx_data_block:
  assumes "b_exchange_flag s = ex_rx" "b_rx_flag s = rx_data" "b_wait_clock s < 10" "b_sub_clock s = of_nat (2 * k)"
    "k < unat (b_n_blocks s)" "b_cmd_buf s = Some cb" "b_prm_buf s = Some pb" "bus_wf s"
  shows "node_run bus_node t [Some (byte_lo x), Some (byte_hi x)] s = ([None, None],
    let s' = rx_tail (t + 1) (2 * Suc k) (put_rx_block s k x)
    in if Suc k \<ge> unat (b_n_blocks s) then s'\<lparr>b_rx_flag := rx_eof\<rparr> else s')"
proof -
  have lim: "unat (b_n_blocks s) < 256" using unsigned_less [of "b_n_blocks s"] by simp
  let ?s1 = "rx_tail t (Suc (2 * k)) (store_rx_byte (s\<lparr>b_wait_clock := 0, b_writer_tick := t\<rparr>) (byte_lo x))"
  have 1: "bus_node t (Some (byte_lo x)) s = (None, ?s1)"
    using rx_data_byte [OF assms(1-4), of t "byte_lo x"] assms(5) by (simp add: Let_def)
  have s0: "s\<lparr>b_wait_clock := 0, b_writer_tick := t\<rparr> = s\<lparr>b_sub_clock := of_nat (2 * k), b_wait_clock := 0, b_writer_tick := t\<rparr>"
    using assms(4) by (cases s) simp
  have n1: "b_n_blocks ?s1 = b_n_blocks s" by simp
  have e: "2 * Suc k = Suc (Suc (2 * k))" by simp
  have cmp: "Suc (Suc (2 * k)) \<ge> 2 * n \<longleftrightarrow> Suc k \<ge> n" for n by arith
  have two: "store_rx_byte (?s1\<lparr>b_wait_clock := 0, b_writer_tick := t + 1\<rparr>) (byte_hi x) =
      rx_tail (t + 1) (Suc (2 * k)) (put_rx_block s k x)"
    unfolding s0 by (rule store_two_bytes [OF assms(6-8)]) (use assms(5) lim in simp)
  have "bus_node (t + 1) (Some (byte_hi x)) ?s1 = (None,
      let s' = rx_tail (t + 1) (Suc (Suc (2 * k))) (store_rx_byte (?s1\<lparr>b_wait_clock := 0, b_writer_tick := t + 1\<rparr>) (byte_hi x))
      in if Suc (Suc (2 * k)) \<ge> 2 * unat (b_n_blocks ?s1) then s'\<lparr>b_rx_flag := rx_eof\<rparr> else s')"
    by (rule rx_data_byte) (use assms(1-5) in \<open>simp_all\<close>)
  then have 2: "bus_node (t + 1) (Some (byte_hi x)) ?s1 = (None,
      let s' = rx_tail (t + 1) (2 * Suc k) (put_rx_block s k x)
      in if Suc k \<ge> unat (b_n_blocks s) then s'\<lparr>b_rx_flag := rx_eof\<rparr> else s')"
    unfolding two n1 cmp e rx_tail_tail .
  show ?thesis by (rule node_run_two [OF 1 2])
qed

lemma rx_data_run:
  assumes "b_exchange_flag s = ex_rx" "b_rx_flag s = rx_data" "b_wait_clock s < 10" "b_sub_clock s = of_nat (2 * k)"
    "k + length xs = unat (b_n_blocks s)" "xs \<noteq> []" "b_cmd_buf s \<noteq> None" "b_prm_buf s \<noteq> None" "bus_wf s"
  shows "node_run bus_node t (map Some (block_bytes xs)) s = (replicate (2 * length xs) None,
    (rx_tail (t + of_nat (2 * length xs) - 1) (2 * (k + length xs)) (put_rx_blocks s k xs))\<lparr>b_rx_flag := rx_eof\<rparr>)"
  using assms
proof (induction xs arbitrary: s t k)
  case Nil
  then show ?case by simp
next
  case (Cons x xs)
  obtain cb pb where b: "b_cmd_buf s = Some cb" "b_prm_buf s = Some pb" using Cons.prems(7,8) by auto
  let ?s' = "rx_tail (t + 1) (2 * Suc k) (put_rx_block s k x)"
  have k: "k < unat (b_n_blocks s)" using Cons.prems(5) by simp
  note step = rx_data_block [OF Cons.prems(1-4) k b Cons.prems(9), of t x]
  have split: "map Some (block_bytes (x # xs)) = [Some (byte_lo x), Some (byte_hi x)] @ map Some (block_bytes xs)"
    by simp
  show ?case
  proof (cases "xs = []")
    case True
    with Cons.prems(5) have last: "unat (b_n_blocks s) \<le> Suc k" by simp
    have one: "map Some (block_bytes [x]) = [Some (byte_lo x), Some (byte_hi x)]" by simp
    show ?thesis
      unfolding True one step using last by (simp add: Let_def numeral_eq_Suc add.commute [of 1 t])
  next
    case False
    with Cons.prems(5) have "\<not> unat (b_n_blocks s) \<le> Suc k" by (cases xs) auto
    with step have st: "node_run bus_node t [Some (byte_lo x), Some (byte_hi x)] s = ([None, None], ?s')"
      by (simp only: Let_def if_False)
    have wf: "bus_wf ?s'" using Cons.prems(9) by (simp add: wf_put_rx_block wf_rx_tail)
    have "node_run bus_node (t + 2) (map Some (block_bytes xs)) ?s' = (replicate (2 * length xs) None,
      (rx_tail (t + 2 + of_nat (2 * length xs) - 1) (2 * (Suc k + length xs)) (put_rx_blocks ?s' (Suc k) xs))\<lparr>b_rx_flag := rx_eof\<rparr>)"
      by (rule Cons.IH) (use Cons.prems False wf b in \<open>simp_all add: rx_tail_def\<close>)
    then show ?thesis
      unfolding split node_run_append st by (simp add: put_rx_blocks_tail add.assoc)
  qed
qed

text \<open>The state in which a node reads the end-of-frame byte.\<close>

definition rx_loaded :: "u32 \<Rightarrow> u8 \<Rightarrow> u8 \<Rightarrow> u8 \<Rightarrow> u16 list \<Rightarrow> bus_state \<Rightarrow> bus_state" where
  "rx_loaded t a f m xs s =
     (put_rx_blocks (rx_header_done t a f m (of_nat (length xs)) s) 0 xs)\<lparr>b_rx_flag := rx_eof,
       b_sub_clock := of_nat (2 * length xs), b_wait_clock := 0, b_writer_tick := t + 2 + of_nat (2 * length xs)\<rparr>"

lemma put_rx_blocks_fields [simp]:
  "b_role (put_rx_blocks s k xs) = b_role s" "b_busy (put_rx_blocks s k xs) = b_busy s"
  "b_exchange_flag (put_rx_blocks s k xs) = b_exchange_flag s"
  "b_adr_flag (put_rx_blocks s k xs) = b_adr_flag s" "b_msg_flag (put_rx_blocks s k xs) = b_msg_flag s"
  "b_wait_clock (put_rx_blocks s k xs) = b_wait_clock s"
  by (induction xs arbitrary: s k) simp_all

lemma take_bit_5_small: "n < 32 \<Longrightarrow> take_bit 5 (of_nat n :: u8) = of_nat n"
  unfolding word_unat_eq_iff unsigned_take_bit_eq unat_small by (simp add: take_bit_nat_eq_self)

lemma receive_frame_run:
  assumes "b_exchange_flag s = ex_rx" "b_rx_flag s = rx_sof" "b_wait_clock s < 10" "bus_wf s" "buffers_ok s"
    "length xs < 32"
  shows "node_run bus_node t (map Some (frame_bytes a f m (of_nat (length xs)) (block_bytes xs))) s =
    (replicate (4 + 2 * length xs) None,
     IRX_EOF no_bus_hooks (Some ARP_BUS_EOF) (rx_entry (t + 3 + of_nat (2 * length xs)) (rx_loaded t a f m xs s)))"
proof -
  let ?n = "of_nat (length xs) :: u8" and ?L = "length xs"
  let ?s1 = "rx_header_done t a f m ?n s"
  have bufs: "b_cmd_buf s \<noteq> None" "b_prm_buf s \<noteq> None" "fst (b_header s) \<noteq> None \<or> snd (b_header s) \<noteq> None"
    using assms(5) by (auto simp: buffers_ok_def)
  have n: "take_bit 5 ?n = ?n" "unat ?n = ?L" using assms(6) by (simp_all add: take_bit_5_small unat_small)
  have 1: "node_run bus_node t (map Some [ARP_BUS_SOF, byte_lo (hdr_make a f m ?n), byte_hi (hdr_make a f m ?n)]) s =
      (replicate 3 None, ?s1)"
    by (rule rx_header_run [OF assms(1-3) bufs(3)])
  have 2: "node_run bus_node (t + 3) (map Some (block_bytes xs)) ?s1 = (replicate (2 * ?L) None, rx_loaded t a f m xs s)"
  proof (cases "xs = []")
    case True
    then show ?thesis by (cases s) (simp add: rx_loaded_def rx_header_done_def)
  next
    case False
    then have "?n \<noteq> 0" using n(2) by auto
    then have pos: "?n > 0" by (simp add: word_gt_0)
    have "node_run bus_node (t + 3) (map Some (block_bytes xs)) ?s1 = (replicate (2 * ?L) None,
      (rx_tail (t + 3 + of_nat (2 * ?L) - 1) (2 * (0 + ?L)) (put_rx_blocks ?s1 0 xs))\<lparr>b_rx_flag := rx_eof\<rparr>)"
      by (rule rx_data_run)
        (use assms bufs n pos False in \<open>simp_all add: rx_header_done_def bus_wf_def\<close>)
    then show ?thesis by (simp add: rx_loaded_def rx_tail_def)
  qed
  have ex: "b_exchange_flag (rx_loaded t a f m xs s) = ex_rx" "b_wait_clock (rx_loaded t a f m xs s) < 10"
    "b_rx_flag (rx_loaded t a f m xs s) = rx_eof"
    using assms(1) by (simp_all add: rx_loaded_def rx_header_done_def)
  have 3: "bus_node (t + 3 + of_nat (2 * ?L)) (Some ARP_BUS_EOF) (rx_loaded t a f m xs s) = (None,
      IRX_EOF no_bus_hooks (Some ARP_BUS_EOF) (rx_entry (t + 3 + of_nat (2 * ?L)) (rx_loaded t a f m xs s)))"
    using ex(3) by (simp only: rx_step [OF ex(1,2)] rx_flag_t.case)
  have frame: "map Some (frame_bytes a f m ?n (block_bytes xs)) =
      map Some [ARP_BUS_SOF, byte_lo (hdr_make a f m ?n), byte_hi (hdr_make a f m ?n)] @
      (map Some (block_bytes xs) @ [Some ARP_BUS_EOF])"
    by (simp add: frame_bytes_def)
  have one: "node_run bus_node u [c] r = ([o1], r')" if "bus_node u c r = (o1, r')" for u c r o1 r'
    using that by simp
  have "node_run bus_node (t + 3) (map Some (block_bytes xs) @ [Some ARP_BUS_EOF]) ?s1 =
     (replicate (2 * ?L) None @ [None],
      IRX_EOF no_bus_hooks (Some ARP_BUS_EOF) (rx_entry (t + 3 + of_nat (2 * ?L)) (rx_loaded t a f m xs s)))"
    unfolding node_run_append 2 length_map length_block_bytes Let_def prod.case one [OF 3] ..
  moreover have "t + of_nat (length (map Some [ARP_BUS_SOF, byte_lo (hdr_make a f m ?n), byte_hi (hdr_make a f m ?n)])) = t + 3"
    by simp
  moreover have "replicate 3 None @ (replicate (2 * ?L) None @ [None]) = replicate (4 + 2 * ?L) (None :: u8 option)"
    by (simp add: numeral_eq_Suc replicate_append_same)
  ultimately show ?thesis
    unfolding frame node_run_append [of _ _ "map Some [_, _, _]"] 1 by (simp only: Let_def prod.case)
qed

lemma put_rx_blocks_none:
  assumes "\<not> (b_adr_flag s \<and> (b_msg_flag s = ARP_FLAG_CMD_REQ \<or> b_msg_flag s = ARP_FLAG_DATA_RESP))"
  shows "put_rx_blocks s k xs = s"
proof -
  have "put_rx_block s k x = s" for k x
    using assms by (auto simp: put_rx_block_def takes_cmd_def takes_prm_def)
  then show ?thesis by (induction xs arbitrary: k) simp_all
qed

lemma update_splice:
  "k < length b \<Longrightarrow> take (Suc k) (b[k := x]) @ ys @ drop (Suc k + n) (b[k := x]) = take k b @ (x # ys) @ drop (k + Suc n) b"
  by (simp add: take_Suc_conv_app_nth)

lemma put_rx_blocks_prm:
  assumes "b_adr_flag s" "b_msg_flag s = ARP_FLAG_DATA_RESP" "b_prm_buf s = Some b"
    "k + length xs \<le> prm_frame_blocks s" "prm_frame_blocks s \<le> b_prm_buf_blocks s" "b_prm_buf_blocks s \<le> length b"
  shows "put_rx_blocks s k xs = s\<lparr>b_prm_buf := Some (take k b @ xs @ drop (k + length xs) b)\<rparr>"
  using assms
proof (induction xs arbitrary: s k b)
  case Nil
  then show ?case by (cases s) simp
next
  case (Cons x xs)
  have "put_rx_block s k x = s\<lparr>b_prm_buf := Some (b[k := x])\<rparr>"
    using Cons.prems by (simp add: put_rx_block_def takes_cmd_def takes_prm_def)
  then have "put_rx_blocks s k (x # xs) = put_rx_blocks (s\<lparr>b_prm_buf := Some (b[k := x])\<rparr>) (Suc k) xs" by simp
  also have "\<dots> = (s\<lparr>b_prm_buf := Some (b[k := x])\<rparr>)\<lparr>b_prm_buf := Some (take (Suc k) (b[k := x]) @ xs @ drop (Suc k + length xs) (b[k := x]))\<rparr>"
    by (rule Cons.IH) (use Cons.prems in simp_all)
  also have "\<dots> = s\<lparr>b_prm_buf := Some (take k b @ (x # xs) @ drop (k + length (x # xs)) b)\<rparr>"
    using Cons.prems by (subst update_splice) simp_all
  finally show ?case .
qed

lemma put_rx_blocks_cmd:
  assumes "b_adr_flag s" "b_msg_flag s = ARP_FLAG_CMD_REQ" "b_cmd_buf s = Some b"
    "k + length xs \<le> cmd_frame_blocks s" "cmd_frame_blocks s \<le> b_cmd_buf_blocks s" "b_cmd_buf_blocks s \<le> length b"
  shows "put_rx_blocks s k xs = s\<lparr>b_cmd_buf := Some (take k b @ xs @ drop (k + length xs) b)\<rparr>"
  using assms
proof (induction xs arbitrary: s k b)
  case Nil
  then show ?case by (cases s) simp
next
  case (Cons x xs)
  have "put_rx_block s k x = s\<lparr>b_cmd_buf := Some (b[k := x])\<rparr>"
    using Cons.prems by (simp add: put_rx_block_def takes_cmd_def)
  then have "put_rx_blocks s k (x # xs) = put_rx_blocks (s\<lparr>b_cmd_buf := Some (b[k := x])\<rparr>) (Suc k) xs" by simp
  also have "\<dots> = (s\<lparr>b_cmd_buf := Some (b[k := x])\<rparr>)\<lparr>b_cmd_buf := Some (take (Suc k) (b[k := x]) @ xs @ drop (Suc k + length xs) (b[k := x]))\<rparr>"
    by (rule Cons.IH) (use Cons.prems in simp_all)
  also have "\<dots> = s\<lparr>b_cmd_buf := Some (take k b @ (x # xs) @ drop (k + length (x # xs)) b)\<rparr>"
    using Cons.prems by (subst update_splice) simp_all
  finally show ?case .
qed

subsection \<open>A master and a device on the wire\<close>

text \<open>
  The timeline of one exchange, for a request of \<open>L\<close> bytes and a response of \<open>R\<close>: the master sends in
  the ticks \<open>0..L - 1\<close>; the device, a tick behind, reads the end of the request in tick \<open>L\<close> and sends in
  the ticks \<open>L + 1..L + R\<close>; the master reads the end of the response in tick \<open>L + R + 1\<close>. Each node
  also sees its own bytes: while sending it does not look, and the end-of-frame byte that it sees
  afterwards is not a start of frame.
\<close>

lemma link_run:
  assumes "req = reqb @ [ARP_BUS_EOF]" "resp = respb @ [ARP_BUS_EOF]"
    and M1: "\<And>xs. length xs = length req \<Longrightarrow> node_run bus_node t xs m = (map Some req, m1)"
    and M2: "node_run bus_node (t + of_nat (length req)) [Some ARP_BUS_EOF, None] m1 = ([None, None], m2)"
    and M3: "node_run bus_node (t + of_nat (length req) + 2) (map Some resp) m2 = (replicate (length resp) None, m3)"
    and D0: "bus_node t None d = (None, d0)"
    and D1: "node_run bus_node (t + 1) (map Some req) d0 = (replicate (length req) None, d1)"
    and D2: "\<And>xs. length xs = length resp \<Longrightarrow>
      node_run bus_node (t + of_nat (length req) + 1) xs d1 = (map Some resp, d2)"
    and D3: "bus_node (t + of_nat (length req) + 1 + of_nat (length resp)) (Some ARP_BUS_EOF) d2 = (None, d3)"
  shows "wire_run bus_node bus_node (length req + length resp + 2) t (None, m, d) = (None, m3, d3)"
proof -
  let ?L = "length req" and ?R = "length resp"
  let ?xs = "None # map Some req @ None # map Some resp"
  have m: "node_run bus_node t ?xs m = (map Some req @ [None, None] @ replicate ?R None, m3)"
  proof -
    have e: "?xs = (None # map Some reqb) @ [Some ARP_BUS_EOF, None] @ map Some resp" by (simp add: assms(1))
    have l: "length (None # map Some reqb) = ?L" by (simp add: assms(1))
    have "node_run bus_node (t + of_nat ?L) ([Some ARP_BUS_EOF, None] @ map Some resp) m1 =
        ([None, None] @ replicate ?R None, m3)"
      unfolding node_run_append M2 using M3 by (simp add: Let_def)
    then show ?thesis
      unfolding e node_run_append [of _ _ "None # map Some reqb"] M1 [OF l] l by (simp only: Let_def prod.case)
  qed
  have d: "node_run bus_node t ?xs d = (replicate (Suc ?L) None @ map Some resp @ [None], d3)"
  proof -
    have e: "?xs = None # map Some req @ ((None # map Some respb) @ [Some ARP_BUS_EOF])" by (simp add: assms(2))
    have l: "length (None # map Some respb) = ?R" by (simp add: assms(2))
    have D3': "node_run bus_node (t + of_nat ?L + 1 + of_nat ?R) [Some ARP_BUS_EOF] d2 = ([None], d3)"
      using D3 by simp
    have "node_run bus_node (t + of_nat ?L + 1) ((None # map Some respb) @ [Some ARP_BUS_EOF]) d1 =
        (map Some resp @ [None], d3)"
      unfolding node_run_append D2 [OF l] l by (simp only: Let_def prod.case D3')
    then have "node_run bus_node (t + 1 + of_nat ?L) ((None # map Some respb) @ [Some ARP_BUS_EOF]) d1 =
        (map Some resp @ [None], d3)" by (simp only: ac_simps)
    then have "node_run bus_node (t + 1) (map Some req @ ((None # map Some respb) @ [Some ARP_BUS_EOF])) d0 =
        (replicate ?L None @ map Some resp @ [None], d3)"
      unfolding node_run_append [of _ _ "map Some req"] D1 length_map by (simp only: Let_def prod.case)
    then show ?thesis unfolding e node_run.simps D0 by (simp only: Let_def prod.case replicate_Suc append_Cons)
  qed
  have "map2 last_of (map Some req @ [None, None] @ replicate ?R None) (replicate (Suc ?L) None @ map Some resp @ [None]) =
      map Some req @ [None] @ map Some resp @ [None]"
  proof -
    have a: "map2 last_of (map Some ys) (replicate (length ys) None) = map Some ys" for ys
      by (induction ys) (simp_all add: last_of_def)
    have b: "map2 last_of (replicate (length ys) None) (map Some ys) = map Some ys" for ys
      by (induction ys) (simp_all add: last_of_def)
    have "replicate (Suc ?L) None @ map Some resp @ [None] =
        replicate ?L None @ [None] @ map Some resp @ [None :: u8 option]"
      by (simp add: replicate_app_Cons_same)
    moreover have "[None, None] @ replicate ?R None = [None] @ replicate ?R None @ [None :: u8 option]"
      by (simp add: replicate_app_Cons_same)
    ultimately show ?thesis by (simp only: zip_append length_map length_replicate map_append a b) (simp add: last_of_def a b)
  qed
  then have "wire_run bus_node bus_node (length ?xs) t (None, m, d) = (None, m3, d3)"
    by (intro wire_run_traces [OF m d]) simp_all
  then show ?thesis by simp
qed

lemma idle_ignores:
  assumes "b_exchange_flag s = ex_rx" "b_rx_flag s = rx_sof" "b_wait_clock s < 10" "rx \<noteq> Some ARP_BUS_SOF"
  shows "bus_node t rx s = (None, rx_entry t s)"
  using assms by (simp add: rx_step IRX_SOF_def rx_entry_def)

lemma device_entry: "b_role s = bus_device \<Longrightarrow> rx_entry t s = s\<lparr>b_writer_tick := t\<rparr>"
  by (simp add: rx_entry_def)

text \<open>The two ticks in which a master that has sent its request sees its own end of frame and silence.\<close>

lemma master_echo:
  assumes "b_role s = bus_master" "b_busy s" "b_exchange_flag s = ex_rx" "b_rx_flag s = rx_sof" "b_wait_clock s = 0"
  shows "node_run bus_node t [Some ARP_BUS_EOF, None] s = ([None, None], s\<lparr>b_wait_clock := 2, b_writer_tick := t + 1\<rparr>)"
proof -
  have 1: "bus_node t (Some ARP_BUS_EOF) s = (None, s\<lparr>b_wait_clock := 1, b_writer_tick := t\<rparr>)"
    using assms by (simp add: idle_ignores rx_entry_def)
  have 2: "bus_node (t + 1) None (s\<lparr>b_wait_clock := 1, b_writer_tick := t\<rparr>) =
      (None, s\<lparr>b_wait_clock := 2, b_writer_tick := t + 1\<rparr>)"
    by (subst idle_ignores) (use assms in \<open>simp_all add: rx_entry_def\<close>)
  show ?thesis by (rule node_run_two [OF 1 2])
qed

lemma wf_fields:
  "bus_wf (s\<lparr>b_writer_tick := t\<rparr>) = bus_wf s" "buffers_ok (s\<lparr>b_writer_tick := t\<rparr>) = buffers_ok s"
  "w \<le> 10 \<Longrightarrow> bus_wf s \<Longrightarrow> bus_wf (s\<lparr>b_wait_clock := w\<rparr>)" "buffers_ok (s\<lparr>b_wait_clock := w\<rparr>) = buffers_ok s"
  by (simp_all add: bus_wf_def buffers_ok_def)

lemma buffers_ok_cong:
  assumes "buffers_ok s" "b_cmd_buf s' \<noteq> None" "b_prm_buf s' \<noteq> None"
    "b_cmd_buf_blocks s' = b_cmd_buf_blocks s" "b_prm_buf_blocks s' = b_prm_buf_blocks s"
    "cmd_frame_blocks s' = cmd_frame_blocks s" "prm_frame_blocks s' = prm_frame_blocks s"
    "fst (b_header s') = None \<longleftrightarrow> fst (b_header s) = None" "snd (b_header s') = None \<longleftrightarrow> snd (b_header s) = None"
  shows "buffers_ok s'"
  using assms unfolding buffers_ok_def by simp

lemma after_tx_frames:
  "cmd_frame_blocks (after_tx t s) = cmd_frame_blocks s" "prm_frame_blocks (after_tx t s) = prm_frame_blocks s"
  by (simp_all add: after_tx_def cmd_frame_blocks_def prm_frame_blocks_def)

lemma after_tx_ok: "bus_wf s \<Longrightarrow> bus_wf (after_tx t s)" "buffers_ok s \<Longrightarrow> buffers_ok (after_tx t s)"
proof -
  show "bus_wf s \<Longrightarrow> bus_wf (after_tx t s)" by (simp add: after_tx_def bus_wf_def)
  assume b: "buffers_ok s"
  show "buffers_ok (after_tx t s)"
    by (rule buffers_ok_cong [OF b]; (rule after_tx_frames)?) (use b in \<open>simp_all add: after_tx_def buffers_ok_def\<close>)
qed

lemma frame_bytes_split: "frame_bytes a f m n ys = ([ARP_BUS_SOF, byte_lo (hdr_make a f m n), byte_hi (hdr_make a f m n)] @ ys) @ [ARP_BUS_EOF]"
  by (simp add: frame_bytes_def)

lemma length_frame_bytes: "length (frame_bytes a f m n ys) = 4 + length ys"
  by (simp add: frame_bytes_def)

lemma addr_fits: "a < 32 \<Longrightarrow> take_bit 5 (a :: u8) = a"
  using take_bit_5_small [of "unat a"] by (simp add: word_less_nat_alt)

text \<open>A device that receives a request and turns to send its response.\<close>

lemma device_request:
  assumes "b_role d = bus_device" "bus_idle d" "bus_wf d" "buffers_ok d" "b_wait_clock d = 0"
    and "take_bit 5 a = b_self_addr d" "f = ARP_FLAG_DATA_REQ"
  shows "\<exists>d'. node_run bus_node t (map Some (frame_bytes a f m 0 [])) d = (replicate 4 None, d') \<and>
    b_exchange_flag d' = ex_tx \<and> b_tx_flag d' = tx_sof \<and> b_msg_flag d' = ARP_FLAG_DATA_RESP \<and>
    b_role d' = b_role d \<and> b_target_addr d' = b_target_addr d \<and> b_prm_buf d' = b_prm_buf d \<and>
    b_cmd d' = b_cmd d \<and> b_prm d' = b_prm d \<and> prm_frame_blocks d' = prm_frame_blocks d \<and>
    bus_wf d' \<and> buffers_ok d'"
proof -
  let ?d' = "IRX_EOF no_bus_hooks (Some ARP_BUS_EOF) (rx_entry (t + 3) (rx_loaded t a f m [] d))"
  have idle: "b_exchange_flag d = ex_rx" "b_rx_flag d = rx_sof" "b_wait_clock d < 10"
    using assms(2,5) by (simp_all add: bus_idle_def)
  have run: "node_run bus_node t (map Some (frame_bytes a f m 0 [])) d = (replicate 4 None, ?d')"
    using receive_frame_run [OF idle assms(3,4), of "[]" t a f m] by simp
  have eq: "?d' = to_response ((rx_header_done t a f m 0 d)\<lparr>b_rx_flag := rx_eof, b_sub_clock := 0, b_wait_clock := 0,
      b_writer_tick := t + 3\<rparr>) ARP_FLAG_DATA_RESP"
    using assms(1,6,7) by (simp add: IRX_EOF_def rx_loaded_def rx_entry_def rx_header_done_def)
  have fr: "cmd_frame_blocks ?d' = cmd_frame_blocks d" "prm_frame_blocks ?d' = prm_frame_blocks d"
    unfolding eq by (simp_all add: to_response_def rx_header_done_def cmd_frame_blocks_def prm_frame_blocks_def)
  have wf: "bus_wf ?d'"
    unfolding eq using assms(3) by (simp add: to_response_def rx_header_done_def bus_wf_def)
  have ok: "buffers_ok ?d'"
    by (rule buffers_ok_cong [OF assms(4)]; (rule fr)?)
      (use assms(4) in \<open>unfold eq, simp_all add: to_response_def rx_header_done_def buffers_ok_def\<close>)
  show ?thesis
    by (rule exI [of _ ?d'], intro conjI run wf ok fr; unfold eq; simp add: to_response_def rx_header_done_def)
qed

text \<open>What a master does with the response to a data request that fills its window.\<close>

lemma master_data_response:
  assumes "b_role m = bus_master" "b_exchange_flag m = ex_rx" "b_rx_flag m = rx_sof" "b_wait_clock m < 10"
    and wf: "bus_wf m" "buffers_ok m"
    and "take_bit 5 a = b_self_addr m" "b_prm m = Some p" "length xs = prm_frame_blocks m"
    and "b_prm_frame_offset m + prm_frame_blocks m \<le> b_prm_blocks m"
  shows "\<exists>m'. node_run bus_node t (map Some (frame_bytes a ARP_FLAG_DATA_RESP k (of_nat (length xs)) (block_bytes xs))) m =
      (replicate (4 + 2 * length xs) None, m') \<and>
    bus_idle m' \<and> b_result_ready m' \<and> b_last_result m' = res_success \<and> b_cmd m' = b_cmd m \<and>
    b_prm m' = Some (take (b_prm_frame_offset m) p @ xs @ drop (b_prm_frame_offset m + length xs) p)"
proof -
  let ?h = "rx_header_done t a ARP_FLAG_DATA_RESP k (of_nat (length xs)) m"
  obtain b where b: "b_prm_buf m = Some b" using wf(2) by (auto simp: buffers_ok_def)
  have F: "prm_frame_blocks m < 32" "prm_frame_blocks m \<le> b_prm_buf_blocks m" "b_prm_buf_blocks m \<le> length b"
    using wf b frame_blocks_bound(2) [of m] by (auto simp: buffers_ok_def bus_wf_def span_ok_def)
  have p: "b_prm_blocks m \<le> length p" using wf(1) assms(8) by (auto simp: bus_wf_def span_ok_def)
  have hF: "prm_frame_blocks ?h = prm_frame_blocks m" by (simp add: rx_header_done_def prm_frame_blocks_def)
  have put: "put_rx_blocks ?h 0 xs = ?h\<lparr>b_prm_buf := Some (take 0 b @ xs @ drop (0 + length xs) b)\<rparr>"
    by (rule put_rx_blocks_prm; (unfold hF)?) (use F b assms(7,9) in \<open>simp_all add: rx_header_done_def\<close>)
  let ?s = "rx_entry (t + 3 + of_nat (2 * length xs)) (rx_loaded t a ARP_FLAG_DATA_RESP k xs m)"
  have s: "b_adr_flag ?s" "b_msg_flag ?s = ARP_FLAG_DATA_RESP" "b_role ?s = bus_master" "b_prm ?s = Some p"
    "b_prm_blocks ?s = b_prm_blocks m" "b_prm_frame_offset ?s = b_prm_frame_offset m"
    "b_prm_buf ?s = Some (xs @ drop (length xs) b)" "b_prm_buf_blocks ?s = b_prm_buf_blocks m" "b_cmd ?s = b_cmd m"
    using assms(1,7,8) unfolding rx_loaded_def put by (simp_all add: rx_entry_def rx_header_done_def)
  have sF: "prm_frame_blocks ?s = prm_frame_blocks m"
    unfolding rx_loaded_def put by (simp add: rx_entry_def rx_header_done_def prm_frame_blocks_def)
  have copy: "copy_blocks (Some p) (b_prm_blocks m) (b_prm_frame_offset m) (Some (xs @ drop (length xs) b)) (b_prm_buf_blocks m) 0
       (prm_frame_blocks m) =
     Some (take (b_prm_frame_offset m) p @ xs @ drop (b_prm_frame_offset m + length xs) p)"
  proof (cases "prm_frame_blocks m = 0")
    case True
    with assms(9) show ?thesis by (simp add: copy_blocks_def)
  next
    case False
    then have c: "copy_count (b_prm_blocks m) (b_prm_frame_offset m) (b_prm_buf_blocks m) 0 (prm_frame_blocks m) = length xs"
      using F assms(9,10) by (simp add: copy_count_def)
    show ?thesis
      unfolding copy_blocks_Some c using F p assms(9,10) by (subst copy_loop_slice) simp_all
  qed
  define z where "z = ?s"
  note s = s [folded z_def] and sF = sF [folded z_def]
  have eof: "IRX_EOF no_bus_hooks (Some ARP_BUS_EOF) z =
      reset_to_idle (mark_result (z\<lparr>b_prm := Some (take (b_prm_frame_offset m) p @ xs @ drop (b_prm_frame_offset m + length xs) p)\<rparr>) res_success)"
    by (simp add: IRX_EOF_def s sF sys_copy_blocks_def copy)
  have run: "node_run bus_node t (map Some (frame_bytes a ARP_FLAG_DATA_RESP k (of_nat (length xs)) (block_bytes xs))) m =
      (replicate (4 + 2 * length xs) None, IRX_EOF no_bus_hooks (Some ARP_BUS_EOF) z)"
    unfolding z_def by (rule receive_frame_run [OF assms(2-4) wf]) (use assms(9) F in simp)
  show ?thesis
    by (rule exI, rule conjI [OF run], unfold eof)
      (simp add: s reset_to_idle_def IBUS_RESET_FRAME_LAYOUT_def mark_result_def bus_idle_def)
qed

text \<open>From the wire to the simulated bus.\<close>

lemma wire_to_mock:
  assumes "wire_run f g n t (None, m, d) = (c, m', d')" "bus_quiet mb" "mock_bus_read_u8 mb t = None"
  shows "\<exists>mb'. pair_run mock_bus_read_u8 mock_bus_write_u8 mock_bus_tick f g n t (mb, m, d) = (mb', m', d') \<and>
    bus_quiet mb' \<and> mock_bus_read_u8 mb' (t + of_nat n) = c"
proof -
  have "mockbus.sees t (mb, m, d) (None, m, d)" using assms(2,3) by (simp add: mockbus.sees_def)
  from mockbus.pair_run_refines [OF this, where f = f and g = g and n = n] show ?thesis
    by (auto simp: mockbus.sees_def assms(1) split: prod.splits)
qed

definition exchange_pair :: "bus_state \<Rightarrow> bus_state \<Rightarrow> bool" where
  "exchange_pair m d \<longleftrightarrow>
     b_role m = bus_master \<and> b_role d = bus_device \<and> bus_wf m \<and> bus_wf d \<and> buffers_ok m \<and> buffers_ok d \<and>
     b_target_addr m = b_self_addr d \<and> b_target_addr d = b_self_addr m \<and> b_self_addr m < 32 \<and> b_self_addr d < 32 \<and>
     b_exchange_flag m = ex_tx \<and> b_tx_flag m = tx_sof \<and> bus_idle d \<and> b_wait_clock d = 0"

definition after_echo :: "u32 \<Rightarrow> bus_state \<Rightarrow> bus_state" where
  "after_echo t m = (after_tx t m)\<lparr>b_wait_clock := 2, b_writer_tick := t + of_nat (tx_length m) + 1\<rparr>"

lemma length_tx_frame: "length (tx_frame t s) = tx_length s"
  by (simp add: tx_frame_def length_frame_bytes tx_length_def tx_payload_def)

text \<open>
  The exchange as a whole, from what the device makes of the request and what the master makes of
  the response.
\<close>

lemma exchange_link:
  assumes ok: "exchange_pair m d" "b_msg_flag m = ARP_FLAG_CMD_REQ \<or> b_msg_flag m = ARP_FLAG_DATA_REQ"
    and u: "u = t + of_nat (tx_length m) + 1"
    and D1: "node_run bus_node (t + 1) (map Some (tx_frame t m)) (d\<lparr>b_writer_tick := t\<rparr>) = (replicate (tx_length m) None, d1)"
    and d1: "b_exchange_flag d1 = ex_tx" "b_tx_flag d1 = tx_sof" "b_role d1 = bus_device" "buffers_ok d1"
    and M3: "node_run bus_node (u + 1) (map Some (tx_frame u d1)) (after_echo t m) = (replicate (tx_length d1) None, m3)"
  shows "wire_run bus_node bus_node (tx_length m + tx_length d1 + 2) t (None, m, d) =
    (None, m3, (after_tx u d1)\<lparr>b_writer_tick := u + of_nat (tx_length d1)\<rparr>)"
proof -
  note E = ok(1) [unfolded exchange_pair_def]
  have hp: "fst (b_header m) \<noteq> None \<or> snd (b_header m) \<noteq> None" "fst (b_header d1) \<noteq> None \<or> snd (b_header d1) \<noteq> None"
    using E d1(4) by (simp_all add: buffers_ok_def)
  have M1: "\<And>xs. length xs = length (tx_frame t m) \<Longrightarrow> node_run bus_node t xs m = (map Some (tx_frame t m), after_tx t m)"
    using E hp tx_frame_run [of m _ t] by (simp add: length_tx_frame)
  have M2: "node_run bus_node (t + of_nat (length (tx_frame t m))) [Some ARP_BUS_EOF, None] (after_tx t m) =
      ([None, None], after_echo t m)"
    unfolding after_echo_def length_tx_frame
    by (rule master_echo) (use E ok(2) in \<open>auto simp: after_tx_def\<close>)
  have D0: "bus_node t None d = (None, d\<lparr>b_writer_tick := t\<rparr>)"
    using E by (simp add: rx_silent bus_idle_def device_entry)
  have D2: "\<And>xs. length xs = length (tx_frame u d1) \<Longrightarrow> node_run bus_node u xs d1 = (map Some (tx_frame u d1), after_tx u d1)"
    using d1 hp tx_frame_run [of d1 _ u] by (simp add: length_tx_frame)
  have D3: "bus_node (u + of_nat (tx_length d1)) (Some ARP_BUS_EOF) (after_tx u d1) =
      (None, (after_tx u d1)\<lparr>b_writer_tick := u + of_nat (tx_length d1)\<rparr>)"
    by (subst idle_ignores) (use d1(3) in \<open>simp_all add: after_tx_def rx_entry_def\<close>)
  obtain reqb respb where b: "tx_frame t m = reqb @ [ARP_BUS_EOF]" "tx_frame u d1 = respb @ [ARP_BUS_EOF]"
    using frame_bytes_split unfolding tx_frame_def by metis
  have "wire_run bus_node bus_node (length (tx_frame t m) + length (tx_frame u d1) + 2) t (None, m, d) =
      (None, m3, (after_tx u d1)\<lparr>b_writer_tick := u + of_nat (tx_length d1)\<rparr>)"
    by (rule link_run [OF b M1 M2 _ D0])
      (use M3 D1 D2 D3 in \<open>simp_all add: u length_tx_frame ac_simps\<close>)
  then show ?thesis by (simp only: length_tx_frame)
qed

text \<open>Frames without data, and the frame of a parameter window.\<close>

lemma tx_no_data:
  assumes "b_msg_flag s = ARP_FLAG_DATA_REQ \<or> b_msg_flag s = ARP_FLAG_CMD_RESP"
  shows "tx_frame t s = frame_bytes (b_target_addr s) (b_msg_flag s) (ucast (t + 1)) 0 []" "tx_length s = 4"
proof -
  have "calc_nblocks s = 0" "tx_payload s = []" using assms by (auto simp: calc_nblocks_def tx_payload_def)
  then show "tx_frame t s = frame_bytes (b_target_addr s) (b_msg_flag s) (ucast (t + 1)) 0 []" "tx_length s = 4"
    by (simp_all add: tx_frame_def tx_length_def)
qed

lemma tx_buffer_frame:
  assumes "bus_wf s" "buffers_ok s"
  shows "tx_frame t s = frame_bytes (b_target_addr s) (b_msg_flag s) (ucast (t + 1)) (of_nat (length (tx_buffer s)))
      (block_bytes (tx_buffer s))" "tx_length s = 4 + 2 * length (tx_buffer s)"
proof -
  note pay = tx_payload_buffer [OF assms]
  have "calc_nblocks s = of_nat (length (tx_buffer s))" using pay(2) by (metis of_nat_unat ucast_id)
  then show "tx_frame t s = frame_bytes (b_target_addr s) (b_msg_flag s) (ucast (t + 1)) (of_nat (length (tx_buffer s)))
      (block_bytes (tx_buffer s))" by (simp only: tx_frame_def pay(1))
  show "tx_length s = 4 + 2 * length (tx_buffer s)" by (simp add: tx_length_def pay(2))
qed

lemma wire_data_exchange:
  assumes ok: "exchange_pair m d" "b_msg_flag m = ARP_FLAG_DATA_REQ" "b_prm m = Some p" "b_prm_buf d = Some q"
    and F: "prm_frame_blocks d = prm_frame_blocks m" "b_prm_frame_offset m + prm_frame_blocks m \<le> b_prm_blocks m"
  shows "\<exists>m' d'. wire_run bus_node bus_node (2 * prm_frame_blocks m + 10) t (None, m, d) = (None, m', d') \<and>
    bus_idle m' \<and> b_result_ready m' \<and> b_last_result m' = res_success \<and> b_cmd m' = b_cmd m \<and>
    b_prm m' = Some (take (b_prm_frame_offset m) p @ take (prm_frame_blocks m) q @
      drop (b_prm_frame_offset m + prm_frame_blocks m) p) \<and>
    bus_idle d' \<and> b_prm_buf d' = Some q \<and> b_cmd d' = b_cmd d \<and> b_prm d' = b_prm d"
proof -
  note E = ok(1) [unfolded exchange_pair_def]
  let ?F = "prm_frame_blocks m" and ?xs = "take (prm_frame_blocks m) q" and ?d0 = "d\<lparr>b_writer_tick := t\<rparr>"
  have F32: "?F < 32" "?F \<le> length q" "length ?xs = ?F"
    using E F(1) ok(4) frame_blocks_bound(2) [of d] by (auto simp: buffers_ok_def bus_wf_def span_ok_def)
  have req: "tx_frame t m = frame_bytes (b_self_addr d) ARP_FLAG_DATA_REQ (ucast (t + 1)) 0 []" "tx_length m = 4"
    using tx_no_data(1) [of m t] tx_no_data(2) [of m] ok(2) E by simp_all
  have "\<exists>d1. node_run bus_node (t + 1) (map Some (frame_bytes (b_self_addr d) ARP_FLAG_DATA_REQ (ucast (t + 1)) 0 [])) ?d0 =
      (replicate 4 None, d1) \<and>
    b_exchange_flag d1 = ex_tx \<and> b_tx_flag d1 = tx_sof \<and> b_msg_flag d1 = ARP_FLAG_DATA_RESP \<and>
    b_role d1 = b_role ?d0 \<and> b_target_addr d1 = b_target_addr ?d0 \<and> b_prm_buf d1 = b_prm_buf ?d0 \<and>
    b_cmd d1 = b_cmd ?d0 \<and> b_prm d1 = b_prm ?d0 \<and> prm_frame_blocks d1 = prm_frame_blocks ?d0 \<and>
    bus_wf d1 \<and> buffers_ok d1"
    by (rule device_request) (use E in \<open>simp_all add: wf_fields bus_idle_def addr_fits\<close>)
  then obtain d1 where D1: "node_run bus_node (t + 1) (map Some (tx_frame t m)) ?d0 = (replicate (tx_length m) None, d1)"
    and d1: "b_exchange_flag d1 = ex_tx" "b_tx_flag d1 = tx_sof" "b_role d1 = bus_device" "buffers_ok d1" "bus_wf d1"
      "b_msg_flag d1 = ARP_FLAG_DATA_RESP" "b_target_addr d1 = b_self_addr m" "b_prm_buf d1 = Some q" "b_cmd d1 = b_cmd d"
      "b_prm d1 = b_prm d" "prm_frame_blocks d1 = ?F"
    unfolding req using E F(1) ok(4) by auto
  define u where "u = t + of_nat (tx_length m) + 1"
  have buf: "tx_buffer d1 = ?xs" using d1 by (simp add: tx_buffer_def)
  note resp = tx_buffer_frame(1) [OF d1(5,4), where t = u, unfolded buf d1(6,7)] tx_buffer_frame(2) [OF d1(5,4), unfolded buf]
  let ?m2 = "after_echo t m"
  have m2: "bus_wf ?m2" "buffers_ok ?m2" "prm_frame_blocks ?m2 = ?F"
    using E after_tx_ok [of m t] by (simp_all add: after_echo_def wf_fields after_tx_frames)
  have "\<exists>m3. node_run bus_node (u + 1) (map Some (frame_bytes (b_self_addr m) ARP_FLAG_DATA_RESP (ucast (u + 1))
        (of_nat (length ?xs)) (block_bytes ?xs))) ?m2 = (replicate (4 + 2 * length ?xs) None, m3) \<and>
    bus_idle m3 \<and> b_result_ready m3 \<and> b_last_result m3 = res_success \<and> b_cmd m3 = b_cmd ?m2 \<and>
    b_prm m3 = Some (take (b_prm_frame_offset ?m2) p @ ?xs @ drop (b_prm_frame_offset ?m2 + length ?xs) p)"
    by (rule master_data_response [OF _ _ _ _ m2(1,2)], unfold m2(3))
      (use E ok F F32 in \<open>simp_all add: after_echo_def after_tx_def addr_fits\<close>)
  then obtain m3 where M3: "node_run bus_node (u + 1) (map Some (tx_frame u d1)) ?m2 = (replicate (tx_length d1) None, m3)"
    and m3: "bus_idle m3" "b_result_ready m3" "b_last_result m3 = res_success" "b_cmd m3 = b_cmd m"
      "b_prm m3 = Some (take (b_prm_frame_offset m) p @ ?xs @ drop (b_prm_frame_offset m + ?F) p)"
    unfolding resp using F32(3) by (auto simp: after_echo_def after_tx_def)
  have len: "tx_length m + tx_length d1 + 2 = 2 * ?F + 10" using F32(3) by (simp add: req(2) resp(2))
  have "wire_run bus_node bus_node (2 * ?F + 10) t (None, m, d) =
      (None, m3, (after_tx u d1)\<lparr>b_writer_tick := u + of_nat (tx_length d1)\<rparr>)" (is "_ = (None, m3, ?d3)")
    unfolding len [symmetric] by (rule exchange_link [OF ok(1) _ u_def D1 d1(1-4) M3]) (simp add: ok(2))
  moreover have "bus_idle ?d3 \<and> b_prm_buf ?d3 = Some q \<and> b_cmd ?d3 = b_cmd d \<and> b_prm ?d3 = b_prm d"
    using d1 by (simp add: after_tx_def bus_idle_def)
  ultimately show ?thesis using m3 by blast
qed

subsection \<open>Merging the buffer into the commands of a node\<close>

lemma merge_slots_blocks: "snd (merge_slots blk_rd blk_wr src sa da is dst) = snd dst"
proof (induction "is" arbitrary: dst)
  case (Cons i "is")
  have "snd d' = snd dst" if "blk_wr dst (da i) v = Some d'" for v d'
    using that by (auto simp: blk_wr_def split: prod.splits)
  then show ?case by (auto simp: Cons.IH split: option.split)
qed simp

lemma blk_rd_shape: "blk_rd (Some xs, n) a \<noteq> None \<Longrightarrow> blk_rd (Some ys, n) a \<noteq> None"
  by (cases a) (auto simp: blk_rd_def read_value_def read_discrete_def Let_def split: if_splits)

definition own_rows :: "u8 \<Rightarrow> tab_entry list" where
  "own_rows s = filter (\<lambda>e. te_sys_id e = s \<and> type_width_bits (te_type e) \<noteq> 0) S_basecommtab"

lemma row_slot:
  assumes "e \<in> set S_basecommtab"
  shows "item_slot e = entry_slot e" "type_width_bits (te_type e) \<noteq> 0"
proof -
  have "list_all (\<lambda>e. nat (te_block_n e mod 256) = nat (te_block_n e) \<and> type_width_bits (te_type e) \<noteq> 0) S_basecommtab" by code_simp
  then show "item_slot e = entry_slot e" "type_width_bits (te_type e) \<noteq> 0"
    using assms by (auto simp: list_all_iff item_slot_def entry_slot_def)
qed

lemma own_rows_apart: "blkmem.slots_apart item_slot (own_rows s)"
proof -
  let ?A = "\<lambda>e e'. te_sys_id e = te_sys_id e' \<longrightarrow> blk_apart (item_slot e) (item_slot e') \<and> blk_apart (item_slot e') (item_slot e)"
  have "?A (S_basecommtab ! i) (S_basecommtab ! j)" if "i < j" "j < length S_basecommtab" for i j
  proof
    assume q: "te_sys_id (S_basecommtab ! i) = te_sys_id (S_basecommtab ! j)"
    have k: "i < length S_basecommtab" "i \<noteq> j" "j \<noteq> i" using that by simp_all
    have sl: "item_slot (S_basecommtab ! m) = entry_slot (S_basecommtab ! m)" if "m < length S_basecommtab" for m
      by (rule row_slot) (use that in \<open>rule nth_mem\<close>)
    show "blk_apart (item_slot (S_basecommtab ! i)) (item_slot (S_basecommtab ! j)) \<and>
        blk_apart (item_slot (S_basecommtab ! j)) (item_slot (S_basecommtab ! i))"
      unfolding sl [OF k(1)] sl [OF that(2)]
      using rows_apart [OF comm_rows_ordered comm_rows_placed k(1) that(2) k(2) q]
        rows_apart [OF comm_rows_ordered comm_rows_placed that(2) k(1) k(3) q [symmetric]] by blast
  qed
  then have "sorted_wrt ?A S_basecommtab" by (simp only: sorted_wrt_iff_nth_less) blast
  then have "sorted_wrt ?A (own_rows s)" unfolding own_rows_def by (rule sorted_wrt_filter)
  then show ?thesis unfolding blkmem.slots_apart_def
    by (rule sorted_wrt_mono_rel [rotated]) (auto simp: own_rows_def)
qed

text \<open>
  What a device makes of a window \<open>xs\<close> of commands, field by field: the field of a command of its own
  system is taken from the window unless it is zero (or lies beyond the buffer) there, and every part
  of the command image that belongs to no command of its system keeps its value. A device without a
  system takes nothing.
\<close>

definition commands_merged :: "u16 list \<Rightarrow> bus_state \<Rightarrow> u16 list option \<Rightarrow> bool" where
  "commands_merged xs d c' \<longleftrightarrow>
     map_option length c' = map_option length (b_cmd d) \<and> (b_system_id d = SYS_NONE \<longrightarrow> c' = b_cmd d) \<and>
     (b_system_id d \<noteq> SYS_NONE \<longrightarrow> (let buf = map_option (\<lambda>b. xs @ drop (length xs) b) (b_cmd_buf d); own = own_rows (b_system_id d) in
        (\<forall>e \<in> set own. let old = blk_rd (b_cmd d, b_cmd_blocks d) (entry_slot e); new = blk_rd (buf, b_cmd_buf_blocks d) (entry_slot e) in
           blk_rd (c', b_cmd_blocks d) (entry_slot e) = (if old = None \<or> new = None \<or> new = Some 0 then old else new)) \<and>
        (\<forall>a. (\<forall>e \<in> set own. blk_apart (entry_slot e) a) \<longrightarrow> blk_rd (c', b_cmd_blocks d) a = blk_rd (b_cmd d, b_cmd_blocks d) a)))"

text \<open>A device that receives commands: the fields of the window that are not zero reach its command image.\<close>

definition received_cmds :: "u16 list \<Rightarrow> bus_state \<Rightarrow> u16 list option" where
  "received_cmds xs d = b_cmd (merge_nonzero_cmd_fields
     (d\<lparr>b_cmd_buf := map_option (\<lambda>b. xs @ drop (length xs) b) (b_cmd_buf d)\<rparr>))"

lemma received_merged:
  assumes "bus_wf d" "b_cmd_buf d = Some b"
  shows "commands_merged xs d (received_cmds xs d)"
proof -
  let ?buf = "(Some (xs @ drop (length xs) b), b_cmd_buf_blocks d)" and ?own = "own_rows (b_system_id d)"
  have inv: "blk_inv (b_cmd d, b_cmd_blocks d)" using assms(1) by (simp add: blk_inv_def bus_wf_def)
  show ?thesis
  proof (cases "b_system_id d = SYS_NONE \<or> b_cmd d = None")
    case True
    then have "received_cmds xs d = b_cmd d" by (auto simp: received_cmds_def merge_nonzero_cmd_fields_def)
    moreover have none: "blk_rd (None, n) a = None" for n a by (cases a) (simp add: blk_rd_def)
    ultimately show ?thesis using True by (auto simp: commands_merged_def Let_def none)
  next
    case False
    then obtain c where c: "b_cmd d = Some c" by auto
    let ?m = "merge_slots blk_rd blk_wr ?buf item_slot item_slot ?own (Some c, b_cmd_blocks d)"
    have r: "received_cmds xs d = fst ?m"
      using False by (simp add: received_cmds_def merge_nonzero_cmd_fields_def own_rows_def assms(2) c)
    have len: "map_option length (fst ?m) = map_option length (b_cmd d)" by (simp add: merge_slots_length c)
    then obtain zs where zs: "fst ?m = Some zs" by (auto simp: c)
    have m: "?m = (Some zs, b_cmd_blocks d)"
      using zs merge_slots_blocks [of ?buf item_slot item_slot ?own "(Some c, b_cmd_blocks d)"] by (simp add: prod_eq_iff)
    have inv': "blk_inv (Some c, b_cmd_blocks d)" using inv by (simp add: c)
    have sl: "item_slot e = entry_slot e" if "e \<in> set ?own" for e using row_slot(1) that by (auto simp: own_rows_def)
    have val: "blk_rd (Some zs, b_cmd_blocks d) (entry_slot e) =
        (if blk_rd (Some c, b_cmd_blocks d) (entry_slot e) = None \<or> blk_rd ?buf (entry_slot e) = None \<or> blk_rd ?buf (entry_slot e) = Some 0
         then blk_rd (Some c, b_cmd_blocks d) (entry_slot e) else blk_rd ?buf (entry_slot e))" if e: "e \<in> set ?own" for e
    proof (cases "blk_rd (Some c, b_cmd_blocks d) (entry_slot e) = None")
      case True
      then have "blk_rd (Some zs, b_cmd_blocks d) (entry_slot e) = None" using blk_rd_shape by blast
      then show ?thesis using True by simp
    next
      case False
      then show ?thesis
        using blkmem.merge_slots_value [OF own_rows_apart e, of "(Some c, b_cmd_blocks d)" ?buf item_slot] blkmem.rd_fits inv'
        unfolding m by (auto simp: sl [OF e] split: option.split)
    qed
    have frame: "blk_rd (Some zs, b_cmd_blocks d) a = blk_rd (Some c, b_cmd_blocks d) a" if "\<forall>e \<in> set ?own. blk_apart (entry_slot e) a" for a
      using blkmem.merge_slots_frame [of ?own item_slot a "(Some c, b_cmd_blocks d)" ?buf item_slot] inv' that unfolding m by (simp add: sl)
    show ?thesis
      using False val frame len by (simp add: commands_merged_def r zs c assms(2) Let_def)
  qed
qed

lemma merge_cong:
  assumes "b_system_id s' = b_system_id s" "b_cmd s' = b_cmd s" "b_cmd_buf s' = b_cmd_buf s"
    "b_cmd_buf_blocks s' = b_cmd_buf_blocks s" "b_cmd_blocks s' = b_cmd_blocks s"
  shows "b_cmd (merge_nonzero_cmd_fields s') = b_cmd (merge_nonzero_cmd_fields s)"
  using assms by (simp add: merge_nonzero_cmd_fields_def)

lemma device_command:
  assumes "b_role d = bus_device" "bus_idle d" "bus_wf d" "buffers_ok d" "b_wait_clock d = 0"
    and "take_bit 5 a = b_self_addr d" "length xs \<le> cmd_frame_blocks d"
  shows "\<exists>d'. node_run bus_node t (map Some (frame_bytes a ARP_FLAG_CMD_REQ k (of_nat (length xs)) (block_bytes xs))) d =
      (replicate (4 + 2 * length xs) None, d') \<and>
    b_exchange_flag d' = ex_tx \<and> b_tx_flag d' = tx_sof \<and> b_msg_flag d' = ARP_FLAG_CMD_RESP \<and>
    b_role d' = b_role d \<and> b_target_addr d' = b_target_addr d \<and> b_cmd d' = received_cmds xs d \<and>
    b_prm d' = b_prm d \<and> b_prm_buf d' = b_prm_buf d \<and> buffers_ok d'"
proof -
  let ?h = "rx_header_done t a ARP_FLAG_CMD_REQ k (of_nat (length xs)) d"
  have idle: "b_exchange_flag d = ex_rx" "b_rx_flag d = rx_sof" "b_wait_clock d < 10"
    using assms(2,5) by (simp_all add: bus_idle_def)
  obtain b where b: "b_cmd_buf d = Some b" using assms(4) by (auto simp: buffers_ok_def)
  have F: "cmd_frame_blocks d < 32" "cmd_frame_blocks d \<le> b_cmd_buf_blocks d" "b_cmd_buf_blocks d \<le> length b"
    using assms(3,4) b frame_blocks_bound(1) [of d] by (auto simp: buffers_ok_def bus_wf_def span_ok_def)
  have hF: "cmd_frame_blocks ?h = cmd_frame_blocks d" by (simp add: rx_header_done_def cmd_frame_blocks_def)
  have put: "put_rx_blocks ?h 0 xs = ?h\<lparr>b_cmd_buf := Some (take 0 b @ xs @ drop (0 + length xs) b)\<rparr>"
    by (rule put_rx_blocks_cmd; (unfold hF)?) (use F b assms(6,7) in \<open>simp_all add: rx_header_done_def\<close>)
  define z where "z = rx_entry (t + 3 + of_nat (2 * length xs)) (rx_loaded t a ARP_FLAG_CMD_REQ k xs d)"
  have z: "b_adr_flag z" "b_msg_flag z = ARP_FLAG_CMD_REQ" "b_cmd_buf z = Some (xs @ drop (length xs) b)"
    "b_role z = b_role d" "b_target_addr z = b_target_addr d" "b_prm z = b_prm d" "b_prm_buf z = b_prm_buf d"
    "b_cmd z = b_cmd d" "b_system_id z = b_system_id d" "b_cmd_buf_blocks z = b_cmd_buf_blocks d"
    "b_cmd_blocks z = b_cmd_blocks d" "b_prm_buf_blocks z = b_prm_buf_blocks d"
    "fst (b_header z) = None \<longleftrightarrow> fst (b_header d) = None" "snd (b_header z) = None \<longleftrightarrow> snd (b_header d) = None"
    using assms(6) unfolding z_def rx_loaded_def put by (simp_all add: rx_entry_def rx_header_done_def)
  have zF: "cmd_frame_blocks z = cmd_frame_blocks d" "prm_frame_blocks z = prm_frame_blocks d"
    unfolding z_def rx_loaded_def put by (simp_all add: rx_entry_def rx_header_done_def cmd_frame_blocks_def prm_frame_blocks_def)
  let ?d' = "to_response (merge_nonzero_cmd_fields z) ARP_FLAG_CMD_RESP"
  have eof: "IRX_EOF no_bus_hooks (Some ARP_BUS_EOF) z = ?d'" by (simp add: IRX_EOF_def z)
  have "node_run bus_node t (map Some (frame_bytes a ARP_FLAG_CMD_REQ k (of_nat (length xs)) (block_bytes xs))) d =
      (replicate (4 + 2 * length xs) None, IRX_EOF no_bus_hooks (Some ARP_BUS_EOF) z)"
    unfolding z_def by (rule receive_frame_run [OF idle assms(3,4)]) (use assms(7) F in simp)
  note run = this [unfolded eof]
  have sw: "same_wiring z (merge_nonzero_cmd_fields z)" by simp
  have "cmd_frame_blocks ?d' = cmd_frame_blocks z" "prm_frame_blocks ?d' = prm_frame_blocks z"
    using sw by (simp_all add: to_response_def cmd_frame_blocks_def prm_frame_blocks_def same_wiring_def)
  note fr = this [unfolded zF]
  have ok: "buffers_ok ?d'"
    by (rule buffers_ok_cong [OF assms(4)]; (rule fr)?)
      (use assms(4) sw z in \<open>simp_all add: to_response_def buffers_ok_def same_wiring_def\<close>)
  have "b_cmd (merge_nonzero_cmd_fields z) = received_cmds xs d"
    unfolding received_cmds_def by (rule merge_cong) (simp_all add: z b)
  then show ?thesis
    using run ok sw z by (auto simp: to_response_def same_wiring_def)
qed

lemma master_command_response:
  assumes "b_role m = bus_master" "b_exchange_flag m = ex_rx" "b_rx_flag m = rx_sof" "b_wait_clock m < 10"
    "bus_wf m" "buffers_ok m" "take_bit 5 a = b_self_addr m"
  shows "\<exists>m'. node_run bus_node t (map Some (frame_bytes a ARP_FLAG_CMD_RESP k 0 [])) m = (replicate 4 None, m') \<and>
    bus_idle m' \<and> b_result_ready m' \<and> b_last_result m' = res_success \<and> b_cmd m' = b_cmd m \<and>
    b_cmd_buf m' = b_cmd_buf m \<and> b_prm m' = b_prm m"
proof -
  define z where "z = rx_entry (t + 3) (rx_loaded t a ARP_FLAG_CMD_RESP k [] m)"
  have z: "b_adr_flag z" "b_msg_flag z = ARP_FLAG_CMD_RESP" "b_role z = bus_master" "b_cmd z = b_cmd m"
    "b_cmd_buf z = b_cmd_buf m" "b_prm z = b_prm m"
    using assms(1,7) by (simp_all add: z_def rx_entry_def rx_loaded_def rx_header_done_def)
  have eof: "IRX_EOF no_bus_hooks (Some ARP_BUS_EOF) z = reset_to_idle (mark_result z res_success)"
    by (simp add: IRX_EOF_def z)
  have "node_run bus_node t (map Some (frame_bytes a ARP_FLAG_CMD_RESP k 0 [])) m =
      (replicate 4 None, IRX_EOF no_bus_hooks (Some ARP_BUS_EOF) z)"
    using receive_frame_run [OF assms(2-6), of "[]" t a ARP_FLAG_CMD_RESP k] by (simp add: z_def)
  then show ?thesis
    unfolding eof by (simp add: z reset_to_idle_def IBUS_RESET_FRAME_LAYOUT_def mark_result_def bus_idle_def)
qed

lemma wire_command_exchange:
  assumes ok: "exchange_pair m d" "b_msg_flag m = ARP_FLAG_CMD_REQ" "b_cmd_buf m = Some q"
    and F: "cmd_frame_blocks d = cmd_frame_blocks m"
  shows "\<exists>m' d'. wire_run bus_node bus_node (2 * cmd_frame_blocks m + 10) t (None, m, d) = (None, m', d') \<and>
    bus_idle m' \<and> b_result_ready m' \<and> b_last_result m' = res_success \<and> b_cmd m' = b_cmd m \<and> b_prm m' = b_prm m \<and>
    bus_idle d' \<and> b_cmd d' = received_cmds (take (cmd_frame_blocks m) q) d \<and> b_prm d' = b_prm d"
proof -
  note E = ok(1) [unfolded exchange_pair_def]
  let ?F = "cmd_frame_blocks m" and ?xs = "take (cmd_frame_blocks m) q" and ?d0 = "d\<lparr>b_writer_tick := t\<rparr>"
  have F32: "?F \<le> length q" "length ?xs = ?F"
    using E ok(3) frame_blocks_bound(1) [of m] by (auto simp: buffers_ok_def bus_wf_def span_ok_def)
  have buf: "tx_buffer m = ?xs" using ok(2,3) by (simp add: tx_buffer_def)
  have req: "tx_frame t m = frame_bytes (b_self_addr d) ARP_FLAG_CMD_REQ (ucast (t + 1)) (of_nat (length ?xs)) (block_bytes ?xs)"
    "tx_length m = 4 + 2 * length ?xs"
    using tx_buffer_frame(1) [of m t] tx_buffer_frame(2) [of m] buf ok(2) E by simp_all
  have r0: "received_cmds ?xs ?d0 = received_cmds ?xs d" unfolding received_cmds_def by (rule merge_cong) simp_all
  have "\<exists>d1. node_run bus_node (t + 1) (map Some (frame_bytes (b_self_addr d) ARP_FLAG_CMD_REQ (ucast (t + 1))
        (of_nat (length ?xs)) (block_bytes ?xs))) ?d0 = (replicate (4 + 2 * length ?xs) None, d1) \<and>
    b_exchange_flag d1 = ex_tx \<and> b_tx_flag d1 = tx_sof \<and> b_msg_flag d1 = ARP_FLAG_CMD_RESP \<and>
    b_role d1 = b_role ?d0 \<and> b_target_addr d1 = b_target_addr ?d0 \<and> b_cmd d1 = received_cmds ?xs ?d0 \<and>
    b_prm d1 = b_prm ?d0 \<and> b_prm_buf d1 = b_prm_buf ?d0 \<and> buffers_ok d1"
    by (rule device_command) (use E F F32 in \<open>simp_all add: wf_fields bus_idle_def addr_fits\<close>)
  then obtain d1 where D1: "node_run bus_node (t + 1) (map Some (tx_frame t m)) ?d0 = (replicate (tx_length m) None, d1)"
    and d1: "b_exchange_flag d1 = ex_tx" "b_tx_flag d1 = tx_sof" "b_role d1 = bus_device" "buffers_ok d1"
      "b_msg_flag d1 = ARP_FLAG_CMD_RESP" "b_target_addr d1 = b_self_addr m" "b_prm d1 = b_prm d"
      "b_cmd d1 = received_cmds ?xs d"
    unfolding req r0 using E by auto
  define u where "u = t + of_nat (tx_length m) + 1"
  have resp: "tx_frame u d1 = frame_bytes (b_self_addr m) ARP_FLAG_CMD_RESP (ucast (u + 1)) 0 []" "tx_length d1 = 4"
    using tx_no_data(1) [of d1 u] tx_no_data(2) [of d1] d1(5,6) by simp_all
  have "\<exists>m3. node_run bus_node (u + 1) (map Some (frame_bytes (b_self_addr m) ARP_FLAG_CMD_RESP (ucast (u + 1)) 0 []))
        (after_echo t m) = (replicate 4 None, m3) \<and>
    bus_idle m3 \<and> b_result_ready m3 \<and> b_last_result m3 = res_success \<and> b_cmd m3 = b_cmd (after_echo t m) \<and>
    b_cmd_buf m3 = b_cmd_buf (after_echo t m) \<and> b_prm m3 = b_prm (after_echo t m)"
    by (rule master_command_response)
      (use E after_tx_ok [of m t] in \<open>simp_all add: after_echo_def wf_fields\<close>, simp_all add: after_tx_def addr_fits)
  then obtain m3 where M3: "node_run bus_node (u + 1) (map Some (tx_frame u d1)) (after_echo t m) = (replicate (tx_length d1) None, m3)"
    and m3: "bus_idle m3" "b_result_ready m3" "b_last_result m3 = res_success" "b_cmd m3 = b_cmd m" "b_prm m3 = b_prm m"
    unfolding resp by (auto simp: after_echo_def after_tx_def)
  have len: "tx_length m + tx_length d1 + 2 = 2 * ?F + 10" using F32(2) by (simp add: req(2) resp(2))
  have "wire_run bus_node bus_node (2 * ?F + 10) t (None, m, d) =
      (None, m3, (after_tx u d1)\<lparr>b_writer_tick := u + of_nat (tx_length d1)\<rparr>)" (is "_ = (None, m3, ?d3)")
    unfolding len [symmetric] by (rule exchange_link [OF ok(1) _ u_def D1 d1(1-4) M3]) (simp add: ok(2))
  moreover have "bus_idle ?d3 \<and> b_cmd ?d3 = received_cmds ?xs d \<and> b_prm ?d3 = b_prm d"
    using d1 by (simp add: after_tx_def bus_idle_def)
  ultimately show ?thesis using m3 by blast
qed

subsection \<open>Properties\<close>

text \<open>
  C25: a frame that is not addressed to the node - whatever its flag, marker and payload - leaves no
  trace: after its last byte the node is idle, its commands, parameters and both receive buffers
  are as before, it has written nothing to the bus, and it reports no result.
\<close>

theorem foreign_frame_ignored:
  assumes "b_exchange_flag s = ex_rx" "b_rx_flag s = rx_sof" "b_wait_clock s < 10" "bus_wf s" "buffers_ok s"
    and "length xs < 32" and "a < 32" "a \<noteq> b_self_addr s"
  shows "\<exists>s'. node_run bus_node t (map Some (frame_bytes a f k (of_nat (length xs)) (block_bytes xs))) s =
      (replicate (4 + 2 * length xs) None, s') \<and> b_exchange_flag s' = ex_rx \<and> b_rx_flag s' = rx_sof \<and> \<not> b_busy s' \<and>
    b_cmd s' = b_cmd s \<and> b_prm s' = b_prm s \<and> b_cmd_buf s' = b_cmd_buf s \<and> b_prm_buf s' = b_prm_buf s \<and>
    b_result_ready s' = b_result_ready s \<and> b_last_result s' = b_last_result s"
proof -
  let ?h = "rx_header_done t a f k (of_nat (length xs)) s"
  have "\<not> b_adr_flag ?h" using assms(7,8) by (simp add: rx_header_done_def addr_fits)
  then have put: "put_rx_blocks ?h 0 xs = ?h" by (intro put_rx_blocks_none) simp
  define z where "z = rx_entry (t + 3 + of_nat (2 * length xs)) (rx_loaded t a f k xs s)"
  have z: "\<not> b_adr_flag z" "b_cmd z = b_cmd s" "b_prm z = b_prm s" "b_cmd_buf z = b_cmd_buf s" "b_prm_buf z = b_prm_buf s"
    "b_result_ready z = b_result_ready s" "b_last_result z = b_last_result s"
    using \<open>\<not> b_adr_flag ?h\<close> unfolding z_def rx_loaded_def put by (simp_all add: rx_entry_def rx_header_done_def)
  have eof: "IRX_EOF no_bus_hooks (Some ARP_BUS_EOF) z = reset_to_idle z" by (simp add: IRX_EOF_def z)
  have "node_run bus_node t (map Some (frame_bytes a f k (of_nat (length xs)) (block_bytes xs))) s =
      (replicate (4 + 2 * length xs) None, IRX_EOF no_bus_hooks (Some ARP_BUS_EOF) z)"
    unfolding z_def by (rule receive_frame_run [OF assms(1-6)])
  then show ?thesis unfolding eof by (simp add: z reset_to_idle_def IBUS_RESET_FRAME_LAYOUT_def)
qed

text \<open>A master that has just been told to ask the device, and the device, both with two-block messages.\<close>

definition demo_master :: "u8 \<Rightarrow> bus_state" where
  "demo_master flag = (IBUS_BIND_STD bus_master SYS_CS 1 2 (Some 0, Some (0, 0)) None (Some [7, 0]) 2
     None (Some [0, 0]) 2 (Some [0, 0]) (Some [0, 0]) 2 2)\<lparr>b_exchange_flag := ex_tx, b_msg_flag := flag\<rparr>"

definition demo_device :: bus_state where
  "demo_device = IBUS_BIND_STD bus_device SYS_PSS 2 1 (Some 0, Some (0, 0)) None (Some [0, 0]) 2
     None (Some [0x1234, 0xABCD]) 2 (Some [0, 0]) (Some [0, 0]) 2 2"

lemma demo_pair: "exchange_pair (demo_master flag) demo_device"
proof -
  have z: "byte_lo 0 = 0" "byte_hi 0 = 0" by code_simp+
  show ?thesis
    by (simp add: exchange_pair_def demo_master_def demo_device_def IBUS_BIND_STD_def bus_state0_def bus_wf_def span_ok_def
        hdr_coherent_def clamp_frame_blocks_def z buffers_ok_def cmd_frame_blocks_def prm_frame_blocks_def bus_idle_def)
qed

lemma demo_fields:
  "b_prm (demo_master flag) = Some [0, 0]" "b_cmd_buf (demo_master flag) = Some [7, 0]" "b_prm_buf demo_device = Some [0x1234, 0xABCD]"
  "b_msg_flag (demo_master flag) = flag" "prm_frame_blocks demo_device = 2" "prm_frame_blocks (demo_master flag) = 2"
  "cmd_frame_blocks demo_device = 2" "cmd_frame_blocks (demo_master flag) = 2"
  "b_prm_frame_offset (demo_master flag) = 0" "b_prm_blocks (demo_master flag) = 2"
  by (simp_all add: demo_master_def demo_device_def IBUS_BIND_STD_def clamp_frame_blocks_def cmd_frame_blocks_def
      prm_frame_blocks_def)

lemma demo_device_ok: "bus_wf demo_device" "buffers_ok demo_device" "b_self_addr demo_device = 2"
  "b_exchange_flag demo_device = ex_rx" "b_rx_flag demo_device = rx_sof" "b_wait_clock demo_device = 0"
  using demo_pair [of 0] by (auto simp: exchange_pair_def bus_idle_def) (simp add: demo_device_def IBUS_BIND_STD_def)

theorem foreign_frame_ignored_witness:
  "\<exists>s'. node_run bus_node 5 (map Some (frame_bytes 3 0 0 1 (block_bytes [0xFFFF]))) demo_device =
     (replicate 6 None, s') \<and> b_cmd s' = b_cmd demo_device"
proof -
  have l: "4 + 2 * length [0xFFFF :: u16] = 6" "of_nat (length [0xFFFF :: u16]) = (1 :: u8)" by simp_all
  show ?thesis
    using foreign_frame_ignored [of demo_device "[0xFFFF]" 3 5 0 0, unfolded l] demo_device_ok by fastforce
qed

text \<open>
  C1: a data request and its response, over the simulated bus. A master in the transmit state that
  asks an idle device for its parameters is idle again after exactly 2F + 10 ticks (F the blocks of
  the window), reports success, and its parameter window holds the device's F buffer blocks, bit
  for bit; nothing else of its parameters or commands has changed, the device is idle with its
  data unchanged, and the bus is empty.
\<close>

theorem data_exchange_delivers:
  assumes "exchange_pair m d" "b_msg_flag m = ARP_FLAG_DATA_REQ" "b_prm m = Some p" "b_prm_buf d = Some q"
    and "prm_frame_blocks d = prm_frame_blocks m" "b_prm_frame_offset m + prm_frame_blocks m \<le> b_prm_blocks m"
    and "bus_quiet mb" "mock_bus_read_u8 mb t = None"
  shows "\<exists>mb' m' d'. pair_run mock_bus_read_u8 mock_bus_write_u8 mock_bus_tick bus_node bus_node
      (2 * prm_frame_blocks m + 10) t (mb, m, d) = (mb', m', d') \<and>
    bus_idle m' \<and> b_result_ready m' \<and> b_last_result m' = res_success \<and> b_cmd m' = b_cmd m \<and>
    b_prm m' = Some (take (b_prm_frame_offset m) p @ take (prm_frame_blocks m) q @
      drop (b_prm_frame_offset m + prm_frame_blocks m) p) \<and>
    bus_idle d' \<and> b_prm_buf d' = Some q \<and> b_cmd d' = b_cmd d \<and> b_prm d' = b_prm d \<and>
    bus_quiet mb' \<and> mock_bus_read_u8 mb' (t + of_nat (2 * prm_frame_blocks m + 10)) = None"
proof -
  obtain m' d' where w: "wire_run bus_node bus_node (2 * prm_frame_blocks m + 10) t (None, m, d) = (None, m', d')"
    "bus_idle m'" "b_result_ready m'" "b_last_result m' = res_success" "b_cmd m' = b_cmd m"
    "b_prm m' = Some (take (b_prm_frame_offset m) p @ take (prm_frame_blocks m) q @
      drop (b_prm_frame_offset m + prm_frame_blocks m) p)"
    "bus_idle d'" "b_prm_buf d' = Some q" "b_cmd d' = b_cmd d" "b_prm d' = b_prm d"
    using wire_data_exchange [OF assms(1-6), of t] by blast
  from wire_to_mock [OF w(1) assms(7,8)] w(2-) show ?thesis by blast
qed

theorem data_exchange_delivers_witness:
  "\<exists>mb' m' d'. pair_run mock_bus_read_u8 mock_bus_write_u8 mock_bus_tick bus_node bus_node 14 0
     (mock_bus_init, demo_master 2, demo_device) = (mb', m', d') \<and>
   b_last_result m' = res_success \<and> b_prm m' = Some [0x1234, 0xABCD]"
proof -
  have q: "bus_quiet mock_bus_init" "mock_bus_read_u8 mock_bus_init 0 = None"
    by (simp_all add: bus_quiet_def mock_bus_init_def mock_bus_read_u8_def)
  show ?thesis
    using data_exchange_delivers [OF demo_pair _ demo_fields(1,3) _ _ q, of 2]
    by (auto simp: demo_fields)
qed



text \<open>
  C26: a master waiting for a response on a silent bus gives up after exactly eleven ticks without
  a byte (ten counted, the eleventh over the limit): it reports a timeout and is idle again, having
  written nothing, and it reports nothing before.
\<close>

theorem master_timeout:
  assumes "b_role s = bus_master" "b_busy s" "b_exchange_flag s = ex_rx" "b_wait_clock s = 0"
  shows "(\<exists>s'. node_run bus_node t (replicate 10 None) s = (replicate 10 None, s') \<and>
      b_busy s' \<and> b_result_ready s' = b_result_ready s) \<and>
    (\<exists>s'. node_run bus_node t (replicate 11 None) s = (replicate 11 None, s') \<and>
      bus_idle s' \<and> b_result_ready s' \<and> b_last_result s' = res_timeout \<and> b_wait_clock s' = 0 \<and>
      b_cmd s' = b_cmd s \<and> b_prm s' = b_prm s)"
proof -
  obtain s1 where r: "node_run bus_node t (replicate 10 None) s = (replicate 10 None, s1)"
    and w: "unat (b_wait_clock s1) = 10" "\<exists>w. s1 = s\<lparr>b_wait_clock := b_wait_clock s1, b_writer_tick := w\<rparr>"
    using silent_run [of s 10 t] assms by auto
  have w10: "b_wait_clock s1 = 10" using w(1) by (simp add: word_unat_eq_iff)
  from w(2) obtain w where s1: "s1 = s\<lparr>b_wait_clock := 10, b_writer_tick := w\<rparr>" unfolding w10 by blast
  have "bus_node (t + 10) None s1 =
      (None, reset_to_idle (mark_result (s\<lparr>b_writer_tick := t + 10, b_wait_clock := 11\<rparr>) res_timeout))"
    using assms by (simp add: s1 bus_node_def IBUS_EXCHANGE_def IBUS_RX_EXCHANGE_def Let_def)
  then have "node_run bus_node t (replicate 10 None @ [None]) s = (replicate 10 None @ [None],
      reset_to_idle (mark_result (s\<lparr>b_writer_tick := t + 10, b_wait_clock := 11\<rparr>) res_timeout))"
    unfolding node_run_append by (simp add: r)
  moreover have "replicate 10 None @ [None] = replicate 11 (None :: u8 option)"
    by (simp add: numeral_eq_Suc)
  moreover have "b_busy s1" "b_result_ready s1 = b_result_ready s" using assms by (simp_all add: s1)
  ultimately show ?thesis
    using r by (auto simp: bus_idle_def reset_to_idle_def IBUS_RESET_FRAME_LAYOUT_def mark_result_def)
qed

theorem master_timeout_witness:
  "\<exists>s'. node_run bus_node 0 (replicate 11 None) ((demo_master 3)\<lparr>b_exchange_flag := ex_rx, b_busy := True\<rparr>) =
      (replicate 11 None, s') \<and> b_last_result s' = res_timeout"
  using master_timeout [of "(demo_master 3)\<lparr>b_exchange_flag := ex_rx, b_busy := True\<rparr>" 0]
  by (auto simp: demo_master_def IBUS_BIND_STD_def bus_state0_def)

end
