(* ===== verification/Scheduler.thy ===== *)
theory Scheduler
  imports BusExchange
begin

text \<open>
  The exchange scheduler of the central system, \<open>cs/src/cs_scheduler.cpp\<close> and
  \<open>cs/src/cs_scheduler_support.cpp\<close>: a fixed array of task slots, two queues of slots (normal and
  priority), at most one active task, and per-node windows of commands that wait for a successful
  transmission.

  The globals of the namespace are the fields of \<open>sched\<close>. A slot number is a \<open>nat\<close>, \<open>k_invalid_slot\<close> is
  \<open>None\<close>; a pointer to a node layout is its index in \<open>G_NODES\<close>; task id 0 is \<open>k_invalid_task_id\<close>. The
  arrays behind the pointers of \<open>context_t\<close> are fields of the state; the message context
  \<open>imsg_ctx\<close> shares its MSG_CMD with them. Log messages are left out.
\<close>

subsection \<open>State\<close>

datatype target_t = tgt_any | tgt_cs | tgt_pss | tgt_tcs | tgt_tms | tgt_mns | tgt_ls | tgt_count

datatype queue_class_t = qc_normal | qc_priority
datatype completion_kind_t = ck_command | ck_data_request
datatype completion_result_t = cr_none | cr_success | cr_timeout | cr_invalid_eof
datatype task_kind_t = tk_command | tk_data_request
datatype task_queue_t = tq_normal | tq_priority

record completion_t =
  cp_valid :: bool
  cp_target :: target_t
  cp_kind :: completion_kind_t
  cp_periodic :: bool
  cp_have_result :: bool
  cp_result :: completion_result_t

record node_layout_t =
  nl_target :: target_t
  nl_bus_addr :: u8
  nl_system_id :: u8
  nl_com_cs_base_block :: nat
  nl_com_blocks :: nat
  nl_par_cs_base_block :: nat
  nl_par_blocks :: nat
  nl_name :: string

record task_t =
  t_used :: bool
  t_queued :: bool
  t_active :: bool
  t_armed :: bool
  t_periodic :: bool
  t_enabled :: bool
  t_staged :: bool
  t_id :: u32
  t_kind :: task_kind_t
  t_queue :: task_queue_t
  t_node :: "nat option"
  t_command_id :: nat
  t_command_value :: fp
  t_has_value :: bool

record task_completion_t =
  tc_valid :: bool
  tc_id :: u32
  tc_target :: target_t
  tc_target_name :: string
  tc_kind :: task_kind_t
  tc_periodic :: bool
  tc_result :: exchange_result_t
  tc_have_result :: bool

record sched =
  sc_imsg_ctx :: "context_t option"
  sc_msg_cmd :: "u16 list option"
  sc_msg_cmd_blocks :: nat
  sc_msg_cmd_buf :: "u16 list option"
  sc_msg_cmd_buf_blocks :: nat
  sc_ready :: bool
  sc_next_id :: u32
  sc_active :: "nat option"
  sc_nodes :: "node_layout_t list"
  sc_tasks :: "task_t list"
  sc_normal :: "nat list"
  sc_priority :: "nat list"
  sc_completions :: "completion_t list"
  sc_burst :: nat
  sc_pending :: "u16 list list"

definition k_max_tasks :: nat where "k_max_tasks = 32"
definition k_invalid_task_id :: u32 where "k_invalid_task_id = 0"
definition k_priority_burst_limit :: nat where "k_priority_burst_limit = 3"
definition CS_COMM_BUF_BLOCKS :: nat where "CS_COMM_BUF_BLOCKS = 8"

definition task0 :: task_t where
  "task0 = \<lparr>t_used = False, t_queued = False, t_active = False, t_armed = False, t_periodic = False,
     t_enabled = False, t_staged = False, t_id = 0, t_kind = tk_data_request, t_queue = tq_normal,
     t_node = None, t_command_id = 0, t_command_value = Fin 1, t_has_value = False\<rparr>"

definition node_init :: "target_t \<Rightarrow> u8 \<Rightarrow> u8 \<Rightarrow> string \<Rightarrow> node_layout_t" where
  "node_init t a sys name = \<lparr>nl_target = t, nl_bus_addr = a, nl_system_id = sys, nl_com_cs_base_block = 0,
     nl_com_blocks = comm_msg_blocks sys, nl_par_cs_base_block = 0, nl_par_blocks = param_msg_blocks sys, nl_name = name\<rparr>"

definition G_NODES_init :: "node_layout_t list" where
  "G_NODES_init = [node_init tgt_pss ARP_ADDR_PSS SYS_PSS ''pss'', node_init tgt_tcs ARP_ADDR_TCS SYS_TCS ''tcs'',
     node_init tgt_tms ARP_ADDR_TMS SYS_TMS ''tms'', node_init tgt_mns ARP_ADDR_MNS SYS_MNS ''mns'',
     node_init tgt_ls ARP_ADDR_LS SYS_LS ''ls'']"

text \<open>The state before any call: static initialisation.\<close>

definition sched0 :: sched where
  "sched0 = \<lparr>sc_imsg_ctx = None, sc_msg_cmd = None, sc_msg_cmd_blocks = 0, sc_msg_cmd_buf = None,
     sc_msg_cmd_buf_blocks = 0, sc_ready = False, sc_next_id = 1, sc_active = None, sc_nodes = G_NODES_init,
     sc_tasks = replicate k_max_tasks task0, sc_normal = [], sc_priority = [], sc_completions = [], sc_burst = 0,
     sc_pending = replicate 5 (replicate CS_COMM_BUF_BLOCKS 0)\<rparr>"

subsection \<open>Conversions and lookups\<close>

definition task_kind_to_string :: "task_kind_t \<Rightarrow> string" where
  "task_kind_to_string k = (case k of tk_command \<Rightarrow> ''cmd'' | tk_data_request \<Rightarrow> ''data'')"

definition to_public_completion_kind :: "task_kind_t \<Rightarrow> completion_kind_t" where
  "to_public_completion_kind k = (if k = tk_command then ck_command else ck_data_request)"

definition to_public_completion_result :: "exchange_result_t \<Rightarrow> completion_result_t" where
  "to_public_completion_result r = (case r of res_success \<Rightarrow> cr_success | res_timeout \<Rightarrow> cr_timeout
     | res_invalid_eof \<Rightarrow> cr_invalid_eof | res_none \<Rightarrow> cr_none)"

definition to_task_queue :: "queue_class_t \<Rightarrow> task_queue_t" where
  "to_task_queue q = (if q = qc_priority then tq_priority else tq_normal)"

text \<open>A loop over an array that returns the first index that satisfies a test.\<close>

fun find_index :: "('a \<Rightarrow> bool) \<Rightarrow> 'a list \<Rightarrow> nat option" where
  "find_index P [] = None"
| "find_index P (x # xs) = (if P x then Some 0 else map_option Suc (find_index P xs))"

definition find_node_by_target :: "sched \<Rightarrow> target_t \<Rightarrow> nat option" where
  "find_node_by_target s t = find_index (\<lambda>n. nl_target n = t) (sc_nodes s)"

definition command_matches_node :: "node_layout_t \<Rightarrow> nat \<Rightarrow> bool" where
  "command_matches_node n c =
     (if c < Param_max \<or> c \<ge> Param_Comm_max then False
      else te_sys_id (S_basecommtab ! (c - Param_max)) = nl_system_id n)"

definition base_block_step :: "u8 \<Rightarrow> bool \<times> nat \<Rightarrow> tab_entry \<Rightarrow> bool \<times> nat" where
  "base_block_step sys = (\<lambda>(found, base) e.
     if te_sys_id e \<noteq> sys then (found, base)
     else let block = nat (te_cs_block_n e mod 256) in
          if \<not> found \<or> block < base then (True, block) else (found, base))"

definition find_base_block :: "u8 \<Rightarrow> tab_entry list \<Rightarrow> nat" where
  "find_base_block sys tab = (let (found, base) = foldl (base_block_step sys) (False, 0) tab in if found then base else 0)"

definition find_cs_command_base_block :: "u8 \<Rightarrow> nat" where
  "find_cs_command_base_block sys = find_base_block sys (take Comm_max S_basecommtab)"

definition find_cs_param_base_block :: "u8 \<Rightarrow> nat" where
  "find_cs_param_base_block sys = find_base_block sys (take Param_max S_baseparamtab)"

definition init_node_layouts :: "sched \<Rightarrow> sched" where
  "init_node_layouts s = s\<lparr>sc_nodes := map (\<lambda>n. n\<lparr>
     nl_com_cs_base_block := find_cs_command_base_block (nl_system_id n),
     nl_par_cs_base_block := find_cs_param_base_block (nl_system_id n)\<rparr>) (sc_nodes s)\<rparr>"

definition window_fits :: "nat \<Rightarrow> nat \<Rightarrow> nat \<Rightarrow> bool" where
  "window_fits off n cap \<longleftrightarrow> off \<le> cap \<and> n \<le> cap - off"

subsection \<open>Task slots and queues\<close>

definition set_task :: "nat \<Rightarrow> (task_t \<Rightarrow> task_t) \<Rightarrow> sched \<Rightarrow> sched" where
  "set_task i f s = s\<lparr>sc_tasks := (sc_tasks s)[i := f (sc_tasks s ! i)]\<rparr>"

definition clear_task_slot :: "nat \<Rightarrow> sched \<Rightarrow> sched" where
  "clear_task_slot i s = (if i \<ge> length (sc_tasks s) then s else set_task i (\<lambda>_. task0) s)"

fun remove_slot_from_queue :: "nat list \<Rightarrow> nat \<Rightarrow> nat list" where
  "remove_slot_from_queue [] i = []"
| "remove_slot_from_queue (x # xs) i = (if x = i then xs else x # remove_slot_from_queue xs i)"

definition remove_slot_from_queues :: "nat \<Rightarrow> sched \<Rightarrow> sched" where
  "remove_slot_from_queues i s =
     (let s1 = s\<lparr>sc_normal := remove_slot_from_queue (sc_normal s) i, sc_priority := remove_slot_from_queue (sc_priority s) i\<rparr>
      in if i < length (sc_tasks s) then set_task i (\<lambda>t. t\<lparr>t_queued := False\<rparr>) s1 else s1)"

definition alloc_task_slot :: "sched \<Rightarrow> nat option" where
  "alloc_task_slot s = find_index (\<lambda>t. \<not> t_used t) (sc_tasks s)"

definition queue_task_slot :: "nat \<Rightarrow> sched \<Rightarrow> sched" where
  "queue_task_slot i s =
     (if i \<ge> length (sc_tasks s) then s
      else let t = sc_tasks s ! i in
        if \<not> t_used t \<or> t_queued t \<or> t_active t \<or> \<not> t_enabled t then s
        else let s1 = (if t_queue t = tq_priority then s\<lparr>sc_priority := sc_priority s @ [i]\<rparr>
                       else s\<lparr>sc_normal := sc_normal s @ [i]\<rparr>)
             in set_task i (\<lambda>t. t\<lparr>t_queued := True\<rparr>) s1)"

text \<open>The \<open>while\<close> loop of \<open>pop_valid\<close>: it drops the head until a slot with an enabled task comes up.\<close>

fun pop_valid :: "nat list \<Rightarrow> task_t list \<Rightarrow> nat option \<times> nat list \<times> task_t list" where
  "pop_valid [] ts = (None, [], ts)"
| "pop_valid (i # q) ts =
     (if i \<ge> length ts then pop_valid q ts
      else let ts1 = ts[i := (ts ! i)\<lparr>t_queued := False\<rparr>] in
           if t_used (ts1 ! i) \<and> t_enabled (ts1 ! i) then (Some i, q, ts1) else pop_valid q ts1)"

definition pop_priority :: "sched \<Rightarrow> nat option \<times> sched" where
  "pop_priority s = (let (r, q, ts) = pop_valid (sc_priority s) (sc_tasks s) in (r, s\<lparr>sc_priority := q, sc_tasks := ts\<rparr>))"

definition pop_normal :: "sched \<Rightarrow> nat option \<times> sched" where
  "pop_normal s = (let (r, q, ts) = pop_valid (sc_normal s) (sc_tasks s) in (r, s\<lparr>sc_normal := q, sc_tasks := ts\<rparr>))"

definition pop_next_task_slot :: "sched \<Rightarrow> nat option \<times> sched" where
  "pop_next_task_slot s =
     (let have_priority = (sc_priority s \<noteq> []);
          have_normal = (sc_normal s \<noteq> []);
          (r1, s1) = (if have_priority \<and> (\<not> have_normal \<or> sc_burst s < k_priority_burst_limit)
                      then pop_priority s else (None, s))
      in case r1 of Some i \<Rightarrow> (Some i, s1\<lparr>sc_burst := sc_burst s1 + 1\<rparr>)
         | None \<Rightarrow>
             let (r2, s2) = pop_normal s1 in
             case r2 of Some i \<Rightarrow> (Some i, s2\<lparr>sc_burst := 0\<rparr>)
             | None \<Rightarrow>
                 let (r3, s3) = (if have_priority then pop_priority s2 else (None, s2)) in
                 case r3 of Some i \<Rightarrow> (Some i, s3\<lparr>sc_burst := sc_burst s3 + 1\<rparr>)
                 | None \<Rightarrow> (None, s3\<lparr>sc_burst := 0\<rparr>))"

definition add_task :: "nat \<Rightarrow> task_kind_t \<Rightarrow> task_queue_t \<Rightarrow> bool \<Rightarrow> nat \<Rightarrow> fp \<Rightarrow> bool \<Rightarrow> bool \<Rightarrow> sched \<Rightarrow> u32 \<times> sched" where
  "add_task n kind q periodic cid cv hv staged s =
     (case alloc_task_slot s of None \<Rightarrow> (k_invalid_task_id, s)
      | Some i \<Rightarrow>
          let id = sc_next_id s;
              s1 = set_task i (\<lambda>t. t\<lparr>t_used := True, t_queued := False, t_active := False, t_armed := False,
                     t_periodic := periodic, t_enabled := True, t_id := id, t_kind := kind, t_queue := q,
                     t_node := Some n, t_command_id := cid, t_command_value := cv, t_has_value := hv,
                     t_staged := staged\<rparr>) (s\<lparr>sc_next_id := id + 1\<rparr>)
          in (id, queue_task_slot i s1))"

definition add_staged_command_task :: "nat \<Rightarrow> task_queue_t \<Rightarrow> sched \<Rightarrow> u32 \<times> sched" where
  "add_staged_command_task n q s = add_task n tk_command q False 0 (Fin 1) False True s"

text \<open>One iteration of \<open>remove_tasks_for_node\<close>, and the loop over all slots.\<close>

definition drop_node_task :: "nat \<Rightarrow> nat \<Rightarrow> nat \<times> sched \<Rightarrow> nat \<times> sched" where
  "drop_node_task n i = (\<lambda>(removed, s).
     let t = sc_tasks s ! i in
     if \<not> t_used t \<or> t_node t \<noteq> Some n then (removed, s)
     else if Some i = sc_active s then (removed + 1, set_task i (\<lambda>t. t\<lparr>t_enabled := False, t_periodic := False\<rparr>) s)
     else (removed + 1, clear_task_slot i (remove_slot_from_queues i s)))"

definition remove_tasks_for_node :: "nat \<Rightarrow> sched \<Rightarrow> nat \<times> sched" where
  "remove_tasks_for_node n s = fold (drop_node_task n) [0..<length (sc_tasks s)] (0, s)"

definition find_task_slot_by_id :: "sched \<Rightarrow> u32 \<Rightarrow> nat option" where
  "find_task_slot_by_id s tid =
     (if tid = k_invalid_task_id then None else find_index (\<lambda>t. t_used t \<and> t_id t = tid) (sc_tasks s))"

definition find_periodic_data_task_slot :: "sched \<Rightarrow> nat \<Rightarrow> nat option" where
  "find_periodic_data_task_slot s n =
     find_index (\<lambda>t. t_used t \<and> t_periodic t \<and> t_kind t = tk_data_request \<and> t_node t = Some n) (sc_tasks s)"

definition update_task_queue_class :: "nat \<Rightarrow> task_queue_t \<Rightarrow> sched \<Rightarrow> sched" where
  "update_task_queue_class i q s =
     (if i \<ge> length (sc_tasks s) then s
      else let t = sc_tasks s ! i in
        if \<not> t_used t \<or> t_queue t = q then s
        else let s1 = (if t_queued t then remove_slot_from_queues i s else s);
                 s2 = set_task i (\<lambda>t. t\<lparr>t_queue := q\<rparr>) s1
             in if \<not> t_active t \<and> t_enabled t then queue_task_slot i s2 else s2)"

subsection \<open>Command windows\<close>

text \<open>\<open>ISYSCLEAR\<close> on a window of an array.\<close>

definition clear_window :: "nat \<Rightarrow> nat \<Rightarrow> u16 list \<Rightarrow> u16 list" where
  "clear_window off n xs = take off xs @ replicate n 0 @ drop (off + n) xs"

definition clear_command_msg_window :: "node_layout_t \<Rightarrow> sched \<Rightarrow> sched" where
  "clear_command_msg_window n s =
     (if sc_msg_cmd s = None then s
      else if \<not> window_fits (nl_com_cs_base_block n) (nl_com_blocks n) (sc_msg_cmd_blocks s) then s
      else s\<lparr>sc_msg_cmd := map_option (clear_window (nl_com_cs_base_block n) (nl_com_blocks n)) (sc_msg_cmd s)\<rparr>)"

definition clear_command_buffer_window :: "node_layout_t \<Rightarrow> sched \<Rightarrow> sched" where
  "clear_command_buffer_window n s =
     (if sc_msg_cmd_buf s = None then s
      else if \<not> window_fits 0 (nl_com_blocks n) (sc_msg_cmd_buf_blocks s) then s
      else s\<lparr>sc_msg_cmd_buf := map_option (clear_window 0 (nl_com_blocks n)) (sc_msg_cmd_buf s)\<rparr>)"

definition clear_pending_command_window :: "nat \<Rightarrow> sched \<Rightarrow> sched" where
  "clear_pending_command_window i s =
     (if i \<ge> length (sc_pending s) then s
      else s\<lparr>sc_pending := (sc_pending s)[i := clear_window 0 (nl_com_blocks (sc_nodes s ! i)) (sc_pending s ! i)]\<rparr>)"

definition load_pending_command_window :: "nat \<Rightarrow> sched \<Rightarrow> sched" where
  "load_pending_command_window i s =
     (let n = nl_com_blocks (sc_nodes s ! i) in
      if i \<ge> length (sc_pending s) \<or> sc_msg_cmd_buf s = None then s
      else if \<not> window_fits 0 n (sc_msg_cmd_buf_blocks s) then s
      else s\<lparr>sc_msg_cmd_buf := copy_blocks (sc_msg_cmd_buf s) (sc_msg_cmd_buf_blocks s) 0
               (Some (sc_pending s ! i)) (length (sc_pending s ! i)) 0 n\<rparr>)"

definition save_pending_command_window :: "nat \<Rightarrow> sched \<Rightarrow> sched" where
  "save_pending_command_window i s =
     (let n = nl_com_blocks (sc_nodes s ! i) in
      if i \<ge> length (sc_pending s) \<or> sc_msg_cmd_buf s = None then s
      else if \<not> window_fits 0 n (sc_msg_cmd_buf_blocks s) then s
      else s\<lparr>sc_pending := (sc_pending s)[i :=
               the (copy_blocks (Some (sc_pending s ! i)) (length (sc_pending s ! i)) 0
                      (sc_msg_cmd_buf s) (sc_msg_cmd_buf_blocks s) 0 n)]\<rparr>)"

definition cs_item_slot :: "tab_entry \<Rightarrow> block_slot" where
  "cs_item_slot e = (nat (te_cs_block_n e mod 256), word_of_int (te_block_offset e), type_width_bits (te_type e))"

definition merge_command_window_to_buffer :: "node_layout_t \<Rightarrow> sched \<Rightarrow> sched" where
  "merge_command_window_to_buffer n s =
     (if sc_msg_cmd s = None \<or> sc_msg_cmd_buf s = None then s
      else s\<lparr>sc_msg_cmd_buf := fst (merge_slots blk_rd blk_wr (sc_msg_cmd s, sc_msg_cmd_blocks s) cs_item_slot item_slot
               (filter (\<lambda>e. te_sys_id e = nl_system_id n \<and> type_width_bits (te_type e) \<noteq> 0) S_basecommtab)
               (sc_msg_cmd_buf s, sc_msg_cmd_buf_blocks s))\<rparr>)"

subsection \<open>Starting and finishing tasks\<close>

definition no_completion :: task_completion_t where
  "no_completion = \<lparr>tc_valid = False, tc_id = 0, tc_target = tgt_any, tc_target_name = [], tc_kind = tk_data_request,
     tc_periodic = False, tc_result = res_none, tc_have_result = False\<rparr>"

definition settle_command :: "task_t \<Rightarrow> exchange_result_t \<Rightarrow> sched \<Rightarrow> sched" where
  "settle_command t r s =
     (case t_node t of
        Some n \<Rightarrow>
          if t_kind t = tk_command then
            (let s1 = clear_command_msg_window (sc_nodes s ! n) s in
             if \<not> t_enabled t \<or> r = res_success
             then clear_pending_command_window n (clear_command_buffer_window (sc_nodes s ! n) s1)
             else save_pending_command_window n s1)
          else s
      | None \<Rightarrow> s)"

definition finalize_active_task :: "bus_state \<Rightarrow> sched \<Rightarrow> task_completion_t \<times> bus_state \<times> sched" where
  "finalize_active_task bus s =
     (case sc_active s of None \<Rightarrow> (no_completion, bus, s)
      | Some i \<Rightarrow>
          let t = sc_tasks s ! i in
          if \<not> t_armed t then (no_completion, bus, s)
          else (case IBUS_TAKE_RESULT bus of (None, bus1) \<Rightarrow> (no_completion, bus1, s)
            | (Some r, bus1) \<Rightarrow>
                let c = \<lparr>tc_valid = True, tc_id = t_id t,
                          tc_target = (case t_node t of None \<Rightarrow> tgt_any | Some n \<Rightarrow> nl_target (sc_nodes s ! n)),
                          tc_target_name = (case t_node t of None \<Rightarrow> [] | Some n \<Rightarrow> nl_name (sc_nodes s ! n)),
                          tc_kind = t_kind t, tc_periodic = t_periodic t, tc_result = r, tc_have_result = True\<rparr>;
                    s1 = set_task i (\<lambda>t. t\<lparr>t_active := False, t_armed := False\<rparr>) s;
                    bus2 = IBUS_RESET_FRAME_LAYOUT bus1;
                    s2 = settle_command t r s1;
                    s3 = (if t_used t \<and> t_enabled t \<and> t_periodic t then queue_task_slot i s2 else clear_task_slot i s2)
                in (c, bus2, s3\<lparr>sc_active := None\<rparr>)))"

definition activate_task :: "nat \<Rightarrow> sched \<Rightarrow> sched" where
  "activate_task i s =
     (if i \<ge> length (sc_tasks s) then s
      else let t = sc_tasks s ! i in
        if \<not> t_used t \<or> \<not> t_enabled t \<or> t_node t = None then s
        else if t_active t then s
        else (set_task i (\<lambda>t. t\<lparr>t_active := True, t_armed := False\<rparr>) s)\<lparr>sc_active := Some i\<rparr>)"

definition activate_next_task :: "sched \<Rightarrow> sched" where
  "activate_next_task s =
     (let (r, s1) = pop_next_task_slot s in case r of None \<Rightarrow> s1 | Some i \<Rightarrow> activate_task i s1)"

subsection \<open>The interface of the scheduler\<close>

definition sched_init :: "context_t option \<Rightarrow> u16 list option \<Rightarrow> nat \<Rightarrow> u16 list option \<Rightarrow> nat \<Rightarrow> sched \<Rightarrow> sched" where
  "sched_init ctx cmd cn buf bn s =
     (init_node_layouts (s\<lparr>sc_imsg_ctx := ctx, sc_msg_cmd := cmd, sc_msg_cmd_blocks := cn, sc_msg_cmd_buf := buf,
        sc_msg_cmd_buf_blocks := bn\<rparr>))\<lparr>sc_ready := True\<rparr>"

definition sched_reset :: "sched \<Rightarrow> sched" where
  "sched_reset s = s\<lparr>sc_tasks := replicate k_max_tasks task0, sc_normal := [], sc_priority := [], sc_completions := [],
     sc_pending := replicate 5 (replicate CS_COMM_BUF_BLOCKS 0), sc_active := None, sc_next_id := 1, sc_burst := 0\<rparr>"

definition enqueue_exchange :: "target_t \<Rightarrow> queue_class_t \<Rightarrow> bool \<Rightarrow> sched \<Rightarrow> u32 \<times> sched" where
  "enqueue_exchange tgt q periodic s =
     (case find_node_by_target s tgt of None \<Rightarrow> (k_invalid_task_id, s)
      | Some n \<Rightarrow> add_task n tk_data_request (to_task_queue q) periodic 0 (Fin 1) False False s)"

definition ensure_periodic_exchange :: "target_t \<Rightarrow> queue_class_t \<Rightarrow> sched \<Rightarrow> u32 \<times> sched" where
  "ensure_periodic_exchange tgt q s =
     (case find_node_by_target s tgt of None \<Rightarrow> (k_invalid_task_id, s)
      | Some n \<Rightarrow>
          (case find_periodic_data_task_slot s n of
             Some i \<Rightarrow> (t_id (sc_tasks s ! i),
                         update_task_queue_class i (to_task_queue q) (set_task i (\<lambda>t. t\<lparr>t_enabled := True\<rparr>) s))
           | None \<Rightarrow> add_task n tk_data_request (to_task_queue q) True 0 (Fin 1) False False s))"

definition enqueue_command :: "target_t \<Rightarrow> nat \<Rightarrow> fp \<Rightarrow> bool \<Rightarrow> queue_class_t \<Rightarrow> sched \<Rightarrow> u32 \<times> sched" where
  "enqueue_command tgt cid v hv q s =
     (case find_node_by_target s tgt of None \<Rightarrow> (k_invalid_task_id, s)
      | Some n \<Rightarrow>
          if \<not> command_matches_node (sc_nodes s ! n) cid then (k_invalid_task_id, s)
          else add_task n tk_command (to_task_queue q) False cid v hv False s)"

definition cancel_slot :: "nat \<Rightarrow> sched \<Rightarrow> sched" where
  "cancel_slot i s =
     (if Some i = sc_active s then set_task i (\<lambda>t. t\<lparr>t_enabled := False, t_periodic := False\<rparr>) s
      else clear_task_slot i (remove_slot_from_queues i s))"

definition cancel_periodic_exchange :: "target_t \<Rightarrow> sched \<Rightarrow> bool \<times> sched" where
  "cancel_periodic_exchange tgt s =
     (case find_node_by_target s tgt of None \<Rightarrow> (False, s)
      | Some n \<Rightarrow> (case find_periodic_data_task_slot s n of None \<Rightarrow> (False, s) | Some i \<Rightarrow> (True, cancel_slot i s)))"

definition cancel_task :: "u32 \<Rightarrow> sched \<Rightarrow> bool \<times> sched" where
  "cancel_task tid s = (case find_task_slot_by_id s tid of None \<Rightarrow> (False, s) | Some i \<Rightarrow> (True, cancel_slot i s))"

definition cancel_target :: "target_t \<Rightarrow> sched \<Rightarrow> nat \<times> sched" where
  "cancel_target tgt s =
     (case find_node_by_target s tgt of None \<Rightarrow> (0, s)
      | Some n \<Rightarrow>
          let (removed, s1) = remove_tasks_for_node n s in
          (removed, clear_command_msg_window (sc_nodes s ! n)
                      (clear_command_buffer_window (sc_nodes s ! n) (clear_pending_command_window n s1))))"

definition try_pop_completion :: "sched \<Rightarrow> completion_t option \<times> sched" where
  "try_pop_completion s = (case sc_completions s of [] \<Rightarrow> (None, s) | c # cs \<Rightarrow> (Some c, s\<lparr>sc_completions := cs\<rparr>))"

definition exchange_control :: "bus_state \<Rightarrow> sched \<Rightarrow> bus_state \<times> sched" where
  "exchange_control bus s =
     (if \<not> sc_ready s then (bus, s)
      else let (c, bus1, s1) = finalize_active_task bus s in
           if tc_valid c
           then (bus1, s1\<lparr>sc_completions := sc_completions s1 @
                  [\<lparr>cp_valid = True, cp_target = tc_target c, cp_kind = to_public_completion_kind (tc_kind c),
                    cp_periodic = tc_periodic c, cp_have_result = tc_have_result c,
                    cp_result = to_public_completion_result (tc_result c)\<rparr>]\<rparr>)
           else if sc_active s1 \<noteq> None then (bus1, s1)
           else (bus1, activate_next_task s1))"

subsection \<open>The invariant\<close>

text \<open>
  \<open>sched_inv\<close>: every used slot is either queued, in exactly one place of exactly the queue of its
  class, or the active one; a task that is not enabled is the active one; only the active task has
  an armed exchange; every used task has a node. In particular no task is ever lost: it is in a
  queue or active. \<open>sched_limbo i\<close> is the state in the middle of an operation, when slot \<open>i\<close> is in
  no queue and not active, and everything else is in order.
\<close>

definition has_node :: "nat \<Rightarrow> task_t \<Rightarrow> bool" where
  "has_node nn t \<longleftrightarrow> (case t_node t of None \<Rightarrow> False | Some n \<Rightarrow> n < nn)"

lemma has_node_other [simp]:
  "has_node nn (t\<lparr>t_queued := a\<rparr>) = has_node nn t" "has_node nn (t\<lparr>t_active := a\<rparr>) = has_node nn t"
  "has_node nn (t\<lparr>t_armed := a\<rparr>) = has_node nn t" "has_node nn (t\<lparr>t_enabled := a\<rparr>) = has_node nn t"
  "has_node nn (t\<lparr>t_periodic := a\<rparr>) = has_node nn t" "has_node nn (t\<lparr>t_queue := b\<rparr>) = has_node nn t"
  by (simp_all add: has_node_def)

definition task_ok :: "nat \<Rightarrow> task_t \<Rightarrow> bool" where
  "task_ok nn t \<longleftrightarrow>
     (if t_used t then t_queued t \<noteq> t_active t \<and> (t_enabled t \<or> t_active t) \<and> has_node nn t
      else \<not> t_queued t \<and> \<not> t_active t) \<and> (t_armed t \<longrightarrow> t_active t)"

definition slot_ok :: "sched \<Rightarrow> nat \<Rightarrow> bool" where
  "slot_ok s i \<longleftrightarrow> (let t = sc_tasks s ! i in
     task_ok (length (sc_nodes s)) t \<and>
     (i \<in> set (sc_normal s) \<longleftrightarrow> t_queued t \<and> t_queue t = tq_normal) \<and>
     (i \<in> set (sc_priority s) \<longleftrightarrow> t_queued t \<and> t_queue t = tq_priority) \<and>
     (t_active t \<longleftrightarrow> sc_active s = Some i))"

definition slot_free :: "sched \<Rightarrow> nat \<Rightarrow> bool" where
  "slot_free s i \<longleftrightarrow> (let t = sc_tasks s ! i in
     \<not> t_queued t \<and> \<not> t_active t \<and> \<not> t_armed t \<and> i \<notin> set (sc_normal s) \<and> i \<notin> set (sc_priority s) \<and>
     sc_active s \<noteq> Some i)"

definition sched_shape :: "sched \<Rightarrow> bool" where
  "sched_shape s \<longleftrightarrow>
     length (sc_tasks s) = k_max_tasks \<and> length (sc_pending s) = 5 \<and> length (sc_nodes s) = 5 \<and>
     distinct (sc_normal s) \<and> distinct (sc_priority s) \<and>
     (\<forall>i \<in> set (sc_normal s) \<union> set (sc_priority s). i < k_max_tasks) \<and>
     (case sc_active s of None \<Rightarrow> True | Some i \<Rightarrow> i < k_max_tasks)"

definition sched_inv :: "sched \<Rightarrow> bool" where
  "sched_inv s \<longleftrightarrow> sched_shape s \<and> (\<forall>i < k_max_tasks. slot_ok s i)"

definition sched_limbo :: "nat \<Rightarrow> sched \<Rightarrow> bool" where
  "sched_limbo i s \<longleftrightarrow> sched_shape s \<and> i < k_max_tasks \<and> slot_free s i \<and> (\<forall>j < k_max_tasks. j \<noteq> i \<longrightarrow> slot_ok s j)"

text \<open>A task that may be queued or started.\<close>

definition runnable :: "sched \<Rightarrow> nat \<Rightarrow> bool" where
  "runnable s i \<longleftrightarrow> (let t = sc_tasks s ! i in
     t_used t \<and> t_enabled t \<and> has_node (length (sc_nodes s)) t)"

lemma sched_inv_cong:
  assumes "sched_inv s" "sc_nodes s' = sc_nodes s" "sc_tasks s' = sc_tasks s" "sc_normal s' = sc_normal s"
    "sc_priority s' = sc_priority s" "sc_active s' = sc_active s" "length (sc_pending s') = length (sc_pending s)"
  shows "sched_inv s'"
proof -
  have "slot_ok s' i = slot_ok s i" for i using assms(2-6) by (simp add: slot_ok_def)
  moreover have "sched_shape s' = sched_shape s" using assms(2-7) by (simp add: sched_shape_def)
  ultimately show ?thesis using assms(1) by (simp add: sched_inv_def)
qed

lemma set_task_fields [simp]:
  "sc_nodes (set_task i f s) = sc_nodes s" "sc_normal (set_task i f s) = sc_normal s"
  "sc_priority (set_task i f s) = sc_priority s" "sc_active (set_task i f s) = sc_active s"
  "sc_pending (set_task i f s) = sc_pending s" "sc_burst (set_task i f s) = sc_burst s"
  "length (sc_tasks (set_task i f s)) = length (sc_tasks s)"
  "i < length (sc_tasks s) \<Longrightarrow> sc_tasks (set_task i f s) ! j = (if i = j then f (sc_tasks s ! j) else sc_tasks s ! j)"
  by (simp_all add: set_task_def nth_list_update)

lemma inv_length: "sched_inv s \<Longrightarrow> length (sc_tasks s) = k_max_tasks" "sched_limbo i s \<Longrightarrow> length (sc_tasks s) = k_max_tasks"
  by (simp_all add: sched_inv_def sched_limbo_def sched_shape_def)

lemma limbo_unused:
  assumes "sched_inv s" "i < k_max_tasks" "\<not> t_used (sc_tasks s ! i)"
  shows "sched_limbo i s"
proof -
  have "slot_ok s i" using assms(1,2) by (simp add: sched_inv_def)
  then have "slot_free s i" using assms(3) by (auto simp: slot_ok_def slot_free_def task_ok_def Let_def)
  with assms show ?thesis by (simp add: sched_limbo_def sched_inv_def)
qed

lemma limbo_update:
  assumes "sched_limbo i s" and "\<And>t. \<not> t_queued t \<Longrightarrow> \<not> t_queued (f t)" "\<And>t. \<not> t_active t \<Longrightarrow> \<not> t_active (f t)"
    "\<And>t. \<not> t_armed t \<Longrightarrow> \<not> t_armed (f t)"
  shows "sched_limbo i (set_task i f s)"
proof -
  have i: "i < length (sc_tasks s)" "i < k_max_tasks" using assms(1) by (auto simp: sched_limbo_def sched_shape_def)
  have "slot_free (set_task i f s) i"
    using assms(1) i assms(2-4) [of "sc_tasks s ! i"] by (simp add: sched_limbo_def slot_free_def Let_def)
  moreover have "slot_ok (set_task i f s) j" if "j < k_max_tasks" "j \<noteq> i" for j
    using assms(1) that i by (simp add: sched_limbo_def slot_ok_def Let_def)
  moreover have "sched_shape (set_task i f s)" using assms(1) by (simp add: sched_limbo_def sched_shape_def)
  ultimately show ?thesis using i(2) by (simp add: sched_limbo_def)
qed

lemma limbo_queue:
  assumes "sched_limbo i s" "runnable s i"
  shows "sched_inv (queue_task_slot i s)"
proof -
  have i: "i < length (sc_tasks s)" "i < k_max_tasks" using assms(1) by (auto simp: sched_limbo_def sched_shape_def)
  define s' where "s' = queue_task_slot i s"
  have q: "s' = set_task i (\<lambda>t. t\<lparr>t_queued := True\<rparr>)
      (if t_queue (sc_tasks s ! i) = tq_priority then s\<lparr>sc_priority := sc_priority s @ [i]\<rparr> else s\<lparr>sc_normal := sc_normal s @ [i]\<rparr>)"
    using assms i by (auto simp: s'_def queue_task_slot_def runnable_def sched_limbo_def slot_free_def Let_def)
  have pq: "t_queue t = tq_normal" if "t_queue t \<noteq> tq_priority" for t using that by (cases "t_queue t") auto
  have "sched_shape s'" using assms(1) i by (auto simp: q sched_limbo_def sched_shape_def slot_free_def Let_def)
  moreover have "slot_ok s' j" if "j < k_max_tasks" for j
  proof (cases "j = i")
    case True
    with assms i pq show ?thesis
      by (auto simp: q sched_limbo_def slot_free_def slot_ok_def task_ok_def runnable_def Let_def)
  next
    case False
    with assms(1) that have "slot_ok s j" by (simp add: sched_limbo_def)
    with False i show ?thesis by (auto simp: q slot_ok_def Let_def)
  qed
  ultimately show ?thesis by (simp add: sched_inv_def s'_def)
qed

lemma limbo_clear:
  assumes "sched_limbo i s"
  shows "sched_inv (clear_task_slot i s)"
proof -
  have i: "i < length (sc_tasks s)" using assms by (auto simp: sched_limbo_def sched_shape_def)
  have c: "clear_task_slot i s = set_task i (\<lambda>_. task0) s" using i by (simp add: clear_task_slot_def)
  have "slot_ok (set_task i (\<lambda>_. task0) s) j" if "j < k_max_tasks" for j
    using assms that i by (cases "j = i") (auto simp: sched_limbo_def slot_free_def slot_ok_def task_ok_def task0_def Let_def)
  then show ?thesis using assms i by (auto simp: c sched_inv_def sched_limbo_def sched_shape_def)
qed

lemma limbo_activate:
  assumes "sched_limbo i s" "runnable s i" "sc_active s = None"
  shows "sched_inv (activate_task i s)" "sc_active (activate_task i s) = Some i"
proof -
  have i: "i < length (sc_tasks s)" "i < k_max_tasks" using assms(1) by (auto simp: sched_limbo_def sched_shape_def)
  have a: "activate_task i s = (set_task i (\<lambda>t. t\<lparr>t_active := True, t_armed := False\<rparr>) s)\<lparr>sc_active := Some i\<rparr>"
    using assms i by (auto simp: activate_task_def runnable_def sched_limbo_def slot_free_def has_node_def Let_def split: option.splits)
  have "slot_ok ((set_task i (\<lambda>t. t\<lparr>t_active := True, t_armed := False\<rparr>) s)\<lparr>sc_active := Some i\<rparr>) j" if "j < k_max_tasks" for j
    using assms that i
    by (cases "j = i") (auto simp: sched_limbo_def slot_free_def slot_ok_def task_ok_def runnable_def Let_def)
  then show "sched_inv (activate_task i s)" using assms i by (auto simp: a sched_inv_def sched_limbo_def sched_shape_def)
  show "sc_active (activate_task i s) = Some i" by (simp add: a)
qed

lemma limbo_finish:
  assumes "sched_inv s" "sc_active s = Some i"
  shows "sched_limbo i ((set_task i (\<lambda>t. t\<lparr>t_active := False, t_armed := False\<rparr>) s)\<lparr>sc_active := None\<rparr>)"
proof -
  have i: "i < length (sc_tasks s)" "i < k_max_tasks" using assms by (auto simp: sched_inv_def sched_shape_def)
  have ok: "slot_ok s j" if "j < k_max_tasks" for j using assms(1) that by (simp add: sched_inv_def)
  have "slot_free ((set_task i (\<lambda>t. t\<lparr>t_active := False, t_armed := False\<rparr>) s)\<lparr>sc_active := None\<rparr>) i"
    using ok [OF i(2)] assms(2) i by (auto simp: slot_ok_def slot_free_def task_ok_def Let_def split: if_splits)
  moreover have "slot_ok ((set_task i (\<lambda>t. t\<lparr>t_active := False, t_armed := False\<rparr>) s)\<lparr>sc_active := None\<rparr>) j"
    if "j < k_max_tasks" "j \<noteq> i" for j
    using ok [OF that(1)] assms(2) that(2) i by (auto simp: slot_ok_def Let_def)
  ultimately show ?thesis using assms i by (auto simp: sched_inv_def sched_limbo_def sched_shape_def)
qed

lemma set_remove_slot: "distinct q \<Longrightarrow> set (remove_slot_from_queue q i) = set q - {i}"
  "distinct q \<Longrightarrow> distinct (remove_slot_from_queue q i)"
proof (induction q)
  case Nil
  { case 1 show ?case by simp next case 2 show ?case by simp }
next
  case (Cons x q)
  { case 1 with Cons show ?case by auto next case 2 with Cons show ?case by auto }
qed

lemma limbo_remove:
  assumes "sched_inv s" "i < k_max_tasks" "sc_active s \<noteq> Some i"
  shows "sched_limbo i (remove_slot_from_queues i s)"
proof -
  have i: "i < length (sc_tasks s)" using assms by (auto simp: sched_inv_def sched_shape_def)
  have d: "distinct (sc_normal s)" "distinct (sc_priority s)" using assms(1) by (auto simp: sched_inv_def sched_shape_def)
  have ok: "slot_ok s j" if "j < k_max_tasks" for j using assms(1) that by (simp add: sched_inv_def)
  have r: "remove_slot_from_queues i s = set_task i (\<lambda>t. t\<lparr>t_queued := False\<rparr>)
     (s\<lparr>sc_normal := remove_slot_from_queue (sc_normal s) i, sc_priority := remove_slot_from_queue (sc_priority s) i\<rparr>)"
    using i by (simp add: remove_slot_from_queues_def set_task_def)
  have "slot_free (remove_slot_from_queues i s) i"
    using ok [OF assms(2)] assms(3) i d
    by (auto simp: r slot_ok_def slot_free_def task_ok_def set_remove_slot Let_def split: if_splits)
  moreover have "slot_ok (remove_slot_from_queues i s) j" if "j < k_max_tasks" "j \<noteq> i" for j
    using ok [OF that(1)] that(2) i d by (auto simp: r slot_ok_def set_remove_slot Let_def)
  moreover have "sched_shape (remove_slot_from_queues i s)"
    using assms(1) d by (auto simp: r sched_inv_def sched_shape_def set_remove_slot)
  ultimately show ?thesis using assms(2) by (simp add: sched_limbo_def)
qed

lemma limbo_pop:
  assumes inv: "sched_inv s" and q: "q = sc_normal s \<and> s' = s\<lparr>sc_normal := tl q\<rparr> \<or> q = sc_priority s \<and> s' = s\<lparr>sc_priority := tl q\<rparr>"
    and "q \<noteq> []"
  shows "sched_limbo (hd q) (set_task (hd q) (\<lambda>t. t\<lparr>t_queued := False\<rparr>) s')" "runnable s (hd q)" "hd q < length (sc_tasks s)"
proof -
  obtain i q' where qi: "q = i # q'" using assms(3) by (cases q) auto
  have mem: "i \<in> set (sc_normal s) \<or> i \<in> set (sc_priority s)" using q qi by (metis list.set_intros(1))
  then have i: "i < length (sc_tasks s)" "i < k_max_tasks" using inv by (auto simp: sched_inv_def sched_shape_def)
  then show "hd q < length (sc_tasks s)" by (simp add: qi)
  have ok: "slot_ok s j" if "j < k_max_tasks" for j using inv that by (simp add: sched_inv_def)
  from mem have qd: "t_queued (sc_tasks s ! i)" using ok [OF i(2)] by (auto simp: slot_ok_def Let_def)
  then show "runnable s (hd q)"
    using ok [OF i(2)] by (auto simp: qi slot_ok_def runnable_def task_ok_def Let_def split: if_splits)
  have d: "distinct (sc_normal s)" "distinct (sc_priority s)" using inv by (auto simp: sched_inv_def sched_shape_def)
  let ?s = "set_task i (\<lambda>t. t\<lparr>t_queued := False\<rparr>) s'"
  have f: "sc_tasks s' = sc_tasks s" "sc_nodes s' = sc_nodes s" "sc_active s' = sc_active s" "sc_pending s' = sc_pending s"
    using q by auto
  have sets: "set (sc_normal s') = set (sc_normal s) - {i} \<and> set (sc_priority s') = set (sc_priority s) - {i}"
    using q
  proof
    assume n: "q = sc_normal s \<and> s' = s\<lparr>sc_normal := tl q\<rparr>"
    then have "i \<in> set (sc_normal s)" using qi by (metis list.set_intros(1))
    then have "i \<notin> set (sc_priority s)" using ok [OF i(2)] by (auto simp: slot_ok_def Let_def)
    moreover have "sc_normal s = i # q'" "s' = s\<lparr>sc_normal := q'\<rparr>" using n qi by simp_all
    ultimately show ?thesis using d by auto
  next
    assume n: "q = sc_priority s \<and> s' = s\<lparr>sc_priority := tl q\<rparr>"
    then have "i \<in> set (sc_priority s)" using qi by (metis list.set_intros(1))
    then have "i \<notin> set (sc_normal s)" using ok [OF i(2)] by (auto simp: slot_ok_def Let_def)
    moreover have "sc_priority s = i # q'" "s' = s\<lparr>sc_priority := q'\<rparr>" using n qi by simp_all
    ultimately show ?thesis using d by auto
  qed
  have "slot_free ?s i"
    using ok [OF i(2)] qd i sets by (auto simp: slot_ok_def slot_free_def task_ok_def Let_def f split: if_splits)
  moreover have "slot_ok ?s j" if "j < k_max_tasks" "j \<noteq> i" for j
    using ok [OF that(1)] that(2) i sets by (simp add: slot_ok_def Let_def f)
  moreover have "sched_shape ?s"
  proof -
    have "distinct (sc_normal s')" "distinct (sc_priority s')" using q d by (auto simp: distinct_tl)
    then show ?thesis using inv sets by (auto simp: sched_inv_def sched_shape_def f)
  qed
  ultimately show "sched_limbo (hd q) (set_task (hd q) (\<lambda>t. t\<lparr>t_queued := False\<rparr>) s')"
    using i(2) by (simp add: sched_limbo_def qi)
qed

text \<open>
  Under the invariant the head of a queue is always valid, so the loops of \<open>pop_next_task_slot\<close>
  never skip an entry and its third case is dead.
\<close>

definition popped :: "sched \<Rightarrow> nat \<Rightarrow> sched" where
  "popped s i = set_task i (\<lambda>t. t\<lparr>t_queued := False\<rparr>) s"

lemma pop_valid_head:
  "i < length ts \<Longrightarrow> t_used (ts ! i) \<Longrightarrow> t_enabled (ts ! i) \<Longrightarrow>
   pop_valid (i # q) ts = (Some i, q, ts[i := (ts ! i)\<lparr>t_queued := False\<rparr>])"
  by (simp add: Let_def)

lemma pop_class:
  assumes "sched_inv s"
  shows "sc_priority s = i # q \<Longrightarrow> pop_priority s = (Some i, popped (s\<lparr>sc_priority := q\<rparr>) i)"
    and "sc_normal s = i # q \<Longrightarrow> pop_normal s = (Some i, popped (s\<lparr>sc_normal := q\<rparr>) i)"
    and "sc_normal s = [] \<Longrightarrow> pop_normal s = (None, s)"
proof -
  { assume e: "sc_priority s = i # q"
    have r: "runnable s i" "i < length (sc_tasks s)"
      using limbo_pop(2,3) [OF assms, of "i # q" "s\<lparr>sc_priority := q\<rparr>"] e by simp_all
    show "pop_priority s = (Some i, popped (s\<lparr>sc_priority := q\<rparr>) i)"
      using r by (simp only: pop_priority_def e) (subst pop_valid_head; simp add: runnable_def popped_def set_task_def Let_def) }
  { assume e: "sc_normal s = i # q"
    have r: "runnable s i" "i < length (sc_tasks s)"
      using limbo_pop(2,3) [OF assms, of "i # q" "s\<lparr>sc_normal := q\<rparr>"] e by simp_all
    show "pop_normal s = (Some i, popped (s\<lparr>sc_normal := q\<rparr>) i)"
      using r by (simp only: pop_normal_def e) (subst pop_valid_head; simp add: runnable_def popped_def set_task_def Let_def) }
  show "sc_normal s = [] \<Longrightarrow> pop_normal s = (None, s)" by (cases s) (simp add: pop_normal_def)
qed

lemma popped_burst [simp]: "sc_burst (popped s i) = sc_burst s"
  by (simp add: popped_def)

lemma pop_next_cases:
  assumes "sched_inv s"
  shows "sc_priority s = i # q \<Longrightarrow> sc_normal s = [] \<or> sc_burst s < k_priority_burst_limit \<Longrightarrow>
      pop_next_task_slot s = (Some i, (popped (s\<lparr>sc_priority := q\<rparr>) i)\<lparr>sc_burst := sc_burst s + 1\<rparr>)"
    and "sc_normal s = i # q \<Longrightarrow> sc_priority s = [] \<or> \<not> sc_burst s < k_priority_burst_limit \<Longrightarrow>
      pop_next_task_slot s = (Some i, (popped (s\<lparr>sc_normal := q\<rparr>) i)\<lparr>sc_burst := 0\<rparr>)"
    and "sc_normal s = [] \<Longrightarrow> sc_priority s = [] \<Longrightarrow> pop_next_task_slot s = (None, s\<lparr>sc_burst := 0\<rparr>)"
  using pop_class(1,2) [OF assms, of i q] pop_class(3) [OF assms] by (auto simp: pop_next_task_slot_def Let_def)

subsection \<open>Two service classes\<close>

text \<open>
  What the rest of the system relies on in the two queues: \<open>take\<close> removes the head of one of them,
  the priority queue as long as its burst is below the limit or nothing else waits, the normal queue
  otherwise.
\<close>

locale two_class_queue =
  fixes pop :: "'s \<Rightarrow> 'x option \<times> 's"
    and prio :: "'s \<Rightarrow> 'x list"
    and norm :: "'s \<Rightarrow> 'x list"
    and burst :: "'s \<Rightarrow> nat"
    and ok :: "'s \<Rightarrow> bool"
    and limit :: nat
  assumes pop_prio: "ok s \<Longrightarrow> prio s = x # xs \<Longrightarrow> norm s = [] \<or> burst s < limit \<Longrightarrow>
      fst (pop s) = Some x \<and> prio (snd (pop s)) = xs \<and> norm (snd (pop s)) = norm s \<and> burst (snd (pop s)) = burst s + 1"
    and pop_norm: "ok s \<Longrightarrow> norm s = x # xs \<Longrightarrow> prio s = [] \<or> \<not> burst s < limit \<Longrightarrow>
      fst (pop s) = Some x \<and> prio (snd (pop s)) = prio s \<and> norm (snd (pop s)) = xs \<and> burst (snd (pop s)) = 0"
begin

text \<open>What may happen between two calls: the normal queue grows at its end, the priority queue changes at will.\<close>

definition serves :: "(nat \<Rightarrow> 's) \<Rightarrow> bool" where
  "serves f \<longleftrightarrow> (\<forall>k. ok (f k) \<and> burst (f (Suc k)) = burst (snd (pop (f k))) \<and>
     (\<exists>ns. norm (f (Suc k)) = norm (snd (pop (f k))) @ ns))"

lemma head_served:
  assumes "serves f" "norm (f j) = x # xs"
  shows "\<exists>k. j \<le> k \<and> k \<le> j + (limit - burst (f j)) \<and> fst (pop (f k)) = Some x \<and>
    (\<exists>ns. norm (f (Suc k)) = xs @ ns)"
  using assms(2)
proof (induction "limit - burst (f j)" arbitrary: j xs rule: less_induct)
  case less
  from assms(1) have ok: "ok (f j)" and b: "burst (f (Suc j)) = burst (snd (pop (f j)))"
    and n: "\<exists>ns. norm (f (Suc j)) = norm (snd (pop (f j))) @ ns"
    by (auto simp: serves_def)
  show ?case
  proof (cases "prio (f j) = [] \<or> \<not> burst (f j) < limit")
    case True
    with pop_norm [OF ok less.prems] n show ?thesis by (intro exI [of _ j]) auto
  next
    case False
    then obtain y ys where "prio (f j) = y # ys" by (cases "prio (f j)") auto
    from pop_prio [OF ok this] False have p: "norm (snd (pop (f j))) = norm (f j)" "burst (snd (pop (f j))) = burst (f j) + 1"
      by auto
    obtain ns where ns: "norm (f (Suc j)) = x # (xs @ ns)" using n less.prems p by auto
    have "limit - burst (f (Suc j)) < limit - burst (f j)" using False b p by (simp add: diff_less_mono2)
    from less.hyps [OF this ns] obtain k where "Suc j \<le> k" "k \<le> Suc j + (limit - burst (f (Suc j)))"
      "fst (pop (f k)) = Some x" "\<exists>ms. norm (f (Suc k)) = (xs @ ns) @ ms" by blast
    then show ?thesis using False b p by (intro exI [of _ k]) auto
  qed
qed

lemma served_in_order:
  assumes "serves f" "norm (f j) = xs @ x # ys"
  shows "\<exists>k. j \<le> k \<and> k \<le> j + limit + length xs * (limit + 1) \<and> fst (pop (f k)) = Some x"
  using assms(2)
proof (induction xs arbitrary: j ys)
  case Nil
  then obtain k where "j \<le> k" "k \<le> j + (limit - burst (f j))" "fst (pop (f k)) = Some x"
    using head_served [OF assms(1), of j x ys] by auto
  then show ?case by (intro exI [of _ k]) simp
next
  case (Cons z xs)
  from head_served [OF assms(1), of j z "xs @ x # ys"] Cons.prems obtain k ns
    where k: "j \<le> k" "k \<le> j + (limit - burst (f j))" "norm (f (Suc k)) = xs @ x # (ys @ ns)" by auto
  from Cons.IH [OF k(3)] obtain l where "Suc k \<le> l" "l \<le> Suc k + limit + length xs * (limit + 1)" "fst (pop (f l)) = Some x"
    by blast
  with k(1,2) show ?case by (intro exI [of _ l]) (simp add: algebra_simps)
qed

end

interpretation schedq: two_class_queue pop_next_task_slot sc_priority sc_normal sc_burst sched_inv k_priority_burst_limit
  by unfold_locales (auto simp: pop_next_cases popped_def)

subsection \<open>Every operation keeps the invariant\<close>

lemma find_index_Some: "find_index P xs = Some i \<Longrightarrow> i < length xs \<and> P (xs ! i) \<and> (\<forall>j<i. \<not> P (xs ! j))"
proof (induction xs arbitrary: i)
  case Nil
  then show ?case by simp
next
  case (Cons x xs)
  then show ?case by (cases i) (auto simp: less_Suc_eq_0_disj split: if_splits)
qed

lemma find_index_None: "find_index P xs = None \<longleftrightarrow> (\<forall>x \<in> set xs. \<not> P x)"
  by (induction xs) auto

lemma find_node_bound: "find_node_by_target s t = Some n \<Longrightarrow> n < length (sc_nodes s) \<and> nl_target (sc_nodes s ! n) = t"
  unfolding find_node_by_target_def by (drule find_index_Some) simp

lemma inv_add_task:
  assumes "sched_inv s" "n < length (sc_nodes s)"
  shows "sched_inv (snd (add_task n kind q periodic cid cv hv staged s))"
proof (cases "alloc_task_slot s")
  case None
  then show ?thesis using assms(1) by (simp add: add_task_def)
next
  case (Some i)
  then have i: "i < length (sc_tasks s)" "\<not> t_used (sc_tasks s ! i)"
    unfolding alloc_task_slot_def by (auto dest: find_index_Some)
  let ?s0 = "s\<lparr>sc_next_id := sc_next_id s + 1\<rparr>"
  have inv0: "sched_inv ?s0" by (rule sched_inv_cong [OF assms(1)]) simp_all
  have l0: "sched_limbo i ?s0"
    by (rule limbo_unused [OF inv0]) (use i inv_length(1) [OF assms(1)] in simp_all)
  let ?f = "\<lambda>t. t\<lparr>t_used := True, t_queued := False, t_active := False, t_armed := False,
     t_periodic := periodic, t_enabled := True, t_id := sc_next_id s, t_kind := kind, t_queue := q,
     t_node := Some n, t_command_id := cid, t_command_value := cv, t_has_value := hv, t_staged := staged\<rparr>"
  have "sched_limbo i (set_task i ?f ?s0)" by (rule limbo_update [OF l0]) simp_all
  moreover have "runnable (set_task i ?f ?s0) i" using i assms(2) by (simp add: runnable_def has_node_def Let_def)
  ultimately have "sched_inv (queue_task_slot i (set_task i ?f ?s0))" by (rule limbo_queue)
  then show ?thesis by (simp add: add_task_def Some Let_def)
qed

lemma active_disable:
  assumes "sched_inv s" "sc_active s = Some i"
  shows "sched_inv (set_task i (\<lambda>t. t\<lparr>t_enabled := False, t_periodic := False\<rparr>) s)"
proof -
  have i: "i < length (sc_tasks s)" "i < k_max_tasks" using assms by (auto simp: sched_inv_def sched_shape_def)
  have ok: "slot_ok s j" if "j < k_max_tasks" for j using assms(1) that by (simp add: sched_inv_def)
  have "slot_ok (set_task i (\<lambda>t. t\<lparr>t_enabled := False, t_periodic := False\<rparr>) s) j" if "j < k_max_tasks" for j
    using ok [OF that] i assms(2) by (auto simp: slot_ok_def task_ok_def Let_def split: if_splits)
  then show ?thesis using assms(1) by (simp add: sched_inv_def sched_shape_def)
qed

lemma inv_cancel_slot:
  assumes "sched_inv s" "i < length (sc_tasks s)"
  shows "sched_inv (cancel_slot i s)"
proof (cases "Some i = sc_active s")
  case True
  then show ?thesis using active_disable [OF assms(1), of i] by (simp add: cancel_slot_def)
next
  case False
  have "sched_limbo i (remove_slot_from_queues i s)"
    by (rule limbo_remove [OF assms(1)]) (use assms(2) False inv_length(1) [OF assms(1)] in auto)
  from limbo_clear [OF this] False show ?thesis by (simp add: cancel_slot_def)
qed

lemma inv_enable:
  assumes "sched_inv s" "i < length (sc_tasks s)" "t_used (sc_tasks s ! i)"
  shows "sched_inv (set_task i (\<lambda>t. t\<lparr>t_enabled := True\<rparr>) s)"
proof -
  have ok: "slot_ok s j" if "j < k_max_tasks" for j using assms(1) that by (simp add: sched_inv_def)
  have "slot_ok (set_task i (\<lambda>t. t\<lparr>t_enabled := True\<rparr>) s) j" if "j < k_max_tasks" for j
    using ok [OF that] assms(2,3) by (auto simp: slot_ok_def task_ok_def Let_def split: if_splits)
  then show ?thesis using assms(1) by (simp add: sched_inv_def sched_shape_def)
qed

lemma inv_update_queue_class:
  assumes "sched_inv s"
  shows "sched_inv (update_task_queue_class i q s)"
proof (cases "i < length (sc_tasks s) \<and> t_used (sc_tasks s ! i) \<and> t_queue (sc_tasks s ! i) \<noteq> q")
  case False
  then show ?thesis using assms by (auto simp: update_task_queue_class_def Let_def)
next
  case True
  then have i: "i < length (sc_tasks s)" "i < k_max_tasks" using inv_length(1) [OF assms] by simp_all
  have ok: "slot_ok s j" if "j < k_max_tasks" for j using assms that by (simp add: sched_inv_def)
  let ?t = "sc_tasks s ! i" and ?f = "\<lambda>t. t\<lparr>t_queue := q\<rparr>"
  show ?thesis
  proof (cases "t_active ?t")
    case True
    then have "\<not> t_queued ?t" "sc_active s = Some i"
      using ok [OF i(2)] by (auto simp: slot_ok_def task_ok_def Let_def split: if_splits)
    then have "update_task_queue_class i q s = set_task i ?f s"
      using \<open>i < length (sc_tasks s) \<and> _\<close> True by (simp add: update_task_queue_class_def Let_def)
    moreover have "slot_ok (set_task i ?f s) j" if "j < k_max_tasks" for j
      using ok [OF that] i \<open>\<not> t_queued ?t\<close> by (auto simp: slot_ok_def task_ok_def Let_def split: if_splits)
    ultimately show ?thesis using assms by (simp add: sched_inv_def sched_shape_def)
  next
    case False
    then have t: "t_queued ?t" "t_enabled ?t" "sc_active s \<noteq> Some i" "has_node (length (sc_nodes s)) ?t"
      using ok [OF i(2)] \<open>i < length (sc_tasks s) \<and> _\<close> by (auto simp: slot_ok_def task_ok_def Let_def split: if_splits)
    let ?s1 = "remove_slot_from_queues i s"
    have l: "sched_limbo i (set_task i ?f ?s1)"
      by (rule limbo_update [OF limbo_remove [OF assms i(2) t(3)]]) simp_all
    have s1: "sc_tasks ?s1 = sc_tasks (set_task i (\<lambda>t. t\<lparr>t_queued := False\<rparr>) s)" "sc_nodes ?s1 = sc_nodes s"
      using i by (simp_all add: remove_slot_from_queues_def set_task_def)
    have "runnable (set_task i ?f ?s1) i"
      using i t \<open>i < length (sc_tasks s) \<and> _\<close> by (simp add: runnable_def s1 Let_def set_task_def)
    from limbo_queue [OF l this] show ?thesis
      using False t \<open>i < length (sc_tasks s) \<and> _\<close> by (simp add: update_task_queue_class_def Let_def)
  qed
qed

lemma cancel_fields [simp]:
  "sc_nodes (cancel_slot i s) = sc_nodes s" "length (sc_tasks (cancel_slot i s)) = length (sc_tasks s)"
  "length (sc_pending (cancel_slot i s)) = length (sc_pending s)"
  by (simp_all add: cancel_slot_def clear_task_slot_def remove_slot_from_queues_def set_task_def Let_def)

lemma drop_node_task_cancel:
  "drop_node_task n i (r, s) =
     (if t_used (sc_tasks s ! i) \<and> t_node (sc_tasks s ! i) = Some n then (r + 1, cancel_slot i s) else (r, s))"
  by (auto simp: drop_node_task_def cancel_slot_def Let_def)

lemma inv_drop_loop:
  assumes "sched_inv s" "\<forall>i \<in> set is. i < length (sc_tasks s)"
  shows "sched_inv (snd (fold (drop_node_task n) is (r, s)))"
    "sc_nodes (snd (fold (drop_node_task n) is (r, s))) = sc_nodes s"
  using assms
proof (induction "is" arbitrary: r s)
  case Nil
  { case 1 then show ?case by simp next case 2 then show ?case by simp }
next
  case (Cons i "is")
  { case 1 then show ?case by (auto simp: drop_node_task_cancel intro!: Cons.IH(1) inv_cancel_slot)
    next case 2 then show ?case
      using Cons.IH(2) [of "cancel_slot i s" "Suc r"] Cons.IH(2) [of s r]
      by (auto simp: drop_node_task_cancel inv_cancel_slot) }
qed

lemma inv_remove_tasks:
  "sched_inv s \<Longrightarrow> sched_inv (snd (remove_tasks_for_node n s)) \<and> sc_nodes (snd (remove_tasks_for_node n s)) = sc_nodes s"
  using inv_drop_loop [of s "[0..<length (sc_tasks s)]" n 0] by (simp add: remove_tasks_for_node_def)

lemma window_fields [simp]:
  "sc_nodes (clear_command_msg_window n s) = sc_nodes s" "sc_tasks (clear_command_msg_window n s) = sc_tasks s"
  "sc_normal (clear_command_msg_window n s) = sc_normal s" "sc_priority (clear_command_msg_window n s) = sc_priority s"
  "sc_active (clear_command_msg_window n s) = sc_active s" "sc_pending (clear_command_msg_window n s) = sc_pending s"
  "sc_nodes (clear_command_buffer_window n s) = sc_nodes s" "sc_tasks (clear_command_buffer_window n s) = sc_tasks s"
  "sc_normal (clear_command_buffer_window n s) = sc_normal s" "sc_priority (clear_command_buffer_window n s) = sc_priority s"
  "sc_active (clear_command_buffer_window n s) = sc_active s" "sc_pending (clear_command_buffer_window n s) = sc_pending s"
  "sc_nodes (clear_pending_command_window i s) = sc_nodes s" "sc_tasks (clear_pending_command_window i s) = sc_tasks s"
  "sc_normal (clear_pending_command_window i s) = sc_normal s" "sc_priority (clear_pending_command_window i s) = sc_priority s"
  "sc_active (clear_pending_command_window i s) = sc_active s"
  "length (sc_pending (clear_pending_command_window i s)) = length (sc_pending s)"
  "sc_nodes (save_pending_command_window i s) = sc_nodes s" "sc_tasks (save_pending_command_window i s) = sc_tasks s"
  "sc_normal (save_pending_command_window i s) = sc_normal s" "sc_priority (save_pending_command_window i s) = sc_priority s"
  "sc_active (save_pending_command_window i s) = sc_active s"
  "length (sc_pending (save_pending_command_window i s)) = length (sc_pending s)"
  by (simp_all add: clear_command_msg_window_def clear_command_buffer_window_def clear_pending_command_window_def
      save_pending_command_window_def Let_def)

lemma settle_fields [simp]:
  "sc_nodes (settle_command t r s) = sc_nodes s" "sc_tasks (settle_command t r s) = sc_tasks s"
  "sc_normal (settle_command t r s) = sc_normal s" "sc_priority (settle_command t r s) = sc_priority s"
  "sc_active (settle_command t r s) = sc_active s" "length (sc_pending (settle_command t r s)) = length (sc_pending s)"
  by (simp_all add: settle_command_def Let_def split: option.split)

lemma limbo_cong:
  assumes "sched_limbo i s" "sc_nodes s' = sc_nodes s" "sc_tasks s' = sc_tasks s" "sc_normal s' = sc_normal s"
    "sc_priority s' = sc_priority s" "sc_active s' = sc_active s" "length (sc_pending s') = length (sc_pending s)"
  shows "sched_limbo i s'"
proof -
  have "slot_ok s' j = slot_ok s j" for j using assms(2-6) by (simp add: slot_ok_def)
  moreover have "slot_free s' i = slot_free s i" using assms(2-6) by (simp add: slot_free_def)
  moreover have "sched_shape s' = sched_shape s" using assms(2-7) by (simp add: sched_shape_def)
  ultimately show ?thesis using assms(1) by (simp add: sched_limbo_def)
qed

text \<open>Finishing a task, as an equation that names its intermediate state.\<close>

definition released :: "nat \<Rightarrow> exchange_result_t \<Rightarrow> sched \<Rightarrow> sched" where
  "released i r s = (settle_command (sc_tasks s ! i) r
     (set_task i (\<lambda>t. t\<lparr>t_active := False, t_armed := False\<rparr>) s))\<lparr>sc_active := None\<rparr>"

definition task_completion :: "sched \<Rightarrow> nat \<Rightarrow> exchange_result_t \<Rightarrow> task_completion_t" where
  "task_completion s i r = (let t = sc_tasks s ! i in
     \<lparr>tc_valid = True, tc_id = t_id t,
      tc_target = (case t_node t of None \<Rightarrow> tgt_any | Some n \<Rightarrow> nl_target (sc_nodes s ! n)),
      tc_target_name = (case t_node t of None \<Rightarrow> [] | Some n \<Rightarrow> nl_name (sc_nodes s ! n)),
      tc_kind = t_kind t, tc_periodic = t_periodic t, tc_result = r, tc_have_result = True\<rparr>)"

lemma queue_clear_active:
  "(queue_task_slot i s)\<lparr>sc_active := a\<rparr> = queue_task_slot i (s\<lparr>sc_active := a\<rparr>)"
  "(clear_task_slot i s)\<lparr>sc_active := a\<rparr> = clear_task_slot i (s\<lparr>sc_active := a\<rparr>)"
  by (simp_all add: queue_task_slot_def clear_task_slot_def set_task_def Let_def)

lemma finalize_cases:
  assumes "sc_active s = Some i" "t_armed (sc_tasks s ! i)" "IBUS_TAKE_RESULT bus = (Some r, bus1)"
  shows "finalize_active_task bus s = (task_completion s i r, IBUS_RESET_FRAME_LAYOUT bus1,
    if t_used (sc_tasks s ! i) \<and> t_enabled (sc_tasks s ! i) \<and> t_periodic (sc_tasks s ! i)
    then queue_task_slot i (released i r s) else clear_task_slot i (released i r s))"
  using assms by (simp add: finalize_active_task_def task_completion_def released_def Let_def queue_clear_active)

lemma take_result_None: "IBUS_TAKE_RESULT bus = (None, bus1) \<Longrightarrow> bus1 = bus"
  by (simp add: IBUS_TAKE_RESULT_def split: if_splits)

lemma finalize_none:
  assumes "\<nexists>i r bus1. sc_active s = Some i \<and> t_armed (sc_tasks s ! i) \<and> IBUS_TAKE_RESULT bus = (Some r, bus1)"
  shows "finalize_active_task bus s = (no_completion, bus, s)"
  using assms by (auto simp: finalize_active_task_def Let_def dest: take_result_None split: option.split prod.split)

lemma released_limbo:
  assumes "sched_inv s" "sc_active s = Some i"
  shows "sched_limbo i (released i r s)"
  by (rule limbo_cong [OF limbo_finish [OF assms]]) (simp_all add: released_def)

lemma inv_finalize:
  assumes "sched_inv s"
  shows "sched_inv (snd (snd (finalize_active_task bus s)))"
proof (cases "\<exists>i r bus1. sc_active s = Some i \<and> t_armed (sc_tasks s ! i) \<and> IBUS_TAKE_RESULT bus = (Some r, bus1)")
  case False
  then show ?thesis using finalize_none [OF False] assms by simp
next
  case True
  then obtain i r bus1 where c: "sc_active s = Some i" "t_armed (sc_tasks s ! i)" "IBUS_TAKE_RESULT bus = (Some r, bus1)"
    by blast
  have i: "i < k_max_tasks" "i < length (sc_tasks s)" using assms c(1) by (auto simp: sched_inv_def sched_shape_def)
  note l = released_limbo [OF assms c(1), of r]
  have "slot_ok s i" using assms i by (simp add: sched_inv_def)
  then have "t_used (sc_tasks s ! i) \<Longrightarrow> has_node (length (sc_nodes s)) (sc_tasks s ! i)"
    by (simp add: slot_ok_def task_ok_def Let_def)
  then have "runnable (released i r s) i" if "t_used (sc_tasks s ! i)" "t_enabled (sc_tasks s ! i)"
    using that i by (simp add: runnable_def released_def Let_def)
  then show ?thesis
    unfolding finalize_cases [OF c] using limbo_queue [OF l] limbo_clear [OF l] by auto
qed

lemma inv_activate_next:
  assumes "sched_inv s" "sc_active s = None"
  shows "sched_inv (activate_next_task s)"
proof -
  have start: "sched_inv (activate_task i ((popped s' i)\<lparr>sc_burst := b\<rparr>))"
    if q: "q = sc_normal s \<and> s' = s\<lparr>sc_normal := tl q\<rparr> \<or> q = sc_priority s \<and> s' = s\<lparr>sc_priority := tl q\<rparr>" "q \<noteq> []" "i = hd q"
    for q s' i b
  proof -
    note p = limbo_pop [OF assms(1) q(1,2), folded q(3)]
    have f: "sc_tasks s' = sc_tasks s" "sc_nodes s' = sc_nodes s" "sc_active s' = None" using q(1) assms(2) by auto
    have l: "sched_limbo i ((popped s' i)\<lparr>sc_burst := b\<rparr>)" by (rule limbo_cong [OF p(1)]) (simp_all add: popped_def)
    have r: "runnable ((popped s' i)\<lparr>sc_burst := b\<rparr>) i" using p(2,3) f by (simp add: runnable_def popped_def Let_def)
    show ?thesis by (rule limbo_activate(1) [OF l r]) (simp add: popped_def f)
  qed
  consider (p) "sc_priority s \<noteq> []" "sc_normal s = [] \<or> sc_burst s < k_priority_burst_limit"
    | (n) "sc_normal s \<noteq> []" "sc_priority s = [] \<or> \<not> sc_burst s < k_priority_burst_limit"
    | (e) "sc_normal s = []" "sc_priority s = []" by blast
  then show ?thesis
  proof cases
    case p
    then obtain i q where q: "sc_priority s = i # q" by (cases "sc_priority s") auto
    show ?thesis
      using start [of "i # q" "s\<lparr>sc_priority := q\<rparr>" i] q pop_next_cases(1) [OF assms(1) q p(2)]
      by (simp add: activate_next_task_def)
  next
    case n
    then obtain i q where q: "sc_normal s = i # q" by (cases "sc_normal s") auto
    show ?thesis
      using start [of "i # q" "s\<lparr>sc_normal := q\<rparr>" i] q pop_next_cases(2) [OF assms(1) q n(2)]
      by (simp add: activate_next_task_def)
  next
    case e
    have "sched_inv (s\<lparr>sc_burst := 0\<rparr>)" by (rule sched_inv_cong [OF assms(1)]) simp_all
    then show ?thesis by (simp add: activate_next_task_def pop_next_cases(3) [OF assms(1) e])
  qed
qed

lemma inv_exchange_control:
  assumes "sched_inv s"
  shows "sched_inv (snd (exchange_control bus s))"
proof -
  obtain c bus1 s1 where f: "finalize_active_task bus s = (c, bus1, s1)" by (cases "finalize_active_task bus s") auto
  have i1: "sched_inv s1" using inv_finalize [OF assms, of bus] by (simp add: f)
  have "sched_inv (s1\<lparr>sc_completions := cs\<rparr>)" for cs by (rule sched_inv_cong [OF i1]) simp_all
  then show ?thesis
    using assms i1 inv_activate_next [OF i1] by (simp add: exchange_control_def f Let_def)
qed

lemma task0_fields [simp]: "\<not> t_used task0" "\<not> t_queued task0" "\<not> t_active task0" "\<not> t_armed task0" "t_queue task0 = tq_normal"
  by (simp_all add: task0_def)

lemma inv_fresh:
  assumes "length (sc_nodes s) = 5" "sc_tasks s = replicate k_max_tasks task0" "sc_normal s = []" "sc_priority s = []"
    "sc_active s = None" "length (sc_pending s) = 5"
  shows "sched_inv s"
  using assms by (simp add: sched_inv_def sched_shape_def slot_ok_def task_ok_def Let_def)

lemma periodic_slot: "find_periodic_data_task_slot s n = Some i \<Longrightarrow>
    i < length (sc_tasks s) \<and> t_used (sc_tasks s ! i) \<and> t_periodic (sc_tasks s ! i) \<and>
    t_kind (sc_tasks s ! i) = tk_data_request \<and> t_node (sc_tasks s ! i) = Some n"
  unfolding find_periodic_data_task_slot_def by (drule find_index_Some) simp

lemma inv_ensure:
  assumes "sched_inv s"
  shows "sched_inv (snd (ensure_periodic_exchange tgt q s))"
proof -
  { fix n i assume "find_periodic_data_task_slot s n = Some i"
    then have "sched_inv (update_task_queue_class i (to_task_queue q) (set_task i (\<lambda>t. t\<lparr>t_enabled := True\<rparr>) s))"
      using periodic_slot [of s n i] by (intro inv_update_queue_class inv_enable assms) simp_all }
  then show ?thesis
    by (auto simp: ensure_periodic_exchange_def assms find_node_bound intro!: inv_add_task split: option.split)
qed

lemma inv_cancel_target:
  assumes "sched_inv s"
  shows "sched_inv (snd (cancel_target tgt s))"
proof -
  { fix n assume "find_node_by_target s tgt = Some n"
    obtain r s1 where r: "remove_tasks_for_node n s = (r, s1)" by (cases "remove_tasks_for_node n s")
    have "sched_inv s1" using inv_remove_tasks [OF assms, of n] by (simp add: r)
    then have "sched_inv (clear_command_msg_window (sc_nodes s ! n)
        (clear_command_buffer_window (sc_nodes s ! n) (clear_pending_command_window n s1)))"
      by (rule sched_inv_cong) simp_all
    then have "sched_inv (snd (let (removed, s1) = remove_tasks_for_node n s in
        (removed, clear_command_msg_window (sc_nodes s ! n)
           (clear_command_buffer_window (sc_nodes s ! n) (clear_pending_command_window n s1)))))"
      by (simp add: r) }
  then show ?thesis using assms by (simp add: cancel_target_def split: option.split)
qed

subsection \<open>Properties\<close>

text \<open>
  C8: the scheduler's invariant holds initially and is kept by every operation of its interface: a
  task is at all times in exactly one queue or active, never in both, never twice, never lost; only
  the active task has an exchange under way.
\<close>

theorem scheduler_invariant:
  assumes "sched_inv s"
  shows "sched_inv sched0 \<and> sched_inv (sched_reset s) \<and> sched_inv (sched_init ctx cmd cn buf bn s) \<and>
    sched_inv (snd (enqueue_exchange tgt q periodic s)) \<and> sched_inv (snd (ensure_periodic_exchange tgt q s)) \<and>
    sched_inv (snd (enqueue_command tgt cid v hv q s)) \<and> sched_inv (snd (cancel_periodic_exchange tgt s)) \<and>
    sched_inv (snd (cancel_task tid s)) \<and> sched_inv (snd (cancel_target tgt s)) \<and>
    sched_inv (snd (try_pop_completion s)) \<and> sched_inv (snd (exchange_control bus s))"
proof (intro conjI)
  show "sched_inv sched0" by (rule inv_fresh) (simp_all add: sched0_def G_NODES_init_def)
  have l: "length (sc_nodes s) = 5" using assms by (simp add: sched_inv_def sched_shape_def)
  then show "sched_inv (sched_reset s)" by (intro inv_fresh) (simp_all add: sched_reset_def)
  show "sched_inv (sched_init ctx cmd cn buf bn s)"
  proof -
    have "slot_ok (sched_init ctx cmd cn buf bn s) i = slot_ok s i" for i
      by (simp add: slot_ok_def sched_init_def init_node_layouts_def)
    then show ?thesis using assms by (simp add: sched_inv_def sched_shape_def sched_init_def init_node_layouts_def)
  qed
  show "sched_inv (snd (enqueue_exchange tgt q periodic s))"
    by (auto simp: enqueue_exchange_def assms find_node_bound intro!: inv_add_task split: option.split)
  show "sched_inv (snd (ensure_periodic_exchange tgt q s))" by (rule inv_ensure [OF assms])
  show "sched_inv (snd (enqueue_command tgt cid v hv q s))"
    by (auto simp: enqueue_command_def assms find_node_bound intro!: inv_add_task split: option.split)
  show "sched_inv (snd (cancel_periodic_exchange tgt s))"
    by (auto simp: cancel_periodic_exchange_def assms dest: periodic_slot intro!: inv_cancel_slot split: option.split)
  show "sched_inv (snd (cancel_task tid s))"
    by (auto simp: cancel_task_def find_task_slot_by_id_def assms dest: find_index_Some intro!: inv_cancel_slot
        split: option.split if_splits)
  show "sched_inv (snd (cancel_target tgt s))" by (rule inv_cancel_target [OF assms])
  have "sched_inv (s\<lparr>sc_completions := cs\<rparr>)" for cs by (rule sched_inv_cong [OF assms]) simp_all
  then show "sched_inv (snd (try_pop_completion s))" by (simp add: try_pop_completion_def assms split: list.split)
  show "sched_inv (snd (exchange_control bus s))" by (rule inv_exchange_control [OF assms])
qed

text \<open>A concrete scheduler: a periodic exchange with PSS is queued and a command for TCS waits with priority.\<close>

definition demo_sched :: sched where
  "demo_sched = snd (enqueue_command tgt_tcs 80 (Fin 1) False qc_priority (snd (ensure_periodic_exchange tgt_pss qc_normal sched0)))"

theorem scheduler_invariant_witness:
  "sched_inv sched0 \<and> sched_inv (snd (ensure_periodic_exchange tgt_pss qc_normal sched0))"
proof -
  have 0: "sched_inv sched0" by (rule inv_fresh) (simp_all add: sched0_def G_NODES_init_def)
  show ?thesis
    using scheduler_invariant [OF 0, of None None 0 None 0 tgt_pss qc_normal True 0 "Fin 0" False 0 bus_state0] by blast
qed

definition two_class_pop :: "nat list \<Rightarrow> nat list \<Rightarrow> nat \<Rightarrow> nat option \<times> nat list \<times> nat list \<times> nat" where
  "two_class_pop p n b =
     (if p \<noteq> [] \<and> (n = [] \<or> b < 3) then (Some (hd p), tl p, n, b + 1)
      else if n \<noteq> [] then (Some (hd n), p, tl n, 0)
      else (None, p, n, 0))"

text \<open>
  C6: the queue that the code runs refines a two-class queue given by its two lists and the burst
  counter alone: the priority head goes first while fewer than three priority tasks ran in a row or
  no normal task waits, the normal head otherwise. Of the tasks only the popped one's \<open>queued\<close> flag
  changes.
\<close>

theorem pop_refines_two_class_queue:
  assumes "sched_inv s" "pop_next_task_slot s = (r, s')"
  shows "(r, sc_priority s', sc_normal s', sc_burst s') = two_class_pop (sc_priority s) (sc_normal s) (sc_burst s) \<and>
    (case r of None \<Rightarrow> sc_tasks s' = sc_tasks s
     | Some i \<Rightarrow> runnable s i \<and> sc_tasks s' = (sc_tasks s)[i := (sc_tasks s ! i)\<lparr>t_queued := False\<rparr>])"
proof -
  have run: "runnable s (hd q)" if "q = sc_normal s \<or> q = sc_priority s" "q \<noteq> []" for q
    using limbo_pop(2) [OF assms(1), of q] that by blast
  show ?thesis
  proof (cases "sc_priority s \<noteq> [] \<and> (sc_normal s = [] \<or> sc_burst s < k_priority_burst_limit)")
    case True
    then obtain i q where q: "sc_priority s = i # q" by (cases "sc_priority s") auto
    show ?thesis
      using True q pop_next_cases(1) [OF assms(1) q] run [of "i # q"] assms(2)
      by (auto simp: two_class_pop_def popped_def set_task_def k_priority_burst_limit_def)
  next
    case False
    show ?thesis
    proof (cases "sc_normal s")
      case Nil
      with False have "sc_priority s = []" by auto
      with pop_next_cases(3) [OF assms(1) Nil this] Nil assms(2) show ?thesis by (auto simp: two_class_pop_def)
    next
      case (Cons i q)
      with False have "sc_priority s = [] \<or> \<not> sc_burst s < k_priority_burst_limit" by auto
      with pop_next_cases(2) [OF assms(1) Cons this] Cons run [of "i # q"] assms(2) show ?thesis
        by (auto simp: two_class_pop_def popped_def set_task_def k_priority_burst_limit_def)
    qed
  qed
qed

lemma demo_sched_inv: "sched_inv demo_sched"
proof -
  have 0: "sched_inv sched0" by (rule inv_fresh) (simp_all add: sched0_def G_NODES_init_def)
  have 1: "sched_inv (snd (ensure_periodic_exchange tgt_pss qc_normal sched0))" by (rule inv_ensure [OF 0])
  show ?thesis
    unfolding demo_sched_def
    by (auto simp: enqueue_command_def 1 find_node_bound intro!: inv_add_task split: option.split)
qed

lemma demo_sched_queues: "sc_normal demo_sched = [0]" "sc_priority demo_sched = [1]" "sc_burst demo_sched = 0"
  by code_simp+

theorem pop_refines_two_class_queue_witness:
  "fst (pop_next_task_slot demo_sched) = Some 1 \<and> two_class_pop [1] [0] 0 = (Some 1, [], [0], 1)"
  using pop_refines_two_class_queue [OF demo_sched_inv, of "fst (pop_next_task_slot demo_sched)" "snd (pop_next_task_slot demo_sched)"]
  by (simp add: demo_sched_queues two_class_pop_def)

text \<open>
  C22: no normal task starves. If the scheduler's queues are only ever extended between two
  calls, then the task at position \<open>p\<close> of the normal queue is started by one of the next
  4 (p + 1) calls, however many priority tasks are queued in the meantime.
\<close>

theorem normal_task_bounded_wait:
  assumes "\<forall>k. sched_inv (f k)"
    and "\<forall>k. sc_burst (f (Suc k)) = sc_burst (snd (pop_next_task_slot (f k)))"
    and "\<forall>k. \<exists>ns. sc_normal (f (Suc k)) = sc_normal (snd (pop_next_task_slot (f k))) @ ns"
    and "sc_normal (f 0) = xs @ x # ys"
  shows "\<exists>k < 4 * (length xs + 1). fst (pop_next_task_slot (f k)) = Some x"
proof -
  have "schedq.serves f" using assms(1-3) by (simp add: schedq.serves_def)
  from schedq.served_in_order [OF this assms(4)] obtain k where
    "k \<le> k_priority_burst_limit + length xs * (k_priority_burst_limit + 1)" "fst (pop_next_task_slot (f k)) = Some x" by auto
  then show ?thesis by (intro exI [of _ k]) (simp add: k_priority_burst_limit_def)
qed

text \<open>The call with a priority task at its head, then one with the normal task, then an empty scheduler.\<close>

definition demo_rest :: sched where
  "demo_rest = demo_sched\<lparr>sc_tasks := (sc_tasks demo_sched)[1 := task0], sc_priority := [], sc_burst := 1\<rparr>"

definition demo_run :: "nat \<Rightarrow> sched" where
  "demo_run k = (if k = 0 then demo_sched else if k = 1 then demo_rest else sched0)"

lemma demo_run_inv: "sched_inv (demo_run k)"
proof -
  have len: "length (sc_tasks demo_sched) = 32" using demo_sched_inv by (simp add: sched_inv_def sched_shape_def k_max_tasks_def)
  have "sched_inv (demo_sched\<lparr>sc_burst := 1\<rparr>)" by (rule sched_inv_cong [OF demo_sched_inv]) simp_all
  then have "sched_inv (clear_task_slot 1 (remove_slot_from_queues 1 (demo_sched\<lparr>sc_burst := 1\<rparr>)))"
    by (intro limbo_clear limbo_remove) (simp_all add: k_max_tasks_def, code_simp)
  moreover have "clear_task_slot 1 (remove_slot_from_queues 1 (demo_sched\<lparr>sc_burst := 1\<rparr>)) = demo_rest"
    using len
    by (simp add: demo_rest_def clear_task_slot_def remove_slot_from_queues_def set_task_def demo_sched_queues Let_def)
  ultimately have "sched_inv demo_rest" by simp
  moreover have "sched_inv sched0" by (rule inv_fresh) (simp_all add: sched0_def G_NODES_init_def)
  ultimately show ?thesis using demo_sched_inv by (simp add: demo_run_def)
qed

lemma demo_run_step:
  "sc_burst (demo_run (Suc k)) = sc_burst (snd (pop_next_task_slot (demo_run k)))"
  "sc_normal (demo_run (Suc k)) = sc_normal (snd (pop_next_task_slot (demo_run k)))"
proof -
  have q: "sc_normal demo_rest = [0]" "sc_priority demo_rest = []" "sc_burst demo_rest = 1"
    by (simp_all add: demo_rest_def demo_sched_queues)
  have r: "sched_inv demo_rest" using demo_run_inv [of 1] by (simp add: demo_run_def)
  have z: "sched_inv sched0" using demo_run_inv [of 2] by (simp add: demo_run_def)
  have s0: "sc_normal sched0 = []" "sc_priority sched0 = []" "sc_burst sched0 = 0" by (simp_all add: sched0_def)
  note p = pop_next_cases(1) [OF demo_sched_inv demo_sched_queues(2)] pop_next_cases(2) [OF r q(1)] pop_next_cases(3) [OF z s0(1,2)]
  show "sc_burst (demo_run (Suc k)) = sc_burst (snd (pop_next_task_slot (demo_run k)))"
    "sc_normal (demo_run (Suc k)) = sc_normal (snd (pop_next_task_slot (demo_run k)))"
    using p by (simp_all add: demo_run_def demo_sched_queues q s0 popped_def k_priority_burst_limit_def)
qed

theorem normal_task_bounded_wait_witness:
  "\<exists>k<4. fst (pop_next_task_slot (demo_run k)) = Some 0"
  using normal_task_bounded_wait [of demo_run "[]" 0 "[]"] demo_run_inv demo_run_step
  by (simp add: demo_run_def demo_sched_queues)

lemma find_index_update:
  assumes "i < length xs" "P x" "\<forall>j<i. \<not> P (xs ! j)"
  shows "find_index P (xs[i := x]) = Some i"
  using assms
proof (induction xs arbitrary: i)
  case Nil
  then show ?case by simp
next
  case (Cons y ys)
  show ?case
  proof (cases i)
    case 0
    with Cons.prems show ?thesis by simp
  next
    case (Suc k)
    with Cons.prems have "\<not> P y" "\<forall>j<k. \<not> P (ys ! j)" by fastforce+
    with Cons.IH [of k] Cons.prems Suc show ?thesis by simp
  qed
qed

text \<open>A task that keeps what the search looks at keeps its place.\<close>

definition periodic_key :: "task_t \<Rightarrow> bool \<times> bool \<times> task_kind_t \<times> nat option" where
  "periodic_key t = (t_used t, t_periodic t, t_kind t, t_node t)"

lemma find_index_cong:
  "map P xs = map P ys \<Longrightarrow> find_index P xs = find_index P ys"
proof (induction xs arbitrary: ys)
  case Nil
  then show ?case by simp
next
  case (Cons x xs)
  then show ?case by (cases ys) auto
qed

lemma find_periodic_cong:
  assumes "map periodic_key (sc_tasks s') = map periodic_key (sc_tasks s)"
  shows "find_periodic_data_task_slot s' n = find_periodic_data_task_slot s n"
proof -
  let ?P = "\<lambda>t. t_used t \<and> t_periodic t \<and> t_kind t = tk_data_request \<and> t_node t = Some n"
  let ?Q = "\<lambda>(u, p, k, m). u \<and> p \<and> k = tk_data_request \<and> m = Some n"
  have "?P = ?Q \<circ> periodic_key" by (auto simp: periodic_key_def fun_eq_iff)
  then have "map ?P (sc_tasks s') = map ?P (sc_tasks s)"
    using assms by (metis (no_types, lifting) map_map)
  then show ?thesis unfolding find_periodic_data_task_slot_def by (rule find_index_cong)
qed

lemma set_task_key:
  "(\<And>t. periodic_key (f t) = periodic_key t) \<Longrightarrow> map periodic_key (sc_tasks (set_task i f s)) = map periodic_key (sc_tasks s)"
  by (cases "i < length (sc_tasks s)")
    (auto simp: set_task_def map_update intro!: nth_equalityI simp: nth_list_update)

lemma queue_key: "map periodic_key (sc_tasks (queue_task_slot i s)) = map periodic_key (sc_tasks s)"
proof -
  have "periodic_key (t\<lparr>t_queued := b\<rparr>) = periodic_key t" for t b by (simp add: periodic_key_def)
  then show ?thesis by (simp add: queue_task_slot_def Let_def set_task_key)
qed

lemma remove_key: "map periodic_key (sc_tasks (remove_slot_from_queues i s)) = map periodic_key (sc_tasks s)"
proof -
  have "periodic_key (t\<lparr>t_queued := b\<rparr>) = periodic_key t" for t b by (simp add: periodic_key_def)
  then show ?thesis by (simp add: remove_slot_from_queues_def Let_def set_task_key)
qed

lemma update_class_key: "map periodic_key (sc_tasks (update_task_queue_class i q s)) = map periodic_key (sc_tasks s)"
proof -
  have "periodic_key (t\<lparr>t_queue := b\<rparr>) = periodic_key t" for t b by (simp add: periodic_key_def)
  then show ?thesis by (simp add: update_task_queue_class_def Let_def set_task_key queue_key remove_key)
qed

lemma queue_task_at:
  "i < length (sc_tasks s) \<Longrightarrow> t_enabled (sc_tasks (queue_task_slot i s) ! i) = t_enabled (sc_tasks s ! i) \<and>
     t_queue (sc_tasks (queue_task_slot i s) ! i) = t_queue (sc_tasks s ! i) \<and>
     t_id (sc_tasks (queue_task_slot i s) ! i) = t_id (sc_tasks s ! i) \<and>
     sc_nodes (queue_task_slot i s) = sc_nodes s \<and> length (sc_tasks (queue_task_slot i s)) = length (sc_tasks s)"
  by (simp add: queue_task_slot_def Let_def)

lemma remove_task_at:
  "i < length (sc_tasks s) \<Longrightarrow> t_enabled (sc_tasks (remove_slot_from_queues i s) ! i) = t_enabled (sc_tasks s ! i) \<and>
     t_id (sc_tasks (remove_slot_from_queues i s) ! i) = t_id (sc_tasks s ! i) \<and>
     sc_nodes (remove_slot_from_queues i s) = sc_nodes s \<and> length (sc_tasks (remove_slot_from_queues i s)) = length (sc_tasks s)"
  by (simp add: remove_slot_from_queues_def Let_def set_task_def)

lemma update_class_at:
  assumes "i < length (sc_tasks s)" "t_used (sc_tasks s ! i)"
  shows "t_enabled (sc_tasks (update_task_queue_class i q s) ! i) = t_enabled (sc_tasks s ! i) \<and>
     t_queue (sc_tasks (update_task_queue_class i q s) ! i) = q \<and>
     t_id (sc_tasks (update_task_queue_class i q s) ! i) = t_id (sc_tasks s ! i) \<and>
     sc_nodes (update_task_queue_class i q s) = sc_nodes s \<and>
     length (sc_tasks (update_task_queue_class i q s)) = length (sc_tasks s)"
  using assms queue_task_at remove_task_at [OF assms(1)]
  by (auto simp: update_task_queue_class_def Let_def)

lemma ensure_fixpoint:
  assumes "find_node_by_target s tgt = Some n" "find_periodic_data_task_slot s n = Some i"
    "t_enabled (sc_tasks s ! i)" "t_queue (sc_tasks s ! i) = to_task_queue q"
  shows "ensure_periodic_exchange tgt q s = (t_id (sc_tasks s ! i), s)"
proof -
  have i: "i < length (sc_tasks s)" using periodic_slot [OF assms(2)] by simp
  have "(sc_tasks s ! i)\<lparr>t_enabled := True\<rparr> = sc_tasks s ! i" using assms(3) by (cases "sc_tasks s ! i") simp
  then have "set_task i (\<lambda>t. t\<lparr>t_enabled := True\<rparr>) s = s" by (cases s) (simp add: set_task_def)
  then show ?thesis using assms i by (simp add: ensure_periodic_exchange_def update_task_queue_class_def Let_def)
qed

lemma ensure_new_slot:
  assumes "find_periodic_data_task_slot s n = None" "alloc_task_slot s = Some i"
    "add_task n tk_data_request q True 0 (Fin 1) False False s = (tid, s')"
  shows "find_periodic_data_task_slot s' n = Some i \<and> t_enabled (sc_tasks s' ! i) \<and> t_queue (sc_tasks s' ! i) = q \<and>
    t_id (sc_tasks s' ! i) = tid \<and> sc_nodes s' = sc_nodes s"
proof -
  have i: "i < length (sc_tasks s)" using assms(2) unfolding alloc_task_slot_def by (auto dest: find_index_Some)
  let ?f = "\<lambda>t. t\<lparr>t_used := True, t_queued := False, t_active := False, t_armed := False,
     t_periodic := True, t_enabled := True, t_id := sc_next_id s, t_kind := tk_data_request, t_queue := q,
     t_node := Some n, t_command_id := 0, t_command_value := Fin 1, t_has_value := False, t_staged := False\<rparr>"
  let ?s1 = "set_task i ?f (s\<lparr>sc_next_id := sc_next_id s + 1\<rparr>)"
  have "add_task n tk_data_request q True 0 (Fin 1) False False s = (sc_next_id s, queue_task_slot i ?s1)"
    by (simp add: add_task_def assms(2) Let_def)
  then have "(sc_next_id s, queue_task_slot i ?s1) = (tid, s')" using assms(3) by (rule subst)
  note e = this [unfolded prod.inject, THEN conjunct1, symmetric] this [unfolded prod.inject, THEN conjunct2, symmetric]
  have "\<forall>j<i. \<not> (\<lambda>t. t_used t \<and> t_periodic t \<and> t_kind t = tk_data_request \<and> t_node t = Some n) (sc_tasks s ! j)"
    using assms(1) i unfolding find_periodic_data_task_slot_def find_index_None by (metis nth_mem order.strict_trans)
  then have "find_periodic_data_task_slot ?s1 n = Some i"
    unfolding find_periodic_data_task_slot_def set_task_def using i by (simp add: find_index_update)
  then have "find_periodic_data_task_slot s' n = Some i"
    using find_periodic_cong [OF queue_key, of i ?s1 n] by (simp add: e)
  with queue_task_at [of i ?s1] i show ?thesis by (simp add: e)
qed

text \<open>
  Asking for a periodic exchange is idempotent: when the target exists and has a periodic task
  already or a slot is free, a second request with the same class finds the task of the first one,
  returns its id and changes nothing.
\<close>

lemma ensure_periodic_idempotent:
  assumes "find_node_by_target s tgt = Some n"
    and "find_periodic_data_task_slot s n \<noteq> None \<or> alloc_task_slot s \<noteq> None"
    and "ensure_periodic_exchange tgt q s = (tid, s')"
  shows "ensure_periodic_exchange tgt q s' = (tid, s') \<and>
    (\<exists>i. find_periodic_data_task_slot s' n = Some i \<and> t_id (sc_tasks s' ! i) = tid \<and> t_enabled (sc_tasks s' ! i))"
proof -
  have "\<exists>i. find_periodic_data_task_slot s' n = Some i \<and> t_enabled (sc_tasks s' ! i) \<and>
      t_queue (sc_tasks s' ! i) = to_task_queue q \<and> t_id (sc_tasks s' ! i) = tid \<and> sc_nodes s' = sc_nodes s"
  proof (cases "find_periodic_data_task_slot s n")
    case None
    with assms obtain i where "alloc_task_slot s = Some i" by auto
    from ensure_new_slot [OF None this] None assms(1,3) show ?thesis
      by (auto simp: ensure_periodic_exchange_def)
  next
    case (Some i)
    let ?s1 = "set_task i (\<lambda>t. t\<lparr>t_enabled := True\<rparr>) s"
    note p = periodic_slot [OF Some]
    have "periodic_key (t\<lparr>t_enabled := True\<rparr>) = periodic_key t" for t by (simp add: periodic_key_def)
    then have "find_periodic_data_task_slot ?s1 n = Some i" using find_periodic_cong [OF set_task_key] Some by metis
    then have "find_periodic_data_task_slot (update_task_queue_class i (to_task_queue q) ?s1) n = Some i"
      using find_periodic_cong [OF update_class_key] by metis
    then show ?thesis
      using assms(1,3) Some p update_class_at [of i ?s1 "to_task_queue q"]
      by (auto simp: ensure_periodic_exchange_def)
  qed
  then obtain i where i: "find_periodic_data_task_slot s' n = Some i" "t_enabled (sc_tasks s' ! i)"
    "t_queue (sc_tasks s' ! i) = to_task_queue q" "t_id (sc_tasks s' ! i) = tid" "sc_nodes s' = sc_nodes s" by blast
  have "find_node_by_target s' tgt = Some n" using assms(1) i(5) by (simp add: find_node_by_target_def)
  from ensure_fixpoint [OF this i(1-3)] i show ?thesis by simp
qed

lemma settle_pending:
  assumes "t_kind t = tk_command" "t_node t = Some n" "n < length (sc_pending s)"
  shows "t_enabled t \<Longrightarrow> r \<noteq> res_success \<Longrightarrow> sc_msg_cmd_buf s = Some b \<Longrightarrow> span_ok (Some b) (sc_msg_cmd_buf_blocks s) \<Longrightarrow>
      nl_com_blocks (sc_nodes s ! n) \<le> sc_msg_cmd_buf_blocks s \<Longrightarrow> nl_com_blocks (sc_nodes s ! n) \<le> length (sc_pending s ! n) \<Longrightarrow>
      sc_pending (settle_command t r s) ! n =
        take (nl_com_blocks (sc_nodes s ! n)) b @ drop (nl_com_blocks (sc_nodes s ! n)) (sc_pending s ! n)"
    and "\<not> t_enabled t \<or> r = res_success \<Longrightarrow>
      sc_pending (settle_command t r s) ! n = clear_window 0 (nl_com_blocks (sc_nodes s ! n)) (sc_pending s ! n)"
proof -
  let ?k = "nl_com_blocks (sc_nodes s ! n)" and ?p = "sc_pending s ! n"
  show "sc_pending (settle_command t r s) ! n = clear_window 0 ?k ?p" if "\<not> t_enabled t \<or> r = res_success"
    using that assms by (simp add: settle_command_def clear_pending_command_window_def Let_def)
  assume a: "t_enabled t" "r \<noteq> res_success" "sc_msg_cmd_buf s = Some b" "span_ok (Some b) (sc_msg_cmd_buf_blocks s)"
    "?k \<le> sc_msg_cmd_buf_blocks s" "?k \<le> length ?p"
  let ?s1 = "clear_command_msg_window (sc_nodes s ! n) s"
  have s1: "sc_msg_cmd_buf ?s1 = Some b" "sc_msg_cmd_buf_blocks ?s1 = sc_msg_cmd_buf_blocks s"
    using a(3) by (simp_all add: clear_command_msg_window_def)
  have lb: "?k \<le> length b" using a(4,5) by (simp add: span_ok_def)
  have copy: "copy_blocks (Some ?p) (length ?p) 0 (Some b) (sc_msg_cmd_buf_blocks s) 0 ?k = Some (take ?k b @ drop ?k ?p)"
  proof (cases "?k = 0")
    case True
    then show ?thesis by (simp add: copy_blocks_def)
  next
    case False
    then have c: "copy_count (length ?p) 0 (sc_msg_cmd_buf_blocks s) 0 ?k = ?k"
      using a(5,6) by (auto simp: copy_count_def)
    show ?thesis unfolding copy_blocks_Some c using a lb by (subst copy_loop_slice) simp_all
  qed
  show "sc_pending (settle_command t r s) ! n = take ?k b @ drop ?k ?p"
    using assms a by (simp add: settle_command_def Let_def save_pending_command_window_def s1 window_fits_def copy)
qed

text \<open>
  C20: the end of an exchange. In the next call after the bus has a result for the active task, the
  scheduler records exactly one completion with the task's target, kind and the result, takes the
  result from the bus and has no active task; a periodic task that is still enabled goes to the end
  of the queue of its class, every other task's slot is free again. A command that was not
  delivered is kept: its transmitted window is saved for the node; after a success, or when the
  task was cancelled meanwhile, the node's saved window is empty.
\<close>

theorem finished_exchange:
  assumes "sched_inv s" "sc_ready s" "sc_active s = Some i" "t_armed (sc_tasks s ! i)" "b_result_ready bus"
    and "t = sc_tasks s ! i" "t_node t = Some n" "exchange_control bus s = (bus', s')"
  shows "sc_active s' = None \<and> \<not> b_result_ready bus' \<and>
    sc_completions s' = sc_completions s @ [\<lparr>cp_valid = True, cp_target = nl_target (sc_nodes s ! n),
      cp_kind = to_public_completion_kind (t_kind t), cp_periodic = t_periodic t, cp_have_result = True,
      cp_result = to_public_completion_result (b_last_result bus)\<rparr>] \<and>
    (if t_used t \<and> t_enabled t \<and> t_periodic t
     then t_queued (sc_tasks s' ! i) \<and>
       (sc_normal s', sc_priority s') = (if t_queue t = tq_priority then (sc_normal s, sc_priority s @ [i])
                                          else (sc_normal s @ [i], sc_priority s))
     else sc_tasks s' ! i = task0 \<and> sc_normal s' = sc_normal s \<and> sc_priority s' = sc_priority s) \<and>
    (t_kind t = tk_command \<longrightarrow> n < 5 \<longrightarrow>
       (if \<not> t_enabled t \<or> b_last_result bus = res_success
        then sc_pending s' ! n = clear_window 0 (nl_com_blocks (sc_nodes s ! n)) (sc_pending s ! n)
        else (\<forall>b. sc_msg_cmd_buf s = Some b \<longrightarrow> span_ok (Some b) (sc_msg_cmd_buf_blocks s) \<longrightarrow>
               nl_com_blocks (sc_nodes s ! n) \<le> min (sc_msg_cmd_buf_blocks s) (length (sc_pending s ! n)) \<longrightarrow>
               take (nl_com_blocks (sc_nodes s ! n)) (sc_pending s' ! n) = take (nl_com_blocks (sc_nodes s ! n)) b)))"
proof -
  have i: "i < length (sc_tasks s)" "i < k_max_tasks" using assms(1,3) by (auto simp: sched_inv_def sched_shape_def)
  have pl: "length (sc_pending s) = 5" using assms(1) by (simp add: sched_inv_def sched_shape_def)
  have take: "IBUS_TAKE_RESULT bus = (Some (b_last_result bus), IBUS_CLEAR_RESULT bus)"
    using assms(5) by (simp add: IBUS_TAKE_RESULT_def)
  let ?r = "b_last_result bus" and ?again = "t_used t \<and> t_enabled t \<and> t_periodic t"
  define s1 where "s1 = released i ?r s"
  define s2 where "s2 = (if ?again then queue_task_slot i s1 else clear_task_slot i s1)"
  have s': "s' = s2\<lparr>sc_completions := sc_completions s2 @ [\<lparr>cp_valid = True, cp_target = nl_target (sc_nodes s ! n),
      cp_kind = to_public_completion_kind (t_kind t), cp_periodic = t_periodic t, cp_have_result = True,
      cp_result = to_public_completion_result ?r\<rparr>]\<rparr>" "bus' = IBUS_RESET_FRAME_LAYOUT (IBUS_CLEAR_RESULT bus)"
    using assms(2,8) finalize_cases [OF assms(3,4) take] assms(6,7)
    by (auto simp: exchange_control_def Let_def task_completion_def s2_def s1_def)
  have c1: "sc_completions s1 = sc_completions s"
    by (simp add: s1_def released_def settle_command_def set_task_def clear_command_msg_window_def
        clear_command_buffer_window_def clear_pending_command_window_def save_pending_command_window_def Let_def
        split: option.split)
  have f1: "sc_active s1 = None" "sc_normal s1 = sc_normal s" "sc_priority s1 = sc_priority s"
    "sc_tasks s1 = (sc_tasks s)[i := t\<lparr>t_active := False, t_armed := False\<rparr>]"
    by (simp_all add: s1_def released_def set_task_def assms(6))
  have "slot_ok s i" using assms(1) i by (simp add: sched_inv_def)
  then have nq: "t_active t" "\<not> t_queued t"
    using assms(3,6) by (auto simp: slot_ok_def task_ok_def Let_def split: if_splits)
  have f2: "sc_active s2 = None" "sc_completions s2 = sc_completions s" "sc_pending s2 = sc_pending s1"
    using f1 c1 by (simp_all add: s2_def queue_task_slot_def clear_task_slot_def set_task_def Let_def)
  have pend: "sc_pending s1 ! n = sc_pending (settle_command t ?r
      (set_task i (\<lambda>t. t\<lparr>t_active := False, t_armed := False\<rparr>) s)) ! n"
    by (simp add: s1_def released_def assms(6))
  note sp = settle_pending [of t n "set_task i (\<lambda>t. t\<lparr>t_active := False, t_armed := False\<rparr>) s" ?r]
  have buf: "sc_msg_cmd_buf (set_task i f s) = sc_msg_cmd_buf s" "sc_msg_cmd_buf_blocks (set_task i f s) = sc_msg_cmd_buf_blocks s" for f
    by (simp_all add: set_task_def)
  have bus: "\<not> b_result_ready bus'" by (simp add: s'(2) IBUS_RESET_FRAME_LAYOUT_def IBUS_CLEAR_RESULT_def)
  have again: "if ?again
     then t_queued (sc_tasks s2 ! i) \<and>
       (sc_normal s2, sc_priority s2) = (if t_queue t = tq_priority then (sc_normal s, sc_priority s @ [i])
                                          else (sc_normal s @ [i], sc_priority s))
     else sc_tasks s2 ! i = task0 \<and> sc_normal s2 = sc_normal s \<and> sc_priority s2 = sc_priority s"
    using i nq f1 by (auto simp: s2_def queue_task_slot_def clear_task_slot_def set_task_def Let_def)
  have cmd: "t_kind t = tk_command \<longrightarrow> n < 5 \<longrightarrow>
       (if \<not> t_enabled t \<or> ?r = res_success
        then sc_pending s1 ! n = clear_window 0 (nl_com_blocks (sc_nodes s ! n)) (sc_pending s ! n)
        else (\<forall>b. sc_msg_cmd_buf s = Some b \<longrightarrow> span_ok (Some b) (sc_msg_cmd_buf_blocks s) \<longrightarrow>
               nl_com_blocks (sc_nodes s ! n) \<le> min (sc_msg_cmd_buf_blocks s) (length (sc_pending s ! n)) \<longrightarrow>
               take (nl_com_blocks (sc_nodes s ! n)) (sc_pending s1 ! n) = take (nl_com_blocks (sc_nodes s ! n)) b))"
    unfolding pend using sp assms(7) pl buf by (auto simp: span_ok_def)
  show ?thesis using s'(1) f2 bus again cmd by simp
qed

text \<open>The exchange of the priority command of \<open>demo_sched\<close>, under way.\<close>

definition demo_active :: sched where
  "demo_active = set_task 1 (\<lambda>t. t\<lparr>t_armed := True\<rparr>)
     ((activate_next_task demo_sched)\<lparr>sc_ready := True, sc_msg_cmd_buf := Some [9, 8, 7, 0, 0, 0, 0, 0], sc_msg_cmd_buf_blocks := 8\<rparr>)"

lemma demo_active_inv: "sched_inv demo_active"
proof -
  have "sched_inv (activate_next_task demo_sched)"
    by (rule inv_activate_next [OF demo_sched_inv]) code_simp
  then have a: "sched_inv ((activate_next_task demo_sched)\<lparr>sc_ready := True,
      sc_msg_cmd_buf := Some [9, 8, 7, 0, 0, 0, 0, 0], sc_msg_cmd_buf_blocks := 8\<rparr>)" (is "sched_inv ?s")
    by (rule sched_inv_cong) simp_all
  have act: "sc_active ?s = Some 1" by code_simp
  have ok: "slot_ok ?s j" if "j < k_max_tasks" for j using a that by (simp add: sched_inv_def)
  have i: "1 < length (sc_tasks ?s)" using inv_length(1) [OF a] by (simp add: k_max_tasks_def)
  have "slot_ok (set_task 1 (\<lambda>t. t\<lparr>t_armed := True\<rparr>) ?s) j" if "j < k_max_tasks" for j
  proof (cases "j = 1")
    case True
    then show ?thesis using ok [OF that] act i by (auto simp: slot_ok_def task_ok_def Let_def split: if_splits)
  next
    case False
    then show ?thesis using ok [OF that] i by (simp add: slot_ok_def Let_def)
  qed
  then show ?thesis using a by (simp add: demo_active_def sched_inv_def sched_shape_def)
qed

theorem finished_exchange_witness:
  "sc_pending (snd (exchange_control (bus_state0\<lparr>b_result_ready := True, b_last_result := res_timeout\<rparr>) demo_active)) ! 1 =
     [9, 8, 7, 0, 0, 0, 0, 0] \<and>
   sc_active (snd (exchange_control (bus_state0\<lparr>b_result_ready := True, b_last_result := res_timeout\<rparr>) demo_active)) = None"
proof -
  let ?bus = "bus_state0\<lparr>b_result_ready := True, b_last_result := res_timeout\<rparr>"
  have p: "sc_ready demo_active" "sc_active demo_active = Some 1" "t_armed (sc_tasks demo_active ! 1)"
    "b_result_ready ?bus" "t_node (sc_tasks demo_active ! 1) = Some 1" by code_simp+
  have "sc_active (snd (exchange_control ?bus demo_active)) = None"
    using finished_exchange [OF demo_active_inv p(1-4) refl p(5), of "fst (exchange_control ?bus demo_active)"
        "snd (exchange_control ?bus demo_active)"] by simp
  moreover have "sc_pending (snd (exchange_control ?bus demo_active)) ! 1 = [9, 8, 7, 0, 0, 0, 0, 0]" by code_simp
  ultimately show ?thesis by blast
qed

lemma remove_slot_tasks: "i \<noteq> j \<Longrightarrow> sc_tasks (cancel_slot j s) ! i = sc_tasks s ! i"
  by (simp add: cancel_slot_def clear_task_slot_def remove_slot_from_queues_def set_task_def Let_def)

lemma cancel_slot_result:
  "j < length (sc_tasks s) \<Longrightarrow> sc_tasks (cancel_slot j s) ! j =
     (if Some j = sc_active s then (sc_tasks s ! j)\<lparr>t_enabled := False, t_periodic := False\<rparr> else task0)"
  by (simp add: cancel_slot_def clear_task_slot_def remove_slot_from_queues_def set_task_def Let_def)

lemma cancel_slot_active [simp]: "sc_active (cancel_slot j s) = sc_active s"
  by (simp add: cancel_slot_def clear_task_slot_def remove_slot_from_queues_def set_task_def Let_def)

definition own_task :: "nat \<Rightarrow> task_t \<Rightarrow> bool" where
  "own_task n t \<longleftrightarrow> t_used t \<and> t_node t = Some n"

lemma drop_loop_tasks:
  assumes "distinct is" "\<forall>i \<in> set is. i < length (sc_tasks s)"
  shows "sc_tasks (snd (fold (drop_node_task n) is (r, s))) =
      map (\<lambda>i. if i \<in> set is \<and> own_task n (sc_tasks s ! i)
               then (if Some i = sc_active s then (sc_tasks s ! i)\<lparr>t_enabled := False, t_periodic := False\<rparr> else task0)
               else sc_tasks s ! i) [0..<length (sc_tasks s)]"
    "fst (fold (drop_node_task n) is (r, s)) = r + length (filter (\<lambda>i. own_task n (sc_tasks s ! i)) is)"
  using assms
proof (induction "is" arbitrary: r s)
  case Nil
  { case 1 then show ?case by (simp add: map_nth) next case 2 then show ?case by simp }
next
  case (Cons i "is")
  let ?c = "\<lambda>s. if own_task n (sc_tasks s ! i) then cancel_slot i s else s"
  have step: "fold (drop_node_task n) (i # is) (r, s) =
      fold (drop_node_task n) is (if own_task n (sc_tasks s ! i) then r + 1 else r, ?c s)" for r s
    by (simp add: drop_node_task_cancel own_task_def)
  have len: "length (sc_tasks (?c s)) = length (sc_tasks s)" "sc_active (?c s) = sc_active s" for s by simp_all
  have at: "sc_tasks (?c s) ! j = sc_tasks s ! j" if "j \<noteq> i" for j s using that remove_slot_tasks by auto
  { case (1 r s)
    then have d: "distinct is" "\<forall>j \<in> set is. j < length (sc_tasks (?c s))" "i \<notin> set is" "i < length (sc_tasks s)"
      by (simp_all add: len(1))
    show ?case
      unfolding step Cons.IH(1) [OF d(1,2)] len
      by (rule map_cong [OF refl], rename_tac j, case_tac "j = i")
        (use d(3,4) cancel_slot_result [of i s] in \<open>simp_all add: remove_slot_tasks\<close>)
  next
    case (2 r s)
    then have d: "distinct is" "\<forall>j \<in> set is. j < length (sc_tasks (?c s))" "i \<notin> set is" by (simp_all add: len(1))
    have "filter (\<lambda>j. own_task n (sc_tasks (?c s) ! j)) is = filter (\<lambda>j. own_task n (sc_tasks s ! j)) is"
      by (rule filter_cong [OF refl]) (use at d(3) in metis)
    then show ?case unfolding step Cons.IH(2) [OF d(1,2)] by simp
  }
qed

text \<open>
  What the removal of a node's tasks leaves of the rest of the scheduler: the queues lose exactly the
  removed slots, in order, and nothing else changes.
\<close>

lemma remove_slot_filter: "distinct xs \<Longrightarrow> remove_slot_from_queue xs i = filter (\<lambda>j. j \<noteq> i) xs"
  by (induction xs) (auto intro!: filter_True [symmetric])

definition queue_left :: "nat \<Rightarrow> sched \<Rightarrow> nat list \<Rightarrow> nat list" where
  "queue_left n s xs = filter (\<lambda>i. \<not> own_task n (sc_tasks s ! i) \<or> sc_active s = Some i) xs"

lemma cancel_slot_frame:
  "cancel_slot i s = s\<lparr>sc_tasks := sc_tasks (cancel_slot i s), sc_normal := sc_normal (cancel_slot i s),
     sc_priority := sc_priority (cancel_slot i s)\<rparr>"
  by (cases s) (simp add: cancel_slot_def clear_task_slot_def remove_slot_from_queues_def set_task_def Let_def)

lemma cancel_slot_queues:
  assumes "distinct (sc_normal s)" "distinct (sc_priority s)"
  shows "sc_normal (cancel_slot i s) = (if sc_active s = Some i then sc_normal s else filter (\<lambda>j. j \<noteq> i) (sc_normal s))"
    "sc_priority (cancel_slot i s) = (if sc_active s = Some i then sc_priority s else filter (\<lambda>j. j \<noteq> i) (sc_priority s))"
  using assms
  by (simp_all add: cancel_slot_def clear_task_slot_def remove_slot_from_queues_def set_task_def Let_def remove_slot_filter)

lemma drop_loop_rest:
  "\<exists>ts ns ps. snd (fold (drop_node_task n) is (r, s)) = s\<lparr>sc_tasks := ts, sc_normal := ns, sc_priority := ps\<rparr>"
proof (induction "is" arbitrary: r s)
  case Nil
  show ?case
    by (rule exI [of _ "sc_tasks s"], rule exI [of _ "sc_normal s"], rule exI [of _ "sc_priority s"]) simp
next
  case (Cons i "is")
  obtain r' s1 where d: "drop_node_task n i (r, s) = (r', s1)" by (cases "drop_node_task n i (r, s)")
  then have "s1 = s \<or> s1 = cancel_slot i s" by (auto simp: drop_node_task_cancel split: if_splits)
  then have "s1 = s\<lparr>sc_tasks := sc_tasks s1, sc_normal := sc_normal s1, sc_priority := sc_priority s1\<rparr>"
    using cancel_slot_frame [of i s] by auto
  then obtain ts ns ps where s1: "s1 = s\<lparr>sc_tasks := ts, sc_normal := ns, sc_priority := ps\<rparr>" by blast
  obtain ts' ns' ps' where "snd (fold (drop_node_task n) is (r', s1)) = s1\<lparr>sc_tasks := ts', sc_normal := ns', sc_priority := ps'\<rparr>"
    using Cons.IH by blast
  then have "snd (fold (drop_node_task n) (i # is) (r, s)) = s\<lparr>sc_tasks := ts', sc_normal := ns', sc_priority := ps'\<rparr>"
    by (simp add: d s1)
  then show ?case by blast
qed

lemma drop_loop_frame:
  "snd (fold (drop_node_task n) is (r, s)) = s\<lparr>sc_tasks := sc_tasks (snd (fold (drop_node_task n) is (r, s))),
     sc_normal := sc_normal (snd (fold (drop_node_task n) is (r, s))),
     sc_priority := sc_priority (snd (fold (drop_node_task n) is (r, s)))\<rparr>"
  using drop_loop_rest [of n "is" r s] by auto

lemma drop_loop_queues:
  assumes "distinct (sc_normal s)" "distinct (sc_priority s)" "distinct is"
    "\<forall>i \<in> set is. i < length (sc_tasks s)"
  shows "sc_normal (snd (fold (drop_node_task n) is (r, s))) =
      filter (\<lambda>j. \<not> (j \<in> set is \<and> own_task n (sc_tasks s ! j)) \<or> sc_active s = Some j) (sc_normal s) \<and>
    sc_priority (snd (fold (drop_node_task n) is (r, s))) =
      filter (\<lambda>j. \<not> (j \<in> set is \<and> own_task n (sc_tasks s ! j)) \<or> sc_active s = Some j) (sc_priority s)"
  using assms
proof (induction "is" arbitrary: r s)
  case (Cons i "is")
  let ?s = "if own_task n (sc_tasks s ! i) then cancel_slot i s else s"
  have step: "fold (drop_node_task n) (i # is) (r, s) =
      fold (drop_node_task n) is (if own_task n (sc_tasks s ! i) then r + 1 else r, ?s)"
    by (simp add: drop_node_task_cancel own_task_def)
  have at: "sc_tasks ?s ! j = sc_tasks s ! j" if "j \<noteq> i" for j using that remove_slot_tasks by auto
  have act: "sc_active ?s = sc_active s" "length (sc_tasks ?s) = length (sc_tasks s)" by simp_all
  let ?F = "filter (\<lambda>j. \<not> (j = i \<and> own_task n (sc_tasks s ! i)) \<or> sc_active s = Some j)"
  have q: "sc_normal ?s = ?F (sc_normal s)" "sc_priority ?s = ?F (sc_priority s)"
    using cancel_slot_queues [OF Cons.prems(1,2), of i] by (auto intro!: filter_cong filter_True [symmetric])
  have d: "distinct (sc_normal ?s)" "distinct (sc_priority ?s)" "distinct is" "\<forall>j \<in> set is. j < length (sc_tasks ?s)" "i \<notin> set is"
    using Cons.prems act by (simp_all add: q)
  have c: "filter (\<lambda>j. \<not> (j \<in> set is \<and> own_task n (sc_tasks ?s ! j)) \<or> sc_active ?s = Some j) (?F xs) =
      filter (\<lambda>j. \<not> (j \<in> set (i # is) \<and> own_task n (sc_tasks s ! j)) \<or> sc_active s = Some j) xs" for xs
  proof -
    have "((\<not> (j = i \<and> own_task n (sc_tasks s ! i)) \<or> sc_active s = Some j) \<and>
        (\<not> (j \<in> set is \<and> own_task n (sc_tasks ?s ! j)) \<or> sc_active ?s = Some j)) =
      (\<not> (j \<in> set (i # is) \<and> own_task n (sc_tasks s ! j)) \<or> sc_active s = Some j)" for j
      unfolding act(1) using d(5) at [of j] by (cases "j = i") (simp, metis set_ConsD list.set_intros(2))
    then show ?thesis unfolding filter_filter by (intro filter_cong refl)
  qed
  show ?case using Cons.IH [OF d(1-4)] unfolding step q c by blast
qed simp

text \<open>Block \<open>j\<close> of \<open>ys\<close> is zero in the window \<open>[off, off + k)\<close> and that of \<open>xs\<close> outside it.\<close>

definition blanked :: "nat \<Rightarrow> nat \<Rightarrow> u16 list \<Rightarrow> u16 list \<Rightarrow> bool" where
  "blanked off k xs ys \<longleftrightarrow> length ys = length xs \<and>
     (\<forall>j < length xs. ys ! j = (if off \<le> j \<and> j < off + k then 0 else xs ! j))"

lemma blanked_clear: "off + k \<le> length xs \<Longrightarrow> blanked off k xs (clear_window off k xs)"
  by (auto simp: blanked_def clear_window_def nth_append)

definition cleared_after :: "nat \<Rightarrow> sched \<Rightarrow> sched \<Rightarrow> bool" where
  "cleared_after n s s' \<longleftrightarrow> (let node = sc_nodes s ! n; k = nl_com_blocks node; base = nl_com_cs_base_block node in
     (n < length (sc_pending s) \<and> k \<le> length (sc_pending s ! n) \<longrightarrow>
        (\<exists>ys. blanked 0 k (sc_pending s ! n) ys \<and> sc_pending s' = (sc_pending s)[n := ys])) \<and>
     (\<forall>xs. sc_msg_cmd s = Some xs \<and> base + k \<le> sc_msg_cmd_blocks s \<and> sc_msg_cmd_blocks s \<le> length xs \<longrightarrow>
        (\<exists>ys. blanked base k xs ys \<and> sc_msg_cmd s' = Some ys)) \<and>
     (\<forall>xs. sc_msg_cmd_buf s = Some xs \<and> k \<le> sc_msg_cmd_buf_blocks s \<and> sc_msg_cmd_buf_blocks s \<le> length xs \<longrightarrow>
        (\<exists>ys. blanked 0 k xs ys \<and> sc_msg_cmd_buf s' = Some ys)))"

lemma windows_cleared:
  fixes s1 :: sched
  assumes "sc_pending s1 = sc_pending s" "sc_msg_cmd s1 = sc_msg_cmd s" "sc_msg_cmd_blocks s1 = sc_msg_cmd_blocks s"
    "sc_msg_cmd_buf s1 = sc_msg_cmd_buf s" "sc_msg_cmd_buf_blocks s1 = sc_msg_cmd_buf_blocks s" "sc_nodes s1 = sc_nodes s"
    "s' = clear_command_msg_window (sc_nodes s ! n) (clear_command_buffer_window (sc_nodes s ! n) (clear_pending_command_window n s1))"
  shows "cleared_after n s s'"
    "s' = s1\<lparr>sc_pending := sc_pending s', sc_msg_cmd := sc_msg_cmd s', sc_msg_cmd_buf := sc_msg_cmd_buf s'\<rparr>"
proof -
  let ?k = "nl_com_blocks (sc_nodes s ! n)" and ?b = "nl_com_cs_base_block (sc_nodes s ! n)"
  note d = clear_command_msg_window_def clear_command_buffer_window_def clear_pending_command_window_def
  have p: "sc_pending s' = (sc_pending s)[n := clear_window 0 ?k (sc_pending s ! n)]" if "n < length (sc_pending s)"
    using that assms(1,6) unfolding assms(7) by (simp add: d)
  have m: "sc_msg_cmd s' = Some (clear_window ?b ?k xs)" if "sc_msg_cmd s = Some xs" "?b + ?k \<le> sc_msg_cmd_blocks s" for xs
  proof -
    have "window_fits ?b ?k (sc_msg_cmd_blocks s)" using that(2) by (simp add: window_fits_def)
    then show ?thesis using that(1) assms(2,3) unfolding assms(7) by (simp add: d)
  qed
  have b: "sc_msg_cmd_buf s' = Some (clear_window 0 ?k xs)" if "sc_msg_cmd_buf s = Some xs" "?k \<le> sc_msg_cmd_buf_blocks s" for xs
  proof -
    have "window_fits 0 ?k (sc_msg_cmd_buf_blocks s)" using that(2) by (simp add: window_fits_def)
    then show ?thesis using that(1) assms(4,5) unfolding assms(7) by (simp add: d)
  qed
  show "cleared_after n s s'"
    unfolding cleared_after_def Let_def
    by (intro conjI allI impI; elim conjE; frule p m b; fastforce intro: blanked_clear)
  show "s' = s1\<lparr>sc_pending := sc_pending s', sc_msg_cmd := sc_msg_cmd s', sc_msg_cmd_buf := sc_msg_cmd_buf s'\<rparr>"
    unfolding assms(7)
    by (simp add: clear_command_msg_window_def clear_command_buffer_window_def clear_pending_command_window_def)
qed

text \<open>
  C28: cancelling a target removes every task of its node except an active one, which is disabled
  and no longer periodic (so that it ends with its exchange), reports how many tasks that were, and
  leaves every task of the other nodes untouched; the two queues lose exactly the slots of the
  removed tasks and keep their order. The pending commands of the node, its window of the command
  message and the window of the command buffer are zero afterwards and every block outside them is
  as it was; of the rest of the scheduler nothing changes.
\<close>

theorem cancel_target_exact:
  assumes "sched_inv s" "find_node_by_target s tgt = Some n" "cancel_target tgt s = (removed, s')"
  shows "removed = length (filter (own_task n) (sc_tasks s)) \<and>
    (\<forall>i < length (sc_tasks s). sc_tasks s' ! i =
       (if own_task n (sc_tasks s ! i)
        then (if sc_active s = Some i then (sc_tasks s ! i)\<lparr>t_enabled := False, t_periodic := False\<rparr> else task0)
        else sc_tasks s ! i)) \<and>
    sc_normal s' = queue_left n s (sc_normal s) \<and> sc_priority s' = queue_left n s (sc_priority s) \<and>
    cleared_after n s s' \<and>
    s' = s\<lparr>sc_tasks := sc_tasks s', sc_normal := sc_normal s', sc_priority := sc_priority s',
      sc_pending := sc_pending s', sc_msg_cmd := sc_msg_cmd s', sc_msg_cmd_buf := sc_msg_cmd_buf s'\<rparr>"
proof -
  let ?is = "[0..<length (sc_tasks s)]"
  obtain r s1 where r: "remove_tasks_for_node n s = (r, s1)" by (cases "remove_tasks_for_node n s")
  have s1: "fold (drop_node_task n) ?is (0, s) = (r, s1)" using r by (simp add: remove_tasks_for_node_def)
  have f: "s1 = s\<lparr>sc_tasks := sc_tasks s1, sc_normal := sc_normal s1, sc_priority := sc_priority s1\<rparr>"
    using drop_loop_frame [of n ?is 0 s] by (simp add: s1)
  have fs: "sc_pending s1 = sc_pending s" "sc_msg_cmd s1 = sc_msg_cmd s" "sc_msg_cmd_blocks s1 = sc_msg_cmd_blocks s"
    "sc_msg_cmd_buf s1 = sc_msg_cmd_buf s" "sc_msg_cmd_buf_blocks s1 = sc_msg_cmd_buf_blocks s" "sc_nodes s1 = sc_nodes s"
    by (subst f, simp)+
  have s': "removed = r"
    "s' = clear_command_msg_window (sc_nodes s ! n) (clear_command_buffer_window (sc_nodes s ! n) (clear_pending_command_window n s1))"
    using assms(2,3) by (auto simp: cancel_target_def r)
  note w = windows_cleared [OF fs s'(2)]
  have t: "sc_tasks s' = sc_tasks s1" "sc_normal s' = sc_normal s1" "sc_priority s' = sc_priority s1" by (subst w(2), simp)+
  have "r = length (filter (\<lambda>i. own_task n (sc_tasks s ! i)) ?is)"
    using drop_loop_tasks(2) [of ?is s n 0] s1 by simp
  also have "\<dots> = length (filter (own_task n) (map ((!) (sc_tasks s)) ?is))" by (simp add: filter_map o_def)
  finally have 1: "removed = length (filter (own_task n) (sc_tasks s))" by (simp add: map_nth s')
  have 2: "\<forall>i < length (sc_tasks s). sc_tasks s' ! i =
       (if own_task n (sc_tasks s ! i)
        then (if sc_active s = Some i then (sc_tasks s ! i)\<lparr>t_enabled := False, t_periodic := False\<rparr> else task0)
        else sc_tasks s ! i)"
    using drop_loop_tasks(1) [of ?is s n 0] s1 by (auto simp: t)
  have d: "distinct (sc_normal s)" "distinct (sc_priority s)"
    "\<forall>i \<in> set (sc_normal s) \<union> set (sc_priority s). i < length (sc_tasks s)"
    using assms(1) by (auto simp: sched_inv_def sched_shape_def)
  have "sc_normal s1 = queue_left n s (sc_normal s)" "sc_priority s1 = queue_left n s (sc_priority s)"
    using drop_loop_queues [OF d(1,2), of ?is n 0] d(3) by (auto simp: s1 queue_left_def intro!: filter_cong)
  moreover have "s' = s\<lparr>sc_tasks := sc_tasks s', sc_normal := sc_normal s', sc_priority := sc_priority s',
      sc_pending := sc_pending s', sc_msg_cmd := sc_msg_cmd s', sc_msg_cmd_buf := sc_msg_cmd_buf s'\<rparr>"
    by (subst w(2), subst f) (simp add: t)
  ultimately show ?thesis using 1 2 w(1) t by simp
qed

theorem cancel_target_exact_witness:
  "fst (cancel_target tgt_tcs demo_active) = 1 \<and> \<not> t_enabled (sc_tasks (snd (cancel_target tgt_tcs demo_active)) ! 1) \<and>
   sc_msg_cmd_buf demo_active = Some [9, 8, 7, 0, 0, 0, 0, 0] \<and> nl_com_blocks (sc_nodes demo_active ! 1) \<noteq> 0 \<and>
   (\<exists>ys. sc_msg_cmd_buf (snd (cancel_target tgt_tcs demo_active)) = Some (0 # ys))"
proof -
  have n: "find_node_by_target demo_active tgt_tcs = Some 1" by code_simp
  have e: "length (sc_tasks demo_active) = 32" "sc_active demo_active = Some 1" "t_used (sc_tasks demo_active ! 1)"
    "t_node (sc_tasks demo_active ! 1) = Some 1" by code_simp+
  have f: "fst (cancel_target tgt_tcs demo_active) = 1" by code_simp
  have b: "sc_msg_cmd_buf demo_active = Some [9, 8, 7, 0, 0, 0, 0, 0]" "sc_msg_cmd_buf_blocks demo_active = 8"
    "nl_com_blocks (sc_nodes demo_active ! 1) \<noteq> 0 \<and> nl_com_blocks (sc_nodes demo_active ! 1) \<le> 8" by code_simp+
  note c = cancel_target_exact [OF demo_active_inv n prod.collapse [symmetric]]
  obtain ys where ys: "blanked 0 (nl_com_blocks (sc_nodes demo_active ! 1)) [9, 8, 7, 0, 0, 0, 0, 0] ys"
    "sc_msg_cmd_buf (snd (cancel_target tgt_tcs demo_active)) = Some ys"
    using c b by (auto simp: cleared_after_def Let_def)
  have "ys ! 0 = 0" "length ys = 8" using ys(1) b(3) by (auto simp: blanked_def)
  then obtain zs where "ys = 0 # zs" by (cases ys) auto
  moreover have "\<not> t_enabled (sc_tasks (snd (cancel_target tgt_tcs demo_active)) ! 1)"
    using c [THEN conjunct2, THEN conjunct1, rule_format, of 1] e by (simp add: own_task_def)
  ultimately show ?thesis using f b ys by simp
qed

text \<open>
  Refusals. A request for a target without a node, a command that is not a command of the
  target's system, and any request when all 32 slots are in use return the invalid id and leave the
  scheduler as it was.
\<close>

lemma refused_requests:
  "(find_node_by_target s tgt = None \<longrightarrow> enqueue_exchange tgt q p s = (k_invalid_task_id, s) \<and>
      ensure_periodic_exchange tgt q s = (k_invalid_task_id, s) \<and> enqueue_command tgt cid v hv q s = (k_invalid_task_id, s) \<and>
      cancel_periodic_exchange tgt s = (False, s) \<and> cancel_target tgt s = (0, s)) \<and>
   (find_node_by_target s tgt = Some n \<and> \<not> (Param_max \<le> cid \<and> cid < Param_Comm_max \<and>
        te_sys_id (S_basecommtab ! (cid - Param_max)) = nl_system_id (sc_nodes s ! n)) \<longrightarrow>
      enqueue_command tgt cid v hv q s = (k_invalid_task_id, s)) \<and>
   ((\<forall>t \<in> set (sc_tasks s). t_used t) \<longrightarrow> enqueue_exchange tgt q p s = (k_invalid_task_id, s) \<and>
      enqueue_command tgt cid v hv q s = (k_invalid_task_id, s))"
proof -
  have "alloc_task_slot s = None" if "\<forall>t \<in> set (sc_tasks s). t_used t"
    using that unfolding alloc_task_slot_def find_index_None by simp
  then show ?thesis
    by (auto simp: enqueue_exchange_def ensure_periodic_exchange_def enqueue_command_def cancel_periodic_exchange_def
        cancel_target_def command_matches_node_def add_task_def split: option.split)
qed

text \<open>
  Initialisation finds, for each of the five nodes, the window of its commands and parameters
  in the CS messages; the windows of different nodes follow each other without gap or overlap and
  end exactly with the CS messages (16 command and 26 parameter blocks).
\<close>

lemma node_windows:
  "map (\<lambda>n. (nl_bus_addr n, nl_com_cs_base_block n, nl_com_blocks n, nl_par_cs_base_block n, nl_par_blocks n))
     (sc_nodes (sched_init ctx cmd cn buf bn sched0)) =
   [(2, 0, 8, 0, 15), (3, 8, 3, 15, 3), (4, 11, 3, 18, 4), (5, 14, 1, 22, 2), (6, 15, 1, 24, 2)]"
proof -
  have "map (\<lambda>n. (nl_bus_addr n, nl_com_cs_base_block n, nl_com_blocks n, nl_par_cs_base_block n, nl_par_blocks n))
     (sc_nodes (init_node_layouts sched0)) =
   [(2, 0, 8, 0, 15), (3, 8, 3, 15, 3), (4, 11, 3, 18, 4), (5, 14, 1, 22, 2), (6, 15, 1, 24, 2)]" by code_simp
  then show ?thesis by (simp add: sched_init_def init_node_layouts_def)
qed

end
