(* ===== verification/OperatingMode.thy ===== *)
theory OperatingMode
  imports Scheduler
begin

text \<open>
  The operating mode of the central system, \<open>cs/src/cs_operating_mode.cpp\<close> and
  \<open>cs/src/cs_operating_mode_support.cpp\<close>: which nodes are polled in the background, which one has the
  focus, and the cooldown of a node after repeated failures, fed by the completions of the
  scheduler. Also \<open>cs_nodes.cpp\<close>, \<open>cs/src/nodes/\<close> and \<open>cs_systems*.cpp\<close>, which turn the policy of each
  node into periodic exchanges. An array indexed by target is a list of \<open>tgt_count\<close> entries. Log
  messages are left out.
\<close>

subsection \<open>State\<close>

datatype mode_t = mode_nominal | mode_focus

record node_policy_t =
  np_periodic_exchange :: bool
  np_queue :: queue_class_t

record target_status_t =
  ts_background_enabled :: bool
  ts_focused :: bool
  ts_in_cooldown :: bool
  ts_failure_streak :: u8
  ts_cooldown_ticks :: u16
  ts_has_last_result :: bool
  ts_last_result :: completion_result_t

record om_state =
  om_focus :: target_t
  om_background :: "bool list"
  om_streak :: "u8 list"
  om_cooldown :: "u16 list"
  om_has_result :: "bool list"
  om_last_result :: "completion_result_t list"

definition target_index :: "target_t \<Rightarrow> nat" where
  "target_index t = (case t of tgt_any \<Rightarrow> 0 | tgt_cs \<Rightarrow> 1 | tgt_pss \<Rightarrow> 2 | tgt_tcs \<Rightarrow> 3 | tgt_tms \<Rightarrow> 4
     | tgt_mns \<Rightarrow> 5 | tgt_ls \<Rightarrow> 6 | tgt_count \<Rightarrow> 7)"

definition om_state0 :: om_state where
  "om_state0 = \<lparr>om_focus = tgt_any, om_background = replicate 7 False, om_streak = replicate 7 0,
     om_cooldown = replicate 7 0, om_has_result = replicate 7 False, om_last_result = replicate 7 cr_none\<rparr>"

definition k_timeout_failure_threshold :: u8 where "k_timeout_failure_threshold = 3"
definition k_invalid_eof_failure_threshold :: u8 where "k_invalid_eof_failure_threshold = 1"
definition k_timeout_cooldown_ticks :: u16 where "k_timeout_cooldown_ticks = 96"
definition k_invalid_eof_cooldown_ticks :: u16 where "k_invalid_eof_cooldown_ticks = 160"

subsection \<open>Operations\<close>

definition valid_focus_target :: "target_t \<Rightarrow> bool" where
  "valid_focus_target t \<longleftrightarrow> (case t of tgt_pss \<Rightarrow> True | tgt_tcs \<Rightarrow> True | tgt_tms \<Rightarrow> True | tgt_mns \<Rightarrow> True
     | tgt_ls \<Rightarrow> True | _ \<Rightarrow> False)"

definition valid_background_target :: "target_t \<Rightarrow> bool" where
  "valid_background_target t \<longleftrightarrow> (case t of tgt_pss \<Rightarrow> True | tgt_tcs \<Rightarrow> True | tgt_tms \<Rightarrow> True | tgt_mns \<Rightarrow> True
     | tgt_ls \<Rightarrow> True | _ \<Rightarrow> False)"

definition clear_target_state :: "target_t \<Rightarrow> om_state \<Rightarrow> om_state" where
  "clear_target_state t s = s\<lparr>om_streak := (om_streak s)[target_index t := 0],
     om_cooldown := (om_cooldown s)[target_index t := 0]\<rparr>"

definition result_to_string :: "completion_result_t \<Rightarrow> string" where
  "result_to_string r = (case r of cr_success \<Rightarrow> ''success'' | cr_timeout \<Rightarrow> ''timeout''
     | cr_invalid_eof \<Rightarrow> ''invalid_eof'' | cr_none \<Rightarrow> ''none'')"

definition failure_threshold_for :: "completion_result_t \<Rightarrow> u8" where
  "failure_threshold_for r = (if r = cr_invalid_eof then k_invalid_eof_failure_threshold else k_timeout_failure_threshold)"

definition cooldown_ticks_for :: "completion_result_t \<Rightarrow> u16" where
  "cooldown_ticks_for r = (if r = cr_invalid_eof then k_invalid_eof_cooldown_ticks else k_timeout_cooldown_ticks)"

definition remember_result :: "target_t \<Rightarrow> completion_result_t \<Rightarrow> om_state \<Rightarrow> om_state" where
  "remember_result t r s = s\<lparr>om_has_result := (om_has_result s)[target_index t := True],
     om_last_result := (om_last_result s)[target_index t := r]\<rparr>"

definition build_target_status :: "om_state \<Rightarrow> target_t \<Rightarrow> target_status_t option" where
  "build_target_status s t =
     (if \<not> valid_background_target t then None
      else let i = target_index t in
        Some \<lparr>ts_background_enabled = om_background s ! i, ts_focused = (om_focus s = t),
              ts_in_cooldown = (om_cooldown s ! i \<noteq> 0), ts_failure_streak = om_streak s ! i,
              ts_cooldown_ticks = om_cooldown s ! i, ts_has_last_result = om_has_result s ! i,
              ts_last_result = om_last_result s ! i\<rparr>)"

definition on_exchange_success :: "target_t \<Rightarrow> om_state \<Rightarrow> om_state" where
  "on_exchange_success t s =
     (if \<not> valid_background_target t then s else clear_target_state t (remember_result t cr_success s))"

definition on_exchange_failure :: "target_t \<Rightarrow> completion_result_t \<Rightarrow> om_state \<Rightarrow> om_state" where
  "on_exchange_failure t r s =
     (if \<not> valid_background_target t then s
      else let i = target_index t;
               s1 = remember_result t r s;
               streak = (if om_streak s1 ! i < 255 then om_streak s1 ! i + 1 else om_streak s1 ! i);
               s2 = s1\<lparr>om_streak := (om_streak s1)[i := streak]\<rparr>
           in if streak < failure_threshold_for r then s2
              else if om_cooldown s2 ! i = 0
              then s2\<lparr>om_cooldown := (om_cooldown s2)[i := cooldown_ticks_for r]\<rparr>
              else s2)"

definition on_completion :: "completion_t \<Rightarrow> om_state \<Rightarrow> om_state" where
  "on_completion c s =
     (if \<not> cp_valid c \<or> \<not> cp_have_result c then s
      else if cp_result c = cr_success then on_exchange_success (cp_target c) s
      else if cp_periodic c \<and> cp_kind c = ck_data_request then on_exchange_failure (cp_target c) (cp_result c) s
      else s)"

text \<open>The \<open>while\<close> loop that drains the completions of the scheduler.\<close>

function drain_completions :: "sched \<Rightarrow> om_state \<Rightarrow> sched \<times> om_state" where
  "drain_completions sc s =
     (case try_pop_completion sc of (None, sc') \<Rightarrow> (sc', s) | (Some c, sc') \<Rightarrow> drain_completions sc' (on_completion c s))"
  by pat_completeness auto
termination
  by (relation "measure (\<lambda>(sc, s). length (sc_completions sc))")
    (auto simp: try_pop_completion_def split: list.splits)

definition update_completion_feedback :: "sched \<Rightarrow> om_state \<Rightarrow> sched \<times> om_state" where
  "update_completion_feedback sc s = drain_completions sc s"

definition tick_cooldown :: "nat \<Rightarrow> om_state \<Rightarrow> om_state" where
  "tick_cooldown i s =
     (if om_cooldown s ! i = 0 then s
      else let c = om_cooldown s ! i - 1;
               s1 = s\<lparr>om_cooldown := (om_cooldown s)[i := c]\<rparr>
           in if c = 0 then s1\<lparr>om_streak := (om_streak s1)[i := 0]\<rparr> else s1)"

definition tick_cooldowns :: "om_state \<Rightarrow> om_state" where
  "tick_cooldowns s = fold tick_cooldown [0..<length (om_cooldown s)] s"

definition om_reset :: om_state where
  "om_reset = om_state0\<lparr>om_background := (om_background om_state0)[target_index tgt_tcs := True]\<rparr>"

definition om_step :: "sched \<Rightarrow> om_state \<Rightarrow> sched \<times> om_state" where
  "om_step sc s = (let (sc1, s1) = update_completion_feedback sc s in (sc1, tick_cooldowns s1))"

definition set_focus_target :: "target_t \<Rightarrow> om_state \<Rightarrow> bool \<times> om_state" where
  "set_focus_target t s =
     (if \<not> valid_focus_target t then (False, s)
      else if om_focus s = t then (True, s)
      else (True, clear_target_state t (s\<lparr>om_focus := t\<rparr>)))"

definition clear_focus_target :: "om_state \<Rightarrow> om_state" where
  "clear_focus_target s = s\<lparr>om_focus := tgt_any\<rparr>"

definition set_background_target_enabled :: "target_t \<Rightarrow> bool \<Rightarrow> om_state \<Rightarrow> bool \<times> om_state" where
  "set_background_target_enabled t on s =
     (if \<not> valid_background_target t then (False, s)
      else let s1 = s\<lparr>om_background := (om_background s)[target_index t := on]\<rparr>
           in (True, if on then clear_target_state t s1 else s1))"

definition background_target_enabled :: "om_state \<Rightarrow> target_t \<Rightarrow> bool" where
  "background_target_enabled s t \<longleftrightarrow> (if \<not> valid_background_target t then False else om_background s ! target_index t)"

definition target_in_cooldown :: "om_state \<Rightarrow> target_t \<Rightarrow> bool" where
  "target_in_cooldown s t \<longleftrightarrow> (if \<not> valid_background_target t then False else om_cooldown s ! target_index t \<noteq> 0)"

definition get_target_status :: "om_state \<Rightarrow> target_t \<Rightarrow> target_status_t option" where
  "get_target_status s t = build_target_status s t"

definition current_mode :: "om_state \<Rightarrow> mode_t" where
  "current_mode s = (if om_focus s = tgt_any then mode_nominal else mode_focus)"

definition focus_target :: "om_state \<Rightarrow> target_t" where
  "focus_target s = om_focus s"

definition is_target_focused :: "om_state \<Rightarrow> target_t \<Rightarrow> bool" where
  "is_target_focused s t \<longleftrightarrow> t \<noteq> tgt_any \<and> t = om_focus s"

definition queue_for :: "om_state \<Rightarrow> target_t \<Rightarrow> queue_class_t" where
  "queue_for s t = (if is_target_focused s t then qc_priority else qc_normal)"

definition policy_for :: "om_state \<Rightarrow> target_t \<Rightarrow> node_policy_t" where
  "policy_for s t =
     (if target_in_cooldown s t then \<lparr>np_periodic_exchange = False, np_queue = qc_normal\<rparr>
      else \<lparr>np_periodic_exchange = (background_target_enabled s t \<or> is_target_focused s t),
            np_queue = (if is_target_focused s t then qc_priority else qc_normal)\<rparr>)"

subsection \<open>From the policy to periodic exchanges\<close>

definition apply_periodic_policy :: "om_state \<Rightarrow> target_t \<Rightarrow> sched \<Rightarrow> sched" where
  "apply_periodic_policy s t sc =
     (let policy = policy_for s t in
      if np_periodic_exchange policy then snd (ensure_periodic_exchange t (np_queue policy) sc)
      else snd (cancel_periodic_exchange t sc))"

definition pss_step :: "om_state \<Rightarrow> sched \<Rightarrow> sched" where "pss_step s = apply_periodic_policy s tgt_pss"
definition tcs_step :: "om_state \<Rightarrow> sched \<Rightarrow> sched" where "tcs_step s = apply_periodic_policy s tgt_tcs"
definition tms_step :: "om_state \<Rightarrow> sched \<Rightarrow> sched" where "tms_step s = apply_periodic_policy s tgt_tms"
definition mns_step :: "om_state \<Rightarrow> sched \<Rightarrow> sched" where "mns_step s = apply_periodic_policy s tgt_mns"
definition ls_step :: "om_state \<Rightarrow> sched \<Rightarrow> sched" where "ls_step s = apply_periodic_policy s tgt_ls"

definition G_NODE_STEP_ORDER :: "(om_state \<Rightarrow> sched \<Rightarrow> sched) list" where
  "G_NODE_STEP_ORDER = [tcs_step, pss_step, tms_step, mns_step, ls_step]"

definition run_node_step_order :: "om_state \<Rightarrow> sched \<Rightarrow> sched" where
  "run_node_step_order s sc = fold (\<lambda>f. f s) G_NODE_STEP_ORDER sc"

subsection \<open>The invariant of the failure bookkeeping\<close>

text \<open>
  A node is in cooldown only after a failure, and its failures stay below the threshold of three
  while it is not; a cooldown lasts at most 160 ticks.
\<close>

definition penalty_ok :: "u8 \<Rightarrow> u16 \<Rightarrow> bool" where
  "penalty_ok streak cd \<longleftrightarrow> (if cd = 0 then streak < 3 else streak \<noteq> 0) \<and> cd \<le> 160"

definition om_inv :: "om_state \<Rightarrow> bool" where
  "om_inv s \<longleftrightarrow> length (om_background s) = 7 \<and> length (om_streak s) = 7 \<and> length (om_cooldown s) = 7 \<and>
     length (om_has_result s) = 7 \<and> length (om_last_result s) = 7 \<and>
     (\<forall>i < 7. penalty_ok (om_streak s ! i) (om_cooldown s ! i))"

lemma target_index_valid [simp]: "valid_background_target t \<Longrightarrow> target_index t < 7" "valid_focus_target t \<Longrightarrow> target_index t < 7"
  by (cases t; simp add: valid_background_target_def valid_focus_target_def target_index_def)+

lemma penalty_00 [simp]: "penalty_ok 0 0"
  by (simp add: penalty_ok_def)

lemma om_inv_clear: "om_inv s \<Longrightarrow> om_inv (clear_target_state t s)"
  by (cases "target_index t < 7") (auto simp: om_inv_def clear_target_state_def nth_list_update)

lemma om_inv_remember: "om_inv s \<Longrightarrow> om_inv (remember_result t r s)"
  by (simp add: om_inv_def remember_result_def)

lemma inc_nonzero: "(x::u8) < 255 \<Longrightarrow> x + 1 \<noteq> 0"
proof
  assume "x < 255" "x + 1 = 0"
  then have "x = - 1" by (simp add: eq_neg_iff_add_eq_0)
  then show False using \<open>x < 255\<close> by simp
qed

lemma penalty_failure:
  assumes "penalty_ok streak cd" "streak' = (if streak < 255 then streak + 1 else streak)"
  shows "streak' < failure_threshold_for r \<Longrightarrow> penalty_ok streak' cd"
    and "\<not> streak' < failure_threshold_for r \<Longrightarrow> cd = 0 \<Longrightarrow> penalty_ok streak' (cooldown_ticks_for r)"
    and "cd \<noteq> 0 \<Longrightarrow> penalty_ok streak' cd"
proof -
  have nz: "streak' \<noteq> 0" using assms(2) inc_nonzero by auto
  have th: "failure_threshold_for r \<le> 3"
    by (simp add: failure_threshold_for_def k_timeout_failure_threshold_def k_invalid_eof_failure_threshold_def)
  show "streak' < failure_threshold_for r \<Longrightarrow> penalty_ok streak' cd"
    using assms(1) nz th by (auto simp: penalty_ok_def dest: order.strict_trans2)
  show "\<not> streak' < failure_threshold_for r \<Longrightarrow> cd = 0 \<Longrightarrow> penalty_ok streak' (cooldown_ticks_for r)"
    using nz by (simp add: penalty_ok_def cooldown_ticks_for_def k_timeout_cooldown_ticks_def k_invalid_eof_cooldown_ticks_def)
  show "cd \<noteq> 0 \<Longrightarrow> penalty_ok streak' cd" using assms(1) nz by (simp add: penalty_ok_def)
qed

lemma om_inv_failure:
  assumes "om_inv s"
  shows "om_inv (on_exchange_failure t r s)"
proof (cases "valid_background_target t")
  case False
  then show ?thesis using assms by (simp add: on_exchange_failure_def)
next
  case True
  let ?i = "target_index t" and ?s1 = "remember_result t r s"
  define streak where "streak = (if om_streak s ! ?i < 255 then om_streak s ! ?i + 1 else om_streak s ! ?i)"
  have i: "?i < 7" using True by simp
  have p: "penalty_ok (om_streak s ! ?i) (om_cooldown s ! ?i)" using assms i by (simp add: om_inv_def)
  have s1: "om_inv ?s1" "om_streak ?s1 = om_streak s" "om_cooldown ?s1 = om_cooldown s"
    using om_inv_remember [OF assms] by (simp_all add: remember_result_def)
  have e: "on_exchange_failure t r s = (let s2 = ?s1\<lparr>om_streak := (om_streak s)[?i := streak]\<rparr> in
      if streak < failure_threshold_for r then s2
      else if om_cooldown s ! ?i = 0 then s2\<lparr>om_cooldown := (om_cooldown s)[?i := cooldown_ticks_for r]\<rparr> else s2)"
    using True by (simp add: on_exchange_failure_def Let_def streak_def s1)
  show ?thesis
    using s1 i penalty_failure(1,2) [OF p streak_def, of r] penalty_failure(3) [OF p streak_def]
    by (auto simp: e om_inv_def Let_def nth_list_update)
qed

lemma om_inv_completion: "om_inv s \<Longrightarrow> om_inv (on_completion c s)"
  by (simp add: on_completion_def on_exchange_success_def om_inv_clear om_inv_remember om_inv_failure)

lemma om_inv_drain: "om_inv s \<Longrightarrow> om_inv (snd (drain_completions sc s))"
proof (induction sc s rule: drain_completions.induct)
  case (1 sc s)
  show ?case
  proof (cases "sc_completions sc")
    case Nil
    then show ?thesis using "1.prems" by (subst drain_completions.simps) (simp add: try_pop_completion_def)
  next
    case (Cons c cs)
    then have p: "try_pop_completion sc = (Some c, sc\<lparr>sc_completions := cs\<rparr>)" by (simp add: try_pop_completion_def)
    show ?thesis using "1.IH" [OF p [symmetric]] om_inv_completion [OF "1.prems"] p
      by (subst drain_completions.simps) simp
  qed
qed

declare drain_completions.simps [simp del]

lemma dec_u16: "(x::u16) \<noteq> 0 \<Longrightarrow> x \<le> 160 \<Longrightarrow> x - 1 \<le> 160"
  by (simp add: word_le_nat_alt unat_minus_one)

lemma unat_dec_u16: "(x::u16) \<noteq> 0 \<Longrightarrow> unat (x - 1) = unat x - 1"
  by (rule unat_minus_one)

lemma tick_cooldown_simps [simp]:
  "length (om_cooldown (tick_cooldown i s)) = length (om_cooldown s)"
  "length (om_streak (tick_cooldown i s)) = length (om_streak s)"
  "om_background (tick_cooldown i s) = om_background s" "om_focus (tick_cooldown i s) = om_focus s"
  by (simp_all add: tick_cooldown_def Let_def)

lemma om_inv_tick_cooldown:
  assumes "om_inv s" "i < 7"
  shows "om_inv (tick_cooldown i s)"
proof -
  have "penalty_ok (om_streak s ! i) (om_cooldown s ! i)" using assms by (simp add: om_inv_def)
  then have "om_cooldown s ! i \<noteq> 0 \<Longrightarrow> om_cooldown s ! i - 1 \<noteq> 0 \<Longrightarrow> penalty_ok (om_streak s ! i) (om_cooldown s ! i - 1)"
    by (simp add: penalty_ok_def dec_u16)
  then show ?thesis using assms by (auto simp: om_inv_def tick_cooldown_def Let_def nth_list_update)
qed

lemma om_inv_fold_tick: "om_inv s \<Longrightarrow> \<forall>i \<in> set xs. i < 7 \<Longrightarrow> om_inv (fold tick_cooldown xs s)"
  by (induction xs arbitrary: s) (simp_all add: om_inv_tick_cooldown)

lemma om_inv_tick: "om_inv s \<Longrightarrow> om_inv (tick_cooldowns s)"
  using om_inv_fold_tick [of s "[0..<7]"] by (simp add: tick_cooldowns_def om_inv_def)

subsection \<open>Every operation keeps the invariant\<close>

text \<open>
  The failure bookkeeping of the operating mode is established by \<open>reset\<close> and kept by every
  operation: a step, a change of focus, of the background polling, or any completion.
\<close>

lemma om_invariant:
  "om_inv om_reset \<and>
   (om_inv s \<longrightarrow> om_inv (snd (om_step sc s)) \<and> om_inv (snd (set_focus_target t s)) \<and> om_inv (clear_focus_target s) \<and>
      om_inv (snd (set_background_target_enabled t on s)) \<and> om_inv (on_completion c s))"
proof -
  have bg: "om_inv s \<Longrightarrow> om_inv (s\<lparr>om_background := (om_background s)[i := b]\<rparr>)" for s i b by (simp add: om_inv_def)
  have fc: "om_inv s \<Longrightarrow> om_inv (s\<lparr>om_focus := u\<rparr>)" for s u by (simp add: om_inv_def)
  have "om_inv om_state0" by (simp add: om_inv_def om_state0_def)
  then show ?thesis
    by (simp add: om_reset_def bg fc om_step_def update_completion_feedback_def case_prod_unfold Let_def om_inv_tick om_inv_drain
      set_focus_target_def clear_focus_target_def set_background_target_enabled_def om_inv_clear om_inv_completion)
qed

lemma om_reset_inv: "om_inv om_reset"
  by (simp add: om_inv_def om_reset_def om_state0_def)

subsection \<open>Cooldowns end\<close>

lemma tick_other: "i \<noteq> j \<Longrightarrow> om_cooldown (tick_cooldown j s) ! i = om_cooldown s ! i \<and> om_streak (tick_cooldown j s) ! i = om_streak s ! i"
  by (simp add: tick_cooldown_def Let_def)

lemma tick_same:
  "i < length (om_cooldown s) \<Longrightarrow> i < length (om_streak s) \<Longrightarrow>
   unat (om_cooldown (tick_cooldown i s) ! i) = unat (om_cooldown s ! i) - 1 \<and>
   om_streak (tick_cooldown i s) ! i = (if unat (om_cooldown s ! i) = 1 then 0 else om_streak s ! i)"
  by (auto simp: tick_cooldown_def Let_def unat_dec_u16 unat_eq_0 [symmetric] simp del: unat_eq_0)

lemma fold_tick_at:
  assumes "distinct xs" "i < length (om_cooldown s)" "i < length (om_streak s)"
  shows "unat (om_cooldown (fold tick_cooldown xs s) ! i) = unat (om_cooldown s ! i) - (if i \<in> set xs then 1 else 0) \<and>
    om_streak (fold tick_cooldown xs s) ! i = (if i \<in> set xs \<and> unat (om_cooldown s ! i) = 1 then 0 else om_streak s ! i)"
  using assms
proof (induction xs arbitrary: s)
  case (Cons x xs)
  then show ?case using tick_same [of i s] tick_other [of i x s] by (cases "x = i") (auto simp del: unat_eq_0)
qed simp

lemma tick_at:
  assumes "om_inv s" "i < 7"
  shows "unat (om_cooldown (tick_cooldowns s) ! i) = unat (om_cooldown s ! i) - 1"
    "om_streak (tick_cooldowns s) ! i = (if unat (om_cooldown s ! i) = 1 then 0 else om_streak s ! i)"
  using assms fold_tick_at [of "[0..<7]" i s] by (simp_all add: om_inv_def tick_cooldowns_def del: unat_eq_0)

lemma ticks_at:
  assumes "om_inv s" "i < 7"
  shows "om_inv ((tick_cooldowns ^^ n) s) \<and> unat (om_cooldown ((tick_cooldowns ^^ n) s) ! i) = unat (om_cooldown s ! i) - n \<and>
    om_streak ((tick_cooldowns ^^ n) s) ! i =
      (if unat (om_cooldown s ! i) \<noteq> 0 \<and> unat (om_cooldown s ! i) \<le> n then 0 else om_streak s ! i)"
proof (induction n)
  case 0
  show ?case using assms(1) by (auto simp del: unat_eq_0)
next
  case (Suc n)
  let ?s = "(tick_cooldowns ^^ n) s"
  note t = tick_at [OF Suc [THEN conjunct1] assms(2)] om_inv_tick [OF Suc [THEN conjunct1]]
  have r: "om_streak ?s ! i = (if unat (om_cooldown s ! i) \<noteq> 0 \<and> unat (om_cooldown s ! i) \<le> n then 0 else om_streak s ! i)"
    and c: "unat (om_cooldown ?s ! i) = unat (om_cooldown s ! i) - n" using Suc by blast+
  have "om_streak (tick_cooldowns ?s) ! i =
      (if unat (om_cooldown s ! i) \<noteq> 0 \<and> unat (om_cooldown s ! i) \<le> Suc n then 0 else om_streak s ! i)"
    unfolding t(2) r c by (cases "unat (om_cooldown s ! i)" n rule: linorder_cases) auto
  then show ?case using t c by (simp del: unat_eq_0)
qed

text \<open>
  C27: a cooldown ends. In a state of the invariant a node in cooldown is in cooldown for exactly the
  ticks left on its counter, never more than 160 of them; when it leaves, its failure streak starts
  from zero again.
\<close>

theorem cooldown_expires:
  assumes "om_inv s" "valid_background_target t"
  shows "(target_in_cooldown ((tick_cooldowns ^^ n) s) t \<longleftrightarrow> n < unat (om_cooldown s ! target_index t)) \<and>
    \<not> target_in_cooldown ((tick_cooldowns ^^ 160) s) t \<and>
    (target_in_cooldown s t \<and> \<not> target_in_cooldown ((tick_cooldowns ^^ n) s) t \<longrightarrow>
      om_streak ((tick_cooldowns ^^ n) s) ! target_index t = 0)"
proof -
  have i: "target_index t < 7" using assms(2) by simp
  have "om_cooldown s ! target_index t \<le> 160" using assms(1) i by (simp add: om_inv_def penalty_ok_def)
  then have b: "unat (om_cooldown s ! target_index t) \<le> 160" by (simp add: word_le_nat_alt)
  have t: "target_in_cooldown u t \<longleftrightarrow> unat (om_cooldown u ! target_index t) \<noteq> 0" for u
    using assms(2) by (simp add: target_in_cooldown_def unat_eq_0)
  note a = ticks_at [OF assms(1) i]
  show ?thesis using a [of n] a [of 160] b by (auto simp: t simp del: unat_eq_0)
qed

theorem cooldown_expires_witness:
  "\<not> target_in_cooldown ((tick_cooldowns ^^ 160) (on_exchange_failure tgt_pss cr_invalid_eof om_reset)) tgt_pss"
  by (rule cooldown_expires [THEN conjunct2, THEN conjunct1]) (simp_all add: om_inv_failure om_reset_inv valid_background_target_def)

subsection \<open>Failures and their penalty\<close>

lemma failure_at:
  assumes "om_inv s" "valid_background_target t" "i = target_index t"
  defines "k \<equiv> (if om_streak s ! i < 255 then om_streak s ! i + 1 else om_streak s ! i)"
  shows "om_streak (on_exchange_failure t r s) ! i = k \<and>
    om_cooldown (on_exchange_failure t r s) ! i =
      (if k < failure_threshold_for r \<or> om_cooldown s ! i \<noteq> 0 then om_cooldown s ! i else cooldown_ticks_for r)"
proof -
  have "i < length (om_streak s)" "i < length (om_cooldown s)" using assms(1-3) by (simp_all add: om_inv_def)
  then show ?thesis using assms(2,3) by (simp add: on_exchange_failure_def remember_result_def Let_def k_def)
qed

lemma policy_in_cooldown: "target_in_cooldown s t \<Longrightarrow> \<not> np_periodic_exchange (policy_for s t)"
  by (simp add: policy_for_def)

text \<open>A step of the mode with one completion waiting, and one with none.\<close>

lemma step_one: "sc_completions sc = [c] \<Longrightarrow> snd (om_step sc s) = tick_cooldowns (on_completion c s)"
  by (simp add: om_step_def update_completion_feedback_def drain_completions.simps [of sc] try_pop_completion_def
      drain_completions.simps [of "sc\<lparr>sc_completions := []\<rparr>"])

lemma step_none: "sc_completions sc = [] \<Longrightarrow> snd (om_step sc s) = tick_cooldowns s"
  by (simp add: om_step_def update_completion_feedback_def drain_completions.simps [of sc] try_pop_completion_def)

lemma tick_keeps_mode: "om_background (tick_cooldowns s) = om_background s" "om_focus (tick_cooldowns s) = om_focus s"
proof -
  have "om_background (fold tick_cooldown is u) = om_background u \<and> om_focus (fold tick_cooldown is u) = om_focus u" for "is" u
    by (induction "is" arbitrary: u) (simp_all add: tick_cooldown_def Let_def)
  then show "om_background (tick_cooldowns s) = om_background s" "om_focus (tick_cooldowns s) = om_focus s" by (simp_all add: tick_cooldowns_def)
qed

lemma failure_keeps_mode: "om_background (on_exchange_failure t r s) = om_background s" "om_focus (on_exchange_failure t r s) = om_focus s"
  by (simp_all add: on_exchange_failure_def remember_result_def Let_def)

text \<open>What a state says of one target: its failures, its cooldown and whether it is wanted.\<close>

definition record_of :: "target_t \<Rightarrow> om_state \<Rightarrow> nat \<times> nat" where
  "record_of t s = (unat (om_streak s ! target_index t), unat (om_cooldown s ! target_index t))"

definition wanted :: "target_t \<Rightarrow> om_state \<Rightarrow> bool" where
  "wanted t s \<longleftrightarrow> background_target_enabled s t \<or> is_target_focused s t"

lemma wanted_keeps [simp]: "wanted t (tick_cooldowns s) = wanted t s" "wanted t (on_exchange_failure t' r s) = wanted t s"
  by (simp_all add: wanted_def background_target_enabled_def is_target_focused_def tick_keeps_mode failure_keeps_mode)

lemma policy_record: "valid_background_target t \<Longrightarrow> np_periodic_exchange (policy_for s t) \<longleftrightarrow> snd (record_of t s) = 0 \<and> wanted t s"
  by (auto simp: policy_for_def target_in_cooldown_def record_of_def wanted_def unat_eq_0)

lemma quiet_steps:
  assumes "sc_completions idle = []" "om_inv s" "valid_background_target t" "record_of t s = (k, c)"
  shows "snd (record_of t (((\<lambda>u. snd (om_step idle u)) ^^ n) s)) = c - n \<and> wanted t (((\<lambda>u. snd (om_step idle u)) ^^ n) s) = wanted t s"
proof -
  have e: "(\<lambda>u. snd (om_step idle u)) = tick_cooldowns" using step_none [OF assms(1)] by (simp add: fun_eq_iff)
  have "wanted t ((tick_cooldowns ^^ n) s) = wanted t s" by (induction n) simp_all
  then show ?thesis using ticks_at [OF assms(2), of "target_index t" n] assms(3,4) by (simp add: e record_of_def)
qed

lemma failed_step:
  assumes "om_inv s" "valid_background_target t" "record_of t s = (k, 0)" "k < 3"
    and s'_def: "s' = tick_cooldowns (on_exchange_failure t r s)"
  shows "om_inv s'" "wanted t s' = wanted t s"
    "record_of t s' = (if k + 1 < unat (failure_threshold_for r) then (k + 1, 0) else (k + 1, unat (cooldown_ticks_for r) - 1))"
proof -
  let ?i = "target_index t" and ?f = "on_exchange_failure t r s"
  have i: "om_inv ?f" by (rule om_inv_failure [OF assms(1)])
  show "om_inv s'" using ticks_at [OF i, of ?i 1] assms(2) by (simp add: s'_def)
  show "wanted t s' = wanted t s" by (simp add: s'_def)
  have z: "unat (om_streak s ! ?i) = k" "om_cooldown s ! ?i = 0" using assms(3) by (simp_all add: record_of_def unat_eq_0)
  then have lt: "om_streak s ! ?i < 255" using assms(4) by (simp add: word_less_nat_alt)
  then have u: "unat (om_streak s ! ?i + 1) = k + 1" using z(1) assms(4) by (simp add: unat_word_ariths)
  note at = failure_at [OF assms(1,2) refl, of r]
  have st: "unat (om_streak ?f ! ?i) = k + 1" using at lt u by simp
  have cd: "unat (om_cooldown ?f ! ?i) = (if k + 1 < unat (failure_threshold_for r) then 0 else unat (cooldown_ticks_for r))"
    using at lt z u by (simp add: word_less_nat_alt)
  have "unat (cooldown_ticks_for r) \<noteq> 1" by (simp add: cooldown_ticks_for_def k_timeout_cooldown_ticks_def k_invalid_eof_cooldown_ticks_def)
  then show "record_of t s' = (if k + 1 < unat (failure_threshold_for r) then (k + 1, 0) else (k + 1, unat (cooldown_ticks_for r) - 1))"
    using ticks_at [OF i, of ?i 1] assms(2) st cd by (auto simp: record_of_def s'_def)
qed

text \<open>
  C14: the penalty of failed polls, over the steps of the mode. For a node with no failures on record,
  two steps that take a periodic exchange that timed out leave it out of a cooldown; after a third one
  its policy has no periodic exchange for 96 steps counted from that one, and again one from then on
  exactly if the node is enabled or focused. One reply with a bad end of frame is enough for 160 steps. A
  success clears the record, and the outcome of commands and of single exchanges never counts as
  a failure.
\<close>

theorem failure_penalty:
  assumes "om_inv s" "om_inv u" "valid_background_target t" "om_streak s ! target_index t = 0"
    and "cp_valid c" "cp_have_result c" "cp_target c = t" "sc_completions hit = [c]" "sc_completions idle = []"
  defines "taken \<equiv> \<lambda>v. snd (om_step hit v)" and "quiet \<equiv> \<lambda>v. snd (om_step idle v)"
  shows "(cp_periodic c \<and> cp_kind c = ck_data_request \<longrightarrow>
       (cp_result c = cr_timeout \<longrightarrow> \<not> target_in_cooldown ((taken ^^ 2) s) t \<and>
          (\<forall>n. np_periodic_exchange (policy_for ((quiet ^^ n) ((taken ^^ 3) s)) t) \<longleftrightarrow> 96 \<le> n + 1 \<and> wanted t s)) \<and>
       (cp_result c = cr_invalid_eof \<longrightarrow>
          (\<forall>n. np_periodic_exchange (policy_for ((quiet ^^ n) (taken s)) t) \<longleftrightarrow> 160 \<le> n + 1 \<and> wanted t s))) \<and>
     (cp_result c = cr_success \<longrightarrow> om_streak (taken u) ! target_index t = 0 \<and> \<not> target_in_cooldown (taken u) t) \<and>
     (cp_result c \<noteq> cr_success \<and> \<not> (cp_periodic c \<and> cp_kind c = ck_data_request) \<longrightarrow> on_completion c s = s)"
proof (intro conjI impI allI)
  let ?i = "target_index t"
  have i: "?i < 7" using assms(3) by simp
  have "om_cooldown s ! ?i = 0" using assms(1,4) i by (simp add: om_inv_def penalty_ok_def) (metis word_neq_0_conv)
  then have r0: "record_of t s = (0, 0)" by (simp add: record_of_def assms(4))
  note lims = failure_threshold_for_def cooldown_ticks_for_def k_timeout_failure_threshold_def
    k_invalid_eof_failure_threshold_def k_timeout_cooldown_ticks_def k_invalid_eof_cooldown_ticks_def
  have tk: "taken v = tick_cooldowns (on_completion c v)" for v by (simp add: taken_def step_one [OF assms(8)])
  have fail: "taken v = tick_cooldowns (on_exchange_failure t (cp_result c) v)"
    if "cp_periodic c \<and> cp_kind c = ck_data_request" "cp_result c \<noteq> cr_success" for v
    using that assms(5-7) by (simp add: tk on_completion_def)
  have late: "np_periodic_exchange (policy_for ((quiet ^^ n) v) t) \<longleftrightarrow> Suc m \<le> n + 1 \<and> wanted t s"
    if "om_inv v" "record_of t v = (k, m)" "wanted t v = wanted t s" for v k m n
    using quiet_steps [OF assms(9) that(1) assms(3) that(2), of n] that(3) by (auto simp: policy_record [OF assms(3)] quiet_def)
  {
    assume p: "cp_periodic c \<and> cp_kind c = ck_data_request" and r: "cp_result c = cr_timeout"
    have step: "taken v = tick_cooldowns (on_exchange_failure t cr_timeout v)" for v using fail [OF p] r by simp
    note f1 = failed_step [OF assms(1,3) r0 _ step [of s], unfolded lims, simplified]
    note f2 = failed_step [OF f1(1) assms(3) f1(3) _ step [of "taken s"], unfolded lims, simplified]
    note f3 = failed_step [OF f2(1) assms(3) f2(3) _ step [of "taken (taken s)"], unfolded lims, simplified]
    have two: "(taken ^^ 2) s = taken (taken s)" "(taken ^^ 3) s = taken (taken (taken s))" by (simp_all add: numeral_2_eq_2 numeral_3_eq_3)
    show "\<not> target_in_cooldown ((taken ^^ 2) s) t" using f2(3) assms(3) by (simp add: two target_in_cooldown_def record_of_def unat_eq_0)
    show "np_periodic_exchange (policy_for ((quiet ^^ n) ((taken ^^ 3) s)) t) \<longleftrightarrow> 96 \<le> n + 1 \<and> wanted t s" for n
      using late [OF f3(1,3)] f1(2) f2(2) f3(2) by (simp add: two)
  next
    assume p: "cp_periodic c \<and> cp_kind c = ck_data_request" and r: "cp_result c = cr_invalid_eof"
    have step: "taken v = tick_cooldowns (on_exchange_failure t cr_invalid_eof v)" for v using fail [OF p] r by simp
    note f1 = failed_step [OF assms(1,3) r0 _ step [of s], unfolded lims, simplified]
    show "np_periodic_exchange (policy_for ((quiet ^^ n) (taken s)) t) \<longleftrightarrow> 160 \<le> n + 1 \<and> wanted t s" for n
      using late [OF f1(1,3)] f1(2) by simp
  next
    assume r: "cp_result c = cr_success"
    let ?v = "on_exchange_success t u"
    have v: "taken u = tick_cooldowns ?v" using r assms(5-7) by (simp add: tk on_completion_def)
    have z: "om_streak ?v ! ?i = 0" "om_cooldown ?v ! ?i = 0"
      using assms(2,3) i by (simp_all add: on_exchange_success_def clear_target_state_def remember_result_def om_inv_def)
    have "om_inv ?v" using assms(2) by (simp add: on_exchange_success_def om_inv_clear om_inv_remember)
    from ticks_at [OF this i, of 1] z have "om_streak (taken u) ! ?i = 0" "unat (om_cooldown (taken u) ! ?i) = 0" by (simp_all add: v)
    then show "om_streak (taken u) ! ?i = 0" "\<not> target_in_cooldown (taken u) t" using assms(3) by (simp_all add: target_in_cooldown_def unat_eq_0)
  next
    assume "cp_result c \<noteq> cr_success \<and> \<not> (cp_periodic c \<and> cp_kind c = ck_data_request)"
    then show "on_completion c s = s" by (auto simp: on_completion_def)
  }
qed

theorem failure_penalty_witness:
  "let c = \<lparr>cp_valid = True, cp_target = tgt_tcs, cp_kind = ck_data_request, cp_periodic = True, cp_have_result = True, cp_result = cr_timeout\<rparr>;
       s = ((\<lambda>v. snd (om_step (sched0\<lparr>sc_completions := [c]\<rparr>) v)) ^^ 3) om_reset; quiet = \<lambda>v. snd (om_step (sched0\<lparr>sc_completions := []\<rparr>) v)
   in \<not> np_periodic_exchange (policy_for ((quiet ^^ 94) s) tgt_tcs) \<and> np_periodic_exchange (policy_for ((quiet ^^ 95) s) tgt_tcs)"
proof -
  let ?c = "\<lparr>cp_valid = True, cp_target = tgt_tcs, cp_kind = ck_data_request,
      cp_periodic = True, cp_have_result = True, cp_result = cr_timeout\<rparr>"
  have z: "valid_background_target tgt_tcs" "om_streak om_reset ! target_index tgt_tcs = 0" "wanted tgt_tcs om_reset" unfolding wanted_def by code_simp+
  show ?thesis
    using failure_penalty [OF om_reset_inv om_reset_inv z(1,2), of ?c "sched0\<lparr>sc_completions := [?c]\<rparr>" "sched0\<lparr>sc_completions := []\<rparr>"] z(3)
    by (simp add: Let_def)
qed

subsection \<open>The policy is what the scheduler polls\<close>

text \<open>What decides whether and how a task polls its node; a task that is merely queued keeps it.\<close>

definition poll_key :: "task_t \<Rightarrow> (bool \<times> bool \<times> task_kind_t \<times> nat option) \<times> bool \<times> task_queue_t" where
  "poll_key t = ((t_used t, t_periodic t, t_kind t, t_node t), t_enabled t, t_queue t)"

definition polls :: "nat \<Rightarrow> task_t \<Rightarrow> bool" where
  "polls n t \<longleftrightarrow> t_used t \<and> t_periodic t \<and> t_kind t = tk_data_request \<and> t_node t = Some n"

definition node_poll :: "sched \<Rightarrow> nat \<Rightarrow> task_queue_t option" where
  "node_poll sc n =
     (case find_periodic_data_task_slot sc n of None \<Rightarrow> None
      | Some i \<Rightarrow> if t_enabled (sc_tasks sc ! i) then Some (t_queue (sc_tasks sc ! i)) else None)"

definition one_poll :: "sched \<Rightarrow> bool" where
  "one_poll sc \<longleftrightarrow> (\<forall>n. \<forall>i < length (sc_tasks sc). \<forall>j < length (sc_tasks sc).
     polls n (sc_tasks sc ! i) \<and> polls n (sc_tasks sc ! j) \<longrightarrow> i = j)"

definition free_slots :: "sched \<Rightarrow> nat" where
  "free_slots sc = length (filter (\<lambda>t. \<not> t_used t) (sc_tasks sc))"

definition polls_key :: "nat \<Rightarrow> (bool \<times> bool \<times> task_kind_t \<times> nat option) \<times> bool \<times> task_queue_t \<Rightarrow> bool" where
  "polls_key n k \<longleftrightarrow> fst k = (True, True, tk_data_request, Some n)"

definition keys :: "sched \<Rightarrow> ((bool \<times> bool \<times> task_kind_t \<times> nat option) \<times> bool \<times> task_queue_t) list" where
  "keys sc = map poll_key (sc_tasks sc)"

lemma keys_length [simp]: "length (keys sc) = length (sc_tasks sc)"
  by (simp add: keys_def)

lemma keys_nth: "i < length (sc_tasks sc) \<Longrightarrow> keys sc ! i = poll_key (sc_tasks sc ! i)"
  by (simp add: keys_def)

lemma polls_by_key: "polls n t = polls_key n (poll_key t)"
  by (auto simp: polls_def polls_key_def poll_key_def)

lemma find_index_map: "find_index P (map f xs) = find_index (\<lambda>x. P (f x)) xs"
  by (induction xs) simp_all

lemma find_by_key: "find_periodic_data_task_slot sc n = find_index (polls_key n) (keys sc)"
  by (simp add: find_periodic_data_task_slot_def keys_def find_index_map polls_by_key [symmetric] polls_def)

lemma node_poll_by_key:
  "node_poll sc n = (case find_index (polls_key n) (keys sc) of None \<Rightarrow> None
     | Some i \<Rightarrow> if fst (snd (keys sc ! i)) then Some (snd (snd (keys sc ! i))) else None)"
  by (auto simp: node_poll_def find_by_key keys_nth poll_key_def dest: find_index_Some split: option.splits)

lemma one_poll_by_key:
  "one_poll sc \<longleftrightarrow> (\<forall>n. \<forall>i < length (keys sc). \<forall>j < length (keys sc). polls_key n (keys sc ! i) \<and> polls_key n (keys sc ! j) \<longrightarrow> i = j)"
  by (simp add: one_poll_def polls_by_key keys_nth)

lemma free_slots_by_key: "free_slots sc = length (filter (\<lambda>k. \<not> fst (fst k)) (keys sc))"
  by (simp add: free_slots_def keys_def filter_map o_def poll_key_def)

lemma keys_set_task: "keys (set_task i f sc) = (keys sc)[i := poll_key (f (sc_tasks sc ! i))]"
  by (simp add: keys_def set_task_def map_update)

lemma keys_same: "i < length (sc_tasks sc) \<Longrightarrow> poll_key (f (sc_tasks sc ! i)) = poll_key (sc_tasks sc ! i) \<Longrightarrow>
    keys (set_task i f sc) = keys sc"
  by (simp add: keys_set_task keys_nth [symmetric])

lemma keys_cong [simp]: "keys (sc\<lparr>sc_normal := a\<rparr>) = keys sc" "keys (sc\<lparr>sc_priority := a\<rparr>) = keys sc"
  "keys (sc\<lparr>sc_next_id := b\<rparr>) = keys sc"
  by (simp_all add: keys_def)

lemma keys_queue [simp]: "keys (queue_task_slot i sc) = keys sc"
  by (auto simp: queue_task_slot_def Let_def keys_set_task poll_key_def keys_nth [symmetric, unfolded poll_key_def])

lemma keys_remove [simp]: "keys (remove_slot_from_queues i sc) = keys sc"
  by (auto simp: remove_slot_from_queues_def Let_def keys_set_task poll_key_def keys_nth [symmetric, unfolded poll_key_def])

lemma tasks_length [simp]: "length (sc_tasks (set_task i f sc)) = length (sc_tasks sc)"
  "length (sc_tasks (remove_slot_from_queues i sc)) = length (sc_tasks sc)"
  by (simp_all add: set_task_def remove_slot_from_queues_def Let_def)

lemma task_key: "i < length (sc_tasks sc) \<Longrightarrow> keys sc ! i = ((u, p, k, m), e, q) \<longleftrightarrow>
    t_used (sc_tasks sc ! i) = u \<and> t_periodic (sc_tasks sc ! i) = p \<and> t_kind (sc_tasks sc ! i) = k \<and>
    t_node (sc_tasks sc ! i) = m \<and> t_enabled (sc_tasks sc ! i) = e \<and> t_queue (sc_tasks sc ! i) = q"
  by (simp add: keys_nth poll_key_def)

lemma keys_update_class:
  assumes "i < length (sc_tasks sc)" "keys sc ! i = ((True, p, k, m), e, q')"
  shows "keys (update_task_queue_class i q sc) = (keys sc)[i := ((True, p, k, m), e, q)]"
proof -
  have t: "t_used (sc_tasks sc ! i)" "t_queue (sc_tasks sc ! i) = q'" using assms by (simp_all add: task_key)
  have r: "poll_key ((sc_tasks s ! i)\<lparr>t_queue := q\<rparr>) = ((True, p, k, m), e, q)"
    if "keys s = keys sc" "length (sc_tasks s) = length (sc_tasks sc)" for s
  proof -
    have "keys s ! i = ((True, p, k, m), e, q')" using that(1) assms(2) by simp
    then show ?thesis using that(2) assms(1) by (simp add: task_key poll_key_def)
  qed
  have "q' = q \<Longrightarrow> (keys sc)[i := ((True, p, k, m), e, q)] = keys sc" using assms(2) by (metis list_update_id)
  then show ?thesis
    using assms t r by (auto simp: update_task_queue_class_def Let_def keys_set_task simp del: nth_list_update_eq)
qed

lemma keys_ensure:
  assumes "find_node_by_target sc t = Some n" "find_periodic_data_task_slot sc n = Some i \<or>
    find_periodic_data_task_slot sc n = None \<and> alloc_task_slot sc = Some i"
  shows "keys (snd (ensure_periodic_exchange t q sc)) =
    (keys sc)[i := ((True, True, tk_data_request, Some n), True, to_task_queue q)]"
  using assms(2)
proof
  assume f: "find_periodic_data_task_slot sc n = Some i"
  let ?s = "set_task i (\<lambda>t. t\<lparr>t_enabled := True\<rparr>) sc"
  note p = periodic_slot [OF f]
  have k: "keys ?s = (keys sc)[i := ((True, True, tk_data_request, Some n), True, t_queue (sc_tasks sc ! i))]"
    using p by (simp add: keys_set_task poll_key_def)
  have "keys (update_task_queue_class i (to_task_queue q) ?s) =
      (keys ?s)[i := ((True, True, tk_data_request, Some n), True, to_task_queue q)]"
    by (rule keys_update_class) (use p in \<open>simp_all add: k\<close>)
  then show ?thesis using assms(1) f by (simp add: ensure_periodic_exchange_def k)
next
  assume f: "find_periodic_data_task_slot sc n = None \<and> alloc_task_slot sc = Some i"
  then have "i < length (sc_tasks sc)" unfolding alloc_task_slot_def by (auto dest: find_index_Some)
  then show ?thesis
    using assms(1) f by (simp add: ensure_periodic_exchange_def add_task_def Let_def keys_set_task poll_key_def)
qed

lemma keys_cancel:
  assumes "find_node_by_target sc t = Some n" "find_periodic_data_task_slot sc n = Some i"
  obtains k where "keys (snd (cancel_periodic_exchange t sc)) = (keys sc)[i := k]" "\<And>m. \<not> polls_key m k"
proof -
  have i: "i < length (sc_tasks sc)" using periodic_slot [OF assms(2)] by simp
  let ?k = "if Some i = sc_active sc then poll_key ((sc_tasks sc ! i)\<lparr>t_enabled := False, t_periodic := False\<rparr>) else poll_key task0"
  have "keys (cancel_slot i sc) = (keys sc)[i := ?k]"
    using i by (simp add: cancel_slot_def clear_task_slot_def keys_set_task)
  then have "keys (snd (cancel_periodic_exchange t sc)) = (keys sc)[i := ?k]"
    using assms by (simp add: cancel_periodic_exchange_def)
  moreover have "\<not> polls_key m ?k" for m by (simp add: polls_key_def poll_key_def)
  ultimately show ?thesis by (rule that)
qed

lemma find_index_keep:
  assumes "\<not> P (xs ! i)" "\<not> P v"
  shows "find_index P (xs[i := v]) = find_index P xs"
proof (rule find_index_cong)
  have "P (xs[i := v] ! j) = P (xs ! j)" for j
    using assms by (cases "j = i"; cases "i < length xs") (simp_all add: list_update_beyond)
  then show "map P (xs[i := v]) = map P xs" by (auto intro!: nth_equalityI)
qed

lemma free_update:
  assumes "i < length ks"
  shows "length (filter (\<lambda>k. \<not> fst (fst k)) ks) \<le> Suc (length (filter (\<lambda>k. \<not> fst (fst k)) (ks[i := v])))"
    and "fst (fst (ks ! i)) \<Longrightarrow> length (filter (\<lambda>k. \<not> fst (fst k)) ks) \<le> length (filter (\<lambda>k. \<not> fst (fst k)) (ks[i := v]))"
proof -
  have e: "ks = take i ks @ ks ! i # drop (Suc i) ks" "ks[i := v] = take i ks @ v # drop (Suc i) ks"
    using assms by (simp_all add: id_take_nth_drop upd_conv_take_nth_drop)
  show "length (filter (\<lambda>k. \<not> fst (fst k)) ks) \<le> Suc (length (filter (\<lambda>k. \<not> fst (fst k)) (ks[i := v])))"
    unfolding e(2) by (subst e(1)) simp
  show "fst (fst (ks ! i)) \<Longrightarrow> length (filter (\<lambda>k. \<not> fst (fst k)) ks) \<le> length (filter (\<lambda>k. \<not> fst (fst k)) (ks[i := v]))"
    unfolding e(2) by (subst e(1)) simp
qed

lemma one_pollD:
  "one_poll sc \<Longrightarrow> polls_key n (keys sc ! i) \<Longrightarrow> polls_key n (keys sc ! j) \<Longrightarrow> i < length (sc_tasks sc) \<Longrightarrow> j < length (sc_tasks sc) \<Longrightarrow> i = j"
  unfolding one_poll_by_key by simp

lemma one_poll_update:
  assumes "one_poll sc" "keys sc' = (keys sc)[i := v]" "\<And>m j. j \<noteq> i \<Longrightarrow> j < length (keys sc) \<Longrightarrow> polls_key m v \<Longrightarrow> \<not> polls_key m (keys sc ! j)"
  shows "one_poll sc'"
  unfolding one_poll_by_key assms(2)
proof (intro allI impI, elim conjE)
  fix m a b assume a: "a < length ((keys sc)[i := v])" "b < length ((keys sc)[i := v])"
    "polls_key m ((keys sc)[i := v] ! a)" "polls_key m ((keys sc)[i := v] ! b)"
  then have l: "a < length (keys sc)" "b < length (keys sc)" by simp_all
  consider "a = i" "b = i" | "a = i" "b \<noteq> i" | "a \<noteq> i" "b = i" | "a \<noteq> i" "b \<noteq> i" by blast
  then show "a = b"
  proof cases
    case 2
    then show ?thesis using a(3,4) l assms(3) [of b m] by simp
  next
    case 3
    then show ?thesis using a(3,4) l assms(3) [of a m] by simp
  next
    case 4
    then show ?thesis using a(3,4) l one_pollD [OF assms(1), of m a b] by simp
  qed simp
qed

definition wanted_poll :: "om_state \<Rightarrow> target_t \<Rightarrow> task_queue_t option" where
  "wanted_poll s t = (if np_periodic_exchange (policy_for s t) then Some (to_task_queue (np_queue (policy_for s t))) else None)"

lemma policy_nodes [simp]: "sc_nodes (apply_periodic_policy s t sc) = sc_nodes sc"
proof -
  have [simp]: "sc_nodes (set_task i f u) = sc_nodes u" "sc_nodes (queue_task_slot i u) = sc_nodes u"
    "sc_nodes (remove_slot_from_queues i u) = sc_nodes u" "sc_nodes (clear_task_slot i u) = sc_nodes u" for i f u
    by (simp_all add: set_task_def queue_task_slot_def remove_slot_from_queues_def clear_task_slot_def Let_def)
  show ?thesis
    by (simp add: apply_periodic_policy_def Let_def ensure_periodic_exchange_def cancel_periodic_exchange_def add_task_def
      update_task_queue_class_def cancel_slot_def split: option.split)
qed

lemma node_poll_keep:
  assumes "keys sc' = (keys sc)[i := v]" "\<not> polls_key m (keys sc ! i)" "\<not> polls_key m v"
  shows "node_poll sc' m = node_poll sc m"
proof -
  have f: "find_index (polls_key m) (keys sc') = find_index (polls_key m) (keys sc)"
    unfolding assms(1) using assms(2,3) by (rule find_index_keep)
  show ?thesis
  proof (cases "find_index (polls_key m) (keys sc)")
    case (Some j)
    then have "j \<noteq> i" using assms(2) by (auto dest: find_index_Some)
    then show ?thesis using Some f assms(1) by (simp add: node_poll_by_key)
  qed (simp add: node_poll_by_key f)
qed

lemma apply_policy_step:
  fixes s :: om_state
  assumes n: "find_node_by_target sc t = Some n" and u: "one_poll sc" and f: "0 < free_slots sc"
  defines "sc' \<equiv> apply_periodic_policy s t sc"
  shows "node_poll sc' n = wanted_poll s t \<and> (\<forall>m. m \<noteq> n \<longrightarrow> node_poll sc' m = node_poll sc m) \<and>
    one_poll sc' \<and> free_slots sc \<le> Suc (free_slots sc')"
proof (cases "np_periodic_exchange (policy_for s t)")
  case True
  let ?q = "np_queue (policy_for s t)" and ?k = "\<lambda>q. ((True, True, tk_data_request, Some n), True, to_task_queue q)"
  have e: "sc' = snd (ensure_periodic_exchange t ?q sc)" using True by (simp add: sc'_def apply_periodic_policy_def Let_def)
  have "\<exists>i. alloc_task_slot sc = Some i"
    using f unfolding alloc_task_slot_def free_slots_def by (metis find_index_None filter_False length_0_conv less_irrefl option.exhaust)
  then obtain i where i: "find_periodic_data_task_slot sc n = Some i \<or>
      find_periodic_data_task_slot sc n = None \<and> alloc_task_slot sc = Some i"
    by (cases "find_periodic_data_task_slot sc n") auto
  have k: "keys sc' = (keys sc)[i := ?k ?q]" unfolding e by (rule keys_ensure [OF n i])
  have l: "i < length (keys sc)" using i by (auto simp: alloc_task_slot_def dest: find_index_Some periodic_slot)
  have before: "find_index (polls_key n) (keys sc) = Some i \<or>
      find_index (polls_key n) (keys sc) = None \<and> (\<forall>m. \<not> polls_key m (keys sc ! i))"
    using i l by (auto simp: find_by_key alloc_task_slot_def keys_nth polls_key_def poll_key_def dest: find_index_Some)
  then have "\<forall>j<i. \<not> polls_key n (keys sc ! j)"
    using l by (auto dest: find_index_Some simp: find_index_None)
  then have at: "find_index (polls_key n) (keys sc') = Some i"
    unfolding k using l by (intro find_index_update) (simp_all add: polls_key_def)
  have others: "\<not> polls_key m (keys sc ! i)" "\<not> polls_key m (?k ?q)" if "m \<noteq> n" for m
    using before that by (auto simp: polls_key_def dest: find_index_Some)
  have "node_poll sc' m = node_poll sc m" if "m \<noteq> n" for m using others [OF that] by (rule node_poll_keep [OF k])
  moreover have "node_poll sc' n = wanted_poll s t"
    using at l True by (simp add: node_poll_by_key wanted_poll_def k)
  moreover have "one_poll sc'"
  proof (rule one_poll_update [OF u k])
    fix m j assume j: "j \<noteq> i" "j < length (keys sc)" "polls_key m (?k ?q)"
    then have "m = n" by (simp add: polls_key_def)
    then show "\<not> polls_key m (keys sc ! j)"
      using before j l u unfolding one_poll_by_key by (auto dest: find_index_Some simp: find_index_None)
  qed
  moreover have "free_slots sc \<le> Suc (free_slots sc')" unfolding free_slots_by_key k using l by (rule free_update)
  ultimately show ?thesis by blast
next
  case False
  have e: "sc' = snd (cancel_periodic_exchange t sc)" using False by (simp add: sc'_def apply_periodic_policy_def Let_def)
  show ?thesis
  proof (cases "find_periodic_data_task_slot sc n")
    case None
    then have "sc' = sc" using n by (simp add: e cancel_periodic_exchange_def)
    then show ?thesis using None u False by (simp add: node_poll_def wanted_poll_def)
  next
    case (Some i)
    then obtain k where k: "keys sc' = (keys sc)[i := k]" "\<And>m. \<not> polls_key m k" unfolding e using keys_cancel [OF n] by blast
    have i: "find_index (polls_key n) (keys sc) = Some i" using Some by (simp add: find_by_key)
    then have l: "i < length (keys sc)" "polls_key n (keys sc ! i)" by (auto dest: find_index_Some)
    have "\<forall>x \<in> set (keys sc'). \<not> polls_key n x"
      using u l k unfolding one_poll_by_key by (auto simp: in_set_conv_nth nth_list_update split: if_splits)
    then have "find_index (polls_key n) (keys sc') = None" by (simp add: find_index_None)
    then have "node_poll sc' n = wanted_poll s t" using False by (simp add: node_poll_by_key wanted_poll_def)
    moreover have "node_poll sc' m = node_poll sc m" if "m \<noteq> n" for m
      by (rule node_poll_keep [OF k(1) _ k(2)]) (use l(2) that in \<open>simp add: polls_key_def\<close>)
    moreover have "one_poll sc'" by (rule one_poll_update [OF u k(1)]) (simp add: k(2))
    moreover have "free_slots sc \<le> Suc (free_slots sc')" unfolding free_slots_by_key k(1) using l(1) by (rule free_update)
    ultimately show ?thesis by blast
  qed
qed

lemma apply_policies:
  assumes "distinct (map (find_node_by_target sc) ts)" "\<forall>t \<in> set ts. find_node_by_target sc t \<noteq> None"
    and "one_poll sc" "length ts \<le> free_slots sc"
  shows "(\<forall>t \<in> set ts. node_poll (fold (apply_periodic_policy s) ts sc) (the (find_node_by_target sc t)) = wanted_poll s t) \<and>
    (\<forall>m. Some m \<notin> find_node_by_target sc ` set ts \<longrightarrow> node_poll (fold (apply_periodic_policy s) ts sc) m = node_poll sc m) \<and>
    one_poll (fold (apply_periodic_policy s) ts sc)"
  using assms
proof (induction ts arbitrary: sc)
  case (Cons t ts)
  let ?sc = "apply_periodic_policy s t sc" and ?f = "fold (apply_periodic_policy s)"
  have same: "find_node_by_target ?sc = find_node_by_target sc" by (simp add: fun_eq_iff find_node_by_target_def)
  obtain n where n: "find_node_by_target sc t = Some n" using Cons.prems(2) by auto
  have step: "node_poll ?sc n = wanted_poll s t" "\<And>m. m \<noteq> n \<Longrightarrow> node_poll ?sc m = node_poll sc m"
    "one_poll ?sc" "length ts \<le> free_slots ?sc"
    using apply_policy_step [OF n Cons.prems(3), of s] Cons.prems(4) by auto
  have rest: "(\<forall>u \<in> set ts. node_poll (?f ts ?sc) (the (find_node_by_target sc u)) = wanted_poll s u) \<and>
      (\<forall>m. Some m \<notin> find_node_by_target sc ` set ts \<longrightarrow> node_poll (?f ts ?sc) m = node_poll ?sc m) \<and> one_poll (?f ts ?sc)"
    using Cons.IH [of ?sc] Cons.prems(1,2) step(3,4) by (simp add: same)
  have new: "Some n \<notin> find_node_by_target sc ` set ts" using Cons.prems(1) n by auto
  show ?case
  proof (intro conjI ballI allI impI)
    fix u assume "u \<in> set (t # ts)"
    then show "node_poll (?f (t # ts) sc) (the (find_node_by_target sc u)) = wanted_poll s u"
      using rest new step(1) n by (auto simp del: image_iff)
  next
    fix m assume "Some m \<notin> find_node_by_target sc ` set (t # ts)"
    then show "node_poll (?f (t # ts) sc) m = node_poll sc m" using rest step(2) [of m] n by auto
  qed (use rest in simp)
qed simp

text \<open>
  C5: the scheduler polls what the operating mode wants. When the five node layouts name the five
  nodes, no node has two periodic tasks and five task slots are free, then after one run of the node
  steps each node has an enabled periodic exchange exactly when its policy asks for one (not in
  cooldown, and focused or enabled in the background), in the priority queue exactly when it is the
  focused node; still no node has two.
\<close>

theorem policy_enforced:
  assumes "map nl_target (sc_nodes sc) = [tgt_pss, tgt_tcs, tgt_tms, tgt_mns, tgt_ls]"
    and "one_poll sc" "5 \<le> free_slots sc" "valid_background_target t"
  shows "node_poll (run_node_step_order s sc) (target_index t - 2) =
      (if \<not> target_in_cooldown s t \<and> (background_target_enabled s t \<or> is_target_focused s t)
       then Some (if is_target_focused s t then tq_priority else tq_normal) else None) \<and>
    one_poll (run_node_step_order s sc)"
proof -
  let ?ts = "[tgt_tcs, tgt_pss, tgt_tms, tgt_mns, tgt_ls]"
  have run: "run_node_step_order s sc = fold (apply_periodic_policy s) ?ts sc"
    by (simp add: run_node_step_order_def G_NODE_STEP_ORDER_def tcs_step_def pss_step_def tms_step_def mns_step_def ls_step_def)
  have "find_node_by_target sc u = find_index (\<lambda>v. v = u) (map nl_target (sc_nodes sc))" for u
    by (simp add: find_node_by_target_def find_index_map)
  then have n: "find_node_by_target sc tgt_pss = Some 0" "find_node_by_target sc tgt_tcs = Some 1" "find_node_by_target sc tgt_tms = Some 2"
    "find_node_by_target sc tgt_mns = Some 3" "find_node_by_target sc tgt_ls = Some 4" by (simp_all add: assms(1))
  have t: "t \<in> set ?ts" "find_node_by_target sc t = Some (target_index t - 2)"
    using assms(4) by (cases t; simp add: valid_background_target_def target_index_def n)+
  have w: "wanted_poll s t = (if \<not> target_in_cooldown s t \<and> (background_target_enabled s t \<or> is_target_focused s t)
       then Some (if is_target_focused s t then tq_priority else tq_normal) else None)"
    by (simp add: wanted_poll_def policy_for_def to_task_queue_def)
  have "distinct (map (find_node_by_target sc) ?ts)" "\<forall>u \<in> set ?ts. find_node_by_target sc u \<noteq> None" "length ?ts \<le> free_slots sc"
    using assms(3) by (simp_all add: n)
  note a = apply_policies [OF this(1,2) assms(2) this(3), of s]
  have "node_poll (fold (apply_periodic_policy s) ?ts sc) (the (find_node_by_target sc t)) = wanted_poll s t"
    using a t(1) by blast
  then show ?thesis unfolding run w [symmetric] using a t(2) by simp
qed

theorem policy_enforced_witness:
  "node_poll (run_node_step_order (snd (set_focus_target tgt_tms om_reset)) sched0) 2 = Some tq_priority \<and>
   node_poll (run_node_step_order (snd (set_focus_target tgt_tms om_reset)) sched0) 0 = None"
proof -
  have n: "map nl_target (sc_nodes sched0) = [tgt_pss, tgt_tcs, tgt_tms, tgt_mns, tgt_ls]" by code_simp
  have o: "one_poll sched0" by (simp add: one_poll_def sched0_def polls_def)
  have f: "5 \<le> free_slots sched0" by code_simp
  have v: "valid_background_target tgt_tms" "valid_background_target tgt_pss" by code_simp+
  have i: "target_index tgt_tms = 4" "target_index tgt_pss = 2" by code_simp+
  let ?s = "snd (set_focus_target tgt_tms om_reset)"
  have c: "\<not> target_in_cooldown ?s tgt_tms" "is_target_focused ?s tgt_tms" "\<not> background_target_enabled ?s tgt_pss" "\<not> is_target_focused ?s tgt_pss"
    by code_simp+
  show ?thesis
    using policy_enforced [OF n o f v(1), of ?s] policy_enforced [OF n o f v(2), of ?s] c by (simp add: i)
qed

end
