(* ===== verification/SimTables.thy ===== *)
theory SimTables
  imports SimStore Tables
begin

text \<open>
  The generated parameter tables of the simulations, \<open>simulation/base/include/sim_*_base.hpp\<close>, and the
  ids of their local parameters, \<open>systems/base/local_param_list.hpp\<close>; also the id ranges of \<open>sys_id_range.hpp\<close>. The static variable
  \<open>P_X\<close> of a parameter \<open>X\<close> lives at the address given by the id of \<open>X\<close>; \<open>sim_vars\<close> is a memory with
  every variable at its static initial value.
\<close>

definition prm :: "nat \<Rightarrow> string \<Rightarrow> u8 \<Rightarrow> physical_type_t \<Rightarrow> nat \<Rightarrow> rat \<Rightarrow> param_entry" where
  "prm i key bits phys p v = \<lparr>pe_id = i, pe_key = key, pe_wire_bits = bits, pe_physical_type = phys,
     pe_ptr = Some p, pe_init_value = Fin v\<rparr>"

definition LOCAL_PARAM_ID_BASE :: nat where "LOCAL_PARAM_ID_BASE = 0x8000"
definition LOCAL_PARAM_max :: nat where "LOCAL_PARAM_max = 179"

definition PSS_BASE :: nat where "PSS_BASE = 0"
definition PSS_COUNT :: nat where "PSS_COUNT = 31"
definition TCS_BASE :: nat where "TCS_BASE = 31"
definition TCS_COUNT :: nat where "TCS_COUNT = 8"
definition TMS_BASE :: nat where "TMS_BASE = 39"
definition TMS_COUNT :: nat where "TMS_COUNT = 7"
definition MNS_BASE :: nat where "MNS_BASE = 46"
definition MNS_COUNT :: nat where "MNS_COUNT = 3"
definition LS_BASE :: nat where "LS_BASE = 49"
definition LS_COUNT :: nat where "LS_COUNT = 3"
definition CPSS_BASE :: nat where "CPSS_BASE = 52"
definition CPSS_COUNT :: nat where "CPSS_COUNT = 24"
definition CTCS_BASE :: nat where "CTCS_BASE = 76"
definition CTCS_COUNT :: nat where "CTCS_COUNT = 13"
definition CTMS_BASE :: nat where "CTMS_BASE = 89"
definition CTMS_COUNT :: nat where "CTMS_COUNT = 8"
definition CMNS_BASE :: nat where "CMNS_BASE = 97"
definition CMNS_COUNT :: nat where "CMNS_COUNT = 4"
definition CLS_BASE :: nat where "CLS_BASE = 101"
definition CLS_COUNT :: nat where "CLS_COUNT = 4"

definition local_param_list :: "(string \<times> nat) list" where
  "local_param_list = [
   (''LCSPWR'', 32768), (''LCSCLOCK'', 32769), (''LCST'', 32770), (''LMNSL1X'', 32771), (''LMNSL1Y'', 32772),
   (''LMNSL1Z'', 32773), (''LMNSL1ST'', 32774), (''LMNSL11X'', 32775), (''LMNSL11Y'', 32776), (''LMNSL11Z'', 32777),
   (''LMNSL11Q'', 32778), (''LMNSL11L'', 32779), (''LMNSL11A'', 32780), (''LMNSL12X'', 32781), (''LMNSL12Y'', 32782),
   (''LMNSL12Z'', 32783), (''LMNSL12Q'', 32784), (''LMNSL12L'', 32785), (''LMNSL12A'', 32786), (''LMNSL13X'', 32787),
   (''LMNSL13Y'', 32788), (''LMNSL13Z'', 32789), (''LMNSL13Q'', 32790), (''LMNSL13L'', 32791), (''LMNSL13A'', 32792),
   (''LMNSL2X'', 32793), (''LMNSL2Y'', 32794), (''LMNSL2Z'', 32795), (''LMNSL2ST'', 32796), (''LMNSL21X'', 32797),
   (''LMNSL21Y'', 32798), (''LMNSL21Z'', 32799), (''LMNSL21Q'', 32800), (''LMNSL21L'', 32801), (''LMNSL21A'', 32802),
   (''LMNSL22X'', 32803), (''LMNSL22Y'', 32804), (''LMNSL22Z'', 32805), (''LMNSL22Q'', 32806), (''LMNSL22L'', 32807),
   (''LMNSL22A'', 32808), (''LMNSL23X'', 32809), (''LMNSL23Y'', 32810), (''LMNSL23Z'', 32811), (''LMNSL23Q'', 32812),
   (''LMNSL23L'', 32813), (''LMNSL23A'', 32814), (''LMNSL3X'', 32815), (''LMNSL3Y'', 32816), (''LMNSL3Z'', 32817),
   (''LMNSL3ST'', 32818), (''LMNSL31X'', 32819), (''LMNSL31Y'', 32820), (''LMNSL31Z'', 32821), (''LMNSL31Q'', 32822),
   (''LMNSL31L'', 32823), (''LMNSL31A'', 32824), (''LMNSL32X'', 32825), (''LMNSL32Y'', 32826), (''LMNSL32Z'', 32827),
   (''LMNSL32Q'', 32828), (''LMNSL32L'', 32829), (''LMNSL32A'', 32830), (''LMNSL33X'', 32831), (''LMNSL33Y'', 32832),
   (''LMNSL33Z'', 32833), (''LMNSL33Q'', 32834), (''LMNSL33L'', 32835), (''LMNSL33A'', 32836), (''LMNSL4X'', 32837),
   (''LMNSL4Y'', 32838), (''LMNSL4Z'', 32839), (''LMNSL4ST'', 32840), (''LMNSL41X'', 32841), (''LMNSL41Y'', 32842),
   (''LMNSL41Z'', 32843), (''LMNSL41Q'', 32844), (''LMNSL41L'', 32845), (''LMNSL41A'', 32846), (''LMNSL42X'', 32847),
   (''LMNSL42Y'', 32848), (''LMNSL42Z'', 32849), (''LMNSL42Q'', 32850), (''LMNSL42L'', 32851), (''LMNSL42A'', 32852),
   (''LMNSL43X'', 32853), (''LMNSL43Y'', 32854), (''LMNSL43Z'', 32855), (''LMNSL43Q'', 32856), (''LMNSL43L'', 32857),
   (''LMNSL43A'', 32858), (''LMNSR1X'', 32859), (''LMNSR1Y'', 32860), (''LMNSR1Z'', 32861), (''LMNSR1ST'', 32862),
   (''LMNSR11X'', 32863), (''LMNSR11Y'', 32864), (''LMNSR11Z'', 32865), (''LMNSR11Q'', 32866), (''LMNSR11L'', 32867),
   (''LMNSR11A'', 32868), (''LMNSR12X'', 32869), (''LMNSR12Y'', 32870), (''LMNSR12Z'', 32871), (''LMNSR12Q'', 32872),
   (''LMNSR12L'', 32873), (''LMNSR12A'', 32874), (''LMNSR13X'', 32875), (''LMNSR13Y'', 32876), (''LMNSR13Z'', 32877),
   (''LMNSR13Q'', 32878), (''LMNSR13L'', 32879), (''LMNSR13A'', 32880), (''LMNSR2X'', 32881), (''LMNSR2Y'', 32882),
   (''LMNSR2Z'', 32883), (''LMNSR2ST'', 32884), (''LMNSR21X'', 32885), (''LMNSR21Y'', 32886), (''LMNSR21Z'', 32887),
   (''LMNSR21Q'', 32888), (''LMNSR21L'', 32889), (''LMNSR21A'', 32890), (''LMNSR22X'', 32891), (''LMNSR22Y'', 32892),
   (''LMNSR22Z'', 32893), (''LMNSR22Q'', 32894), (''LMNSR22L'', 32895), (''LMNSR22A'', 32896), (''LMNSR23X'', 32897),
   (''LMNSR23Y'', 32898), (''LMNSR23Z'', 32899), (''LMNSR23Q'', 32900), (''LMNSR23L'', 32901), (''LMNSR23A'', 32902),
   (''LMNSR3X'', 32903), (''LMNSR3Y'', 32904), (''LMNSR3Z'', 32905), (''LMNSR3ST'', 32906), (''LMNSR31X'', 32907),
   (''LMNSR31Y'', 32908), (''LMNSR31Z'', 32909), (''LMNSR31Q'', 32910), (''LMNSR31L'', 32911), (''LMNSR31A'', 32912),
   (''LMNSR32X'', 32913), (''LMNSR32Y'', 32914), (''LMNSR32Z'', 32915), (''LMNSR32Q'', 32916), (''LMNSR32L'', 32917),
   (''LMNSR32A'', 32918), (''LMNSR33X'', 32919), (''LMNSR33Y'', 32920), (''LMNSR33Z'', 32921), (''LMNSR33Q'', 32922),
   (''LMNSR33L'', 32923), (''LMNSR33A'', 32924), (''LMNSR4X'', 32925), (''LMNSR4Y'', 32926), (''LMNSR4Z'', 32927),
   (''LMNSR4ST'', 32928), (''LMNSR41X'', 32929), (''LMNSR41Y'', 32930), (''LMNSR41Z'', 32931), (''LMNSR41Q'', 32932),
   (''LMNSR41L'', 32933), (''LMNSR41A'', 32934), (''LMNSR42X'', 32935), (''LMNSR42Y'', 32936), (''LMNSR42Z'', 32937),
   (''LMNSR42Q'', 32938), (''LMNSR42L'', 32939), (''LMNSR42A'', 32940), (''LMNSR43X'', 32941), (''LMNSR43Y'', 32942),
   (''LMNSR43Z'', 32943), (''LMNSR43Q'', 32944), (''LMNSR43L'', 32945), (''LMNSR43A'', 32946)]"

subsection \<open>PSS\<close>

definition sim_pss_k_param_count :: nat where "sim_pss_k_param_count = 31"
definition sim_pss_k_local_param_count :: nat where "sim_pss_k_local_param_count = 0"
definition sim_pss_k_isim_param_count :: nat where "sim_pss_k_isim_param_count = 31"

definition sim_pss_vars :: "(nat \<times> value_t) list" where
  "sim_pss_vars = [
   (0, V_u8 0), (1, V_u8 1), (2, V_u8 1), (3, V_u8 1), (4, V_u8 1),
   (5, V_u8 0), (6, V_s8 0), (7, V_f32 (Fin (80))), (8, V_f32 (Fin (80))), (9, V_f32 (Fin (12))),
   (10, V_f32 (Fin (290))), (11, V_s8 5), (12, V_f32 (Fin (23))), (13, V_f32 (Fin (3))), (14, V_f32 (Fin (35))),
   (15, V_f32 (Fin (6))), (16, V_f32 (Fin (33 / 2))), (17, V_f32 (Fin (0))), (18, V_f32 (Fin (0))), (19, V_f32 (Fin (0))),
   (20, V_f32 (Fin (0))), (21, V_f32 (Fin (0))), (22, V_s8 0), (23, V_f32 (Fin (0))), (24, V_f32 (Fin (0))),
   (25, V_f32 (Fin (0))), (26, V_f32 (Fin (0))), (27, V_f32 (Fin (0))), (28, V_f32 (Fin (0))), (29, V_f32 (Fin (0))),
   (30, V_f32 (Fin (0)))]"

definition sim_pss_PARAMS :: "param_entry list" where
  "sim_pss_PARAMS = [
   prm 0 ''PSSPWR'' 1 phys_boolean 0 0, prm 1 ''PSSPWR12'' 1 phys_boolean 1 1,
   prm 2 ''PSSPWR6'' 1 phys_boolean 2 1, prm 3 ''PSSPWR5'' 1 phys_boolean 3 1,
   prm 4 ''PSSPWR33'' 1 phys_boolean 4 1, prm 5 ''PSSECO'' 1 phys_boolean 5 0,
   prm 6 ''PSSCLOCK'' 8 phys_int8 6 0, prm 7 ''PSSMAXT1'' 16 phys_float32 7 80,
   prm 8 ''PSSMAXT2'' 16 phys_float32 8 80, prm 9 ''PSSMAXA'' 8 phys_float32 9 12,
   prm 10 ''PSSMAXW'' 8 phys_float32 10 290, prm 11 ''PSSMINC'' 8 phys_int8 11 5,
   prm 12 ''PSSMINV'' 8 phys_float32 12 23, prm 13 ''PSSMAXA12'' 8 phys_float32 13 3,
   prm 14 ''PSSMAXA6'' 8 phys_float32 14 35, prm 15 ''PSSMAXA5'' 8 phys_float32 15 6,
   prm 16 ''PSSMAXA33'' 8 phys_float32 16 (33 / 2), prm 17 ''PSST1'' 16 phys_float32 17 0,
   prm 18 ''PSST2'' 16 phys_float32 18 0, prm 19 ''PSSA'' 8 phys_float32 19 0,
   prm 20 ''PSSW'' 8 phys_float32 20 0, prm 21 ''PSSV'' 8 phys_float32 21 0,
   prm 22 ''PSSC'' 8 phys_int8 22 0, prm 23 ''PSSA12'' 8 phys_float32 23 0,
   prm 24 ''PSSV12'' 8 phys_float32 24 0, prm 25 ''PSSA6'' 8 phys_float32 25 0,
   prm 26 ''PSSV6'' 8 phys_float32 26 0, prm 27 ''PSSA5'' 8 phys_float32 27 0,
   prm 28 ''PSSV5'' 8 phys_float32 28 0, prm 29 ''PSSA33'' 8 phys_float32 29 0,
   prm 30 ''PSSV33'' 8 phys_float32 30 0]"

definition sim_pss_LOCAL_PARAMS :: "param_entry list" where
  "sim_pss_LOCAL_PARAMS = []"

definition sim_pss_ISIM_PARAMS :: "param_entry list" where
  "sim_pss_ISIM_PARAMS = [
   prm 0 ''PSSPWR'' 1 phys_boolean 0 0, prm 1 ''PSSPWR12'' 1 phys_boolean 1 1,
   prm 2 ''PSSPWR6'' 1 phys_boolean 2 1, prm 3 ''PSSPWR5'' 1 phys_boolean 3 1,
   prm 4 ''PSSPWR33'' 1 phys_boolean 4 1, prm 5 ''PSSECO'' 1 phys_boolean 5 0,
   prm 6 ''PSSCLOCK'' 8 phys_int8 6 0, prm 7 ''PSSMAXT1'' 16 phys_float32 7 80,
   prm 8 ''PSSMAXT2'' 16 phys_float32 8 80, prm 9 ''PSSMAXA'' 8 phys_float32 9 12,
   prm 10 ''PSSMAXW'' 8 phys_float32 10 290, prm 11 ''PSSMINC'' 8 phys_int8 11 5,
   prm 12 ''PSSMINV'' 8 phys_float32 12 23, prm 13 ''PSSMAXA12'' 8 phys_float32 13 3,
   prm 14 ''PSSMAXA6'' 8 phys_float32 14 35, prm 15 ''PSSMAXA5'' 8 phys_float32 15 6,
   prm 16 ''PSSMAXA33'' 8 phys_float32 16 (33 / 2), prm 17 ''PSST1'' 16 phys_float32 17 0,
   prm 18 ''PSST2'' 16 phys_float32 18 0, prm 19 ''PSSA'' 8 phys_float32 19 0,
   prm 20 ''PSSW'' 8 phys_float32 20 0, prm 21 ''PSSV'' 8 phys_float32 21 0,
   prm 22 ''PSSC'' 8 phys_int8 22 0, prm 23 ''PSSA12'' 8 phys_float32 23 0,
   prm 24 ''PSSV12'' 8 phys_float32 24 0, prm 25 ''PSSA6'' 8 phys_float32 25 0,
   prm 26 ''PSSV6'' 8 phys_float32 26 0, prm 27 ''PSSA5'' 8 phys_float32 27 0,
   prm 28 ''PSSV5'' 8 phys_float32 28 0, prm 29 ''PSSA33'' 8 phys_float32 29 0,
   prm 30 ''PSSV33'' 8 phys_float32 30 0]"

definition sim_pss_init_defaults :: "mem \<Rightarrow> mem option" where
  "sim_pss_init_defaults m =
     (case init_params sim_pss_PARAMS m of None \<Rightarrow> None | Some m1 \<Rightarrow> init_params sim_pss_LOCAL_PARAMS m1)"

subsection \<open>TCS\<close>

definition sim_tcs_k_param_count :: nat where "sim_tcs_k_param_count = 8"
definition sim_tcs_k_local_param_count :: nat where "sim_tcs_k_local_param_count = 0"
definition sim_tcs_k_isim_param_count :: nat where "sim_tcs_k_isim_param_count = 8"

definition sim_tcs_vars :: "(nat \<times> value_t) list" where
  "sim_tcs_vars = [
   (31, V_u8 0), (32, V_u8 0), (33, V_u8 0), (34, V_u8 0), (35, V_u8 0),
   (36, V_s8 0), (37, V_s16 0), (38, V_f32 (Fin (0)))]"

definition sim_tcs_PARAMS :: "param_entry list" where
  "sim_tcs_PARAMS = [
   prm 31 ''TCSPWR'' 1 phys_boolean 31 0, prm 32 ''TCSPSS'' 1 phys_boolean 32 0,
   prm 33 ''TCSTMS'' 1 phys_boolean 33 0, prm 34 ''TCSMNS'' 1 phys_boolean 34 0,
   prm 35 ''TCSLS'' 1 phys_boolean 35 0, prm 36 ''TCSCLOCK'' 8 phys_int8 36 0,
   prm 37 ''TCSFRQ'' 16 phys_int16 37 0, prm 38 ''TCST'' 16 phys_float32 38 0]"

definition sim_tcs_LOCAL_PARAMS :: "param_entry list" where
  "sim_tcs_LOCAL_PARAMS = []"

definition sim_tcs_ISIM_PARAMS :: "param_entry list" where
  "sim_tcs_ISIM_PARAMS = [
   prm 31 ''TCSPWR'' 1 phys_boolean 31 0, prm 32 ''TCSPSS'' 1 phys_boolean 32 0,
   prm 33 ''TCSTMS'' 1 phys_boolean 33 0, prm 34 ''TCSMNS'' 1 phys_boolean 34 0,
   prm 35 ''TCSLS'' 1 phys_boolean 35 0, prm 36 ''TCSCLOCK'' 8 phys_int8 36 0,
   prm 37 ''TCSFRQ'' 16 phys_int16 37 0, prm 38 ''TCST'' 16 phys_float32 38 0]"

definition sim_tcs_init_defaults :: "mem \<Rightarrow> mem option" where
  "sim_tcs_init_defaults m =
     (case init_params sim_tcs_PARAMS m of None \<Rightarrow> None | Some m1 \<Rightarrow> init_params sim_tcs_LOCAL_PARAMS m1)"

subsection \<open>TMS\<close>

definition sim_tms_k_param_count :: nat where "sim_tms_k_param_count = 7"
definition sim_tms_k_local_param_count :: nat where "sim_tms_k_local_param_count = 0"
definition sim_tms_k_isim_param_count :: nat where "sim_tms_k_isim_param_count = 7"

definition sim_tms_vars :: "(nat \<times> value_t) list" where
  "sim_tms_vars = [
   (39, V_u8 0), (40, V_s8 0), (41, V_s8 0), (42, V_s8 0), (43, V_s8 0),
   (44, V_s8 0), (45, V_f32 (Fin (0)))]"

definition sim_tms_PARAMS :: "param_entry list" where
  "sim_tms_PARAMS = [
   prm 39 ''TMSPWR'' 1 phys_boolean 39 0, prm 40 ''TMSCLOCK'' 8 phys_int8 40 0,
   prm 41 ''TMSPWRFAN1'' 8 phys_int8 41 0, prm 42 ''TMSPWRFAN2'' 8 phys_int8 42 0,
   prm 43 ''TMSPWRFAN3'' 8 phys_int8 43 0, prm 44 ''TMSPWRFAN4'' 8 phys_int8 44 0,
   prm 45 ''TMST'' 16 phys_float32 45 0]"

definition sim_tms_LOCAL_PARAMS :: "param_entry list" where
  "sim_tms_LOCAL_PARAMS = []"

definition sim_tms_ISIM_PARAMS :: "param_entry list" where
  "sim_tms_ISIM_PARAMS = [
   prm 39 ''TMSPWR'' 1 phys_boolean 39 0, prm 40 ''TMSCLOCK'' 8 phys_int8 40 0,
   prm 41 ''TMSPWRFAN1'' 8 phys_int8 41 0, prm 42 ''TMSPWRFAN2'' 8 phys_int8 42 0,
   prm 43 ''TMSPWRFAN3'' 8 phys_int8 43 0, prm 44 ''TMSPWRFAN4'' 8 phys_int8 44 0,
   prm 45 ''TMST'' 16 phys_float32 45 0]"

definition sim_tms_init_defaults :: "mem \<Rightarrow> mem option" where
  "sim_tms_init_defaults m =
     (case init_params sim_tms_PARAMS m of None \<Rightarrow> None | Some m1 \<Rightarrow> init_params sim_tms_LOCAL_PARAMS m1)"

subsection \<open>MNS\<close>

definition sim_mns_k_param_count :: nat where "sim_mns_k_param_count = 3"
definition sim_mns_k_local_param_count :: nat where "sim_mns_k_local_param_count = 176"
definition sim_mns_k_isim_param_count :: nat where "sim_mns_k_isim_param_count = 179"

definition sim_mns_vars :: "(nat \<times> value_t) list" where
  "sim_mns_vars = [
   (46, V_u8 0), (47, V_s8 0), (48, V_f32 (Fin (0))), (32771, V_f32 (Fin (0))), (32772, V_f32 (Fin (0))),
   (32773, V_f32 (Fin (0))), (32774, V_s8 0), (32775, V_f32 (Fin (0))), (32776, V_f32 (Fin (0))), (32777, V_f32 (Fin (0))),
   (32778, V_f32 (Fin (0))), (32779, V_s8 0), (32780, V_f32 (Fin (0))), (32781, V_f32 (Fin (0))), (32782, V_f32 (Fin (0))),
   (32783, V_f32 (Fin (0))), (32784, V_f32 (Fin (0))), (32785, V_s8 0), (32786, V_f32 (Fin (0))), (32787, V_f32 (Fin (0))),
   (32788, V_f32 (Fin (0))), (32789, V_f32 (Fin (0))), (32790, V_f32 (Fin (0))), (32791, V_s8 0), (32792, V_f32 (Fin (0))),
   (32793, V_f32 (Fin (0))), (32794, V_f32 (Fin (0))), (32795, V_f32 (Fin (0))), (32796, V_s8 0), (32797, V_f32 (Fin (0))),
   (32798, V_f32 (Fin (0))), (32799, V_f32 (Fin (0))), (32800, V_f32 (Fin (0))), (32801, V_s8 0), (32802, V_f32 (Fin (0))),
   (32803, V_f32 (Fin (0))), (32804, V_f32 (Fin (0))), (32805, V_f32 (Fin (0))), (32806, V_f32 (Fin (0))), (32807, V_s8 0),
   (32808, V_f32 (Fin (0))), (32809, V_f32 (Fin (0))), (32810, V_f32 (Fin (0))), (32811, V_f32 (Fin (0))), (32812, V_f32 (Fin (0))),
   (32813, V_s8 0), (32814, V_f32 (Fin (0))), (32815, V_f32 (Fin (0))), (32816, V_f32 (Fin (0))), (32817, V_f32 (Fin (0))),
   (32818, V_s8 0), (32819, V_f32 (Fin (0))), (32820, V_f32 (Fin (0))), (32821, V_f32 (Fin (0))), (32822, V_f32 (Fin (0))),
   (32823, V_s8 0), (32824, V_f32 (Fin (0))), (32825, V_f32 (Fin (0))), (32826, V_f32 (Fin (0))), (32827, V_f32 (Fin (0))),
   (32828, V_f32 (Fin (0))), (32829, V_s8 0), (32830, V_f32 (Fin (0))), (32831, V_f32 (Fin (0))), (32832, V_f32 (Fin (0))),
   (32833, V_f32 (Fin (0))), (32834, V_f32 (Fin (0))), (32835, V_s8 0), (32836, V_f32 (Fin (0))), (32837, V_f32 (Fin (0))),
   (32838, V_f32 (Fin (0))), (32839, V_f32 (Fin (0))), (32840, V_s8 0), (32841, V_f32 (Fin (0))), (32842, V_f32 (Fin (0))),
   (32843, V_f32 (Fin (0))), (32844, V_f32 (Fin (0))), (32845, V_s8 0), (32846, V_f32 (Fin (0))), (32847, V_f32 (Fin (0))),
   (32848, V_f32 (Fin (0))), (32849, V_f32 (Fin (0))), (32850, V_f32 (Fin (0))), (32851, V_s8 0), (32852, V_f32 (Fin (0))),
   (32853, V_f32 (Fin (0))), (32854, V_f32 (Fin (0))), (32855, V_f32 (Fin (0))), (32856, V_f32 (Fin (0))), (32857, V_s8 0),
   (32858, V_f32 (Fin (0))), (32859, V_f32 (Fin (0))), (32860, V_f32 (Fin (0))), (32861, V_f32 (Fin (0))), (32862, V_s8 0),
   (32863, V_f32 (Fin (0))), (32864, V_f32 (Fin (0))), (32865, V_f32 (Fin (0))), (32866, V_f32 (Fin (0))), (32867, V_s8 0),
   (32868, V_f32 (Fin (0))), (32869, V_f32 (Fin (0))), (32870, V_f32 (Fin (0))), (32871, V_f32 (Fin (0))), (32872, V_f32 (Fin (0))),
   (32873, V_s8 0), (32874, V_f32 (Fin (0))), (32875, V_f32 (Fin (0))), (32876, V_f32 (Fin (0))), (32877, V_f32 (Fin (0))),
   (32878, V_f32 (Fin (0))), (32879, V_s8 0), (32880, V_f32 (Fin (0))), (32881, V_f32 (Fin (0))), (32882, V_f32 (Fin (0))),
   (32883, V_f32 (Fin (0))), (32884, V_s8 0), (32885, V_f32 (Fin (0))), (32886, V_f32 (Fin (0))), (32887, V_f32 (Fin (0))),
   (32888, V_f32 (Fin (0))), (32889, V_s8 0), (32890, V_f32 (Fin (0))), (32891, V_f32 (Fin (0))), (32892, V_f32 (Fin (0))),
   (32893, V_f32 (Fin (0))), (32894, V_f32 (Fin (0))), (32895, V_s8 0), (32896, V_f32 (Fin (0))), (32897, V_f32 (Fin (0))),
   (32898, V_f32 (Fin (0))), (32899, V_f32 (Fin (0))), (32900, V_f32 (Fin (0))), (32901, V_s8 0), (32902, V_f32 (Fin (0))),
   (32903, V_f32 (Fin (0))), (32904, V_f32 (Fin (0))), (32905, V_f32 (Fin (0))), (32906, V_s8 0), (32907, V_f32 (Fin (0))),
   (32908, V_f32 (Fin (0))), (32909, V_f32 (Fin (0))), (32910, V_f32 (Fin (0))), (32911, V_s8 0), (32912, V_f32 (Fin (0))),
   (32913, V_f32 (Fin (0))), (32914, V_f32 (Fin (0))), (32915, V_f32 (Fin (0))), (32916, V_f32 (Fin (0))), (32917, V_s8 0),
   (32918, V_f32 (Fin (0))), (32919, V_f32 (Fin (0))), (32920, V_f32 (Fin (0))), (32921, V_f32 (Fin (0))), (32922, V_f32 (Fin (0))),
   (32923, V_s8 0), (32924, V_f32 (Fin (0))), (32925, V_f32 (Fin (0))), (32926, V_f32 (Fin (0))), (32927, V_f32 (Fin (0))),
   (32928, V_s8 0), (32929, V_f32 (Fin (0))), (32930, V_f32 (Fin (0))), (32931, V_f32 (Fin (0))), (32932, V_f32 (Fin (0))),
   (32933, V_s8 0), (32934, V_f32 (Fin (0))), (32935, V_f32 (Fin (0))), (32936, V_f32 (Fin (0))), (32937, V_f32 (Fin (0))),
   (32938, V_f32 (Fin (0))), (32939, V_s8 0), (32940, V_f32 (Fin (0))), (32941, V_f32 (Fin (0))), (32942, V_f32 (Fin (0))),
   (32943, V_f32 (Fin (0))), (32944, V_f32 (Fin (0))), (32945, V_s8 0), (32946, V_f32 (Fin (0)))]"

definition sim_mns_PARAMS :: "param_entry list" where
  "sim_mns_PARAMS = [
   prm 46 ''MNSPWR'' 1 phys_boolean 46 0, prm 47 ''MNSCLOCK'' 8 phys_int8 47 0,
   prm 48 ''MNST'' 16 phys_float32 48 0]"

definition sim_mns_LOCAL_PARAMS :: "param_entry list" where
  "sim_mns_LOCAL_PARAMS = [
   prm 32771 ''LMNSL1X'' 16 phys_float32 32771 0, prm 32772 ''LMNSL1Y'' 16 phys_float32 32772 0,
   prm 32773 ''LMNSL1Z'' 16 phys_float32 32773 0, prm 32774 ''LMNSL1ST'' 8 phys_int8 32774 0,
   prm 32775 ''LMNSL11X'' 16 phys_float32 32775 0, prm 32776 ''LMNSL11Y'' 16 phys_float32 32776 0,
   prm 32777 ''LMNSL11Z'' 16 phys_float32 32777 0, prm 32778 ''LMNSL11Q'' 16 phys_float32 32778 0,
   prm 32779 ''LMNSL11L'' 8 phys_int8 32779 0, prm 32780 ''LMNSL11A'' 16 phys_float32 32780 0,
   prm 32781 ''LMNSL12X'' 16 phys_float32 32781 0, prm 32782 ''LMNSL12Y'' 16 phys_float32 32782 0,
   prm 32783 ''LMNSL12Z'' 16 phys_float32 32783 0, prm 32784 ''LMNSL12Q'' 16 phys_float32 32784 0,
   prm 32785 ''LMNSL12L'' 8 phys_int8 32785 0, prm 32786 ''LMNSL12A'' 16 phys_float32 32786 0,
   prm 32787 ''LMNSL13X'' 16 phys_float32 32787 0, prm 32788 ''LMNSL13Y'' 16 phys_float32 32788 0,
   prm 32789 ''LMNSL13Z'' 16 phys_float32 32789 0, prm 32790 ''LMNSL13Q'' 16 phys_float32 32790 0,
   prm 32791 ''LMNSL13L'' 8 phys_int8 32791 0, prm 32792 ''LMNSL13A'' 16 phys_float32 32792 0,
   prm 32793 ''LMNSL2X'' 16 phys_float32 32793 0, prm 32794 ''LMNSL2Y'' 16 phys_float32 32794 0,
   prm 32795 ''LMNSL2Z'' 16 phys_float32 32795 0, prm 32796 ''LMNSL2ST'' 8 phys_int8 32796 0,
   prm 32797 ''LMNSL21X'' 16 phys_float32 32797 0, prm 32798 ''LMNSL21Y'' 16 phys_float32 32798 0,
   prm 32799 ''LMNSL21Z'' 16 phys_float32 32799 0, prm 32800 ''LMNSL21Q'' 16 phys_float32 32800 0,
   prm 32801 ''LMNSL21L'' 8 phys_int8 32801 0, prm 32802 ''LMNSL21A'' 16 phys_float32 32802 0,
   prm 32803 ''LMNSL22X'' 16 phys_float32 32803 0, prm 32804 ''LMNSL22Y'' 16 phys_float32 32804 0,
   prm 32805 ''LMNSL22Z'' 16 phys_float32 32805 0, prm 32806 ''LMNSL22Q'' 16 phys_float32 32806 0,
   prm 32807 ''LMNSL22L'' 8 phys_int8 32807 0, prm 32808 ''LMNSL22A'' 16 phys_float32 32808 0,
   prm 32809 ''LMNSL23X'' 16 phys_float32 32809 0, prm 32810 ''LMNSL23Y'' 16 phys_float32 32810 0,
   prm 32811 ''LMNSL23Z'' 16 phys_float32 32811 0, prm 32812 ''LMNSL23Q'' 16 phys_float32 32812 0,
   prm 32813 ''LMNSL23L'' 8 phys_int8 32813 0, prm 32814 ''LMNSL23A'' 16 phys_float32 32814 0,
   prm 32815 ''LMNSL3X'' 16 phys_float32 32815 0, prm 32816 ''LMNSL3Y'' 16 phys_float32 32816 0,
   prm 32817 ''LMNSL3Z'' 16 phys_float32 32817 0, prm 32818 ''LMNSL3ST'' 8 phys_int8 32818 0,
   prm 32819 ''LMNSL31X'' 16 phys_float32 32819 0, prm 32820 ''LMNSL31Y'' 16 phys_float32 32820 0,
   prm 32821 ''LMNSL31Z'' 16 phys_float32 32821 0, prm 32822 ''LMNSL31Q'' 16 phys_float32 32822 0,
   prm 32823 ''LMNSL31L'' 8 phys_int8 32823 0, prm 32824 ''LMNSL31A'' 16 phys_float32 32824 0,
   prm 32825 ''LMNSL32X'' 16 phys_float32 32825 0, prm 32826 ''LMNSL32Y'' 16 phys_float32 32826 0,
   prm 32827 ''LMNSL32Z'' 16 phys_float32 32827 0, prm 32828 ''LMNSL32Q'' 16 phys_float32 32828 0,
   prm 32829 ''LMNSL32L'' 8 phys_int8 32829 0, prm 32830 ''LMNSL32A'' 16 phys_float32 32830 0,
   prm 32831 ''LMNSL33X'' 16 phys_float32 32831 0, prm 32832 ''LMNSL33Y'' 16 phys_float32 32832 0,
   prm 32833 ''LMNSL33Z'' 16 phys_float32 32833 0, prm 32834 ''LMNSL33Q'' 16 phys_float32 32834 0,
   prm 32835 ''LMNSL33L'' 8 phys_int8 32835 0, prm 32836 ''LMNSL33A'' 16 phys_float32 32836 0,
   prm 32837 ''LMNSL4X'' 16 phys_float32 32837 0, prm 32838 ''LMNSL4Y'' 16 phys_float32 32838 0,
   prm 32839 ''LMNSL4Z'' 16 phys_float32 32839 0, prm 32840 ''LMNSL4ST'' 8 phys_int8 32840 0,
   prm 32841 ''LMNSL41X'' 16 phys_float32 32841 0, prm 32842 ''LMNSL41Y'' 16 phys_float32 32842 0,
   prm 32843 ''LMNSL41Z'' 16 phys_float32 32843 0, prm 32844 ''LMNSL41Q'' 16 phys_float32 32844 0,
   prm 32845 ''LMNSL41L'' 8 phys_int8 32845 0, prm 32846 ''LMNSL41A'' 16 phys_float32 32846 0,
   prm 32847 ''LMNSL42X'' 16 phys_float32 32847 0, prm 32848 ''LMNSL42Y'' 16 phys_float32 32848 0,
   prm 32849 ''LMNSL42Z'' 16 phys_float32 32849 0, prm 32850 ''LMNSL42Q'' 16 phys_float32 32850 0,
   prm 32851 ''LMNSL42L'' 8 phys_int8 32851 0, prm 32852 ''LMNSL42A'' 16 phys_float32 32852 0,
   prm 32853 ''LMNSL43X'' 16 phys_float32 32853 0, prm 32854 ''LMNSL43Y'' 16 phys_float32 32854 0,
   prm 32855 ''LMNSL43Z'' 16 phys_float32 32855 0, prm 32856 ''LMNSL43Q'' 16 phys_float32 32856 0,
   prm 32857 ''LMNSL43L'' 8 phys_int8 32857 0, prm 32858 ''LMNSL43A'' 16 phys_float32 32858 0,
   prm 32859 ''LMNSR1X'' 16 phys_float32 32859 0, prm 32860 ''LMNSR1Y'' 16 phys_float32 32860 0,
   prm 32861 ''LMNSR1Z'' 16 phys_float32 32861 0, prm 32862 ''LMNSR1ST'' 8 phys_int8 32862 0,
   prm 32863 ''LMNSR11X'' 16 phys_float32 32863 0, prm 32864 ''LMNSR11Y'' 16 phys_float32 32864 0,
   prm 32865 ''LMNSR11Z'' 16 phys_float32 32865 0, prm 32866 ''LMNSR11Q'' 16 phys_float32 32866 0,
   prm 32867 ''LMNSR11L'' 8 phys_int8 32867 0, prm 32868 ''LMNSR11A'' 16 phys_float32 32868 0,
   prm 32869 ''LMNSR12X'' 16 phys_float32 32869 0, prm 32870 ''LMNSR12Y'' 16 phys_float32 32870 0,
   prm 32871 ''LMNSR12Z'' 16 phys_float32 32871 0, prm 32872 ''LMNSR12Q'' 16 phys_float32 32872 0,
   prm 32873 ''LMNSR12L'' 8 phys_int8 32873 0, prm 32874 ''LMNSR12A'' 16 phys_float32 32874 0,
   prm 32875 ''LMNSR13X'' 16 phys_float32 32875 0, prm 32876 ''LMNSR13Y'' 16 phys_float32 32876 0,
   prm 32877 ''LMNSR13Z'' 16 phys_float32 32877 0, prm 32878 ''LMNSR13Q'' 16 phys_float32 32878 0,
   prm 32879 ''LMNSR13L'' 8 phys_int8 32879 0, prm 32880 ''LMNSR13A'' 16 phys_float32 32880 0,
   prm 32881 ''LMNSR2X'' 16 phys_float32 32881 0, prm 32882 ''LMNSR2Y'' 16 phys_float32 32882 0,
   prm 32883 ''LMNSR2Z'' 16 phys_float32 32883 0, prm 32884 ''LMNSR2ST'' 8 phys_int8 32884 0,
   prm 32885 ''LMNSR21X'' 16 phys_float32 32885 0, prm 32886 ''LMNSR21Y'' 16 phys_float32 32886 0,
   prm 32887 ''LMNSR21Z'' 16 phys_float32 32887 0, prm 32888 ''LMNSR21Q'' 16 phys_float32 32888 0,
   prm 32889 ''LMNSR21L'' 8 phys_int8 32889 0, prm 32890 ''LMNSR21A'' 16 phys_float32 32890 0,
   prm 32891 ''LMNSR22X'' 16 phys_float32 32891 0, prm 32892 ''LMNSR22Y'' 16 phys_float32 32892 0,
   prm 32893 ''LMNSR22Z'' 16 phys_float32 32893 0, prm 32894 ''LMNSR22Q'' 16 phys_float32 32894 0,
   prm 32895 ''LMNSR22L'' 8 phys_int8 32895 0, prm 32896 ''LMNSR22A'' 16 phys_float32 32896 0,
   prm 32897 ''LMNSR23X'' 16 phys_float32 32897 0, prm 32898 ''LMNSR23Y'' 16 phys_float32 32898 0,
   prm 32899 ''LMNSR23Z'' 16 phys_float32 32899 0, prm 32900 ''LMNSR23Q'' 16 phys_float32 32900 0,
   prm 32901 ''LMNSR23L'' 8 phys_int8 32901 0, prm 32902 ''LMNSR23A'' 16 phys_float32 32902 0,
   prm 32903 ''LMNSR3X'' 16 phys_float32 32903 0, prm 32904 ''LMNSR3Y'' 16 phys_float32 32904 0,
   prm 32905 ''LMNSR3Z'' 16 phys_float32 32905 0, prm 32906 ''LMNSR3ST'' 8 phys_int8 32906 0,
   prm 32907 ''LMNSR31X'' 16 phys_float32 32907 0, prm 32908 ''LMNSR31Y'' 16 phys_float32 32908 0,
   prm 32909 ''LMNSR31Z'' 16 phys_float32 32909 0, prm 32910 ''LMNSR31Q'' 16 phys_float32 32910 0,
   prm 32911 ''LMNSR31L'' 8 phys_int8 32911 0, prm 32912 ''LMNSR31A'' 16 phys_float32 32912 0,
   prm 32913 ''LMNSR32X'' 16 phys_float32 32913 0, prm 32914 ''LMNSR32Y'' 16 phys_float32 32914 0,
   prm 32915 ''LMNSR32Z'' 16 phys_float32 32915 0, prm 32916 ''LMNSR32Q'' 16 phys_float32 32916 0,
   prm 32917 ''LMNSR32L'' 8 phys_int8 32917 0, prm 32918 ''LMNSR32A'' 16 phys_float32 32918 0,
   prm 32919 ''LMNSR33X'' 16 phys_float32 32919 0, prm 32920 ''LMNSR33Y'' 16 phys_float32 32920 0,
   prm 32921 ''LMNSR33Z'' 16 phys_float32 32921 0, prm 32922 ''LMNSR33Q'' 16 phys_float32 32922 0,
   prm 32923 ''LMNSR33L'' 8 phys_int8 32923 0, prm 32924 ''LMNSR33A'' 16 phys_float32 32924 0,
   prm 32925 ''LMNSR4X'' 16 phys_float32 32925 0, prm 32926 ''LMNSR4Y'' 16 phys_float32 32926 0,
   prm 32927 ''LMNSR4Z'' 16 phys_float32 32927 0, prm 32928 ''LMNSR4ST'' 8 phys_int8 32928 0,
   prm 32929 ''LMNSR41X'' 16 phys_float32 32929 0, prm 32930 ''LMNSR41Y'' 16 phys_float32 32930 0,
   prm 32931 ''LMNSR41Z'' 16 phys_float32 32931 0, prm 32932 ''LMNSR41Q'' 16 phys_float32 32932 0,
   prm 32933 ''LMNSR41L'' 8 phys_int8 32933 0, prm 32934 ''LMNSR41A'' 16 phys_float32 32934 0,
   prm 32935 ''LMNSR42X'' 16 phys_float32 32935 0, prm 32936 ''LMNSR42Y'' 16 phys_float32 32936 0,
   prm 32937 ''LMNSR42Z'' 16 phys_float32 32937 0, prm 32938 ''LMNSR42Q'' 16 phys_float32 32938 0,
   prm 32939 ''LMNSR42L'' 8 phys_int8 32939 0, prm 32940 ''LMNSR42A'' 16 phys_float32 32940 0,
   prm 32941 ''LMNSR43X'' 16 phys_float32 32941 0, prm 32942 ''LMNSR43Y'' 16 phys_float32 32942 0,
   prm 32943 ''LMNSR43Z'' 16 phys_float32 32943 0, prm 32944 ''LMNSR43Q'' 16 phys_float32 32944 0,
   prm 32945 ''LMNSR43L'' 8 phys_int8 32945 0, prm 32946 ''LMNSR43A'' 16 phys_float32 32946 0]"

definition sim_mns_ISIM_PARAMS :: "param_entry list" where
  "sim_mns_ISIM_PARAMS = [
   prm 46 ''MNSPWR'' 1 phys_boolean 46 0, prm 47 ''MNSCLOCK'' 8 phys_int8 47 0,
   prm 48 ''MNST'' 16 phys_float32 48 0, prm 32771 ''LMNSL1X'' 16 phys_float32 32771 0,
   prm 32772 ''LMNSL1Y'' 16 phys_float32 32772 0, prm 32773 ''LMNSL1Z'' 16 phys_float32 32773 0,
   prm 32774 ''LMNSL1ST'' 8 phys_int8 32774 0, prm 32775 ''LMNSL11X'' 16 phys_float32 32775 0,
   prm 32776 ''LMNSL11Y'' 16 phys_float32 32776 0, prm 32777 ''LMNSL11Z'' 16 phys_float32 32777 0,
   prm 32778 ''LMNSL11Q'' 16 phys_float32 32778 0, prm 32779 ''LMNSL11L'' 8 phys_int8 32779 0,
   prm 32780 ''LMNSL11A'' 16 phys_float32 32780 0, prm 32781 ''LMNSL12X'' 16 phys_float32 32781 0,
   prm 32782 ''LMNSL12Y'' 16 phys_float32 32782 0, prm 32783 ''LMNSL12Z'' 16 phys_float32 32783 0,
   prm 32784 ''LMNSL12Q'' 16 phys_float32 32784 0, prm 32785 ''LMNSL12L'' 8 phys_int8 32785 0,
   prm 32786 ''LMNSL12A'' 16 phys_float32 32786 0, prm 32787 ''LMNSL13X'' 16 phys_float32 32787 0,
   prm 32788 ''LMNSL13Y'' 16 phys_float32 32788 0, prm 32789 ''LMNSL13Z'' 16 phys_float32 32789 0,
   prm 32790 ''LMNSL13Q'' 16 phys_float32 32790 0, prm 32791 ''LMNSL13L'' 8 phys_int8 32791 0,
   prm 32792 ''LMNSL13A'' 16 phys_float32 32792 0, prm 32793 ''LMNSL2X'' 16 phys_float32 32793 0,
   prm 32794 ''LMNSL2Y'' 16 phys_float32 32794 0, prm 32795 ''LMNSL2Z'' 16 phys_float32 32795 0,
   prm 32796 ''LMNSL2ST'' 8 phys_int8 32796 0, prm 32797 ''LMNSL21X'' 16 phys_float32 32797 0,
   prm 32798 ''LMNSL21Y'' 16 phys_float32 32798 0, prm 32799 ''LMNSL21Z'' 16 phys_float32 32799 0,
   prm 32800 ''LMNSL21Q'' 16 phys_float32 32800 0, prm 32801 ''LMNSL21L'' 8 phys_int8 32801 0,
   prm 32802 ''LMNSL21A'' 16 phys_float32 32802 0, prm 32803 ''LMNSL22X'' 16 phys_float32 32803 0,
   prm 32804 ''LMNSL22Y'' 16 phys_float32 32804 0, prm 32805 ''LMNSL22Z'' 16 phys_float32 32805 0,
   prm 32806 ''LMNSL22Q'' 16 phys_float32 32806 0, prm 32807 ''LMNSL22L'' 8 phys_int8 32807 0,
   prm 32808 ''LMNSL22A'' 16 phys_float32 32808 0, prm 32809 ''LMNSL23X'' 16 phys_float32 32809 0,
   prm 32810 ''LMNSL23Y'' 16 phys_float32 32810 0, prm 32811 ''LMNSL23Z'' 16 phys_float32 32811 0,
   prm 32812 ''LMNSL23Q'' 16 phys_float32 32812 0, prm 32813 ''LMNSL23L'' 8 phys_int8 32813 0,
   prm 32814 ''LMNSL23A'' 16 phys_float32 32814 0, prm 32815 ''LMNSL3X'' 16 phys_float32 32815 0,
   prm 32816 ''LMNSL3Y'' 16 phys_float32 32816 0, prm 32817 ''LMNSL3Z'' 16 phys_float32 32817 0,
   prm 32818 ''LMNSL3ST'' 8 phys_int8 32818 0, prm 32819 ''LMNSL31X'' 16 phys_float32 32819 0,
   prm 32820 ''LMNSL31Y'' 16 phys_float32 32820 0, prm 32821 ''LMNSL31Z'' 16 phys_float32 32821 0,
   prm 32822 ''LMNSL31Q'' 16 phys_float32 32822 0, prm 32823 ''LMNSL31L'' 8 phys_int8 32823 0,
   prm 32824 ''LMNSL31A'' 16 phys_float32 32824 0, prm 32825 ''LMNSL32X'' 16 phys_float32 32825 0,
   prm 32826 ''LMNSL32Y'' 16 phys_float32 32826 0, prm 32827 ''LMNSL32Z'' 16 phys_float32 32827 0,
   prm 32828 ''LMNSL32Q'' 16 phys_float32 32828 0, prm 32829 ''LMNSL32L'' 8 phys_int8 32829 0,
   prm 32830 ''LMNSL32A'' 16 phys_float32 32830 0, prm 32831 ''LMNSL33X'' 16 phys_float32 32831 0,
   prm 32832 ''LMNSL33Y'' 16 phys_float32 32832 0, prm 32833 ''LMNSL33Z'' 16 phys_float32 32833 0,
   prm 32834 ''LMNSL33Q'' 16 phys_float32 32834 0, prm 32835 ''LMNSL33L'' 8 phys_int8 32835 0,
   prm 32836 ''LMNSL33A'' 16 phys_float32 32836 0, prm 32837 ''LMNSL4X'' 16 phys_float32 32837 0,
   prm 32838 ''LMNSL4Y'' 16 phys_float32 32838 0, prm 32839 ''LMNSL4Z'' 16 phys_float32 32839 0,
   prm 32840 ''LMNSL4ST'' 8 phys_int8 32840 0, prm 32841 ''LMNSL41X'' 16 phys_float32 32841 0,
   prm 32842 ''LMNSL41Y'' 16 phys_float32 32842 0, prm 32843 ''LMNSL41Z'' 16 phys_float32 32843 0,
   prm 32844 ''LMNSL41Q'' 16 phys_float32 32844 0, prm 32845 ''LMNSL41L'' 8 phys_int8 32845 0,
   prm 32846 ''LMNSL41A'' 16 phys_float32 32846 0, prm 32847 ''LMNSL42X'' 16 phys_float32 32847 0,
   prm 32848 ''LMNSL42Y'' 16 phys_float32 32848 0, prm 32849 ''LMNSL42Z'' 16 phys_float32 32849 0,
   prm 32850 ''LMNSL42Q'' 16 phys_float32 32850 0, prm 32851 ''LMNSL42L'' 8 phys_int8 32851 0,
   prm 32852 ''LMNSL42A'' 16 phys_float32 32852 0, prm 32853 ''LMNSL43X'' 16 phys_float32 32853 0,
   prm 32854 ''LMNSL43Y'' 16 phys_float32 32854 0, prm 32855 ''LMNSL43Z'' 16 phys_float32 32855 0,
   prm 32856 ''LMNSL43Q'' 16 phys_float32 32856 0, prm 32857 ''LMNSL43L'' 8 phys_int8 32857 0,
   prm 32858 ''LMNSL43A'' 16 phys_float32 32858 0, prm 32859 ''LMNSR1X'' 16 phys_float32 32859 0,
   prm 32860 ''LMNSR1Y'' 16 phys_float32 32860 0, prm 32861 ''LMNSR1Z'' 16 phys_float32 32861 0,
   prm 32862 ''LMNSR1ST'' 8 phys_int8 32862 0, prm 32863 ''LMNSR11X'' 16 phys_float32 32863 0,
   prm 32864 ''LMNSR11Y'' 16 phys_float32 32864 0, prm 32865 ''LMNSR11Z'' 16 phys_float32 32865 0,
   prm 32866 ''LMNSR11Q'' 16 phys_float32 32866 0, prm 32867 ''LMNSR11L'' 8 phys_int8 32867 0,
   prm 32868 ''LMNSR11A'' 16 phys_float32 32868 0, prm 32869 ''LMNSR12X'' 16 phys_float32 32869 0,
   prm 32870 ''LMNSR12Y'' 16 phys_float32 32870 0, prm 32871 ''LMNSR12Z'' 16 phys_float32 32871 0,
   prm 32872 ''LMNSR12Q'' 16 phys_float32 32872 0, prm 32873 ''LMNSR12L'' 8 phys_int8 32873 0,
   prm 32874 ''LMNSR12A'' 16 phys_float32 32874 0, prm 32875 ''LMNSR13X'' 16 phys_float32 32875 0,
   prm 32876 ''LMNSR13Y'' 16 phys_float32 32876 0, prm 32877 ''LMNSR13Z'' 16 phys_float32 32877 0,
   prm 32878 ''LMNSR13Q'' 16 phys_float32 32878 0, prm 32879 ''LMNSR13L'' 8 phys_int8 32879 0,
   prm 32880 ''LMNSR13A'' 16 phys_float32 32880 0, prm 32881 ''LMNSR2X'' 16 phys_float32 32881 0,
   prm 32882 ''LMNSR2Y'' 16 phys_float32 32882 0, prm 32883 ''LMNSR2Z'' 16 phys_float32 32883 0,
   prm 32884 ''LMNSR2ST'' 8 phys_int8 32884 0, prm 32885 ''LMNSR21X'' 16 phys_float32 32885 0,
   prm 32886 ''LMNSR21Y'' 16 phys_float32 32886 0, prm 32887 ''LMNSR21Z'' 16 phys_float32 32887 0,
   prm 32888 ''LMNSR21Q'' 16 phys_float32 32888 0, prm 32889 ''LMNSR21L'' 8 phys_int8 32889 0,
   prm 32890 ''LMNSR21A'' 16 phys_float32 32890 0, prm 32891 ''LMNSR22X'' 16 phys_float32 32891 0,
   prm 32892 ''LMNSR22Y'' 16 phys_float32 32892 0, prm 32893 ''LMNSR22Z'' 16 phys_float32 32893 0,
   prm 32894 ''LMNSR22Q'' 16 phys_float32 32894 0, prm 32895 ''LMNSR22L'' 8 phys_int8 32895 0,
   prm 32896 ''LMNSR22A'' 16 phys_float32 32896 0, prm 32897 ''LMNSR23X'' 16 phys_float32 32897 0,
   prm 32898 ''LMNSR23Y'' 16 phys_float32 32898 0, prm 32899 ''LMNSR23Z'' 16 phys_float32 32899 0,
   prm 32900 ''LMNSR23Q'' 16 phys_float32 32900 0, prm 32901 ''LMNSR23L'' 8 phys_int8 32901 0,
   prm 32902 ''LMNSR23A'' 16 phys_float32 32902 0, prm 32903 ''LMNSR3X'' 16 phys_float32 32903 0,
   prm 32904 ''LMNSR3Y'' 16 phys_float32 32904 0, prm 32905 ''LMNSR3Z'' 16 phys_float32 32905 0,
   prm 32906 ''LMNSR3ST'' 8 phys_int8 32906 0, prm 32907 ''LMNSR31X'' 16 phys_float32 32907 0,
   prm 32908 ''LMNSR31Y'' 16 phys_float32 32908 0, prm 32909 ''LMNSR31Z'' 16 phys_float32 32909 0,
   prm 32910 ''LMNSR31Q'' 16 phys_float32 32910 0, prm 32911 ''LMNSR31L'' 8 phys_int8 32911 0,
   prm 32912 ''LMNSR31A'' 16 phys_float32 32912 0, prm 32913 ''LMNSR32X'' 16 phys_float32 32913 0,
   prm 32914 ''LMNSR32Y'' 16 phys_float32 32914 0, prm 32915 ''LMNSR32Z'' 16 phys_float32 32915 0,
   prm 32916 ''LMNSR32Q'' 16 phys_float32 32916 0, prm 32917 ''LMNSR32L'' 8 phys_int8 32917 0,
   prm 32918 ''LMNSR32A'' 16 phys_float32 32918 0, prm 32919 ''LMNSR33X'' 16 phys_float32 32919 0,
   prm 32920 ''LMNSR33Y'' 16 phys_float32 32920 0, prm 32921 ''LMNSR33Z'' 16 phys_float32 32921 0,
   prm 32922 ''LMNSR33Q'' 16 phys_float32 32922 0, prm 32923 ''LMNSR33L'' 8 phys_int8 32923 0,
   prm 32924 ''LMNSR33A'' 16 phys_float32 32924 0, prm 32925 ''LMNSR4X'' 16 phys_float32 32925 0,
   prm 32926 ''LMNSR4Y'' 16 phys_float32 32926 0, prm 32927 ''LMNSR4Z'' 16 phys_float32 32927 0,
   prm 32928 ''LMNSR4ST'' 8 phys_int8 32928 0, prm 32929 ''LMNSR41X'' 16 phys_float32 32929 0,
   prm 32930 ''LMNSR41Y'' 16 phys_float32 32930 0, prm 32931 ''LMNSR41Z'' 16 phys_float32 32931 0,
   prm 32932 ''LMNSR41Q'' 16 phys_float32 32932 0, prm 32933 ''LMNSR41L'' 8 phys_int8 32933 0,
   prm 32934 ''LMNSR41A'' 16 phys_float32 32934 0, prm 32935 ''LMNSR42X'' 16 phys_float32 32935 0,
   prm 32936 ''LMNSR42Y'' 16 phys_float32 32936 0, prm 32937 ''LMNSR42Z'' 16 phys_float32 32937 0,
   prm 32938 ''LMNSR42Q'' 16 phys_float32 32938 0, prm 32939 ''LMNSR42L'' 8 phys_int8 32939 0,
   prm 32940 ''LMNSR42A'' 16 phys_float32 32940 0, prm 32941 ''LMNSR43X'' 16 phys_float32 32941 0,
   prm 32942 ''LMNSR43Y'' 16 phys_float32 32942 0, prm 32943 ''LMNSR43Z'' 16 phys_float32 32943 0,
   prm 32944 ''LMNSR43Q'' 16 phys_float32 32944 0, prm 32945 ''LMNSR43L'' 8 phys_int8 32945 0,
   prm 32946 ''LMNSR43A'' 16 phys_float32 32946 0]"

definition sim_mns_init_defaults :: "mem \<Rightarrow> mem option" where
  "sim_mns_init_defaults m =
     (case init_params sim_mns_PARAMS m of None \<Rightarrow> None | Some m1 \<Rightarrow> init_params sim_mns_LOCAL_PARAMS m1)"

subsection \<open>LS\<close>

definition sim_ls_k_param_count :: nat where "sim_ls_k_param_count = 3"
definition sim_ls_k_local_param_count :: nat where "sim_ls_k_local_param_count = 0"
definition sim_ls_k_isim_param_count :: nat where "sim_ls_k_isim_param_count = 3"

definition sim_ls_vars :: "(nat \<times> value_t) list" where
  "sim_ls_vars = [
   (49, V_u8 0), (50, V_s8 0), (51, V_f32 (Fin (0)))]"

definition sim_ls_PARAMS :: "param_entry list" where
  "sim_ls_PARAMS = [
   prm 49 ''LSPWR'' 1 phys_boolean 49 0, prm 50 ''LSCLOCK'' 8 phys_int8 50 0,
   prm 51 ''LST'' 16 phys_float32 51 0]"

definition sim_ls_LOCAL_PARAMS :: "param_entry list" where
  "sim_ls_LOCAL_PARAMS = []"

definition sim_ls_ISIM_PARAMS :: "param_entry list" where
  "sim_ls_ISIM_PARAMS = [
   prm 49 ''LSPWR'' 1 phys_boolean 49 0, prm 50 ''LSCLOCK'' 8 phys_int8 50 0,
   prm 51 ''LST'' 16 phys_float32 51 0]"

definition sim_ls_init_defaults :: "mem \<Rightarrow> mem option" where
  "sim_ls_init_defaults m =
     (case init_params sim_ls_PARAMS m of None \<Rightarrow> None | Some m1 \<Rightarrow> init_params sim_ls_LOCAL_PARAMS m1)"

subsection \<open>CS\<close>

definition sim_cs_k_param_count :: nat where "sim_cs_k_param_count = 0"
definition sim_cs_k_local_param_count :: nat where "sim_cs_k_local_param_count = 3"
definition sim_cs_k_isim_param_count :: nat where "sim_cs_k_isim_param_count = 3"

definition sim_cs_vars :: "(nat \<times> value_t) list" where
  "sim_cs_vars = [
   (32768, V_u8 1), (32769, V_s8 0), (32770, V_f32 (Fin (0)))]"

definition sim_cs_PARAMS :: "param_entry list" where
  "sim_cs_PARAMS = []"

definition sim_cs_LOCAL_PARAMS :: "param_entry list" where
  "sim_cs_LOCAL_PARAMS = [
   prm 32768 ''LCSPWR'' 1 phys_boolean 32768 1, prm 32769 ''LCSCLOCK'' 8 phys_int8 32769 0,
   prm 32770 ''LCST'' 16 phys_float32 32770 0]"

definition sim_cs_ISIM_PARAMS :: "param_entry list" where
  "sim_cs_ISIM_PARAMS = [
   prm 32768 ''LCSPWR'' 1 phys_boolean 32768 1, prm 32769 ''LCSCLOCK'' 8 phys_int8 32769 0,
   prm 32770 ''LCST'' 16 phys_float32 32770 0]"

definition sim_cs_init_defaults :: "mem \<Rightarrow> mem option" where
  "sim_cs_init_defaults m =
     (case init_params sim_cs_PARAMS m of None \<Rightarrow> None | Some m1 \<Rightarrow> init_params sim_cs_LOCAL_PARAMS m1)"

subsection \<open>All systems\<close>

definition sim_vars :: mem where
  "sim_vars p = (case map_of (sim_pss_vars @ sim_tcs_vars @ sim_tms_vars @ sim_mns_vars @ sim_ls_vars @ sim_cs_vars) p of None \<Rightarrow> V_u8 0 | Some v \<Rightarrow> v)"

definition sim_systems :: "(u8 \<times> param_entry list \<times> param_entry list \<times> param_entry list \<times> nat \<times> (mem \<Rightarrow> mem option)) list" where
  "sim_systems = [(SYS_PSS, sim_pss_PARAMS, sim_pss_LOCAL_PARAMS, sim_pss_ISIM_PARAMS, sim_pss_k_isim_param_count, sim_pss_init_defaults),
     (SYS_TCS, sim_tcs_PARAMS, sim_tcs_LOCAL_PARAMS, sim_tcs_ISIM_PARAMS, sim_tcs_k_isim_param_count, sim_tcs_init_defaults),
     (SYS_TMS, sim_tms_PARAMS, sim_tms_LOCAL_PARAMS, sim_tms_ISIM_PARAMS, sim_tms_k_isim_param_count, sim_tms_init_defaults),
     (SYS_MNS, sim_mns_PARAMS, sim_mns_LOCAL_PARAMS, sim_mns_ISIM_PARAMS, sim_mns_k_isim_param_count, sim_mns_init_defaults),
     (SYS_LS, sim_ls_PARAMS, sim_ls_LOCAL_PARAMS, sim_ls_ISIM_PARAMS, sim_ls_k_isim_param_count, sim_ls_init_defaults),
     (SYS_CS, sim_cs_PARAMS, sim_cs_LOCAL_PARAMS, sim_cs_ISIM_PARAMS, sim_cs_k_isim_param_count, sim_cs_init_defaults)]"

text \<open>The physical type that the code of the base tables stands for.\<close>

definition phys_of_rtype :: "u8 \<Rightarrow> physical_type_t option" where
  "phys_of_rtype r = (if r = RTYPE_BOOL then Some phys_boolean else if r = RTYPE_INT8 then Some phys_int8
     else if r = RTYPE_INT16 then Some phys_int16 else if r = RTYPE_FLOAT32 then Some phys_float32 else None)"

text \<open>A row of a parameter that is sent over the bus agrees with the row of the base table.\<close>

definition wire_row_ok :: "u8 \<Rightarrow> param_entry \<Rightarrow> bool" where
  "wire_row_ok sys e \<longleftrightarrow> pe_id e < Param_max \<and> (let b = S_baseparamtab ! pe_id e in
     te_sys_id b = sys \<and> te_key b = pe_key e \<and> type_width_bits (te_type b) = pe_wire_bits e \<and>
     phys_of_rtype (te_type_real b) = Some (pe_physical_type e))"

definition local_row_ok :: "param_entry \<Rightarrow> bool" where
  "local_row_ok e \<longleftrightarrow> LOCAL_PARAM_ID_BASE \<le> pe_id e \<and> pe_id e < LOCAL_PARAM_ID_BASE + LOCAL_PARAM_max \<and>
     local_param_list ! (pe_id e - LOCAL_PARAM_ID_BASE) = (pe_key e, pe_id e)"

text \<open>A row points to its own variable, whose static value is the initial value of the row.\<close>

definition own_row_ok :: "param_entry \<Rightarrow> bool" where
  "own_row_ok e \<longleftrightarrow> pe_ptr e = Some (pe_id e) \<and> init_value (pe_physical_type e) (pe_init_value e) = Some (sim_vars (pe_id e))"

lemma init_params_id: "list_all (\<lambda>e. pe_ptr e = Some (pe_id e) \<and> init_value (pe_physical_type e) (pe_init_value e) = Some (m (pe_id e))) ps \<Longrightarrow>
    init_params ps m = Some m"
  by (induction ps) (simp_all add: init_param_def)

lemma init_kind: "init_value (pe_physical_type e) v = Some x \<Longrightarrow> kind_of x = ISIMKIND e"
  by (cases "pe_physical_type e") (auto simp: init_value_def ISIMKIND_def)

lemma own_row_variable: "own_row_ok e \<Longrightarrow> row_variable sim_vars e"
  by (auto simp: own_row_ok_def row_variable_def dest: init_kind)

lemma ascending: "successively (<) (xs :: nat list) \<Longrightarrow> sorted_wrt (<) xs"
  by (simp add: successively_conv_sorted_wrt)

lemmas sim_tables = sim_pss_PARAMS_def sim_tcs_PARAMS_def sim_tms_PARAMS_def sim_mns_PARAMS_def sim_ls_PARAMS_def
    sim_cs_PARAMS_def sim_pss_LOCAL_PARAMS_def sim_tcs_LOCAL_PARAMS_def sim_tms_LOCAL_PARAMS_def sim_mns_LOCAL_PARAMS_def
    sim_ls_LOCAL_PARAMS_def sim_cs_LOCAL_PARAMS_def sim_pss_ISIM_PARAMS_def sim_tcs_ISIM_PARAMS_def sim_tms_ISIM_PARAMS_def
    sim_mns_ISIM_PARAMS_def sim_ls_ISIM_PARAMS_def sim_cs_ISIM_PARAMS_def

lemma systems_append:
  "list_all (\<lambda>(sys, ps, ls, is, n, init). is = ps @ ls \<and> length is = n \<and> is \<noteq> []) sim_systems"
  by (simp add: sim_systems_def sim_tables sim_pss_k_isim_param_count_def sim_tcs_k_isim_param_count_def sim_tms_k_isim_param_count_def
    sim_mns_k_isim_param_count_def sim_ls_k_isim_param_count_def sim_cs_k_isim_param_count_def)

subsection \<open>Rows and base table\<close>

definition wire_rows :: "(u8 \<times> param_entry) list" where
  "wire_rows = map (Pair SYS_PSS) sim_pss_PARAMS @ map (Pair SYS_TCS) sim_tcs_PARAMS @ map (Pair SYS_TMS) sim_tms_PARAMS @
     map (Pair SYS_MNS) sim_mns_PARAMS @ map (Pair SYS_LS) sim_ls_PARAMS"

lemma wire_match: "list_all2 (\<lambda>(sys, e) b. te_sys_id b = sys \<and> te_key b = pe_key e \<and> type_width_bits (te_type b) = pe_wire_bits e \<and>
     phys_of_rtype (te_type_real b) = Some (pe_physical_type e)) wire_rows S_baseparamtab"
  by (simp add: wire_rows_def sim_tables prm_def S_baseparamtab_def base_row_def phys_of_rtype_def type_width_bits_def)

lemma wire_ids: "map (\<lambda>(sys, e). pe_id e) wire_rows = [0..<Param_max]"
  by (simp add: wire_rows_def sim_tables prm_def upt_conv_Cons)

lemma wire_row:
  assumes "(sys, e) \<in> set wire_rows"
  shows "wire_row_ok sys e"
proof -
  obtain k where k: "k < length wire_rows" "wire_rows ! k = (sys, e)" using assms by (metis in_set_conv_nth)
  have l: "length wire_rows = Param_max" using arg_cong [OF wire_ids, of length] by simp
  have "map (\<lambda>(sys, e). pe_id e) wire_rows ! k = k" using k l by (simp add: wire_ids)
  then have id: "pe_id e = k" using k by simp
  show ?thesis using list_all2_nthD [OF wire_match k(1)] k l by (simp add: wire_row_ok_def id Let_def)
qed

lemma local_match: "map (\<lambda>e. (pe_key e, pe_id e)) (sim_cs_LOCAL_PARAMS @ sim_mns_LOCAL_PARAMS) = local_param_list"
  by (simp add: sim_tables prm_def local_param_list_def)

lemma local_ids: "map snd local_param_list = [LOCAL_PARAM_ID_BASE..<LOCAL_PARAM_ID_BASE + LOCAL_PARAM_max]"
  by (simp add: local_param_list_def LOCAL_PARAM_ID_BASE_def LOCAL_PARAM_max_def upt_conv_Cons)

lemma local_row:
  assumes "e \<in> set sim_cs_LOCAL_PARAMS \<union> set sim_mns_LOCAL_PARAMS"
  shows "local_row_ok e"
proof -
  have "(pe_key e, pe_id e) \<in> set local_param_list" using assms by (auto simp flip: local_match)
  then obtain k where k: "k < length local_param_list" "local_param_list ! k = (pe_key e, pe_id e)" by (metis in_set_conv_nth)
  have l: "length local_param_list = LOCAL_PARAM_max" using arg_cong [OF local_ids, of length] by simp
  have "map snd local_param_list ! k = LOCAL_PARAM_ID_BASE + k" using k l by (simp add: local_ids)
  then have "pe_id e = LOCAL_PARAM_ID_BASE + k" using k by simp
  then show ?thesis using k l by (simp add: local_row_ok_def)
qed

lemma empty_locals: "sim_pss_LOCAL_PARAMS = []" "sim_tcs_LOCAL_PARAMS = []" "sim_tms_LOCAL_PARAMS = []" "sim_ls_LOCAL_PARAMS = []"
  "sim_cs_PARAMS = []"
  by (simp_all add: sim_tables)

lemma systems_rows: "list_all (\<lambda>(sys, ps, ls, is, n, init). list_all (wire_row_ok sys) ps \<and> list_all local_row_ok ls) sim_systems"
  by (auto simp: sim_systems_def list_all_iff empty_locals intro!: wire_row local_row) (simp_all add: wire_rows_def)

subsection \<open>Variables and initial values\<close>

lemmas sim_var_tables = sim_pss_vars_def sim_tcs_vars_def sim_tms_vars_def sim_mns_vars_def sim_ls_vars_def sim_cs_vars_def

lemma vars_ascending: "successively (<) (map fst sim_pss_vars)" "successively (<) (map fst sim_tcs_vars)"
  "successively (<) (map fst sim_tms_vars)" "successively (<) (map fst sim_mns_vars)" "successively (<) (map fst sim_ls_vars)"
  "successively (<) (map fst sim_cs_vars)"
  by (simp_all add: sim_var_tables)

lemma vars_bounds: "list_all (\<lambda>p. p < 31) (map fst sim_pss_vars)" "list_all (\<lambda>p. 31 \<le> p \<and> p < 39) (map fst sim_tcs_vars)"
  "list_all (\<lambda>p. 39 \<le> p \<and> p < 46) (map fst sim_tms_vars)" "list_all (\<lambda>p. 46 \<le> p \<and> p < 49 \<or> 32771 \<le> p) (map fst sim_mns_vars)"
  "list_all (\<lambda>p. 49 \<le> p \<and> p < 52) (map fst sim_ls_vars)" "list_all (\<lambda>p. 32768 \<le> p \<and> p < 32771) (map fst sim_cs_vars)"
  by (simp_all add: sim_var_tables)

definition all_vars :: "(nat \<times> value_t) list" where
  "all_vars = sim_pss_vars @ sim_tcs_vars @ sim_tms_vars @ sim_mns_vars @ sim_ls_vars @ sim_cs_vars"

lemma all_vars_distinct: "distinct (map fst all_vars)"
proof -
  have d: "successively (<) (map fst vs) \<Longrightarrow> distinct (map fst vs)" for vs :: "(nat \<times> value_t) list"
    by (drule ascending) (simp add: strict_sorted_iff)
  have b: "set (map fst sim_pss_vars) \<subseteq> {p. p < 31}" "set (map fst sim_tcs_vars) \<subseteq> {p. 31 \<le> p \<and> p < 39}"
    "set (map fst sim_tms_vars) \<subseteq> {p. 39 \<le> p \<and> p < 46}" "set (map fst sim_mns_vars) \<subseteq> {p. 46 \<le> p \<and> p < 49 \<or> 32771 \<le> p}"
    "set (map fst sim_ls_vars) \<subseteq> {p. 49 \<le> p \<and> p < 52}" "set (map fst sim_cs_vars) \<subseteq> {p. 32768 \<le> p \<and> p < 32771}"
    using vars_bounds unfolding list_all_iff by blast+
  show ?thesis
    unfolding all_vars_def map_append distinct_append
    using vars_ascending [THEN d] b by (intro conjI) (simp_all, fastforce+)
qed

lemma sim_vars_at: "(p, v) \<in> set all_vars \<Longrightarrow> sim_vars p = v"
  using map_of_is_SomeI [OF all_vars_distinct] by (simp add: sim_vars_def all_vars_def del: map_of_append)

lemma init_floats: "to_fp f32 0 = Fin 0" "to_fp f32 80 = Fin 80" "to_fp f32 12 = Fin 12" "to_fp f32 290 = Fin 290"
  "to_fp f32 23 = Fin 23" "to_fp f32 3 = Fin 3" "to_fp f32 35 = Fin 35" "to_fp f32 6 = Fin 6" "to_fp f32 (33 / 2) = Fin (33 / 2)"
  by code_simp+

definition row_init :: "param_entry \<Rightarrow> nat \<times> nat option \<times> value_t option" where
  "row_init e = (pe_id e, pe_ptr e, init_value (pe_physical_type e) (pe_init_value e))"

lemma rows_init:
  "map row_init sim_pss_ISIM_PARAMS = map (\<lambda>(p, v). (p, Some p, Some v)) sim_pss_vars"
  "map row_init sim_tcs_ISIM_PARAMS = map (\<lambda>(p, v). (p, Some p, Some v)) sim_tcs_vars"
  "map row_init sim_tms_ISIM_PARAMS = map (\<lambda>(p, v). (p, Some p, Some v)) sim_tms_vars"
  "map row_init sim_mns_ISIM_PARAMS = map (\<lambda>(p, v). (p, Some p, Some v)) sim_mns_vars"
  "map row_init sim_ls_ISIM_PARAMS = map (\<lambda>(p, v). (p, Some p, Some v)) sim_ls_vars"
  "map row_init sim_cs_ISIM_PARAMS = map (\<lambda>(p, v). (p, Some p, Some v)) sim_cs_vars"
  by (simp_all add: row_init_def sim_tables sim_var_tables prm_def init_value_def trunc_in_def init_floats)

subsection \<open>The tables are sound\<close>

lemma rows_own:
  assumes "map row_init is = map (\<lambda>(p, v). (p, Some p, Some v)) vs" "set vs \<subseteq> set all_vars" "successively (<) (map fst vs)"
  shows "list_all own_row_ok is \<and> sorted_wrt (<) (map pe_id is) \<and> distinct (map pe_ptr is)"
proof -
  have ids: "map pe_id is = map fst vs" "map pe_ptr is = map Some (map fst vs)"
    using arg_cong [OF assms(1), of "map fst"] arg_cong [OF assms(1), of "map (fst \<circ> snd)"]
    by (simp_all add: row_init_def comp_def case_prod_unfold)
  have "own_row_ok e" if "e \<in> set is" for e
  proof -
    have "row_init e \<in> set (map (\<lambda>(p, v). (p, Some p, Some v)) vs)" using that by (simp flip: assms(1))
    then obtain p v where "(p, v) \<in> set vs" "row_init e = (p, Some p, Some v)" by auto
    moreover from this assms(2) have "sim_vars p = v" by (auto intro: sim_vars_at)
    ultimately show ?thesis by (simp add: row_init_def own_row_ok_def)
  qed
  then show ?thesis
    using ascending [OF assms(3)] by (simp add: list_all_iff ids distinct_map strict_sorted_iff del: map_map)
qed

lemma systems_own:
  "list_all (\<lambda>(sys, ps, ls, is, n, init). list_all own_row_ok is \<and> sorted_wrt (<) (map pe_id is) \<and> distinct (map pe_ptr is)) sim_systems"
proof -
  have sub: "set sim_pss_vars \<subseteq> set all_vars" "set sim_tcs_vars \<subseteq> set all_vars" "set sim_tms_vars \<subseteq> set all_vars"
    "set sim_mns_vars \<subseteq> set all_vars" "set sim_ls_vars \<subseteq> set all_vars" "set sim_cs_vars \<subseteq> set all_vars"
    by (auto simp: all_vars_def)
  note own = rows_own [OF rows_init(1) sub(1) vars_ascending(1)] rows_own [OF rows_init(2) sub(2) vars_ascending(2)]
    rows_own [OF rows_init(3) sub(3) vars_ascending(3)] rows_own [OF rows_init(4) sub(4) vars_ascending(4)]
    rows_own [OF rows_init(5) sub(5) vars_ascending(5)] rows_own [OF rows_init(6) sub(6) vars_ascending(6)]
  show ?thesis by (simp add: sim_systems_def own)
qed

lemma systems_init:
  "list_all (\<lambda>(sys, ps, ls, is, n, init). \<forall>m. init m = (case init_params ps m of None \<Rightarrow> None | Some m1 \<Rightarrow> init_params ls m1)) sim_systems"
  by (simp add: sim_systems_def sim_pss_init_defaults_def sim_tcs_init_defaults_def sim_tms_init_defaults_def
    sim_mns_init_defaults_def sim_ls_init_defaults_def sim_cs_init_defaults_def)

text \<open>
  The ids of a system's bus parameters and of its commands, as the base tables have them, and the
  ranges that \<open>sys_id_range.hpp\<close> declares; \<open>system_range\<close> is the declared range of a system's parameters.
\<close>

definition system_ids :: "u8 \<Rightarrow> nat list" where
  "system_ids sys = filter (\<lambda>i. te_sys_id (S_baseparamtab ! i) = sys) [0..<Param_max]"

definition system_command_ids :: "u8 \<Rightarrow> nat list" where
  "system_command_ids sys = filter (\<lambda>i. te_sys_id (S_basecommtab ! (i - Param_max)) = sys) [Param_max..<Param_Comm_max]"

definition id_ranges :: "(u8 \<times> nat \<times> nat \<times> nat \<times> nat) list" where
  "id_ranges = [(SYS_PSS, PSS_BASE, PSS_COUNT, CPSS_BASE, CPSS_COUNT), (SYS_TCS, TCS_BASE, TCS_COUNT, CTCS_BASE, CTCS_COUNT),
     (SYS_TMS, TMS_BASE, TMS_COUNT, CTMS_BASE, CTMS_COUNT), (SYS_MNS, MNS_BASE, MNS_COUNT, CMNS_BASE, CMNS_COUNT),
     (SYS_LS, LS_BASE, LS_COUNT, CLS_BASE, CLS_COUNT)]"

definition system_range :: "u8 \<Rightarrow> nat list" where
  "system_range sys = (case map_of id_ranges sys of None \<Rightarrow> [] | Some (b, n, _) \<Rightarrow> [b..<b + n])"

lemma ranges_own:
  "list_all (\<lambda>(sys, b, n, cb, cn). system_ids sys = [b..<b + n] \<and> system_command_ids sys = [cb..<cb + cn]) id_ranges"
  by code_simp

lemma systems_ranges: "list_all (\<lambda>(sys, ps, ls, is, n, init). map pe_id ps = system_range sys) sim_systems"
  by (simp add: sim_systems_def sim_tables prm_def system_range_def id_ranges_def PSS_BASE_def PSS_COUNT_def TCS_BASE_def TCS_COUNT_def
    TMS_BASE_def TMS_COUNT_def MNS_BASE_def MNS_COUNT_def LS_BASE_def LS_COUNT_def upt_conv_Cons)

text \<open>
  C32: the parameter tables of the six systems are sound. In each one the registry rows are the bus
  parameters followed by the local ones, as many as the declared count; each bus parameter agrees
  with its row of the base table in system, key, wire width and physical type, and each local one
  with the list of local ids; the ids of the bus parameters are exactly the range declared for the
  system, and in the base tables the parameters and the commands of each subsystem fill exactly the
  two ranges declared for it; the static values of the variables are the initial values of the
  rows, so \<open>init_defaults\<close> at start changes nothing; and the registry built from the rows is
  well-formed and finds every row under its id.
\<close>

theorem sim_tables_sound:
  "list_all (\<lambda>(sys, b, n, cb, cn). system_ids sys = [b..<b + n] \<and> system_command_ids sys = [cb..<cb + cn]) id_ranges \<and>
   list_all (\<lambda>(sys, ps, ls, is, n, init).
     is = ps @ ls \<and> length is = n \<and> list_all (wire_row_ok sys) ps \<and> list_all local_row_ok ls \<and>
     map pe_id ps = system_range sys \<and> init sim_vars = Some sim_vars \<and>
     (\<exists>bs reg. ISIMREG_BUILD (Some is) n (Some (replicate n b)) sys g = (Some bs, reg, Some reg) \<and> sim_inv reg sim_vars \<and>
        list_all (\<lambda>e. find_binding reg (pe_id e) = Some (entry_binding e)) is)) sim_systems"
proof -
  have "is = ps @ ls \<and> length is = n \<and> list_all (wire_row_ok sys) ps \<and> list_all local_row_ok ls \<and>
     map pe_id ps = system_range sys \<and> init sim_vars = Some sim_vars \<and>
     (\<exists>bs reg. ISIMREG_BUILD (Some is) n (Some (replicate n b)) sys g = (Some bs, reg, Some reg) \<and> sim_inv reg sim_vars \<and>
        list_all (\<lambda>e. find_binding reg (pe_id e) = Some (entry_binding e)) is)"
    if "(sys, ps, ls, is, n, init) \<in> set sim_systems" for sys ps ls "is" n init
  proof -
    have f: "is = ps @ ls" "length is = n" "is \<noteq> []" "list_all (wire_row_ok sys) ps" "list_all local_row_ok ls"
      "list_all own_row_ok is" "sorted_wrt (<) (map pe_id is)" "distinct (map pe_ptr is)"
      "map pe_id ps = system_range sys" "init sim_vars = (case init_params ps sim_vars of None \<Rightarrow> None | Some m1 \<Rightarrow> init_params ls m1)"
      using bspec [OF systems_append [unfolded list_all_iff] that] bspec [OF systems_rows [unfolded list_all_iff] that]
        bspec [OF systems_own [unfolded list_all_iff] that] bspec [OF systems_init [unfolded list_all_iff] that]
      bspec [OF systems_ranges [unfolded list_all_iff] that]
      by (auto simp: list_all_iff)
    have "init_params ps sim_vars = Some sim_vars" "init_params ls sim_vars = Some sim_vars"
      using f(1,6) by (auto intro!: init_params_id simp: list_all_iff own_row_ok_def)
    moreover have "list_all (row_variable sim_vars) is" using f(6) by (auto simp: list_all_iff own_row_variable)
    moreover have "\<exists>bs reg. ISIMREG_BUILD (Some is) (length is) (Some (replicate n b)) sys g = (Some bs, reg, Some reg) \<and>
        sim_inv reg sim_vars \<and> list_all (\<lambda>e. find_binding reg (pe_id e) = Some (entry_binding e)) is"
      using calculation(3) by (intro registry_build_sound f) (simp_all add: f(2))
    ultimately show ?thesis using f by simp
  qed
  then have "list_all (\<lambda>(sys, ps, ls, is, n, init).
     is = ps @ ls \<and> length is = n \<and> list_all (wire_row_ok sys) ps \<and> list_all local_row_ok ls \<and>
     map pe_id ps = system_range sys \<and> init sim_vars = Some sim_vars \<and>
     (\<exists>bs reg. ISIMREG_BUILD (Some is) n (Some (replicate n b)) sys g = (Some bs, reg, Some reg) \<and> sim_inv reg sim_vars \<and>
        list_all (\<lambda>e. find_binding reg (pe_id e) = Some (entry_binding e)) is)) sim_systems"
    unfolding list_all_iff by blast
  with ranges_own show ?thesis by blast
qed

end
