(* ===== verification/PssSim.thy ===== *)
theory PssSim
  imports SimTables
begin

text \<open>
  The model of the power system, \<open>simulation/pss/src/pss_sim.cpp\<close>: the limits of the control
  variables and one step of the electrical and thermal model. The static variables \<open>P_X\<close> are the cells
  of the memory at the address \<open>X\<close>; a step runs under the model mutex and is one function on the
  memory. \<open>int8_t\<close> variables are 8-bit words read with \<open>sint\<close>, \<open>float\<close> arithmetic is \<open>f32\<close> of \<open>Flt\<close>.
  The state snapshots in the log are left out.
\<close>

subsection \<open>Access to the variables\<close>

definition get_u8 :: "mem \<Rightarrow> nat \<Rightarrow> u8" where
  "get_u8 m p = (case m p of V_u8 x \<Rightarrow> x | _ \<Rightarrow> 0)"

definition get_i8 :: "mem \<Rightarrow> nat \<Rightarrow> int" where
  "get_i8 m p = (case m p of V_s8 x \<Rightarrow> sint x | _ \<Rightarrow> 0)"

definition get_f32 :: "mem \<Rightarrow> nat \<Rightarrow> fp" where
  "get_f32 m p = (case m p of V_f32 x \<Rightarrow> x | _ \<Rightarrow> Fin 0)"

definition put_u8 :: "nat \<Rightarrow> u8 \<Rightarrow> mem \<Rightarrow> mem" where "put_u8 p x m = m(p := V_u8 x)"
definition put_i8 :: "nat \<Rightarrow> u8 \<Rightarrow> mem \<Rightarrow> mem" where "put_i8 p x m = m(p := V_s8 x)"
definition put_f32 :: "nat \<Rightarrow> fp \<Rightarrow> mem \<Rightarrow> mem" where "put_f32 p x m = m(p := V_f32 x)"

subsection \<open>Limits\<close>

definition clamp_u1 :: "int \<Rightarrow> u8" where "clamp_u1 v = (if v \<noteq> 0 then 1 else 0)"

definition clamp_i8 :: "int \<Rightarrow> u8" where
  "clamp_i8 v = word_of_int (if v < - 128 then - 128 else if 127 < v then 127 else v)"

definition clamp_non_negative :: "fp \<Rightarrow> fp" where "clamp_non_negative v = fp_max (Fin 0) v"

definition move_towards_f32 :: "fp \<Rightarrow> fp \<Rightarrow> fp \<Rightarrow> fp" where
  "move_towards_f32 current target delta =
     (if fp_lt current target then fp_min (fp_add f32 current delta) target
      else if fp_lt target current then fp_max (fp_sub f32 current delta) target
      else current)"

text \<open>The statements \<open>P_X = clamp_u1(as_int(P_X))\<close> and \<open>P_X = clamp_non_negative(P_X)\<close> for one variable.\<close>

definition limit_u1 :: "nat \<Rightarrow> mem \<Rightarrow> mem" where
  "limit_u1 p m = put_u8 p (clamp_u1 (uint (get_u8 m p))) m"

definition limit_f32 :: "nat \<Rightarrow> mem \<Rightarrow> mem" where
  "limit_f32 p m = put_f32 p (clamp_non_negative (get_f32 m p)) m"

definition apply_control_limits :: "mem \<Rightarrow> mem" where
  "apply_control_limits m0 =
     (let m = limit_u1 PSSPWR m0;
          m = limit_u1 PSSPWR12 m;
          m = limit_u1 PSSPWR6 m;
          m = limit_u1 PSSPWR5 m;
          m = limit_u1 PSSPWR33 m;
          m = limit_u1 PSSECO m;
          m = limit_f32 PSSMAXA m;
          m = limit_f32 PSSMAXW m;
          m = put_i8 PSSMINC (clamp_i8 (max 0 (get_i8 m PSSMINC))) m;
          m = limit_f32 PSSMINV m;
          m = limit_f32 PSSMAXA12 m;
          m = limit_f32 PSSMAXA6 m;
          m = limit_f32 PSSMAXA5 m;
          m = limit_f32 PSSMAXA33 m
      in if get_u8 m PSSPWR = 0
         then put_u8 PSSPWR33 0 (put_u8 PSSPWR5 0 (put_u8 PSSPWR6 0 (put_u8 PSSPWR12 0 m)))
         else m)"

subsection \<open>One step of the model\<close>

text \<open>The branch of \<open>simulate_physics\<close> for a system that is off.\<close>

definition power_off_physics :: "mem \<Rightarrow> mem" where
  "power_off_physics m0 =
     (let m = put_f32 PSSA12 (Fin 0) m0;
          m = put_f32 PSSV12 (Fin 0) m;
          m = put_f32 PSSA6 (Fin 0) m;
          m = put_f32 PSSV6 (Fin 0) m;
          m = put_f32 PSSA5 (Fin 0) m;
          m = put_f32 PSSV5 (Fin 0) m;
          m = put_f32 PSSA33 (Fin 0) m;
          m = put_f32 PSSV33 (Fin 0) m;
          m = put_f32 PSSA (Fin 0) m;
          m = put_f32 PSSW (Fin 0) m;
          m = put_f32 PSSV (Fin 0) m;
          m = put_f32 PSST1 (move_towards_f32 (get_f32 m PSST1) (Fin 0) (Fin 1)) m
      in put_f32 PSST2 (move_towards_f32 (get_f32 m PSST2) (Fin 0) (Fin 1)) m)"

definition rail_current :: "mem \<Rightarrow> nat \<Rightarrow> nat \<Rightarrow> fp" where
  "rail_current m sw mx = (if get_u8 m sw \<noteq> 0 then get_f32 m mx else Fin 0)"

definition rail_sum :: "fp \<Rightarrow> fp \<Rightarrow> fp \<Rightarrow> fp \<Rightarrow> fp" where
  "rail_sum a b c d = fp_add f32 (fp_add f32 (fp_add f32 a b) c) d"

text \<open>The rail currents after the economy mode and the total limit, with their sum.\<close>

definition currents :: "mem \<Rightarrow> fp \<times> fp \<times> fp \<times> fp \<times> fp" where
  "currents m =
     (let i12 = rail_current m PSSPWR12 PSSMAXA12;
          i6 = rail_current m PSSPWR6 PSSMAXA6;
          i5 = rail_current m PSSPWR5 PSSMAXA5;
          i33 = rail_current m PSSPWR33 PSSMAXA33;
          half = (\<lambda>i. if get_u8 m PSSECO \<noteq> 0 then fp_mul f32 i (Fin (1 / 2)) else i);
          i12 = half i12; i6 = half i6; i5 = half i5; i33 = half i33;
          total = rail_sum i12 i6 i5 i33;
          limit = get_f32 m PSSMAXA
      in if fp_lt (Fin 0) limit \<and> fp_lt limit total \<and> fp_lt (Fin 0) total
         then let scale = fp_div f32 limit total;
                  i12 = fp_mul f32 i12 scale; i6 = fp_mul f32 i6 scale;
                  i5 = fp_mul f32 i5 scale; i33 = fp_mul f32 i33 scale
              in (i12, i6, i5, i33, rail_sum i12 i6 i5 i33)
         else (i12, i6, i5, i33, total))"

definition rail_voltage :: "mem \<Rightarrow> nat \<Rightarrow> fp \<Rightarrow> fp" where
  "rail_voltage m sw v = (if get_u8 m sw \<noteq> 0 then v else Fin 0)"

definition discharge :: "mem \<Rightarrow> u8" where
  "discharge m =
     (let charge = get_i8 m PSSC;
          charge = (if charge > 0 then charge - 1 else charge)
      in clamp_i8 (max charge (max 0 (get_i8 m PSSMINC))))"

definition power_on_physics :: "mem \<Rightarrow> mem" where
  "power_on_physics m0 =
     (let (i12, i6, i5, i33, total_i) = currents m0;
          m = put_f32 PSSA12 i12 m0;
          m = put_f32 PSSA6 i6 m;
          m = put_f32 PSSA5 i5 m;
          m = put_f32 PSSA33 i33 m;
          m = put_f32 PSSA total_i m;
          rail_v = get_f32 m PSSMINV;
          m = put_f32 PSSV12 (rail_voltage m PSSPWR12 rail_v) m;
          m = put_f32 PSSV6 (rail_voltage m PSSPWR6 rail_v) m;
          m = put_f32 PSSV5 (rail_voltage m PSSPWR5 rail_v) m;
          m = put_f32 PSSV33 (rail_voltage m PSSPWR33 rail_v) m;
          m = put_f32 PSSV rail_v m;
          m = put_f32 PSSW (fp_min total_i (get_f32 m PSSMAXW)) m;
          m = put_i8 PSSC (discharge m) m;
          m = put_f32 PSST1 (move_towards_f32 (get_f32 m PSST1) (get_f32 m PSSMAXT1) (Fin 1)) m
      in put_f32 PSST2 (move_towards_f32 (get_f32 m PSST2) (get_f32 m PSSMAXT2) (Fin 1)) m)"

definition simulate_physics :: "mem \<Rightarrow> mem" where
  "simulate_physics m0 =
     (let m = apply_control_limits m0
      in if get_u8 m PSSPWR = 0 then power_off_physics m else power_on_physics m)"

definition pss_sim_init :: "mem \<Rightarrow> mem option" where
  "pss_sim_init m = sim_pss_init_defaults m"

definition pss_sim_step :: "mem \<Rightarrow> mem" where
  "pss_sim_step m = simulate_physics m"

subsection \<open>Reading after writing\<close>

lemma get_put [simp]:
  "get_u8 (put_u8 p x m) q = (if q = p then x else get_u8 m q)"
  "get_u8 (put_i8 p x m) q = (if q = p then 0 else get_u8 m q)"
  "get_u8 (put_f32 p y m) q = (if q = p then 0 else get_u8 m q)"
  "get_i8 (put_u8 p x m) q = (if q = p then 0 else get_i8 m q)"
  "get_i8 (put_i8 p x m) q = (if q = p then sint x else get_i8 m q)"
  "get_i8 (put_f32 p y m) q = (if q = p then 0 else get_i8 m q)"
  "get_f32 (put_u8 p x m) q = (if q = p then Fin 0 else get_f32 m q)"
  "get_f32 (put_i8 p x m) q = (if q = p then Fin 0 else get_f32 m q)"
  "get_f32 (put_f32 p y m) q = (if q = p then y else get_f32 m q)"
  by (simp_all add: get_u8_def get_i8_def get_f32_def put_u8_def put_i8_def put_f32_def)

lemma get_limit [simp]:
  "get_u8 (limit_u1 p m) q = (if q = p then clamp_u1 (uint (get_u8 m p)) else get_u8 m q)"
  "get_u8 (limit_f32 p m) q = (if q = p then 0 else get_u8 m q)"
  "get_i8 (limit_u1 p m) q = (if q = p then 0 else get_i8 m q)"
  "get_i8 (limit_f32 p m) q = (if q = p then 0 else get_i8 m q)"
  "get_f32 (limit_u1 p m) q = (if q = p then Fin 0 else get_f32 m q)"
  "get_f32 (limit_f32 p m) q = (if q = p then clamp_non_negative (get_f32 m p) else get_f32 m q)"
  by (simp_all add: limit_u1_def limit_f32_def)

lemma clamp_u1_word [simp]: "clamp_u1 (uint (x::u8)) = (if x = 0 then 0 else 1)" "clamp_u1 0 = 0"
  by (simp_all add: clamp_u1_def unsigned_eq_0_iff)

text \<open>The variables after the limits are applied.\<close>

lemma limits_get:
  "get_u8 (apply_control_limits m) PSSPWR = (if get_u8 m PSSPWR = 0 then 0 else 1)"
  "p \<in> {PSSPWR12, PSSPWR6, PSSPWR5, PSSPWR33} \<Longrightarrow> get_u8 (apply_control_limits m) p =
     (if get_u8 m PSSPWR = 0 \<or> get_u8 m p = 0 then 0 else 1)"
  "get_u8 (apply_control_limits m) PSSECO = (if get_u8 m PSSECO = 0 then 0 else 1)"
  "p \<in> {PSSMAXA, PSSMAXW, PSSMINV, PSSMAXA12, PSSMAXA6, PSSMAXA5, PSSMAXA33} \<Longrightarrow>
     get_f32 (apply_control_limits m) p = clamp_non_negative (get_f32 m p)"
  "get_i8 (apply_control_limits m) PSSMINC = sint (clamp_i8 (max 0 (get_i8 m PSSMINC)))"
  "p \<in> {PSSMAXT1, PSSMAXT2, PSST1, PSST2} \<Longrightarrow> get_f32 (apply_control_limits m) p = get_f32 m p"
  "get_i8 (apply_control_limits m) PSSC = get_i8 m PSSC"
  by (auto simp: apply_control_limits_def Let_def)

subsection \<open>Types and frame\<close>

definition pss_kind :: "nat \<Rightarrow> value_kind_t" where
  "pss_kind p = (if p \<le> PSSECO then kind_u8 else if p \<in> {PSSCLOCK, PSSMINC, PSSC} then kind_s8 else kind_f32)"

definition pss_typed :: "mem \<Rightarrow> bool" where
  "pss_typed m \<longleftrightarrow> (\<forall>p < PSS_COUNT. kind_of (m p) = pss_kind p)"

definition same_outside :: "mem \<Rightarrow> mem \<Rightarrow> bool" where
  "same_outside m m' \<longleftrightarrow> pss_typed m' \<and> (\<forall>q \<ge> PSS_COUNT. m' q = m q)"

lemma same_outside_refl: "pss_typed m \<Longrightarrow> same_outside m m"
  by (simp add: same_outside_def)

lemma same_outside_put:
  "same_outside m m' \<Longrightarrow> p < PSS_COUNT \<Longrightarrow> pss_kind p = kind_u8 \<Longrightarrow> same_outside m (put_u8 p x m')"
  "same_outside m m' \<Longrightarrow> p < PSS_COUNT \<Longrightarrow> pss_kind p = kind_s8 \<Longrightarrow> same_outside m (put_i8 p x m')"
  "same_outside m m' \<Longrightarrow> p < PSS_COUNT \<Longrightarrow> pss_kind p = kind_f32 \<Longrightarrow> same_outside m (put_f32 p y m')"
  by (auto simp: same_outside_def pss_typed_def put_u8_def put_i8_def put_f32_def)

lemma same_outside_limits: "pss_typed m \<Longrightarrow> same_outside m (apply_control_limits m)"
  unfolding apply_control_limits_def Let_def limit_u1_def limit_f32_def
  by (simp add: same_outside_put same_outside_refl pss_kind_def PSS_COUNT_def)

lemma same_outside_trans: "same_outside m m1 \<Longrightarrow> same_outside m1 m2 \<Longrightarrow> same_outside m m2"
  by (auto simp: same_outside_def)

lemma same_outside_physics: "pss_typed m \<Longrightarrow> same_outside m (simulate_physics m)"
proof -
  assume t: "pss_typed m"
  have off: "pss_typed u \<Longrightarrow> same_outside u (power_off_physics u)" for u
    unfolding power_off_physics_def Let_def by (simp add: same_outside_put same_outside_refl pss_kind_def PSS_COUNT_def)
  have on: "pss_typed u \<Longrightarrow> same_outside u (power_on_physics u)" for u
    unfolding power_on_physics_def Let_def case_prod_unfold by (simp add: same_outside_put same_outside_refl pss_kind_def PSS_COUNT_def)
  have "pss_typed (apply_control_limits m)" using same_outside_limits [OF t] by (simp add: same_outside_def)
  then show ?thesis
    using same_outside_trans [OF same_outside_limits [OF t]] off on by (simp add: simulate_physics_def Let_def)
qed

subsection \<open>Safety of a step\<close>

lemma to_fp_0 [simp]: "to_fp f 0 = Fin 0"
  by (simp add: to_fp_def)

lemma to_fp_unit:
  assumes "0 \<le> x" "x \<le> 1"
  obtains r where "to_fp f32 x = Fin r"
proof -
  have "rnd f32 1 = 1" using rnd_of_int [of 1 f32] by (simp add: f32_def)
  then have "rnd f32 x \<le> 1" using rnd_mono [OF assms, of f32] by (simp add: f32_def)
  moreover have "0 \<le> rnd f32 x" using assms(1) by (rule rnd_nonneg)
  moreover have "(1::rat) < 2 powi (femax f32 + 1)" using powi_2_mono [of 1 "femax f32 + 1"] by (simp add: f32_def)
  ultimately show thesis using that to_fp_in_range [of f32 x] by simp
qed

lemma zero_times: "fp_isfinite s \<Longrightarrow> fp_mul f (Fin 0) s = Fin 0"
  by (cases s) simp_all

lemma scale_finite:
  assumes "fp_lt (Fin 0) a" "fp_lt a b"
  shows "fp_isfinite (fp_div f32 a b)"
proof (cases a)
  case (Fin x)
  then show ?thesis
  proof (cases b)
    case (Fin y)
    then have "0 < x" "x < y" using assms \<open>a = Fin x\<close> by simp_all
    then obtain r where "to_fp f32 (x / y) = Fin r" using to_fp_unit [of "x / y"] by auto
    then show ?thesis using Fin \<open>a = Fin x\<close> \<open>0 < x\<close> \<open>x < y\<close> by simp
  qed (use assms \<open>a = Fin x\<close> in simp_all)
qed (use assms in \<open>simp_all, cases b, simp_all\<close>)

text \<open>A rail that is off carries no current, in the economy mode and under the total limit too.\<close>

lemma currents_off:
  assumes "currents m = (i12, i6, i5, i33, tot)"
  shows "(get_u8 m PSSPWR12 = 0 \<longrightarrow> i12 = Fin 0) \<and> (get_u8 m PSSPWR6 = 0 \<longrightarrow> i6 = Fin 0) \<and>
    (get_u8 m PSSPWR5 = 0 \<longrightarrow> i5 = Fin 0) \<and> (get_u8 m PSSPWR33 = 0 \<longrightarrow> i33 = Fin 0) \<and> tot = rail_sum i12 i6 i5 i33"
  using assms scale_finite
  by (auto simp: currents_def Let_def rail_current_def zero_times split: if_splits)

lemma min_le: "\<not> fp_lt b (fp_min a b)"
proof -
  have "\<not> fp_lt x x" for x by (cases x) simp_all
  then show ?thesis by (simp add: fp_min_def)
qed

lemma sint_clamp_i8: "sint (clamp_i8 v) = (if v < - 128 then - 128 else if 127 < v then 127 else v)"
proof -
  have "sint (word_of_int n :: u8) = n" if "- 128 \<le> n" "n \<le> 127" for n
    using that by (simp add: signed_of_int signed_take_bit_int_eq_self)
  then show ?thesis by (simp add: clamp_i8_def)
qed

lemma get_i8_bounds: "- 128 \<le> get_i8 m p \<and> get_i8 m p \<le> 127"
proof -
  have "- 128 \<le> sint x \<and> sint x \<le> 127" for x :: u8
    using sint_ge [of x] sint_lt [of x] by simp
  then show ?thesis by (simp add: get_i8_def split: value_t.split)
qed

definition pss_rails :: "(nat \<times> nat \<times> nat) list" where
  "pss_rails = [(PSSPWR12, PSSA12, PSSV12), (PSSPWR6, PSSA6, PSSV6), (PSSPWR5, PSSA5, PSSV5), (PSSPWR33, PSSA33, PSSV33)]"

text \<open>What a step leaves in the variables, for a system that is off and one that is on.\<close>

lemma physics_off:
  assumes "get_u8 m PSSPWR = 0"
  shows "p \<in> {PSSPWR, PSSPWR12, PSSPWR6, PSSPWR5, PSSPWR33} \<Longrightarrow> get_u8 (simulate_physics m) p = 0"
    and "p \<in> {PSSA12, PSSV12, PSSA6, PSSV6, PSSA5, PSSV5, PSSA33, PSSV33, PSSA, PSSW, PSSV} \<Longrightarrow>
      get_f32 (simulate_physics m) p = Fin 0"
    and "p \<in> {PSST1, PSST2} \<Longrightarrow> get_f32 (simulate_physics m) p = move_towards_f32 (get_f32 m p) (Fin 0) (Fin 1)"
    and "get_i8 (simulate_physics m) PSSC = get_i8 m PSSC"
    and "get_u8 (simulate_physics m) PSSECO = (if get_u8 m PSSECO = 0 then 0 else 1)"
  using assms by (auto simp: simulate_physics_def power_off_physics_def Let_def limits_get)

lemma physics_on:
  assumes "get_u8 m PSSPWR \<noteq> 0"
  defines "l \<equiv> apply_control_limits m"
  shows "get_u8 (simulate_physics m) PSSPWR = 1"
    and "p \<in> {PSSPWR12, PSSPWR6, PSSPWR5, PSSPWR33, PSSECO} \<Longrightarrow> get_u8 (simulate_physics m) p = get_u8 l p"
    and "(get_f32 (simulate_physics m) PSSA12, get_f32 (simulate_physics m) PSSA6, get_f32 (simulate_physics m) PSSA5,
      get_f32 (simulate_physics m) PSSA33, get_f32 (simulate_physics m) PSSA) = currents l"
    and "(sw, a, v) \<in> set pss_rails \<Longrightarrow> get_f32 (simulate_physics m) v = rail_voltage l sw (get_f32 l PSSMINV)"
    and "get_f32 (simulate_physics m) PSSV = get_f32 l PSSMINV"
    and "get_f32 (simulate_physics m) PSSW = fp_min (get_f32 (simulate_physics m) PSSA) (get_f32 l PSSMAXW)"
    and "get_i8 (simulate_physics m) PSSC = sint (discharge l)"
    and "get_f32 (simulate_physics m) PSST1 = move_towards_f32 (get_f32 m PSST1) (get_f32 m PSSMAXT1) (Fin 1)"
    and "get_f32 (simulate_physics m) PSST2 = move_towards_f32 (get_f32 m PSST2) (get_f32 m PSSMAXT2) (Fin 1)"
    and "p \<in> {PSSMAXA, PSSMAXW, PSSMINV, PSSMAXA12, PSSMAXA6, PSSMAXA5, PSSMAXA33, PSSMAXT1, PSSMAXT2} \<Longrightarrow>
      get_f32 (simulate_physics m) p = get_f32 l p"
    and "get_i8 (simulate_physics m) PSSMINC = get_i8 l PSSMINC"
proof -
  have e: "simulate_physics m = power_on_physics l" using assms(1) by (simp add: simulate_physics_def Let_def l_def limits_get)
  have p: "get_u8 l PSSPWR = 1" using assms(1) by (simp add: l_def limits_get)
  have t: "get_f32 l PSST1 = get_f32 m PSST1" "get_f32 l PSSMAXT1 = get_f32 m PSSMAXT1" "get_f32 l PSST2 = get_f32 m PSST2"
    "get_f32 l PSSMAXT2 = get_f32 m PSSMAXT2" by (simp_all add: l_def limits_get)
  note u = e power_on_physics_def Let_def case_prod_unfold
  show "get_u8 (simulate_physics m) PSSPWR = 1" by (simp add: u p)
  show "p \<in> {PSSPWR12, PSSPWR6, PSSPWR5, PSSPWR33, PSSECO} \<Longrightarrow> get_u8 (simulate_physics m) p = get_u8 l p"
    by (elim insertE emptyE) (simp_all add: u)
  show "(get_f32 (simulate_physics m) PSSA12, get_f32 (simulate_physics m) PSSA6, get_f32 (simulate_physics m) PSSA5,
      get_f32 (simulate_physics m) PSSA33, get_f32 (simulate_physics m) PSSA) = currents l"
    by (simp add: u)
  show "(sw, a, v) \<in> set pss_rails \<Longrightarrow> get_f32 (simulate_physics m) v = rail_voltage l sw (get_f32 l PSSMINV)"
    unfolding pss_rails_def list.set by (elim insertE emptyE) (simp_all add: u rail_voltage_def)
  show "get_f32 (simulate_physics m) PSSV = get_f32 l PSSMINV" by (simp add: u)
  show "get_f32 (simulate_physics m) PSSW = fp_min (get_f32 (simulate_physics m) PSSA) (get_f32 l PSSMAXW)" by (simp add: u)
  show "get_i8 (simulate_physics m) PSSC = sint (discharge l)" by (simp add: u discharge_def)
  show "get_f32 (simulate_physics m) PSST1 = move_towards_f32 (get_f32 m PSST1) (get_f32 m PSSMAXT1) (Fin 1)" by (simp add: u t)
  show "get_f32 (simulate_physics m) PSST2 = move_towards_f32 (get_f32 m PSST2) (get_f32 m PSSMAXT2) (Fin 1)" by (simp add: u t)
  show "p \<in> {PSSMAXA, PSSMAXW, PSSMINV, PSSMAXA12, PSSMAXA6, PSSMAXA5, PSSMAXA33, PSSMAXT1, PSSMAXT2} \<Longrightarrow>
      get_f32 (simulate_physics m) p = get_f32 l p"
    by (elim insertE emptyE) (simp_all add: u)
  show "get_i8 (simulate_physics m) PSSMINC = get_i8 l PSSMINC" by (simp add: u)
qed

subsection \<open>The current limits\<close>

text \<open>The sum of four currents in \<open>float\<close> is the exact sum up to four roundings.\<close>

lemma rail_sum_near:
  assumes "0 \<le> a" "0 \<le> b" "0 \<le> c" "0 \<le> d" "a + b + c + d \<le> 2 ^ 110"
  shows "\<exists>t. rail_sum (Fin a) (Fin b) (Fin c) (Fin d) = Fin t \<and> 0 \<le> t \<and>
    \<bar>t - (a + b + c + d)\<bar> \<le> (a + b + c + d) / 2 ^ 22 + 1 / 2 ^ 148"
proof -
  obtain u where u: "to_fp f32 (a + b) = Fin u" "0 \<le> u" "\<bar>u - (a + b)\<bar> \<le> (a + b) / 2 ^ 24 + 1 / 2 ^ 150"
    using to_fp_f32_near [of "a + b"] assms by auto
  have "u + c \<le> 2 ^ 111" using u(3) assms by (auto simp: abs_le_iff add_divide_distrib)
  then obtain v where v: "to_fp f32 (u + c) = Fin v" "0 \<le> v" "\<bar>v - (u + c)\<bar> \<le> (u + c) / 2 ^ 24 + 1 / 2 ^ 150"
    using to_fp_f32_near [of "u + c"] assms u(2) by auto
  have "v + d \<le> 2 ^ 112" using u(3) v(3) assms by (auto simp: abs_le_iff add_divide_distrib)
  then obtain t where t: "to_fp f32 (v + d) = Fin t" "0 \<le> t" "\<bar>t - (v + d)\<bar> \<le> (v + d) / 2 ^ 24 + 1 / 2 ^ 150"
    using to_fp_f32_near [of "v + d"] assms v(2) by auto
  have "\<bar>t - (a + b + c + d)\<bar> \<le> (a + b + c + d) / 2 ^ 22 + 1 / 2 ^ 148"
    using u(3) v(3) t(3) assms by (auto simp: abs_le_iff add_divide_distrib)
  then show ?thesis using u(1) v(1) t by (simp add: rail_sum_def)
qed

text \<open>The factor of the total limit \<open>l\<close> and a current \<open>x\<close> scaled with it.\<close>

lemma scale_near:
  assumes "0 < l" "l < t"
  shows "\<exists>s. to_fp f32 (l / t) = Fin s \<and> 0 \<le> s \<and> s \<le> 1 \<and> \<bar>s - l / t\<bar> \<le> (l / t) / 2 ^ 24 + 1 / 2 ^ 150"
proof -
  have r: "0 \<le> l / t" "l / t \<le> 1" using assms by simp_all
  have one: "rnd f32 1 = 1" using rnd_of_int [of 1 f32] by (simp add: f32_def)
  have "rnd f32 (l / t) \<le> 1" using rnd_mono [OF r, of f32] one by (simp add: f32_def)
  moreover have "l / t \<le> 2 ^ 120" using r(2) by simp
  ultimately show ?thesis using to_fp_f32_near [OF r(1)] by auto
qed

lemma scaled_near:
  assumes "0 \<le> x" "x \<le> 2 ^ 102" "0 < l" "l < t" "0 \<le> s" "s \<le> 1" "\<bar>s - l / t\<bar> \<le> (l / t) / 2 ^ 24 + 1 / 2 ^ 150"
  shows "\<exists>y. to_fp f32 (x * s) = Fin y \<and> 0 \<le> y \<and> \<bar>y - x * s\<bar> \<le> x * s / 2 ^ 24 + 1 / 2 ^ 150 \<and>
    \<bar>y - x * l / t\<bar> \<le> x * l / t / 2 ^ 20 + 1 / 2 ^ 40"
proof -
  have xs: "0 \<le> x * s" "x * s \<le> 2 ^ 102" using assms(1,2,5,6) mult_left_mono [of s 1 x] by (simp_all del: mult_le_cancel_left1)
  then obtain y where y: "to_fp f32 (x * s) = Fin y" "0 \<le> y" "\<bar>y - x * s\<bar> \<le> x * s / 2 ^ 24 + 1 / 2 ^ 150"
    using to_fp_f32_near [of "x * s"] by auto
  define r where "r = x * (l / t)"
  have r: "0 \<le> r" using assms(1,3,4) by (simp add: r_def)
  have "x * s - r = x * (s - l / t)" by (simp only: r_def right_diff_distrib)
  then have "\<bar>x * s - r\<bar> = x * \<bar>s - l / t\<bar>" using assms(1) by (simp only: abs_mult abs_of_nonneg)
  also have "\<dots> \<le> x * ((l / t) / 2 ^ 24 + 1 / 2 ^ 150)" using assms(7,1) by (rule mult_left_mono)
  also have "\<dots> = r / 2 ^ 24 + x / 2 ^ 150" by (simp add: r_def algebra_simps)
  finally have "\<bar>x * s - r\<bar> \<le> r / 2 ^ 24 + 1 / 2 ^ 48" using assms(2) by simp
  with y(3) r have "\<bar>y - r\<bar> \<le> r / 2 ^ 20 + 1 / 2 ^ 40" by (simp add: abs_le_iff add_divide_distrib)
  then show ?thesis using y by (auto simp: r_def)
qed

text \<open>Scaled with the factor, the currents add up to the limit.\<close>

lemma limited_total:
  fixes l t s a b c d :: rat
  assumes "0 < l" "l < t" "0 \<le> s" "s \<le> 1" "\<bar>s - l / t\<bar> \<le> (l / t) / 2 ^ 24 + 1 / 2 ^ 150"
    and "0 \<le> S" "S \<le> 2 ^ 103" "\<bar>t - S\<bar> \<le> S / 2 ^ 22 + 1 / 2 ^ 148"
    and "\<bar>Y - S * s\<bar> \<le> S * s / 2 ^ 24 + 1 / 2 ^ 148" "\<bar>u - Y\<bar> \<le> Y / 2 ^ 22 + 1 / 2 ^ 148"
  shows "\<bar>u - l\<bar> \<le> l / 2 ^ 20 + 1 / 2 ^ 40"
proof -
  have "\<bar>t * s - l\<bar> = t * \<bar>s - l / t\<bar>" using assms(1,2) by (simp add: abs_mult_pos' flip: right_diff_distrib) (simp add: right_diff_distrib)
  also have "\<dots> \<le> t * ((l / t) / 2 ^ 24 + 1 / 2 ^ 150)" using assms(1,2,5) by (intro mult_left_mono) simp_all
  also have "\<dots> = l / 2 ^ 24 + t / 2 ^ 150" using assms(1,2) by (simp add: field_simps)
  finally have ts: "\<bar>t * s - l\<bar> \<le> l / 2 ^ 24 + t / 2 ^ 150" .
  have "\<bar>t * s - S * s\<bar> = \<bar>t - S\<bar> * s" using assms(3) by (simp add: abs_mult flip: left_diff_distrib)
  also have "\<dots> \<le> (S / 2 ^ 22 + 1 / 2 ^ 148) * s" using assms(8,3) by (rule mult_right_mono)
  also have "\<dots> = S * s / 2 ^ 22 + s / 2 ^ 148" by (simp add: algebra_simps)
  finally have ss: "\<bar>t * s - S * s\<bar> \<le> S * s / 2 ^ 22 + 1 / 2 ^ 148" using assms(4) by simp
  have t: "t \<le> 2 ^ 104" using assms(7,8) by (simp add: abs_le_iff add_divide_distrib)
  have "0 \<le> S * s" using assms(3,6) by simp
  then show ?thesis using ts ss t assms(1,9,10) by (simp add: abs_le_iff add_divide_distrib)
qed

text \<open>
  What a rail asks for: its maximal current, halved in the economy mode; and what the total limit
  makes of it. Each current is then the rail's share of the limit and the total is the limit, up
  to the roundings of \<open>float\<close>: a relative error of \<open>2\<^sup>-\<^sup>2\<^sup>0\<close> and \<open>2\<^sup>-\<^sup>4\<^sup>0\<close> of an ampere.
\<close>

definition rail_demand :: "mem \<Rightarrow> nat \<Rightarrow> nat \<Rightarrow> fp" where
  "rail_demand m sw mx = (let i = rail_current m sw mx in if get_u8 m PSSECO \<noteq> 0 then fp_mul f32 i (Fin (1 / 2)) else i)"

definition total_demand :: "mem \<Rightarrow> fp" where
  "total_demand m = rail_sum (rail_demand m PSSPWR12 PSSMAXA12) (rail_demand m PSSPWR6 PSSMAXA6)
     (rail_demand m PSSPWR5 PSSMAXA5) (rail_demand m PSSPWR33 PSSMAXA33)"

definition over_limit :: "mem \<Rightarrow> bool" where
  "over_limit m \<longleftrightarrow> fp_lt (Fin 0) (get_f32 m PSSMAXA) \<and> fp_lt (get_f32 m PSSMAXA) (total_demand m)"

definition near :: "fp \<Rightarrow> rat \<Rightarrow> bool" where
  "near v x \<longleftrightarrow> (\<exists>y. v = Fin y \<and> \<bar>y - x\<bar> \<le> x / 2 ^ 20 + 1 / 2 ^ 40)"

definition rail_settings :: "mem \<Rightarrow> bool" where
  "rail_settings m \<longleftrightarrow> list_all (\<lambda>p. \<exists>x. get_f32 m p = Fin x \<and> x \<le> 2 ^ 100) [PSSMAXA12, PSSMAXA6, PSSMAXA5, PSSMAXA33]"

definition pss_currents :: "(nat \<times> nat \<times> nat) list" where
  "pss_currents = [(PSSPWR12, PSSMAXA12, PSSA12), (PSSPWR6, PSSMAXA6, PSSA6), (PSSPWR5, PSSMAXA5, PSSA5), (PSSPWR33, PSSMAXA33, PSSA33)]"

lemma currents_demand:
  "currents m =
     (let a = rail_demand m PSSPWR12 PSSMAXA12; b = rail_demand m PSSPWR6 PSSMAXA6; c = rail_demand m PSSPWR5 PSSMAXA5;
          d = rail_demand m PSSPWR33 PSSMAXA33; t = total_demand m; s = fp_div f32 (get_f32 m PSSMAXA) t;
          a' = fp_mul f32 a s; b' = fp_mul f32 b s; c' = fp_mul f32 c s; d' = fp_mul f32 d s
      in if over_limit m then (a', b', c', d', rail_sum a' b' c' d') else (a, b, c, d, t))"
proof -
  have "fp_lt (Fin 0) l \<and> fp_lt l t \<Longrightarrow> fp_lt (Fin 0) t" for l t by (cases l; cases t) auto
  then show ?thesis by (auto simp: currents_def rail_demand_def total_demand_def over_limit_def Let_def)
qed

lemma demand_amount:
  assumes "get_f32 m mx = Fin x" "0 \<le> x" "x \<le> 2 ^ 100"
  shows "\<exists>y. rail_demand m sw mx = Fin y \<and> 0 \<le> y \<and> y \<le> 2 ^ 101"
proof -
  obtain h where "to_fp f32 (x / 2) = Fin h" "0 \<le> h" "\<bar>h - x / 2\<bar> \<le> (x / 2) / 2 ^ 24 + 1 / 2 ^ 150"
    using to_fp_f32_near [of "x / 2"] assms(2,3) by auto
  then show ?thesis using assms by (auto simp: rail_demand_def rail_current_def abs_le_iff Let_def)
qed

text \<open>What a step does to the currents of a system that is on.\<close>

definition currents_ruled :: "mem \<Rightarrow> bool" where
  "currents_ruled m \<longleftrightarrow>
     (\<not> over_limit m \<longrightarrow> list_all (\<lambda>(sw, mx, a). get_f32 m a = rail_demand m sw mx) pss_currents \<and> get_f32 m PSSA = total_demand m) \<and>
     (over_limit m \<and> rail_settings m \<longrightarrow>
        (\<exists>l t. get_f32 m PSSMAXA = Fin l \<and> total_demand m = Fin t \<and> near (get_f32 m PSSA) l \<and>
           list_all (\<lambda>(sw, mx, a). \<exists>x. rail_demand m sw mx = Fin x \<and> near (get_f32 m a) (x * l / t)) pss_currents))"

lemma limited_currents:
  assumes "rail_demand m PSSPWR12 PSSMAXA12 = Fin a" "rail_demand m PSSPWR6 PSSMAXA6 = Fin b" "rail_demand m PSSPWR5 PSSMAXA5 = Fin c"
    "rail_demand m PSSPWR33 PSSMAXA33 = Fin d" "0 \<le> a" "0 \<le> b" "0 \<le> c" "0 \<le> d" "a \<le> 2 ^ 101" "b \<le> 2 ^ 101" "c \<le> 2 ^ 101" "d \<le> 2 ^ 101"
    "over_limit m" "currents m = (i12, i6, i5, i33, tot)"
  shows "\<exists>l t. get_f32 m PSSMAXA = Fin l \<and> total_demand m = Fin t \<and> 0 < l \<and> l < t \<and> near tot l \<and>
    near i12 (a * l / t) \<and> near i6 (b * l / t) \<and> near i5 (c * l / t) \<and> near i33 (d * l / t)"
proof -
  obtain t where t: "total_demand m = Fin t" "0 \<le> t" "\<bar>t - (a + b + c + d)\<bar> \<le> (a + b + c + d) / 2 ^ 22 + 1 / 2 ^ 148"
    using rail_sum_near [OF assms(5-8)] assms(1-4,9-12) by (auto simp: total_demand_def)
  obtain l where l: "get_f32 m PSSMAXA = Fin l" "0 < l" "l < t"
    using assms(13) t(1) by (cases "get_f32 m PSSMAXA") (auto simp: over_limit_def)
  obtain s where s: "to_fp f32 (l / t) = Fin s" "0 \<le> s" "s \<le> 1" "\<bar>s - l / t\<bar> \<le> (l / t) / 2 ^ 24 + 1 / 2 ^ 150"
    using scale_near [OF l(2,3)] by blast
  have r: "\<exists>y. to_fp f32 (x * s) = Fin y \<and> 0 \<le> y \<and> \<bar>y - x * s\<bar> \<le> x * s / 2 ^ 24 + 1 / 2 ^ 150 \<and>
      near (Fin y) (x * l / t)" if "0 \<le> x" "x \<le> 2 ^ 101" for x
    using scaled_near [OF that(1) _ l(2,3) s(2-4)] that(2) by (auto simp: near_def)
  obtain y12 where y12: "to_fp f32 (a * s) = Fin y12" "0 \<le> y12" "\<bar>y12 - a * s\<bar> \<le> a * s / 2 ^ 24 + 1 / 2 ^ 150" "near (Fin y12) (a * l / t)"
    using r [OF assms(5,9)] by blast
  obtain y6 where y6: "to_fp f32 (b * s) = Fin y6" "0 \<le> y6" "\<bar>y6 - b * s\<bar> \<le> b * s / 2 ^ 24 + 1 / 2 ^ 150" "near (Fin y6) (b * l / t)"
    using r [OF assms(6,10)] by blast
  obtain y5 where y5: "to_fp f32 (c * s) = Fin y5" "0 \<le> y5" "\<bar>y5 - c * s\<bar> \<le> c * s / 2 ^ 24 + 1 / 2 ^ 150" "near (Fin y5) (c * l / t)"
    using r [OF assms(7,11)] by blast
  obtain y33 where y33: "to_fp f32 (d * s) = Fin y33" "0 \<le> y33" "\<bar>y33 - d * s\<bar> \<le> d * s / 2 ^ 24 + 1 / 2 ^ 150" "near (Fin y33) (d * l / t)"
    using r [OF assms(8,12)] by blast
  let ?S = "a + b + c + d" and ?Y = "y12 + y6 + y5 + y33"
  have dist: "?S * s = a * s + b * s + c * s + d * s" by (simp add: algebra_simps)
  have Y: "\<bar>?Y - ?S * s\<bar> \<le> ?S * s / 2 ^ 24 + 1 / 2 ^ 148"
    unfolding dist using y12(3) y6(3) y5(3) y33(3) by (auto simp: abs_le_iff add_divide_distrib)
  have "x * s \<le> 2 ^ 101" "0 \<le> x * s" if "0 \<le> x" "x \<le> 2 ^ 101" for x
    using mult_mono [of x "2 ^ 101" s 1] that s(2,3) by simp_all
  note p = this [OF assms(5,9)] this [OF assms(6,10)] this [OF assms(7,11)] this [OF assms(8,12)]
  have "?Y \<le> 2 ^ 110" using Y p unfolding dist by (auto simp: abs_le_iff add_divide_distrib)
  then obtain u where u: "rail_sum (Fin y12) (Fin y6) (Fin y5) (Fin y33) = Fin u" "\<bar>u - ?Y\<bar> \<le> ?Y / 2 ^ 22 + 1 / 2 ^ 148"
    using rail_sum_near [OF y12(2) y6(2) y5(2) y33(2)] by blast
  have "\<bar>u - l\<bar> \<le> l / 2 ^ 20 + 1 / 2 ^ 40"
    by (rule limited_total [OF l(2,3) s(2-4) _ _ t(3) Y u(2)]) (use assms(5-12) in simp_all)
  then have "near (Fin u) l" by (simp add: near_def)
  moreover have "fp_div f32 (Fin l) (Fin t) = Fin s" using l(2,3) s(1) by simp
  then have "i12 = Fin y12" "i6 = Fin y6" "i5 = Fin y5" "i33 = Fin y33" "tot = Fin u"
    using assms(13,14) y12(1) y6(1) y5(1) y33(1) u(1) by (simp_all add: currents_demand Let_def l(1) t(1) assms(1-4) del: One_nat_def)
  ultimately show ?thesis using l t(1) y12(4) y6(4) y5(4) y33(4) by simp
qed

lemma currents_rule:
  assumes "list_all (\<lambda>p. \<forall>x. get_f32 m p = Fin x \<longrightarrow> 0 \<le> x) [PSSMAXA12, PSSMAXA6, PSSMAXA5, PSSMAXA33]"
    "(get_f32 m PSSA12, get_f32 m PSSA6, get_f32 m PSSA5, get_f32 m PSSA33, get_f32 m PSSA) = currents m"
  shows "currents_ruled m"
proof -
  have off: "list_all (\<lambda>(sw, mx, a). get_f32 m a = rail_demand m sw mx) pss_currents \<and> get_f32 m PSSA = total_demand m" if "\<not> over_limit m"
    using that assms(2) by (simp add: currents_demand Let_def pss_currents_def del: One_nat_def)
  have on: "\<exists>l t. get_f32 m PSSMAXA = Fin l \<and> total_demand m = Fin t \<and> near (get_f32 m PSSA) l \<and>
      list_all (\<lambda>(sw, mx, a). \<exists>x. rail_demand m sw mx = Fin x \<and> near (get_f32 m a) (x * l / t)) pss_currents"
    if o: "over_limit m" "rail_settings m"
  proof -
    have d: "\<exists>y. rail_demand m sw mx = Fin y \<and> 0 \<le> y \<and> y \<le> 2 ^ 101" if "mx \<in> {PSSMAXA12, PSSMAXA6, PSSMAXA5, PSSMAXA33}" for sw mx
    proof -
      have "\<exists>x. get_f32 m mx = Fin x \<and> x \<le> 2 ^ 100" using o(2) that by (auto simp: rail_settings_def)
      then obtain x where "get_f32 m mx = Fin x" "x \<le> 2 ^ 100" by blast
      moreover from this(1) have "0 \<le> x" using assms(1) that by auto
      ultimately show ?thesis using demand_amount by blast
    qed
    obtain a where a: "rail_demand m PSSPWR12 PSSMAXA12 = Fin a" "0 \<le> a" "a \<le> 2 ^ 101" using d [of PSSMAXA12] by blast
    obtain b where b: "rail_demand m PSSPWR6 PSSMAXA6 = Fin b" "0 \<le> b" "b \<le> 2 ^ 101" using d [of PSSMAXA6] by blast
    obtain c where c: "rail_demand m PSSPWR5 PSSMAXA5 = Fin c" "0 \<le> c" "c \<le> 2 ^ 101" using d [of PSSMAXA5] by blast
    obtain e where e: "rail_demand m PSSPWR33 PSSMAXA33 = Fin e" "0 \<le> e" "e \<le> 2 ^ 101" using d [of PSSMAXA33] by blast
    from limited_currents [OF a(1) b(1) c(1) e(1) a(2) b(2) c(2) e(2) a(3) b(3) c(3) e(3) o(1) assms(2) [symmetric]]
    show ?thesis using a(1) b(1) c(1) e(1) by (auto simp: pss_currents_def)
  qed
  from off on show ?thesis unfolding currents_ruled_def by blast
qed

text \<open>
  C33: a step of the power model is safe whatever the commands left in its variables. It keeps every
  variable at its type and touches no variable of another system; the switches are 0 or 1
  afterwards; a rail whose switch is off has no current and no voltage; with the main switch off all
  rails are off and the total current, power and voltage are zero. With it on every rail that is on
  has the minimal voltage; as long as the rails together ask for no more than the maximal current (or
  that is zero, which means no limit) each of them gets its own maximum, halved in the economy mode;
  when they ask for more, for maxima that are finite and at most \<open>2\<^sup>1\<^sup>0\<^sup>0\<close>, the total is the maximal
  current and each rail gets its share of it, up to a relative error of \<open>2\<^sup>-\<^sup>2\<^sup>0\<close> and \<open>2\<^sup>-\<^sup>4\<^sup>0\<close> of an
  ampere; the total is the sum of the rails, the power is the total current or its limit, whichever
  is smaller, and the charge is between the minimal charge and 127.
\<close>

theorem pss_physics_safe:
  assumes "pss_typed m"
  defines "m' \<equiv> pss_sim_step m"
  shows "pss_typed m' \<and> (\<forall>q \<ge> PSS_COUNT. m' q = m q) \<and>
    list_all (\<lambda>p. get_u8 m' p \<le> 1) [PSSPWR, PSSPWR12, PSSPWR6, PSSPWR5, PSSPWR33, PSSECO] \<and>
    list_all (\<lambda>(sw, a, v). get_u8 m' sw = 0 \<longrightarrow> get_f32 m' a = Fin 0 \<and> get_f32 m' v = Fin 0) pss_rails \<and>
    (get_u8 m' PSSPWR = 0 \<longrightarrow> list_all (\<lambda>(sw, a, v). get_u8 m' sw = 0) pss_rails \<and>
       get_f32 m' PSSA = Fin 0 \<and> get_f32 m' PSSW = Fin 0 \<and> get_f32 m' PSSV = Fin 0) \<and>
    (get_u8 m' PSSPWR \<noteq> 0 \<longrightarrow>
       list_all (\<lambda>(sw, a, v). get_u8 m' sw \<noteq> 0 \<longrightarrow> get_f32 m' v = get_f32 m' PSSMINV) pss_rails \<and> currents_ruled m' \<and>
       get_f32 m' PSSA = rail_sum (get_f32 m' PSSA12) (get_f32 m' PSSA6) (get_f32 m' PSSA5) (get_f32 m' PSSA33) \<and>
       \<not> fp_lt (get_f32 m' PSSMAXW) (get_f32 m' PSSW) \<and> get_f32 m' PSSW \<in> {get_f32 m' PSSA, get_f32 m' PSSMAXW} \<and>
       0 \<le> get_i8 m' PSSMINC \<and> get_i8 m' PSSMINC \<le> get_i8 m' PSSC \<and> get_i8 m' PSSC \<le> 127)"
proof (cases "get_u8 m PSSPWR = 0")
  case True
  note o = physics_off [OF True]
  have "pss_typed m' \<and> (\<forall>q \<ge> PSS_COUNT. m' q = m q)"
    using same_outside_physics [OF assms(1)] by (simp add: same_outside_def m'_def pss_sim_step_def)
  moreover have "get_u8 m' PSSPWR = 0" by (simp add: m'_def pss_sim_step_def o)
  ultimately show ?thesis by (simp add: m'_def pss_sim_step_def o pss_rails_def)
next
  case False
  note o = physics_on [OF False]
  let ?l = "apply_control_limits m"
  have one: "get_u8 m' PSSPWR = 1" by (simp add: m'_def pss_sim_step_def o)
  have sw: "get_u8 m' p = get_u8 ?l p" if "p \<in> {PSSPWR12, PSSPWR6, PSSPWR5, PSSPWR33, PSSECO}" for p
    using o(2) [OF that] by (simp add: m'_def pss_sim_step_def)
  have c: "(get_u8 ?l PSSPWR12 = 0 \<longrightarrow> get_f32 m' PSSA12 = Fin 0) \<and> (get_u8 ?l PSSPWR6 = 0 \<longrightarrow> get_f32 m' PSSA6 = Fin 0) \<and>
      (get_u8 ?l PSSPWR5 = 0 \<longrightarrow> get_f32 m' PSSA5 = Fin 0) \<and> (get_u8 ?l PSSPWR33 = 0 \<longrightarrow> get_f32 m' PSSA33 = Fin 0) \<and>
      get_f32 m' PSSA = rail_sum (get_f32 m' PSSA12) (get_f32 m' PSSA6) (get_f32 m' PSSA5) (get_f32 m' PSSA33)"
    by (rule currents_off) (simp add: m'_def pss_sim_step_def o(3))
  have v: "(sw, a, v) \<in> set pss_rails \<Longrightarrow> get_f32 m' v = rail_voltage ?l sw (get_f32 ?l PSSMINV)" for sw a v
    using o(4) by (simp add: m'_def pss_sim_step_def)
  have w: "\<not> fp_lt (get_f32 m' PSSMAXW) (get_f32 m' PSSW)" "get_f32 m' PSSW \<in> {get_f32 m' PSSA, get_f32 m' PSSMAXW}"
    using min_le by (simp_all add: m'_def pss_sim_step_def o(6,10)) (simp add: fp_min_def)
  have mx: "get_f32 m' p = get_f32 ?l p" if "p \<in> {PSSMAXA, PSSMINV, PSSMAXA12, PSSMAXA6, PSSMAXA5, PSSMAXA33}" for p
    using that o(10) [of p] by (auto simp: m'_def pss_sim_step_def)
  have "currents m' = currents ?l" by (simp add: currents_def rail_current_def sw mx)
  moreover have "0 \<le> x" if "clamp_non_negative v = Fin x" for v x
    using that by (cases v) (auto simp: clamp_non_negative_def fp_max_def split: if_splits)
  then have "list_all (\<lambda>p. \<forall>x. get_f32 m' p = Fin x \<longrightarrow> 0 \<le> x) [PSSMAXA12, PSSMAXA6, PSSMAXA5, PSSMAXA33]"
    by (simp add: mx limits_get)
  ultimately have r: "currents_ruled m'" by (intro currents_rule) (simp_all add: m'_def pss_sim_step_def o(3))
  have vm: "get_f32 m' PSSMINV = get_f32 ?l PSSMINV" by (simp add: mx)
  have ch: "get_i8 m' PSSC = sint (discharge ?l)" "get_i8 m' PSSMINC = get_i8 ?l PSSMINC" by (simp_all add: m'_def pss_sim_step_def o)
  have m: "0 \<le> get_i8 ?l PSSMINC" by (simp add: limits_get sint_clamp_i8)
  have charge: "get_i8 ?l PSSMINC \<le> sint (discharge ?l) \<and> sint (discharge ?l) \<le> 127"
    using m get_i8_bounds [of ?l PSSMINC] get_i8_bounds [of ?l PSSC] by (auto simp: discharge_def Let_def sint_clamp_i8)
  have s: "get_u8 m' PSSECO \<le> 1" "get_u8 ?l PSSPWR12 \<le> 1" "get_u8 ?l PSSPWR6 \<le> 1" "get_u8 ?l PSSPWR5 \<le> 1" "get_u8 ?l PSSPWR33 \<le> 1"
    by (simp_all add: sw limits_get)
  have "pss_typed m' \<and> (\<forall>q \<ge> PSS_COUNT. m' q = m q)"
    using same_outside_physics [OF assms(1)] by (simp add: same_outside_def m'_def pss_sim_step_def)
  then show ?thesis using one sw c v w ch m charge s r vm by (auto simp: pss_rails_def rail_voltage_def)
qed

definition pss_demo_mem :: mem where
  "pss_demo_mem = sim_vars(PSSPWR := V_u8 7)"

lemma sim_vars_typed: "pss_typed sim_vars"
proof -
  have ids: "map fst sim_pss_vars = [0..<31]" by (simp add: sim_pss_vars_def upt_conv_Cons)
  have kinds: "list_all (\<lambda>(p, v). kind_of v = pss_kind p) sim_pss_vars" by (simp add: sim_pss_vars_def pss_kind_def)
  have "kind_of (sim_vars p) = pss_kind p" if "p < 31" for p
  proof -
    have "p \<in> set (map fst sim_pss_vars)" using that by (simp only: ids) simp
    then obtain v where "(p, v) \<in> set sim_pss_vars" by auto
    moreover from this have "sim_vars p = v" by (intro sim_vars_at) (simp add: all_vars_def)
    ultimately show ?thesis using kinds by (auto simp: list_all_iff)
  qed
  then show ?thesis by (simp add: pss_typed_def PSS_COUNT_def)
qed

text \<open>Out of the box, switched on, the four rails ask for 60.5 A and the limit is 12 A.\<close>

lemma demo_values:
  "get_u8 pss_demo_mem PSSPWR = 7" "get_u8 pss_demo_mem PSSECO = 0"
  "sw \<in> {PSSPWR12, PSSPWR6, PSSPWR5, PSSPWR33} \<Longrightarrow> get_u8 pss_demo_mem sw = 1"
  "get_f32 pss_demo_mem PSSMAXA = Fin 12" "get_f32 pss_demo_mem PSSMAXA12 = Fin 3" "get_f32 pss_demo_mem PSSMAXA6 = Fin 35"
  "get_f32 pss_demo_mem PSSMAXA5 = Fin 6" "get_f32 pss_demo_mem PSSMAXA33 = Fin (33 / 2)"
proof -
  have v: "sim_vars PSSPWR12 = V_u8 1" "sim_vars PSSPWR6 = V_u8 1" "sim_vars PSSPWR5 = V_u8 1" "sim_vars PSSPWR33 = V_u8 1"
    "sim_vars PSSECO = V_u8 0" "sim_vars PSSMAXA = V_f32 (Fin 12)" "sim_vars PSSMAXA12 = V_f32 (Fin 3)"
    "sim_vars PSSMAXA6 = V_f32 (Fin 35)" "sim_vars PSSMAXA5 = V_f32 (Fin 6)" "sim_vars PSSMAXA33 = V_f32 (Fin (33 / 2))"
    by (rule sim_vars_at, simp add: all_vars_def sim_pss_vars_def)+
  show "get_u8 pss_demo_mem PSSPWR = 7" "get_u8 pss_demo_mem PSSECO = 0"
    "get_f32 pss_demo_mem PSSMAXA = Fin 12" "get_f32 pss_demo_mem PSSMAXA12 = Fin 3" "get_f32 pss_demo_mem PSSMAXA6 = Fin 35"
    "get_f32 pss_demo_mem PSSMAXA5 = Fin 6" "get_f32 pss_demo_mem PSSMAXA33 = Fin (33 / 2)"
    using v by (simp_all add: pss_demo_mem_def get_u8_def get_f32_def)
  show "get_u8 pss_demo_mem sw = 1" if "sw \<in> {PSSPWR12, PSSPWR6, PSSPWR5, PSSPWR33}"
    using that v by (elim insertE emptyE) (simp_all add: pss_demo_mem_def get_u8_def)
qed

lemma demo_sum: "rail_sum (Fin 3) (Fin 35) (Fin 6) (Fin (33 / 2)) = Fin (121 / 2)"
  by code_simp

theorem pss_physics_safe_witness:
  "get_u8 (pss_sim_step pss_demo_mem) PSSPWR = 1 \<and> near (get_f32 (pss_sim_step pss_demo_mem) PSSA) 12 \<and>
   near (get_f32 (pss_sim_step pss_demo_mem) PSSA12) (3 * 12 / (121 / 2))"
proof -
  let ?m = "pss_sim_step pss_demo_mem"
  have t: "pss_typed pss_demo_mem" using sim_vars_typed by (simp add: pss_demo_mem_def pss_typed_def pss_kind_def)
  have on: "get_u8 pss_demo_mem PSSPWR \<noteq> 0" by (simp add: demo_values)
  note o = physics_on [OF on, folded pss_sim_step_def]
  have sw: "get_u8 ?m p = 1" if "p \<in> {PSSPWR12, PSSPWR6, PSSPWR5, PSSPWR33}" for p
    using that o(2) [of p] limits_get(2) [of p pss_demo_mem] demo_values(1,3) by auto
  have eco: "get_u8 ?m PSSECO = 0" using o(2) [of PSSECO] by (simp add: limits_get demo_values)
  have mx: "get_f32 ?m PSSMAXA = Fin 12" "get_f32 ?m PSSMAXA12 = Fin 3" "get_f32 ?m PSSMAXA6 = Fin 35"
    "get_f32 ?m PSSMAXA5 = Fin 6" "get_f32 ?m PSSMAXA33 = Fin (33 / 2)"
    by (simp_all add: o(10) limits_get demo_values clamp_non_negative_def fp_max_def)
  have d: "rail_demand ?m PSSPWR12 PSSMAXA12 = Fin 3" "rail_demand ?m PSSPWR6 PSSMAXA6 = Fin 35"
    "rail_demand ?m PSSPWR5 PSSMAXA5 = Fin 6" "rail_demand ?m PSSPWR33 PSSMAXA33 = Fin (33 / 2)"
    using sw eco mx by (simp_all add: rail_demand_def rail_current_def)
  have total: "total_demand ?m = Fin (121 / 2)" unfolding total_demand_def d by (rule demo_sum)
  have "rail_settings ?m" by (simp add: rail_settings_def mx) (rule exI [of _ "33 / 2"], simp)
  moreover have "over_limit ?m" by (simp add: over_limit_def mx total)
  moreover have one: "get_u8 ?m PSSPWR = 1" by (rule o(1))
  moreover have "currents_ruled ?m" using pss_physics_safe [OF t] one by (simp del: One_nat_def)
  ultimately obtain l tt where r: "get_f32 ?m PSSMAXA = Fin l" "total_demand ?m = Fin tt" "near (get_f32 ?m PSSA) l"
    "list_all (\<lambda>(sw, mx, a). \<exists>x. rail_demand ?m sw mx = Fin x \<and> near (get_f32 ?m a) (x * l / tt)) pss_currents"
    unfolding currents_ruled_def by blast
  have lt: "l = 12" "tt = 121 / 2" using r(1,2) mx(1) total by simp_all
  have "near (get_f32 ?m PSSA12) (3 * l / tt)" using r(4) d(1) by (simp add: pss_currents_def del: One_nat_def)
  then show ?thesis using one r(3) unfolding lt by blast
qed

subsection \<open>Where the model settles\<close>

definition toward :: "int \<Rightarrow> int \<Rightarrow> nat \<Rightarrow> int" where
  "toward a b n = (if a \<le> b then min (a + int n) b else max (a - int n) b)"

lemma move_int:
  assumes "\<bar>a\<bar> \<le> 2 ^ 23" "\<bar>b\<bar> \<le> 2 ^ 23"
  shows "move_towards_f32 (Fin (of_int a)) (Fin (of_int b)) (Fin 1) = Fin (of_int (toward a b 1))"
proof -
  have "to_fp f32 (of_int (a + 1)) = Fin (of_int (a + 1))" "to_fp f32 (of_int (a - 1)) = Fin (of_int (a - 1))"
    using assms exact_in_int(1) [of "a + 1"] exact_in_int(1) [of "a - 1"] by (simp_all add: exact_in_def)
  then have "to_fp f32 (of_int a + 1) = Fin (of_int a + 1)" "to_fp f32 (of_int a - 1) = Fin (of_int a - 1)" by simp_all
  moreover have "(of_int b :: rat) < of_int a + 1 \<longleftrightarrow> b < a + 1" "(of_int a - 1 :: rat) < of_int b \<longleftrightarrow> a - 1 < b"
    by (metis of_int_1 of_int_add of_int_less_iff) (metis of_int_1 of_int_diff of_int_less_iff)
  ultimately show ?thesis
    by (auto simp: move_towards_f32_def toward_def fp_sub_def fp_min_def fp_max_def)
qed

lemma toward_Suc: "toward (toward a b n) b 1 = toward a b (Suc n)"
  by (auto simp: toward_def)

lemma toward_bound: "\<bar>a\<bar> \<le> k \<Longrightarrow> \<bar>b\<bar> \<le> k \<Longrightarrow> \<bar>toward a b n\<bar> \<le> k"
  by (auto simp: toward_def)

lemma step_charge:
  assumes "get_u8 m PSSPWR \<noteq> 0"
  shows "get_i8 (pss_sim_step m) PSSMINC = max 0 (get_i8 m PSSMINC)"
    "get_i8 (pss_sim_step m) PSSC = max (max 0 (get_i8 m PSSMINC)) (get_i8 m PSSC - 1)"
  using get_i8_bounds [of m PSSMINC] get_i8_bounds [of m PSSC]
  by (auto simp: pss_sim_step_def physics_on [OF assms] limits_get sint_clamp_i8 discharge_def Let_def)

text \<open>
  C34: where the power model settles. With the main switch on and temperatures and limits that are
  whole numbers of magnitude at most 2^23, after n steps each temperature has moved n degrees towards
  its limit and then stays there, the main switch is still on, and the charge has fallen by n but
  never below the minimal charge.
\<close>

theorem pss_model_settles:
  assumes "get_u8 m PSSPWR \<noteq> 0"
    and "get_f32 m PSST1 = Fin (of_int a1)" "get_f32 m PSSMAXT1 = Fin (of_int b1)" "\<bar>a1\<bar> \<le> 2 ^ 23" "\<bar>b1\<bar> \<le> 2 ^ 23"
    and "get_f32 m PSST2 = Fin (of_int a2)" "get_f32 m PSSMAXT2 = Fin (of_int b2)" "\<bar>a2\<bar> \<le> 2 ^ 23" "\<bar>b2\<bar> \<le> 2 ^ 23"
  defines "aft \<equiv> \<lambda>n. (pss_sim_step ^^ n) m"
  shows "get_f32 (aft n) PSST1 = Fin (of_int (toward a1 b1 n)) \<and> get_f32 (aft n) PSST2 = Fin (of_int (toward a2 b2 n)) \<and>
    get_u8 (aft n) PSSPWR \<noteq> 0 \<and>
    (0 < n \<longrightarrow> get_i8 (aft n) PSSC = max (max 0 (get_i8 m PSSMINC)) (get_i8 m PSSC - int n))"
proof -
  have "get_f32 (aft n) PSST1 = Fin (of_int (toward a1 b1 n)) \<and> get_f32 (aft n) PSST2 = Fin (of_int (toward a2 b2 n)) \<and>
    get_f32 (aft n) PSSMAXT1 = Fin (of_int b1) \<and> get_f32 (aft n) PSSMAXT2 = Fin (of_int b2) \<and> get_u8 (aft n) PSSPWR \<noteq> 0 \<and>
    max 0 (get_i8 (aft n) PSSMINC) = max 0 (get_i8 m PSSMINC) \<and>
    (0 < n \<longrightarrow> get_i8 (aft n) PSSC = max (max 0 (get_i8 m PSSMINC)) (get_i8 m PSSC - int n))"
  proof (induction n)
    case 0
    show ?case using assms(1-9) by (simp add: aft_def toward_def)
  next
    case (Suc n)
    have e: "aft (Suc n) = pss_sim_step (aft n)" by (simp add: aft_def)
    have on: "get_u8 (aft n) PSSPWR \<noteq> 0" using Suc by blast
    have lim: "get_f32 (apply_control_limits (aft n)) PSSMAXT1 = get_f32 (aft n) PSSMAXT1"
      "get_f32 (apply_control_limits (aft n)) PSSMAXT2 = get_f32 (aft n) PSSMAXT2" by (simp_all add: limits_get)
    have mv: "move_towards_f32 (Fin (of_int (toward a1 b1 n))) (Fin (of_int b1)) (Fin 1) = Fin (of_int (toward a1 b1 (Suc n)))"
      "move_towards_f32 (Fin (of_int (toward a2 b2 n))) (Fin (of_int b2)) (Fin 1) = Fin (of_int (toward a2 b2 (Suc n)))"
      using move_int [of "toward a1 b1 n" b1] move_int [of "toward a2 b2 n" b2] assms(4,5,8,9)
      by (simp_all add: toward_bound toward_Suc [unfolded One_nat_def])
    have ch: "get_i8 (pss_sim_step (aft n)) PSSC = max (max 0 (get_i8 m PSSMINC)) (get_i8 (aft n) PSSC - 1)"
      using step_charge(2) [OF on] Suc by simp
    have nest: "max x (max x y - 1) = max x (y - 1)" for x y :: int by (simp add: max_def)
    have base: "n = 0 \<Longrightarrow> aft n = m" by (simp add: aft_def)
    have "get_i8 (pss_sim_step (aft n)) PSSC = max (max 0 (get_i8 m PSSMINC)) (get_i8 m PSSC - int (Suc n))"
      using Suc ch base by (cases "n = 0") (auto simp: nest diff_diff_eq)
    then show ?case
      using Suc mv step_charge(1) [OF on] by (simp add: e pss_sim_step_def physics_on [OF on] lim)
  qed
  then show ?thesis by blast
qed

theorem pss_model_settles_witness:
  "get_f32 ((pss_sim_step ^^ 100) pss_demo_mem) PSST1 = Fin 80 \<and> get_i8 ((pss_sim_step ^^ 100) pss_demo_mem) PSSC = 5"
proof -
  have v: "sim_vars PSST1 = V_f32 (Fin 0)" "sim_vars PSSMAXT1 = V_f32 (Fin 80)" "sim_vars PSST2 = V_f32 (Fin 0)"
    "sim_vars PSSMAXT2 = V_f32 (Fin 80)" "sim_vars PSSC = V_s8 0" "sim_vars PSSMINC = V_s8 5"
    by (rule sim_vars_at, simp add: all_vars_def sim_pss_vars_def)+
  have g: "get_u8 pss_demo_mem PSSPWR \<noteq> 0" "get_f32 pss_demo_mem PSST1 = Fin (of_int 0)" "get_f32 pss_demo_mem PSSMAXT1 = Fin (of_int 80)"
    "get_f32 pss_demo_mem PSST2 = Fin (of_int 0)" "get_f32 pss_demo_mem PSSMAXT2 = Fin (of_int 80)"
    "get_i8 pss_demo_mem PSSC = 0" "get_i8 pss_demo_mem PSSMINC = 5"
    using v by (simp_all add: pss_demo_mem_def get_u8_def get_f32_def get_i8_def)
  show ?thesis using pss_model_settles [OF g(1,2,3) _ _ g(4,5), of 100] g(6,7) by (simp add: toward_def)
qed

end
