(* ===== verification/SysTools.thy ===== *)
theory SysTools
  imports BusExchange
begin

text \<open>
  The helpers that every system's software shares, \<open>sub/internal/system_software_tools.hpp\<close>: its wire
  storage, its software state, and how the context and the bus state are bound to the storage.

  After binding, the message arrays of the storage are the very arrays that the bus state and the
  context point to. The model keeps them in the bus state: \<open>bus_wire\<close> reads the storage out of it,
  \<open>put_bus_wire\<close> writes it back. The byte views of the two frame buffers alias their block views,
  which the exchange uses whenever they are there, and are passed as null.
\<close>

record wire_storage =
  w_header :: hdr_views
  w_cmd_buf :: "u16 list"
  w_prm_buf :: "u16 list"
  w_prm :: "u16 list"
  w_cmd :: "u16 list"

record software_state =
  ss_initialized :: bool
  ss_tick :: tick_state
  ss_current_tick :: u32

definition wire_storage0 :: "nat \<Rightarrow> nat \<Rightarrow> nat \<Rightarrow> nat \<Rightarrow> wire_storage" where
  "wire_storage0 cmd_buf_blocks prm_buf_blocks cmd_blocks prm_blocks =
     \<lparr>w_header = (Some 0, Some (0, 0)), w_cmd_buf = replicate cmd_buf_blocks 0, w_prm_buf = replicate prm_buf_blocks 0,
      w_prm = replicate prm_blocks 0, w_cmd = replicate cmd_blocks 0\<rparr>"

definition software_state0 :: software_state where
  "software_state0 = \<lparr>ss_initialized = False, ss_tick = ISYSRESET, ss_current_tick = 0\<rparr>"

definition make_imsg_context :: "role_t \<Rightarrow> u8 \<Rightarrow> wire_storage \<Rightarrow> context_t" where
  "make_imsg_context role system_id wire =
     ISYSCTX role system_id (Some (w_prm wire)) (length (w_prm wire)) (Some (w_cmd wire)) (length (w_cmd wire))"

definition cleared :: "u16 list \<Rightarrow> u16 list" where
  "cleared xs = the (ISYSCLEAR (Some xs) (length xs))"

definition clear_wire_storage :: "wire_storage \<Rightarrow> wire_storage" where
  "clear_wire_storage wire = wire\<lparr>w_prm := cleared (w_prm wire), w_cmd := cleared (w_cmd wire),
     w_cmd_buf := cleared (w_cmd_buf wire), w_prm_buf := cleared (w_prm_buf wire), w_header := (Some 0, Some (0, 0))\<rparr>"

text \<open>The new state and the new \<open>last_tick_log_count\<close>.\<close>

definition reset_software_state :: "software_state \<times> u64" where
  "reset_software_state = (software_state0\<lparr>ss_initialized := True\<rparr>, 0)"

definition should_log_tick :: "tick_state \<Rightarrow> u64 \<Rightarrow> u32 \<Rightarrow> bool \<times> u64" where
  "should_log_tick tick last_tick_log_count tick_log_period =
     (let should_log = (tk_count tick \<le> 1 \<or> tk_clock tick = 1 \<or>
            last_tick_log_count + ucast tick_log_period \<le> tk_count tick)
      in if \<not> should_log then (False, last_tick_log_count) else (True, tk_count tick))"

definition bind_standard_bus :: "bus_role_t \<Rightarrow> u8 \<Rightarrow> u8 \<Rightarrow> u8 \<Rightarrow> wire_storage \<Rightarrow> bus_state" where
  "bind_standard_bus role system_id self_addr target_addr wire =
     IBUS_BIND_STD role system_id self_addr target_addr (w_header wire)
       None (Some (w_cmd_buf wire)) (length (w_cmd_buf wire))
       None (Some (w_prm_buf wire)) (length (w_prm_buf wire))
       (Some (w_cmd wire)) (Some (w_prm wire)) (length (w_cmd wire)) (length (w_prm wire))"

definition binding0 :: sim_binding where
  "binding0 = \<lparr>sb_id = 0, sb_kind = kind_s32, sb_domain = dom_plain, sb_ptr = None\<rparr>"

text \<open>The registry that the calling thread has bound afterwards.\<close>

definition build_isim_registry :: "param_entry list \<Rightarrow> nat \<Rightarrow> nat \<Rightarrow> u8 \<Rightarrow> registry_t option \<Rightarrow> registry_t option" where
  "build_isim_registry params count binding_count system_id g_registry =
     snd (snd (ISIMREG_BUILD (Some params) count (Some (replicate binding_count binding0)) system_id g_registry))"

definition hex_digit :: "u16 \<Rightarrow> char" where
  "hex_digit d = (if d < 10 then char_of (48 + unat d) else char_of (55 + unat d))"

definition hex4 :: "u16 \<Rightarrow> string" where
  "hex4 x = [hex_digit (drop_bit 12 x), hex_digit (drop_bit 8 x AND 0xF), hex_digit (drop_bit 4 x AND 0xF), hex_digit (x AND 0xF)]"

fun decimal :: "nat \<Rightarrow> string" where
  "decimal n = (if n < 10 then [char_of (48 + n)] else decimal (n div 10) @ [char_of (48 + n mod 10)])"

declare decimal.simps [simp del]

definition two_digits :: "nat \<Rightarrow> string" where
  "two_digits i = (if i < 10 then ''0'' else []) @ decimal i"

definition msg_word :: "nat \<Rightarrow> u16 \<Rightarrow> string" where
  "msg_word i x = (if i \<noteq> 0 then '' '' else []) @ two_digits i @ '':0x'' @ hex4 x"

definition format_msg_words :: "u16 list option \<Rightarrow> nat \<Rightarrow> string" where
  "format_msg_words data count =
     (case data of None \<Rightarrow> ''[]''
      | Some xs \<Rightarrow> if count = 0 then ''[]''
          else ''['' @ concat (map (\<lambda>i. msg_word i (xs ! i)) [0..<count]) @ '']'')"

subsection \<open>The storage inside the bus state\<close>

definition bus_wire :: "bus_state \<Rightarrow> wire_storage" where
  "bus_wire b = \<lparr>w_header = b_header b, w_cmd_buf = the (b_cmd_buf b), w_prm_buf = the (b_prm_buf b),
     w_prm = the (b_prm b), w_cmd = the (b_cmd b)\<rparr>"

definition put_bus_wire :: "wire_storage \<Rightarrow> bus_state \<Rightarrow> bus_state" where
  "put_bus_wire w b = b\<lparr>b_header := w_header w, b_cmd_buf := Some (w_cmd_buf w), b_prm_buf := Some (w_prm_buf w),
     b_prm := Some (w_prm w), b_cmd := Some (w_cmd w)\<rparr>"

lemma length_cleared [simp]: "length (cleared xs) = length xs"
  by (simp add: cleared_def ISYSCLEAR_def)

lemma cleared_replicate: "cleared xs = replicate (length xs) 0"
  by (simp add: cleared_def ISYSCLEAR_def)

text \<open>A bus state whose four arrays are bound.\<close>

definition bus_bound :: "bus_state \<Rightarrow> bool" where
  "bus_bound b \<longleftrightarrow> b_cmd b \<noteq> None \<and> b_prm b \<noteq> None \<and> b_cmd_buf b \<noteq> None \<and> b_prm_buf b \<noteq> None"

lemma bus_bound_bind [simp]: "bus_bound (bind_standard_bus r s a t w)"
  by (simp add: bus_bound_def bind_standard_bus_def IBUS_BIND_STD_def)

lemma byte_zero: "byte_lo 0 = 0" "byte_hi 0 = 0"
  by code_simp+

lemma bus_wf_bind:
  assumes "hdr_coherent (w_header w)"
  shows "bus_wf (bind_standard_bus r s a t w)"
  using assms by (simp add: bus_wf_def bind_standard_bus_def IBUS_BIND_STD_def bus_state0_def span_ok_def clamp_frame_blocks_def)

lemma hdr_coherent_zero [simp]: "hdr_coherent (Some 0, Some (0, 0))"
  by (simp add: hdr_coherent_def byte_zero)

lemma put_bus_wire_clear:
  assumes "bus_wf b" "bus_bound b"
  shows "bus_wf (put_bus_wire (clear_wire_storage (bus_wire b)) b)" "bus_bound (put_bus_wire (clear_wire_storage (bus_wire b)) b)"
  using assms by (auto simp: bus_wf_def bus_bound_def put_bus_wire_def clear_wire_storage_def bus_wire_def span_ok_def)

end
