(* ===== verification/PssNode.thy ===== *)
theory PssNode
  imports SysTools CmdExec PssSim
begin

text \<open>
  The software of the power system, \<open>pss/src/pss_support.cpp\<close> and \<open>pss/src/pss.cpp\<close>: one tick of the
  node steps the clock, executes the system commands, exports the model's parameters, runs one
  tick of the bus exchange and executes the power commands. The static variables of the node are
  the record \<open>pss_env\<close>; the memory in it is the model's. A result \<open>None\<close> is a conversion that C++ leaves
  unspecified. Log messages are left out.
\<close>

record pss_env =
  ps_soft :: software_state
  ps_bus :: bus_state
  ps_bus_ready :: bool
  ps_reg :: "registry_t option"
  ps_mem :: mem
  ps_last_tick_log :: u64

definition pss_wire0 :: wire_storage where
  "pss_wire0 = wire_storage0 (comm_msg_blocks SYS_PSS) (param_msg_blocks SYS_PSS) (comm_msg_blocks SYS_PSS) (param_msg_blocks SYS_PSS)"

definition pss_env0 :: "mem \<Rightarrow> pss_env" where
  "pss_env0 m = \<lparr>ps_soft = software_state0, ps_bus = bus_state0, ps_bus_ready = False, ps_reg = None,
     ps_mem = m, ps_last_tick_log = 0\<rparr>"

text \<open>The context points to the message arrays of the storage, which the bus state holds.\<close>

definition pss_ctx :: "pss_env \<Rightarrow> context_t" where
  "pss_ctx e = make_imsg_context role_device SYS_PSS (bus_wire (ps_bus e))"

definition put_pss_ctx :: "context_t \<Rightarrow> pss_env \<Rightarrow> pss_env" where
  "put_pss_ctx ctx e = e\<lparr>ps_bus := (ps_bus e)\<lparr>b_prm := msg_prm ctx, b_cmd := msg_cmd ctx\<rparr>\<rparr>"

definition clear_command :: "nat \<Rightarrow> pss_env \<Rightarrow> pss_env" where
  "clear_command command_id e = put_pss_ctx (ICMDCLEAR (pss_ctx e) command_id) e"

subsection \<open>System commands\<close>

definition normalize_system_clock :: "u32 \<Rightarrow> u8" where
  "normalize_system_clock raw = (if sint raw \<le> 0 then 1 else if sint raw > 255 then 255 else ucast raw)"

definition export_override :: "pss_env \<Rightarrow> nat \<Rightarrow> fp option" where
  "export_override e i = (if i \<noteq> PSSCLOCK then None else Some (fp_of_int f32 (uint (tk_clock (ss_tick (ps_soft e))))))"

definition apply_i32_command :: "nat \<Rightarrow> nat \<Rightarrow> u32 \<Rightarrow> pss_env \<Rightarrow> (bool \<times> pss_env) option" where
  "apply_i32_command command_id param_id value e =
     (if \<not> ICMDACT (pss_ctx e) command_id then Some (False, e)
      else (case ISIMSETI32 (ps_reg e) (ps_mem e) param_id value of None \<Rightarrow> None
        | Some (st, m) \<Rightarrow>
            if st \<noteq> sim_ok then Some (False, e\<lparr>ps_mem := m\<rparr>)
            else Some (True, clear_command command_id (e\<lparr>ps_mem := m\<rparr>))))"

definition apply_f32_command :: "nat \<Rightarrow> nat \<Rightarrow> pss_env \<Rightarrow> (bool \<times> pss_env) option" where
  "apply_f32_command command_id param_id e =
     (if \<not> ICMDACT (pss_ctx e) command_id then Some (False, e)
      else (case ISIMSETF32 (ps_reg e) (ps_mem e) param_id (ICMDF32 (pss_ctx e) command_id (Fin 0)) of None \<Rightarrow> None
        | Some (st, m) \<Rightarrow>
            if st \<noteq> sim_ok then Some (False, e\<lparr>ps_mem := m\<rparr>)
            else Some (True, clear_command command_id (e\<lparr>ps_mem := m\<rparr>))))"

text \<open>The cases that store the integer value of the command, \<open>CPSSMAXT1\<close>, \<open>CPSSMAXT2\<close> and \<open>CPSSMINC\<close>.\<close>

definition apply_value_command :: "nat \<Rightarrow> nat \<Rightarrow> pss_env \<Rightarrow> pss_env option" where
  "apply_value_command command_id param_id e =
     (case ICMDVAL (pss_ctx e) command_id 0 of None \<Rightarrow> None
      | Some v \<Rightarrow> (case ISIMSETI32 (ps_reg e) (ps_mem e) param_id v of None \<Rightarrow> None
        | Some (st, m) \<Rightarrow>
            if st = sim_ok then Some (clear_command command_id (e\<lparr>ps_mem := m\<rparr>)) else Some (e\<lparr>ps_mem := m\<rparr>)))"

definition execute_system_command :: "nat \<Rightarrow> pss_env \<Rightarrow> pss_env option" where
  "execute_system_command c e =
     (if \<not> ICMDACT (pss_ctx e) c then Some e
      else if c = CPSSINIT then map_option (\<lambda>m. clear_command c (e\<lparr>ps_mem := m\<rparr>)) (sim_pss_init_defaults (ps_mem e))
      else if c = CPSSPWR12ON then map_option snd (apply_i32_command c PSSPWR12 1 e)
      else if c = CPSSPWR12OFF then map_option snd (apply_i32_command c PSSPWR12 0 e)
      else if c = CPSSPWR6ON then map_option snd (apply_i32_command c PSSPWR6 1 e)
      else if c = CPSSPWR6OFF then map_option snd (apply_i32_command c PSSPWR6 0 e)
      else if c = CPSSPWR5ON then map_option snd (apply_i32_command c PSSPWR5 1 e)
      else if c = CPSSPWR5OFF then map_option snd (apply_i32_command c PSSPWR5 0 e)
      else if c = CPSSPWR33ON then map_option snd (apply_i32_command c PSSPWR33 1 e)
      else if c = CPSSPWR33OFF then map_option snd (apply_i32_command c PSSPWR33 0 e)
      else if c = CPSSECOON then map_option snd (apply_i32_command c PSSECO 1 e)
      else if c = CPSSECOOFF then map_option snd (apply_i32_command c PSSECO 0 e)
      else if c = CPSSMAXT1 then apply_value_command c PSSMAXT1 e
      else if c = CPSSMAXT2 then apply_value_command c PSSMAXT2 e
      else if c = CPSSMAXA then map_option snd (apply_f32_command c PSSMAXA e)
      else if c = CPSSMAXW then map_option snd (apply_f32_command c PSSMAXW e)
      else if c = CPSSMINC then apply_value_command c PSSMINC e
      else if c = CPSSMINV then map_option snd (apply_f32_command c PSSMINV e)
      else if c = CPSSMAXA12 then map_option snd (apply_f32_command c PSSMAXA12 e)
      else if c = CPSSMAXA6 then map_option snd (apply_f32_command c PSSMAXA6 e)
      else if c = CPSSMAXA5 then map_option snd (apply_f32_command c PSSMAXA5 e)
      else if c = CPSSMAXA33 then map_option snd (apply_f32_command c PSSMAXA33 e)
      else if c = CPSSCLOCK then
        map_option (\<lambda>v. clear_command c
            (e\<lparr>ps_soft := (ps_soft e)\<lparr>ss_tick := (ss_tick (ps_soft e))\<lparr>tk_clock := normalize_system_clock v\<rparr>\<rparr>\<rparr>))
          (ICMDVAL (pss_ctx e) c 0)
      else Some e)"

fun system_command_loop :: "nat list \<Rightarrow> pss_env \<Rightarrow> pss_env option" where
  "system_command_loop [] e = Some e"
| "system_command_loop (c # cs) e =
     (if c = CPSSPWRON \<or> c = CPSSPWROFF then system_command_loop cs e
      else (case execute_system_command c e of None \<Rightarrow> None | Some e1 \<Rightarrow> system_command_loop cs e1))"

definition apply_system_commands :: "pss_env \<Rightarrow> pss_env option" where
  "apply_system_commands e = system_command_loop [CPSS_BASE..<CPSS_BASE + CPSS_COUNT] e"

subsection \<open>Power commands\<close>

definition execute_power_command :: "nat \<Rightarrow> pss_env \<Rightarrow> pss_env option" where
  "execute_power_command c e =
     (if c = CPSSPWRON then map_option snd (apply_i32_command c PSSPWR 1 e)
      else if c = CPSSPWROFF then map_option snd (apply_i32_command c PSSPWR 0 e)
      else Some e)"

definition set_rail_off :: "nat \<Rightarrow> pss_env \<Rightarrow> pss_env option" where
  "set_rail_off p e = map_option (\<lambda>(st, m). e\<lparr>ps_mem := m\<rparr>) (ISIMSETI32 (ps_reg e) (ps_mem e) p 0)"

text \<open>The main switch as the node reads it, 0 when the store has none.\<close>

definition main_pwr :: "pss_env \<Rightarrow> u32 option" where
  "main_pwr e = map_option (\<lambda>(st, v). if st \<noteq> sim_ok then 0 else (case v of None \<Rightarrow> 0 | Some x \<Rightarrow> x))
     (ISIMGETI32 (ps_reg e) (ps_mem e) PSSPWR (Some 0))"

definition apply_power_commands :: "pss_env \<Rightarrow> pss_env option" where
  "apply_power_commands e =
     (case execute_power_command CPSSPWRON e of None \<Rightarrow> None
      | Some e1 \<Rightarrow> (case execute_power_command CPSSPWROFF e1 of None \<Rightarrow> None
        | Some e2 \<Rightarrow> (case main_pwr e2 of None \<Rightarrow> None
          | Some p \<Rightarrow> if p \<noteq> 0 then Some e2
              else Option.bind (set_rail_off PSSPWR12 e2) (\<lambda>e3.
                   Option.bind (set_rail_off PSSPWR6 e3) (\<lambda>e4.
                   Option.bind (set_rail_off PSSPWR5 e4) (\<lambda>e5. set_rail_off PSSPWR33 e5))))))"

subsection \<open>The node\<close>

definition pss_init_bus_state :: "pss_env \<Rightarrow> pss_env" where
  "pss_init_bus_state e =
     (if ps_bus_ready e then e
      else e\<lparr>ps_bus := bind_standard_bus bus_device SYS_PSS ARP_ADDR_PSS ARP_ADDR_CS pss_wire0, ps_bus_ready := True\<rparr>)"

definition pss_init_isim_registry :: "pss_env \<Rightarrow> pss_env" where
  "pss_init_isim_registry e =
     e\<lparr>ps_reg := build_isim_registry sim_pss_ISIM_PARAMS (length sim_pss_ISIM_PARAMS) PSS_COUNT SYS_PSS (ps_reg e)\<rparr>"

definition pss_is_power_on :: "pss_env \<Rightarrow> bool option" where
  "pss_is_power_on e = map_option (\<lambda>(st, v). st = sim_ok \<and> (case v of None \<Rightarrow> False | Some x \<Rightarrow> x \<noteq> 0))
     (ISIMGETI32 (ps_reg e) (ps_mem e) PSSPWR (Some 0))"

definition IPRMUPD :: "pss_env \<Rightarrow> pss_env option" where
  "IPRMUPD e =
     map_option (\<lambda>ctx. let e1 = put_pss_ctx ctx e in e1\<lparr>ps_bus := ISYS_SYNC_MSGPRM_TO_BUF (ps_bus e1)\<rparr>)
       (ISYS_EXPORT_MODEL_PARAMS (ps_reg e) (ps_mem e) (Some (export_override e)) PSS_BASE PSS_COUNT (pss_ctx e))"

definition ICMDUPD :: "pss_env \<Rightarrow> pss_env option" where "ICMDUPD e = apply_system_commands e"
definition PSS_LOCALSYSALG :: "pss_env \<Rightarrow> pss_env" where "PSS_LOCALSYSALG e = e"
definition ISYSNODES :: "pss_env \<Rightarrow> pss_env" where "ISYSNODES e = e"
definition ICMDPWRUPD :: "pss_env \<Rightarrow> pss_env option" where "ICMDPWRUPD e = apply_power_commands e"

text \<open>The hooks act on an environment that is \<open>None\<close> once a conversion was unspecified.\<close>

definition pss_base_hooks :: "pss_env option base_hooks" where
  "pss_base_hooks = \<lparr>
     hk_ISYSALG = \<lparr>hk_ICMDUPD = Some (\<lambda>e. Option.bind e ICMDUPD),
       hk_LOCALSYSALG = Some (map_option PSS_LOCALSYSALG), hk_ISYSNODES = Some (map_option ISYSNODES),
       hk_IPRMUPD = Some (\<lambda>e. Option.bind e IPRMUPD)\<rparr>,
     hk_IBUSEXCHANGE = None, hk_IEXCHANGECTRL = None,
     hk_ICMDPWRUPD = Some (\<lambda>e. Option.bind e ICMDPWRUPD), hk_ILOG = None\<rparr>"

definition pss_init_msg_buffers :: "pss_env \<Rightarrow> pss_env" where
  "pss_init_msg_buffers e =
     (let e1 = pss_init_bus_state e
      in e1\<lparr>ps_bus := put_bus_wire (clear_wire_storage (bus_wire (ps_bus e1))) (ps_bus e1)\<rparr>)"

definition pss_runtime_init :: "pss_env \<Rightarrow> pss_env" where
  "pss_runtime_init e =
     (let e1 = pss_init_isim_registry (pss_init_msg_buffers e); (soft, last) = reset_software_state
      in e1\<lparr>ps_soft := soft, ps_last_tick_log := last\<rparr>)"

definition env_bus :: "pss_env option \<Rightarrow> bus_state" where
  "env_bus e = (case e of None \<Rightarrow> bus_state0 | Some x \<Rightarrow> ps_bus x)"

definition env_tick :: "pss_env option \<Rightarrow> tick_state" where
  "env_tick e = (case e of None \<Rightarrow> ISYSRESET | Some x \<Rightarrow> ss_tick (ps_soft x))"

definition put_env_bus :: "pss_env option \<Rightarrow> bus_state \<Rightarrow> pss_env option" where
  "put_env_bus e b = map_option (\<lambda>x. x\<lparr>ps_bus := b\<rparr>) e"

definition put_env_tick :: "pss_env option \<Rightarrow> tick_state \<Rightarrow> pss_env option" where
  "put_env_tick e t = map_option (\<lambda>x. x\<lparr>ps_soft := (ps_soft x)\<lparr>ss_tick := t\<rparr>\<rparr>) e"

text \<open>One tick: the byte on the bus, the tick number; the byte written, if any, and the new state.\<close>

definition pss_runtime_step :: "u32 \<Rightarrow> u8 option \<Rightarrow> pss_env \<Rightarrow> u8 option \<times> pss_env option" where
  "pss_runtime_step tick rx e =
     (let e0 = (if \<not> ss_initialized (ps_soft e) then pss_runtime_init e else e);
          e1 = e0\<lparr>ps_soft := (ps_soft e0)\<lparr>ss_current_tick := tick\<rparr>, ps_bus := (ps_bus e0)\<lparr>b_writer_tick := tick\<rparr>\<rparr>
      in case pss_is_power_on e1 of None \<Rightarrow> (None, None)
         | Some power_on \<Rightarrow>
             ISYSBASEALG env_bus put_env_bus env_tick put_env_tick no_bus_hooks pss_base_hooks power_on rx (Some e1))"

end
