(* ===== verification/PssRun.thy ===== *)
theory PssRun
  imports PssNode
begin

text \<open>
  What the software of the power system does: its registry, the invariant of the node, the
  execution of the commands it received, the switch-off of the rails, the parameters it exports and
  its tick.
\<close>

subsection \<open>The registry and the memory\<close>

definition pss_registry :: registry_t where
  "pss_registry = the (build_isim_registry sim_pss_ISIM_PARAMS PSS_COUNT PSS_COUNT SYS_PSS None)"

lemma pss_rows: "map pe_id sim_pss_ISIM_PARAMS = [0..<PSS_COUNT]" "map pe_ptr sim_pss_ISIM_PARAMS = map Some [0..<PSS_COUNT]"
  "map ISIMKIND sim_pss_ISIM_PARAMS = map pss_kind [0..<PSS_COUNT]" "length sim_pss_ISIM_PARAMS = PSS_COUNT"
  by (simp_all add: sim_tables prm_def PSS_COUNT_def upt_conv_Cons ISIMKIND_def pss_kind_def)

definition pss_binding :: "nat \<Rightarrow> sim_binding" where
  "pss_binding i = entry_binding (sim_pss_ISIM_PARAMS ! i)"

lemma pss_row:
  assumes "i < PSS_COUNT"
  shows "pe_id (sim_pss_ISIM_PARAMS ! i) = i" "pe_ptr (sim_pss_ISIM_PARAMS ! i) = Some i" "ISIMKIND (sim_pss_ISIM_PARAMS ! i) = pss_kind i"
proof -
  have "map pe_id sim_pss_ISIM_PARAMS ! i = i" "map pe_ptr sim_pss_ISIM_PARAMS ! i = Some i" "map ISIMKIND sim_pss_ISIM_PARAMS ! i = pss_kind i"
    unfolding pss_rows(1,2,3) using assms by simp_all
  then show "pe_id (sim_pss_ISIM_PARAMS ! i) = i" "pe_ptr (sim_pss_ISIM_PARAMS ! i) = Some i" "ISIMKIND (sim_pss_ISIM_PARAMS ! i) = pss_kind i"
    using assms pss_rows(4) by simp_all
qed

lemma pss_registry_build:
  assumes "pss_typed m"
  shows "build_isim_registry sim_pss_ISIM_PARAMS PSS_COUNT PSS_COUNT SYS_PSS g = Some pss_registry"
    "sim_inv pss_registry m" "i < PSS_COUNT \<Longrightarrow> find_binding pss_registry i = Some (pss_binding i)"
proof -
  have "list_all (row_variable m) sim_pss_ISIM_PARAMS"
    using assms pss_rows(4) by (auto simp: list_all_length row_variable_def pss_row pss_typed_def)
  moreover have "sorted_wrt (<) (map pe_id sim_pss_ISIM_PARAMS)" "distinct (map pe_ptr sim_pss_ISIM_PARAMS)"
    by (simp_all add: pss_rows distinct_map)
  moreover have "sim_pss_ISIM_PARAMS \<noteq> []" using pss_rows(4) by (auto simp: PSS_COUNT_def)
  ultimately have b: "\<exists>bs reg. ISIMREG_BUILD (Some sim_pss_ISIM_PARAMS) (length sim_pss_ISIM_PARAMS) (Some (replicate PSS_COUNT binding0)) SYS_PSS g =
      (Some bs, reg, Some reg) \<and> sim_inv reg m \<and> list_all (\<lambda>e. find_binding reg (pe_id e) = Some (entry_binding e)) sim_pss_ISIM_PARAMS" for g
    by (intro registry_build_sound) (simp_all add: pss_rows)
  have same: "snd (snd (ISIMREG_BUILD (Some ps) n (Some bs) s g)) = snd (snd (ISIMREG_BUILD (Some ps) n (Some bs) s None))" if "0 < n" for ps n bs s g
    using that by (simp add: ISIMREG_BUILD_def Let_def)
  have reg: "snd (snd (ISIMREG_BUILD (Some sim_pss_ISIM_PARAMS) PSS_COUNT (Some (replicate PSS_COUNT binding0)) SYS_PSS g)) = Some pss_registry" for g
    using b [of None] same [of PSS_COUNT sim_pss_ISIM_PARAMS "replicate PSS_COUNT binding0" SYS_PSS g]
    by (auto simp: pss_registry_def build_isim_registry_def pss_rows PSS_COUNT_def)
  then show "build_isim_registry sim_pss_ISIM_PARAMS PSS_COUNT PSS_COUNT SYS_PSS g = Some pss_registry" by (simp add: build_isim_registry_def)
  obtain bs r where r: "ISIMREG_BUILD (Some sim_pss_ISIM_PARAMS) PSS_COUNT (Some (replicate PSS_COUNT binding0)) SYS_PSS None = (Some bs, r, Some r)"
    "sim_inv r m" "list_all (\<lambda>e. find_binding r (pe_id e) = Some (entry_binding e)) sim_pss_ISIM_PARAMS"
    using b [of None] by (auto simp: pss_rows)
  then have e: "r = pss_registry" using reg [of None] by simp
  show "sim_inv pss_registry m" using r(2) e by simp
  show "i < PSS_COUNT \<Longrightarrow> find_binding pss_registry i = Some (pss_binding i)"
    using r(3) by (auto simp: e pss_binding_def list_all_length pss_rows pss_row)
qed

lemma find_pss: "i < PSS_COUNT \<Longrightarrow> find_binding pss_registry i = Some (pss_binding i)"
  by (rule pss_registry_build(3) [OF sim_vars_typed])

lemma pss_binding_fields:
  assumes "i < PSS_COUNT"
  shows "sb_ptr (pss_binding i) = Some i" "sb_kind (pss_binding i) = pss_kind i"
  using assms by (simp_all add: pss_binding_def entry_binding_def pss_row)

lemma pss_typed_inv: "pss_typed m \<longleftrightarrow> sim_inv pss_registry m"
proof
  assume inv: "sim_inv pss_registry m"
  have "kind_of (m i) = pss_kind i" if "i < PSS_COUNT" for i
    using find_binding_mem(3) [OF inv find_pss [OF that]] by (simp add: own_variable_def pss_binding_fields [OF that])
  then show "pss_typed m" by (simp add: pss_typed_def)
qed (rule pss_registry_build(2))

lemma pss_cell:
  assumes "pss_typed m" "i < PSS_COUNT"
  shows "sim_cell pss_registry m i = Some (m i)"
  using assms by (simp add: sim_cell_eq [OF assms(1) [unfolded pss_typed_inv]] find_pss pss_binding_fields)

text \<open>Setting a variable through the store.\<close>

lemma pss_set_i32:
  assumes "pss_typed m" "p < PSS_COUNT"
  obtains m' where "ISIMSETI32 (Some pss_registry) m p v = Some (sim_ok, m')" "pss_typed m'"
    "\<And>j. j < PSS_COUNT \<Longrightarrow> m' j = (if j = p then stored_i32 pss_registry p v else m j)"
proof -
  obtain m' where m': "ISIMSETI32 (Some pss_registry) m p v = Some (sim_ok, m')" "sim_inv pss_registry m'"
    "\<forall>j. sim_cell pss_registry m' j = (if j = p then Some (stored_i32 pss_registry p v) else sim_cell pss_registry m j)"
    using set_i32_eq [OF assms(1) [unfolded pss_typed_inv] find_pss [OF assms(2)], of v] by blast
  have t: "pss_typed m'" using m'(2) by (simp add: pss_typed_inv)
  have "m' j = (if j = p then stored_i32 pss_registry p v else m j)" if "j < PSS_COUNT" for j
    using m'(3) [rule_format, of j] pss_cell [OF t that] pss_cell [OF assms(1) that] by (auto split: if_splits)
  with m'(1) t show thesis by (rule that)
qed

lemma pss_set_f32:
  assumes "pss_typed m" "p < PSS_COUNT" "pss_kind p = kind_f32"
  obtains m' where "ISIMSETF32 (Some pss_registry) m p v = Some (sim_ok, m')" "pss_typed m'"
    "\<And>j. j < PSS_COUNT \<Longrightarrow> m' j = (if j = p then stored_f32 pss_registry p v else m j)"
proof -
  have "accepts_f32 pss_registry p v" using assms(2,3) by (simp add: accepts_f32_def find_pss pss_binding_fields)
  then obtain m' where m': "ISIMSETF32 (Some pss_registry) m p v = Some (sim_ok, m')" "sim_inv pss_registry m'"
    "\<forall>j. sim_cell pss_registry m' j = (if j = p then Some (stored_f32 pss_registry p v) else sim_cell pss_registry m j)"
    using set_f32_eq [OF assms(1) [unfolded pss_typed_inv] find_pss [OF assms(2)], of v] by blast
  have t: "pss_typed m'" using m'(2) by (simp add: pss_typed_inv)
  have "m' j = (if j = p then stored_f32 pss_registry p v else m j)" if "j < PSS_COUNT" for j
    using m'(3) [rule_format, of j] pss_cell [OF t that] pss_cell [OF assms(1) that] by (auto split: if_splits)
  with m'(1) t show thesis by (rule that)
qed

text \<open>
  C31: setting an integer parameter from a \<open>float\<close>. The rounded value is first reduced modulo 2^32 to an
  \<open>int32_t\<close> and only then clamped to the type and the domain of the parameter: it saturates for values
  whose rounding fits 32 bits and wraps beyond. No other parameter changes.
\<close>

theorem isim_set_f32_wraps_then_clamps:
  assumes "sim_inv reg m" "find_binding reg i = Some b" "sb_kind b \<noteq> kind_f32" "fits_i64 (rhaz x)"
  shows "\<exists>m'. ISIMSETF32 (Some reg) m i (Fin x) = Some (sim_ok, m') \<and> sim_inv reg m' \<and>
    ISIMGETI32 (Some reg) m' i (Some w) = Some (sim_ok, Some (word_of_int (saturated b (signed_take_bit 31 (rhaz x))))) \<and>
    (\<bar>rhaz x\<bar> < 2 ^ 31 \<longrightarrow> ISIMGETI32 (Some reg) m' i (Some w) = Some (sim_ok, Some (word_of_int (saturated b (rhaz x))))) \<and>
    (\<forall>j. j \<noteq> i \<longrightarrow> sim_cell reg m' j = sim_cell reg m j)"
proof -
  have k: "sb_kind b \<noteq> kind_u32"
    using find_binding_mem(3) [OF assms(1,2)] by (auto simp: own_variable_def split: option.splits)
  note st = stored_f32_rounded [OF assms(2,3) k assms(4)]
  have s: "sint (word_of_int n :: u32) = signed_take_bit 31 n" for n by (simp add: sint_sbintrunc')
  obtain y where y: "payload_i32 (sb_kind b) (word_of_int (rhaz x)) = Inr y" using payload_i32_total [OF k] by blast
  obtain m' where m': "ISIMSETF32 (Some reg) m i (Fin x) = Some (sim_ok, m')" "sim_inv reg m'"
    "\<forall>j. sim_cell reg m' j = (if j = i then Some (stored_f32 reg i (Fin x)) else sim_cell reg m j)"
    using set_f32_eq [OF assms(1,2) st(1)] by blast
  then have "sim_cell reg m' i = Some (domain_value b y)" by (simp add: st(2) stored_i32_def assms(2) y)
  from ISIMGETI32_cell [OF this] have g: "ISIMGETI32 (Some reg) m' i (Some w) =
      Some (sim_ok, Some (word_of_int (saturated b (signed_take_bit 31 (rhaz x)))))"
    using payload_saturated [OF y _ k] assms(3) by (simp add: s)
  have "\<bar>rhaz x\<bar> < 2 ^ 31 \<Longrightarrow> signed_take_bit 31 (rhaz x) = rhaz x"
    by (intro signed_take_bit_int_eq_self) auto
  with m' g show ?thesis by auto
qed

theorem isim_set_f32_wraps_then_clamps_witness:
  "\<exists>m'. ISIMSETF32 (Some pss_registry) sim_vars PSSC (Fin 3000000000) = Some (sim_ok, m') \<and>
     ISIMGETI32 (Some pss_registry) m' PSSC (Some 0) = Some (sim_ok, Some (- 128))"
proof -
  have c: "PSSC < PSS_COUNT" by (simp add: PSS_COUNT_def)
  have k: "sb_kind (pss_binding PSSC) = kind_s8" by (simp add: pss_binding_fields(2) [OF c] pss_kind_def)
  have f: "fits_i64 (rhaz 3000000000)" by code_simp
  have s: "max (- 128) (min 127 (signed_take_bit 31 (rhaz 3000000000))) = - 128" by code_simp
  have i: "sim_inv pss_registry sim_vars" using sim_vars_typed by (simp only: pss_typed_inv)
  show ?thesis
    using isim_set_f32_wraps_then_clamps [OF i find_pss [OF c] _ f, of 0] k s by (auto simp: saturated_def)
qed

lemma init_params_general:
  "list_all own_row_ok ps \<Longrightarrow> init_params ps m = Some (\<lambda>q. if q \<in> pe_id ` set ps then sim_vars q else m q)"
proof (induction ps arbitrary: m)
  case (Cons e es)
  then have "init_param m e = Some (m(pe_id e := sim_vars (pe_id e)))" by (auto simp: init_param_def own_row_ok_def)
  then show ?case using Cons by (auto simp: fun_eq_iff)
qed simp

lemma pss_init_defaults: "sim_pss_init_defaults m = Some (\<lambda>q. if q < PSS_COUNT then sim_vars q else m q)"
proof -
  have own: "list_all own_row_ok sim_pss_ISIM_PARAMS" using systems_own by (simp add: sim_systems_def)
  have e: "sim_pss_ISIM_PARAMS = sim_pss_PARAMS" using systems_append by (simp add: sim_systems_def empty_locals)
  have "pe_id ` set sim_pss_PARAMS = {0..<PSS_COUNT}"
    using arg_cong [OF pss_rows(1), of set] by (simp add: e)
  then show ?thesis
    using init_params_general [OF own, of m] by (simp add: e sim_pss_init_defaults_def empty_locals fun_eq_iff cong: if_cong)
qed

subsection \<open>The state of the node\<close>

text \<open>
  The bus state is well-formed and all its arrays have the length of the messages of the power
  system; the registry is the one that the node builds; the variables have their types.
\<close>

definition pss_bus_ok :: "bus_state \<Rightarrow> bool" where
  "pss_bus_ok b \<longleftrightarrow> bus_wf b \<and> bus_bound b \<and> b_role b = bus_device \<and> b_system_id b = SYS_PSS \<and>
     length (the (b_cmd b)) = comm_msg_blocks SYS_PSS \<and> length (the (b_prm b)) = param_msg_blocks SYS_PSS \<and>
     length (the (b_cmd_buf b)) = comm_msg_blocks SYS_PSS \<and> length (the (b_prm_buf b)) = param_msg_blocks SYS_PSS \<and>
     b_cmd_blocks b = comm_msg_blocks SYS_PSS \<and> b_prm_blocks b = param_msg_blocks SYS_PSS \<and>
     b_cmd_buf_blocks b = comm_msg_blocks SYS_PSS \<and> b_prm_buf_blocks b = param_msg_blocks SYS_PSS"

definition pss_inv :: "pss_env \<Rightarrow> bool" where
  "pss_inv e \<longleftrightarrow> ss_initialized (ps_soft e) \<and> ps_bus_ready e \<and> ps_reg e = Some pss_registry \<and>
     pss_typed (ps_mem e) \<and> pss_bus_ok (ps_bus e)"

text \<open>Two states that differ only in the commands, the parameters, the variables and the clock.\<close>

definition pss_ids :: "nat list" where "pss_ids = [CPSS_BASE..<CPSS_BASE + CPSS_COUNT]"

lemma pss_command_rows:
  "list_all (\<lambda>c. is_comm_id c \<and> te_sys_id (S_basecommtab ! (c - Param_max)) = SYS_PSS \<and>
     entry_identity (S_basecommtab ! (c - Param_max))) pss_ids"
  unfolding pss_ids_def by code_simp

lemma pss_ctx_simps [simp]:
  "ctx_role (pss_ctx e) = role_device" "ctx_system_id (pss_ctx e) = SYS_PSS"
  "msg_cmd (pss_ctx e) = Some (the (b_cmd (ps_bus e)))" "msg_cmd_blocks (pss_ctx e) = length (the (b_cmd (ps_bus e)))"
  "msg_prm (pss_ctx e) = Some (the (b_prm (ps_bus e)))" "msg_prm_blocks (pss_ctx e) = length (the (b_prm (ps_bus e)))"
  by (simp_all add: pss_ctx_def make_imsg_context_def ISYSCTX_def bus_wire_def)

lemma own_pss: "c \<in> set pss_ids \<Longrightarrow> own_command (pss_ctx e) c"
  using pss_command_rows by (auto simp: own_command_def list_all_iff)

lemma pss_device_cmds: "pss_inv e \<Longrightarrow> device_cmds (pss_ctx e)"
  by (simp add: device_cmds_def pss_inv_def pss_bus_ok_def blk_inv_def cmd_mem_def span_ok_def)

definition pss_slot :: "pss_env \<Rightarrow> nat \<Rightarrow> u32" where
  "pss_slot e c = the (blk_rd (cmd_mem (pss_ctx e)) (cmd_slot c))"

lemma pss_slot_read:
  assumes "pss_inv e" "c \<in> set pss_ids"
  shows "blk_rd (cmd_mem (pss_ctx e)) (cmd_slot c) = Some (pss_slot e c)"
  using own_command_slot(3) [OF pss_device_cmds [OF assms(1)] own_pss [OF assms(2)]] by (simp add: pss_slot_def)

lemma pss_active:
  assumes "pss_inv e" "c \<in> set pss_ids"
  shows "ICMDACT (pss_ctx e) c \<longleftrightarrow> pss_slot e c \<noteq> 0"
  by (simp add: ICMDACT_def read_command_raw_slot [OF pss_device_cmds [OF assms(1)] own_pss [OF assms(2)]] pss_slot_read [OF assms])

text \<open>The integer that the message field of a command holds.\<close>

definition pss_cmd_value :: "u32 \<Rightarrow> nat \<Rightarrow> int" where
  "pss_cmd_value raw c = (let r = S_basecommtab ! (c - Param_max) in
     sint (decode_raw raw (type_width_bits (te_type r)) (te_sign r = TYPE_SIGN)))"

lemma decode_raw_small:
  assumes "w \<in> {1, 8, 16}"
  shows "\<bar>sint (decode_raw raw w s)\<bar> < 2 ^ 16"
proof -
  have n: "0 < unat w" "unat w < 32" "unat w \<in> {1, 8, 16}" using assms by auto
  have small: "sint (word_of_int k :: u32) = k" if "\<bar>k\<bar> < 2 ^ 16" for k
    using that by (simp add: sint_sbintrunc' signed_take_bit_int_eq_self abs_less_iff)
  show ?thesis
  proof (cases s)
    case True
    let ?k = "signed_take_bit (unat w - 1) (uint raw)"
    have lo: "- (2 ^ (unat w - 1)) \<le> ?k" and hi: "?k < 2 ^ (unat w - 1)"
      by (simp_all add: signed_take_bit_int_greater_eq_minus_exp signed_take_bit_int_less_exp)
    have p: "(2::int) ^ (unat w - 1) \<le> 2 ^ 15" by (rule power_increasing) (use n(3) in auto)
    have "?k < 2 ^ 15" using hi p by (rule order_less_le_trans)
    moreover have "- (2 ^ 15) \<le> ?k" using p lo by (meson neg_le_iff_le order_trans)
    ultimately have k: "\<bar>?k\<bar> < 2 ^ 16" by (simp only: abs_less_iff) (simp del: One_nat_def)
    have "signed_take_bit (unat w - 1) raw = word_of_int ?k"
      using n(2) signed_take_bit_of_int [of "unat w - 1" "uint raw", where ?'a = "32 word"] by simp
    then show ?thesis using small [OF k] True k n by (simp add: decode_raw_signed)
  next
    case False
    let ?k = "take_bit (unat w) (uint raw)"
    have "?k < 2 ^ unat w" by (simp add: take_bit_int_less_exp)
    moreover have "(2::int) ^ unat w \<le> 2 ^ 16" by (rule power_increasing) (use n(3) in auto)
    ultimately have "?k < 2 ^ 16" by (rule order_less_le_trans)
    moreover have "0 \<le> ?k" by simp
    ultimately have k: "\<bar>?k\<bar> < 2 ^ 16" by (simp only: abs_of_nonneg)
    have "take_bit (unat w) raw = word_of_int ?k"
      using take_bit_of_int [of "unat w" "uint raw", where ?'a = "32 word"] by simp
    then show ?thesis using small [OF k] False k by (simp add: decode_raw_unsigned)
  qed
qed

lemma pss_get:
  assumes "pss_inv e" "c \<in> set pss_ids"
  shows "IMSGGET (pss_ctx e) c = (par_ok, Fin (of_int (pss_cmd_value (pss_slot e c) c)))"
    "\<bar>pss_cmd_value (pss_slot e c) c\<bar> < 2 ^ 16"
proof -
  let ?r = "S_basecommtab ! (c - Param_max)"
  have own: "own_command (pss_ctx e) c" by (rule own_pss [OF assms(2)])
  have row: "entry_identity ?r" "te_sys_id ?r = SYS_PSS" "is_comm_id c" using pss_command_rows assms(2) by (auto simp: list_all_iff)
  note pl = own_command_row(2) [OF own]
  have n: "nat (te_block_n ?r) < length (the (b_cmd (ps_bus e)))"
    using entry_placed_nat(2) [OF pl] row(2) assms(1) by (simp add: pss_inv_def pss_bus_ok_def)
  obtain item where fill: "fill_item_layout (msg_cmd (pss_ctx e)) None (msg_cmd_blocks (pss_ctx e)) (te_block_n ?r) ?r = Inr item"
    using fill_item_placed [OF pl, of "msg_cmd (pss_ctx e)" None "te_block_n ?r" "msg_cmd_blocks (pss_ctx e)"]
      entry_placed_nat(1) [OF pl] n by auto
  note f = fill_item_Inr [OF fill]
  have res: "resolve_for_parse (pss_ctx e) c = Inr item"
    using row(2,3) fill by (simp add: resolve_for_parse_def system_mismatch_def Let_def)
  have rd: "read_value (read_buf item) (block_count item) (ri_block_n item) (ri_block_offset item) (width_bits item) = Some (pss_slot e c)"
    using pss_slot_read [OF assms] f(1) unfolding blk_rd_def cmd_mem_def cmd_slot_def fill_item_slot [OF fill, symmetric]
    by simp
  have v: "sint (decode_raw (pss_slot e c) (width_bits item) (wire_signed item)) = pss_cmd_value (pss_slot e c) c"
    using f by (simp add: pss_cmd_value_def Let_def)
  show small: "\<bar>pss_cmd_value (pss_slot e c) c\<bar> < 2 ^ 16"
    using decode_raw_small [of "width_bits item"] f v by metis
  have ex: "exact_in f64 (of_int (pss_cmd_value (pss_slot e c) c))" "exact_in f32 (of_int (pss_cmd_value (pss_slot e c) c))"
    using small by (simp_all add: exact_in_int)
  have "identity_item item" using row(1) fill_item_clamp(2) [OF fill] by simp
  then show "IMSGGET (pss_ctx e) c = (par_ok, Fin (of_int (pss_cmd_value (pss_slot e c) c)))"
    using row(3) ex by (simp add: IMSGGET_def res rd v Let_def fp_of_int_def identity_decode del: of_int_sint)
qed

lemma pss_values:
  assumes "pss_inv e" "c \<in> set pss_ids"
  shows "ICMDVAL (pss_ctx e) c w = Some (word_of_int (pss_cmd_value (pss_slot e c) c))"
    "ICMDF32 (pss_ctx e) c y = Fin (of_int (pss_cmd_value (pss_slot e c) c))"
  using pss_get [OF assms] by (simp_all add: ICMDVAL_def ICMDF32_def lround_i32_def in_i64_def fits_i64_def abs_less_iff)

text \<open>The effect of an active command on the variables, for the integer \<open>n\<close> in its field.\<close>

definition pss_switches :: "(nat \<times> nat \<times> nat) list" where
  "pss_switches = [(CPSSPWR12ON, CPSSPWR12OFF, PSSPWR12), (CPSSPWR6ON, CPSSPWR6OFF, PSSPWR6), (CPSSPWR5ON, CPSSPWR5OFF, PSSPWR5),
     (CPSSPWR33ON, CPSSPWR33OFF, PSSPWR33), (CPSSECOON, CPSSECOOFF, PSSECO)]"

definition pss_settings :: "(nat \<times> nat) list" where
  "pss_settings = [(CPSSMAXT1, PSSMAXT1), (CPSSMAXT2, PSSMAXT2), (CPSSMAXA, PSSMAXA), (CPSSMAXW, PSSMAXW), (CPSSMINC, PSSMINC),
     (CPSSMINV, PSSMINV), (CPSSMAXA12, PSSMAXA12), (CPSSMAXA6, PSSMAXA6), (CPSSMAXA5, PSSMAXA5), (CPSSMAXA33, PSSMAXA33)]"

definition pss_setting :: "nat \<Rightarrow> int \<Rightarrow> value_t" where
  "pss_setting p n = (if p = PSSMINC then V_s8 (word_of_int (max (- 128) (min 127 n))) else V_f32 (Fin (of_int n)))"

definition cell_after :: "int \<Rightarrow> nat \<Rightarrow> nat \<Rightarrow> value_t \<Rightarrow> value_t" where
  "cell_after n q c v =
     (if c = CPSSINIT then sim_vars q
      else if (c, q) \<in> set (map (\<lambda>(on, _, p). (on, p)) pss_switches) then V_u8 1
      else if (c, q) \<in> set (map (\<lambda>(_, off, p). (off, p)) pss_switches) then V_u8 0
      else if (c, q) \<in> set pss_settings then pss_setting q n else v)"

lemma cell_after_cases:
  "(c, p) \<in> set (map (\<lambda>(on, _, p). (on, p)) pss_switches) \<Longrightarrow> cell_after n q c x = (if q = p then V_u8 1 else x)"
  "(c, p) \<in> set (map (\<lambda>(_, off, p). (off, p)) pss_switches) \<Longrightarrow> cell_after n q c x = (if q = p then V_u8 0 else x)"
  "(c, p) \<in> set pss_settings \<Longrightarrow> cell_after n q c x = (if q = p then pss_setting p n else x)"
  "cell_after n q CPSSCLOCK x = x"
proof -
  note d = cell_after_def pss_switches_def pss_settings_def
  show "cell_after n q c x = (if q = p then V_u8 1 else x)" if "(c, p) \<in> set (map (\<lambda>(on, _, p). (on, p)) pss_switches)"
    using that unfolding pss_switches_def list.map prod.case list.set insert_iff empty_iff prod.inject by (elim disjE conjE) (simp_all add: d)
  show "cell_after n q c x = (if q = p then V_u8 0 else x)" if "(c, p) \<in> set (map (\<lambda>(_, off, p). (off, p)) pss_switches)"
    using that unfolding pss_switches_def list.map prod.case list.set insert_iff empty_iff prod.inject by (elim disjE conjE) (simp_all add: d)
  show "cell_after n q c x = (if q = p then pss_setting p n else x)" if "(c, p) \<in> set pss_settings"
    using that unfolding pss_settings_def list.set insert_iff empty_iff prod.inject by (elim disjE conjE) (simp_all add: d)
  show "cell_after n q CPSSCLOCK x = x" by (simp add: d)
qed

lemma stored_bit: "p \<le> PSSECO \<Longrightarrow> stored_i32 pss_registry p 1 = V_u8 1 \<and> stored_i32 pss_registry p 0 = V_u8 0"
  by (simp add: stored_i32_def find_pss PSS_COUNT_def pss_binding_fields pss_kind_def payload_i32_def clamp_i32_max_min domain_value_def)

lemma pss_plain: "p \<in> snd ` set pss_settings \<Longrightarrow> sb_domain (pss_binding p) = dom_plain"
  by (auto simp: pss_settings_def pss_binding_def entry_binding_def ISIMDOMAIN_def sim_tables prm_def)

lemma stored_setting:
  assumes "p \<in> snd ` set pss_settings" "\<bar>n\<bar> < 2 ^ 16"
  shows "stored_i32 pss_registry p (word_of_int n) = pss_setting p n"
    "pss_kind p = kind_f32 \<Longrightarrow> stored_f32 pss_registry p (Fin (of_int n)) = pss_setting p n"
proof -
  have p: "p < PSS_COUNT" "pss_kind p = (if p = PSSMINC then kind_s8 else kind_f32)"
    using assms(1) by (auto simp: pss_settings_def pss_kind_def PSS_COUNT_def)
  have s: "sint (word_of_int n :: u32) = n"
    using assms(2) by (simp add: sint_sbintrunc' signed_take_bit_int_eq_self abs_less_iff)
  have "exact_in f32 (of_int n)" using assms(2) by (simp add: exact_in_int)
  with p s pss_plain [OF assms(1)] show "stored_i32 pss_registry p (word_of_int n) = pss_setting p n"
    "pss_kind p = kind_f32 \<Longrightarrow> stored_f32 pss_registry p (Fin (of_int n)) = pss_setting p n"
    by (auto simp: stored_i32_def stored_f32_def find_pss pss_binding_fields payload_i32_def payload_f32_def clamp_i32_max_min
        domain_value_def pss_setting_def fp_of_int_def clamp_f32_domain_def)
qed

lemma clear_ctx: "pss_ctx (clear_command c e) = ICMDCLEAR (pss_ctx e) c"
  by (auto simp: clear_command_def put_pss_ctx_def ICMDCLEAR_def pss_ctx_def make_imsg_context_def ISYSCTX_def bus_wire_def
      dest: write_value_length split: option.splits)

lemma pss_bus_ok_put:
  assumes "pss_bus_ok b" "length xs = param_msg_blocks SYS_PSS" "length ys = comm_msg_blocks SYS_PSS"
  shows "pss_bus_ok (b\<lparr>b_prm := Some xs, b_cmd := Some ys\<rparr>)"
  using assms by (auto simp: pss_bus_ok_def bus_wf_def bus_bound_def span_ok_def)

lemma clear_command_inv:
  assumes "pss_inv e" "c \<in> set pss_ids"
  shows "pss_inv (clear_command c e)" "\<And>j. j \<in> set pss_ids \<Longrightarrow> pss_slot (clear_command c e) j = (if j = c then 0 else pss_slot e j)"
    "ps_mem (clear_command c e) = ps_mem e"
proof -
  note cl = cmd_clear [OF pss_device_cmds [OF assms(1)] own_pss [OF assms(2)]]
  have "\<exists>ys. msg_cmd (ICMDCLEAR (pss_ctx e) c) = Some ys \<and> length ys = length (the (b_cmd (ps_bus e)))"
    by (auto simp: ICMDCLEAR_def dest: write_value_length split: option.splits)
  then obtain ys where ys: "msg_cmd (ICMDCLEAR (pss_ctx e) c) = Some ys" "length ys = length (the (b_cmd (ps_bus e)))" by blast
  have "msg_prm (ICMDCLEAR (pss_ctx e) c) = Some (the (b_prm (ps_bus e)))" using cl(3) by simp
  moreover have "pss_bus_ok ((ps_bus e)\<lparr>b_prm := Some (the (b_prm (ps_bus e))), b_cmd := Some ys\<rparr>)"
    using assms(1) ys(2) by (intro pss_bus_ok_put) (simp_all add: pss_inv_def pss_bus_ok_def)
  ultimately show "pss_inv (clear_command c e)"
    using assms(1) ys(1) by (simp add: clear_command_def put_pss_ctx_def pss_inv_def)
  show "pss_slot (clear_command c e) j = (if j = c then 0 else pss_slot e j)" if "j \<in> set pss_ids" for j
    using cl(5,6) own_pss [OF that] by (simp add: pss_slot_def clear_ctx)
qed (simp add: clear_command_def put_pss_ctx_def)

text \<open>A state after the command \<open>c\<close>: its field is zero, the others are as before, the variables changed as it says.\<close>

definition pss_after :: "pss_env \<Rightarrow> nat \<Rightarrow> pss_env \<Rightarrow> bool" where
  "pss_after e c e' \<longleftrightarrow> pss_inv e' \<and>
     (\<forall>j \<in> set pss_ids. pss_slot e' j = (if j = c then 0 else pss_slot e j)) \<and>
     (\<forall>q < PSS_COUNT. ps_mem e' q =
        (if pss_slot e c \<noteq> 0 then cell_after (pss_cmd_value (pss_slot e c) c) q c (ps_mem e q) else ps_mem e q))"

lemma pss_inv_mem: "pss_inv e \<Longrightarrow> pss_typed m \<Longrightarrow> pss_inv (e\<lparr>ps_mem := m\<rparr>)"
  by (simp add: pss_inv_def)

lemma pss_ctx_mem [simp]: "pss_ctx (e\<lparr>ps_mem := m\<rparr>) = pss_ctx e" "pss_slot (e\<lparr>ps_mem := m\<rparr>) c = pss_slot e c"
  "pss_ctx (e\<lparr>ps_soft := s\<rparr>) = pss_ctx e" "pss_slot (e\<lparr>ps_soft := s\<rparr>) c = pss_slot e c"
  by (simp_all add: pss_ctx_def pss_slot_def)

lemma pss_after_clear:
  assumes "pss_inv e" "c \<in> set pss_ids" "pss_slot e c \<noteq> 0" "pss_typed m"
    and "\<And>q. q < PSS_COUNT \<Longrightarrow> m q = cell_after (pss_cmd_value (pss_slot e c) c) q c (ps_mem e q)"
  shows "pss_after e c (clear_command c (e\<lparr>ps_mem := m\<rparr>))"
  using clear_command_inv [OF pss_inv_mem [OF assms(1,4)] assms(2)] assms(3,5) by (simp add: pss_after_def)

lemma pss_after_idle: "pss_inv e \<Longrightarrow> pss_slot e c = 0 \<Longrightarrow> pss_after e c e"
  by (simp add: pss_after_def)

text \<open>The three ways to store a value.\<close>

lemma apply_i32_after:
  assumes "pss_inv e" "c \<in> set pss_ids" "p < PSS_COUNT" "pss_slot e c \<noteq> 0"
    and "\<And>q x. cell_after (pss_cmd_value (pss_slot e c) c) q c x = (if q = p then stored_i32 pss_registry p v else x)"
  shows "\<exists>e'. apply_i32_command c p v e = Some (True, e') \<and> pss_after e c e'"
proof -
  have t: "pss_typed (ps_mem e)" and r: "ps_reg e = Some pss_registry" using assms(1) by (simp_all add: pss_inv_def)
  obtain m' where m': "ISIMSETI32 (Some pss_registry) (ps_mem e) p v = Some (sim_ok, m')" "pss_typed m'"
    "\<And>j. j < PSS_COUNT \<Longrightarrow> m' j = (if j = p then stored_i32 pss_registry p v else ps_mem e j)"
    using pss_set_i32 [OF t assms(3), of v] by metis
  have "pss_after e c (clear_command c (e\<lparr>ps_mem := m'\<rparr>))"
    using assms m' by (intro pss_after_clear) simp_all
  then show ?thesis using m'(1) r assms(4) by (auto simp: apply_i32_command_def pss_active [OF assms(1,2)])
qed

lemma apply_value_after:
  assumes "pss_inv e" "c \<in> set pss_ids" "(c, p) \<in> set pss_settings" "pss_slot e c \<noteq> 0"
    and "\<And>q x. cell_after (pss_cmd_value (pss_slot e c) c) q c x = (if q = p then pss_setting p (pss_cmd_value (pss_slot e c) c) else x)"
  shows "\<exists>e'. apply_value_command c p e = Some e' \<and> pss_after e c e'"
    "pss_kind p = kind_f32 \<Longrightarrow> \<exists>e'. apply_f32_command c p e = Some (True, e') \<and> pss_after e c e'"
proof -
  let ?n = "pss_cmd_value (pss_slot e c) c"
  have t: "pss_typed (ps_mem e)" and r: "ps_reg e = Some pss_registry" using assms(1) by (simp_all add: pss_inv_def)
  have p: "p \<in> snd ` set pss_settings" "p < PSS_COUNT" using assms(3) by (force simp: pss_settings_def PSS_COUNT_def)+
  note st = stored_setting [OF p(1) pss_get(2) [OF assms(1,2)]]
  note val = pss_values [OF assms(1,2)]
  obtain m' where m': "ISIMSETI32 (Some pss_registry) (ps_mem e) p (word_of_int ?n) = Some (sim_ok, m')" "pss_typed m'"
    "\<And>j. j < PSS_COUNT \<Longrightarrow> m' j = (if j = p then stored_i32 pss_registry p (word_of_int ?n) else ps_mem e j)"
    using pss_set_i32 [OF t p(2), of "word_of_int ?n"] by metis
  have "pss_after e c (clear_command c (e\<lparr>ps_mem := m'\<rparr>))"
    using assms m' st(1) by (intro pss_after_clear) simp_all
  then show "\<exists>e'. apply_value_command c p e = Some e' \<and> pss_after e c e'"
    using m'(1) r val(1) by (auto simp: apply_value_command_def)
  show "\<exists>e'. apply_f32_command c p e = Some (True, e') \<and> pss_after e c e'" if k: "pss_kind p = kind_f32"
  proof -
    obtain m' where m': "ISIMSETF32 (Some pss_registry) (ps_mem e) p (Fin (of_int ?n)) = Some (sim_ok, m')" "pss_typed m'"
      "\<And>j. j < PSS_COUNT \<Longrightarrow> m' j = (if j = p then stored_f32 pss_registry p (Fin (of_int ?n)) else ps_mem e j)"
      using pss_set_f32 [OF t p(2) k, of "Fin (of_int ?n)"] by metis
    have "pss_after e c (clear_command c (e\<lparr>ps_mem := m'\<rparr>))"
      using assms m' st(2) [OF k] by (intro pss_after_clear) simp_all
    then show ?thesis using m'(1) r val(2) assms(4) by (auto simp: apply_f32_command_def pss_active [OF assms(1,2)])
  qed
qed

lemma execute_after:
  assumes "pss_inv e" "c \<in> set pss_ids" "c \<noteq> CPSSPWRON" "c \<noteq> CPSSPWROFF"
  shows "\<exists>e'. execute_system_command c e = Some e' \<and> pss_after e c e'"
proof (cases "pss_slot e c = 0")
  case True
  then show ?thesis using assms pss_after_idle by (auto simp: execute_system_command_def pss_active)
next
  case False
  then have act: "ICMDACT (pss_ctx e) c" by (simp add: pss_active [OF assms(1,2)])
  note i32 = apply_i32_after [OF assms(1,2) _ False] and val = apply_value_after [OF assms(1,2) _ False]
  have p: "p \<le> PSSECO \<Longrightarrow> p < PSS_COUNT" for p by (simp add: PSS_COUNT_def)
  from assms(2) consider "c = CPSSINIT" | "c = CPSSCLOCK" | p where "(c, p) \<in> set (map (\<lambda>(on, _, p). (on, p)) pss_switches)"
    | p where "(c, p) \<in> set (map (\<lambda>(_, off, p). (off, p)) pss_switches)" | p where "(c, p) \<in> set pss_settings"
    using assms(3,4) by (simp add: pss_ids_def CPSS_BASE_def CPSS_COUNT_def upt_conv_Cons pss_switches_def pss_settings_def) metis
  then show ?thesis
  proof cases
    case 1
    have "pss_typed (\<lambda>q. if q < PSS_COUNT then sim_vars q else ps_mem e q)" using sim_vars_typed by (simp add: pss_typed_def)
    then have "pss_after e c (clear_command c (e\<lparr>ps_mem := \<lambda>q. if q < PSS_COUNT then sim_vars q else ps_mem e q\<rparr>))"
      using assms False 1 by (intro pss_after_clear) (simp_all add: cell_after_def)
    then show ?thesis using act 1 by (simp add: execute_system_command_def pss_init_defaults)
  next
    case 2
    let ?e = "e\<lparr>ps_soft := (ps_soft e)\<lparr>ss_tick := (ss_tick (ps_soft e))\<lparr>tk_clock :=
        normalize_system_clock (word_of_int (pss_cmd_value (pss_slot e c) c))\<rparr>\<rparr>\<rparr>"
    have inv: "pss_inv ?e" using assms(1) by (simp add: pss_inv_def)
    have "pss_after e c (clear_command c ?e)"
      using clear_command_inv [OF inv assms(2)] 2 by (simp add: pss_after_def cell_after_cases(4))
    then show ?thesis using act 2 pss_values(1) [OF assms(1,2), of 0] by (simp add: execute_system_command_def)
  next
    case (3 p)
    then have "p \<le> PSSECO" by (auto simp: pss_switches_def)
    note sp = p [OF this] and st = stored_bit [OF this]
    have "cell_after n q c x = (if q = p then stored_i32 pss_registry p 1 else x)" for n q x
      using cell_after_cases(1) [OF 3] st by simp
    moreover have "execute_system_command c e = map_option snd (apply_i32_command c p 1 e)"
      using 3 act unfolding pss_switches_def list.map prod.case list.set insert_iff empty_iff prod.inject
      by (elim disjE conjE) (simp_all add: execute_system_command_def)
    ultimately show ?thesis using i32 [OF sp, of 1] by auto
  next
    case (4 p)
    then have "p \<le> PSSECO" by (auto simp: pss_switches_def)
    note sp = p [OF this] and st = stored_bit [OF this]
    have "cell_after n q c x = (if q = p then stored_i32 pss_registry p 0 else x)" for n q x
      using cell_after_cases(2) [OF 4] st by simp
    moreover have "execute_system_command c e = map_option snd (apply_i32_command c p 0 e)"
      using 4 act unfolding pss_switches_def list.map prod.case list.set insert_iff empty_iff prod.inject
      by (elim disjE conjE) (simp_all add: execute_system_command_def)
    ultimately show ?thesis using i32 [OF sp, of 0] by auto
  next
    case (5 p)
    note v = val [OF 5 cell_after_cases(3) [OF 5]]
    have "pss_kind p = kind_f32 \<or> p = PSSMINC" using 5 by (auto simp: pss_settings_def pss_kind_def)
    moreover have "execute_system_command c e =
        (if p \<in> {PSSMAXT1, PSSMAXT2, PSSMINC} then apply_value_command c p e else map_option snd (apply_f32_command c p e))"
      using 5 act unfolding pss_settings_def list.set insert_iff empty_iff prod.inject
      by (elim disjE conjE) (simp_all add: execute_system_command_def)
    ultimately show ?thesis using v by auto
  qed
qed

definition cell_step :: "(nat \<Rightarrow> u32) \<Rightarrow> nat \<Rightarrow> nat \<Rightarrow> value_t \<Rightarrow> value_t" where
  "cell_step sl q c v = (if sl c = 0 \<or> c = CPSSPWRON \<or> c = CPSSPWROFF then v else cell_after (pss_cmd_value (sl c) c) q c v)"

lemma cell_step_cong: "sl c = sl' c \<Longrightarrow> cell_step sl q c v = cell_step sl' q c v"
  by (simp add: cell_step_def)

lemma system_command_loop_eq:
  "pss_inv e \<Longrightarrow> distinct cs \<Longrightarrow> set cs \<subseteq> set pss_ids \<Longrightarrow>
   \<exists>e'. system_command_loop cs e = Some e' \<and> pss_inv e' \<and>
     (\<forall>j \<in> set pss_ids. pss_slot e' j = (if j \<in> set cs \<and> j \<noteq> CPSSPWRON \<and> j \<noteq> CPSSPWROFF then 0 else pss_slot e j)) \<and>
     (\<forall>q < PSS_COUNT. ps_mem e' q = fold (cell_step (pss_slot e) q) cs (ps_mem e q))"
proof (induction cs arbitrary: e)
  case (Cons c cs)
  show ?case
  proof (cases "c = CPSSPWRON \<or> c = CPSSPWROFF")
    case True
    then show ?thesis using Cons.IH [OF Cons.prems(1)] Cons.prems(2,3) by (auto simp: cell_step_def)
  next
    case False
    then obtain e1 where e1: "execute_system_command c e = Some e1" "pss_after e c e1"
      using execute_after [OF Cons.prems(1)] Cons.prems(3) by auto
    obtain e2 where e2: "system_command_loop cs e1 = Some e2" "pss_inv e2"
      "\<forall>j \<in> set pss_ids. pss_slot e2 j = (if j \<in> set cs \<and> j \<noteq> CPSSPWRON \<and> j \<noteq> CPSSPWROFF then 0 else pss_slot e1 j)"
      "\<forall>q < PSS_COUNT. ps_mem e2 q = fold (cell_step (pss_slot e1) q) cs (ps_mem e1 q)"
      using Cons.IH [of e1] e1(2) Cons.prems(2,3) by (auto simp: pss_after_def)
    have "cell_step (pss_slot e1) q d v = cell_step (pss_slot e) q d v" if "d \<in> set cs" for d q v
      using e1(2) that Cons.prems(2,3) by (intro cell_step_cong) (auto simp: pss_after_def)
    then have "fold (cell_step (pss_slot e1) q) cs v = fold (cell_step (pss_slot e) q) cs v" for q v
      by (intro fold_cong) (auto simp: fun_eq_iff)
    moreover have "ps_mem e1 q = cell_step (pss_slot e) q c (ps_mem e q)" if "q < PSS_COUNT" for q
      using e1(2) that False by (simp add: pss_after_def cell_step_def)
    ultimately have "\<forall>q < PSS_COUNT. ps_mem e2 q = fold (cell_step (pss_slot e) q) (c # cs) (ps_mem e q)"
      using e2(4) by simp
    moreover have "\<forall>j \<in> set pss_ids. pss_slot e2 j = (if j \<in> set (c # cs) \<and> j \<noteq> CPSSPWRON \<and> j \<noteq> CPSSPWROFF then 0 else pss_slot e j)"
      using e2(3) e1(2) False by (auto simp: pss_after_def)
    ultimately show ?thesis using False e1(1) e2(1,2) by simp
  qed
qed simp

lemma cell_step_at:
  "cell_step sl q 52 v = (if sl 52 \<noteq> 0 then sim_vars q else v)"
  "cell_step sl q 53 v = v"
  "cell_step sl q 54 v = v"
  "cell_step sl q 75 v = v"
  "cell_step sl q 55 v = (if q = 1 \<and> sl 55 \<noteq> 0 then V_u8 1 else v)"
  "cell_step sl q 56 v = (if q = 1 \<and> sl 56 \<noteq> 0 then V_u8 0 else v)"
  "cell_step sl q 57 v = (if q = 2 \<and> sl 57 \<noteq> 0 then V_u8 1 else v)"
  "cell_step sl q 58 v = (if q = 2 \<and> sl 58 \<noteq> 0 then V_u8 0 else v)"
  "cell_step sl q 59 v = (if q = 3 \<and> sl 59 \<noteq> 0 then V_u8 1 else v)"
  "cell_step sl q 60 v = (if q = 3 \<and> sl 60 \<noteq> 0 then V_u8 0 else v)"
  "cell_step sl q 61 v = (if q = 4 \<and> sl 61 \<noteq> 0 then V_u8 1 else v)"
  "cell_step sl q 62 v = (if q = 4 \<and> sl 62 \<noteq> 0 then V_u8 0 else v)"
  "cell_step sl q 63 v = (if q = 5 \<and> sl 63 \<noteq> 0 then V_u8 1 else v)"
  "cell_step sl q 64 v = (if q = 5 \<and> sl 64 \<noteq> 0 then V_u8 0 else v)"
  "cell_step sl q 65 v = (if q = 7 \<and> sl 65 \<noteq> 0 then pss_setting 7 (pss_cmd_value (sl 65) 65) else v)"
  "cell_step sl q 66 v = (if q = 8 \<and> sl 66 \<noteq> 0 then pss_setting 8 (pss_cmd_value (sl 66) 66) else v)"
  "cell_step sl q 67 v = (if q = 9 \<and> sl 67 \<noteq> 0 then pss_setting 9 (pss_cmd_value (sl 67) 67) else v)"
  "cell_step sl q 68 v = (if q = 10 \<and> sl 68 \<noteq> 0 then pss_setting 10 (pss_cmd_value (sl 68) 68) else v)"
  "cell_step sl q 69 v = (if q = 11 \<and> sl 69 \<noteq> 0 then pss_setting 11 (pss_cmd_value (sl 69) 69) else v)"
  "cell_step sl q 70 v = (if q = 12 \<and> sl 70 \<noteq> 0 then pss_setting 12 (pss_cmd_value (sl 70) 70) else v)"
  "cell_step sl q 71 v = (if q = 13 \<and> sl 71 \<noteq> 0 then pss_setting 13 (pss_cmd_value (sl 71) 71) else v)"
  "cell_step sl q 72 v = (if q = 14 \<and> sl 72 \<noteq> 0 then pss_setting 14 (pss_cmd_value (sl 72) 72) else v)"
  "cell_step sl q 73 v = (if q = 15 \<and> sl 73 \<noteq> 0 then pss_setting 15 (pss_cmd_value (sl 73) 73) else v)"
  "cell_step sl q 74 v = (if q = 16 \<and> sl 74 \<noteq> 0 then pss_setting 16 (pss_cmd_value (sl 74) 74) else v)"
  by (simp_all add: cell_step_def cell_after_def pss_switches_def pss_settings_def)

lemma cells_after:
  "(on, off, p) \<in> set pss_switches \<Longrightarrow> fold (cell_step sl p) pss_ids v =
     (if sl off \<noteq> 0 then V_u8 0 else if sl on \<noteq> 0 then V_u8 1 else if sl CPSSINIT \<noteq> 0 then sim_vars p else v)"
  "(c, p) \<in> set pss_settings \<Longrightarrow> fold (cell_step sl p) pss_ids v =
     (if sl c \<noteq> 0 then pss_setting p (pss_cmd_value (sl c) c) else if sl CPSSINIT \<noteq> 0 then sim_vars p else v)"
  "p < PSS_COUNT \<Longrightarrow> p \<notin> snd ` snd ` set pss_switches \<Longrightarrow> p \<notin> snd ` set pss_settings \<Longrightarrow>
     fold (cell_step sl p) pss_ids v = (if sl CPSSINIT \<noteq> 0 then sim_vars p else v)"
proof -
  have ids: "pss_ids = [52, 53, 54, 55, 56, 57, 58, 59, 60, 61, 62, 63, 64, 65, 66, 67, 68, 69, 70, 71, 72, 73, 74, 75]"
    by (simp add: pss_ids_def CPSS_BASE_def CPSS_COUNT_def upt_conv_Cons)
  note d = cell_step_at ids
  show "(on, off, p) \<in> set pss_switches \<Longrightarrow> fold (cell_step sl p) pss_ids v =
     (if sl off \<noteq> 0 then V_u8 0 else if sl on \<noteq> 0 then V_u8 1 else if sl CPSSINIT \<noteq> 0 then sim_vars p else v)"
    unfolding pss_switches_def list.set insert_iff empty_iff prod.inject by (elim disjE conjE) (simp_all add: d)
  show "(c, p) \<in> set pss_settings \<Longrightarrow> fold (cell_step sl p) pss_ids v =
     (if sl c \<noteq> 0 then pss_setting p (pss_cmd_value (sl c) c) else if sl CPSSINIT \<noteq> 0 then sim_vars p else v)"
    unfolding pss_settings_def list.set insert_iff empty_iff prod.inject by (elim disjE conjE) (simp_all add: d)
  show "fold (cell_step sl p) pss_ids v = (if sl CPSSINIT \<noteq> 0 then sim_vars p else v)"
    if "p < PSS_COUNT" "p \<notin> snd ` snd ` set pss_switches" "p \<notin> snd ` set pss_settings"
    using that(2,3) by (simp add: d pss_switches_def pss_settings_def)
qed

subsection \<open>The parameters in a message\<close>

text \<open>The integer that the field of a parameter row holds in a message whose window starts at block \<open>base\<close>.\<close>

definition row_value :: "u16 list \<Rightarrow> nat \<Rightarrow> tab_entry \<Rightarrow> int" where
  "row_value xs base r = sint (decode_raw (ucast (bf_get (nat (te_block_offset r)) (unat (type_width_bits (te_type r)))
       (xs ! (base + nat (te_block_n r))))) (type_width_bits (te_type r)) (te_sign r = TYPE_SIGN))"

lemma device_set:
  assumes i: "is_param_id i" and d: "ctx_role d = role_device" "ctx_system_id d = te_sys_id (S_baseparamtab ! i)"
    "msg_prm d = Some xs" "msg_prm_blocks d = length xs" "length xs = param_msg_blocks (ctx_system_id d)"
    and q: "quantisable v"
  obtains ys where "IMSGSET d i (Fin v) = Some (par_ok, d\<lparr>msg_prm := Some ys\<rparr>)" "length ys = length xs"
    "row_value ys 0 (S_baseparamtab ! i) = entry_quantise (S_baseparamtab ! i) v"
    "\<And>j. is_param_id j \<Longrightarrow> j \<noteq> i \<Longrightarrow> te_sys_id (S_baseparamtab ! j) = ctx_system_id d \<Longrightarrow>
       row_value ys 0 (S_baseparamtab ! j) = row_value xs 0 (S_baseparamtab ! j)"
proof -
  let ?r = "S_baseparamtab ! i"
  have row: "entry_placed param_msg_blocks (S_baseparamtab ! j)" "entry_identity (S_baseparamtab ! j)" if "is_param_id j" for j
    using that param_row by (simp_all add: is_param_id_def)
  have ofs: "unat (word_of_int (te_block_offset (S_baseparamtab ! j)) :: u8) = nat (te_block_offset (S_baseparamtab ! j))"
    if "is_param_id j" for j
  proof -
    have "layout_supported (type_width_bits (te_type (S_baseparamtab ! j))) (te_block_offset (S_baseparamtab ! j))"
      using row(1) [OF that] by (simp add: entry_placed_def)
    from layout_offset [OF this] show ?thesis by (simp only: unat_eq_nat_uint)
  qed
  have bn: "0 \<le> te_block_n ?r" "nat (te_block_n ?r) < length xs"
    using entry_placed_nat(1,2) [OF row(1) [OF i]] d(2,5) by simp_all
  obtain item where fill: "fill_item_layout None (Some xs) (length xs) (te_block_n ?r) ?r = Inr item"
    using fill_item_placed [OF row(1) [OF i], of None "Some xs" "te_block_n ?r" "length xs"] bn by auto
  note f = fill_item_Inr [OF fill]
  obtain ys where ys: "prepare_raw_value item (Fin v) = Some (Inr (word_of_int (entry_quantise ?r v)))"
    "write_value (write_buf item) (block_count item) (ri_block_n item) (ri_block_offset item) (width_bits item)
       (encode_to_bits (word_of_int (entry_quantise ?r v)) (width_bits item)) = Some ys" "length ys = length xs"
    "sint (decode_raw (ucast (bf_get (unat (ri_block_offset item)) (unat (width_bits item)) (ys ! nat (te_block_n ?r))))
       (width_bits item) (wire_signed item)) = entry_quantise ?r v"
    using set_item [OF fill row(2) [OF i] q order_refl] by metis
  have "IMSGSET d i (Fin v) = Some (par_ok, d\<lparr>msg_prm := Some ys\<rparr>)"
    using i d fill ys(1,2) by (simp add: IMSGSET_def resolve_for_generate_def system_mismatch_def Let_def set_write_buf_def)
  moreover have "row_value ys 0 ?r = entry_quantise ?r v"
    using ys(4) f by (simp add: row_value_def ofs [OF i])
  moreover have "row_value ys 0 (S_baseparamtab ! j) = row_value xs 0 (S_baseparamtab ! j)"
    if j: "is_param_id j" "j \<noteq> i" "te_sys_id (S_baseparamtab ! j) = ctx_system_id d" for j
  proof -
    let ?s = "S_baseparamtab ! j"
    have "blk_wr (Some xs, length xs) (entry_slot ?r) (encode_to_bits (word_of_int (entry_quantise ?r v)) (width_bits item)) = Some (Some ys, length xs)"
      using ys(2) f by (simp add: blk_wr_def fill_item_slot [OF fill, symmetric])
    moreover have "blk_apart (entry_slot ?r) (entry_slot ?s)"
      using rows_apart [OF param_rows_ordered param_rows_placed, of i j] i j d(2) by (simp add: is_param_id_def)
    ultimately have "blk_rd (Some ys, length xs) (entry_slot ?s) = blk_rd (Some xs, length xs) (entry_slot ?s)"
      using blkmem.rd_wr_other by (simp add: blk_inv_def span_ok_def)
    moreover have "nat (te_block_n ?s) < length xs"
      using entry_placed_nat(2) [OF row(1) [OF j(1)]] j(3) d(5) by simp
    moreover have "slot_supported (word_of_int (te_block_offset ?s)) (type_width_bits (te_type ?s))"
      by (rule placed_slot_supported [OF row(1) [OF j(1)]])
    ultimately show ?thesis
      by (simp add: blk_rd_def entry_slot_def read_value_bf row_value_def ofs [OF j(1)])
  qed
  ultimately show thesis using that ys(3) by blast
qed

lemma pss_param_rows: "j < PSS_COUNT \<Longrightarrow> is_param_id j \<and> te_sys_id (S_baseparamtab ! j) = SYS_PSS"
proof -
  have "list_all (\<lambda>j. is_param_id j \<and> te_sys_id (S_baseparamtab ! j) = SYS_PSS) [0..<PSS_COUNT]" by code_simp
  then show "j < PSS_COUNT \<Longrightarrow> is_param_id j \<and> te_sys_id (S_baseparamtab ! j) = SYS_PSS" by (simp add: list_all_iff)
qed

lemma quantisable_small: "\<bar>n\<bar> < 2 ^ 16 \<Longrightarrow> quantisable (of_int n)"
  by (simp add: quantisable_def exact_in_int fits_i64_def abs_less_iff)

text \<open>Every variable has a value that the codec can convert.\<close>

definition exportable :: "mem \<Rightarrow> bool" where
  "exportable m \<longleftrightarrow> (\<forall>i < PSS_COUNT. case ISIMF32 (m i) of Fin v \<Rightarrow> quantisable v | _ \<Rightarrow> False)"

text \<open>The value that the node sends for a parameter: the clock is taken from the software state.\<close>

definition pss_out :: "pss_env \<Rightarrow> nat \<Rightarrow> rat" where
  "pss_out e i = (if i = PSSCLOCK then of_int (uint (tk_clock (ss_tick (ps_soft e))))
     else (case ISIMF32 (ps_mem e i) of Fin v \<Rightarrow> v | _ \<Rightarrow> 0))"

lemma uint_u8_small: "\<bar>uint (x::u8)\<bar> < 2 ^ 16"
  using uint_bounded [of x] by simp

lemma fp_of_u8: "fp_of_int f32 (uint (x::u8)) = Fin (of_int (uint x))"
  unfolding fp_of_int_def using uint_u8_small [of x] by (intro to_fp_exact exact_in_int(1)) simp

lemma pss_out_quantisable: "exportable (ps_mem e) \<Longrightarrow> i < PSS_COUNT \<Longrightarrow> quantisable (pss_out e i)"
  using quantisable_small [OF uint_u8_small] by (auto simp: exportable_def pss_out_def split: fp.splits)

lemma pss_isimget:
  assumes "pss_typed m" "i < PSS_COUNT"
  shows "ISIMGET (Some pss_registry) m i (Some value0) = Some (sim_ok, Some (m i))"
  using pss_cell [OF assms] by (auto simp: sim_cell_def split: option.splits prod.splits sim_status.splits)

lemma export_loop_eq:
  assumes "pss_typed (ps_mem e)" "exportable (ps_mem e)"
  shows "ctx_role ctx = role_device \<Longrightarrow> ctx_system_id ctx = SYS_PSS \<Longrightarrow> msg_prm ctx = Some xs \<Longrightarrow>
    msg_prm_blocks ctx = length xs \<Longrightarrow> length xs = param_msg_blocks SYS_PSS \<Longrightarrow> i + n \<le> PSS_COUNT \<Longrightarrow>
    \<exists>ys. export_loop (Some pss_registry) (ps_mem e) (Some (export_override e)) i n ctx = Some (ctx\<lparr>msg_prm := Some ys\<rparr>) \<and>
      length ys = length xs \<and> (\<forall>j < PSS_COUNT. row_value ys 0 (S_baseparamtab ! j) =
        (if i \<le> j \<and> j < i + n then entry_quantise (S_baseparamtab ! j) (pss_out e j) else row_value xs 0 (S_baseparamtab ! j)))"
proof (induction n arbitrary: i xs ctx)
  case 0
  then show ?case by (cases ctx) auto
next
  case (Suc n)
  then have i: "i < PSS_COUNT" by simp
  note pr = pss_param_rows [OF i]
  obtain ys where ys: "IMSGSET ctx i (Fin (pss_out e i)) = Some (par_ok, ctx\<lparr>msg_prm := Some ys\<rparr>)" "length ys = length xs"
    "row_value ys 0 (S_baseparamtab ! i) = entry_quantise (S_baseparamtab ! i) (pss_out e i)"
    "\<And>j. is_param_id j \<Longrightarrow> j \<noteq> i \<Longrightarrow> te_sys_id (S_baseparamtab ! j) = ctx_system_id ctx \<Longrightarrow>
       row_value ys 0 (S_baseparamtab ! j) = row_value xs 0 (S_baseparamtab ! j)"
    using device_set [of i ctx xs "pss_out e i"] pr Suc.prems pss_out_quantisable [OF assms(2) i] by metis
  have "export_loop (Some pss_registry) (ps_mem e) (Some (export_override e)) i (Suc n) ctx =
      export_loop (Some pss_registry) (ps_mem e) (Some (export_override e)) (i + 1) n (ctx\<lparr>msg_prm := Some ys\<rparr>)"
  proof (cases "i = PSSCLOCK")
    case True
    with ys(1) show ?thesis by (simp add: export_override_def pss_out_def fp_of_u8 del: of_int_uint)
  next
    case False
    then have "ISIMF32 (ps_mem e i) = Fin (pss_out e i)"
      using assms(2) i by (auto simp: exportable_def pss_out_def split: fp.splits)
    with False ys(1) show ?thesis by (simp add: export_override_def pss_isimget [OF assms(1) i])
  qed
  moreover obtain zs where "export_loop (Some pss_registry) (ps_mem e) (Some (export_override e)) (i + 1) n (ctx\<lparr>msg_prm := Some ys\<rparr>) =
      Some (ctx\<lparr>msg_prm := Some zs\<rparr>)" "length zs = length ys"
    "\<forall>j < PSS_COUNT. row_value zs 0 (S_baseparamtab ! j) = (if i + 1 \<le> j \<and> j < i + 1 + n
       then entry_quantise (S_baseparamtab ! j) (pss_out e j) else row_value ys 0 (S_baseparamtab ! j))"
    using Suc.IH [of "ctx\<lparr>msg_prm := Some ys\<rparr>" ys "i + 1"] Suc.prems ys(2) by auto
  moreover have "row_value ys 0 (S_baseparamtab ! j) = row_value xs 0 (S_baseparamtab ! j)" if "j < PSS_COUNT" "j \<noteq> i" for j
    using ys(4) pss_param_rows [OF that(1)] that(2) Suc.prems by simp
  ultimately show ?case using ys(2,3) by (intro exI [of _ zs]) (auto simp: not_le less_Suc_eq)
qed

lemma IPRMUPD_eq:
  assumes "pss_inv e" "exportable (ps_mem e)"
  obtains ys where "IPRMUPD e = Some (e\<lparr>ps_bus := (ps_bus e)\<lparr>b_prm := Some ys, b_prm_buf := Some ys\<rparr>\<rparr>)"
    "pss_inv (e\<lparr>ps_bus := (ps_bus e)\<lparr>b_prm := Some ys, b_prm_buf := Some ys\<rparr>\<rparr>)" "length ys = param_msg_blocks SYS_PSS"
    "\<forall>j < PSS_COUNT. row_value ys 0 (S_baseparamtab ! j) = entry_quantise (S_baseparamtab ! j) (pss_out e j)"
proof -
  have inv: "pss_typed (ps_mem e)" "ps_reg e = Some pss_registry" "pss_bus_ok (ps_bus e)" using assms(1) by (simp_all add: pss_inv_def)
  obtain cs ps cb pb where b: "b_cmd (ps_bus e) = Some cs" "b_prm (ps_bus e) = Some ps" "b_cmd_buf (ps_bus e) = Some cb" "b_prm_buf (ps_bus e) = Some pb"
    using inv(3) by (auto simp: pss_bus_ok_def bus_bound_def)
  have len: "length ps = param_msg_blocks SYS_PSS" "length pb = param_msg_blocks SYS_PSS" "length cs = comm_msg_blocks SYS_PSS"
    "b_prm_blocks (ps_bus e) = param_msg_blocks SYS_PSS" "b_prm_buf_blocks (ps_bus e) = param_msg_blocks SYS_PSS"
    using inv(3) b by (simp_all add: pss_bus_ok_def)
  obtain ys where ys: "export_loop (Some pss_registry) (ps_mem e) (Some (export_override e)) PSS_BASE PSS_COUNT (pss_ctx e) = Some ((pss_ctx e)\<lparr>msg_prm := Some ys\<rparr>)"
    "length ys = length ps" "\<forall>j < PSS_COUNT. row_value ys 0 (S_baseparamtab ! j) = entry_quantise (S_baseparamtab ! j) (pss_out e j)"
    using export_loop_eq [OF inv(1) assms(2), of "pss_ctx e" ps PSS_BASE PSS_COUNT] b len by (auto simp: PSS_BASE_def)
  have cp: "copy_blocks (Some pb) n 0 (Some ys) n 0 n = Some ys" if "n = length ys" "length pb = n" for n
  proof -
    have "copy_loop n 0 pb 0 ys 0 = ys" using that by (intro nth_equalityI) (simp_all add: copy_loop_nth)
    then show ?thesis using that by (cases "n = 0") (simp_all add: copy_blocks_Some copy_count_def)
  qed
  have upd: "IPRMUPD e = Some (e\<lparr>ps_bus := (ps_bus e)\<lparr>b_prm := Some ys, b_prm_buf := Some ys\<rparr>\<rparr>)"
  proof -
    have "(ps_bus e)\<lparr>b_prm := Some ys, b_cmd := Some cs\<rparr> = (ps_bus e)\<lparr>b_prm := Some ys\<rparr>"
      using b(1) by (cases "ps_bus e") simp
    then have "put_pss_ctx ((pss_ctx e)\<lparr>msg_prm := Some ys\<rparr>) e = e\<lparr>ps_bus := (ps_bus e)\<lparr>b_prm := Some ys\<rparr>\<rparr>"
      using b(1) by (simp add: put_pss_ctx_def)
    moreover have "copy_blocks (Some pb) (param_msg_blocks SYS_PSS) 0 (Some ys) (param_msg_blocks SYS_PSS) 0 (param_msg_blocks SYS_PSS) = Some ys"
      by (rule cp) (simp_all add: ys(2) len)
    ultimately show ?thesis
      by (simp add: IPRMUPD_def ISYS_EXPORT_MODEL_PARAMS_def inv(2) ys(1) Let_def ISYS_SYNC_MSGPRM_TO_BUF_def b len(4,5))
  qed
  have "pss_bus_ok ((ps_bus e)\<lparr>b_prm := Some ys, b_prm_buf := Some ys\<rparr>)"
    using inv(3) ys(2) len(1) by (auto simp: pss_bus_ok_def bus_wf_def bus_bound_def span_ok_def)
  then have "pss_inv (e\<lparr>ps_bus := (ps_bus e)\<lparr>b_prm := Some ys, b_prm_buf := Some ys\<rparr>\<rparr>)"
    using assms(1) by (simp add: pss_inv_def)
  with upd show thesis using that ys(2,3) len(1) by simp
qed

text \<open>What CS decodes once its image holds the message of the power system.\<close>

lemma cs_reads:
  assumes c: "ctx_role c = role_cs" "msg_prm c = Some zs" "msg_prm_blocks c = param_msg_blocks SYS_CS" "msg_prm_blocks c \<le> length zs"
    and ys: "length ys = param_msg_blocks SYS_PSS" "i < PSS_COUNT" "row_value ys 0 (S_baseparamtab ! i) = entry_quantise (S_baseparamtab ! i) v"
  shows "IMSGGET (c\<lparr>msg_prm := copy_blocks (msg_prm c) (msg_prm_blocks c) 0 (Some ys) (length ys) 0 (length ys)\<rparr>) i =
    (par_ok, Fin (of_int (entry_quantise (S_baseparamtab ! i) v)))"
proof -
  let ?r = "S_baseparamtab ! i"
  have i: "is_param_id i" "te_sys_id ?r = SYS_PSS" using pss_param_rows [OF ys(2)] by simp_all
  then have row: "entry_placed param_msg_blocks ?r" "entry_identity ?r" using param_row by (simp_all add: is_param_id_def)
  note pl = entry_placed_nat [OF row(1)]
  have base: "window_base param_msg_blocks device_systems SYS_PSS = 0" by code_simp
  have bn: "0 \<le> te_block_n ?r" "nat (te_block_n ?r) < length ys" "0 \<le> te_cs_block_n ?r"
    "nat (te_cs_block_n ?r) = nat (te_block_n ?r)" "nat (te_cs_block_n ?r) < msg_prm_blocks c"
    using pl(1,2,3,5) pl(4) [unfolded i(2) base] ys(1) c(3) i(2) by simp_all
  let ?zs = "copy_loop (copy_count (msg_prm_blocks c) 0 (length ys) 0 (length ys)) 0 zs 0 ys 0"
  have z: "?zs ! nat (te_cs_block_n ?r) = ys ! nat (te_block_n ?r)"
    using bn c(4) by (auto simp: copy_loop_nth copy_count_def)
  obtain item where fill: "fill_item_layout None (Some ys) (length ys) (te_block_n ?r) ?r = Inr item"
    using fill_item_placed [OF row(1), of None "Some ys" "te_block_n ?r" "length ys"] bn by auto
  obtain itemr where fillr: "fill_item_layout (Some ?zs) None (msg_prm_blocks c) (te_cs_block_n ?r) ?r = Inr itemr"
    using fill_item_placed [OF row(1), of "Some ?zs" None "te_cs_block_n ?r" "msg_prm_blocks c"] bn by auto
  have "layout_supported (type_width_bits (te_type ?r)) (te_block_offset ?r)" using row(1) by (simp add: entry_placed_def)
  from layout_offset [OF this] have ofs: "unat (word_of_int (te_block_offset ?r) :: u8) = nat (te_block_offset ?r)" by (simp only: unat_eq_nat_uint)
  note f = fill_item_Inr [OF fill]
  have "sint (decode_raw (ucast (bf_get (unat (ri_block_offset item)) (unat (width_bits item)) (?zs ! nat (te_cs_block_n ?r))))
      (width_bits item) (wire_signed item)) = entry_quantise ?r v"
    using ys(3) f ofs by (simp add: z row_value_def)
  from get_item [OF fill fillr row(2) this]
  have "IMSGGET (c\<lparr>msg_prm := Some ?zs\<rparr>) i = (par_ok, Fin (of_int (entry_quantise ?r v)))"
    unfolding IMSGGET_def resolve_for_parse_def using i c fillr by (simp add: Let_def)
  then show ?thesis using c(2) by (simp add: copy_blocks_Some)
qed

subsection \<open>The power commands\<close>

lemma pss_u8:
  assumes "pss_typed m" "p \<le> PSSECO"
  shows "m p = V_u8 (get_u8 m p)"
proof -
  have "kind_of (m p) = kind_u8" using assms by (simp add: pss_typed_def pss_kind_def PSS_COUNT_def)
  then show ?thesis by (cases "m p") (simp_all add: get_u8_def)
qed

text \<open>A change of one switch.\<close>

definition switched :: "pss_env \<Rightarrow> nat \<Rightarrow> u8 \<Rightarrow> pss_env \<Rightarrow> bool" where
  "switched e p v e' \<longleftrightarrow> pss_inv e' \<and> (\<forall>q < PSS_COUNT. ps_mem e' q = (if q = p then V_u8 v else ps_mem e q))"

lemma switched_get: "switched e p v e' \<Longrightarrow> q < PSS_COUNT \<Longrightarrow> get_u8 (ps_mem e') q = (if q = p then v else get_u8 (ps_mem e) q)"
  by (simp add: switched_def get_u8_def)

lemma pss_get_switch:
  assumes "pss_inv e" "p \<le> PSSECO"
  shows "ISIMGETI32 (ps_reg e) (ps_mem e) p (Some w) = Some (sim_ok, Some (ucast (get_u8 (ps_mem e) p)))"
proof -
  have t: "pss_typed (ps_mem e)" and r: "ps_reg e = Some pss_registry" using assms(1) by (simp_all add: pss_inv_def)
  have "sim_cell pss_registry (ps_mem e) p = Some (V_u8 (get_u8 (ps_mem e) p))"
    using pss_cell [OF t] pss_u8 [OF t assms(2)] assms(2) by (simp add: PSS_COUNT_def)
  from ISIMGETI32_cell [OF this] show ?thesis by (simp add: r ISIMI32_def)
qed

lemma power_command:
  assumes "pss_inv e" "c = CPSSPWRON \<and> v = 1 \<or> c = CPSSPWROFF \<and> v = 0"
  shows "\<exists>e'. execute_power_command c e = Some e' \<and>
    switched e PSSPWR (if pss_slot e c \<noteq> 0 then v else get_u8 (ps_mem e) PSSPWR) e' \<and>
    (\<forall>j \<in> set pss_ids. pss_slot e' j = (if j = c then 0 else pss_slot e j))"
proof -
  have t: "pss_typed (ps_mem e)" and r: "ps_reg e = Some pss_registry" using assms(1) by (simp_all add: pss_inv_def)
  have c: "c \<in> set pss_ids" using assms(2) by (auto simp: pss_ids_def CPSS_BASE_def CPSS_COUNT_def)
  obtain w :: u32 where w: "w = (if c = CPSSPWRON then 1 else 0)" by simp
  have ex: "execute_power_command c e = map_option snd (apply_i32_command c PSSPWR w e)"
    using assms(2) by (auto simp: execute_power_command_def w)
  show ?thesis
  proof (cases "pss_slot e c = 0")
    case True
    have "switched e PSSPWR (get_u8 (ps_mem e) PSSPWR) e" using assms(1) pss_u8 [OF t, of PSSPWR] by (simp add: switched_def)
    with True ex show ?thesis by (simp add: apply_i32_command_def pss_active [OF assms(1) c])
  next
    case False
    obtain m' where m': "ISIMSETI32 (Some pss_registry) (ps_mem e) PSSPWR w = Some (sim_ok, m')" "pss_typed m'"
      "\<And>j. j < PSS_COUNT \<Longrightarrow> m' j = (if j = PSSPWR then stored_i32 pss_registry PSSPWR w else ps_mem e j)"
      using pss_set_i32 [OF t, of PSSPWR w] by (auto simp: PSS_COUNT_def)
    have "stored_i32 pss_registry PSSPWR w = V_u8 v" using assms(2) stored_bit [of PSSPWR] by (auto simp: w)
    then have "switched e PSSPWR v (clear_command c (e\<lparr>ps_mem := m'\<rparr>))"
      using m' clear_command_inv [OF pss_inv_mem [OF assms(1) m'(2)] c] by (simp add: switched_def)
    moreover have "apply_i32_command c PSSPWR w e = Some (True, clear_command c (e\<lparr>ps_mem := m'\<rparr>))"
      using m'(1) r False by (simp add: apply_i32_command_def pss_active [OF assms(1) c])
    ultimately show ?thesis
      using False ex clear_command_inv(2) [OF pss_inv_mem [OF assms(1) m'(2)] c] by auto
  qed
qed

lemma rail_off:
  assumes "pss_inv e" "p \<le> PSSECO"
  shows "\<exists>e'. set_rail_off p e = Some e' \<and> switched e p 0 e' \<and> (\<forall>j. pss_slot e' j = pss_slot e j)"
proof -
  have t: "pss_typed (ps_mem e)" and r: "ps_reg e = Some pss_registry" using assms(1) by (simp_all add: pss_inv_def)
  obtain m' where m': "ISIMSETI32 (Some pss_registry) (ps_mem e) p 0 = Some (sim_ok, m')" "pss_typed m'"
    "\<And>j. j < PSS_COUNT \<Longrightarrow> m' j = (if j = p then stored_i32 pss_registry p 0 else ps_mem e j)"
    using pss_set_i32 [OF t, of p 0] assms(2) by (auto simp: PSS_COUNT_def)
  then show ?thesis
    using stored_bit [OF assms(2)] pss_inv_mem [OF assms(1) m'(2)] r by (auto simp: set_rail_off_def switched_def)
qed

lemma ucast_8_32_0: "(ucast (x::u8) :: u32) = 0 \<longleftrightarrow> x = 0"
proof
  assume "(ucast x :: u32) = 0"
  then have "(ucast (ucast x :: u32) :: u8) = 0" by simp
  then show "x = 0" by (simp add: ucast_up_ucast_id is_up)
qed simp

lemma power_commands_eq:
  assumes "pss_inv e"
  defines "pwr \<equiv> (if pss_slot e CPSSPWROFF \<noteq> 0 then 0 else if pss_slot e CPSSPWRON \<noteq> 0 then 1 else get_u8 (ps_mem e) PSSPWR)"
  shows "\<exists>e'. apply_power_commands e = Some e' \<and> pss_inv e' \<and>
    (\<forall>j \<in> set pss_ids. pss_slot e' j = (if j = CPSSPWRON \<or> j = CPSSPWROFF then 0 else pss_slot e j)) \<and>
    (\<forall>q < PSS_COUNT. ps_mem e' q = (if q = PSSPWR then V_u8 pwr
       else if pwr = 0 \<and> q \<in> {PSSPWR12, PSSPWR6, PSSPWR5, PSSPWR33} then V_u8 0 else ps_mem e q))"
proof -
  have ids: "CPSSPWRON \<in> set pss_ids" "CPSSPWROFF \<in> set pss_ids" by (simp_all add: pss_ids_def CPSS_BASE_def CPSS_COUNT_def)
  obtain e1 where 1: "execute_power_command CPSSPWRON e = Some e1"
    "switched e PSSPWR (if pss_slot e CPSSPWRON \<noteq> 0 then 1 else get_u8 (ps_mem e) PSSPWR) e1"
    "\<forall>j \<in> set pss_ids. pss_slot e1 j = (if j = CPSSPWRON then 0 else pss_slot e j)"
    using power_command [OF assms(1), of CPSSPWRON 1] by auto
  have i1: "pss_inv e1" using 1(2) by (simp add: switched_def)
  obtain e2 where 2: "execute_power_command CPSSPWROFF e1 = Some e2"
    "switched e1 PSSPWR (if pss_slot e1 CPSSPWROFF \<noteq> 0 then 0 else get_u8 (ps_mem e1) PSSPWR) e2"
    "\<forall>j \<in> set pss_ids. pss_slot e2 j = (if j = CPSSPWROFF then 0 else pss_slot e1 j)"
    using power_command [OF i1, of CPSSPWROFF 0] by auto
  have i2: "pss_inv e2" using 2(2) by (simp add: switched_def)
  have pw: "(if pss_slot e1 CPSSPWROFF \<noteq> 0 then 0 else get_u8 (ps_mem e1) PSSPWR) = pwr"
    using 1(3) ids switched_get [OF 1(2), of PSSPWR] by (simp add: pwr_def PSS_COUNT_def)
  have m2: "\<forall>q < PSS_COUNT. ps_mem e2 q = (if q = PSSPWR then V_u8 pwr else ps_mem e q)"
    using 1(2) 2(2) unfolding pw by (simp add: switched_def)
  have s2: "\<forall>j \<in> set pss_ids. pss_slot e2 j = (if j = CPSSPWRON \<or> j = CPSSPWROFF then 0 else pss_slot e j)"
    using 1(3) 2(3) by auto
  have mp: "main_pwr e2 = Some (ucast pwr)"
    using pss_get_switch [OF i2, of PSSPWR 0] switched_get [OF 2(2), of PSSPWR] pw by (simp add: main_pwr_def PSS_COUNT_def)
  have z: "(ucast pwr :: u32) = 0 \<longleftrightarrow> pwr = 0" by (rule ucast_8_32_0)
  show ?thesis
  proof (cases "pwr = 0")
    case False
    then have "apply_power_commands e = Some e2" using 1(1) 2(1) mp z by (simp add: apply_power_commands_def)
    with False i2 s2 m2 show ?thesis by auto
  next
    case True
    obtain e3 where 3: "set_rail_off PSSPWR12 e2 = Some e3" "switched e2 PSSPWR12 0 e3" "\<forall>j. pss_slot e3 j = pss_slot e2 j"
      using rail_off [OF i2, of PSSPWR12] by auto
    obtain e4 where 4: "set_rail_off PSSPWR6 e3 = Some e4" "switched e3 PSSPWR6 0 e4" "\<forall>j. pss_slot e4 j = pss_slot e3 j"
      using rail_off [of e3 PSSPWR6] 3(2) by (auto simp: switched_def)
    obtain e5 where 5: "set_rail_off PSSPWR5 e4 = Some e5" "switched e4 PSSPWR5 0 e5" "\<forall>j. pss_slot e5 j = pss_slot e4 j"
      using rail_off [of e4 PSSPWR5] 4(2) by (auto simp: switched_def)
    obtain e6 where 6: "set_rail_off PSSPWR33 e5 = Some e6" "switched e5 PSSPWR33 0 e6" "\<forall>j. pss_slot e6 j = pss_slot e5 j"
      using rail_off [of e5 PSSPWR33] 5(2) by (auto simp: switched_def)
    have "apply_power_commands e = Some e6" using 1(1) 2(1) mp z True 3(1) 4(1) 5(1) 6(1) by (simp add: apply_power_commands_def)
    moreover have "\<forall>q < PSS_COUNT. ps_mem e6 q = (if q = PSSPWR then V_u8 pwr
       else if pwr = 0 \<and> q \<in> {PSSPWR12, PSSPWR6, PSSPWR5, PSSPWR33} then V_u8 0 else ps_mem e q)"
      using 3(2) 4(2) 5(2) 6(2) m2 True by (simp add: switched_def)
    ultimately show ?thesis using 3(3) 4(3) 5(3) 6(2,3) s2 by (auto simp: switched_def)
  qed
qed

subsection \<open>The tick of the node\<close>

definition ok_cell :: "value_t \<Rightarrow> bool" where
  "ok_cell v \<longleftrightarrow> (case ISIMF32 v of Fin x \<Rightarrow> quantisable x | _ \<Rightarrow> False)"

lemma exportable_cells: "exportable m \<longleftrightarrow> (\<forall>i < PSS_COUNT. ok_cell (m i))"
  by (simp add: exportable_def ok_cell_def)

lemma fp_of_small: "\<bar>n\<bar> < 2 ^ 16 \<Longrightarrow> fp_of_int f32 n = Fin (of_int n)"
  unfolding fp_of_int_def by (intro to_fp_exact exact_in_int(1)) simp

lemma ok_cell_simps:
  "ok_cell (V_u8 x)" "ok_cell (V_s8 x)" "\<bar>n\<bar> < 2 ^ 16 \<Longrightarrow> ok_cell (V_f32 (Fin (of_int n)))"
proof -
  have "\<bar>sint x\<bar> < 2 ^ 16" using sint_greater_eq [of x] sint_less [of x] by simp
  then show "ok_cell (V_s8 x)" by (simp add: ok_cell_def ISIMF32_def fp_of_small quantisable_small del: of_int_sint)
  show "ok_cell (V_u8 x)"
    by (simp add: ok_cell_def ISIMF32_def fp_of_u8 quantisable_small [OF uint_u8_small] del: of_int_uint)
qed (simp add: ok_cell_def ISIMF32_def quantisable_small)

lemma ok_default: "i < PSS_COUNT \<Longrightarrow> ok_cell (sim_vars i)"
proof -
  assume "i < PSS_COUNT"
  have ids: "map fst sim_pss_vars = [0..<31]" by (simp add: sim_pss_vars_def upt_conv_Cons)
  have ok: "list_all (\<lambda>(p, v). ok_cell v) sim_pss_vars" unfolding ok_cell_def quantisable_def exact_in_def by code_simp
  have "i \<in> set (map fst sim_pss_vars)" using \<open>i < PSS_COUNT\<close> by (simp only: ids) (simp add: PSS_COUNT_def)
  then obtain v where "(i, v) \<in> set sim_pss_vars" by auto
  moreover from this have "sim_vars i = v" by (intro sim_vars_at) (simp add: all_vars_def)
  ultimately show ?thesis using ok by (auto simp: list_all_iff)
qed

lemma ok_cell_step:
  assumes "ok_cell v" "q < PSS_COUNT" "\<bar>pss_cmd_value (sl c) c\<bar> < 2 ^ 16"
  shows "ok_cell (cell_step sl q c v)"
  using assms by (simp add: cell_step_def cell_after_def ok_default ok_cell_simps pss_setting_def)

lemma ok_cell_fold:
  "ok_cell v \<Longrightarrow> q < PSS_COUNT \<Longrightarrow> \<forall>c \<in> set cs. \<bar>pss_cmd_value (sl c) c\<bar> < 2 ^ 16 \<Longrightarrow> ok_cell (fold (cell_step sl q) cs v)"
  by (induction cs arbitrary: v) (simp_all add: ok_cell_step)

definition pss_ok :: "pss_env \<Rightarrow> bool" where
  "pss_ok e \<longleftrightarrow> pss_inv e \<and> exportable (ps_mem e)"

lemma system_commands_eq:
  assumes "pss_inv e"
  obtains e' where "apply_system_commands e = Some e'" "pss_inv e'"
    "\<forall>j \<in> set pss_ids. pss_slot e' j = (if j \<noteq> CPSSPWRON \<and> j \<noteq> CPSSPWROFF then 0 else pss_slot e j)"
    "\<forall>q < PSS_COUNT. ps_mem e' q = fold (cell_step (pss_slot e) q) pss_ids (ps_mem e q)"
    "exportable (ps_mem e) \<longrightarrow> pss_ok e'"
proof -
  have d: "distinct pss_ids" by (simp add: pss_ids_def)
  obtain e' where e': "apply_system_commands e = Some e'" "pss_inv e'"
    "\<forall>j \<in> set pss_ids. pss_slot e' j = (if j \<noteq> CPSSPWRON \<and> j \<noteq> CPSSPWROFF then 0 else pss_slot e j)"
    "\<forall>q < PSS_COUNT. ps_mem e' q = fold (cell_step (pss_slot e) q) pss_ids (ps_mem e q)"
    using system_command_loop_eq [OF assms d] by (auto simp: apply_system_commands_def pss_ids_def)
  have "exportable (ps_mem e) \<longrightarrow> pss_ok e'"
    using e'(2,4) pss_get(2) [OF assms] by (auto simp: pss_ok_def exportable_cells intro!: ok_cell_fold)
  with e' show thesis by (rule that)
qed

lemma power_commands_ok:
  assumes "pss_ok e"
  obtains e' where "ICMDPWRUPD e = Some e'" "pss_ok e'" "\<forall>c \<in> {CPSSPWRON, CPSSPWROFF}. pss_slot e' c = 0"
    "get_u8 (ps_mem e') PSSPWR = 0 \<Longrightarrow> \<forall>p \<in> {PSSPWR12, PSSPWR6, PSSPWR5, PSSPWR33}. get_u8 (ps_mem e') p = 0"
proof -
  have inv: "pss_inv e" "exportable (ps_mem e)" using assms by (simp_all add: pss_ok_def)
  have ids: "CPSSPWRON \<in> set pss_ids" "CPSSPWROFF \<in> set pss_ids" by (simp_all add: pss_ids_def CPSS_BASE_def CPSS_COUNT_def)
  obtain e' pwr where e': "apply_power_commands e = Some e'" "pss_inv e'"
    "\<forall>j \<in> set pss_ids. pss_slot e' j = (if j = CPSSPWRON \<or> j = CPSSPWROFF then 0 else pss_slot e j)"
    "\<forall>q < PSS_COUNT. ps_mem e' q = (if q = PSSPWR then V_u8 pwr
       else if pwr = 0 \<and> q \<in> {PSSPWR12, PSSPWR6, PSSPWR5, PSSPWR33} then V_u8 0 else ps_mem e q)"
    using power_commands_eq [OF inv(1)] by blast
  have "pss_ok e'" using e'(2,4) inv(2) by (simp add: pss_ok_def exportable_cells ok_cell_simps)
  moreover have "\<forall>c \<in> {CPSSPWRON, CPSSPWROFF}. pss_slot e' c = 0" using e'(3) ids by simp
  moreover have "get_u8 (ps_mem e') PSSPWR = 0 \<Longrightarrow> \<forall>p \<in> {PSSPWR12, PSSPWR6, PSSPWR5, PSSPWR33}. get_u8 (ps_mem e') p = 0"
    using e'(4) by (simp add: get_u8_def PSS_COUNT_def)
  ultimately show thesis using that e'(1) by (simp add: ICMDPWRUPD_def)
qed

lemma bound_length: "map_option length x = map_option length y \<Longrightarrow> y \<noteq> None \<Longrightarrow> x \<noteq> None \<and> length (the x) = length (the y)"
  by (cases x; cases y) simp_all

lemma pss_bus_ok_good:
  assumes "good_step b b'" "pss_bus_ok b"
  shows "pss_bus_ok b'"
proof -
  have w: "same_wiring b b'" "bus_wf b'" using assms by (simp_all add: good_step_def pss_bus_ok_def)
  have m: "map_option length (b_cmd b') = map_option length (b_cmd b)" "map_option length (b_prm b') = map_option length (b_prm b)"
    "map_option length (b_cmd_buf b') = map_option length (b_cmd_buf b)" "map_option length (b_prm_buf b') = map_option length (b_prm_buf b)"
    "b_role b' = b_role b" "b_system_id b' = b_system_id b" "b_cmd_blocks b' = b_cmd_blocks b" "b_prm_blocks b' = b_prm_blocks b"
    "b_cmd_buf_blocks b' = b_cmd_buf_blocks b" "b_prm_buf_blocks b' = b_prm_buf_blocks b"
    using w(1) unfolding same_wiring_def by blast+
  have n: "b_cmd b \<noteq> None" "b_prm b \<noteq> None" "b_cmd_buf b \<noteq> None" "b_prm_buf b \<noteq> None"
    using assms(2) unfolding pss_bus_ok_def bus_bound_def by blast+
  note l = bound_length [OF m(1) n(1)] bound_length [OF m(2) n(2)] bound_length [OF m(3) n(3)] bound_length [OF m(4) n(4)]
  show ?thesis
    using assms(2) w(2) unfolding pss_bus_ok_def bus_bound_def m(5-10) by (simp only: l simp_thms)
qed

lemma pss_ok_fields:
  "pss_ok e \<Longrightarrow> pss_bus_ok b \<Longrightarrow> pss_ok (e\<lparr>ps_bus := b\<rparr>)"
  "pss_ok e \<Longrightarrow> ss_initialized s \<Longrightarrow> pss_ok (e\<lparr>ps_soft := s\<rparr>)"
  by (simp_all add: pss_ok_def pss_inv_def)

lemma pss_ok_bus: "pss_ok e \<Longrightarrow> pss_bus_ok (ps_bus e)"
  by (simp add: pss_ok_def pss_inv_def)

lemma pss_sysalg:
  assumes "pss_ok e"
  obtains e' where "ISYSALG (hk_ISYSALG pss_base_hooks) (Some e) = Some e'" "pss_ok e'"
proof -
  have inv: "pss_inv e" "exportable (ps_mem e)" using assms by (simp_all add: pss_ok_def)
  obtain e1 where 1: "apply_system_commands e = Some e1" "pss_ok e1" using system_commands_eq [OF inv(1)] inv(2) by metis
  then have inv1: "pss_inv e1" "exportable (ps_mem e1)" by (simp_all add: pss_ok_def)
  obtain ys where 2: "IPRMUPD e1 = Some (e1\<lparr>ps_bus := (ps_bus e1)\<lparr>b_prm := Some ys, b_prm_buf := Some ys\<rparr>\<rparr>)"
    "pss_inv (e1\<lparr>ps_bus := (ps_bus e1)\<lparr>b_prm := Some ys, b_prm_buf := Some ys\<rparr>\<rparr>)"
    using IPRMUPD_eq [OF inv1] by metis
  have "ISYSALG (hk_ISYSALG pss_base_hooks) (Some e) = Some (e1\<lparr>ps_bus := (ps_bus e1)\<lparr>b_prm := Some ys, b_prm_buf := Some ys\<rparr>\<rparr>)"
    using 1(1) 2(1) by (simp add: ISYSALG_def pss_base_hooks_def call_hook_def ICMDUPD_def PSS_LOCALSYSALG_def ISYSNODES_def)
  with 2(2) inv1(2) that show thesis by (simp add: pss_ok_def)
qed

lemma pss_hooks [simp]:
  "hk_IEXCHANGECTRL pss_base_hooks = None" "hk_IBUSEXCHANGE pss_base_hooks = None" "hk_ILOG pss_base_hooks = None"
  "hk_ICMDPWRUPD pss_base_hooks = Some (\<lambda>e. Option.bind e ICMDPWRUPD)"
  by (simp_all add: pss_base_hooks_def)

lemma pss_basealg:
  assumes "(if w then ISYSALG (hk_ISYSALG pss_base_hooks) (put_env_tick e (ISYSTEP (env_tick e))) else put_env_tick e (ISYSTEP (env_tick e))) = Some e3"
    and "IBUS_EXCHANGE no_bus_hooks rx (ps_bus e3) = (out, b)" "ICMDPWRUPD (e3\<lparr>ps_bus := b\<rparr>) = Some e5"
  shows "ISYSBASEALG env_bus put_env_bus env_tick put_env_tick no_bus_hooks pss_base_hooks w rx e = (out, Some e5)"
  unfolding ISYSBASEALG_def Let_def assms(1) pss_hooks call_hook_None if_cancel using assms(2,3)
  by (simp add: env_bus_def put_env_bus_def call_hook_def)

lemma pss_step_eq:
  assumes "pss_ok e"
  obtains out e' where "pss_runtime_step tick rx e = (out, Some e')" "pss_ok e'" "\<forall>c \<in> {CPSSPWRON, CPSSPWROFF}. pss_slot e' c = 0"
    "get_u8 (ps_mem e') PSSPWR = 0 \<Longrightarrow> \<forall>p \<in> {PSSPWR12, PSSPWR6, PSSPWR5, PSSPWR33}. get_u8 (ps_mem e') p = 0"
proof -
  let ?e1 = "e\<lparr>ps_soft := (ps_soft e)\<lparr>ss_current_tick := tick\<rparr>, ps_bus := (ps_bus e)\<lparr>b_writer_tick := tick\<rparr>\<rparr>"
  have init: "ss_initialized (ps_soft e)" using assms by (simp add: pss_ok_def pss_inv_def)
  have "pss_bus_ok ((ps_bus e)\<lparr>b_writer_tick := tick\<rparr>)"
    by (rule pss_bus_ok_good [OF _ pss_ok_bus [OF assms]]) (simp add: good_step_def same_wiring_def bus_wf_def)
  then have 1: "pss_ok ?e1" using assms init by (simp add: pss_ok_def pss_inv_def)
  have power: "\<exists>w. pss_is_power_on ?e1 = Some w"
    using pss_get_switch [of ?e1 PSSPWR 0] 1 by (simp add: pss_is_power_on_def pss_ok_def)
  then obtain w where w: "pss_is_power_on ?e1 = Some w" ..
  let ?e2 = "?e1\<lparr>ps_soft := (ps_soft ?e1)\<lparr>ss_tick := ISYSTEP (ss_tick (ps_soft ?e1))\<rparr>\<rparr>"
  have 2: "pss_ok ?e2" by (rule pss_ok_fields(2) [OF 1]) (simp add: init)
  have "\<exists>e3. (if w then ISYSALG (hk_ISYSALG pss_base_hooks) (Some ?e2) else Some ?e2) = Some e3 \<and> pss_ok e3"
  proof (cases w)
    case True
    obtain e3 where "ISYSALG (hk_ISYSALG pss_base_hooks) (Some ?e2) = Some e3" "pss_ok e3" by (rule pss_sysalg [OF 2])
    with True show ?thesis by simp
  qed (use 2 in simp)
  then obtain e3 where 3: "(if w then ISYSALG (hk_ISYSALG pss_base_hooks) (Some ?e2) else Some ?e2) = Some e3" "pss_ok e3" by blast
  obtain out b where b: "IBUS_EXCHANGE no_bus_hooks rx (ps_bus e3) = (out, b)" by (cases "IBUS_EXCHANGE no_bus_hooks rx (ps_bus e3)")
  have "pss_bus_ok b" using pss_bus_ok_good [OF good_EXCHANGE pss_ok_bus [OF 3(2)], of rx] b by simp
  then have 4: "pss_ok (e3\<lparr>ps_bus := b\<rparr>)" by (rule pss_ok_fields(1) [OF 3(2)])
  obtain e5 where 5: "ICMDPWRUPD (e3\<lparr>ps_bus := b\<rparr>) = Some e5" "pss_ok e5" "\<forall>c \<in> {CPSSPWRON, CPSSPWROFF}. pss_slot e5 c = 0"
    "get_u8 (ps_mem e5) PSSPWR = 0 \<Longrightarrow> \<forall>p \<in> {PSSPWR12, PSSPWR6, PSSPWR5, PSSPWR33}. get_u8 (ps_mem e5) p = 0"
    using power_commands_ok [OF 4] by metis
  have "pss_runtime_step tick rx e = (out, Some e5)"
  proof -
    have "put_env_tick (Some ?e1) (ISYSTEP (env_tick (Some ?e1))) = Some ?e2" by (simp add: put_env_tick_def env_tick_def)
    from pss_basealg [OF 3(1) [folded this] b 5(1)] show ?thesis
      using w by (simp add: pss_runtime_step_def init Let_def)
  qed
  with 5(2-4) that show thesis by blast
qed

subsection \<open>Start\<close>

text \<open>A process that has not run its first tick, with variables of the right types.\<close>

definition pss_start :: "pss_env \<Rightarrow> bool" where
  "pss_start e \<longleftrightarrow> \<not> ss_initialized (ps_soft e) \<and> \<not> ps_bus_ready e \<and> pss_typed (ps_mem e) \<and> exportable (ps_mem e)"

lemma pss_init_ok:
  assumes "pss_start e"
  shows "pss_ok (pss_runtime_init e)" "ps_mem (pss_runtime_init e) = ps_mem e" "ps_bus (pss_runtime_init e) =
    put_bus_wire (clear_wire_storage pss_wire0) (bind_standard_bus bus_device SYS_PSS ARP_ADDR_PSS ARP_ADDR_CS pss_wire0)"
proof -
  let ?b = "bind_standard_bus bus_device SYS_PSS ARP_ADDR_PSS ARP_ADDR_CS pss_wire0"
  let ?b1 = "put_bus_wire (clear_wire_storage pss_wire0) ?b"
  have t: "pss_typed (ps_mem e)" using assms by (simp add: pss_start_def)
  have w: "bus_wire ?b = pss_wire0"
    by (simp add: bus_wire_def bind_standard_bus_def IBUS_BIND_STD_def pss_wire0_def wire_storage0_def)
  have "hdr_coherent (w_header pss_wire0)" by (simp add: pss_wire0_def wire_storage0_def)
  from put_bus_wire_clear [OF bus_wf_bind [OF this, of bus_device SYS_PSS ARP_ADDR_PSS ARP_ADDR_CS] bus_bound_bind] have "bus_wf ?b1" "bus_bound ?b1" unfolding w by simp_all
  then have ok: "pss_bus_ok ?b1"
    by (simp add: pss_bus_ok_def put_bus_wire_def clear_wire_storage_def bind_standard_bus_def IBUS_BIND_STD_def pss_wire0_def
        wire_storage0_def bus_state0_def)
  have "pss_init_msg_buffers e = e\<lparr>ps_bus := ?b1, ps_bus_ready := True\<rparr>"
    using assms by (simp add: pss_init_msg_buffers_def pss_init_bus_state_def pss_start_def Let_def w)
  then have r: "pss_runtime_init e = e\<lparr>ps_bus := ?b1, ps_bus_ready := True, ps_reg := Some pss_registry,
      ps_soft := software_state0\<lparr>ss_initialized := True\<rparr>, ps_last_tick_log := 0\<rparr>"
    using pss_registry_build(1) [OF t] pss_rows(4)
    by (simp add: pss_runtime_init_def pss_init_isim_registry_def reset_software_state_def Let_def)
  show "pss_ok (pss_runtime_init e)" "ps_mem (pss_runtime_init e) = ps_mem e" "ps_bus (pss_runtime_init e) = ?b1"
    using assms ok by (simp_all add: r pss_ok_def pss_inv_def pss_start_def)
qed

lemma pss_first_step: "pss_start e \<Longrightarrow> pss_runtime_step tick rx e = pss_runtime_step tick rx (pss_runtime_init e)"
  using pss_init_ok(1) by (simp add: pss_runtime_step_def pss_start_def pss_ok_def pss_inv_def)

text \<open>The runs of the node: its ticks, on any byte from the bus, and any change of the variables by the model.\<close>

inductive pss_run :: "pss_env \<Rightarrow> pss_env \<Rightarrow> bool" for e0 where
  start: "pss_run e0 e0"
| tick: "pss_run e0 e \<Longrightarrow> pss_runtime_step tick rx e = (out, Some e') \<Longrightarrow> pss_run e0 e'"
| model: "pss_run e0 e \<Longrightarrow> pss_typed m \<Longrightarrow> exportable m \<Longrightarrow> pss_run e0 (e\<lparr>ps_mem := m\<rparr>)"

lemma pss_step_any:
  assumes "pss_start e \<or> pss_ok e"
  obtains out e' where "pss_runtime_step tick rx e = (out, Some e')" "pss_ok e'" "\<forall>c \<in> {CPSSPWRON, CPSSPWROFF}. pss_slot e' c = 0"
    "get_u8 (ps_mem e') PSSPWR = 0 \<Longrightarrow> \<forall>p \<in> {PSSPWR12, PSSPWR6, PSSPWR5, PSSPWR33}. get_u8 (ps_mem e') p = 0"
  using assms
proof
  assume st: "pss_start e"
  from pss_step_eq [OF pss_init_ok(1) [OF st]] that show thesis unfolding pss_first_step [OF st] by metis
next
  assume "pss_ok e"
  from pss_step_eq [OF this] that show thesis by metis
qed

lemma pss_run_ok:
  assumes "pss_run e0 e" "pss_start e0"
  shows "pss_start e \<or> pss_ok e"
  using assms
proof (induction rule: pss_run.induct)
  case (tick e tick rx out e')
  obtain out1 e1 where "pss_runtime_step tick rx e = (out1, Some e1)" "pss_ok e1"
    using pss_step_any [OF tick.IH [OF tick.prems]] by metis
  with tick.hyps(2) show ?case by simp
next
  case (model e m)
  then have "pss_start e \<or> pss_ok e" by simp
  then show ?case using model.hyps(2,3) by (auto simp: pss_start_def pss_ok_def pss_inv_def)
qed simp

lemma pss_members:
  "c \<in> set pss_ids \<longleftrightarrow> 52 \<le> c \<and> c < 76"
  "(on, off, p) \<in> set pss_switches \<Longrightarrow> on \<in> set pss_ids \<and> off \<in> set pss_ids \<and> p < PSS_COUNT"
  "(c, p) \<in> set pss_settings \<Longrightarrow> c \<in> set pss_ids \<and> p < PSS_COUNT"
proof -
  show ids: "c \<in> set pss_ids \<longleftrightarrow> 52 \<le> c \<and> c < 76" for c
    unfolding pss_ids_def CPSS_BASE_def CPSS_COUNT_def set_upt atLeastLessThan_iff by simp
  show "on \<in> set pss_ids \<and> off \<in> set pss_ids \<and> p < PSS_COUNT" if "(on, off, p) \<in> set pss_switches"
    using that unfolding pss_switches_def list.set insert_iff empty_iff prod.inject ids by (elim disjE conjE) (simp_all add: PSS_COUNT_def)
  show "c \<in> set pss_ids \<and> p < PSS_COUNT" if "(c, p) \<in> set pss_settings"
    using that unfolding pss_settings_def list.set insert_iff empty_iff prod.inject ids by (elim disjE conjE) (simp_all add: PSS_COUNT_def)
qed

subsection \<open>Properties\<close>

text \<open>
  C13: the node never stops. From the start of the process, after any ticks with any bytes on the bus
  and whatever the model did to the variables, the next tick is defined, keeps the invariant of the
  node (bus, message arrays, registry and variables fit together and every variable can be
  exported), leaves no power command active, and holds the interlock: with the main switch off
  all four rails are off.
\<close>

theorem pss_node_invariant:
  assumes "pss_start e0" "pss_run e0 e"
  shows "\<exists>out e'. pss_runtime_step tick rx e = (out, Some e') \<and> pss_ok e' \<and>
    \<not> ICMDACT (pss_ctx e') CPSSPWRON \<and> \<not> ICMDACT (pss_ctx e') CPSSPWROFF \<and>
    (get_u8 (ps_mem e') PSSPWR = 0 \<longrightarrow> (\<forall>p \<in> {PSSPWR12, PSSPWR6, PSSPWR5, PSSPWR33}. get_u8 (ps_mem e') p = 0))"
proof -
  obtain out e' where 1: "pss_runtime_step tick rx e = (out, Some e')" "pss_ok e'" "\<forall>c \<in> {CPSSPWRON, CPSSPWROFF}. pss_slot e' c = 0"
    "get_u8 (ps_mem e') PSSPWR = 0 \<Longrightarrow> \<forall>p \<in> {PSSPWR12, PSSPWR6, PSSPWR5, PSSPWR33}. get_u8 (ps_mem e') p = 0"
    using pss_step_any [OF pss_run_ok [OF assms(2,1)]] by metis
  have ids: "CPSSPWRON \<in> set pss_ids" "CPSSPWROFF \<in> set pss_ids" by (simp_all add: pss_ids_def CPSS_BASE_def CPSS_COUNT_def)
  have inv: "pss_inv e'" using 1(2) by (simp add: pss_ok_def)
  from 1 show ?thesis by (simp add: pss_active [OF inv ids(1)] pss_active [OF inv ids(2)])
qed

lemma pss_start_demo: "pss_start (pss_env0 sim_vars)"
  using sim_vars_typed ok_default by (simp add: pss_start_def pss_env0_def software_state0_def exportable_cells)

theorem pss_node_invariant_witness:
  "\<exists>out e'. pss_runtime_step 1 None (pss_env0 sim_vars) = (out, Some e') \<and> \<not> ICMDACT (pss_ctx e') CPSSPWRON"
  using pss_node_invariant [OF pss_start_demo pss_run.start, of 1 None] by blast

text \<open>
  C35: the system commands. Executing them never fails; every one that was active is consumed and the
  two power commands wait. Each switch takes the value its commands ask for, OFF winning over ON,
  each setting the number in its command field (the \<open>int8_t\<close> charge limit saturated), both over an INIT
  in the same message, which resets every other variable to its default; without INIT every other
  variable keeps its value.
\<close>

theorem system_commands_consumed:
  assumes "pss_inv e"
  defines "act \<equiv> ICMDACT (pss_ctx e)"
  shows "\<exists>e'. apply_system_commands e = Some e' \<and> pss_inv e' \<and>
    (\<forall>c \<in> set pss_ids. ICMDACT (pss_ctx e') c \<longleftrightarrow> (c = CPSSPWRON \<or> c = CPSSPWROFF) \<and> act c) \<and>
    (\<forall>(on, off, p) \<in> set pss_switches. ps_mem e' p =
       (if act off then V_u8 0 else if act on then V_u8 1 else if act CPSSINIT then sim_vars p else ps_mem e p)) \<and>
    (\<forall>(c, p) \<in> set pss_settings. ps_mem e' p =
       (if act c then pss_setting p (pss_cmd_value (pss_slot e c) c) else if act CPSSINIT then sim_vars p else ps_mem e p)) \<and>
    (\<forall>p < PSS_COUNT. p \<notin> snd ` snd ` set pss_switches \<and> p \<notin> snd ` set pss_settings \<longrightarrow>
       ps_mem e' p = (if act CPSSINIT then sim_vars p else ps_mem e p))"
proof -
  obtain e' where e': "apply_system_commands e = Some e'" "pss_inv e'"
    "\<forall>j \<in> set pss_ids. pss_slot e' j = (if j \<noteq> CPSSPWRON \<and> j \<noteq> CPSSPWROFF then 0 else pss_slot e j)"
    "\<forall>q < PSS_COUNT. ps_mem e' q = fold (cell_step (pss_slot e) q) pss_ids (ps_mem e q)" "exportable (ps_mem e) \<longrightarrow> pss_ok e'"
    by (rule system_commands_eq [OF assms(1)])
  have act: "c \<in> set pss_ids \<Longrightarrow> act c \<longleftrightarrow> pss_slot e c \<noteq> 0" for c by (simp add: act_def pss_active [OF assms(1)])
  have init: "act CPSSINIT \<longleftrightarrow> pss_slot e CPSSINIT \<noteq> 0" by (rule act) (simp add: pss_members(1))
  have "\<forall>c \<in> set pss_ids. ICMDACT (pss_ctx e') c \<longleftrightarrow> (c = CPSSPWRON \<or> c = CPSSPWROFF) \<and> act c"
    using e'(3) by (auto simp: pss_active [OF e'(2)] act)
  moreover have "ps_mem e' p = (if act off then V_u8 0 else if act on then V_u8 1 else if act CPSSINIT then sim_vars p else ps_mem e p)"
    if m: "(on, off, p) \<in> set pss_switches" for on off p
    using e'(4) pss_members(2) [OF m] cells_after(1) [OF m] init act by presburger
  moreover have "ps_mem e' p = (if act c then pss_setting p (pss_cmd_value (pss_slot e c) c) else if act CPSSINIT then sim_vars p else ps_mem e p)"
    if m: "(c, p) \<in> set pss_settings" for c p
    using e'(4) pss_members(3) [OF m] cells_after(2) [OF m] init act by presburger
  moreover have "ps_mem e' p = (if act CPSSINIT then sim_vars p else ps_mem e p)"
    if "p < PSS_COUNT" "p \<notin> snd ` snd ` set pss_switches" "p \<notin> snd ` set pss_settings" for p
    using e'(4) that(1) cells_after(3) [OF that] init by presburger
  ultimately show ?thesis using e'(1,2) by (intro exI [of _ e']) auto
qed

definition pss_demo :: pss_env where
  "pss_demo = (let e = pss_runtime_init (pss_env0 sim_vars)
     in e\<lparr>ps_bus := (ps_bus e)\<lparr>b_prm := Some (replicate 15 0), b_cmd := Some [0x1A, 0, 0, 0x0509, 0, 0, 0, 0]\<rparr>\<rparr>)"

lemma pss_demo_ok: "pss_ok pss_demo" "ps_mem pss_demo = sim_vars"
  "msg_cmd (pss_ctx pss_demo) = Some [0x1A, 0, 0, 0x0509, 0, 0, 0, 0]"
proof -
  note i = pss_init_ok [OF pss_start_demo]
  have "pss_bus_ok ((ps_bus (pss_runtime_init (pss_env0 sim_vars)))\<lparr>b_prm := Some (replicate 15 0), b_cmd := Some [0x1A, 0, 0, 0x0509, 0, 0, 0, 0]\<rparr>)"
    by (rule pss_bus_ok_put [OF pss_ok_bus [OF i(1)]]) (simp_all add: param_msg_blocks_def comm_msg_blocks_def)
  then show "pss_ok pss_demo" unfolding pss_demo_def Let_def by (rule pss_ok_fields(1) [OF i(1)])
  show "ps_mem pss_demo = sim_vars" using i(2) by (simp add: pss_demo_def Let_def pss_env0_def)
  show "msg_cmd (pss_ctx pss_demo) = Some [0x1A, 0, 0, 0x0509, 0, 0, 0, 0]" by (simp add: pss_demo_def Let_def)
qed

lemma pss_demo_slot:
  assumes "c \<in> set pss_ids"
  shows "read_value (Some [0x1A, 0, 0, 0x0509, 0, 0, 0, 0]) 8 (fst (cmd_slot c)) (fst (snd (cmd_slot c))) (snd (snd (cmd_slot c))) = Some (pss_slot pss_demo c)"
proof -
  have "pss_inv pss_demo" using pss_demo_ok(1) by (simp add: pss_ok_def)
  moreover from this have "length (the (b_cmd (ps_bus pss_demo))) = 8" by (simp add: pss_inv_def pss_bus_ok_def comm_msg_blocks_def)
  ultimately show ?thesis
    using pss_slot_read [of pss_demo, OF _ assms] pss_demo_ok(3) by (simp add: blk_rd_def cmd_mem_def case_prod_unfold)
qed

text \<open>The demonstration message holds the main switch ON, ON and OFF of the 12 V rail and the limits 9 A and 5 W.\<close>

theorem system_commands_consumed_witness:
  "\<exists>e'. apply_system_commands pss_demo = Some e' \<and> ps_mem e' PSSPWR12 = V_u8 0 \<and> ps_mem e' PSSMAXA = V_f32 (Fin 9) \<and>
    ICMDACT (pss_ctx e') CPSSPWRON \<and> \<not> ICMDACT (pss_ctx e') CPSSPWR12ON"
proof -
  have inv: "pss_inv pss_demo" using pss_demo_ok(1) by (simp add: pss_ok_def)
  have ids: "CPSSPWR12OFF \<in> set pss_ids" "CPSSMAXA \<in> set pss_ids" "CPSSPWRON \<in> set pss_ids" "CPSSPWR12ON \<in> set pss_ids"
    by (simp_all add: pss_members(1))
  have sl: "cmd_slot CPSSPWR12OFF = (0, 4, 1)" "cmd_slot CPSSMAXA = (3, 0, 8)" "cmd_slot CPSSPWRON = (0, 1, 1)" by code_simp+
  have rd: "read_value (Some [0x1A, 0, 0, 0x0509, 0, 0, 0, 0]) 8 0 4 1 = Some 1" "read_value (Some [0x1A, 0, 0, 0x0509, 0, 0, 0, 0]) 8 3 0 8 = Some 9"
    "read_value (Some [0x1A, 0, 0, 0x0509, 0, 0, 0, 0]) 8 0 1 1 = Some 1" by code_simp+
  have v: "pss_slot pss_demo CPSSPWR12OFF = 1" "pss_slot pss_demo CPSSMAXA = 9" "pss_slot pss_demo CPSSPWRON = 1"
    using pss_demo_slot [OF ids(1)] pss_demo_slot [OF ids(2)] pss_demo_slot [OF ids(3)] by (simp_all add: sl rd)
  have n: "pss_cmd_value 9 CPSSMAXA = 9" by code_simp
  have act: "ICMDACT (pss_ctx pss_demo) CPSSPWR12OFF" "ICMDACT (pss_ctx pss_demo) CPSSMAXA" "ICMDACT (pss_ctx pss_demo) CPSSPWRON"
    by (simp_all add: pss_active [OF inv ids(1)] pss_active [OF inv ids(2)] pss_active [OF inv ids(3)] v)
  have m: "(CPSSPWR12ON, CPSSPWR12OFF, PSSPWR12) \<in> set pss_switches" "(CPSSMAXA, PSSMAXA) \<in> set pss_settings"
    by (simp_all add: pss_switches_def pss_settings_def)
  obtain e' where e': "apply_system_commands pss_demo = Some e'"
    "\<forall>c \<in> set pss_ids. ICMDACT (pss_ctx e') c \<longleftrightarrow> (c = CPSSPWRON \<or> c = CPSSPWROFF) \<and> ICMDACT (pss_ctx pss_demo) c"
    "ps_mem e' PSSPWR12 = V_u8 0" "ps_mem e' PSSMAXA = pss_setting PSSMAXA (pss_cmd_value (pss_slot pss_demo CPSSMAXA) CPSSMAXA)"
    using system_commands_consumed [OF inv] m act by fastforce
  then show ?thesis using ids act by (simp add: v n pss_setting_def)
qed

text \<open>
  The power commands. Executing them never fails and consumes both; the main switch ends as OFF
  if OFF is active, else ON if ON is active, else as it was; whenever it ends at 0 the four rails
  are switched off, and no other variable changes.
\<close>

lemma power_commands_interlock:
  assumes "pss_inv e"
  defines "act \<equiv> ICMDACT (pss_ctx e)"
  defines "pwr \<equiv> (if act CPSSPWROFF then 0 else if act CPSSPWRON then 1 else get_u8 (ps_mem e) PSSPWR)"
  shows "\<exists>e'. ICMDPWRUPD e = Some e' \<and> pss_inv e' \<and>
    (\<forall>c \<in> set pss_ids. ICMDACT (pss_ctx e') c \<longleftrightarrow> c \<noteq> CPSSPWRON \<and> c \<noteq> CPSSPWROFF \<and> act c) \<and>
    (\<forall>q < PSS_COUNT. ps_mem e' q = (if q = PSSPWR then V_u8 pwr
       else if pwr = 0 \<and> q \<in> {PSSPWR12, PSSPWR6, PSSPWR5, PSSPWR33} then V_u8 0 else ps_mem e q))"
proof -
  have act: "c \<in> set pss_ids \<Longrightarrow> act c \<longleftrightarrow> pss_slot e c \<noteq> 0" for c by (simp add: act_def pss_active [OF assms(1)])
  have "act CPSSPWROFF \<longleftrightarrow> pss_slot e CPSSPWROFF \<noteq> 0" "act CPSSPWRON \<longleftrightarrow> pss_slot e CPSSPWRON \<noteq> 0"
    by (simp_all add: act pss_members(1))
  then have pwr: "pwr = (if pss_slot e CPSSPWROFF \<noteq> 0 then 0 else if pss_slot e CPSSPWRON \<noteq> 0 then 1 else get_u8 (ps_mem e) PSSPWR)"
    by (simp add: pwr_def)
  obtain e' where e': "apply_power_commands e = Some e'" "pss_inv e'"
    "\<forall>j \<in> set pss_ids. pss_slot e' j = (if j = CPSSPWRON \<or> j = CPSSPWROFF then 0 else pss_slot e j)"
    "\<forall>q < PSS_COUNT. ps_mem e' q = (if q = PSSPWR then V_u8 pwr
       else if pwr = 0 \<and> q \<in> {PSSPWR12, PSSPWR6, PSSPWR5, PSSPWR33} then V_u8 0 else ps_mem e q)"
    using power_commands_eq [OF assms(1)] unfolding pwr [symmetric] by blast
  have "\<forall>c \<in> set pss_ids. ICMDACT (pss_ctx e') c \<longleftrightarrow> c \<noteq> CPSSPWRON \<and> c \<noteq> CPSSPWROFF \<and> act c"
    using e'(3) by (auto simp: pss_active [OF e'(2)] act)
  with e' show ?thesis by (auto simp: ICMDPWRUPD_def)
qed

text \<open>
  C36: telemetry. The parameter update of a node in order never fails, leaves variables and commands as
  they were and puts the message into the send buffer; once CS has the buffer in its window of
  the PSS, every parameter that CS decodes is the variable's value (for the clock, the tick
  counter of the node) rounded to the nearest integer and saturated to the field.
\<close>

theorem telemetry_exported:
  assumes "pss_inv e" "exportable (ps_mem e)"
    and "ctx_role c = role_cs" "msg_prm c = Some zs" "msg_prm_blocks c = param_msg_blocks SYS_CS" "msg_prm_blocks c \<le> length zs"
  shows "\<exists>e'. IPRMUPD e = Some e' \<and> pss_inv e' \<and> ps_mem e' = ps_mem e \<and> b_cmd (ps_bus e') = b_cmd (ps_bus e) \<and>
    (\<forall>i < PSS_COUNT. IMSGGET (c\<lparr>msg_prm := copy_blocks (msg_prm c) (msg_prm_blocks c) 0
        (b_prm_buf (ps_bus e')) (param_msg_blocks SYS_PSS) 0 (param_msg_blocks SYS_PSS)\<rparr>) i =
      (par_ok, Fin (of_int (entry_quantise (S_baseparamtab ! i) (pss_out e i)))))"
proof -
  obtain ys where ys: "IPRMUPD e = Some (e\<lparr>ps_bus := (ps_bus e)\<lparr>b_prm := Some ys, b_prm_buf := Some ys\<rparr>\<rparr>)"
    "pss_inv (e\<lparr>ps_bus := (ps_bus e)\<lparr>b_prm := Some ys, b_prm_buf := Some ys\<rparr>\<rparr>)" "length ys = param_msg_blocks SYS_PSS"
    "\<forall>j < PSS_COUNT. row_value ys 0 (S_baseparamtab ! j) = entry_quantise (S_baseparamtab ! j) (pss_out e j)"
    using IPRMUPD_eq [OF assms(1,2)] by metis
  have "IMSGGET (c\<lparr>msg_prm := copy_blocks (msg_prm c) (msg_prm_blocks c) 0 (Some ys) (param_msg_blocks SYS_PSS) 0 (param_msg_blocks SYS_PSS)\<rparr>) i =
      (par_ok, Fin (of_int (entry_quantise (S_baseparamtab ! i) (pss_out e i))))" if "i < PSS_COUNT" for i
    using cs_reads [OF assms(3-6) ys(3) that, of "pss_out e i"] ys(4) that unfolding ys(3) by blast
  with ys(1,2) show ?thesis by simp
qed

theorem telemetry_exported_witness:
  "\<exists>e'. IPRMUPD pss_demo = Some e' \<and>
    IMSGGET \<lparr>ctx_role = role_cs, ctx_system_id = SYS_CS, msg_prm = copy_blocks (Some (replicate 26 0)) 26 0
        (b_prm_buf (ps_bus e')) 15 0 15, msg_prm_blocks = 26, msg_cmd = None, msg_cmd_blocks = 0\<rparr> PSSMAXW = (par_ok, Fin 255)"
proof -
  let ?c = "\<lparr>ctx_role = role_cs, ctx_system_id = SYS_CS, msg_prm = Some (replicate 26 0), msg_prm_blocks = 26, msg_cmd = None, msg_cmd_blocks = 0\<rparr>"
  have ok: "pss_inv pss_demo" "exportable (ps_mem pss_demo)" using pss_demo_ok(1) by (simp_all add: pss_ok_def)
  have n: "param_msg_blocks SYS_CS = 26" "param_msg_blocks SYS_PSS = 15" by code_simp+
  have "sim_vars PSSMAXW = V_f32 (Fin 290)" by (rule sim_vars_at) (simp add: all_vars_def sim_pss_vars_def)
  then have v: "pss_out pss_demo PSSMAXW = 290" by (simp add: pss_out_def pss_demo_ok(2) ISIMF32_def)
  have q: "entry_quantise (S_baseparamtab ! PSSMAXW) 290 = 255" by code_simp
  show ?thesis
    using telemetry_exported [OF ok, of ?c "replicate 26 0"] v q by (auto simp: n PSS_COUNT_def)
qed

end
