(* ===== verification/Console.thy ===== *)
theory Console
  imports SysTools Scheduler "HOL-Library.Char_ord"
begin

text \<open>
  The control console, \<open>control/src/control_support.cpp\<close> and \<open>control/src/control_console.cpp\<close>: it reads
  command lines from the terminal and from a control file, parses them, and queues them by target
  for the systems to take.

  The queues, the stop flag and the worker count are the record \<open>console\<close>; each operation on the
  queues holds the mutex and is one step. The terminal is the list of its lines, the control file is
  its contents. Of the standard library \<open>std::isspace\<close>, \<open>std::tolower\<close> and \<open>std::strtof\<close> are modelled
  as the C locale defines them; the two zeros of \<open>float\<close> are one. Log messages and sleeping are
  left out.
\<close>

record command_t =
  cm_target :: target_t
  cm_verb :: string
  cm_arg0 :: string
  cm_arg1 :: string
  cm_value :: fp
  cm_has_value :: bool
  cm_raw :: string

definition command0 :: command_t where
  "command0 = \<lparr>cm_target = tgt_any, cm_verb = [], cm_arg0 = [], cm_arg1 = [], cm_value = Fin 0, cm_has_value = False, cm_raw = []\<rparr>"

record console =
  cc_stop :: bool
  cc_running :: bool
  cc_workers :: "32 word"
  cc_queues :: "command_t list list"

definition console0 :: console where
  "console0 = \<lparr>cc_stop = False, cc_running = False, cc_workers = 0, cc_queues = replicate 7 []\<rparr>"

subsection \<open>Characters and tokens\<close>

definition char_space :: "char \<Rightarrow> bool" where
  "char_space c \<longleftrightarrow> (of_char c :: nat) \<in> {9, 10, 11, 12, 13, 32}"

definition char_lower :: "char \<Rightarrow> char" where
  "char_lower c = (let n = (of_char c :: nat) in if 65 \<le> n \<and> n \<le> 90 then char_of (n + 32) else c)"

definition to_lower_copy :: "string \<Rightarrow> string" where
  "to_lower_copy s = map char_lower s"

function split_ws :: "string \<Rightarrow> string list" where
  "split_ws s = (let t = dropWhile char_space s in
     if t = [] then [] else takeWhile (\<lambda>c. \<not> char_space c) t # split_ws (dropWhile (\<lambda>c. \<not> char_space c) t))"
  by pat_completeness auto
termination
proof (relation "measure length")
  fix s t
  assume t: "t = dropWhile char_space s" "t \<noteq> []"
  then obtain c u where cu: "t = c # u" "\<not> char_space c" by (metis hd_dropWhile list.collapse)
  have "length (dropWhile (\<lambda>c. \<not> char_space c) t) \<le> length u" using cu by (simp add: length_dropWhile_le)
  also have "\<dots> < length t" using cu by simp
  also have "\<dots> \<le> length s" using t(1) by (simp add: length_dropWhile_le)
  finally show "(dropWhile (\<lambda>c. \<not> char_space c) t, s) \<in> measure length" by simp
qed simp

declare split_ws.simps [simp del]

definition ctl_target_index :: "target_t \<Rightarrow> nat" where
  "ctl_target_index t = (case t of tgt_any \<Rightarrow> 0 | tgt_cs \<Rightarrow> 1 | tgt_pss \<Rightarrow> 2 | tgt_tcs \<Rightarrow> 3 | tgt_tms \<Rightarrow> 4
     | tgt_mns \<Rightarrow> 5 | tgt_ls \<Rightarrow> 6 | tgt_count \<Rightarrow> 7)"

subsection \<open>Numbers\<close>

text \<open>
  \<open>std::strtof\<close> on a string that it must use up: white space, a sign, then a decimal number, a
  hexadecimal number, infinity or a NaN.
\<close>

definition hex_val :: "char \<Rightarrow> nat" where
  "hex_val c = (let n = (of_char c :: nat) in
     if 48 \<le> n \<and> n \<le> 57 then n - 48 else if 65 \<le> n \<and> n \<le> 70 then n - 55 else if 97 \<le> n \<and> n \<le> 102 then n - 87 else 16)"

definition digits_val :: "nat \<Rightarrow> string \<Rightarrow> nat" where
  "digits_val base ds = foldl (\<lambda>a c. a * base + hex_val c) 0 ds"

text \<open>The exponent part: the letter, a sign, decimal digits. The empty string is exponent 0.\<close>

definition exponent_val :: "char \<Rightarrow> string \<Rightarrow> int option" where
  "exponent_val letter s =
     (case s of [] \<Rightarrow> Some 0
      | c # t \<Rightarrow>
          if char_lower c \<noteq> letter then None
          else let neg = (t \<noteq> [] \<and> hd t = CHR ''-''); ds = (if t \<noteq> [] \<and> (hd t = CHR ''-'' \<or> hd t = CHR ''+'') then tl t else t)
               in if ds = [] \<or> \<not> list_all (\<lambda>c. hex_val c < 10) ds then None
                  else Some (if neg then - int (digits_val 10 ds) else int (digits_val 10 ds)))"

text \<open>Digits of the base with an optional point, then the exponent.\<close>

definition mantissa_val :: "nat \<Rightarrow> char \<Rightarrow> nat \<Rightarrow> string \<Rightarrow> fp option" where
  "mantissa_val base letter ebase s =
     (let digit = (\<lambda>c. hex_val c < base);
          ip = takeWhile digit s; r = dropWhile digit s;
          point = (r \<noteq> [] \<and> hd r = CHR ''.'');
          fp = (if point then takeWhile digit (tl r) else []);
          e = (if point then dropWhile digit (tl r) else r)
      in if ip = [] \<and> fp = [] then None
         else map_option (\<lambda>k. to_fp f32 (of_nat (digits_val base (ip @ fp)) / of_nat base ^ length fp * of_nat ebase powi k))
                (exponent_val letter e))"

definition nan_text :: "string \<Rightarrow> bool" where
  "nan_text s \<longleftrightarrow> s = ''nan'' \<or> (take 4 s = ''nan('' \<and> 5 \<le> length s \<and> last s = CHR '')'' \<and>
     list_all (\<lambda>c. hex_val c < 10 \<or> (97 \<le> (of_char c :: nat) \<and> (of_char c :: nat) \<le> 122) \<or> c = CHR ''_'') (butlast (drop 4 s)))"

definition unsigned_val :: "string \<Rightarrow> fp option" where
  "unsigned_val s =
     (let l = to_lower_copy s in
      if l = ''inf'' \<or> l = ''infinity'' then Some PInf
      else if nan_text l then Some NaN
      else if take 2 l = ''0x'' then mantissa_val 16 (CHR ''p'') 2 (drop 2 s)
      else mantissa_val 10 (CHR ''e'') 10 s)"

definition strtof_all :: "string \<Rightarrow> fp option" where
  "strtof_all s =
     (let t = dropWhile char_space s in
      case t of [] \<Rightarrow> None
      | c # u \<Rightarrow> if c = CHR ''-'' then map_option fp_neg (unsigned_val u)
                 else if c = CHR ''+'' then unsigned_val u else unsigned_val t)"

text \<open>\<open>c_str()\<close> ends at the first NUL.\<close>

definition parse_number :: "string \<Rightarrow> fp option" where
  "parse_number token = (if token = [] then None else strtof_all (takeWhile (\<lambda>c. (of_char c :: nat) \<noteq> 0) token))"

subsection \<open>Targets and lines\<close>

definition parse_target :: "string \<Rightarrow> target_t" where
  "parse_target token =
     (let t = to_lower_copy token in
      if t = ''cs'' then tgt_cs else if t = ''pss'' then tgt_pss else if t = ''tcs'' then tgt_tcs
      else if t = ''tms'' then tgt_tms else if t = ''mns'' then tgt_mns else if t = ''ls'' then tgt_ls
      else if t = ''any'' then tgt_any else tgt_any)"

definition try_parse_target :: "string \<Rightarrow> target_t option" where
  "try_parse_target token =
     (let parsed = parse_target token in
      if parsed = tgt_any \<and> to_lower_copy token \<noteq> ''any'' then None else Some parsed)"

definition target_to_string :: "target_t \<Rightarrow> string" where
  "target_to_string t = (case t of tgt_any \<Rightarrow> ''any'' | tgt_cs \<Rightarrow> ''cs'' | tgt_pss \<Rightarrow> ''pss'' | tgt_tcs \<Rightarrow> ''tcs''
     | tgt_tms \<Rightarrow> ''tms'' | tgt_mns \<Rightarrow> ''mns'' | tgt_ls \<Rightarrow> ''ls'' | tgt_count \<Rightarrow> ''unknown'')"

definition set_arg0 :: "string list \<Rightarrow> nat \<Rightarrow> command_t \<Rightarrow> command_t" where
  "set_arg0 tokens idx cmd = (if idx + 1 < length tokens then cmd\<lparr>cm_arg0 := tokens ! (idx + 1)\<rparr> else cmd)"

text \<open>One token after the key of a command: \<open>value=N\<close>, \<open>id=KEY\<close> or a number.\<close>

definition parse_option :: "string \<Rightarrow> command_t \<Rightarrow> command_t" where
  "parse_option token cmd =
     (if CHR ''='' \<in> set token
      then let key = to_lower_copy (takeWhile (\<lambda>c. c \<noteq> CHR ''='') token); value = tl (dropWhile (\<lambda>c. c \<noteq> CHR ''='') token)
           in if key = ''value'' then (case parse_number value of None \<Rightarrow> cmd | Some v \<Rightarrow> cmd\<lparr>cm_value := v, cm_has_value := True\<rparr>)
              else if key = ''id'' then cmd\<lparr>cm_arg1 := value\<rparr> else cmd
      else (case parse_number token of None \<Rightarrow> cmd | Some v \<Rightarrow> cmd\<lparr>cm_value := v, cm_has_value := True\<rparr>))"

definition set_arg1 :: "string list \<Rightarrow> nat \<Rightarrow> command_t \<Rightarrow> command_t" where
  "set_arg1 tokens idx cmd =
     (if idx + 2 < length tokens
      then let a = tokens ! (idx + 2) in cmd\<lparr>cm_arg1 := (if take 3 a = ''id='' then drop 3 a else a)\<rparr>
      else cmd)"

definition parse_line :: "string \<Rightarrow> command_t option" where
  "parse_line line =
     (let tokens = split_ws line in
      if tokens = [] then None
      else let first = try_parse_target (tokens ! 0);
               target = (case first of None \<Rightarrow> tgt_cs | Some t \<Rightarrow> t);
               idx = (case first of None \<Rightarrow> 0 | Some _ \<Rightarrow> 1)
           in if idx \<ge> length tokens then None
              else let verb = to_lower_copy (tokens ! idx);
                       cmd = command0\<lparr>cm_target := target, cm_verb := verb, cm_raw := line\<rparr>
                   in if verb = ''help'' then Some cmd
                      else if verb = ''quit'' \<or> verb = ''exit'' then Some cmd
                      else if verb = ''exchange'' \<or> verb = ''ex'' then Some (set_arg0 tokens idx cmd)
                      else if verb = ''enable'' \<or> verb = ''disable'' then Some (set_arg0 tokens idx cmd)
                      else if verb = ''focus'' then Some (set_arg0 tokens idx cmd)
                      else if verb = ''nominal'' then Some cmd
                      else if verb = ''status'' then Some (set_arg0 tokens idx cmd)
                      else if verb = ''cmd'' \<or> verb = ''stagecmd''
                        then Some (fold parse_option (drop (idx + 3) tokens) (set_arg1 tokens idx (set_arg0 tokens idx cmd)))
                      else if verb = ''sendcmd'' \<or> verb = ''sendcmdbuf'' then Some (set_arg0 tokens idx cmd)
                      else None)"

subsection \<open>Queues\<close>

definition ctl_enqueue :: "command_t \<Rightarrow> console \<Rightarrow> console" where
  "ctl_enqueue cmd s = (let i = ctl_target_index (cm_target cmd)
     in s\<lparr>cc_queues := (cc_queues s)[i := cc_queues s ! i @ [cmd]]\<rparr>)"

definition pop_command :: "target_t \<Rightarrow> console \<Rightarrow> (command_t \<times> console) option" where
  "pop_command target s =
     (let i = ctl_target_index target; k = ctl_target_index tgt_any in
      case cc_queues s ! i of c # cs \<Rightarrow> Some (c, s\<lparr>cc_queues := (cc_queues s)[i := cs]\<rparr>)
      | [] \<Rightarrow> if target \<noteq> tgt_any
              then (case cc_queues s ! k of c # cs \<Rightarrow> Some (c, s\<lparr>cc_queues := (cc_queues s)[k := cs]\<rparr>) | [] \<Rightarrow> None)
              else None)"

definition ctl_clear :: "target_t \<Rightarrow> console \<Rightarrow> console" where
  "ctl_clear target s =
     (if target = tgt_any then s\<lparr>cc_queues := map (\<lambda>_. []) (cc_queues s)\<rparr>
      else s\<lparr>cc_queues := (cc_queues s)[ctl_target_index target := []]\<rparr>)"

definition ctl_stop :: "console \<Rightarrow> console" where "ctl_stop s = s\<lparr>cc_stop := True\<rparr>"
definition ctl_is_running :: "console \<Rightarrow> bool" where "ctl_is_running s = cc_running s"

subsection \<open>The two workers\<close>

definition worker_started :: "console \<Rightarrow> console" where
  "worker_started s = s\<lparr>cc_workers := cc_workers s + 1, cc_running := True\<rparr>"

definition worker_stopped :: "console \<Rightarrow> console" where
  "worker_stopped s = (let left = cc_workers s - 1; s1 = s\<lparr>cc_workers := left\<rparr> in if left = 0 then s1\<lparr>cc_running := False\<rparr> else s1)"

text \<open>One line of the terminal; the loop ends when the result is \<open>False\<close>.\<close>

definition console_line :: "string \<Rightarrow> console \<Rightarrow> bool \<times> console" where
  "console_line line s =
     (if line = [] then (True, s)
      else (case parse_line line of None \<Rightarrow> (True, s)
        | Some cmd \<Rightarrow>
            if cm_verb cmd = ''quit'' \<or> cm_verb cmd = ''exit'' then (False, s\<lparr>cc_stop := True\<rparr>)
            else (True, ctl_enqueue cmd s)))"

fun console_lines :: "string list \<Rightarrow> console \<Rightarrow> console" where
  "console_lines [] s = s"
| "console_lines (l # ls) s =
     (if cc_stop s then s
      else let (more, s1) = console_line l s in if more then console_lines ls s1 else s1)"

definition console_loop :: "string list \<Rightarrow> console \<Rightarrow> console" where
  "console_loop ls s = worker_stopped (console_lines ls (worker_started s))"

definition newline :: char where "newline = CHR 0x0A"

text \<open>\<open>std::getline\<close> until it fails: the lines of a text, the last one without its newline too.\<close>

function getlines :: "string \<Rightarrow> string list" where
  "getlines s = (if s = [] then []
     else takeWhile (\<lambda>c. c \<noteq> newline) s # getlines (tl (dropWhile (\<lambda>c. c \<noteq> newline) s)))"
  by pat_completeness auto
termination
proof (relation "measure length")
  fix s :: string
  assume "s \<noteq> []"
  moreover have "length (dropWhile (\<lambda>c. c \<noteq> newline) s) \<le> length s" by (rule length_dropWhile_le)
  ultimately have "length (tl (dropWhile (\<lambda>c. c \<noteq> newline) s)) < length s" by (metis le_less_trans length_0_conv length_greater_0_conv length_tl diff_less less_le_trans diff_le_self zero_less_one list.size(3) not_le)
  then show "(tl (dropWhile (\<lambda>c. c \<noteq> newline) s), s) \<in> measure length" by (rule iffD2 [OF in_measure])
qed (rule wf_measure)

declare getlines.simps [simp del]

definition file_line :: "string \<Rightarrow> console \<Rightarrow> console" where
  "file_line line s =
     (if line = [] then s
      else (case parse_line line of None \<Rightarrow> s
        | Some cmd \<Rightarrow> if cm_verb cmd = ''quit'' \<or> cm_verb cmd = ''exit'' then s else ctl_enqueue cmd s))"

text \<open>
  One pass of the loop of \<open>file_loop\<close> over an existing file with the given contents; \<open>tellg\<close> after the
  last \<open>getline\<close> reports failure, so the new offset is the size.
\<close>

definition file_poll :: "string \<Rightarrow> nat \<times> console \<Rightarrow> nat \<times> console" where
  "file_poll contents = (\<lambda>(offset, s).
     let size = length contents;
         offset1 = (if size < offset then 0 else offset)
     in if size > offset1 then (size, fold file_line (getlines (drop offset1 contents)) s) else (offset1, s))"

text \<open>The passes of the loop, one for each look at the file; \<open>None\<close> when it does not exist.\<close>

fun file_passes :: "string option list \<Rightarrow> nat \<times> console \<Rightarrow> nat \<times> console" where
  "file_passes [] st = st"
| "file_passes (f # fs) st =
     (if cc_stop (snd st) then st else file_passes fs (case f of None \<Rightarrow> st | Some contents \<Rightarrow> file_poll contents st))"

definition file_loop :: "string \<Rightarrow> string option list \<Rightarrow> console \<Rightarrow> console" where
  "file_loop path fs s =
     (let s1 = worker_started s in if path = [] then s1 else worker_stopped (snd (file_passes fs (0, s1))))"

record config_t =
  cfg_enabled :: bool
  cfg_echo :: bool
  cfg_console_enabled :: bool
  cfg_file_enabled :: bool

text \<open>
  The start: the new state, before a worker has run, and which workers it starts. The path of the
  control file comes from the environment.
\<close>

definition ctl_start :: "config_t \<Rightarrow> string \<Rightarrow> console \<Rightarrow> console \<times> bool \<times> bool" where
  "ctl_start cfg control_path s =
     (if \<not> cfg_enabled cfg \<or> (\<not> cfg_console_enabled cfg \<and> \<not> cfg_file_enabled cfg) then (s, False, False)
      else if cc_running s then (s, False, False)
      else (s\<lparr>cc_stop := False, cc_workers := 0, cc_running := False\<rparr>, cfg_console_enabled cfg,
            (if cfg_file_enabled cfg then control_path else []) \<noteq> []))"

subsection \<open>Tokens\<close>

definition is_word :: "string \<Rightarrow> bool" where
  "is_word w \<longleftrightarrow> w \<noteq> [] \<and> (\<forall>c \<in> set w. \<not> char_space c)"

text \<open>A line that holds the words: white space before, between and after them as the operator likes.\<close>

definition spaced :: "string \<Rightarrow> string list \<Rightarrow> bool" where
  "spaced line ws \<longleftrightarrow> list_all is_word ws \<and>
     (\<exists>lead gaps. list_all char_space lead \<and> length gaps = length ws \<and> list_all (list_all char_space) gaps \<and>
        list_all (\<lambda>g. g \<noteq> []) (butlast gaps) \<and> line = lead @ concat (map2 (@) ws gaps))"

lemma char_space_blank [simp]: "char_space (CHR '' '')"
  by (simp add: char_space_def)

lemma takeWhile_word: "(\<forall>c \<in> set w. \<not> P c) \<Longrightarrow> P c \<Longrightarrow> takeWhile (\<lambda>c. \<not> P c) (w @ c # s) = w"
  "(\<forall>c \<in> set w. \<not> P c) \<Longrightarrow> P c \<Longrightarrow> dropWhile (\<lambda>c. \<not> P c) (w @ c # s) = c # s"
  "(\<forall>c \<in> set w. \<not> P c) \<Longrightarrow> takeWhile (\<lambda>c. \<not> P c) w = w" "(\<forall>c \<in> set w. \<not> P c) \<Longrightarrow> dropWhile (\<lambda>c. \<not> P c) w = []"
  by (induction w) auto

lemma split_ws_space: "char_space c \<Longrightarrow> split_ws (c # s) = split_ws s"
  by (subst (1 2) split_ws.simps) simp

lemma split_ws_word:
  assumes "is_word w"
  shows "split_ws w = [w]" "char_space c \<Longrightarrow> split_ws (w @ c # s) = w # split_ws s"
proof -
  have d: "dropWhile char_space (w @ u) = w @ u" for u using assms by (cases w) (auto simp: is_word_def)
  show "split_ws w = [w]"
    using assms d [of "[]"] by (subst split_ws.simps) (simp add: is_word_def takeWhile_word split_ws.simps [of "[]"])
  show "split_ws (w @ c # s) = w # split_ws s" if "char_space c"
    using assms that d [of "c # s"] by (subst split_ws.simps) (simp add: is_word_def takeWhile_word split_ws_space)
qed

lemma split_ws_lead: "list_all char_space g \<Longrightarrow> split_ws (g @ s) = split_ws s"
  by (induction g) (simp_all add: split_ws_space)

lemma split_ws_gaps:
  assumes "list_all is_word ws" "length gaps = length ws" "list_all (list_all char_space) gaps" "list_all (\<lambda>g. g \<noteq> []) (butlast gaps)"
  shows "split_ws (concat (map2 (@) ws gaps)) = ws"
  using assms
proof (induction ws arbitrary: gaps)
  case Nil
  then show ?case by (simp add: split_ws.simps [of "[]"])
next
  case (Cons w ws)
  then obtain g gs where g: "gaps = g # gs" by (cases gaps) auto
  let ?rest = "concat (map2 (@) ws gs)"
  have rest: "split_ws ?rest = ws" using Cons g by (intro Cons.IH) (auto split: if_splits)
  show ?case
  proof (cases g)
    case Nil
    then have "gs = []" using Cons.prems(4) g by (auto split: if_splits)
    then show ?thesis using Cons.prems(1,2) g Nil by (simp add: split_ws_word)
  next
    case (Cons c g')
    have sp: "char_space c" "list_all char_space g'" using Cons.prems(3) g Cons by simp_all
    have "split_ws (w @ c # g' @ ?rest) = w # split_ws (g' @ ?rest)" using Cons.prems(1) sp(1) by (simp add: split_ws_word)
    also have "\<dots> = w # ws" by (simp add: split_ws_lead [OF sp(2)] rest)
    finally show ?thesis using g Cons by simp
  qed
qed

lemma split_spaced: "spaced line ws \<Longrightarrow> split_ws line = ws"
  by (auto simp: spaced_def split_ws_lead split_ws_gaps)

text \<open>The tokens of a line have no white space in them, and nothing but white space is lost.\<close>

lemma split_ws_tokens: "(\<forall>w \<in> set (split_ws s). is_word w) \<and> concat (split_ws s) = filter (\<lambda>c. \<not> char_space c) s"
proof (induction s rule: split_ws.induct)
  case (1 s)
  define t where "t = dropWhile char_space s"
  have f: "filter (\<lambda>c. \<not> char_space c) s = filter (\<lambda>c. \<not> char_space c) t"
    unfolding t_def by (induction s) auto
  show ?case
  proof (cases "t = []")
    case True
    then show ?thesis using f by (subst (1 2) split_ws.simps) (simp add: t_def)
  next
    case False
    have h: "\<not> char_space (hd t)" using False unfolding t_def by (rule hd_dropWhile)
    let ?w = "takeWhile (\<lambda>c. \<not> char_space c) t" and ?r = "dropWhile (\<lambda>c. \<not> char_space c) t"
    have w: "is_word ?w" using False h by (cases t) (auto simp: is_word_def dest: set_takeWhileD)
    have "filter (\<lambda>c. \<not> char_space c) t = filter (\<lambda>c. \<not> char_space c) (?w @ ?r)" by simp
    also have "\<dots> = ?w @ filter (\<lambda>c. \<not> char_space c) ?r"
      unfolding filter_append using w by (simp add: is_word_def filter_id_conv)
    finally have "filter (\<lambda>c. \<not> char_space c) t = ?w @ filter (\<lambda>c. \<not> char_space c) ?r" .
    moreover have "split_ws s = ?w # split_ws ?r" using False by (subst split_ws.simps) (simp add: t_def [symmetric])
    ultimately show ?thesis using "1.IH" [OF t_def False] w f by simp
  qed
qed

subsection \<open>Decimal numbers\<close>

lemma digits_val_snoc: "digits_val b (ds @ [c]) = digits_val b ds * b + hex_val c"
  by (simp add: digits_val_def)

lemma hex_val_digit [simp]: "d < 10 \<Longrightarrow> hex_val (char_of (48 + d :: nat)) = d"
  by (simp add: hex_val_def)

lemma decimal_digits: "list_all (\<lambda>c. 48 \<le> (of_char c :: nat) \<and> (of_char c :: nat) \<le> 57) (decimal n) \<and> decimal n \<noteq> [] \<and> digits_val 10 (decimal n) = n"
proof (induction n rule: decimal.induct)
  case (1 n)
  show ?case
  proof (cases "n < 10")
    case True
    then show ?thesis by (subst (1 2 3) decimal.simps) (simp add: digits_val_def)
  next
    case False
    have "n mod 10 < 10" by simp
    then have h: "hex_val (char_of (48 + n mod 10)) = n mod 10" by (rule hex_val_digit)
    have c: "(of_char (char_of (48 + n mod 10) :: char) :: nat) = 48 + n mod 10" by simp
    have e: "decimal n = decimal (n div 10) @ [char_of (48 + n mod 10)]" using False by (subst decimal.simps) simp
    show ?thesis using 1 [OF False] unfolding e by (simp add: digits_val_snoc h c)
  qed
qed

lemma digit_char: "48 \<le> (of_char c :: nat) \<Longrightarrow> (of_char c :: nat) \<le> 57 \<Longrightarrow>
    hex_val c < 10 \<and> \<not> char_space c \<and> char_lower c = c \<and> c \<noteq> CHR ''-'' \<and> c \<noteq> CHR ''+'' \<and> c \<noteq> CHR ''i'' \<and> c \<noteq> CHR ''n'' \<and>
    c \<noteq> CHR ''x'' \<and> c \<noteq> CHR ''='' \<and> (of_char c :: nat) \<noteq> 0"
  by (auto simp: hex_val_def char_space_def char_lower_def)

lemma decimal_chars:
  assumes "c \<in> set (decimal n)"
  shows "hex_val c < 10 \<and> \<not> char_space c \<and> char_lower c = c \<and> c \<noteq> CHR ''-'' \<and> c \<noteq> CHR ''+'' \<and> c \<noteq> CHR ''i'' \<and> c \<noteq> CHR ''n'' \<and>
    c \<noteq> CHR ''x'' \<and> c \<noteq> CHR ''='' \<and> (of_char c :: nat) \<noteq> 0"
  using decimal_digits [of n] assms by (intro digit_char) (auto simp: list_all_iff)

lemma is_word_decimal: "is_word (decimal n)"
  using decimal_chars decimal_digits [of n] by (auto simp: is_word_def)

lemma mantissa_decimal:
  assumes "ds \<noteq> []" "\<forall>c \<in> set ds. hex_val c < 10"
  shows "mantissa_val 10 e b ds = Some (to_fp f32 (of_nat (digits_val 10 ds)))"
proof -
  have t: "takeWhile (\<lambda>c. hex_val c < 10) ds = ds" "dropWhile (\<lambda>c. hex_val c < 10) ds = []" using assms(2) by auto
  show ?thesis using assms(1) by (simp add: mantissa_val_def exponent_val_def Let_def t)
qed

lemma parse_number_decimal: "parse_number (decimal n) = Some (to_fp f32 (of_nat n))"
proof -
  note d = decimal_digits [of n] and c = decimal_chars [of _ n]
  obtain x xs where x: "decimal n = x # xs" using d by (cases "decimal n") auto
  have nul: "takeWhile (\<lambda>c. (of_char c :: nat) \<noteq> 0) (decimal n) = decimal n" using c by (simp add: takeWhile_eq_all_conv)
  have sp: "dropWhile char_space (decimal n) = decimal n" using c [of x] by (simp add: x)
  have low: "to_lower_copy (decimal n) = decimal n" using c by (simp add: to_lower_copy_def map_idI)
  have "decimal n \<noteq> ''inf''" "decimal n \<noteq> ''infinity''" "\<not> nan_text (decimal n)"
    using c [of x] by (auto simp: x nan_text_def)
  moreover have "take 2 (decimal n) \<noteq> ''0x''"
    using c by (cases xs) (auto simp: x)
  ultimately have "unsigned_val (decimal n) = Some (to_fp f32 (of_nat n))"
    using d c by (simp add: unsigned_val_def low mantissa_decimal)
  then show ?thesis using c [of x] d unfolding parse_number_def nul strtof_all_def sp by (simp add: x)
qed

lemma parse_number_signed:
  "parse_number (CHR ''-'' # decimal n) = Some (fp_neg (to_fp f32 (of_nat n)))" "parse_number (CHR ''+'' # decimal n) = Some (to_fp f32 (of_nat n))"
proof -
  note d = decimal_digits [of n] and c = decimal_chars [of _ n]
  obtain x xs where x: "decimal n = x # xs" using d by (cases "decimal n") auto
  have nul: "takeWhile (\<lambda>c. (of_char c :: nat) \<noteq> 0) (decimal n) = decimal n" using c by (simp add: takeWhile_eq_all_conv)
  have sp: "dropWhile char_space (decimal n) = decimal n" using c [of x] by (simp add: x)
  have "parse_number (decimal n) = unsigned_val (decimal n)"
    using c [of x] d unfolding parse_number_def nul strtof_all_def sp by (simp add: x)
  then have u: "unsigned_val (decimal n) = Some (to_fp f32 (of_nat n))" by (simp add: parse_number_decimal)
  have nz: "takeWhile (\<lambda>c. 0 < (of_char c :: nat)) (decimal n) = decimal n" using c by (simp add: takeWhile_eq_all_conv)
  have "\<not> char_space (CHR ''-'')" "\<not> char_space (CHR ''+'')" by (simp_all add: char_space_def)
  then show "parse_number (CHR ''-'' # decimal n) = Some (fp_neg (to_fp f32 (of_nat n)))"
    "parse_number (CHR ''+'' # decimal n) = Some (to_fp f32 (of_nat n))"
    by (simp_all add: parse_number_def strtof_all_def nz u)
qed

subsection \<open>Spelling and parsing a command\<close>

definition plain_verbs :: "string list" where "plain_verbs = [''help'', ''quit'', ''exit'', ''nominal'']"
definition target_verbs :: "string list" where
  "target_verbs = [''exchange'', ''ex'', ''enable'', ''disable'', ''focus'', ''status'', ''sendcmd'', ''sendcmdbuf'']"
definition key_verbs :: "string list" where "key_verbs = [''cmd'', ''stagecmd'']"

text \<open>
  The words that spell a command. The target comes first, in any letter case, and may be left out for
  the central system; then the verb, in any case; then the target that the command is about, or the
  target and the key of a staged command, which may have \<open>id=\<close> in front, with at most one value: a whole
  number in decimal digits with an optional sign, alone or after \<open>value=\<close> in any case.
\<close>

definition value_word :: "string \<Rightarrow> fp \<Rightarrow> bool" where
  "value_word w v \<longleftrightarrow> (\<exists>k u n. (w = u \<or> w = k @ ''='' @ u \<and> to_lower_copy k = ''value'') \<and>
     ((u = decimal n \<or> u = CHR ''+'' # decimal n) \<and> v = to_fp f32 (of_nat n) \<or> u = CHR ''-'' # decimal n \<and> v = fp_neg (to_fp f32 (of_nat n))))"

definition spelled_target :: "string list \<Rightarrow> target_t \<Rightarrow> bool" where
  "spelled_target ts t \<longleftrightarrow> ts = [] \<and> t = tgt_cs \<or>
     t \<noteq> tgt_count \<and> length ts = 1 \<and> to_lower_copy (hd ts) = target_to_string t"

definition spelled_args :: "string list \<Rightarrow> command_t \<Rightarrow> bool" where
  "spelled_args ws c \<longleftrightarrow>
     (if cm_verb c \<in> set key_verbs
      then \<exists>a opt. ws = cm_arg0 c # a # opt \<and> (a = ''id='' @ cm_arg1 c \<or> a = cm_arg1 c \<and> take 3 a \<noteq> ''id='') \<and>
        (opt = [] \<and> cm_value c = Fin 0 \<and> \<not> cm_has_value c \<or> length opt = 1 \<and> value_word (hd opt) (cm_value c) \<and> cm_has_value c)
      else (ws = [] \<and> cm_arg0 c = [] \<or> cm_verb c \<in> set target_verbs \<and> ws = [cm_arg0 c]) \<and>
        cm_arg1 c = [] \<and> cm_value c = Fin 0 \<and> \<not> cm_has_value c)"

definition spells :: "string list \<Rightarrow> command_t \<Rightarrow> bool" where
  "spells ws c \<longleftrightarrow> cm_verb c \<in> set (plain_verbs @ target_verbs @ key_verbs) \<and>
     (\<exists>ts v as. ws = ts @ v # as \<and> spelled_target ts (cm_target c) \<and> to_lower_copy v = cm_verb c \<and> spelled_args as c)"

lemmas verb_defs = plain_verbs_def target_verbs_def key_verbs_def

lemma spelled_target_parsed: "to_lower_copy w = target_to_string t \<Longrightarrow> t \<noteq> tgt_count \<Longrightarrow> try_parse_target w = Some t"
  by (cases t) (simp_all add: try_parse_target_def parse_target_def target_to_string_def)

lemma verb_no_target: "to_lower_copy w \<in> set (plain_verbs @ target_verbs @ key_verbs) \<Longrightarrow> try_parse_target w = None"
  by (auto simp: try_parse_target_def parse_target_def verb_defs)

lemma lower_equals: "CHR ''='' \<in> set (to_lower_copy k) \<longleftrightarrow> CHR ''='' \<in> set k"
proof -
  have e: "char_lower c = CHR ''='' \<longleftrightarrow> c = CHR ''=''" for c
  proof (cases "65 \<le> (of_char c :: nat) \<and> (of_char c :: nat) \<le> 90")
    case True
    then have "char_lower c = char_of ((of_char c :: nat) + 32)" by (simp add: char_lower_def)
    then have "(of_char (char_lower c) :: nat) = of_char c + 32" using True by simp
    moreover have "(of_char (CHR ''='') :: nat) = 61" by simp
    ultimately have "char_lower c = CHR ''='' \<Longrightarrow> (of_char c :: nat) + 32 = 61" "c = CHR ''='' \<Longrightarrow> (of_char c :: nat) = 61" by metis+
    then show ?thesis using True by linarith
  next
    case False
    then show ?thesis by (auto simp: char_lower_def Let_def)
  qed
  have "CHR ''='' \<in> char_lower ` set k \<longleftrightarrow> CHR ''='' \<in> set k"
    unfolding image_iff using e by metis
  then show ?thesis by (simp add: to_lower_copy_def)
qed

lemma value_word_parsed: "value_word w v \<Longrightarrow> parse_option w c = c\<lparr>cm_value := v, cm_has_value := True\<rparr>"
proof -
  assume "value_word w v"
  then obtain k u n where w: "w = u \<or> w = k @ ''='' @ u \<and> to_lower_copy k = ''value''"
    and u: "(u = decimal n \<or> u = CHR ''+'' # decimal n) \<and> v = to_fp f32 (of_nat n) \<or> u = CHR ''-'' # decimal n \<and> v = fp_neg (to_fp f32 (of_nat n))"
    unfolding value_word_def by blast
  have p: "parse_number u = Some v" using u by (auto simp: parse_number_decimal parse_number_signed)
  have e: "CHR ''='' \<notin> set u" using u decimal_chars [of "CHR ''=''" n] by auto
  show ?thesis
  proof (cases "w = u")
    case True
    then show ?thesis using p e by (simp add: parse_option_def)
  next
    case False
    then have k: "w = k @ CHR ''='' # u" "to_lower_copy k = ''value''" using w by auto
    have ne: "CHR ''='' \<notin> set k" using lower_equals [of k] by (simp add: k(2))
    have "takeWhile (\<lambda>c. c \<noteq> CHR ''='') w = k \<and> dropWhile (\<lambda>c. c \<noteq> CHR ''='') w = CHR ''='' # u"
      unfolding k(1) using ne by (induction k) auto
    then show ?thesis using p k by (simp add: parse_option_def Let_def)
  qed
qed

text \<open>The cases of \<open>parse_line\<close> by the kind of verb.\<close>

lemma parse_line_general:
  fixes line :: string
  defines "ts \<equiv> split_ws line"
  defines "tg \<equiv> (case try_parse_target (ts ! 0) of None \<Rightarrow> tgt_cs | Some t \<Rightarrow> t)"
  defines "idx \<equiv> (case try_parse_target (ts ! 0) of None \<Rightarrow> 0 | Some _ \<Rightarrow> (1 :: nat))"
  defines "v \<equiv> to_lower_copy (ts ! idx)"
  defines "cmd \<equiv> command0\<lparr>cm_target := tg, cm_verb := v, cm_raw := line\<rparr>"
  shows "ts = [] \<or> length ts \<le> idx \<Longrightarrow> parse_line line = None"
    and "ts \<noteq> [] \<Longrightarrow> \<not> length ts \<le> idx \<Longrightarrow> v \<in> set plain_verbs \<Longrightarrow> parse_line line = Some cmd"
    and "ts \<noteq> [] \<Longrightarrow> \<not> length ts \<le> idx \<Longrightarrow> v \<in> set target_verbs \<Longrightarrow> parse_line line = Some (set_arg0 ts idx cmd)"
    and "ts \<noteq> [] \<Longrightarrow> \<not> length ts \<le> idx \<Longrightarrow> v \<in> set key_verbs \<Longrightarrow>
      parse_line line = Some (fold parse_option (drop (idx + 3) ts) (set_arg1 ts idx (set_arg0 ts idx cmd)))"
    and "ts \<noteq> [] \<Longrightarrow> \<not> length ts \<le> idx \<Longrightarrow> v \<notin> set (plain_verbs @ target_verbs @ key_verbs) \<Longrightarrow> parse_line line = None"
proof -
  note p = parse_line_def Let_def ts_def [symmetric] tg_def [symmetric] idx_def [symmetric] v_def [symmetric] cmd_def [symmetric] if_False
  show "ts = [] \<or> length ts \<le> idx \<Longrightarrow> parse_line line = None" unfolding p by (elim disjE) simp_all
  show "ts \<noteq> [] \<Longrightarrow> \<not> length ts \<le> idx \<Longrightarrow> v \<in> set plain_verbs \<Longrightarrow> parse_line line = Some cmd"
    unfolding p plain_verbs_def list.set insert_iff empty_iff by (elim disjE) simp_all
  show "ts \<noteq> [] \<Longrightarrow> \<not> length ts \<le> idx \<Longrightarrow> v \<in> set target_verbs \<Longrightarrow> parse_line line = Some (set_arg0 ts idx cmd)"
    unfolding p target_verbs_def list.set insert_iff empty_iff by (elim disjE) simp_all
  show "ts \<noteq> [] \<Longrightarrow> \<not> length ts \<le> idx \<Longrightarrow> v \<in> set key_verbs \<Longrightarrow>
      parse_line line = Some (fold parse_option (drop (idx + 3) ts) (set_arg1 ts idx (set_arg0 ts idx cmd)))"
    unfolding p key_verbs_def list.set insert_iff empty_iff by (elim disjE) simp_all
  show "ts \<noteq> [] \<Longrightarrow> \<not> length ts \<le> idx \<Longrightarrow> v \<notin> set (plain_verbs @ target_verbs @ key_verbs) \<Longrightarrow> parse_line line = None"
    unfolding p verb_defs set_append Un_iff list.set insert_iff empty_iff de_Morgan_disj by simp
qed

text \<open>
  C37: every way of spelling a command is read as that command: with any white space before, between and
  after the words, the target and the verb in any letter case, the target left out for the central
  system, the key of a staged command with or without \<open>id=\<close>, and its value, if it has one, a whole number
  with or without a sign and with or without \<open>value=\<close>, which becomes the nearest \<open>float\<close>.
\<close>

theorem parse_line_roundtrip:
  assumes "spaced (cm_raw c) ws" "spells ws c"
  shows "parse_line (cm_raw c) = Some c"
proof -
  obtain ts v as where w: "ws = ts @ v # as" "spelled_target ts (cm_target c)" "to_lower_copy v = cm_verb c" "spelled_args as c"
    and vb: "cm_verb c \<in> set (plain_verbs @ target_verbs @ key_verbs)" using assms(2) unfolding spells_def by blast
  note line = split_spaced [OF assms(1)]
  let ?t = "try_parse_target (ws ! 0)"
  have t: "(case ?t of None \<Rightarrow> tgt_cs | Some t \<Rightarrow> t) = cm_target c \<and> (case ?t of None \<Rightarrow> 0 | Some _ \<Rightarrow> 1) = length ts"
  proof (cases "ts = []")
    case True
    then show ?thesis using w vb verb_no_target [of v] by (simp add: spelled_target_def)
  next
    case False
    then obtain x where "ts = [x]" using w(2) by (auto simp: spelled_target_def length_Suc_conv)
    then show ?thesis using w spelled_target_parsed [of x "cm_target c"] by (simp add: spelled_target_def)
  qed
  let ?cmd = "command0\<lparr>cm_target := cm_target c, cm_verb := cm_verb c, cm_raw := cm_raw c\<rparr>"
  have at: "ws \<noteq> []" "\<not> length ws \<le> length ts" "ws ! length ts = v" using w(1) by (simp_all add: nth_append)
  note g = parse_line_general(2-4) [of "cm_raw c", unfolded line, unfolded t [THEN conjunct1] t [THEN conjunct2] at(3) w(3), OF at(1,2)]
  have s0: "set_arg0 ws (length ts) d = (case as of [] \<Rightarrow> d | a # _ \<Rightarrow> d\<lparr>cm_arg0 := a\<rparr>)" for d
    by (cases as) (simp_all add: set_arg0_def w(1) nth_append)
  show ?thesis
  proof (cases "cm_verb c \<in> set key_verbs")
    case True
    then obtain a opt where a: "as = cm_arg0 c # a # opt" "a = ''id='' @ cm_arg1 c \<or> a = cm_arg1 c \<and> take 3 a \<noteq> ''id=''"
      and o: "opt = [] \<and> cm_value c = Fin 0 \<and> \<not> cm_has_value c \<or> length opt = 1 \<and> value_word (hd opt) (cm_value c) \<and> cm_has_value c"
      using w(4) by (auto simp: spelled_args_def)
    have s1: "set_arg1 ws (length ts) d = d\<lparr>cm_arg1 := cm_arg1 c\<rparr>" for d
      using a(2) by (auto simp: set_arg1_def w(1) a(1) nth_append Let_def)
    have rest: "drop (length ts + 3) ws = opt" by (simp add: w(1) a(1))
    have f: "fold parse_option opt d = d\<lparr>cm_value := cm_value c, cm_has_value := cm_has_value c\<rparr>" if "cm_value d = Fin 0" "\<not> cm_has_value d" for d
      using o that by (auto simp: value_word_parsed length_Suc_conv)
    show ?thesis using g(3) [OF True] unfolding s0 s1 rest
      by (subst (asm) f) (simp_all add: a(1) command0_def)
  next
    case False
    then have b: "as = [] \<and> cm_arg0 c = [] \<or> cm_verb c \<in> set target_verbs \<and> as = [cm_arg0 c]" "cm_arg1 c = []" "cm_value c = Fin 0" "\<not> cm_has_value c"
      using w(4) by (simp_all add: spelled_args_def)
    consider "cm_verb c \<in> set plain_verbs" "cm_verb c \<notin> set target_verbs" | "cm_verb c \<in> set target_verbs" using vb False by auto
    then show ?thesis
    proof cases
      case 1
      then show ?thesis using g(1) [OF 1(1)] b by (simp add: command0_def)
    next
      case 2
      then show ?thesis using g(2) [OF 2] b unfolding s0 by (auto simp: command0_def)
    qed
  qed
qed

text \<open>A tab before, two blanks inside and one after; no target; mixed case and a negative value.\<close>

theorem parse_line_roundtrip_witness:
  "parse_line ([char_of (9 :: nat)] @ ''Cmd  pss id=CPSSMAXA Value=-7 '') = Some \<lparr>cm_target = tgt_cs, cm_verb = ''cmd'', cm_arg0 = ''pss'', cm_arg1 = ''CPSSMAXA'',
     cm_value = Fin (- 7), cm_has_value = True, cm_raw = [char_of (9 :: nat)] @ ''Cmd  pss id=CPSSMAXA Value=-7 ''\<rparr>"
proof -
  let ?l = "[char_of (9 :: nat)] @ ''Cmd  pss id=CPSSMAXA Value=-7 ''"
  let ?c = "\<lparr>cm_target = tgt_cs, cm_verb = ''cmd'', cm_arg0 = ''pss'', cm_arg1 = ''CPSSMAXA'',
     cm_value = Fin (- 7), cm_has_value = True, cm_raw = ?l\<rparr>"
  let ?ws = "[''Cmd'', ''pss'', ''id=CPSSMAXA'', ''Value=-7'']"
  have s: "char_of (55 :: nat) = CHR ''7''" "char_of (118 :: nat) = CHR ''v''" "char_of (99 :: nat) = CHR ''c''" by code_simp+
  have f: "to_fp f32 7 = Fin 7" by code_simp
  have "value_word ''Value=-7'' (Fin (- 7))"
    unfolding value_word_def
    by (rule exI [of _ "''Value''"], rule exI [of _ "''-7''"], rule exI [of _ 7])
      (simp add: to_lower_copy_def char_lower_def decimal.simps s f)
  then have "spells ?ws ?c"
    unfolding spells_def
    by (intro conjI exI [of _ "[]"] exI [of _ "''Cmd''"] exI [of _ "[''pss'', ''id=CPSSMAXA'', ''Value=-7'']"])
      (simp_all add: verb_defs spelled_target_def spelled_args_def to_lower_copy_def char_lower_def s)
  moreover have "spaced (cm_raw ?c) ?ws"
    unfolding spaced_def
    by (intro conjI exI [of _ "[char_of (9 :: nat)]"] exI [of _ "['' '' @ '' '', '' '', '' '', '' '']"])
      (simp_all add: is_word_def char_space_def)
  ultimately show ?thesis using parse_line_roundtrip [of ?c ?ws] by simp
qed

subsection \<open>What the queues hold\<close>

definition queued_verbs :: "string list" where
  "queued_verbs = [''help'', ''nominal''] @ target_verbs @ key_verbs"

definition is_quit :: "command_t \<Rightarrow> bool" where "is_quit c \<longleftrightarrow> cm_verb c = ''quit'' \<or> cm_verb c = ''exit''"

definition console_wf :: "console \<Rightarrow> bool" where
  "console_wf s \<longleftrightarrow> length (cc_queues s) = 7 \<and>
     (\<forall>i < 7. \<forall>c \<in> set (cc_queues s ! i). ctl_target_index (cm_target c) = i \<and> cm_verb c \<in> set queued_verbs)"

lemma index_le_7: "ctl_target_index t \<le> 7"
  by (cases t) (simp_all add: ctl_target_index_def)

lemma index_inj: "ctl_target_index t = ctl_target_index u \<longleftrightarrow> t = u"
  by (cases t; cases u) (simp_all add: ctl_target_index_def)

lemma index_lt_7: "t \<noteq> tgt_count \<Longrightarrow> ctl_target_index t < 7"
  by (cases t) (simp_all add: ctl_target_index_def)

lemma parse_option_fields: "cm_target (parse_option w c) = cm_target c" "cm_verb (parse_option w c) = cm_verb c"
  "cm_raw (parse_option w c) = cm_raw c"
  by (auto simp: parse_option_def Let_def split: option.split)

lemma fold_option_fields: "cm_target (fold parse_option ws c) = cm_target c" "cm_verb (fold parse_option ws c) = cm_verb c"
  "cm_raw (fold parse_option ws c) = cm_raw c"
  by (induction ws arbitrary: c) (simp_all add: parse_option_fields)

lemma set_arg_fields: "cm_target (set_arg0 ts i c) = cm_target c" "cm_verb (set_arg0 ts i c) = cm_verb c" "cm_raw (set_arg0 ts i c) = cm_raw c"
  "cm_target (set_arg1 ts i c) = cm_target c" "cm_verb (set_arg1 ts i c) = cm_verb c" "cm_raw (set_arg1 ts i c) = cm_raw c"
  by (simp_all add: set_arg0_def set_arg1_def Let_def)

lemma try_target_range: "try_parse_target w = Some t \<Longrightarrow> t \<noteq> tgt_count"
proof -
  have "parse_target w \<noteq> tgt_count" by (simp add: parse_target_def Let_def)
  then show "try_parse_target w = Some t \<Longrightarrow> t \<noteq> tgt_count" by (auto simp: try_parse_target_def Let_def split: if_splits)
qed

lemma parse_line_sound:
  assumes "parse_line line = Some c"
  shows "cm_target c \<noteq> tgt_count" "cm_verb c \<in> set (plain_verbs @ target_verbs @ key_verbs)" "cm_raw c = line"
proof -
  have tg: "(case try_parse_target w of None \<Rightarrow> tgt_cs | Some t \<Rightarrow> t) \<noteq> tgt_count" for w
    by (auto dest: try_target_range split: option.splits)
  define i where "i = (case try_parse_target (split_ws line ! 0) of None \<Rightarrow> 0 | Some _ \<Rightarrow> (1 :: nat))"
  define v where "v = to_lower_copy (split_ws line ! i)"
  note g = parse_line_general [of line, folded i_def, folded v_def]
  have ok: "split_ws line \<noteq> []" "\<not> length (split_ws line) \<le> i" using g(1) assms by fastforce+
  consider "v \<in> set plain_verbs" | "v \<in> set target_verbs" | "v \<in> set key_verbs" using g(5) [OF ok] assms by auto
  then have "cm_target c \<noteq> tgt_count \<and> cm_verb c \<in> set (plain_verbs @ target_verbs @ key_verbs) \<and> cm_raw c = line"
  proof cases
    case 1
    with g(2) [OF ok] assms have "c = command0\<lparr>cm_target := (case try_parse_target (split_ws line ! 0) of None \<Rightarrow> tgt_cs | Some t \<Rightarrow> t),
        cm_verb := v, cm_raw := line\<rparr>" by simp
    with tg 1 show ?thesis by simp
  next
    case 2
    with g(3) [OF ok] tg assms show ?thesis by (auto simp: set_arg_fields)
  next
    case 3
    with g(4) [OF ok] tg assms show ?thesis by (auto simp: set_arg_fields fold_option_fields)
  qed
  then show "cm_target c \<noteq> tgt_count" "cm_verb c \<in> set (plain_verbs @ target_verbs @ key_verbs)" "cm_raw c = line" by simp_all
qed

lemma console_wf_0: "console_wf console0"
  by (simp add: console_wf_def console0_def)

lemma console_wf_other [simp]: "console_wf (s\<lparr>cc_stop := a\<rparr>) = console_wf s" "console_wf (s\<lparr>cc_running := a\<rparr>) = console_wf s"
  "console_wf (s\<lparr>cc_workers := b\<rparr>) = console_wf s"
  by (simp_all add: console_wf_def)

lemma enqueue_queue:
  assumes "i < length (cc_queues s)"
  shows "cc_queues (ctl_enqueue c s) ! i = cc_queues s ! i @ (if ctl_target_index (cm_target c) = i then [c] else [])"
  using assms by (simp add: ctl_enqueue_def Let_def nth_list_update)

lemma enqueue_length [simp]: "length (cc_queues (ctl_enqueue c s)) = length (cc_queues s)"
  by (simp add: ctl_enqueue_def Let_def)

lemma enqueue_all_queue:
  "i < length (cc_queues s) \<Longrightarrow>
   cc_queues (fold ctl_enqueue cs s) ! i = cc_queues s ! i @ filter (\<lambda>c. ctl_target_index (cm_target c) = i) cs"
  by (induction cs arbitrary: s) (simp_all add: enqueue_queue)

lemma enqueue_wf: "console_wf s \<Longrightarrow> cm_verb c \<in> set queued_verbs \<Longrightarrow> console_wf (ctl_enqueue c s)"
  by (auto simp: console_wf_def enqueue_queue split: if_splits)

lemma queued_verb: "parse_line line = Some c \<Longrightarrow> \<not> is_quit c \<Longrightarrow> cm_verb c \<in> set queued_verbs"
  using parse_line_sound(2) [of line c] by (auto simp: is_quit_def queued_verbs_def plain_verbs_def)

lemma file_line_wf: "console_wf s \<Longrightarrow> console_wf (file_line line s)"
  using queued_verb by (auto simp: file_line_def is_quit_def enqueue_wf split: option.splits)

lemma console_line_wf: "console_wf s \<Longrightarrow> console_wf (snd (console_line line s))"
  using queued_verb by (auto simp: console_line_def is_quit_def enqueue_wf split: option.splits)

lemma list_update_tl_wf:
  assumes "console_wf s" "cc_queues s ! i = c # cs" "i < 7"
  shows "console_wf (s\<lparr>cc_queues := (cc_queues s)[i := cs]\<rparr>)"
  using assms by (auto simp: console_wf_def nth_list_update)

lemma pop_wf: "console_wf s \<Longrightarrow> t \<noteq> tgt_count \<Longrightarrow> pop_command t s = Some (c, s') \<Longrightarrow>
    console_wf s' \<and> cm_verb c \<in> set queued_verbs \<and> (cm_target c = t \<or> cm_target c = tgt_any)"
  using index_lt_7 [of t] index_lt_7 [of tgt_any]
  by (auto simp: pop_command_def Let_def split: list.splits if_splits intro: list_update_tl_wf)
    (auto simp: console_wf_def index_inj [symmetric] dest!: spec)

lemma fold_wf: "(\<And>x s. console_wf s \<Longrightarrow> console_wf (f x s)) \<Longrightarrow> console_wf s \<Longrightarrow> console_wf (fold f xs s)"
  by (induction xs arbitrary: s) simp_all

subsection \<open>The sources of commands\<close>

text \<open>
  The contract between the console and a system that takes its commands: a take gives the first of
  the commands that wait, and nothing only when none does. A loop that takes commands until there
  are none then handles exactly the waiting ones, in order.
\<close>

locale command_source =
  fixes take_one :: "'s \<Rightarrow> ('c \<times> 's) option"
    and waiting :: "'s \<Rightarrow> 'c list"
    and ok :: "'s \<Rightarrow> bool"
  assumes take_some: "ok s \<Longrightarrow> take_one s = Some (c, s') \<Longrightarrow> ok s' \<and> waiting s = c # waiting s'"
    and take_none: "ok s \<Longrightarrow> take_one s = None \<Longrightarrow> waiting s = []"
begin

lemma loop_handles_waiting:
  assumes "\<And>s x. loop s x = (case take_one s of None \<Rightarrow> Some (s, x)
      | Some (c, s') \<Rightarrow> (case handle c x of None \<Rightarrow> None | Some x' \<Rightarrow> loop s' x'))"
    and "ok s"
  shows "(case loop s x of None \<Rightarrow> fold (\<lambda>c r. Option.bind r (handle c)) (waiting s) (Some x) = None
    | Some (s', x') \<Rightarrow> fold (\<lambda>c r. Option.bind r (handle c)) (waiting s) (Some x) = Some x' \<and> waiting s' = [] \<and> ok s')"
  using assms(2)
proof (induction "waiting s" arbitrary: s x)
  case Nil
  then have "take_one s = None" using take_some [of s] by (cases "take_one s") auto
  then show ?case using Nil by (subst assms(1)) (simp add: Nil(1) [symmetric])
next
  case (Cons c cs)
  then obtain s' where s': "take_one s = Some (c, s')" "waiting s' = cs" "ok s'"
    using take_some [of s] take_none [of s] by (cases "take_one s") auto
  have none: "fold (\<lambda>c r. Option.bind r (handle c)) ds None = None" for ds by (induction ds) simp_all
  have w: "waiting s = c # cs" using Cons.hyps(2) by (rule sym)
  have l: "loop s x = (case handle c x of None \<Rightarrow> None | Some x' \<Rightarrow> loop s' x')"
    unfolding assms(1) [of s x] by (simp add: s'(1))
  show ?case
  proof (cases "handle c x")
    case None
    then show ?thesis by (simp add: l w none)
  next
    case (Some x')
    show ?thesis using Cons.hyps(1) [OF s'(2) [symmetric] s'(3), of x'] by (cases "loop s' x'") (simp_all add: l w Some s'(2) split: prod.splits)
  qed
qed

end

text \<open>What waits for a target: its own queue, then the queue of \<open>any\<close>.\<close>

definition waiting_for :: "target_t \<Rightarrow> console \<Rightarrow> command_t list" where
  "waiting_for t s = cc_queues s ! ctl_target_index t @ (if t = tgt_any then [] else cc_queues s ! ctl_target_index tgt_any)"

lemma pop_waiting:
  assumes "length (cc_queues s) = 7" "t \<noteq> tgt_count"
  shows "pop_command t s = Some (c, s') \<Longrightarrow> waiting_for t s = c # waiting_for t s' \<and> length (cc_queues s') = 7 \<and>
      cc_stop s' = cc_stop s \<and> (\<forall>u. u \<noteq> t \<and> u \<noteq> tgt_any \<longrightarrow> cc_queues s' ! ctl_target_index u = cc_queues s ! ctl_target_index u)"
    "pop_command t s = None \<Longrightarrow> waiting_for t s = []"
proof -
  have i: "ctl_target_index t < 7" "ctl_target_index tgt_any < 7" using index_lt_7 assms(2) by simp_all
  show "pop_command t s = Some (c, s') \<Longrightarrow> waiting_for t s = c # waiting_for t s' \<and> length (cc_queues s') = 7 \<and>
      cc_stop s' = cc_stop s \<and> (\<forall>u. u \<noteq> t \<and> u \<noteq> tgt_any \<longrightarrow> cc_queues s' ! ctl_target_index u = cc_queues s ! ctl_target_index u)"
    using i assms by (auto simp: pop_command_def waiting_for_def index_inj Let_def split: list.splits if_splits)
  show "pop_command t s = None \<Longrightarrow> waiting_for t s = []"
    by (auto simp: pop_command_def waiting_for_def Let_def split: list.splits if_splits)
qed

interpretation console: command_source "pop_command t" "waiting_for t" "\<lambda>s. length (cc_queues s) = 7 \<and> t \<noteq> tgt_count" for t
  by unfold_locales (use pop_waiting in blast)+

subsection \<open>The two inputs\<close>

definition line_command :: "string \<Rightarrow> command_t list" where
  "line_command line = (if line = [] then [] else case parse_line line of None \<Rightarrow> [] | Some c \<Rightarrow> [c])"

text \<open>
  C38: the terminal. The commands of the lines up to the first \<open>quit\<close> or \<open>exit\<close> are queued, each in the
  queue of its target behind what was there, in the order they were typed; lines that are empty or
  do not parse do nothing; the stop flag is set exactly when a line said so.
\<close>

theorem console_lines_queue:
  fixes ls :: "string list"
  assumes "\<not> cc_stop s" "i < length (cc_queues s)"
  defines "typed \<equiv> concat (map line_command ls)"
  shows "cc_queues (console_lines ls s) ! i =
      cc_queues s ! i @ filter (\<lambda>c. ctl_target_index (cm_target c) = i) (takeWhile (\<lambda>c. \<not> is_quit c) typed) \<and>
    cc_stop (console_lines ls s) = (\<exists>c \<in> set typed. is_quit c) \<and>
    (console_wf s \<longrightarrow> console_wf (console_lines ls s))"
  using assms(1,2) unfolding typed_def
proof (induction ls arbitrary: s)
  case Nil
  then show ?case by simp
next
  case (Cons l ls)
  have e: "console_lines (l # ls) s = (case line_command l of [] \<Rightarrow> console_lines ls s
      | c # _ \<Rightarrow> if is_quit c then s\<lparr>cc_stop := True\<rparr> else console_lines ls (ctl_enqueue c s))"
    using Cons.prems(1) by (auto simp: console_line_def line_command_def is_quit_def split: option.splits)
  show ?case
  proof (cases "line_command l")
    case Nil
    then show ?thesis using Cons.IH [OF Cons.prems] e by simp
  next
    case (Cons c cs)
    then have cs: "cs = []" "parse_line l = Some c" by (auto simp: line_command_def split: if_splits option.splits)
    have st: "cc_stop (ctl_enqueue c s) = cc_stop s" by (simp add: ctl_enqueue_def Let_def)
    show ?thesis
      using Cons.IH [of "ctl_enqueue c s"] Cons.prems e cs \<open>line_command l = c # cs\<close> queued_verb [OF cs(2)]
      by (auto simp: st enqueue_queue enqueue_wf)
  qed
qed

theorem console_lines_queue_witness:
  "cc_queues (console_lines [''cs nominal'', [], ''quit'', ''cs nominal''] console0) ! 1 =
     [command0\<lparr>cm_target := tgt_cs, cm_verb := ''nominal'', cm_raw := ''cs nominal''\<rparr>]"
proof -
  have p: "line_command ''cs nominal'' = [command0\<lparr>cm_target := tgt_cs, cm_verb := ''nominal'', cm_raw := ''cs nominal''\<rparr>]"
    "line_command ''quit'' = [command0\<lparr>cm_target := tgt_cs, cm_verb := ''quit'', cm_raw := ''quit''\<rparr>]"
    "line_command [] = []" by code_simp+
  show ?thesis
    using console_lines_queue [of console0 1 "[''cs nominal'', [], ''quit'', ''cs nominal'']"]
    by (simp add: p is_quit_def console0_def command0_def ctl_target_index_def)
qed

lemma getlines_Nil [simp]: "getlines [] = []"
  by (subst getlines.simps) simp

lemma getlines_line: "newline \<notin> set l \<Longrightarrow> getlines (l @ newline # r) = l # getlines r"
proof -
  assume "newline \<notin> set l"
  then have "takeWhile (\<lambda>c. c \<noteq> newline) (l @ newline # r) = l" "dropWhile (\<lambda>c. c \<noteq> newline) (l @ newline # r) = newline # r"
    by (induction l) auto
  then show ?thesis by (subst getlines.simps) (simp only: list.sel append_is_Nil_conv list.distinct simp_thms if_False)
qed

lemma getlines_chunk:
  assumes "a = [] \<or> last a = newline"
  shows "getlines (a @ b) = getlines a @ getlines b"
  using assms
proof (induction a rule: getlines.induct)
  case (1 s)
  show ?case
  proof (cases "s = []")
    case True
    then show ?thesis by simp
  next
    case False
    let ?n = newline
    have mem: "?n \<in> set s" using False "1.prems" last_in_set by metis
    define r where "r = tl (dropWhile (\<lambda>c. c \<noteq> ?n) s)"
    have t: "takeWhile (\<lambda>c. c \<noteq> ?n) (s @ b) = takeWhile (\<lambda>c. c \<noteq> ?n) s"
      "dropWhile (\<lambda>c. c \<noteq> ?n) (s @ b) = dropWhile (\<lambda>c. c \<noteq> ?n) s @ b"
      by (rule takeWhile_append1 [OF mem], simp) (rule dropWhile_append1 [OF mem], simp)
    have d: "dropWhile (\<lambda>c. c \<noteq> ?n) s \<noteq> []" using mem by (auto simp: dropWhile_eq_Nil_conv)
    have "r = [] \<or> last r = ?n"
    proof -
      have l: "last (dropWhile (\<lambda>c. c \<noteq> ?n) s) = ?n" using d "1.prems" False by (metis last_appendR takeWhile_dropWhile_id)
      obtain y ys where y: "dropWhile (\<lambda>c. c \<noteq> ?n) s = y # ys" using d by (cases "dropWhile (\<lambda>c. c \<noteq> ?n) s") blast+
      then show ?thesis using l by (cases "ys = []") (simp_all add: r_def y)
    qed
    then have ih: "getlines (r @ b) = getlines r @ getlines b" using "1.IH" False by (simp add: r_def)
    have g: "getlines s = takeWhile (\<lambda>c. c \<noteq> ?n) s # getlines r" using False by (subst getlines.simps) (simp only: r_def if_False)
    have "getlines (s @ b) = takeWhile (\<lambda>c. c \<noteq> ?n) s # getlines (r @ b)"
      using False d by (subst getlines.simps) (simp only: t r_def tl_append2 append_is_Nil_conv simp_thms if_False)
    then show ?thesis using ih g by simp
  qed
qed

lemma getlines_chunks: "\<forall>a \<in> set cs. a = [] \<or> last a = newline \<Longrightarrow> getlines (concat cs) = concat (map getlines cs)"
  by (induction cs) (simp_all add: getlines_chunk)

definition prefixes_of :: "string list \<Rightarrow> string list" where
  "prefixes_of cs = map (\<lambda>k. concat (take k cs)) [0..<Suc (length cs)]"

text \<open>
  C39: the control file. However the appends to it fall between the passes of the listener, if each
  append ends a line then every line is handled exactly once, in order, and the listener is at the
  end of the file.
\<close>

theorem file_polls_handle_lines:
  assumes "\<forall>a \<in> set cs. a = [] \<or> last a = newline"
  shows "fold file_poll (prefixes_of cs) (0, s) = (length (concat cs), fold file_line (getlines (concat cs)) s)"
  using assms
proof (induction cs rule: rev_induct)
  case Nil
  show ?case by (simp add: prefixes_of_def file_poll_def)
next
  case (snoc a cs)
  have p: "prefixes_of (cs @ [a]) = prefixes_of cs @ [concat (cs @ [a])]"
  proof -
    have u: "[0..<Suc (length (cs @ [a]))] = [0..<Suc (length cs)] @ [Suc (length cs)]" by simp
    have m: "map (\<lambda>k. concat (take k (cs @ [a]))) [0..<Suc (length cs)] = map (\<lambda>k. concat (take k cs)) [0..<Suc (length cs)]"
      by (rule map_cong) auto
    show ?thesis unfolding prefixes_of_def u map_append m by simp
  qed
  have ih: "fold file_poll (prefixes_of cs) (0, s) = (length (concat cs), fold file_line (getlines (concat cs)) s)"
    using snoc by simp
  have "getlines (concat (cs @ [a])) = getlines (concat cs) @ getlines a"
    using getlines_chunks [of "cs @ [a]"] getlines_chunks [of cs] snoc.prems by simp
  then show ?case unfolding p fold_append o_def ih
    by (cases "a = []") (simp_all add: file_poll_def Let_def)
qed

theorem file_polls_handle_lines_witness:
  "cc_queues (snd (fold file_poll (prefixes_of [''cs nominal'' @ [newline], [newline]]) (0, console0))) ! 1 =
     [command0\<lparr>cm_target := tgt_cs, cm_verb := ''nominal'', cm_raw := ''cs nominal''\<rparr>]"
proof -
  have n: "newline \<notin> set ''cs nominal''" by (simp add: newline_def)
  have p: "parse_line ''cs nominal'' = Some (command0\<lparr>cm_target := tgt_cs, cm_verb := ''nominal'', cm_raw := ''cs nominal''\<rparr>)" by code_simp
  have "getlines (concat [''cs nominal'' @ [newline], [newline]]) = [''cs nominal'', []]"
    using getlines_line [OF n, of "[newline]"] getlines_line [of "[]" "[]"] by simp
  then have g: "cc_queues (fold file_line (getlines (concat [''cs nominal'' @ [newline], [newline]])) console0) ! 1 =
     [command0\<lparr>cm_target := tgt_cs, cm_verb := ''nominal'', cm_raw := ''cs nominal''\<rparr>]"
    by (simp add: file_line_def p ctl_enqueue_def ctl_target_index_def console0_def command0_def)
  show ?thesis
    by (subst file_polls_handle_lines) (use g in simp_all)
qed

end
