(* ===== verification/CsNode.thy ===== *)
theory CsNode
  imports SysTools OperatingMode Console SimTables
begin

text \<open>
  The software of the central system, \<open>cs/src/cs_support.cpp\<close> and \<open>cs/src/cs.cpp\<close>, with the control
  bridge, \<open>cs/src/cs_control_support.cpp\<close> and \<open>cs/src/cs_control_bridge.cpp\<close>: one tick steps the clock,
  carries out the console commands that wait, steps the operating mode and the nodes, lets the
  scheduler finish and start tasks, arms the exchange of the active task, and runs one tick of the
  bus exchange.

  The static variables of these files, of the scheduler and of the operating mode are the record
  \<open>cs_env\<close>; the console, which other threads share, is an argument of its own. The scheduler points to
  MSG_CMD and its frame buffer in the wire storage, as the bus state does: the arrays live in the bus
  state, \<open>load_sched\<close> and \<open>store_sched\<close> move them. A result \<open>None\<close> is a conversion that C++ leaves
  unspecified. Log messages are left out.
\<close>

record cs_env =
  cs_soft :: software_state
  cs_bus :: bus_state
  cs_bus_ready :: bool
  cs_sched :: sched
  cs_om :: om_state
  cs_reg :: "registry_t option"
  cs_last_tick_log :: u64

definition CS_PARAM_BUF_BLOCKS :: nat where "CS_PARAM_BUF_BLOCKS = 15"

definition cs_wire0 :: wire_storage where
  "cs_wire0 = wire_storage0 CS_COMM_BUF_BLOCKS CS_PARAM_BUF_BLOCKS (comm_msg_blocks SYS_CS) (param_msg_blocks SYS_CS)"

definition cs_env0 :: cs_env where
  "cs_env0 = \<lparr>cs_soft = software_state0, cs_bus = bus_state0, cs_bus_ready = False, cs_sched = sched0, cs_om = om_state0,
     cs_reg = None, cs_last_tick_log = 0\<rparr>"

subsection \<open>Shared storage\<close>

text \<open>The context points to the message arrays of the storage, which the bus state holds.\<close>

definition cs_ctx :: "cs_env \<Rightarrow> context_t" where
  "cs_ctx e = make_imsg_context role_cs SYS_CS (bus_wire (cs_bus e))"

definition put_cs_ctx :: "context_t \<Rightarrow> cs_env \<Rightarrow> cs_env" where
  "put_cs_ctx ctx e = e\<lparr>cs_bus := (cs_bus e)\<lparr>b_prm := msg_prm ctx, b_cmd := msg_cmd ctx\<rparr>\<rparr>"

definition cs_imsgset :: "nat \<Rightarrow> fp \<Rightarrow> cs_env \<Rightarrow> (par_status \<times> cs_env) option" where
  "cs_imsgset i v e = map_option (\<lambda>(st, ctx). (st, put_cs_ctx ctx e)) (IMSGSET (cs_ctx e) i v)"

definition load_sched :: "cs_env \<Rightarrow> sched" where
  "load_sched e = (let s = cs_sched e in s\<lparr>
     sc_msg_cmd := (if sc_msg_cmd s = None then None else b_cmd (cs_bus e)),
     sc_msg_cmd_buf := (if sc_msg_cmd_buf s = None then None else b_cmd_buf (cs_bus e))\<rparr>)"

definition store_sched :: "sched \<Rightarrow> cs_env \<Rightarrow> cs_env" where
  "store_sched s e = e\<lparr>cs_sched := s, cs_bus := (cs_bus e)\<lparr>
     b_cmd := (if sc_msg_cmd s = None then b_cmd (cs_bus e) else sc_msg_cmd s),
     b_cmd_buf := (if sc_msg_cmd_buf s = None then b_cmd_buf (cs_bus e) else sc_msg_cmd_buf s)\<rparr>\<rparr>"

definition on_sched :: "(sched \<Rightarrow> sched) \<Rightarrow> cs_env \<Rightarrow> cs_env" where
  "on_sched f e = store_sched (f (load_sched e)) e"

subsection \<open>The control bridge\<close>

definition iequals_ascii :: "string \<Rightarrow> string \<Rightarrow> bool" where
  "iequals_ascii lhs rhs \<longleftrightarrow> length lhs = length rhs \<and> list_all2 (\<lambda>l r. char_lower l = char_lower r) lhs rhs"

definition system_id_for_target :: "target_t \<Rightarrow> u8" where
  "system_id_for_target t = (case t of tgt_pss \<Rightarrow> SYS_PSS | tgt_tcs \<Rightarrow> SYS_TCS | tgt_tms \<Rightarrow> SYS_TMS
     | tgt_mns \<Rightarrow> SYS_MNS | tgt_ls \<Rightarrow> SYS_LS | _ \<Rightarrow> SYS_NONE)"

definition find_command_id :: "target_t \<Rightarrow> string \<Rightarrow> nat" where
  "find_command_id target key =
     (let sys = system_id_for_target target in
      if sys = SYS_NONE then 0
      else (case find_index (\<lambda>e. te_sys_id e = sys \<and> iequals_ascii (te_key e) key) (take Comm_max S_basecommtab) of
              None \<Rightarrow> 0 | Some i \<Rightarrow> Param_max + i))"

definition handle_exchange_command :: "command_t \<Rightarrow> cs_env \<Rightarrow> cs_env" where
  "handle_exchange_command c e =
     (case try_parse_target (cm_arg0 c) of None \<Rightarrow> e
      | Some t \<Rightarrow> on_sched (\<lambda>s. snd (enqueue_exchange t qc_normal False s)) e)"

definition handle_enable_command :: "command_t \<Rightarrow> cs_env \<Rightarrow> cs_env" where
  "handle_enable_command c e =
     (case try_parse_target (cm_arg0 c) of None \<Rightarrow> e
      | Some t \<Rightarrow> e\<lparr>cs_om := snd (set_background_target_enabled t True (cs_om e))\<rparr>)"

definition handle_disable_command :: "command_t \<Rightarrow> cs_env \<Rightarrow> cs_env" where
  "handle_disable_command c e =
     (case try_parse_target (cm_arg0 c) of None \<Rightarrow> e
      | Some t \<Rightarrow> e\<lparr>cs_om := snd (set_background_target_enabled t False (cs_om e))\<rparr>)"

definition handle_cmd_command :: "command_t \<Rightarrow> cs_env \<Rightarrow> cs_env" where
  "handle_cmd_command c e =
     (case try_parse_target (cm_arg0 c) of None \<Rightarrow> e
      | Some t \<Rightarrow>
          if cm_arg1 c = [] then e
          else let cid = find_command_id t (cm_arg1 c) in
            if cid = 0 then e
            else on_sched (\<lambda>s. snd (enqueue_command t cid (cm_value c) (cm_has_value c) qc_normal s)) e)"

definition handle_stagecmd_command :: "command_t \<Rightarrow> cs_env \<Rightarrow> cs_env option" where
  "handle_stagecmd_command c e =
     (case try_parse_target (cm_arg0 c) of None \<Rightarrow> Some e
      | Some t \<Rightarrow>
          if cm_arg1 c = [] then Some e
          else let cid = find_command_id t (cm_arg1 c) in
            if cid = 0 then Some e
            else map_option snd (cs_imsgset cid (if cm_has_value c then cm_value c else Fin 1) e))"

definition handle_sendcmd_command :: "command_t \<Rightarrow> cs_env \<Rightarrow> cs_env" where
  "handle_sendcmd_command c e =
     (case try_parse_target (cm_arg0 c) of None \<Rightarrow> e
      | Some t \<Rightarrow>
          (case find_node_by_target (cs_sched e) t of None \<Rightarrow> e
           | Some n \<Rightarrow> on_sched (\<lambda>s. snd (add_staged_command_task n tq_normal s)) e))"

definition handle_focus_command :: "command_t \<Rightarrow> cs_env \<Rightarrow> cs_env" where
  "handle_focus_command c e =
     (if cm_arg0 c = [] \<or> iequals_ascii (cm_arg0 c) ''clear'' \<or> iequals_ascii (cm_arg0 c) ''none''
      then e\<lparr>cs_om := clear_focus_target (cs_om e)\<rparr>
      else (case try_parse_target (cm_arg0 c) of None \<Rightarrow> e
            | Some t \<Rightarrow> e\<lparr>cs_om := snd (set_focus_target t (cs_om e))\<rparr>))"

definition handle_nominal_command :: "cs_env \<Rightarrow> cs_env" where
  "handle_nominal_command e = e\<lparr>cs_om := clear_focus_target (cs_om e)\<rparr>"

text \<open>The body of the loop of \<open>control_bridge::step\<close>; \<open>status\<close> and \<open>help\<close> only write to the log.\<close>

definition handle_command :: "command_t \<Rightarrow> cs_env \<Rightarrow> cs_env option" where
  "handle_command c e =
     (if cm_verb c = ''exchange'' \<or> cm_verb c = ''ex'' then Some (handle_exchange_command c e)
      else if cm_verb c = ''enable'' then Some (handle_enable_command c e)
      else if cm_verb c = ''disable'' then Some (handle_disable_command c e)
      else if cm_verb c = ''focus'' then Some (handle_focus_command c e)
      else if cm_verb c = ''nominal'' then Some (handle_nominal_command e)
      else if cm_verb c = ''status'' then Some e
      else if cm_verb c = ''cmd'' then Some (handle_cmd_command c e)
      else if cm_verb c = ''stagecmd'' then handle_stagecmd_command c e
      else if cm_verb c = ''sendcmd'' \<or> cm_verb c = ''sendcmdbuf'' then Some (handle_sendcmd_command c e)
      else Some e)"

text \<open>The loop of \<open>control_bridge::step\<close>, over the console and the rest of the state.\<close>

partial_function (option) control_bridge_step :: "console \<Rightarrow> cs_env \<Rightarrow> (console \<times> cs_env) option" where
  "control_bridge_step con e =
     (case pop_command tgt_cs con of None \<Rightarrow> Some (con, e)
      | Some (c, con1) \<Rightarrow> Option.bind (handle_command c e) (\<lambda>e1. control_bridge_step con1 e1))"

declare control_bridge_step.simps [code]

subsection \<open>Arming an exchange\<close>

definition set_frames :: "node_layout_t \<Rightarrow> bus_state \<Rightarrow> bus_state" where
  "set_frames n b = snd (IBUS_SET_PRM_FRAME (snd (IBUS_SET_CMD_FRAME b (nl_com_cs_base_block n) (nl_com_blocks n)))
     (nl_par_cs_base_block n) (nl_par_blocks n))"

definition prepare_command_exchange :: "task_t \<Rightarrow> cs_env \<Rightarrow> cs_env option" where
  "prepare_command_exchange t e =
     (case t_node t of None \<Rightarrow> Some e
      | Some n \<Rightarrow>
          if sc_imsg_ctx (cs_sched e) = None then Some e
          else let node = sc_nodes (cs_sched e) ! n;
                   e1 = on_sched (clear_command_buffer_window node) e;
                   e2 = on_sched (load_pending_command_window n) e1;
                   e3 = e2\<lparr>cs_bus := set_frames node (cs_bus e2)\<rparr>
               in map_option (\<lambda>e4. on_sched (clear_command_msg_window node) (on_sched (merge_command_window_to_buffer node) e4))
                    (if \<not> t_staged t \<and> t_command_id t \<noteq> 0
                     then map_option snd (cs_imsgset (t_command_id t) (if t_has_value t then t_command_value t else Fin 1) e3)
                     else Some e3))"

definition prepare_data_exchange :: "task_t \<Rightarrow> cs_env \<Rightarrow> cs_env" where
  "prepare_data_exchange t e =
     (case t_node t of None \<Rightarrow> e | Some n \<Rightarrow> e\<lparr>cs_bus := set_frames (sc_nodes (cs_sched e) ! n) (cs_bus e)\<rparr>)"

definition start_exchange :: "u8 \<Rightarrow> bus_state \<Rightarrow> bus_state" where
  "start_exchange addr b = IBUS_CLEAR_RESULT (b\<lparr>b_target_addr := addr, b_exchange_flag := ex_tx, b_tx_flag := tx_sof,
     b_rx_flag := rx_sof, b_adr_flag := False, b_n_blocks := 0, b_sub_clock := 0, b_wait_clock := 0, b_busy := True\<rparr>)"

definition arm_active_exchange :: "cs_env \<Rightarrow> cs_env option" where
  "arm_active_exchange e =
     (case sc_active (cs_sched e) of None \<Rightarrow> Some e
      | Some slot \<Rightarrow>
          if slot \<ge> length (sc_tasks (cs_sched e)) then Some e
          else let t = sc_tasks (cs_sched e) ! slot in
            if \<not> t_used t \<or> \<not> t_active t \<or> t_armed t then Some e
            else (case t_node t of None \<Rightarrow> Some e
              | Some n \<Rightarrow>
                  let e1 = e\<lparr>cs_bus := IBUS_RESET_FRAME_LAYOUT (cs_bus e)\<rparr>
                  in map_option (\<lambda>e2. e2\<lparr>cs_bus := start_exchange (nl_bus_addr (sc_nodes (cs_sched e2) ! n)) (cs_bus e2),
                         cs_sched := set_task slot (\<lambda>t. t\<lparr>t_armed := True\<rparr>) (cs_sched e2)\<rparr>)
                       (if t_kind t = tk_command
                        then map_option (\<lambda>e2. e2\<lparr>cs_bus := (cs_bus e2)\<lparr>b_msg_flag := ARP_FLAG_CMD_REQ\<rparr>\<rparr>) (prepare_command_exchange t e1)
                        else Some (let e2 = prepare_data_exchange t e1
                                   in e2\<lparr>cs_bus := (cs_bus e2)\<lparr>b_msg_flag := ARP_FLAG_DATA_REQ\<rparr>\<rparr>))))"

subsection \<open>The tick\<close>

definition cs_init_bus_state :: "cs_env \<Rightarrow> cs_env" where
  "cs_init_bus_state e =
     (if cs_bus_ready e then e
      else e\<lparr>cs_bus := bind_standard_bus bus_master SYS_CS ARP_ADDR_CS ARP_ADDR_PSS cs_wire0, cs_bus_ready := True\<rparr>)"

definition cs_init_isim_registry :: "cs_env \<Rightarrow> cs_env" where
  "cs_init_isim_registry e =
     e\<lparr>cs_reg := build_isim_registry sim_cs_ISIM_PARAMS (length sim_cs_ISIM_PARAMS) sim_cs_k_isim_param_count SYS_CS (cs_reg e)\<rparr>"

definition ICSHIALG :: "cs_env \<Rightarrow> cs_env" where
  "ICSHIALG e = (let (s, om) = om_step (load_sched e) (cs_om e) in (store_sched s e)\<lparr>cs_om := om\<rparr>)"

definition CS_LOCALSYSALG :: "cs_env \<Rightarrow> cs_env" where "CS_LOCALSYSALG e = e"

definition ICSNODES :: "cs_env \<Rightarrow> cs_env" where
  "ICSNODES e = on_sched (run_node_step_order (cs_om e)) e"

definition ICSSCHEDULER :: "cs_env \<Rightarrow> cs_env" where
  "ICSSCHEDULER e =
     (if b_busy (cs_bus e) then e
      else let (bus, s) = exchange_control (cs_bus e) (load_sched e) in store_sched s (e\<lparr>cs_bus := bus\<rparr>))"

definition ICSALG :: "console \<times> cs_env \<Rightarrow> (console \<times> cs_env) option" where
  "ICSALG = (\<lambda>(con, e). map_option (\<lambda>(con1, e1). (con1, ICSSCHEDULER (ICSNODES (CS_LOCALSYSALG (ICSHIALG e1)))))
     (control_bridge_step con e))"

definition CS_IBUSEXCHANGE :: "u8 option \<Rightarrow> cs_env \<Rightarrow> u8 option \<times> cs_env option" where
  "CS_IBUSEXCHANGE rx e =
     (case (if \<not> b_busy (cs_bus e) then arm_active_exchange e else Some e) of None \<Rightarrow> (None, None)
      | Some e1 \<Rightarrow> let (w, b) = IBUS_EXCHANGE no_bus_hooks rx (cs_bus e1) in (w, Some (e1\<lparr>cs_bus := b\<rparr>)))"

definition ICSBASEALG :: "u8 option \<Rightarrow> console \<times> cs_env \<Rightarrow> u8 option \<times> (console \<times> cs_env) option" where
  "ICSBASEALG rx = (\<lambda>(con, e).
     case ICSALG (con, e\<lparr>cs_soft := (cs_soft e)\<lparr>ss_tick := ISYSTEP (ss_tick (cs_soft e))\<rparr>\<rparr>) of None \<Rightarrow> (None, None)
     | Some (con1, e1) \<Rightarrow> (case CS_IBUSEXCHANGE rx e1 of (w, e2) \<Rightarrow> (w, map_option (Pair con1) e2)))"

definition cs_init_msg_buffers :: "cs_env \<Rightarrow> cs_env" where
  "cs_init_msg_buffers e =
     (let e1 = cs_init_bus_state e;
          b = put_bus_wire (clear_wire_storage (bus_wire (cs_bus e1))) (cs_bus e1)
      in e1\<lparr>cs_bus := IBUS_RESET_FRAME_LAYOUT b\<rparr>)"

definition cs_runtime_init :: "cs_env \<Rightarrow> cs_env" where
  "cs_runtime_init e =
     (let e1 = cs_init_isim_registry (cs_init_msg_buffers e);
          w = bus_wire (cs_bus e1);
          s = sched_reset (sched_init (Some (cs_ctx e1)) (Some (w_cmd w)) (length (w_cmd w)) (Some (w_cmd_buf w))
                (length (w_cmd_buf w)) (cs_sched e1));
          (soft, last) = reset_software_state
      in e1\<lparr>cs_sched := s, cs_om := om_reset, cs_soft := soft, cs_last_tick_log := last\<rparr>)"

text \<open>One tick: the byte on the bus, the tick number; the byte written, if any, and the new state.\<close>

definition cs_runtime_step :: "u32 \<Rightarrow> u8 option \<Rightarrow> console \<times> cs_env \<Rightarrow> u8 option \<times> (console \<times> cs_env) option" where
  "cs_runtime_step tick rx = (\<lambda>(con, e).
     let e0 = (if \<not> ss_initialized (cs_soft e) then cs_runtime_init e else e);
         e1 = cs_init_bus_state e0
     in ICSBASEALG rx (con, e1\<lparr>cs_bus := (cs_bus e1)\<lparr>b_writer_tick := tick\<rparr>,
          cs_soft := (cs_soft e1)\<lparr>ss_current_tick := tick\<rparr>\<rparr>))"

end
