(* ===== verification/CsRun.thy ===== *)
theory CsRun
  imports CsNode BusLink
begin

text \<open>
  What the software of the central system does: its tick is defined and keeps the invariant of the
  node, a line typed at the console becomes a task of the scheduler, and an armed exchange is the
  start of a bus exchange with the node of its task.
\<close>

subsection \<open>Storing a command\<close>

lemma imsgset_defined:
  assumes "is_comm_id i" "sendable v" "ctx_role ctx = role_cs" "msg_cmd ctx = Some xs" "msg_cmd_blocks ctx \<le> length xs"
  shows "\<exists>st xs'. IMSGSET ctx i v = Some (st, ctx\<lparr>msg_cmd := Some xs'\<rparr>) \<and> length xs' = length xs"
proof -
  let ?e = "S_basecommtab ! (i - Param_max)"
  have i: "i - Param_max < Comm_max" "\<not> is_param_id i" using assms(1) by (auto simp: is_comm_id_def is_param_id_def)
  have row: "simple_row ?e"
    using command_rows_simple i(1) by (auto simp: list_all_length)
  have same: "ctx\<lparr>msg_cmd := Some xs\<rparr> = ctx" using assms(4) by simp
  show ?thesis
  proof (cases "resolve_for_generate ctx i")
    case (Inl st)
    then show ?thesis using assms(1) i same by (simp add: IMSGSET_def) (metis)
  next
    case (Inr item)
    then have "fill_item_layout None (Some xs) (msg_cmd_blocks ctx) (te_cs_block_n ?e) ?e = Inr item"
      using assms i by (simp add: resolve_for_generate_def Let_def)
    note f = fill_item_Inr [OF this]
    have q: "quant_candidates item (fp_cast f64 v) \<noteq> None"
      using quant_defined [OF assms(2) row, of item] f by auto
    then have "prepare_raw_value item v \<noteq> None"
      by (auto simp: prepare_raw_value_def Let_def split: option.splits sum.splits list.splits)
    then have "IMSGSET ctx i v \<noteq> None"
      using assms(1) Inr by (auto simp: IMSGSET_def split: sum.splits option.splits)
    then obtain st ctx' where c: "IMSGSET ctx i v = Some (st, ctx')" by auto
    have "ctx' = ctx\<lparr>msg_cmd := Some ys\<rparr> \<and> length ys = length xs"
      if "write_value (write_buf item) (block_count item) (ri_block_n item) (ri_block_offset item) (width_bits item) raw = Some ys"
        "ctx' = set_write_buf ctx ys" for raw ys
      using that f assms(3) by (auto simp: set_write_buf_def dest: write_value_length)
    with imsgset_cases [OF c] Inr same show ?thesis
      unfolding c by (metis sum.inject(2))
  qed
qed

subsection \<open>What the operations of the scheduler leave alone\<close>

definition sendable_task :: "task_t \<Rightarrow> bool" where
  "sendable_task t \<longleftrightarrow> t_command_id t = 0 \<or> is_comm_id (t_command_id t) \<and> sendable (t_command_value t)"

definition sched_frame :: "sched \<Rightarrow> sched \<Rightarrow> bool" where
  "sched_frame s s' \<longleftrightarrow> sc_imsg_ctx s' = sc_imsg_ctx s \<and> sc_ready s' = sc_ready s \<and> sc_nodes s' = sc_nodes s \<and>
     sc_msg_cmd_blocks s' = sc_msg_cmd_blocks s \<and> sc_msg_cmd_buf_blocks s' = sc_msg_cmd_buf_blocks s \<and>
     map_option length (sc_msg_cmd s') = map_option length (sc_msg_cmd s) \<and>
     map_option length (sc_msg_cmd_buf s') = map_option length (sc_msg_cmd_buf s) \<and>
     ((\<forall>t \<in> set (sc_tasks s). sendable_task t) \<longrightarrow> (\<forall>t \<in> set (sc_tasks s'). sendable_task t))"

lemma frame_refl [simp]: "sched_frame s s"
  by (simp add: sched_frame_def)

lemma frame_trans: "sched_frame s t \<Longrightarrow> sched_frame t u \<Longrightarrow> sched_frame s u"
  by (simp add: sched_frame_def)

lemma sendable_task_other [simp]:
  "sendable_task (t\<lparr>t_queued := a\<rparr>) = sendable_task t" "sendable_task (t\<lparr>t_active := a\<rparr>) = sendable_task t"
  "sendable_task (t\<lparr>t_armed := a\<rparr>) = sendable_task t" "sendable_task (t\<lparr>t_enabled := a\<rparr>) = sendable_task t"
  "sendable_task (t\<lparr>t_periodic := a\<rparr>) = sendable_task t" "sendable_task (t\<lparr>t_queue := b\<rparr>) = sendable_task t"
  "sendable_task task0"
  by (simp_all add: sendable_task_def task0_def)

lemma frame_set_task: "(\<And>t. sendable_task t \<Longrightarrow> sendable_task (f t)) \<Longrightarrow> sched_frame s (set_task i f s)"
proof (cases "i < length (sc_tasks s)")
  case True
  then show "(\<And>t. sendable_task t \<Longrightarrow> sendable_task (f t)) \<Longrightarrow> ?thesis"
    by (auto simp: sched_frame_def set_task_def dest!: set_update_subset_insert [THEN subsetD])
qed (simp add: set_task_def list_update_beyond)

lemma frame_queues [simp]:
  "sched_frame s (s\<lparr>sc_normal := a\<rparr>)" "sched_frame s (s\<lparr>sc_priority := a\<rparr>)" "sched_frame s (s\<lparr>sc_burst := b\<rparr>)"
  "sched_frame s (s\<lparr>sc_active := c\<rparr>)" "sched_frame s (s\<lparr>sc_completions := d\<rparr>)" "sched_frame s (s\<lparr>sc_next_id := e\<rparr>)"
  "sched_frame s (s\<lparr>sc_pending := p\<rparr>)"
  by (simp_all add: sched_frame_def)

lemma frame_queue_slot: "sched_frame s (queue_task_slot i s)"
  by (auto simp: queue_task_slot_def Let_def intro!: frame_trans [OF _ frame_set_task])

lemma frame_clear_slot: "sched_frame s (clear_task_slot i s)"
  by (auto simp: clear_task_slot_def intro!: frame_set_task)

lemma frame_remove_slot: "sched_frame s (remove_slot_from_queues i s)"
proof -
  have "sched_frame s (s\<lparr>sc_normal := a, sc_priority := b\<rparr>)" for a b by (simp add: sched_frame_def)
  then show ?thesis by (auto simp: remove_slot_from_queues_def Let_def intro!: frame_trans [OF _ frame_set_task])
qed

lemma frame_update_class: "sched_frame s (update_task_queue_class i q s)"
  by (auto simp: update_task_queue_class_def Let_def intro!: frame_trans [OF _ frame_queue_slot] frame_set_task
      frame_trans [OF frame_remove_slot frame_set_task])

lemma frame_add_task:
  assumes "cid = 0 \<or> is_comm_id cid \<and> sendable cv"
  shows "sched_frame s (snd (add_task n k q p cid cv hv st s))"
proof -
  have "sched_frame s (queue_task_slot i (set_task i (\<lambda>t. t\<lparr>t_used := True, t_queued := False, t_active := False, t_armed := False,
      t_periodic := p, t_enabled := True, t_id := sc_next_id s, t_kind := k, t_queue := q, t_node := Some n, t_command_id := cid,
      t_command_value := cv, t_has_value := hv, t_staged := st\<rparr>) (s\<lparr>sc_next_id := sc_next_id s + 1\<rparr>)))" for i
    using assms by (intro frame_trans [OF _ frame_queue_slot] frame_trans [OF _ frame_set_task]) (simp_all add: sendable_task_def)
  then show ?thesis by (simp add: add_task_def Let_def split: option.split)
qed

lemma frame_cancel_slot: "sched_frame s (cancel_slot i s)"
  by (auto simp: cancel_slot_def intro: frame_set_task frame_trans [OF frame_remove_slot frame_clear_slot])

lemma frame_interface:
  "sched_frame s (snd (enqueue_exchange t q p s))" "sched_frame s (snd (ensure_periodic_exchange t q s))"
  "sched_frame s (snd (cancel_periodic_exchange t s))" "sched_frame s (snd (add_staged_command_task n tq s))"
  "sched_frame s (snd (try_pop_completion s))"
  by (auto simp: enqueue_exchange_def ensure_periodic_exchange_def cancel_periodic_exchange_def add_staged_command_task_def
      try_pop_completion_def intro!: frame_add_task frame_cancel_slot frame_trans [OF frame_set_task frame_update_class]
      split: option.split list.split)

lemma frame_enqueue_command: "sendable v \<Longrightarrow> sched_frame s (snd (enqueue_command t cid v hv q s))"
  by (auto simp: enqueue_command_def command_matches_node_def is_comm_id_def intro!: frame_add_task split: option.split)

text \<open>The windows, where the arrays are as long as the scheduler was told.\<close>

definition sched_spans :: "sched \<Rightarrow> bool" where
  "sched_spans s \<longleftrightarrow> span_ok (sc_msg_cmd s) (sc_msg_cmd_blocks s) \<and> span_ok (sc_msg_cmd_buf s) (sc_msg_cmd_buf_blocks s)"

lemma spans_frame: "sched_frame s s' \<Longrightarrow> sched_spans s \<Longrightarrow> sched_spans s'"
  by (simp add: sched_frame_def sched_spans_def span_ok_length)

lemma length_clear_window: "off + n \<le> length xs \<Longrightarrow> length (clear_window off n xs) = length xs"
  by (simp add: clear_window_def)

lemma window_span: "window_fits off n cap \<Longrightarrow> span_ok (Some xs) cap \<Longrightarrow> off + n \<le> length xs"
  by (auto simp: window_fits_def span_ok_def)

lemma map_clear_window:
  "window_fits off n cap \<Longrightarrow> span_ok bs cap \<Longrightarrow> map_option length (map_option (clear_window off n) bs) = map_option length bs"
  by (cases bs) (simp_all add: length_clear_window window_span)

lemma frame_windows:
  assumes "sched_spans s"
  shows "sched_frame s (clear_command_msg_window n s)" "sched_frame s (clear_command_buffer_window n s)"
    "sched_frame s (clear_pending_command_window i s)" "sched_frame s (load_pending_command_window i s)"
    "sched_frame s (save_pending_command_window i s)" "sched_frame s (merge_command_window_to_buffer n s)"
proof -
  have sp: "span_ok (sc_msg_cmd s) (sc_msg_cmd_blocks s)" "span_ok (sc_msg_cmd_buf s) (sc_msg_cmd_buf_blocks s)"
    using assms by (simp_all add: sched_spans_def)
  show "sched_frame s (clear_command_msg_window n s)"
    using map_clear_window [OF _ sp(1)] by (simp add: clear_command_msg_window_def sched_frame_def)
  show "sched_frame s (clear_command_buffer_window n s)"
    using map_clear_window [OF _ sp(2)] by (simp add: clear_command_buffer_window_def sched_frame_def)
  show "sched_frame s (load_pending_command_window i s)"
    using copy_blocks_length by (simp add: load_pending_command_window_def sched_frame_def Let_def)
  show "sched_frame s (merge_command_window_to_buffer n s)"
    using merge_slots_length [of "(sc_msg_cmd s, sc_msg_cmd_blocks s)" cs_item_slot item_slot _ "(sc_msg_cmd_buf s, sc_msg_cmd_buf_blocks s)"]
    by (simp add: merge_command_window_to_buffer_def sched_frame_def)
  show "sched_frame s (clear_pending_command_window i s)" "sched_frame s (save_pending_command_window i s)"
    by (simp_all add: clear_pending_command_window_def save_pending_command_window_def Let_def)
qed

lemma frame_settle:
  assumes "sched_spans s"
  shows "sched_frame s (settle_command t r s)"
proof -
  { fix n assume n: "t_node t = Some n"
    note a = frame_windows(1) [OF assms, of "sc_nodes s ! n"]
    note b = frame_windows(2) [OF spans_frame [OF a assms], of "sc_nodes s ! n"]
    note b' = frame_windows(5) [OF spans_frame [OF a assms], of n]
    note c = frame_windows(3) [OF spans_frame [OF b spans_frame [OF a assms]], of n]
    have "sched_frame s (settle_command t r s)"
      using frame_trans [OF a b'] frame_trans [OF a frame_trans [OF b c]] by (simp add: settle_command_def n Let_def) }
  then show ?thesis by (cases "t_node t") (simp_all add: settle_command_def)
qed

lemma pop_valid_all:
  assumes "\<And>t a. P (t\<lparr>t_queued := a\<rparr>) = P t"
  shows "\<forall>t \<in> set ts. P t \<Longrightarrow> \<forall>t \<in> set (snd (snd (pop_valid q ts))). P t"
proof (induction q ts rule: pop_valid.induct)
  case (2 i q ts)
  show ?case
  proof (cases "i \<ge> length ts")
    case False
    then have "\<forall>t \<in> set (ts[i := (ts ! i)\<lparr>t_queued := False\<rparr>]). P t"
      using "2.prems" assms by (auto dest!: set_update_subset_insert [THEN subsetD])
    then show ?thesis using "2.IH"(2) [OF False refl] False by (auto simp: Let_def)
  qed (use "2" in simp)
qed simp

lemma frame_pop: "sched_frame s (snd (pop_priority s))" "sched_frame s (snd (pop_normal s))"
proof -
  have f: "sched_frame s (s\<lparr>sc_priority := a, sc_tasks := snd (snd (pop_valid q (sc_tasks s)))\<rparr>)"
    "sched_frame s (s\<lparr>sc_normal := a, sc_tasks := snd (snd (pop_valid q (sc_tasks s)))\<rparr>)" for a q
    using pop_valid_all [of sendable_task "sc_tasks s" q] by (simp_all add: sched_frame_def)
  show "sched_frame s (snd (pop_priority s))"
    unfolding pop_priority_def case_prod_unfold Let_def snd_conv by (rule f(1))
  show "sched_frame s (snd (pop_normal s))"
    unfolding pop_normal_def case_prod_unfold Let_def snd_conv by (rule f(2))
qed

lemma frame_pop_next: "sched_frame s (snd (pop_next_task_slot s))"
proof -
  have b: "sched_frame s (t\<lparr>sc_burst := b\<rparr>)" if "sched_frame s t" for t b by (rule frame_trans [OF that]) simp
  have p: "sched_frame s (snd (pop_priority s))" "sched_frame s (snd (pop_normal s))"
    "sched_frame s (snd (pop_normal (snd (pop_priority s))))" "sched_frame s (snd (pop_priority (snd (pop_normal s))))"
    "sched_frame s (snd (pop_priority (snd (pop_normal (snd (pop_priority s))))))"
    by (meson frame_pop frame_trans)+
  show ?thesis
    unfolding pop_next_task_slot_def Let_def
    using p by (auto intro!: b split: prod.splits option.splits if_splits)
qed

lemma frame_activate: "sched_frame s (activate_task i s)"
  by (auto simp: activate_task_def Let_def intro!: frame_trans [OF frame_set_task frame_queues(4)])

lemma frame_activate_next: "sched_frame s (activate_next_task s)"
  using frame_pop_next [of s] by (auto simp: activate_next_task_def intro: frame_trans [OF _ frame_activate] split: prod.splits option.splits)

lemma frame_exchange_control:
  assumes "sched_spans s"
  shows "sched_frame s (snd (exchange_control bus s))"
proof -
  have f: "sched_frame s (snd (snd (finalize_active_task bus s)))"
  proof (cases "\<exists>i r bus1. sc_active s = Some i \<and> t_armed (sc_tasks s ! i) \<and> IBUS_TAKE_RESULT bus = (Some r, bus1)")
    case False
    then show ?thesis using finalize_none [OF False] by simp
  next
    case True
    then obtain i r bus1 where c: "sc_active s = Some i" "t_armed (sc_tasks s ! i)" "IBUS_TAKE_RESULT bus = (Some r, bus1)"
      by blast
    have s: "sched_frame s (set_task i (\<lambda>t. t\<lparr>t_active := False, t_armed := False\<rparr>) s)" by (rule frame_set_task) simp
    have "sched_frame s (released i r s)"
      unfolding released_def by (rule frame_trans [OF frame_trans [OF s frame_settle [OF spans_frame [OF s assms]]] frame_queues(4)])
    then show ?thesis
      unfolding finalize_cases [OF c] by (auto intro: frame_trans [OF _ frame_queue_slot] frame_trans [OF _ frame_clear_slot])
  qed
  obtain c bus1 s1 where e: "finalize_active_task bus s = (c, bus1, s1)" by (cases "finalize_active_task bus s") auto
  show ?thesis
    using f by (auto simp: exchange_control_def e Let_def intro: frame_trans [OF _ frame_queues(5)] frame_trans [OF _ frame_activate_next])
qed

lemma frame_apply_policy: "sched_frame s (apply_periodic_policy om t s)"
  by (simp add: apply_periodic_policy_def frame_interface Let_def)

lemma frame_node_steps: "sched_frame s (run_node_step_order om s)"
  unfolding run_node_step_order_def G_NODE_STEP_ORDER_def tcs_step_def pss_step_def tms_step_def mns_step_def ls_step_def
  by (simp, intro frame_trans [OF frame_apply_policy frame_trans [OF frame_apply_policy frame_trans [OF frame_apply_policy
      frame_trans [OF frame_apply_policy frame_apply_policy]]]])

lemma inv_node_steps: "sched_inv s \<Longrightarrow> sched_inv (run_node_step_order om s)"
proof -
  have p: "sched_inv u \<Longrightarrow> sched_inv (apply_periodic_policy om t u)" for t u
    by (auto simp: apply_periodic_policy_def Let_def cancel_periodic_exchange_def inv_ensure dest: periodic_slot intro!: inv_cancel_slot
        split: option.split)
  show "sched_inv s \<Longrightarrow> sched_inv (run_node_step_order om s)"
    unfolding run_node_step_order_def G_NODE_STEP_ORDER_def tcs_step_def pss_step_def tms_step_def mns_step_def ls_step_def
    by (simp add: p)
qed

lemma drain_om: "om_inv om \<Longrightarrow> sched_frame s (fst (drain_completions s om)) \<and> (sched_inv s \<longrightarrow> sched_inv (fst (drain_completions s om)))"
proof (induction s om rule: drain_completions.induct)
  case (1 s om)
  show ?case
  proof (cases "sc_completions s")
    case Nil
    then show ?thesis by (subst (1 2) drain_completions.simps) (simp add: try_pop_completion_def)
  next
    case (Cons c cs)
    then have p: "try_pop_completion s = (Some c, s\<lparr>sc_completions := cs\<rparr>)" by (simp add: try_pop_completion_def)
    have i: "sched_inv s \<Longrightarrow> sched_inv (s\<lparr>sc_completions := cs\<rparr>)" by (erule sched_inv_cong) simp_all
    show ?thesis
      using "1.IH" [OF p [symmetric] refl om_inv_completion [OF "1.prems"]] i frame_trans [OF frame_queues(5)] p
      by (subst (1 2) drain_completions.simps) auto
  qed
qed

subsection \<open>The invariant of the node\<close>

definition cs_nodes :: "node_layout_t list" where "cs_nodes = sc_nodes (init_node_layouts sched0)"

definition cs_bus_ok :: "bus_state \<Rightarrow> bool" where
  "cs_bus_ok b \<longleftrightarrow> bus_wf b \<and> b_role b = bus_master \<and> b_self_addr b = ARP_ADDR_CS \<and>
     b_cmd_blocks b = 16 \<and> b_prm_blocks b = 26 \<and> b_cmd_buf_blocks b = 8 \<and> b_prm_buf_blocks b = 15 \<and>
     map_option length (b_cmd b) = Some 16 \<and> map_option length (b_prm b) = Some 26 \<and>
     map_option length (b_cmd_buf b) = Some 8 \<and> map_option length (b_prm_buf b) = Some 15 \<and> snd (b_header b) \<noteq> None"

definition cs_sched_ok :: "sched \<Rightarrow> bool" where
  "cs_sched_ok s \<longleftrightarrow> sched_inv s \<and> sc_ready s \<and> sc_imsg_ctx s \<noteq> None \<and> sc_nodes s = cs_nodes \<and>
     sc_msg_cmd_blocks s = 16 \<and> sc_msg_cmd_buf_blocks s = 8 \<and>
     map_option length (sc_msg_cmd s) = Some 16 \<and> map_option length (sc_msg_cmd_buf s) = Some 8 \<and>
     (\<forall>t \<in> set (sc_tasks s). sendable_task t)"

definition cs_inv :: "cs_env \<Rightarrow> bool" where
  "cs_inv e \<longleftrightarrow> ss_initialized (cs_soft e) \<and> cs_bus_ready e \<and> cs_bus_ok (cs_bus e) \<and> cs_sched_ok (cs_sched e) \<and> om_inv (cs_om e)"

lemma sched_ok_frame: "cs_sched_ok s \<Longrightarrow> sched_frame s s' \<Longrightarrow> sched_inv s' \<Longrightarrow> cs_sched_ok s'"
  by (simp add: cs_sched_ok_def sched_frame_def)

lemma sched_ok_spans: "cs_sched_ok s \<Longrightarrow> sched_spans s"
  by (auto simp: cs_sched_ok_def sched_spans_def span_ok_def)

lemma sched_ok_arrays:
  assumes "cs_sched_ok s" "map_option length a = Some 16" "map_option length b = Some 8"
  shows "cs_sched_ok (s\<lparr>sc_msg_cmd := a, sc_msg_cmd_buf := b\<rparr>)"
proof -
  have "sched_inv (s\<lparr>sc_msg_cmd := a, sc_msg_cmd_buf := b\<rparr>)"
    by (rule sched_inv_cong [of s]) (use assms(1) in \<open>simp_all add: cs_sched_ok_def\<close>)
  then show ?thesis using assms by (simp add: cs_sched_ok_def)
qed

lemma load_ok: "cs_inv e \<Longrightarrow> cs_sched_ok (load_sched e)"
  unfolding load_sched_def Let_def by (rule sched_ok_arrays) (auto simp: cs_inv_def cs_sched_ok_def cs_bus_ok_def)

lemma bus_ok_arrays:
  assumes "cs_bus_ok b" "map_option length x = Some 16" "map_option length y = Some 8"
  shows "cs_bus_ok (b\<lparr>b_cmd := x, b_cmd_buf := y\<rparr>)"
  using assms by (auto simp: cs_bus_ok_def bus_wf_def span_ok_def)

lemma store_ok:
  assumes "cs_inv e" "cs_sched_ok s"
  shows "cs_inv (store_sched s e)"
proof -
  obtain x y where x: "sc_msg_cmd s = Some x" "length x = 16" "sc_msg_cmd_buf s = Some y" "length y = 8"
    using assms(2) by (auto simp: cs_sched_ok_def)
  then show ?thesis
    using assms bus_ok_arrays [of "cs_bus e" "Some x" "Some y"] by (simp add: store_sched_def cs_inv_def)
qed

lemma on_sched_ok:
  assumes "cs_inv e" "sched_frame (load_sched e) (f (load_sched e))" "sched_inv (load_sched e) \<Longrightarrow> sched_inv (f (load_sched e))"
  shows "cs_inv (on_sched f e)"
proof -
  note l = load_ok [OF assms(1)]
  have "sched_inv (load_sched e)" using l by (simp add: cs_sched_ok_def)
  from sched_ok_frame [OF l assms(2) assms(3) [OF this]] show ?thesis unfolding on_sched_def by (rule store_ok [OF assms(1)])
qed

lemma cs_inv_bus: "cs_inv e \<Longrightarrow> cs_bus_ok b \<Longrightarrow> cs_inv (e\<lparr>cs_bus := b\<rparr>)"
  by (simp add: cs_inv_def)

lemma cs_inv_om: "cs_inv e \<Longrightarrow> om_inv om \<Longrightarrow> cs_inv (e\<lparr>cs_om := om\<rparr>)"
  by (simp add: cs_inv_def)

lemma cs_imsgset_ok:
  assumes "cs_inv e" "is_comm_id i" "sendable v"
  obtains st e' where "cs_imsgset i v e = Some (st, e')" "cs_inv e'" "cs_sched e' = cs_sched e"
    "\<exists>x. length x = 16 \<and> cs_bus e' = (cs_bus e)\<lparr>b_cmd := Some x\<rparr>"
proof -
  obtain c p where b: "b_cmd (cs_bus e) = Some c" "length c = 16" "b_prm (cs_bus e) = Some p"
    using assms(1) by (auto simp: cs_inv_def cs_bus_ok_def)
  have ctx: "ctx_role (cs_ctx e) = role_cs" "msg_cmd (cs_ctx e) = Some c" "msg_cmd_blocks (cs_ctx e) = 16" "msg_prm (cs_ctx e) = Some p"
    by (simp_all add: cs_ctx_def make_imsg_context_def ISYSCTX_def bus_wire_def b)
  obtain st c' where s: "IMSGSET (cs_ctx e) i v = Some (st, (cs_ctx e)\<lparr>msg_cmd := Some c'\<rparr>)" "length c' = 16"
    using imsgset_defined [OF assms(2,3) ctx(1,2)] ctx(3) b(2) by auto
  have same: "(cs_bus e)\<lparr>b_prm := Some p, b_cmd := Some c'\<rparr> = (cs_bus e)\<lparr>b_cmd := Some c'\<rparr>" using b(3) by simp
  have "cs_bus_ok ((cs_bus e)\<lparr>b_cmd := Some c'\<rparr>)"
    using assms(1) bus_ok_arrays [of "cs_bus e" "Some c'" "b_cmd_buf (cs_bus e)"] s(2) by (simp add: cs_inv_def cs_bus_ok_def)
  then have "cs_inv (e\<lparr>cs_bus := (cs_bus e)\<lparr>b_cmd := Some c'\<rparr>\<rparr>)" by (rule cs_inv_bus [OF assms(1)])
  moreover have "cs_imsgset i v e = Some (st, e\<lparr>cs_bus := (cs_bus e)\<lparr>b_cmd := Some c'\<rparr>\<rparr>)"
    by (simp add: cs_imsgset_def s put_cs_ctx_def ctx same)
  ultimately show thesis using s(2) by (intro that [of st "e\<lparr>cs_bus := (cs_bus e)\<lparr>b_cmd := Some c'\<rparr>\<rparr>"]) auto
qed

subsection \<open>Commands of the console\<close>

lemma find_command_id_range: "find_command_id t k = 0 \<or> is_comm_id (find_command_id t k)"
  using find_index_Some [of _ "take Comm_max S_basecommtab"]
  by (auto simp: find_command_id_def Let_def is_comm_id_def split: option.split)

lemma scheduler_keeps_inv:
  assumes "sched_inv s"
  shows "sched_inv (snd (enqueue_exchange t q p s))" "sched_inv (snd (enqueue_command t cid v hv q s))"
  by (auto simp: enqueue_exchange_def enqueue_command_def assms find_node_bound intro!: inv_add_task split: option.split)

lemma om_ops_inv:
  assumes "om_inv s"
  shows "om_inv (snd (set_background_target_enabled t on s))" "om_inv (clear_focus_target s)" "om_inv (snd (set_focus_target t s))"
proof -
  have bg: "om_inv (s\<lparr>om_background := (om_background s)[i := b]\<rparr>)" for i b using assms by (simp add: om_inv_def)
  have fc: "om_inv (s\<lparr>om_focus := u\<rparr>)" for u using assms by (simp add: om_inv_def)
  show "om_inv (snd (set_background_target_enabled t on s))" "om_inv (clear_focus_target s)" "om_inv (snd (set_focus_target t s))"
    by (simp_all add: set_background_target_enabled_def clear_focus_target_def set_focus_target_def assms bg fc om_inv_clear Let_def)
qed

lemma handle_command_ok:
  assumes "cs_inv e" "sendable (cm_value c)"
  shows "\<exists>e'. handle_command c e = Some e' \<and> cs_inv e'"
proof -
  note s = scheduler_keeps_inv
  have om: "om_inv (cs_om e)" using assms(1) by (simp add: cs_inv_def)
  have oms: "om_inv (snd (set_background_target_enabled t on (cs_om e)))" "om_inv (clear_focus_target (cs_om e))"
    "om_inv (snd (set_focus_target t (cs_om e)))" for t on
    using om_ops_inv [OF om] by simp_all
  have n: "n < 5" if "find_node_by_target (cs_sched e) t = Some n" for t n
  proof -
    have "sched_inv (cs_sched e)" using assms(1) by (simp add: cs_inv_def cs_sched_ok_def)
    then have "length (sc_nodes (cs_sched e)) = 5" by (simp add: sched_inv_def sched_shape_def)
    then show ?thesis using find_node_bound [OF that] by simp
  qed
  have l5: "length (sc_nodes (load_sched e)) = 5"
  proof -
    have "sched_inv (load_sched e)" using load_ok [OF assms(1)] by (simp add: cs_sched_ok_def)
    then show ?thesis by (simp add: sched_inv_def sched_shape_def)
  qed
  have ex: "cs_inv (handle_exchange_command c e)"
    using assms(1) by (auto simp: handle_exchange_command_def frame_interface s intro!: on_sched_ok split: option.split)
  have cmd: "cs_inv (handle_cmd_command c e)"
    using assms by (auto simp: handle_cmd_command_def frame_enqueue_command s Let_def intro!: on_sched_ok split: option.split)
  have snd: "cs_inv (handle_sendcmd_command c e)"
    using assms(1) by (auto simp: handle_sendcmd_command_def frame_interface add_staged_command_task_def l5 n
        intro!: on_sched_ok inv_add_task frame_add_task split: option.split)
  have stage: "\<exists>e'. handle_stagecmd_command c e = Some e' \<and> cs_inv e'"
  proof -
    { fix t v assume nz: "find_command_id t (cm_arg1 c) \<noteq> 0" and v: "sendable v"
      from find_command_id_range [of t "cm_arg1 c"] nz have i: "is_comm_id (find_command_id t (cm_arg1 c))" by simp
      obtain st e' where "cs_imsgset (find_command_id t (cm_arg1 c)) v e = Some (st, e')" "cs_inv e'"
        using cs_imsgset_ok [OF assms(1) i v] by metis
      then have "\<exists>e'. map_option snd (cs_imsgset (find_command_id t (cm_arg1 c)) v e) = Some e' \<and> cs_inv e'" by simp }
    moreover have "sendable (if cm_has_value c then cm_value c else Fin 1)" using assms(2) by (simp add: sendable_def)
    ultimately show ?thesis using assms(1) unfolding handle_stagecmd_command_def Let_def
      by (cases "try_parse_target (cm_arg0 c)") (simp_all del: map_option_eq_Some)
  qed
  have rest: "cs_inv (handle_enable_command c e)" "cs_inv (handle_disable_command c e)" "cs_inv (handle_focus_command c e)"
    "cs_inv (handle_nominal_command e)"
    using assms(1) oms by (auto simp: handle_enable_command_def handle_disable_command_def handle_focus_command_def
        handle_nominal_command_def intro!: cs_inv_om split: option.split)
  show ?thesis unfolding handle_command_def using ex cmd snd stage rest assms(1) by simp
qed


text \<open>The loop of the bridge, as the console's contract gives it.\<close>

definition console_ok :: "console \<Rightarrow> bool" where
  "console_ok con \<longleftrightarrow> console_wf con \<and> (\<forall>i < 7. \<forall>c \<in> set (cc_queues con ! i). sendable (cm_value c))"

lemma console_okD: "console_ok con \<Longrightarrow> i < 7 \<Longrightarrow> c \<in> set (cc_queues con ! i) \<Longrightarrow> sendable (cm_value c)"
  unfolding console_ok_def by blast

lemma bridge_equation:
  "control_bridge_step con e = (case pop_command tgt_cs con of None \<Rightarrow> Some (con, e)
     | Some (c, con1) \<Rightarrow> (case handle_command c e of None \<Rightarrow> None | Some e1 \<Rightarrow> control_bridge_step con1 e1))"
  by (subst control_bridge_step.simps) (auto simp: Option.bind_eq_Some_conv split: option.split Option.bind_split)

lemma handle_all_ok:
  "cs_inv e \<Longrightarrow> \<forall>c \<in> set cs. sendable (cm_value c) \<Longrightarrow>
   \<exists>e'. fold (\<lambda>c r. Option.bind r (handle_command c)) cs (Some e) = Some e' \<and> cs_inv e'"
proof (induction cs arbitrary: e)
  case (Cons c cs)
  then obtain e' where "handle_command c e = Some e'" "cs_inv e'" using handle_command_ok [of e c] by auto
  with Cons show ?case by simp
qed simp

lemma pop_ok: "console_ok con \<Longrightarrow> pop_command tgt_cs con = Some (c, con') \<Longrightarrow> console_ok con'"
proof -
  assume a: "console_ok con" "pop_command tgt_cs con = Some (c, con')"
  then have wf: "console_wf con'" using pop_wf [of con tgt_cs c con'] by (simp add: console_ok_def)
  have "set (cc_queues con' ! i) \<subseteq> set (cc_queues con ! i)" if "i < 7" for i
    using a that by (auto simp: pop_command_def console_ok_def console_wf_def nth_list_update Let_def ctl_target_index_def
        split: list.splits if_splits)
  then show ?thesis using a(1) wf by (auto simp: console_ok_def)
qed

interpretation cs_console: command_source "pop_command tgt_cs" "waiting_for tgt_cs" console_ok
proof unfold_locales
  fix con con' c
  assume ok: "console_ok con"
  then have l: "length (cc_queues con) = 7" by (simp add: console_ok_def console_wf_def)
  show "pop_command tgt_cs con = Some (c, con') \<Longrightarrow> console_ok con' \<and> waiting_for tgt_cs con = c # waiting_for tgt_cs con'"
    using pop_waiting(1) [OF l, of tgt_cs] pop_ok [OF ok] by blast
  show "pop_command tgt_cs con = None \<Longrightarrow> waiting_for tgt_cs con = []" using pop_waiting(2) [OF l, of tgt_cs] by simp
qed

lemma bridge_ok:
  assumes "console_ok con" "cs_inv e"
  obtains con' e' where "control_bridge_step con e = Some (con', e')" "cs_inv e'" "waiting_for tgt_cs con' = []"
    "fold (\<lambda>c r. Option.bind r (handle_command c)) (waiting_for tgt_cs con) (Some e) = Some e'" "console_ok con'"
proof -
  have q: "i < 7 \<Longrightarrow> c \<in> set (cc_queues con ! i) \<Longrightarrow> sendable (cm_value c)" for i c
    by (rule console_okD [OF assms(1)])
  have w: "\<forall>c \<in> set (waiting_for tgt_cs con). sendable (cm_value c)"
    using q [of 0] q [of 1] by (auto simp: waiting_for_def ctl_target_index_def)
  from handle_all_ok [OF assms(2) w] obtain e' where f: "fold (\<lambda>c r. Option.bind r (handle_command c)) (waiting_for tgt_cs con) (Some e) = Some e'"
    "cs_inv e'" by blast
  show thesis
    using cs_console.loop_handles_waiting [of control_bridge_step handle_command con e, OF bridge_equation assms(1)] f
      that by (cases "control_bridge_step con e") (auto split: prod.splits)
qed

subsection \<open>The tick\<close>

lemma write_byte_header: "snd (b_header (write_header_byte s i v)) = None \<longleftrightarrow> snd (b_header s) = None"
  by (auto simp: write_header_byte_def hdr_write_byte_def write_raw_def split: option.splits prod.splits)

lemma header_kept: "snd (b_header s) \<noteq> None \<Longrightarrow> snd (b_header (snd (IBUS_EXCHANGE no_bus_hooks rx s))) \<noteq> None"
proof (cases "b_exchange_flag s")
  case ex_tx
  assume "snd (b_header s) \<noteq> None"
  with ex_tx show ?thesis
    by (cases "b_tx_flag s")
      (auto simp: IBUS_EXCHANGE_def IBUS_TX_EXCHANGE_def ITX_SOF_def ITX_HEADER_def ITX_DATA_def ITX_EOF_def
        Let_def IBUS_GEN_STD_HEADER_def write_storage_def write_raw_def split: if_splits option.splits prod.splits)
next
  case ex_bypass
  assume "snd (b_header s) \<noteq> None"
  with ex_bypass show ?thesis by (simp add: IBUS_EXCHANGE_def IBUS_BYPASS_def)
next
  case ex_rx
  assume h: "snd (b_header s) \<noteq> None"
  let ?w = "b_role s = bus_master \<and> b_busy s"
  define s1 where "s1 = (if ?w then s\<lparr>b_wait_clock := b_wait_clock s + 1\<rparr> else s)"
  have f: "b_header s1 = b_header s" "b_rx_flag s1 = b_rx_flag s" by (simp_all add: s1_def)
  have r: "b_header (reset_to_idle t) = b_header t" for t
    by (simp add: reset_to_idle_def IBUS_RESET_FRAME_LAYOUT_def)
  have step: "IBUS_RX_EXCHANGE no_bus_hooks rx s =
      (if ?w \<and> b_wait_clock s1 > 10 then reset_to_idle (mark_result s1 res_timeout)
       else (case b_rx_flag s1 of rx_sof \<Rightarrow> IRX_SOF rx s1 | rx_header \<Rightarrow> IRX_HEADER no_bus_hooks rx s1
             | rx_data \<Rightarrow> IRX_DATA rx s1 | rx_eof \<Rightarrow> IRX_EOF no_bus_hooks rx s1))"
    unfolding IBUS_RX_EXCHANGE_def Let_def s1_def [symmetric] no_hooks call_hook_None ..
  show ?thesis
    using ex_rx f h
    by (cases "b_rx_flag s")
      (auto simp: IBUS_EXCHANGE_def step r mark_result_def IRX_SOF_def Let_def
        IRX_HEADER_def IBUS_PARSE_STD_HEADER_def write_byte_header merge_nonzero_cmd_fields_def
        IRX_DATA_def store_rx_byte_def IRX_EOF_def to_response_def
        simp del: not_None_eq split: if_splits option.splits prod.splits)
qed

lemma exchange_bus_ok: "cs_bus_ok b \<Longrightarrow> cs_bus_ok (snd (IBUS_EXCHANGE no_bus_hooks rx b))"
  using good_EXCHANGE [of b rx] header_kept [of b rx] by (simp add: cs_bus_ok_def good_step_def same_wiring_def)

lemma hialg_ok: "cs_inv e \<Longrightarrow> cs_inv (ICSHIALG e)"
proof -
  assume e: "cs_inv e"
  note l = load_ok [OF e]
  have om: "om_inv (cs_om e)" using e by (simp add: cs_inv_def)
  define s where "s = fst (om_step (load_sched e) (cs_om e))"
  have s': "s = fst (drain_completions (load_sched e) (cs_om e))"
    by (simp add: s_def om_step_def update_completion_feedback_def case_prod_unfold Let_def)
  have "sched_inv (load_sched e)" using l by (simp add: cs_sched_ok_def)
  then have "cs_sched_ok s" using drain_om [OF om, of "load_sched e"] l unfolding s' by (blast intro: sched_ok_frame)
  then have i: "cs_inv (store_sched s e)" by (rule store_ok [OF e])
  have "om_inv (snd (om_step (load_sched e) (cs_om e)))"
    by (simp add: om_step_def update_completion_feedback_def case_prod_unfold Let_def om_inv_tick om_inv_drain om)
  with cs_inv_om [OF i this] show "cs_inv (ICSHIALG e)" by (simp add: ICSHIALG_def s_def case_prod_unfold Let_def)
qed

lemma nodes_ok: "cs_inv e \<Longrightarrow> cs_inv (ICSNODES e)"
  unfolding ICSNODES_def by (rule on_sched_ok) (simp_all add: frame_node_steps inv_node_steps)

lemma bus_ok_layout:
  assumes "cs_bus_ok b"
  shows "cs_bus_ok (IBUS_RESET_FRAME_LAYOUT b)" "cs_bus_ok (IBUS_CLEAR_RESULT b)" "cs_bus_ok (set_frames n b)"
    "cs_bus_ok (start_exchange a b)" "cs_bus_ok (b\<lparr>b_msg_flag := f\<rparr>)" "cs_bus_ok (b\<lparr>b_writer_tick := w\<rparr>)"
  using assms by (auto simp: cs_bus_ok_def bus_wf_def IBUS_RESET_FRAME_LAYOUT_def clamp_frame_blocks_def IBUS_CLEAR_RESULT_def
      set_frames_def IBUS_SET_CMD_FRAME_def IBUS_SET_PRM_FRAME_def start_exchange_def)

lemma finalize_bus: "fst (snd (finalize_active_task bus s)) \<in> {bus, IBUS_RESET_FRAME_LAYOUT (IBUS_CLEAR_RESULT bus)}"
proof (cases "\<exists>i r bus1. sc_active s = Some i \<and> t_armed (sc_tasks s ! i) \<and> IBUS_TAKE_RESULT bus = (Some r, bus1)")
  case False
  then show ?thesis using finalize_none [OF False] by simp
next
  case True
  then obtain i r bus1 where c: "sc_active s = Some i" "t_armed (sc_tasks s ! i)" "IBUS_TAKE_RESULT bus = (Some r, bus1)" by blast
  then have "bus1 = IBUS_CLEAR_RESULT bus" by (simp add: IBUS_TAKE_RESULT_def split: if_splits)
  then show ?thesis by (simp add: finalize_cases [OF c])
qed

lemma control_bus: "fst (exchange_control bus s) \<in> {bus, IBUS_RESET_FRAME_LAYOUT (IBUS_CLEAR_RESULT bus)}"
  using finalize_bus [of bus s] by (auto simp: exchange_control_def Let_def split: prod.splits)

lemma scheduler_ok: "cs_inv e \<Longrightarrow> cs_inv (ICSSCHEDULER e)"
proof -
  assume e: "cs_inv e"
  note l = load_ok [OF e]
  have b: "cs_bus_ok (cs_bus e)" using e by (simp add: cs_inv_def)
  obtain bus s where c: "exchange_control (cs_bus e) (load_sched e) = (bus, s)" by (cases "exchange_control (cs_bus e) (load_sched e)") auto
  have "sched_inv (load_sched e)" using l by (simp add: cs_sched_ok_def)
  then have "cs_sched_ok s"
    using sched_ok_frame [OF l frame_exchange_control [OF sched_ok_spans [OF l]] inv_exchange_control, of "cs_bus e"] c by simp
  moreover have "cs_bus_ok bus" using control_bus [of "cs_bus e" "load_sched e"] bus_ok_layout b by (auto simp: c)
  ultimately show "cs_inv (ICSSCHEDULER e)" using e by (simp add: ICSSCHEDULER_def c store_ok cs_inv_bus)
qed

text \<open>Steps that touch only the command arrays.\<close>

definition bus_rest :: "bus_state \<Rightarrow> bus_state" where
  "bus_rest b = b\<lparr>b_cmd := None, b_cmd_buf := None\<rparr>"

definition only_commands :: "cs_env \<Rightarrow> cs_env \<Rightarrow> bool" where
  "only_commands e e' \<longleftrightarrow> cs_inv e' \<and> sc_active (cs_sched e') = sc_active (cs_sched e) \<and>
     sc_tasks (cs_sched e') = sc_tasks (cs_sched e) \<and> sc_nodes (cs_sched e') = sc_nodes (cs_sched e) \<and>
     sc_imsg_ctx (cs_sched e') = sc_imsg_ctx (cs_sched e) \<and> bus_rest (cs_bus e') = bus_rest (cs_bus e)"

lemma only_commands_trans: "only_commands e1 e2 \<Longrightarrow> only_commands e2 e3 \<Longrightarrow> only_commands e1 e3"
  by (simp add: only_commands_def)

lemma only_commands_inv: "only_commands e e' \<Longrightarrow> cs_inv e'"
  by (simp add: only_commands_def)

lemma only_commands_on_sched:
  assumes "cs_inv e" "sched_frame (load_sched e) (f (load_sched e))"
    and "\<And>s. sc_active (f s) = sc_active s \<and> sc_tasks (f s) = sc_tasks s \<and> sc_nodes (f s) = sc_nodes s \<and> sc_normal (f s) = sc_normal s \<and>
      sc_priority (f s) = sc_priority s \<and> length (sc_pending (f s)) = length (sc_pending s)"
  shows "only_commands e (on_sched f e)"
proof -
  have "sched_inv (f (load_sched e))" if "sched_inv (load_sched e)"
    by (rule sched_inv_cong [OF that]) (use assms(3) in blast)+
  then have "cs_inv (on_sched f e)" by (rule on_sched_ok [where f = f, OF assms(1,2)])
  moreover have "sc_imsg_ctx (f (load_sched e)) = sc_imsg_ctx (cs_sched e)"
    using assms(2) by (simp add: sched_frame_def load_sched_def Let_def)
  moreover have "sc_active (f (load_sched e)) = sc_active (cs_sched e)" "sc_tasks (f (load_sched e)) = sc_tasks (cs_sched e)"
    "sc_nodes (f (load_sched e)) = sc_nodes (cs_sched e)"
    using assms(3) [of "load_sched e"] by (simp_all add: load_sched_def Let_def)
  ultimately show ?thesis by (simp add: only_commands_def on_sched_def store_sched_def bus_rest_def)
qed

lemma window_on_sched:
  assumes "cs_inv e"
  shows "only_commands e (on_sched (clear_command_msg_window n) e)" "only_commands e (on_sched (clear_command_buffer_window n) e)"
    "only_commands e (on_sched (load_pending_command_window i) e)" "only_commands e (on_sched (merge_command_window_to_buffer n) e)"
proof -
  note fr = frame_windows [OF sched_ok_spans [OF load_ok [OF assms]]]
  show "only_commands e (on_sched (clear_command_msg_window n) e)"
    by (rule only_commands_on_sched [where f = "clear_command_msg_window n", OF assms fr(1)]) simp
  show "only_commands e (on_sched (clear_command_buffer_window n) e)"
    by (rule only_commands_on_sched [where f = "clear_command_buffer_window n", OF assms fr(2)]) simp
  show "only_commands e (on_sched (load_pending_command_window i) e)"
    by (rule only_commands_on_sched [where f = "load_pending_command_window i", OF assms fr(4)]) (simp add: load_pending_command_window_def Let_def)
  show "only_commands e (on_sched (merge_command_window_to_buffer n) e)"
    by (rule only_commands_on_sched [where f = "merge_command_window_to_buffer n", OF assms fr(6)]) (simp add: merge_command_window_to_buffer_def)
qed

lemma bus_rest_frames: "bus_rest (set_frames n b) = set_frames n (bus_rest b)"
  by (simp add: set_frames_def IBUS_SET_CMD_FRAME_def IBUS_SET_PRM_FRAME_def bus_rest_def)

text \<open>Preparing a command, as an equation: clear, load what is pending, store the value, merge, clear.\<close>

definition command_loaded :: "nat \<Rightarrow> cs_env \<Rightarrow> cs_env" where
  "command_loaded n e = (let node = sc_nodes (cs_sched e) ! n;
      e2 = on_sched (load_pending_command_window n) (on_sched (clear_command_buffer_window node) e)
    in e2\<lparr>cs_bus := set_frames node (cs_bus e2)\<rparr>)"

definition command_merged :: "node_layout_t \<Rightarrow> cs_env \<Rightarrow> cs_env" where
  "command_merged node = (\<lambda>e. on_sched (clear_command_msg_window node) (on_sched (merge_command_window_to_buffer node) e))"

definition value_stored :: "task_t \<Rightarrow> cs_env \<Rightarrow> cs_env option" where
  "value_stored t e = (if \<not> t_staged t \<and> t_command_id t \<noteq> 0
     then map_option snd (cs_imsgset (t_command_id t) (if t_has_value t then t_command_value t else Fin 1) e) else Some e)"

lemma loaded_ok:
  assumes "cs_inv e"
  shows "only_commands (e\<lparr>cs_bus := set_frames (sc_nodes (cs_sched e) ! n) (cs_bus e)\<rparr>) (command_loaded n e)"
proof -
  define e2 where "e2 = on_sched (load_pending_command_window n) (on_sched (clear_command_buffer_window (sc_nodes (cs_sched e) ! n)) e)"
  have c: "only_commands e (on_sched (clear_command_buffer_window (sc_nodes (cs_sched e) ! n)) e)" by (rule window_on_sched(2) [OF assms])
  have o: "only_commands e e2" unfolding e2_def
    by (rule only_commands_trans [OF c window_on_sched(3) [OF only_commands_inv [OF c]]])
  then have "cs_inv e2" by (rule only_commands_inv)
  then have "cs_inv (e2\<lparr>cs_bus := set_frames (sc_nodes (cs_sched e) ! n) (cs_bus e2)\<rparr>)"
    by (intro cs_inv_bus) (simp_all add: bus_ok_layout cs_inv_def)
  then show ?thesis
    using o unfolding command_loaded_def Let_def e2_def [symmetric] by (simp add: only_commands_def bus_rest_frames)
qed

lemma merged_ok: "cs_inv e \<Longrightarrow> only_commands e (command_merged n e)"
proof -
  assume e: "cs_inv e"
  have m: "only_commands e (on_sched (merge_command_window_to_buffer n) e)" by (rule window_on_sched(4) [OF e])
  from only_commands_trans [OF m window_on_sched(1) [OF only_commands_inv [OF m]]] show ?thesis by (simp add: command_merged_def)
qed

lemma stored_ok:
  assumes "cs_inv e" "sendable_task t"
  obtains e' where "value_stored t e = Some e'" "only_commands e e'"
proof (cases "\<not> t_staged t \<and> t_command_id t \<noteq> 0")
  case True
  define v where "v = (if t_has_value t then t_command_value t else Fin 1)"
  have i: "is_comm_id (t_command_id t)" "sendable v" using assms(2) True by (auto simp: sendable_task_def v_def sendable_def)
  obtain st e' where e': "cs_imsgset (t_command_id t) v e = Some (st, e')" "cs_inv e'" "cs_sched e' = cs_sched e"
    "\<exists>x. length x = 16 \<and> cs_bus e' = (cs_bus e)\<lparr>b_cmd := Some x\<rparr>" by (rule cs_imsgset_ok [OF assms(1) i])
  then have "only_commands e e'" by (auto simp: only_commands_def bus_rest_def)
  moreover have "value_stored t e = Some e'" using True e'(1) by (simp add: value_stored_def v_def [symmetric])
  ultimately show ?thesis by (rule that [rotated])
next
  case False
  then show ?thesis using that [of e] assms(1) by (auto simp: value_stored_def only_commands_def)
qed

lemma prepare_command_eq:
  assumes "sc_imsg_ctx (cs_sched e) \<noteq> None" "t_node t = Some n"
  shows "prepare_command_exchange t e =
    map_option (command_merged (sc_nodes (cs_sched e) ! n)) (value_stored t (command_loaded n e))"
  using assms by (simp only: prepare_command_exchange_def option.case if_False command_merged_def value_stored_def command_loaded_def Let_def)

lemma prepare_command_ok:
  assumes "cs_inv e" "sendable_task t" "t_node t = Some n"
  obtains e' where "prepare_command_exchange t e = Some e'"
    "only_commands (e\<lparr>cs_bus := set_frames (sc_nodes (cs_sched e) ! n) (cs_bus e)\<rparr>) e'"
proof -
  have ctx: "sc_imsg_ctx (cs_sched e) \<noteq> None" using assms(1) by (simp add: cs_inv_def cs_sched_ok_def)
  note l = loaded_ok [OF assms(1), of n]
  obtain e2 where e2: "value_stored t (command_loaded n e) = Some e2" "only_commands (command_loaded n e) e2"
    by (rule stored_ok [OF only_commands_inv [OF l] assms(2)])
  have "only_commands e2 (command_merged (sc_nodes (cs_sched e) ! n) e2)" by (rule merged_ok [OF only_commands_inv [OF e2(2)]])
  from only_commands_trans [OF only_commands_trans [OF l e2(2)] this] show thesis
    using that prepare_command_eq [OF ctx assms(3)] e2(1) by simp
qed

lemma prepare_data_ok: "cs_inv e \<Longrightarrow> cs_inv (prepare_data_exchange t e)"
  by (auto simp: prepare_data_exchange_def cs_inv_def bus_ok_layout split: option.split)

text \<open>Arming, as an equation: nothing to arm, or the exchange of a task of a node.\<close>

definition armable :: "cs_env \<Rightarrow> nat \<Rightarrow> nat \<Rightarrow> bool" where
  "armable e i n \<longleftrightarrow> sc_active (cs_sched e) = Some i \<and> i < length (sc_tasks (cs_sched e)) \<and>
     (let t = sc_tasks (cs_sched e) ! i in t_used t \<and> t_active t \<and> \<not> t_armed t \<and> t_node t = Some n)"

definition prepared :: "task_t \<Rightarrow> cs_env \<Rightarrow> cs_env option" where
  "prepared t e = (if t_kind t = tk_command then prepare_command_exchange t e else Some (prepare_data_exchange t e))"

definition request_flag :: "task_t \<Rightarrow> u8" where
  "request_flag t = (if t_kind t = tk_command then ARP_FLAG_CMD_REQ else ARP_FLAG_DATA_REQ)"

definition armed_env :: "nat \<Rightarrow> nat \<Rightarrow> u8 \<Rightarrow> cs_env \<Rightarrow> cs_env" where
  "armed_env i n f e = e\<lparr>cs_bus := start_exchange (nl_bus_addr (sc_nodes (cs_sched e) ! n)) ((cs_bus e)\<lparr>b_msg_flag := f\<rparr>),
     cs_sched := set_task i (\<lambda>t. t\<lparr>t_armed := True\<rparr>) (cs_sched e)\<rparr>"

lemma arm_cases:
  "(\<nexists>i n. armable e i n) \<Longrightarrow> arm_active_exchange e = Some e"
  "armable e i n \<Longrightarrow> arm_active_exchange e =
     map_option (armed_env i n (request_flag (sc_tasks (cs_sched e) ! i)))
       (prepared (sc_tasks (cs_sched e) ! i) (e\<lparr>cs_bus := IBUS_RESET_FRAME_LAYOUT (cs_bus e)\<rparr>))"
proof -
  show "(\<nexists>i n. armable e i n) \<Longrightarrow> arm_active_exchange e = Some e"
    by (auto simp: arm_active_exchange_def armable_def Let_def split: option.split)
  have l: "armed_env i n f = (\<lambda>e. e\<lparr>cs_bus := start_exchange (nl_bus_addr (sc_nodes (cs_sched e) ! n)) ((cs_bus e)\<lparr>b_msg_flag := f\<rparr>),
     cs_sched := set_task i (\<lambda>t. t\<lparr>t_armed := True\<rparr>) (cs_sched e)\<rparr>)" for f
    by (rule ext) (simp add: armed_env_def)
  show "armable e i n \<Longrightarrow> arm_active_exchange e =
     map_option (armed_env i n (request_flag (sc_tasks (cs_sched e) ! i)))
       (prepared (sc_tasks (cs_sched e) ! i) (e\<lparr>cs_bus := IBUS_RESET_FRAME_LAYOUT (cs_bus e)\<rparr>))"
    by (cases "t_kind (sc_tasks (cs_sched e) ! i)")
      (simp_all add: arm_active_exchange_def armable_def prepared_def request_flag_def l Let_def option.map_comp o_def)
qed

lemma armable_active: "armable e i n \<Longrightarrow> cs_inv e \<Longrightarrow> n < 5 \<and> i < k_max_tasks"
proof -
  assume a: "armable e i n" "cs_inv e"
  then have inv: "sched_inv (cs_sched e)" by (simp add: cs_inv_def cs_sched_ok_def)
  then have i: "i < k_max_tasks" "length (sc_nodes (cs_sched e)) = 5"
    using a(1) by (auto simp: armable_def sched_inv_def sched_shape_def)
  then have "has_node 5 (sc_tasks (cs_sched e) ! i)" using inv a(1) i
    by (auto simp: sched_inv_def slot_ok_def task_ok_def armable_def Let_def)
  then show ?thesis using a(1) i by (simp add: has_node_def armable_def Let_def)
qed

lemma inv_arm_task: "sched_inv s \<Longrightarrow> sc_active s = Some i \<Longrightarrow> sched_inv (set_task i (\<lambda>t. t\<lparr>t_armed := True\<rparr>) s)"
proof -
  assume a: "sched_inv s" "sc_active s = Some i"
  then have i: "i < length (sc_tasks s)" "length (sc_tasks s) = k_max_tasks" by (auto simp: sched_inv_def sched_shape_def)
  have "slot_ok (set_task i (\<lambda>t. t\<lparr>t_armed := True\<rparr>) s) j" if "j < k_max_tasks" for j
  proof (cases "j = i")
    case True
    have "slot_ok s i" using a that True by (simp add: sched_inv_def)
    then show ?thesis using a(2) i True by (auto simp: slot_ok_def task_ok_def Let_def split: if_splits)
  next
    case False
    have "slot_ok s j" using a that by (simp add: sched_inv_def)
    then show ?thesis using i False by (simp add: slot_ok_def Let_def)
  qed
  then show ?thesis using a(1) by (simp add: sched_inv_def sched_shape_def)
qed

lemma prepared_keeps:
  assumes "cs_inv e" "sendable_task t" "t_node t = Some n"
  obtains e' where "prepared t e = Some e'"
    "only_commands (e\<lparr>cs_bus := set_frames (sc_nodes (cs_sched e) ! n) (cs_bus e)\<rparr>) e'"
proof (cases "t_kind t")
  case tk_command
  show ?thesis by (rule prepare_command_ok [OF assms]) (rule that, simp_all add: prepared_def tk_command)
next
  case tk_data_request
  then show ?thesis using that prepare_data_ok [OF assms(1), of t] assms(3)
    by (simp add: prepared_def prepare_data_exchange_def only_commands_def)
qed

lemma arm_ok: "cs_inv e \<Longrightarrow> \<exists>e'. arm_active_exchange e = Some e' \<and> cs_inv e'"
proof (cases "\<exists>i n. armable e i n")
  case False
  assume "cs_inv e"
  then show ?thesis using arm_cases(1) [OF False] by simp
next
  case True
  assume e: "cs_inv e"
  from True obtain i n where a: "armable e i n" by blast
  let ?t = "sc_tasks (cs_sched e) ! i" and ?e0 = "e\<lparr>cs_bus := IBUS_RESET_FRAME_LAYOUT (cs_bus e)\<rparr>"
  have "i < length (sc_tasks (cs_sched e))" using a by (simp add: armable_def)
  then have t: "sendable_task ?t" using e by (simp add: cs_inv_def cs_sched_ok_def)
  have e0: "cs_inv ?e0" by (rule cs_inv_bus [OF e]) (use e in \<open>simp add: bus_ok_layout cs_inv_def\<close>)
  have n: "t_node ?t = Some n" using a by (simp add: armable_def Let_def)
  obtain e1 where p: "prepared ?t ?e0 = Some e1"
    "only_commands (?e0\<lparr>cs_bus := set_frames (sc_nodes (cs_sched ?e0) ! n) (cs_bus ?e0)\<rparr>) e1"
    by (rule prepared_keeps [OF e0 t n])
  then have e1: "prepared ?t ?e0 = Some e1" "cs_inv e1" "sc_active (cs_sched e1) = Some i"
    using a by (simp_all add: only_commands_def armable_def)
  have c: "cs_sched_ok (cs_sched e1)" using e1(2) by (simp add: cs_inv_def)
  then have "sched_inv (cs_sched e1)" by (simp add: cs_sched_ok_def)
  then have "cs_sched_ok (set_task i (\<lambda>t. t\<lparr>t_armed := True\<rparr>) (cs_sched e1))"
    by (intro sched_ok_frame [OF c] frame_set_task inv_arm_task e1(3)) simp
  then have "cs_inv (armed_env i n f e1)" for f
    using e1(2) by (simp add: armed_env_def cs_inv_def bus_ok_layout)
  then show ?thesis unfolding arm_cases(2) [OF a] e1(1) by simp
qed

lemma busexchange_ok: "cs_inv e \<Longrightarrow> \<exists>w e'. CS_IBUSEXCHANGE rx e = (w, Some e') \<and> cs_inv e'"
proof -
  assume e: "cs_inv e"
  obtain e1 where e1: "(if \<not> b_busy (cs_bus e) then arm_active_exchange e else Some e) = Some e1" "cs_inv e1"
    using arm_ok [OF e] e by (cases "b_busy (cs_bus e)") auto
  obtain w b where b: "IBUS_EXCHANGE no_bus_hooks rx (cs_bus e1) = (w, b)" by (cases "IBUS_EXCHANGE no_bus_hooks rx (cs_bus e1)") auto
  have "cs_bus_ok b" using exchange_bus_ok [of "cs_bus e1" rx] e1(2) b by (simp add: cs_inv_def)
  then have "cs_inv (e1\<lparr>cs_bus := b\<rparr>)" by (rule cs_inv_bus [OF e1(2)])
  then show ?thesis unfolding CS_IBUSEXCHANGE_def e1(1) by (simp add: b)
qed

lemma init_ok: "cs_inv (cs_runtime_init cs_env0)"
proof -
  define b where "b = cs_bus (cs_init_msg_buffers cs_env0)"
  define s where "s = sched_reset (sched_init (Some (cs_ctx (cs_init_isim_registry (cs_init_msg_buffers cs_env0)))) (b_cmd b) 16 (b_cmd_buf b) 8 sched0)"
  have bits: "comm_msg_blocks SYS_CS = 16" "param_msg_blocks SYS_CS = 26" by code_simp+
  have bd: "bus_bound b0" "bus_wf b0" if "b0 = bind_standard_bus bus_master SYS_CS ARP_ADDR_CS ARP_ADDR_PSS cs_wire0" for b0
    unfolding that by (simp_all add: bus_wf_bind cs_wire0_def wire_storage0_def)
  let ?b0 = "bind_standard_bus bus_master SYS_CS ARP_ADDR_CS ARP_ADDR_PSS cs_wire0"
  have fields: "b_role ?b0 = bus_master" "b_self_addr ?b0 = ARP_ADDR_CS" "b_cmd_blocks ?b0 = 16" "b_prm_blocks ?b0 = 26"
    "b_cmd_buf_blocks ?b0 = 8" "b_prm_buf_blocks ?b0 = 15" "b_cmd ?b0 = Some (replicate 16 0)" "b_prm ?b0 = Some (replicate 26 0)"
    "b_cmd_buf ?b0 = Some (replicate 8 0)" "b_prm_buf ?b0 = Some (replicate 15 0)"
    by (simp_all add: bind_standard_bus_def IBUS_BIND_STD_def cs_wire0_def wire_storage0_def bits CS_COMM_BUF_BLOCKS_def CS_PARAM_BUF_BLOCKS_def)
  have b: "b = IBUS_RESET_FRAME_LAYOUT (put_bus_wire (clear_wire_storage (bus_wire ?b0)) ?b0)"
    by (simp add: b_def cs_init_msg_buffers_def cs_init_bus_state_def cs_env0_def Let_def)
  have "cs_bus_ok (put_bus_wire (clear_wire_storage (bus_wire ?b0)) ?b0)"
    using put_bus_wire_clear(1) [OF bd(2,1) [OF refl]] fields
    by (simp add: cs_bus_ok_def) (simp add: put_bus_wire_def clear_wire_storage_def bus_wire_def)
  then have ok: "cs_bus_ok b" unfolding b by (rule bus_ok_layout)
  then obtain c cb where c: "b_cmd b = Some c" "length c = 16" "b_cmd_buf b = Some cb" "length cb = 8" by (auto simp: cs_bus_ok_def)
  have "sched_inv s"
    by (rule inv_fresh) (simp_all add: s_def sched_reset_def sched_init_def init_node_layouts_def sched0_def G_NODES_init_def)
  then have "cs_sched_ok s"
    using c by (simp add: cs_sched_ok_def) (simp add: s_def sched_reset_def sched_init_def cs_nodes_def init_node_layouts_def)
  moreover have "cs_runtime_init cs_env0 = (cs_init_isim_registry (cs_init_msg_buffers cs_env0))\<lparr>cs_sched := s, cs_om := om_reset,
      cs_soft := software_state0\<lparr>ss_initialized := True\<rparr>, cs_last_tick_log := 0\<rparr>"
    using c by (simp add: cs_runtime_init_def s_def b_def reset_software_state_def bus_wire_def cs_init_isim_registry_def Let_def)
      (simp add: cs_init_msg_buffers_def cs_init_bus_state_def cs_env0_def)
  moreover have "cs_bus (cs_init_isim_registry (cs_init_msg_buffers cs_env0)) = b" "cs_bus_ready (cs_init_isim_registry (cs_init_msg_buffers cs_env0))"
    by (simp_all add: b_def cs_init_isim_registry_def cs_init_msg_buffers_def cs_init_bus_state_def cs_env0_def Let_def)
  ultimately show ?thesis using ok om_reset_inv by (simp add: cs_inv_def)
qed

lemma step_ok:
  assumes "console_ok con" "cs_inv e \<or> e = cs_env0"
  obtains w con' e' where "cs_runtime_step t rx (con, e) = (w, Some (con', e'))" "console_ok con'" "cs_inv e'" "waiting_for tgt_cs con' = []"
proof -
  define e0 where "e0 = (if \<not> ss_initialized (cs_soft e) then cs_runtime_init e else e)"
  have e0: "cs_inv e0" using assms(2) init_ok by (auto simp: e0_def cs_inv_def cs_env0_def software_state0_def)
  define e1 where "e1 = e0\<lparr>cs_bus := (cs_bus e0)\<lparr>b_writer_tick := t\<rparr>, cs_soft := (cs_soft e0)\<lparr>ss_current_tick := t, ss_tick := ISYSTEP (ss_tick (cs_soft e0))\<rparr>\<rparr>"
  have e1: "cs_inv e1" using e0 bus_ok_layout(6) by (simp add: e1_def cs_inv_def)
  obtain con' e2 where b: "control_bridge_step con e1 = Some (con', e2)" "cs_inv e2" "waiting_for tgt_cs con' = []" "console_ok con'"
    using bridge_ok [OF assms(1) e1] by metis
  have "cs_inv (ICSSCHEDULER (ICSNODES (CS_LOCALSYSALG (ICSHIALG e2))))"
    by (intro scheduler_ok nodes_ok) (simp add: CS_LOCALSYSALG_def hialg_ok b(2))
  then obtain w e3 where e3: "CS_IBUSEXCHANGE rx (ICSSCHEDULER (ICSNODES (CS_LOCALSYSALG (ICSHIALG e2)))) = (w, Some e3)" "cs_inv e3"
    using busexchange_ok by metis
  have "cs_init_bus_state e0 = e0" using e0 by (simp add: cs_init_bus_state_def cs_inv_def)
  then have "cs_runtime_step t rx (con, e) = ICSBASEALG rx (con, e0\<lparr>cs_bus := (cs_bus e0)\<lparr>b_writer_tick := t\<rparr>, cs_soft := (cs_soft e0)\<lparr>ss_current_tick := t\<rparr>\<rparr>)"
    by (simp add: cs_runtime_step_def e0_def [symmetric] Let_def)
  also have "\<dots> = (w, Some (con', e3))"
    using b(1) e3(1) by (simp add: ICSBASEALG_def ICSALG_def e1_def)
  finally show thesis using b(3,4) e3(2) that by blast
qed


subsection \<open>Runs\<close>

definition sendable_line :: "string \<Rightarrow> bool" where
  "sendable_line l \<longleftrightarrow> (case parse_line l of None \<Rightarrow> True | Some c \<Rightarrow> sendable (cm_value c))"

text \<open>
  Why the values are bounded: a finite value beyond them reaches the conversion of a \<open>double\<close> to
  \<open>int64_t\<close> out of range (\<open>add_quant_candidates\<close> of \<open>i_par.cpp\<close>), which has no meaning in C++; the tick of
  the central system is then undefined.
\<close>

definition large_command :: command_t where
  "large_command = \<lparr>cm_target = tgt_cs, cm_verb = ''stagecmd'', cm_arg0 = ''pss'', cm_arg1 = ''CPSSMAXA'',
     cm_value = to_fp f32 (10 ^ 30), cm_has_value = True, cm_raw = ''stagecmd pss CPSSMAXA value=1e30''\<rparr>"

definition value_undefined :: "context_t \<Rightarrow> bool" where
  "value_undefined ctx \<longleftrightarrow> IMSGSET ctx (find_command_id tgt_pss ''CPSSMAXA'') (cm_value large_command) = None"

lemma large_value: "value_undefined (ISYSCTX role_cs SYS_CS q n (Some xs) 16)"
  by code_simp

lemma large_command_undefined:
  assumes "cs_inv e"
  shows "handle_command large_command e = None"
proof -
  obtain c where c: "b_cmd (cs_bus e) = Some c" "length c = 16" using assms by (auto simp: cs_inv_def cs_bus_ok_def)
  have "cs_ctx e = ISYSCTX role_cs SYS_CS (b_prm (cs_bus e)) (case b_prm (cs_bus e) of None \<Rightarrow> 0 | Some p \<Rightarrow> length p) (Some c) 16"
    using c assms by (auto simp: cs_ctx_def make_imsg_context_def bus_wire_def cs_inv_def cs_bus_ok_def)
  then have "cs_imsgset (find_command_id tgt_pss ''CPSSMAXA'') (cm_value large_command) e = None"
    using large_value [unfolded value_undefined_def] by (simp add: cs_imsgset_def)
  moreover have "find_command_id tgt_pss ''CPSSMAXA'' \<noteq> 0" "try_parse_target ''pss'' = Some tgt_pss" by code_simp+
  ultimately show ?thesis
    by (simp add: handle_command_def handle_stagecmd_command_def large_command_def Let_def)
qed

lemma large_value_undefined:
  assumes "cs_inv e"
  shows "\<not> sendable_line ''stagecmd pss CPSSMAXA value=1e30''"
    "snd (cs_runtime_step t rx (snd (console_line ''stagecmd pss CPSSMAXA value=1e30'' console0), e)) = None"
proof -
  show "\<not> sendable_line ''stagecmd pss CPSSMAXA value=1e30''" by code_simp
  let ?con = "snd (console_line ''stagecmd pss CPSSMAXA value=1e30'' console0)"
  define e1 where "e1 = e\<lparr>cs_bus := (cs_bus e)\<lparr>b_writer_tick := t\<rparr>, cs_soft := (cs_soft e)\<lparr>ss_current_tick := t, ss_tick := ISYSTEP (ss_tick (cs_soft e))\<rparr>\<rparr>"
  have e1: "cs_inv e1" using assms bus_ok_layout(6) by (simp add: e1_def cs_inv_def)
  have pop: "case pop_command tgt_cs ?con of None \<Rightarrow> False | Some (c, con1) \<Rightarrow> c = large_command" by code_simp
  have "control_bridge_step ?con e1 = None"
    using pop large_command_undefined [OF e1] by (subst control_bridge_step.simps) (auto split: option.splits)
  moreover have "cs_init_bus_state e = e" "ss_initialized (cs_soft e)" using assms by (simp_all add: cs_init_bus_state_def cs_inv_def)
  ultimately show "snd (cs_runtime_step t rx (?con, e)) = None"
    by (simp add: cs_runtime_step_def ICSBASEALG_def ICSALG_def e1_def Let_def)
qed

text \<open>
  What may happen to the central system: a tick with any byte on the bus, a line of the terminal, a line of
  the control file. A line with a larger finite value is left out: after it the tick may be undefined.
\<close>

inductive cs_run :: "console \<times> cs_env \<Rightarrow> bool" where
  cs_start: "cs_run (console0, cs_env0)"
| cs_tick: "cs_run x \<Longrightarrow> cs_runtime_step t rx x = (w, Some x') \<Longrightarrow> cs_run x'"
| cs_typed: "cs_run (con, e) \<Longrightarrow> sendable_line l \<Longrightarrow> cs_run (snd (console_line l con), e)"
| cs_filed: "cs_run (con, e) \<Longrightarrow> sendable_line l \<Longrightarrow> cs_run (file_line l con, e)"

lemma enqueue_ok:
  assumes "console_ok con" "cm_verb c \<in> set queued_verbs" "sendable (cm_value c)"
  shows "console_ok (ctl_enqueue c con)"
proof -
  have wf: "console_wf con" "length (cc_queues con) = 7" using assms(1) by (simp_all add: console_ok_def console_wf_def)
  have "sendable (cm_value d)" if "i < 7" "d \<in> set (cc_queues (ctl_enqueue c con) ! i)" for i d
    using that(2) console_okD [OF assms(1) that(1), of d] assms(3) that(1) wf(2)
    by (cases "ctl_target_index (cm_target c) = i") (simp_all add: enqueue_queue, elim disjE, simp_all)
  with enqueue_wf [OF wf(1) assms(2)] show ?thesis unfolding console_ok_def by blast
qed

lemma typed_ok:
  assumes "console_ok con" "sendable_line l"
  shows "console_ok (snd (console_line l con))" "console_ok (file_line l con)"
proof -
  have s: "console_ok (con\<lparr>cc_stop := a\<rparr>)" for a using assms(1) by (simp add: console_ok_def)
  have q: "console_ok (ctl_enqueue c con)" if "parse_line l = Some c" "\<not> is_quit c" for c
    using enqueue_ok [OF assms(1) queued_verb [OF that]] assms(2) that(1) by (simp add: sendable_line_def)
  show "console_ok (snd (console_line l con))" "console_ok (file_line l con)"
    using assms(1) s q by (auto simp: console_line_def file_line_def is_quit_def split: option.split)
qed

lemma run_ok: "cs_run x \<Longrightarrow> console_ok (fst x) \<and> (cs_inv (snd x) \<or> snd x = cs_env0)"
proof (induction rule: cs_run.induct)
  case cs_start
  show ?case by (simp add: console_ok_def console_wf_0) (simp add: console0_def)
next
  case (cs_tick x t rx w x')
  then show ?case using step_ok [of "fst x" "snd x" t rx] by (metis fst_conv option.inject prod.collapse prod.inject snd_conv)
next
  case (cs_typed con e l)
  then show ?case by (simp add: typed_ok)
next
  case (cs_filed con e l)
  then show ?case by (simp add: typed_ok)
qed

text \<open>
  C15: the node of the central system, over all runs. Whatever comes over the bus and whatever lines
  are typed or appended, as long as their values, where finite, are of magnitude at most 2^61 (infinite
  and NaN values may come), every tick is defined, it keeps
  the invariants of the scheduler, of the operating mode and of the bus state, keeps every waiting task
  sendable, and leaves no console command for the central system waiting.
\<close>

theorem cs_node_invariant:
  assumes "cs_run (con, e)"
  shows "\<exists>w con' e'. cs_runtime_step t rx (con, e) = (w, Some (con', e')) \<and> cs_run (con', e') \<and>
    sched_inv (cs_sched e') \<and> om_inv (cs_om e') \<and> bus_wf (cs_bus e') \<and> b_role (cs_bus e') = bus_master \<and>
    (\<forall>task \<in> set (sc_tasks (cs_sched e')). sendable_task task) \<and> console_wf con' \<and> waiting_for tgt_cs con' = []"
proof -
  have ok: "console_ok con" "cs_inv e \<or> e = cs_env0" using run_ok [OF assms] by simp_all
  obtain w con' e' where s: "cs_runtime_step t rx (con, e) = (w, Some (con', e'))" "console_ok con'" "cs_inv e'" "waiting_for tgt_cs con' = []"
    by (rule step_ok [OF ok])
  with cs_tick [OF assms s(1)] show ?thesis
    by (auto simp: cs_inv_def cs_sched_ok_def cs_bus_ok_def console_ok_def)
qed

theorem cs_node_invariant_witness:
  "\<exists>w con' e'. cs_runtime_step 0 None (snd (console_line ''cmd pss CPSSMAXA value=7'' console0), cs_env0) = (w, Some (con', e')) \<and>
     sched_inv (cs_sched e') \<and> waiting_for tgt_cs con' = []"
proof -
  have "sendable_line ''cmd pss CPSSMAXA value=7''" by code_simp
  from cs_node_invariant [OF cs_typed [OF cs_start this], of 0 None] show ?thesis by blast
qed

end
