(* ===== verification/Conversation.thy ===== *)
theory Conversation
  imports BusLink
begin

text \<open>
  The conversation of a master and a device on the wire, tick by tick, while both nodes change their
  message arrays between the ticks as they like: how far a sender and a receiver are in a frame, and
  the phases of a request with its answer, or with no answer. Every tick leads from a phase to the
  next, so that a request ends after a number of ticks that is known when it starts.
\<close>

text \<open>What the exchange looks at outside the message arrays.\<close>

definition line :: "bus_state \<Rightarrow> bus_state" where
  "line s = s\<lparr>b_cmd := None, b_cmd_buf := None, b_prm := None, b_prm_buf := None, b_writer_tick := 0\<rparr>"

definition has_header :: "bus_state \<Rightarrow> bool" where
  "has_header s \<longleftrightarrow> fst (b_header s) \<noteq> None \<or> snd (b_header s) \<noteq> None"

definition home :: "bus_state \<Rightarrow> bool" where
  "home s \<longleftrightarrow> b_exchange_flag s = ex_rx \<and> b_rx_flag s = rx_sof"

definition fixed_part :: "bus_state \<Rightarrow> bus_state" where
  "fixed_part s = (line s)\<lparr>b_header := (None, None), b_exchange_flag := ex_rx, b_rx_flag := rx_sof, b_tx_flag := tx_sof, b_adr_flag := False,
     b_n_blocks := 0, b_msg_flag := 0, b_sub_clock := 0, b_wait_clock := 0, b_busy := False, b_result_ready := False,
     b_last_result := res_none, b_cmd_buf_u8 := None, b_prm_buf_u8 := None\<rparr>"

lemma fixed_fields:
  assumes "fixed_part s' = fixed_part s"
  shows "b_role s' = b_role s" "b_self_addr s' = b_self_addr s" "b_target_addr s' = b_target_addr s"
    "b_cmd_frame_offset s' = b_cmd_frame_offset s" "b_cmd_frame_blocks s' = b_cmd_frame_blocks s"
    "b_prm_frame_offset s' = b_prm_frame_offset s" "b_prm_frame_blocks s' = b_prm_frame_blocks s"
    "b_cmd_blocks s' = b_cmd_blocks s" "b_cmd_buf_blocks s' = b_cmd_buf_blocks s" "b_prm_blocks s' = b_prm_blocks s"
    "b_prm_buf_blocks s' = b_prm_buf_blocks s"
  using arg_cong [OF assms, of b_role] arg_cong [OF assms, of b_self_addr] arg_cong [OF assms, of b_target_addr]
    arg_cong [OF assms, of b_cmd_frame_offset] arg_cong [OF assms, of b_cmd_frame_blocks] arg_cong [OF assms, of b_prm_frame_offset]
    arg_cong [OF assms, of b_prm_frame_blocks] arg_cong [OF assms, of b_cmd_blocks] arg_cong [OF assms, of b_cmd_buf_blocks]
    arg_cong [OF assms, of b_prm_blocks] arg_cong [OF assms, of b_prm_buf_blocks]
  by (simp_all add: fixed_part_def line_def)

text \<open>One byte of a frame; the data bytes may be any.\<close>

definition frame_byte :: "u8 \<Rightarrow> u8 \<Rightarrow> u8 \<Rightarrow> nat \<Rightarrow> nat \<Rightarrow> u8 \<Rightarrow> bool" where
  "frame_byte a f k n i b \<longleftrightarrow> (i = 0 \<longrightarrow> b = ARP_BUS_SOF) \<and> (i = 1 \<longrightarrow> b = byte_lo (hdr_make a f k (of_nat n))) \<and>
     (i = 2 \<longrightarrow> b = byte_hi (hdr_make a f k (of_nat n))) \<and> (i = 3 + 2 * n \<longrightarrow> b = ARP_BUS_EOF)"

text \<open>A node that has sent, or received, the first \<open>i\<close> bytes of a frame.\<close>

definition sending :: "u8 \<Rightarrow> u8 \<Rightarrow> u8 \<Rightarrow> nat \<Rightarrow> nat \<Rightarrow> bus_state \<Rightarrow> bool" where
  "sending a f k n i s \<longleftrightarrow> b_exchange_flag s = ex_tx \<and> has_header s \<and> b_target_addr s = a \<and> b_msg_flag s = f \<and>
     calc_nblocks s = of_nat n \<and>
     (if i = 0 then b_tx_flag s = tx_sof
      else if i = 1 then b_tx_flag s = tx_header \<and> b_sub_clock s = 0
      else b_n_blocks s = of_nat n \<and>
        (if i = 2 then b_tx_flag s = tx_header \<and> b_sub_clock s = 1 \<and> byte_hi (load_view (b_header s)) = byte_hi (hdr_make a f k (of_nat n))
         else if i < 3 + 2 * n then b_tx_flag s = tx_data \<and> b_sub_clock s = of_nat (i - 3)
         else b_tx_flag s = tx_eof))"

definition receiving :: "u8 \<Rightarrow> u8 \<Rightarrow> u8 \<Rightarrow> nat \<Rightarrow> nat \<Rightarrow> bus_state \<Rightarrow> bool" where
  "receiving a f k n i s \<longleftrightarrow> b_exchange_flag s = ex_rx \<and> has_header s \<and> b_wait_clock s < 10 \<and>
     (if i = 0 then b_rx_flag s = rx_sof
      else b_wait_clock s = 0 \<and>
       (if i = 1 then b_rx_flag s = rx_header \<and> b_sub_clock s = 0
        else if i = 2 then b_rx_flag s = rx_header \<and> b_sub_clock s = 1 \<and> byte_lo (load_view (b_header s)) = byte_lo (hdr_make a f k (of_nat n))
        else b_adr_flag s = (a = b_self_addr s) \<and> b_msg_flag s = f \<and> b_n_blocks s = of_nat n \<and>
          (if i < 3 + 2 * n then b_rx_flag s = rx_data \<and> b_sub_clock s = of_nat (i - 3) else b_rx_flag s = rx_eof)))"

lemma calc_fixed: "fixed_part s' = fixed_part s \<Longrightarrow> b_msg_flag s' = b_msg_flag s \<Longrightarrow> calc_nblocks s' = calc_nblocks s"
  by (simp add: calc_nblocks_def cmd_frame_blocks_def prm_frame_blocks_def fixed_fields [of s' s])

lemma line_fixed: "line s' = line s \<Longrightarrow> fixed_part s' = fixed_part s"
  by (simp add: fixed_part_def)

lemma unat_block_index: "n < 32 \<Longrightarrow> j \<le> 2 * n \<Longrightarrow> unat (of_nat j :: u16) = j"
  by (simp add: unat_of_nat take_bit_nat_eq_self)

lemma send_step:
  assumes "sending a f k n i s" "i < 3 + 2 * n" "n < 32"
  shows "\<exists>k' b s'. IBUS_EXCHANGE no_bus_hooks rx s = (Some b, s') \<and> frame_byte a f k' n i b \<and> sending a f k' n (Suc i) s' \<and>
    (2 \<le> i \<longrightarrow> k' = k) \<and> fixed_part s' = fixed_part s \<and> b_busy s' = (b_busy s \<or> b_role s = bus_master \<and> i = 0) \<and>
    b_result_ready s' = b_result_ready s \<and> b_last_result s' = b_last_result s"
proof -
  have s: "b_exchange_flag s = ex_tx" "has_header s" "b_target_addr s = a" "b_msg_flag s = f" "calc_nblocks s = of_nat n"
    using assms(1) by (simp_all add: sending_def)
  have ex: "IBUS_EXCHANGE no_bus_hooks rx s = IBUS_TX_EXCHANGE no_bus_hooks s" using s(1) by (simp add: IBUS_EXCHANGE_def)
  consider "i = 0" | "i = 1" | "i = 2" | "3 \<le> i" by linarith
  then show ?thesis
  proof cases
    case 1
    let ?s' = "snd (ITX_SOF s)"
    have t: "IBUS_EXCHANGE no_bus_hooks rx s = (Some ARP_BUS_SOF, ?s')"
      using assms(1) 1 by (simp add: ex IBUS_TX_EXCHANGE_def ITX_SOF_def sending_def)
    have fx: "fixed_part ?s' = fixed_part s" "b_msg_flag ?s' = b_msg_flag s" by (simp_all add: ITX_SOF_def fixed_part_def line_def Let_def)
    have "sending a f k n (Suc i) ?s'"
      using s 1 calc_fixed [OF fx] by (simp add: sending_def ITX_SOF_def Let_def has_header_def)
    with t fx 1 show ?thesis by (auto simp: frame_byte_def ITX_SOF_def Let_def)
  next
    case 2
    let ?k = "ucast (b_writer_tick s)"
    let ?h = "hdr_make a f ?k (of_nat n)"
    define s' where "s' = s\<lparr>b_n_blocks := of_nat n, b_header := write_raw (b_header s) ?h, b_sub_clock := 1, b_wait_clock := 0\<rparr>"
    have h: "load_view (write_raw (b_header s) ?h) = ?h" using s(2) by (auto simp: has_header_def)
    have t: "IBUS_EXCHANGE no_bus_hooks rx s = (Some (byte_lo ?h), s')"
      using assms(1) 2 s h
      by (simp add: ex IBUS_TX_EXCHANGE_def ITX_HEADER_def sending_def IBUS_GEN_STD_HEADER_def Let_def has_header_def s'_def)
        (auto simp: write_storage_def hdr_value0_def header_byte_def hdr_read_byte_def k_header_bytes_def)
    have fx: "fixed_part s' = fixed_part s" "b_msg_flag s' = b_msg_flag s" by (simp_all add: s'_def fixed_part_def line_def)
    have "sending a f ?k n (Suc i) s'"
      using s 2 calc_fixed [OF fx] h assms(1) by (auto simp: sending_def has_header_def s'_def write_raw_def split: prod.splits)
    with t fx 2 show ?thesis
      by - (rule exI [where x = ?k], rule exI [where x = "byte_lo ?h"], rule exI [where x = s'], simp add: frame_byte_def, simp add: s'_def)
  next
    case 3
    define s' where "s' = s\<lparr>b_tx_flag := (if b_n_blocks s > 0 then tx_data else tx_eof), b_sub_clock := 0, b_wait_clock := 0\<rparr>"
    have t: "IBUS_EXCHANGE no_bus_hooks rx s = (Some (byte_hi (hdr_make a f k (of_nat n))), s')"
      using assms(1) 3 by (simp add: ex IBUS_TX_EXCHANGE_def ITX_HEADER_def sending_def header_byte_def hdr_read_byte_def k_header_bytes_def s'_def)
    have fx: "fixed_part s' = fixed_part s" "b_msg_flag s' = b_msg_flag s" by (simp_all add: s'_def fixed_part_def line_def)
    have n: "b_n_blocks s = of_nat n" using assms(1) 3 by (simp add: sending_def)
    have pos: "b_n_blocks s > 0 \<longleftrightarrow> n > 0"
      unfolding n word_less_nat_alt using unat_small [OF assms(3)] by simp
    have "sending a f k n (Suc i) s'"
      using s 3 calc_fixed [OF fx] n pos by (simp add: sending_def has_header_def) (auto simp: s'_def)
    with t fx 3 show ?thesis
      by - (rule exI [where x = k], rule exI [where x = "byte_hi (hdr_make a f k (of_nat n))"], rule exI [where x = s'], simp add: frame_byte_def, simp add: s'_def)
  next
    case 4
    then obtain j where j: "i = j + 3" by (metis le_add_diff_inverse2)
    have d: "b_tx_flag s = tx_data" "b_sub_clock s = of_nat j" "b_n_blocks s = of_nat n" using assms(1,2) by (simp_all add: sending_def j)
    define s' where "s' = snd (ITX_DATA s)"
    have t: "IBUS_EXCHANGE no_bus_hooks rx s = (Some (tx_data_byte s), s')" using d by (simp add: ex IBUS_TX_EXCHANGE_def ITX_DATA_def Let_def s'_def)
    have fx: "fixed_part s' = fixed_part s" "b_msg_flag s' = b_msg_flag s" by (simp_all add: s'_def ITX_DATA_def fixed_part_def line_def Let_def)
    have u: "unat (of_nat (Suc j) :: u16) = Suc j" by (rule unat_block_index [OF assms(3)]) (use assms(2) j in simp)
    have e: "expected_bytes (s\<lparr>b_sub_clock := x, b_wait_clock := 0\<rparr>) = 2 * n" for x
      using d(3) unat_small [OF assms(3)] by (simp add: expected_bytes_def)
    have c: "of_nat j + 1 = (of_nat (Suc j) :: u16)" by simp
    have s': "s' = (if Suc j \<ge> 2 * n then s\<lparr>b_sub_clock := of_nat (Suc j), b_wait_clock := 0, b_tx_flag := tx_eof\<rparr>
        else s\<lparr>b_sub_clock := of_nat (Suc j), b_wait_clock := 0\<rparr>)"
      unfolding s'_def ITX_DATA_def Let_def d(2) c snd_conv e bus_state.select_convs bus_state.update_convs by (simp add: u del: of_nat_Suc)
    have "sending a f k n (Suc i) s'"
      using s calc_fixed [OF fx] d assms(2) by (simp add: sending_def has_header_def j) (auto simp: s' j)
    with t fx assms(2) j show ?thesis
      by - (rule exI [where x = k], rule exI [where x = "tx_data_byte s"], rule exI [where x = s'], simp add: frame_byte_def, simp add: s')
  qed
qed

text \<open>The last byte of a frame: a device is home again, a master listens.\<close>

lemma send_last:
  assumes "sending a f k n (3 + 2 * n) s" "f = ARP_FLAG_CMD_REQ \<or> f = ARP_FLAG_DATA_REQ \<or> b_role s = bus_device"
  shows "\<exists>s'. IBUS_EXCHANGE no_bus_hooks rx s = (Some ARP_BUS_EOF, s') \<and> home s' \<and> has_header s' \<and> b_wait_clock s' = 0 \<and>
    fixed_part s' = fixed_part s \<and> b_busy s' = (b_busy s \<and> b_role s = bus_master) \<and>
    b_result_ready s' = b_result_ready s \<and> b_last_result s' = b_last_result s"
proof -
  have s: "b_exchange_flag s = ex_tx" "b_tx_flag s = tx_eof" "b_msg_flag s = f" "has_header s" using assms(1) by (simp_all add: sending_def)
  show ?thesis
  proof (cases "b_role s")
    case bus_device
    then show ?thesis using s by (simp add: IBUS_EXCHANGE_def IBUS_TX_EXCHANGE_def ITX_EOF_def home_def has_header_def fixed_part_def line_def Let_def)
  next
    case bus_master
    then show ?thesis using s assms(2)
      by (auto simp: IBUS_EXCHANGE_def IBUS_TX_EXCHANGE_def ITX_EOF_def home_def has_header_def fixed_part_def line_def Let_def)
  qed
qed

subsection \<open>Receiving\<close>

lemma rx_now:
  assumes "b_exchange_flag s = ex_rx" "b_wait_clock s < 10"
  shows "IBUS_EXCHANGE no_bus_hooks rx s = (None, case b_rx_flag s of
      rx_sof \<Rightarrow> IRX_SOF rx (rx_entry (b_writer_tick s) s) | rx_header \<Rightarrow> IRX_HEADER no_bus_hooks rx (rx_entry (b_writer_tick s) s)
    | rx_data \<Rightarrow> IRX_DATA rx (rx_entry (b_writer_tick s) s) | rx_eof \<Rightarrow> IRX_EOF no_bus_hooks rx (rx_entry (b_writer_tick s) s))"
  using rx_step [OF assms, of "b_writer_tick s" rx] by (simp add: bus_node_def)

lemma entry_same: "rx_entry (b_writer_tick s) s = (if b_role s = bus_master \<and> b_busy s then s\<lparr>b_wait_clock := b_wait_clock s + 1\<rparr> else s)"
  by (simp add: rx_entry_def)

lemma store_byte_fields:
  "b_sub_clock (store_rx_byte s v) = b_sub_clock s" "b_header (store_rx_byte s v) = b_header s"
  "b_wait_clock (store_rx_byte s v) = b_wait_clock s" "b_adr_flag (store_rx_byte s v) = b_adr_flag s"
  "b_msg_flag (store_rx_byte s v) = b_msg_flag s" "b_self_addr (store_rx_byte s v) = b_self_addr s"
  "b_busy (store_rx_byte s v) = b_busy s" "b_result_ready (store_rx_byte s v) = b_result_ready s"
  "b_last_result (store_rx_byte s v) = b_last_result s"
  by (simp_all add: store_rx_byte_def Let_def split: prod.split)

lemma store_byte_line: "fixed_part (store_rx_byte s v) = fixed_part s"
  by (auto simp: store_rx_byte_def fixed_part_def line_def Let_def split: prod.splits)

lemma header_two_bytes:
  assumes "has_header s" "byte_lo (load_view (b_header s)) = byte_lo h"
  shows "write_raw (b_header s) (set_byte_hi (load_view (b_header s)) (byte_hi h)) = write_raw (b_header s) h"
proof -
  have "set_byte_hi (load_view (b_header s)) (byte_hi h) = h" by (rule block_of_bytes) (simp_all add: assms(2))
  then show ?thesis by simp
qed

lemma receive_step:
  assumes "receiving a f k n i s" "i < 3 + 2 * n" "n < 32" "a < 32" "f \<in> {0, 1, 2, 3}" "frame_byte a f k n i b"
  shows "\<exists>s'. IBUS_EXCHANGE no_bus_hooks (Some b) s = (None, s') \<and> receiving a f k n (Suc i) s' \<and>
    fixed_part s' = fixed_part s \<and> b_busy s' = (b_busy s \<or> b_role s = bus_device \<and> i = 0) \<and>
    b_result_ready s' = b_result_ready s \<and> b_last_result s' = b_last_result s"
proof -
  let ?h = "hdr_make a f k (of_nat n)"
  let ?e = "rx_entry (b_writer_tick s) s"
  have s: "b_exchange_flag s = ex_rx" "has_header s" "b_wait_clock s < 10" using assms(1) by (simp_all add: receiving_def)
  have e: "b_exchange_flag ?e = ex_rx" "has_header ?e" "b_header ?e = b_header s" "b_sub_clock ?e = b_sub_clock s" "fixed_part ?e = fixed_part s"
    "b_busy ?e = b_busy s" "b_role ?e = b_role s" "b_self_addr ?e = b_self_addr s" "b_adr_flag ?e = b_adr_flag s"
    "b_msg_flag ?e = b_msg_flag s" "b_n_blocks ?e = b_n_blocks s" "b_rx_flag ?e = b_rx_flag s"
    "b_result_ready ?e = b_result_ready s" "b_last_result ?e = b_last_result s"
    using s by (simp_all add: entry_same has_header_def fixed_part_def line_def)
  consider "i = 0" | "i = 1" | "i = 2" | "3 \<le> i" by linarith
  then show ?thesis
  proof cases
    case 1
    then have b: "b = ARP_BUS_SOF" using assms(6) by (simp add: frame_byte_def)
    let ?s' = "IRX_SOF (Some ARP_BUS_SOF) ?e"
    have "IBUS_EXCHANGE no_bus_hooks (Some b) s = (None, ?s')" using assms(1) 1 by (simp add: rx_now [OF s(1,3)] receiving_def b)
    moreover have "fixed_part ?s' = fixed_part ?e" by (simp add: IRX_SOF_def fixed_part_def line_def Let_def)
    ultimately show ?thesis using e 1 by (auto simp: receiving_def IRX_SOF_def has_header_def Let_def)
  next
    case 2
    then have b: "b = byte_lo ?h" and r: "b_rx_flag s = rx_header" "b_sub_clock s = 0" using assms(1,6) by (simp_all add: frame_byte_def receiving_def)
    let ?s' = "IRX_HEADER no_bus_hooks (Some b) ?e"
    have t: "IBUS_EXCHANGE no_bus_hooks (Some b) s = (None, ?s')" by (simp add: rx_now [OF s(1,3)] r)
    have s': "?s' = ?e\<lparr>b_header := write_raw (b_header s) (set_byte_lo (load_view (b_header s)) b), b_sub_clock := 1, b_wait_clock := 0\<rparr>"
      using e r by (simp add: IRX_HEADER_def write_header_byte_def hdr_write_byte_def k_header_bytes_def)
    have "receiving a f k n (Suc i) ?s'"
      unfolding s' using e s 2 r b by (auto simp: receiving_def has_header_def)
    moreover have "fixed_part ?s' = fixed_part ?e" unfolding s' by (simp add: fixed_part_def line_def)
    ultimately show ?thesis using t e 2 by (simp add: s')
  next
    case 3
    then have b: "b = byte_hi ?h" and r: "b_rx_flag s = rx_header" "b_sub_clock s = 1" "byte_lo (load_view (b_header s)) = byte_lo ?h"
      using assms(1,6) by (simp_all add: frame_byte_def receiving_def)
    let ?s' = "IRX_HEADER no_bus_hooks (Some b) ?e"
    have t: "IBUS_EXCHANGE no_bus_hooks (Some b) s = (None, ?s')" by (simp add: rx_now [OF s(1,3)] r)
    have w: "write_raw (b_header s) (set_byte_hi (load_view (b_header s)) b) = write_raw (b_header s) ?h"
      unfolding b by (rule header_two_bytes [OF s(2) r(3)])
    have p: "parse_storage (write_raw (b_header s) ?h) = parse ?h" using s(2) by (auto simp: parse_storage_def read_raw_def has_header_def)
    have tb: "take_bit 5 a = a" "take_bit 2 f = f" "take_bit 5 (of_nat n :: u8) = of_nat n"
      using assms(5) addr_fits [OF assms(4)] take_bit_5_small [OF assms(3)] by auto
    have n0: "(0 :: u8) < of_nat n \<longleftrightarrow> 0 < n" using unat_small [OF assms(3)] by (simp add: word_less_nat_alt)
    have s': "?s' = ?e\<lparr>b_header := write_raw (b_header s) ?h, b_wait_clock := 0, b_adr_flag := (a = b_self_addr s),
        b_msg_flag := f, b_n_blocks := of_nat n, b_rx_flag := (if 0 < n then rx_data else rx_eof), b_sub_clock := 0\<rparr>"
      using e r
      by (simp add: IRX_HEADER_def write_header_byte_def hdr_write_byte_def k_header_bytes_def IBUS_PARSE_STD_HEADER_def w p parse_make tb n0 Let_def)
    have "receiving a f k n (Suc i) ?s'"
      unfolding s' using e s 3 by (auto simp: receiving_def has_header_def)
    moreover have "fixed_part ?s' = fixed_part ?e" unfolding s' by (simp add: fixed_part_def line_def)
    ultimately show ?thesis using t e 3 by (simp add: s')
  next
    case 4
    then obtain j where j: "i = j + 3" by (metis le_add_diff_inverse2)
    have r: "b_rx_flag s = rx_data" "b_sub_clock s = of_nat j" "b_n_blocks s = of_nat n" "b_adr_flag s = (a = b_self_addr s)" "b_msg_flag s = f"
      using assms(1,2) by (simp_all add: receiving_def j)
    let ?s' = "IRX_DATA (Some b) ?e"
    have t: "IBUS_EXCHANGE no_bus_hooks (Some b) s = (None, ?s')" by (simp add: rx_now [OF s(1,3)] r)
    define z where "z = store_rx_byte (?e\<lparr>b_wait_clock := 0\<rparr>) b"
    have z: "b_sub_clock z = of_nat j" "b_n_blocks z = of_nat n" "b_exchange_flag z = ex_rx" "b_header z = b_header s" "b_wait_clock z = 0"
      "b_adr_flag z = b_adr_flag s" "b_msg_flag z = f" "b_self_addr z = b_self_addr s" "b_rx_flag z = rx_data" "b_busy z = b_busy s"
      "b_result_ready z = b_result_ready s" "b_last_result z = b_last_result s"
      using e r s by (simp_all add: z_def store_byte_fields)
    have fz: "fixed_part z = fixed_part s" unfolding z_def store_byte_line using e(5) by (simp add: fixed_part_def line_def)
    have u: "unat (of_nat (Suc j) :: u16) = Suc j" by (rule unat_block_index [OF assms(3)]) (use assms(2) j in simp)
    have c: "of_nat j + 1 = (of_nat (Suc j) :: u16)" by simp
    have x: "expected_bytes (z\<lparr>b_sub_clock := y\<rparr>) = 2 * n" for y
      using z(2) unat_small [OF assms(3)] by (simp add: expected_bytes_def)
    have s': "?s' = (if Suc j \<ge> 2 * n then z\<lparr>b_sub_clock := of_nat (Suc j), b_rx_flag := rx_eof\<rparr> else z\<lparr>b_sub_clock := of_nat (Suc j)\<rparr>)"
      unfolding IRX_DATA_def option.case Let_def z_def [symmetric] z(1) c x bus_state.select_convs bus_state.update_convs by (simp add: u del: of_nat_Suc)
    have "receiving a f k n (Suc i) ?s'"
      unfolding s' using z s(2) r(4) assms(2) by (auto simp: receiving_def has_header_def j)
    moreover have "fixed_part ?s' = fixed_part z" unfolding s' by (simp add: fixed_part_def line_def)
    ultimately show ?thesis using t z fz j by (simp add: s')
  qed
qed

subsection \<open>The ends of frames, and waiting\<close>

definition default_layout :: "bus_state \<Rightarrow> bool" where
  "default_layout s \<longleftrightarrow> IBUS_RESET_FRAME_LAYOUT (fixed_part s) = fixed_part s"

lemma reset_fixed: "default_layout s \<Longrightarrow> fixed_part (reset_to_idle s) = fixed_part s"
proof -
  assume d: "default_layout s"
  have "fixed_part (reset_to_idle s) = IBUS_RESET_FRAME_LAYOUT (fixed_part s)"
    by (simp add: reset_to_idle_def IBUS_RESET_FRAME_LAYOUT_def fixed_part_def line_def)
  with d show ?thesis by (simp add: default_layout_def)
qed

lemma default_fixed: "fixed_part s' = fixed_part s \<Longrightarrow> default_layout s' = default_layout s"
  by (simp add: default_layout_def)

lemma reset_home: "home (reset_to_idle s)" "has_header (reset_to_idle s) = has_header s" "b_wait_clock (reset_to_idle s) = 0"
  "\<not> b_busy (reset_to_idle s)" "b_result_ready (reset_to_idle s) = b_result_ready s" "b_last_result (reset_to_idle s) = b_last_result s"
  "b_role (reset_to_idle s) = b_role s" "b_self_addr (reset_to_idle s) = b_self_addr s"
  by (simp_all add: reset_to_idle_def IBUS_RESET_FRAME_LAYOUT_def home_def has_header_def)

lemma request_end:
  assumes "receiving a f k n (3 + 2 * n) d" "b_role d = bus_device" "default_layout d" "f = ARP_FLAG_CMD_REQ \<or> f = ARP_FLAG_DATA_REQ"
  shows "\<exists>d'. IBUS_EXCHANGE no_bus_hooks (Some ARP_BUS_EOF) d = (None, d') \<and> fixed_part d' = fixed_part d \<and>
    (if a = b_self_addr d then sending (b_target_addr d) (f + 1) 0 (if f = ARP_FLAG_DATA_REQ then prm_frame_blocks d else 0) 0 d'
     else home d' \<and> has_header d' \<and> b_wait_clock d' = 0)"
proof -
  have d: "b_exchange_flag d = ex_rx" "has_header d" "b_wait_clock d < 10" "b_adr_flag d = (a = b_self_addr d)" "b_msg_flag d = f" "b_rx_flag d = rx_eof"
    using assms(1) by (simp_all add: receiving_def)
  have e: "rx_entry (b_writer_tick d) d = d" using assms(2) by (simp add: entry_same)
  have t: "IBUS_EXCHANGE no_bus_hooks (Some ARP_BUS_EOF) d = (None, IRX_EOF no_bus_hooks (Some ARP_BUS_EOF) d)"
    by (simp add: rx_now [OF d(1,3)] d(6) e)
  show ?thesis
  proof (cases "a = b_self_addr d")
    case False
    then show ?thesis unfolding t using d reset_fixed [OF assms(3)] by (simp add: IRX_EOF_def reset_home)
  next
    case True
    define r where "r = (if f = ARP_FLAG_CMD_REQ then merge_nonzero_cmd_fields d else d)"
    have x: "IRX_EOF no_bus_hooks (Some ARP_BUS_EOF) d = to_response r (f + 1)"
      using d True assms(4) by (auto simp: IRX_EOF_def r_def)
    have fr: "fixed_part r = fixed_part d" by (simp add: r_def merge_nonzero_cmd_fields_def fixed_part_def line_def)
    have "fixed_part (to_response r (f + 1)) = fixed_part r" by (simp add: to_response_def fixed_part_def line_def)
    then have fd: "fixed_part (to_response r (f + 1)) = fixed_part d" using fr by simp
    have h: "has_header (to_response r (f + 1))" using d(2) by (simp add: r_def to_response_def has_header_def)
    have p: "prm_frame_blocks (to_response r (f + 1)) = prm_frame_blocks d" by (simp add: prm_frame_blocks_def fixed_fields [OF fd])
    have "calc_nblocks (to_response r (f + 1)) = of_nat (if f = ARP_FLAG_DATA_REQ then prm_frame_blocks d else 0)"
      unfolding calc_nblocks_def p using assms(4) by (auto simp: to_response_def)
    then have "sending (b_target_addr d) (f + 1) 0 (if f = ARP_FLAG_DATA_REQ then prm_frame_blocks d else 0) 0 (to_response r (f + 1))"
      unfolding sending_def using h fixed_fields(3) [OF fd] by (simp add: to_response_def)
    then show ?thesis unfolding t x using fd True by simp
  qed
qed

lemma response_end:
  assumes "receiving a f k n (3 + 2 * n) m" "b_role m = bus_master" "a = b_self_addr m" "f = ARP_FLAG_CMD_RESP \<or> f = ARP_FLAG_DATA_RESP"
  shows "\<exists>m'. IBUS_EXCHANGE no_bus_hooks (Some ARP_BUS_EOF) m = (None, m') \<and> home m' \<and> has_header m' \<and> \<not> b_busy m' \<and>
    b_role m' = bus_master \<and> b_self_addr m' = b_self_addr m \<and> b_result_ready m' \<and> b_last_result m' = res_success"
proof -
  have m: "b_exchange_flag m = ex_rx" "has_header m" "b_wait_clock m < 10" "b_adr_flag m" "b_msg_flag m = f" "b_rx_flag m = rx_eof"
    using assms(1,3) by (simp_all add: receiving_def)
  let ?e = "rx_entry (b_writer_tick m) m"
  have t: "IBUS_EXCHANGE no_bus_hooks (Some ARP_BUS_EOF) m = (None, IRX_EOF no_bus_hooks (Some ARP_BUS_EOF) ?e)"
    by (simp add: rx_now [OF m(1,3)] m(6))
  obtain z where x: "IRX_EOF no_bus_hooks (Some ARP_BUS_EOF) ?e = reset_to_idle (mark_result z res_success)"
    and z: "has_header z" "b_role z = bus_master" "b_self_addr z = b_self_addr m"
  proof -
    have "b_adr_flag ?e" "b_msg_flag ?e = f" "b_role ?e = bus_master" "has_header ?e" "b_self_addr ?e = b_self_addr m"
      using m assms(2) by (simp_all add: entry_same has_header_def)
    then show thesis using assms(4) that
      by (elim disjE) (simp_all add: IRX_EOF_def has_header_def)
  qed
  have "has_header (mark_result z res_success)" "b_role (mark_result z res_success) = bus_master"
    "b_self_addr (mark_result z res_success) = b_self_addr m" using z by (simp_all add: mark_result_def has_header_def)
  then show ?thesis unfolding t x by (simp add: reset_home) (simp add: mark_result_def)
qed

lemma home_step:
  assumes "home s" "\<not> (b_role s = bus_master \<and> b_busy s)" "rx \<noteq> Some ARP_BUS_SOF"
  shows "IBUS_EXCHANGE no_bus_hooks rx s = (None, s)"
  using assms by (auto simp: home_def IBUS_EXCHANGE_def IBUS_RX_EXCHANGE_def IRX_SOF_def Let_def)

lemma listen_step:
  assumes "home s" "b_role s = bus_master" "b_busy s" "rx \<noteq> Some ARP_BUS_SOF" "b_wait_clock s < 10"
  shows "IBUS_EXCHANGE no_bus_hooks rx s = (None, s\<lparr>b_wait_clock := b_wait_clock s + 1\<rparr>)"
  using assms rx_now [of s rx] by (simp add: home_def IRX_SOF_def entry_same)

lemma listen_timeout:
  assumes "home s" "b_role s = bus_master" "b_busy s" "b_wait_clock s = 10"
  shows "\<exists>s'. IBUS_EXCHANGE no_bus_hooks rx s = (None, s') \<and> home s' \<and> has_header s' = has_header s \<and> \<not> b_busy s' \<and>
    b_role s' = bus_master \<and> b_self_addr s' = b_self_addr s \<and> b_result_ready s' \<and> b_last_result s' = res_timeout"
proof -
  have "IBUS_EXCHANGE no_bus_hooks rx s = (None, reset_to_idle (mark_result (s\<lparr>b_wait_clock := 11\<rparr>) res_timeout))"
    using assms by (simp add: home_def IBUS_EXCHANGE_def IBUS_RX_EXCHANGE_def Let_def)
  moreover have "has_header (mark_result (s\<lparr>b_wait_clock := 11\<rparr>) res_timeout) = has_header s" by (simp add: mark_result_def has_header_def)
  ultimately show ?thesis using assms(2) by (simp add: reset_home) (simp add: mark_result_def)
qed

subsection \<open>The phases\<close>

text \<open>
  Between two ticks the pair is at rest; or the master has sent \<open>i\<close> bytes of a request to address \<open>a\<close>
  with flag \<open>f\<close> and \<open>n\<close> blocks, which the device follows a byte behind; or the device has sent \<open>i\<close> bytes
  of the answer; or the master has waited \<open>w\<close> ticks for an answer that will not come.
\<close>

datatype phase = Rest | Asking u8 u8 nat nat | Answering u8 nat nat | Unanswered nat

definition on_wire :: "u8 \<Rightarrow> u8 \<Rightarrow> u8 \<Rightarrow> nat \<Rightarrow> nat \<Rightarrow> u8 option \<Rightarrow> bus_state \<Rightarrow> bus_state \<Rightarrow> bool" where
  "on_wire a f k n i c from to \<longleftrightarrow> (if i = 0 then c = None else \<exists>b. c = Some b \<and> frame_byte a f k n (i - 1) b \<and> receiving a f k n (i - 1) to) \<and>
     (i < 4 + 2 * n \<longrightarrow> sending a f k n i from)"

text \<open>A master with address \<open>A\<close> and a device that has address \<open>D\<close>, answers to \<open>A\<close>, and sends \<open>R\<close> blocks of data.\<close>

definition paired :: "u8 \<Rightarrow> u8 \<Rightarrow> nat \<Rightarrow> bus_state \<Rightarrow> bus_state \<Rightarrow> bool" where
  "paired A D R m d \<longleftrightarrow> b_role m = bus_master \<and> b_self_addr m = A \<and> has_header m \<and> A < 32 \<and> R < 32 \<and>
     b_role d = bus_device \<and> b_self_addr d = D \<and> b_target_addr d = A \<and> prm_frame_blocks d = R \<and> default_layout d \<and> has_header d"

definition at_home :: "bus_state \<Rightarrow> bool" where
  "at_home s \<longleftrightarrow> home s \<and> b_wait_clock s = 0"

fun talk :: "phase \<Rightarrow> u8 \<Rightarrow> nat \<Rightarrow> u8 option \<Rightarrow> bus_state \<Rightarrow> bus_state \<Rightarrow> bool" where
  "talk Rest A R c m d = (c = None \<and> home m \<and> \<not> b_busy m \<and> at_home d)"
| "talk (Asking a f n i) A R c m d = (a < 32 \<and> n < 32 \<and> (f = ARP_FLAG_CMD_REQ \<or> f = ARP_FLAG_DATA_REQ) \<and> i \<le> 4 + 2 * n \<and> b_busy m \<and>
     (i = 0 \<longrightarrow> at_home d) \<and> (i = 4 + 2 * n \<longrightarrow> at_home m) \<and> (\<exists>k. on_wire a f k n i c m d))"
| "talk (Answering f n i) A R c m d = ((f = ARP_FLAG_CMD_RESP \<and> n = 0 \<or> f = ARP_FLAG_DATA_RESP \<and> n = R) \<and> i \<le> 4 + 2 * n \<and> b_busy m \<and>
     (i = 0 \<longrightarrow> home m \<and> b_wait_clock m = 1) \<and> (i = 4 + 2 * n \<longrightarrow> at_home d) \<and> (\<exists>k. on_wire A f k n i c d m))"
| "talk (Unanswered w) A R c m d = (1 \<le> w \<and> w \<le> 10 \<and> b_busy m \<and> home m \<and> b_wait_clock m = of_nat w \<and> c = None \<and> at_home d)"

fun next_phase :: "u8 \<Rightarrow> nat \<Rightarrow> phase \<Rightarrow> phase" where
  "next_phase D R Rest = Rest"
| "next_phase D R (Asking a f n i) = (if i < 4 + 2 * n then Asking a f n (Suc i)
     else if a = D then Answering (f + 1) (if f = ARP_FLAG_DATA_REQ then R else 0) 0 else Unanswered 1)"
| "next_phase D R (Answering f n i) = (if i < 4 + 2 * n then Answering f n (Suc i) else Rest)"
| "next_phase D R (Unanswered w) = (if w < 10 then Unanswered (Suc w) else Rest)"

text \<open>The ticks until the pair is at rest, and how the request ends.\<close>

fun ticks_left :: "u8 \<Rightarrow> nat \<Rightarrow> phase \<Rightarrow> nat" where
  "ticks_left D R Rest = 0"
| "ticks_left D R (Asking a f n i) = (4 + 2 * n - i) + 1 + (if a = D then 5 + 2 * (if f = ARP_FLAG_DATA_REQ then R else 0) else 10)"
| "ticks_left D R (Answering f n i) = 5 + 2 * n - i"
| "ticks_left D R (Unanswered w) = 11 - w"

fun outcome :: "u8 \<Rightarrow> phase \<Rightarrow> exchange_result_t" where
  "outcome D Rest = res_none"
| "outcome D (Asking a f n i) = (if a = D then res_success else res_timeout)"
| "outcome D (Answering f n i) = res_success"
| "outcome D (Unanswered w) = res_timeout"

definition link :: "u8 \<Rightarrow> u8 \<Rightarrow> nat \<Rightarrow> phase \<Rightarrow> u8 option \<times> bus_state \<times> bus_state \<Rightarrow> bool" where
  "link A D R ph = (\<lambda>(c, m, d). paired A D R m d \<and> talk ph A R c m d)"

lemma line_eqs:
  assumes "line s' = line s"
  shows "b_exchange_flag s' = b_exchange_flag s" "b_rx_flag s' = b_rx_flag s" "b_tx_flag s' = b_tx_flag s"
    "b_adr_flag s' = b_adr_flag s" "b_n_blocks s' = b_n_blocks s" "b_msg_flag s' = b_msg_flag s" "b_sub_clock s' = b_sub_clock s"
    "b_wait_clock s' = b_wait_clock s" "b_busy s' = b_busy s" "b_header s' = b_header s" "b_result_ready s' = b_result_ready s"
    "b_last_result s' = b_last_result s"
  using arg_cong [OF assms, of b_exchange_flag] arg_cong [OF assms, of b_rx_flag] arg_cong [OF assms, of b_tx_flag]
    arg_cong [OF assms, of b_adr_flag] arg_cong [OF assms, of b_n_blocks] arg_cong [OF assms, of b_msg_flag]
    arg_cong [OF assms, of b_sub_clock] arg_cong [OF assms, of b_wait_clock] arg_cong [OF assms, of b_busy]
    arg_cong [OF assms, of b_header] arg_cong [OF assms, of b_result_ready] arg_cong [OF assms, of b_last_result]
  by (simp_all add: line_def)

lemma line_views:
  assumes "line s' = line s"
  shows "home s' = home s" "at_home s' = at_home s" "has_header s' = has_header s" "sending a f k n i s' = sending a f k n i s"
    "receiving a f k n i s' = receiving a f k n i s" "default_layout s' = default_layout s" "prm_frame_blocks s' = prm_frame_blocks s"
proof -
  note l = line_eqs [OF assms] fixed_fields [OF line_fixed [OF assms]] and c = calc_fixed [OF line_fixed [OF assms] line_eqs(6) [OF assms]]
  show "home s' = home s" "at_home s' = at_home s" "has_header s' = has_header s" by (simp_all only: home_def at_home_def has_header_def l)
  show "sending a f k n i s' = sending a f k n i s" by (simp only: sending_def has_header_def l c)
  show "receiving a f k n i s' = receiving a f k n i s" by (simp only: receiving_def has_header_def l)
  show "default_layout s' = default_layout s" by (rule default_fixed [OF line_fixed [OF assms]])
  show "prm_frame_blocks s' = prm_frame_blocks s" by (simp only: prm_frame_blocks_def l)
qed

text \<open>Changes of the message arrays do not disturb the conversation.\<close>

lemma link_line:
  assumes "line m' = line m" "line d' = line d"
  shows "link A D R ph (c, m', d') = link A D R ph (c, m, d)"
proof -
  note l = line_views [OF assms(1)] line_views [OF assms(2)] line_eqs [OF assms(1)] line_eqs [OF assms(2)]
    fixed_fields [OF line_fixed [OF assms(1)]] fixed_fields [OF line_fixed [OF assms(2)]]
  have p: "paired A D R m' d' = paired A D R m d" by (simp only: paired_def l)
  have o: "on_wire a f k n i c m' d' = on_wire a f k n i c m d" "on_wire a f k n i c d' m' = on_wire a f k n i c d m" for a f k n i
    by (simp_all only: on_wire_def l)
  have "talk ph A R c m' d' = talk ph A R c m d" by (cases ph) (simp_all only: talk.simps l o)
  with p show ?thesis by (simp add: link_def)
qed

lemma receiving_any_key: "receiving a f k n i s \<Longrightarrow> i \<le> 1 \<Longrightarrow> receiving a f k' n i s"
  by (auto simp: receiving_def)

lemma line_has_header: "sending a f k n i s \<Longrightarrow> has_header s" "receiving a f k n i s \<Longrightarrow> has_header s"
  by (simp_all add: sending_def receiving_def)

text \<open>One byte goes from the sender to the receiver while the sender puts the next one on the wire.\<close>

lemma wire_byte:
  assumes "on_wire a f k n i c x y" "1 \<le> i" "i < 4 + 2 * n" "n < 32" "a < 32" "f \<in> {0, 1, 2, 3}"
    and "f = ARP_FLAG_CMD_REQ \<or> f = ARP_FLAG_DATA_REQ \<or> b_role x = bus_device"
  shows "\<exists>k' b x' y'. IBUS_EXCHANGE no_bus_hooks c x = (Some b, x') \<and> IBUS_EXCHANGE no_bus_hooks c y = (None, y') \<and>
    on_wire a f k' n (Suc i) (Some b) x' y' \<and> (Suc i = 4 + 2 * n \<longrightarrow> at_home x') \<and> fixed_part x' = fixed_part x \<and>
    fixed_part y' = fixed_part y \<and> has_header x' \<and> has_header y' \<and> (b_role x = bus_master \<and> b_busy x \<longrightarrow> b_busy x') \<and> (b_busy y \<longrightarrow> b_busy y')"
proof -
  obtain j where j: "i = Suc j" using assms(2) by (cases i) auto
  obtain b where b: "c = Some b" "frame_byte a f k n j b" "receiving a f k n j y" and s: "sending a f k n i x"
    using assms(1,3) by (auto simp: on_wire_def j)
  have jl: "j < 3 + 2 * n" using assms(3) by (simp add: j)
  obtain y' where y': "IBUS_EXCHANGE no_bus_hooks c y = (None, y')" "receiving a f k n i y'" "fixed_part y' = fixed_part y"
    "b_busy y \<longrightarrow> b_busy y'"
    using receive_step [OF b(3) jl assms(4-6) b(2)] unfolding b(1) j by blast
  show ?thesis
  proof (cases "i < 3 + 2 * n")
    case True
    obtain k' v x' where x': "IBUS_EXCHANGE no_bus_hooks c x = (Some v, x')" "frame_byte a f k' n i v" "sending a f k' n (Suc i) x'"
      "2 \<le> i \<longrightarrow> k' = k" "fixed_part x' = fixed_part x" "b_busy x' = (b_busy x \<or> b_role x = bus_master \<and> i = 0)"
      using send_step [OF s True assms(4)] by blast
    have "receiving a f k' n i y'"
    proof (cases "2 \<le> i")
      case True
      then show ?thesis using x'(4) y'(2) by simp
    next
      case False
      then show ?thesis using receiving_any_key [OF y'(2)] by simp
    qed
    then have "on_wire a f k' n (Suc i) (Some v) x' y'" using x'(2,3) by (simp add: on_wire_def)
    with x' y' True line_has_header(1) [OF x'(3)] line_has_header(2) [OF y'(2)] show ?thesis by fastforce
  next
    case False
    then have i: "i = 3 + 2 * n" using assms(3) by simp
    obtain x' where x': "IBUS_EXCHANGE no_bus_hooks c x = (Some ARP_BUS_EOF, x')" "home x'" "has_header x'" "b_wait_clock x' = 0"
      "fixed_part x' = fixed_part x" "b_busy x' = (b_busy x \<and> b_role x = bus_master)"
      using send_last [OF s [unfolded i] assms(7)] by blast
    have "frame_byte a f k n i ARP_BUS_EOF" by (simp add: frame_byte_def i)
    then have "on_wire a f k n (Suc i) (Some ARP_BUS_EOF) x' y'" using y'(2) i by (simp add: on_wire_def)
    with x' y' line_has_header(2) [OF y'(2)] show ?thesis by (fastforce simp: at_home_def)
  qed
qed

lemma paired_keep:
  assumes "paired A D R m d" "fixed_part m' = fixed_part m" "fixed_part d' = fixed_part d" "has_header m'" "has_header d'"
  shows "paired A D R m' d'"
proof -
  have "prm_frame_blocks d' = prm_frame_blocks d" by (simp add: prm_frame_blocks_def fixed_fields [OF assms(3)])
  then show ?thesis
    using assms(1,4,5) by (simp add: paired_def fixed_fields(1,2) [OF assms(2)] fixed_fields(1-3) [OF assms(3)] default_fixed [OF assms(3)])
qed

lemma link_step:
  assumes "link A D R ph (c, m, d)" "ph \<noteq> Rest"
  shows "\<exists>om od m' d'. IBUS_EXCHANGE no_bus_hooks c m = (om, m') \<and> IBUS_EXCHANGE no_bus_hooks c d = (od, d') \<and>
    link A D R (next_phase D R ph) (last_of om od, m', d') \<and> (om = None \<or> od = None) \<and>
    (next_phase D R ph = Rest \<longrightarrow> b_result_ready m' \<and> b_last_result m' = outcome D ph)"
proof (cases ph)
  case Rest
  then show ?thesis using assms(2) by simp
next
  case (Asking a f n i)
  note p = assms(1) [unfolded link_def Asking, simplified]
  have pd: "paired A D R m d" "a < 32" "n < 32" "f = ARP_FLAG_CMD_REQ \<or> f = ARP_FLAG_DATA_REQ" "i \<le> 4 + 2 * n" "b_busy m"
    using p by simp_all
  have f4: "f \<in> {0, 1, 2, 3}" using pd(4) by auto
  obtain k where k: "on_wire a f k n i c m d" using p by blast
  consider "i = 0" | "1 \<le> i" "i < 4 + 2 * n" | "i = 4 + 2 * n" using pd(5) by linarith
  then show ?thesis
  proof cases
    case 1
    then have h: "c = None" "at_home d" "sending a f k n 0 m" using k p by (simp_all add: on_wire_def)
    obtain k' b m' where m': "IBUS_EXCHANGE no_bus_hooks c m = (Some b, m')" "frame_byte a f k' n 0 b" "sending a f k' n (Suc 0) m'"
      "fixed_part m' = fixed_part m" "b_busy m'"
      using send_step [OF h(3), of c] pd(3,6) by auto
    have d': "IBUS_EXCHANGE no_bus_hooks c d = (None, d)" using home_step [of d c] h(1,2) pd(1) by (simp add: at_home_def paired_def)
    have "receiving a f k' n 0 d" using h(2) pd(1) by (simp add: receiving_def at_home_def home_def paired_def)
    then have "on_wire a f k' n (Suc 0) (Some b) m' d" using m'(2,3) by (simp add: on_wire_def)
    moreover have "paired A D R m' d" using paired_keep [OF pd(1) m'(4) refl line_has_header(1) [OF m'(3)]] pd(1) by (simp add: paired_def)
    ultimately have "link A D R (Asking a f n (Suc 0)) (last_of (Some b) None, m', d)"
      using pd m'(5) by (auto simp: link_def last_of_def)
    then show ?thesis using m'(1) d' 1 Asking by simp
  next
    case 2
    obtain k' b m' d' where w: "IBUS_EXCHANGE no_bus_hooks c m = (Some b, m')" "IBUS_EXCHANGE no_bus_hooks c d = (None, d')"
      "on_wire a f k' n (Suc i) (Some b) m' d'" "Suc i = 4 + 2 * n \<longrightarrow> at_home m'" "fixed_part m' = fixed_part m"
      "fixed_part d' = fixed_part d" "has_header m'" "has_header d'" "b_busy m'"
      using wire_byte [OF k 2 pd(3,2) f4] pd(1,4,6) by (auto simp: paired_def)
    have "link A D R (Asking a f n (Suc i)) (last_of (Some b) None, m', d')"
      using pd w paired_keep [OF pd(1) w(5-8)] 2 by (auto simp: link_def last_of_def)
    then show ?thesis using w(1,2) 2 Asking by simp
  next
    case 3
    obtain b where b: "c = Some ARP_BUS_EOF" "receiving a f k n (3 + 2 * n) d" using k by (auto simp: on_wire_def 3 frame_byte_def)
    have hm: "home m" "b_wait_clock m = 0" "b_role m = bus_master" "has_header m" using p 3 by (simp_all add: at_home_def paired_def)
    define m' where "m' = m\<lparr>b_wait_clock := 1\<rparr>"
    have m': "IBUS_EXCHANGE no_bus_hooks c m = (None, m')" using listen_step [OF hm(1,3) pd(6), of c] hm(2) by (simp add: b(1) m'_def)
    have mp: "fixed_part m' = fixed_part m" "has_header m'" "home m'" "b_busy m'" "b_wait_clock m' = 1"
      using hm pd(6) by (simp_all add: m'_def fixed_part_def line_def has_header_def home_def)
    have dd: "b_role d = bus_device" "default_layout d" "b_self_addr d = D" "b_target_addr d = A" "prm_frame_blocks d = R" using pd(1) by (simp_all add: paired_def)
    obtain d' where d': "IBUS_EXCHANGE no_bus_hooks (Some ARP_BUS_EOF) d = (None, d')" "fixed_part d' = fixed_part d"
      "if a = D then sending A (f + 1) 0 (if f = ARP_FLAG_DATA_REQ then R else 0) 0 d' else home d' \<and> has_header d' \<and> b_wait_clock d' = 0"
      using request_end [OF b(2) dd(1,2) pd(4)] unfolding dd by blast
    have hd: "has_header d'" using d'(3) line_has_header(1) by (cases "a = D") auto
    have pr: "paired A D R m' d'" by (rule paired_keep [OF pd(1) mp(1) d'(2) mp(2) hd])
    have "link A D R (next_phase D R ph) (last_of None None, m', d')"
    proof (cases "a = D")
      case True
      then have "sending A (f + 1) 0 (if f = ARP_FLAG_DATA_REQ then R else 0) 0 d'" using d'(3) by simp
      then have "on_wire A (f + 1) 0 (if f = ARP_FLAG_DATA_REQ then R else 0) 0 None d' m'" by (simp add: on_wire_def)
      then show ?thesis using True pr mp pd(4) Asking 3 by (auto simp: link_def last_of_def)
    next
      case False
      then show ?thesis using d'(3) pr mp Asking 3 by (simp add: link_def last_of_def at_home_def)
    qed
    then show ?thesis using m' d'(1) Asking 3 by (auto simp: b(1))
  qed
next
  case (Answering f n i)
  note p = assms(1) [unfolded link_def Answering, simplified]
  have pd: "paired A D R m d" "f = ARP_FLAG_CMD_RESP \<and> n = 0 \<or> f = ARP_FLAG_DATA_RESP \<and> n = R" "i \<le> 4 + 2 * n" "b_busy m"
    using p by simp_all
  have A: "A < 32" "n < 32" using pd(1,2) by (auto simp: paired_def)
  have f4: "f \<in> {0, 1, 2, 3}" using pd(2) by auto
  have rl: "b_role m = bus_master" "b_role d = bus_device" "b_self_addr m = A" "has_header d" "has_header m" using pd(1) by (simp_all add: paired_def)
  obtain k where k: "on_wire A f k n i c d m" using p by blast
  consider "i = 0" | "1 \<le> i" "i < 4 + 2 * n" | "i = 4 + 2 * n" using pd(3) by linarith
  then show ?thesis
  proof cases
    case 1
    then have h: "c = None" "home m" "b_wait_clock m = 1" "sending A f k n 0 d" using k p by (simp_all add: on_wire_def)
    obtain k' b d' where d': "IBUS_EXCHANGE no_bus_hooks c d = (Some b, d')" "frame_byte A f k' n 0 b" "sending A f k' n (Suc 0) d'"
      "fixed_part d' = fixed_part d"
      using send_step [OF h(4), of c] A(2) by auto
    define m' where "m' = m\<lparr>b_wait_clock := 2\<rparr>"
    have m': "IBUS_EXCHANGE no_bus_hooks c m = (None, m')" using listen_step [OF h(2) rl(1) pd(4), of c] h(1,3) by (simp add: m'_def)
    have mp: "fixed_part m' = fixed_part m" "has_header m'" "home m'" "b_busy m'" "b_wait_clock m' = 2"
      using h rl pd(4) by (simp_all add: m'_def fixed_part_def line_def has_header_def home_def)
    have "receiving A f k' n 0 m'" using mp by (simp add: receiving_def home_def)
    then have "on_wire A f k' n (Suc 0) (Some b) d' m'" using d'(2,3) by (simp add: on_wire_def)
    then have "link A D R (Answering f n (Suc 0)) (last_of None (Some b), m', d')"
      using pd mp(4) paired_keep [OF pd(1) mp(1) d'(4) mp(2) line_has_header(1) [OF d'(3)]] by (auto simp: link_def last_of_def)
    then show ?thesis using m' d'(1) 1 Answering by simp
  next
    case 2
    obtain k' b m' d' where w: "IBUS_EXCHANGE no_bus_hooks c d = (Some b, d')" "IBUS_EXCHANGE no_bus_hooks c m = (None, m')"
      "on_wire A f k' n (Suc i) (Some b) d' m'" "Suc i = 4 + 2 * n \<longrightarrow> at_home d'" "fixed_part d' = fixed_part d"
      "fixed_part m' = fixed_part m" "has_header d'" "has_header m'" "b_busy m'"
      using wire_byte [OF k 2 A(2,1) f4] rl(2) pd(4) by auto
    have "link A D R (Answering f n (Suc i)) (last_of None (Some b), m', d')"
      using pd w paired_keep [OF pd(1) w(6,5,8,7)] 2 by (auto simp: link_def last_of_def)
    then show ?thesis using w(1,2) 2 Answering by simp
  next
    case 3
    then have b: "c = Some ARP_BUS_EOF" "receiving A f k n (3 + 2 * n) m" using k by (auto simp: on_wire_def frame_byte_def)
    obtain m' where m': "IBUS_EXCHANGE no_bus_hooks (Some ARP_BUS_EOF) m = (None, m')" "home m'" "has_header m'" "\<not> b_busy m'"
      "b_role m' = bus_master" "b_self_addr m' = b_self_addr m" "b_result_ready m'" "b_last_result m' = res_success"
      using response_end [OF b(2) rl(1) rl(3) [symmetric]] pd(2) by blast
    have d': "IBUS_EXCHANGE no_bus_hooks c d = (None, d)" using home_step [of d c] p 3 rl(2) by (simp add: at_home_def b(1))
    have "paired A D R m' d" using pd(1) m'(3,5,6) by (simp add: paired_def)
    then have "link A D R Rest (last_of None None, m', d)" using m' p 3 by (simp add: link_def last_of_def)
    then show ?thesis using m' d' 3 Answering b(1) by simp
  qed
next
  case (Unanswered w)
  note p = assms(1) [unfolded link_def Unanswered, simplified]
  have rl: "b_role m = bus_master" "b_role d = bus_device" "has_header m" using p by (simp_all add: paired_def)
  have d': "IBUS_EXCHANGE no_bus_hooks c d = (None, d)" using home_step [of d c] p rl(2) by (simp add: at_home_def)
  show ?thesis
  proof (cases "w < 10")
    case True
    define m' where "m' = m\<lparr>b_wait_clock := of_nat (Suc w)\<rparr>"
    have lt: "(of_nat w :: u16) < 10" using True unat_block_index [of 10 w] by (simp add: word_less_nat_alt)
    have m': "IBUS_EXCHANGE no_bus_hooks c m = (None, m')"
      using listen_step [of m c] p rl lt by (simp add: m'_def add.commute)
    have mp: "fixed_part m' = fixed_part m" "has_header m'" "home m'" "b_busy m'" "b_wait_clock m' = of_nat (Suc w)"
      using p rl by (simp_all add: m'_def fixed_part_def line_def has_header_def home_def)
    have hd: "has_header d" using p by (simp add: paired_def)
    have "link A D R (Unanswered (Suc w)) (last_of None None, m', d)"
      using p mp True paired_keep [OF _ mp(1) refl mp(2) hd] by (simp add: link_def last_of_def)
    then show ?thesis using m' d' True Unanswered by simp
  next
    case False
    then have w: "w = 10" using p by simp
    obtain m' where m': "IBUS_EXCHANGE no_bus_hooks c m = (None, m')" "home m'" "has_header m' = has_header m" "\<not> b_busy m'"
      "b_role m' = bus_master" "b_self_addr m' = b_self_addr m" "b_result_ready m'" "b_last_result m' = res_timeout"
      using listen_timeout [of m c] p rl by (auto simp: w)
    have "link A D R Rest (last_of None None, m', d)" using p m' by (simp add: link_def paired_def last_of_def)
    then show ?thesis using m' d' w Unanswered by simp
  qed
qed

end
