(* ===== verification/PssLoop.thy ===== *)
theory PssLoop
  imports PssRun Conversation
begin

text \<open>
  The power system node with the model of its hardware: the two threads share the variables, the node
  runs its ticks and the model its steps (\<open>pss_worker_loop\<close> and \<open>pss_sim_worker_loop\<close> of
  \<open>sim_operator.cpp\<close>). The model keeps every variable finite and small, so the node can always convert
  it: what \<open>PssRun\<close> asks of the changes of the variables holds for the changes that the model makes.
\<close>

subsection \<open>Small values of \<open>float\<close>\<close>

lemma rnd_f32_grid: "\<exists>k e. rnd f32 x = of_int k * 2 powi e \<and> \<bar>k\<bar> \<le> 2 ^ 24 \<and> - 149 \<le> e"
proof (cases "x = 0")
  case True
  then show ?thesis by (intro exI [of _ 0]) simp
next
  case False
  define e where "e = max (ratexp x) (- 126) - 23"
  have q: "fquantum f32 x = 2 powi e" by (simp add: fquantum_def f32_def e_def)
  have "\<bar>x\<bar> < 2 powi (ratexp x + 1)" by (rule ratexp_bounds(2) [OF False])
  also have "\<dots> \<le> 2 powi (24 + e)" by (rule powi_2_mono) (simp add: e_def)
  finally have "\<bar>x\<bar> \<le> 2 ^ 24 * 2 powi e" by (simp add: powi_2_add)
  then have "x \<le> 2 ^ 24 * 2 powi e" "- (2 ^ 24 * 2 powi e) \<le> x" by (simp_all only: abs_le_iff) linarith+
  then have "x / 2 powi e \<le> of_int (2 ^ 24)" "of_int (- (2 ^ 24)) \<le> x / 2 powi e"
    by (simp_all add: pos_divide_le_eq pos_le_divide_eq)
  then have "\<bar>rne (x / 2 powi e)\<bar> \<le> 2 ^ 24" using rne_le [of "x / 2 powi e" "2 ^ 24"] rne_ge [of "- (2 ^ 24)" "x / 2 powi e"] by (simp add: abs_le_iff)
  moreover have "rnd f32 x = of_int (rne (x / 2 powi e)) * 2 powi e" using False by (simp add: rnd_def q)
  ultimately show ?thesis by (intro exI [of _ "rne (x / 2 powi e)"] exI [of _ e]) (simp add: e_def)
qed

lemma grid_exact:
  assumes "x = of_int k * 2 powi e" "\<bar>k\<bar> \<le> 2 ^ 24" "- 149 \<le> e" "f = f32 \<or> f = f64"
  shows "rnd f x = x"
proof (cases "\<bar>k\<bar> = 2 ^ 24")
  case True
  then have "k = sgn k * 2 ^ 24" using mult_sgn_abs [of k] by simp
  then have "(of_int k :: rat) = of_int (sgn k) * 2 ^ 24" by (metis of_int_mult of_int_numeral of_int_power)
  then have "x = of_int (sgn k) * 2 powi (24 + e)" using assms(1) by (simp add: powi_2_add)
  then show ?thesis by (rule rnd_exact) (use assms(3,4) in \<open>auto simp: f32_def f64_def abs_sgn_eq\<close>)
next
  case False
  then show ?thesis by (intro rnd_exact [OF assms(1)]) (use assms(2-4) in \<open>auto simp: f32_def f64_def\<close>)
qed

lemma below_max: "\<bar>x\<bar> \<le> 2 ^ 60 \<Longrightarrow> f = f32 \<or> f = f64 \<Longrightarrow> \<bar>x :: rat\<bar> < 2 powi (femax f + 1)"
proof -
  assume a: "\<bar>x\<bar> \<le> 2 ^ 60" "f = f32 \<or> f = f64"
  have "(2::rat) powi 60 < 2 powi 61" by (simp add: power_int_def)
  also have "\<dots> \<le> 2 powi (femax f + 1)" using a(2) by (intro powi_2_mono) (auto simp: f32_def f64_def)
  finally show ?thesis using a(1) by (simp add: power_int_def)
qed

lemma f32_exact_f64:
  assumes "exact_in f32 x" "\<bar>x\<bar> \<le> 2 ^ 60"
  shows "exact_in f64 x"
proof -
  have "rnd f32 x = x" using assms(1) by (auto simp: exact_in_def to_fp_def Let_def split: if_splits)
  then have "rnd f64 x = x" using rnd_f32_grid [of x] grid_exact [of x _ _ f64] by metis
  then show ?thesis using to_fp_in_range [of f64 x] below_max [OF assms(2), of f64] by (simp add: exact_in_def)
qed

text \<open>A finite value of magnitude at most \<open>2 ^ n\<close>.\<close>

definition small :: "nat \<Rightarrow> fp \<Rightarrow> bool" where
  "small n v \<longleftrightarrow> (case v of Fin x \<Rightarrow> exact_in f32 x \<and> \<bar>x\<bar> \<le> 2 ^ n | _ \<Rightarrow> False)"

lemma smallE:
  assumes "small n v"
  obtains x where "v = Fin x" "exact_in f32 x" "\<bar>x\<bar> \<le> 2 ^ n"
  using assms by (auto simp: small_def split: fp.splits)

lemma small_mono: "small n v \<Longrightarrow> n \<le> m \<Longrightarrow> small m v"
  using power_increasing [of n m "2 :: rat"] by (auto simp: small_def split: fp.splits intro: order_trans)

lemma pow_60: "n \<le> 60 \<Longrightarrow> (2 :: rat) ^ n \<le> 2 ^ 60"
  by (rule power_increasing) simp_all

lemma small_to_fp:
  assumes "\<bar>x\<bar> \<le> 2 ^ n" "n \<le> 60"
  shows "small n (to_fp f32 x)"
proof -
  have "rnd f32 (2 ^ n) = 2 ^ n" by (rule rnd_exact [where k = 1 and e = "int n"]) (simp_all add: f32_def power_int_def)
  then have r: "\<bar>rnd f32 x\<bar> \<le> 2 ^ n" using rnd_mono [of "\<bar>x\<bar>" "2 ^ n" f32] assms(1) by (simp add: rnd_abs f32_def)
  also have "\<dots> \<le> 2 ^ 60" by (rule pow_60 [OF assms(2)])
  finally have l: "\<bar>rnd f32 x\<bar> < 2 powi (femax f32 + 1)" by (rule below_max) simp
  have "rnd f32 (rnd f32 x) = rnd f32 x" using rnd_f32_grid [of x] grid_exact [of "rnd f32 x" _ _ f32] by metis
  then show ?thesis using l r by (simp add: small_def to_fp_in_range exact_in_def)
qed

lemma small_int: "\<bar>k\<bar> \<le> 2 ^ n \<Longrightarrow> n \<le> 23 \<Longrightarrow> small n (Fin (of_int k))"
proof -
  assume a: "\<bar>k\<bar> \<le> 2 ^ n" "n \<le> 23"
  then have "\<bar>k\<bar> < 2 ^ 24" using power_increasing [OF a(2), of "2 :: int"] by simp
  moreover have "\<bar>of_int k :: rat\<bar> \<le> 2 ^ n" using a(1) by (metis of_int_abs of_int_le_iff of_int_numeral of_int_power)
  ultimately show ?thesis by (simp add: small_def exact_in_int)
qed

lemma small_0 [simp]: "small n (Fin 0)"
  by (simp add: small_def exact_in_def)

lemma small_add:
  assumes "small n a" "small n b" "n \<le> 59"
  shows "small (Suc n) (fp_add f32 a b)"
proof -
  obtain x y where v: "a = Fin x" "b = Fin y" "\<bar>x\<bar> \<le> 2 ^ n" "\<bar>y\<bar> \<le> 2 ^ n" using assms(1,2) by (metis smallE)
  have "\<bar>x + y\<bar> \<le> 2 ^ Suc n" using v(3,4) by simp
  then show ?thesis using small_to_fp [of "x + y" "Suc n"] assms(3) v(1,2) by simp
qed

lemma small_times:
  assumes "small n a" "0 \<le> s" "s \<le> 1" "n \<le> 60"
  shows "small n (fp_mul f32 a (Fin s))"
proof -
  obtain x where v: "a = Fin x" "\<bar>x\<bar> \<le> 2 ^ n" using assms(1) by (metis smallE)
  have "\<bar>x * s\<bar> \<le> \<bar>x\<bar> * 1" unfolding abs_mult using assms(2,3) by (intro mult_left_mono) simp_all
  then show ?thesis using small_to_fp [of "x * s" n] assms(4) v by simp
qed

lemma small_cases: "small n a \<Longrightarrow> small n b \<Longrightarrow> small n (fp_min a b)" "small n a \<Longrightarrow> small n b \<Longrightarrow> small n (fp_max a b)"
  "small n a \<Longrightarrow> small n (clamp_non_negative a)"
  by (simp_all add: fp_min_def fp_max_def clamp_non_negative_def)

lemma small_exportable:
  assumes "small n v" "n \<le> 60"
  shows "ok_cell (V_f32 v)"
proof -
  obtain x where x: "v = Fin x" "exact_in f32 x" "\<bar>x\<bar> \<le> 2 ^ n" by (rule smallE [OF assms(1)])
  have b: "\<bar>x\<bar> \<le> 2 ^ 60" using x(3) pow_60 [OF assms(2)] by (rule order_trans)
  then have "- 1152921504606846976 \<le> x" "x \<le> 1152921504606846976" by (simp_all add: abs_le_iff)
  then have "fits_i64 \<lfloor>x\<rfloor>" "fits_i64 \<lceil>x\<rceil>" "fits_i64 (rhaz x)" by (simp_all add: fits_i64_def rhaz_def, linarith+)
  then show ?thesis using x(1) f32_exact_f64 [OF x(2) b] by (simp add: ok_cell_def ISIMF32_def quantisable_def)
qed

subsection \<open>The variables of the power system\<close>

text \<open>
  Temperatures and their limits are whole numbers; the other limits are at most \<open>2 ^ 16\<close>, since the
  fields of the commands have at most 16 bits, and what the model computes from them at most \<open>2 ^ 19\<close>.
\<close>

definition whole :: "fp \<Rightarrow> bool" where
  "whole v \<longleftrightarrow> (case v of Fin x \<Rightarrow> x = of_int \<lfloor>x\<rfloor> \<and> \<bar>\<lfloor>x\<rfloor>\<bar> \<le> 2 ^ 16 | _ \<Rightarrow> False)"

definition pss_bound :: "nat \<Rightarrow> fp \<Rightarrow> bool" where
  "pss_bound p v \<longleftrightarrow> (if p \<in> {PSSMAXT1, PSSMAXT2, PSST1, PSST2} then whole v
     else if p \<in> {PSSMAXA, PSSMAXW, PSSMINV, PSSMAXA12, PSSMAXA6, PSSMAXA5, PSSMAXA33} then small 16 v
     else small 19 v)"

definition pss_bounded :: "mem \<Rightarrow> bool" where
  "pss_bounded m \<longleftrightarrow> (\<forall>p < PSS_COUNT. pss_bound p (get_f32 m p))"

lemma whole_int: "whole v \<longleftrightarrow> (\<exists>n. v = Fin (of_int n) \<and> \<bar>n\<bar> \<le> 2 ^ 16)"
  by (auto simp: whole_def split: fp.splits)

lemma bound_int: "\<bar>n\<bar> < 2 ^ 16 \<Longrightarrow> pss_bound p (Fin (of_int n))"
  using small_int [of n 16] by (auto simp: pss_bound_def whole_int intro: small_mono)

lemma bound_0 [simp]: "pss_bound p (Fin 0)"
  using bound_int [of 0 p] by simp

lemma bound_small: "pss_bound p v \<Longrightarrow> small 19 v"
  using small_int [of _ 19] by (auto simp: pss_bound_def whole_int intro: small_mono split: if_splits)

lemma bounded_exportable:
  assumes "pss_bounded m" "pss_typed m"
  shows "exportable m"
proof -
  have "ok_cell (m p)" if "p < PSS_COUNT" for p
  proof -
    have "small 19 (get_f32 m p)" using assms(1) that by (intro bound_small [of p]) (simp add: pss_bounded_def)
    moreover have "kind_of (m p) \<in> {kind_u8, kind_s8, kind_f32}" using assms(2) that by (auto simp: pss_typed_def pss_kind_def)
    ultimately show ?thesis using small_exportable [of 19] by (cases "m p") (auto simp: get_f32_def ok_cell_simps)
  qed
  then show ?thesis by (simp add: exportable_cells)
qed

subsection \<open>The steps of the model\<close>

lemma move_whole: "whole a \<Longrightarrow> whole b \<Longrightarrow> whole (move_towards_f32 a b (Fin 1))"
proof -
  assume "whole a" "whole b"
  then obtain j k where v: "a = Fin (of_int j)" "b = Fin (of_int k)" "\<bar>j\<bar> \<le> 2 ^ 16" "\<bar>k\<bar> \<le> 2 ^ 16" by (auto simp: whole_int)
  then show ?thesis using move_int [of j k] toward_bound [of j "2 ^ 16" k 1] by (auto simp: whole_int)
qed

lemma sum_small: "small 16 a \<Longrightarrow> small 16 b \<Longrightarrow> small 16 c \<Longrightarrow> small 16 d \<Longrightarrow> small 19 (rail_sum a b c d)"
  using small_add [of 16 a b] small_add [of 17 "fp_add f32 a b" c] small_add [of 18 "fp_add f32 (fp_add f32 a b) c" d]
  by (simp add: rail_sum_def numeral_eq_Suc small_mono)

lemma scale_unit:
  assumes "fp_lt (Fin 0) a" "fp_lt a b" "small n b" "small n a"
  obtains s where "fp_div f32 a b = Fin s" "0 \<le> s" "s \<le> 1"
proof -
  obtain x y where v: "a = Fin x" "b = Fin y" using assms(3,4) by (metis smallE)
  then have u: "0 < x" "x < y" using assms(1,2) by simp_all
  then have "\<bar>x / y\<bar> \<le> 2 ^ 0" by (simp add: abs_divide pos_divide_le_eq)
  from small_to_fp [OF this] obtain s where s: "to_fp f32 (x / y) = Fin s" "\<bar>s\<bar> \<le> 1" by (auto elim!: smallE)
  moreover have "0 \<le> s"
  proof -
    have "s = rnd f32 (x / y)" using s(1) by (simp add: to_fp_def Let_def split: if_splits)
    then show ?thesis using rnd_nonneg [of "x / y" f32] u by simp
  qed
  ultimately show thesis using that v u by simp
qed

lemma currents_small:
  assumes "\<And>p. p \<in> {PSSMAXA, PSSMAXA12, PSSMAXA6, PSSMAXA5, PSSMAXA33} \<Longrightarrow> small 16 (get_f32 m p)" "currents m = (a, b, c, d, t)"
  shows "small 16 a \<and> small 16 b \<and> small 16 c \<and> small 16 d \<and> small 19 t"
proof -
  define half where "half i = (if get_u8 m PSSECO \<noteq> 0 then fp_mul f32 i (Fin (1 / 2)) else i)" for i
  define a0 b0 c0 d0 where r: "a0 = half (rail_current m PSSPWR12 PSSMAXA12)" "b0 = half (rail_current m PSSPWR6 PSSMAXA6)"
    "c0 = half (rail_current m PSSPWR5 PSSMAXA5)" "d0 = half (rail_current m PSSPWR33 PSSMAXA33)"
  have h: "small 16 i \<Longrightarrow> small 16 (half i)" for i using small_times [of 16 i "1 / 2"] by (simp add: half_def)
  have s0: "small 16 a0" "small 16 b0" "small 16 c0" "small 16 d0" using assms(1) by (simp_all add: r h rail_current_def)
  have t0: "small 19 (rail_sum a0 b0 c0 d0)" by (rule sum_small [OF s0])
  have cur: "currents m = (if fp_lt (Fin 0) (get_f32 m PSSMAXA) \<and> fp_lt (get_f32 m PSSMAXA) (rail_sum a0 b0 c0 d0) \<and> fp_lt (Fin 0) (rail_sum a0 b0 c0 d0)
     then let s = fp_div f32 (get_f32 m PSSMAXA) (rail_sum a0 b0 c0 d0);
            a = fp_mul f32 a0 s; b = fp_mul f32 b0 s; c = fp_mul f32 c0 s; d = fp_mul f32 d0 s in (a, b, c, d, rail_sum a b c d)
     else (a0, b0, c0, d0, rail_sum a0 b0 c0 d0))" by (simp add: currents_def Let_def r half_def)
  show ?thesis
  proof (cases "fp_lt (Fin 0) (get_f32 m PSSMAXA) \<and> fp_lt (get_f32 m PSSMAXA) (rail_sum a0 b0 c0 d0) \<and> fp_lt (Fin 0) (rail_sum a0 b0 c0 d0)")
    case True
    have "small 19 (get_f32 m PSSMAXA)" using assms(1) [of PSSMAXA] small_mono [of 16 _ 19] by simp
    then obtain s where s: "fp_div f32 (get_f32 m PSSMAXA) (rail_sum a0 b0 c0 d0) = Fin s" "0 \<le> s" "s \<le> 1"
      using scale_unit [of "get_f32 m PSSMAXA" "rail_sum a0 b0 c0 d0" 19] True t0 by blast
    have "a = fp_mul f32 a0 (Fin s)" "b = fp_mul f32 b0 (Fin s)" "c = fp_mul f32 c0 (Fin s)" "d = fp_mul f32 d0 (Fin s)" "t = rail_sum a b c d"
      using assms(2) True by (auto simp: cur Let_def s(1))
    then show ?thesis using s0 small_times [OF _ s(2,3)] sum_small by simp
  next
    case False
    then have "a = a0" "b = b0" "c = c0" "d = d0" "t = rail_sum a0 b0 c0 d0"
      using assms(2) by (auto simp: cur)
    then show ?thesis using s0 t0 by simp
  qed
qed

lemma physics_off_limits: "get_u8 m PSSPWR = 0 \<Longrightarrow> p \<in> {PSSMAXA, PSSMAXW, PSSMINV, PSSMAXA12, PSSMAXA6, PSSMAXA5, PSSMAXA33, PSSMAXT1, PSSMAXT2} \<Longrightarrow>
    get_f32 (simulate_physics m) p = get_f32 (apply_control_limits m) p"
  by (auto simp: simulate_physics_def power_off_physics_def Let_def limits_get(1))

lemma limits_bounded:
  assumes "pss_bounded m"
  shows "p \<in> {PSSMAXA, PSSMAXW, PSSMINV, PSSMAXA12, PSSMAXA6, PSSMAXA5, PSSMAXA33} \<Longrightarrow> small 16 (get_f32 (apply_control_limits m) p)"
    "p \<in> {PSSMAXT1, PSSMAXT2, PSST1, PSST2} \<Longrightarrow> whole (get_f32 m p) \<and> get_f32 (apply_control_limits m) p = get_f32 m p"
proof -
  have b: "pss_bound p (get_f32 m p)" if "p < PSS_COUNT" for p using assms that by (simp add: pss_bounded_def)
  show "p \<in> {PSSMAXA, PSSMAXW, PSSMINV, PSSMAXA12, PSSMAXA6, PSSMAXA5, PSSMAXA33} \<Longrightarrow> small 16 (get_f32 (apply_control_limits m) p)"
  proof -
    assume p: "p \<in> {PSSMAXA, PSSMAXW, PSSMINV, PSSMAXA12, PSSMAXA6, PSSMAXA5, PSSMAXA33}"
    then have "pss_bound p (get_f32 m p)" by (intro b) (auto simp: PSS_COUNT_def)
    then have "small 16 (get_f32 m p)" using p by (auto simp: pss_bound_def)
    then show ?thesis using p by (simp only: limits_get(4) small_cases(3))
  qed
  show "p \<in> {PSSMAXT1, PSSMAXT2, PSST1, PSST2} \<Longrightarrow> whole (get_f32 m p) \<and> get_f32 (apply_control_limits m) p = get_f32 m p"
    using b [of p] by (auto simp: pss_bound_def PSS_COUNT_def limits_get)
qed

lemma pss_f32_cases:
  assumes "pss_typed m"
    "\<And>p. p \<in> {PSSMAXT1, PSSMAXT2, PSST1, PSST2} \<Longrightarrow> whole (get_f32 m p)"
    "\<And>p. p \<in> {PSSMAXA, PSSMAXW, PSSMINV, PSSMAXA12, PSSMAXA6, PSSMAXA5, PSSMAXA33} \<Longrightarrow> small 16 (get_f32 m p)"
    "\<And>p. p \<in> {PSSA12, PSSV12, PSSA6, PSSV6, PSSA5, PSSV5, PSSA33, PSSV33, PSSA, PSSW, PSSV} \<Longrightarrow> small 19 (get_f32 m p)"
  shows "pss_bounded m"
proof -
  have "pss_bound p (get_f32 m p)" if "p < PSS_COUNT" for p
  proof (cases "p \<le> PSSECO \<or> p \<in> {PSSCLOCK, PSSMINC, PSSC}")
    case True
    then have "kind_of (m p) \<noteq> kind_f32" using assms(1) that by (auto simp: pss_typed_def pss_kind_def)
    then have "get_f32 m p = Fin 0" by (cases "m p") (simp_all add: get_f32_def)
    then show ?thesis by simp
  next
    case False
    then have "p \<in> {PSSMAXT1, PSSMAXT2, PSST1, PSST2} \<or> p \<in> {PSSMAXA, PSSMAXW, PSSMINV, PSSMAXA12, PSSMAXA6, PSSMAXA5, PSSMAXA33} \<or>
        p \<in> {PSSA12, PSSV12, PSSA6, PSSV6, PSSA5, PSSV5, PSSA33, PSSV33, PSSA, PSSW, PSSV}"
      using that by (simp add: PSS_COUNT_def) presburger
    then show ?thesis using assms(2-4) [of p] unfolding pss_bound_def by (elim disjE) auto
  qed
  then show ?thesis by (simp add: pss_bounded_def)
qed

lemma step_bounded:
  assumes "pss_typed m" "pss_bounded m"
  shows "pss_typed (pss_sim_step m)" "pss_bounded (pss_sim_step m)"
proof -
  let ?n = "simulate_physics m" and ?l = "apply_control_limits m"
  show t: "pss_typed (pss_sim_step m)" using same_outside_physics [OF assms(1)] by (simp add: pss_sim_step_def same_outside_def)
  note lim = limits_bounded [OF assms(2)]
  show "pss_bounded (pss_sim_step m)"
  proof (cases "get_u8 m PSSPWR = 0")
    case True
    show ?thesis
    proof (rule pss_f32_cases [OF t], goal_cases)
      case (1 p)
      then show ?case
        using lim(2) [of p] physics_off(3) [OF True, of p] physics_off_limits [OF True, of p] move_whole [of "get_f32 m p" "Fin 0"]
        by (auto simp: pss_sim_step_def whole_def)
    next
      case (2 p)
      then show ?case using lim(1) [OF 2] physics_off_limits [OF True, of p] by (auto simp: pss_sim_step_def)
    next
      case (3 p)
      then show ?case by (simp only: pss_sim_step_def physics_off(2) [OF True 3] small_0)
    qed
  next
    case False
    note o = physics_on [OF False]
    obtain a b c d tot where cur: "currents ?l = (a, b, c, d, tot)" by (cases "currents ?l") auto
    have cs: "small 16 a \<and> small 16 b \<and> small 16 c \<and> small 16 d \<and> small 19 tot"
      by (rule currents_small [OF lim(1) cur]) auto
    have g: "get_f32 ?n PSSA12 = a" "get_f32 ?n PSSA6 = b" "get_f32 ?n PSSA5 = c" "get_f32 ?n PSSA33 = d" "get_f32 ?n PSSA = tot"
      using o(3) cur by simp_all
    have v: "small 19 (rail_voltage ?l sw (get_f32 ?l PSSMINV))" for sw
      using lim(1) [of PSSMINV] by (simp add: rail_voltage_def small_mono [of 16 _ 19])
    have w: "small 19 (get_f32 ?n PSSW)" using cs lim(1) [of PSSMAXW] unfolding o(6) g(5) by (intro small_cases(1)) (simp_all add: small_mono [of 16 _ 19])
    show ?thesis
    proof (rule pss_f32_cases [OF t], goal_cases)
      case (1 p)
      then show ?case
        using lim(2) o(8,9) o(10) [of p] move_whole by (auto simp: pss_sim_step_def)
    next
      case (2 p)
      then show ?case using lim(1) [OF 2] o(10) [of p] by (auto simp: pss_sim_step_def)
    next
      case (3 p)
      have vs: "small 19 (get_f32 ?n PSSV12)" "small 19 (get_f32 ?n PSSV6)" "small 19 (get_f32 ?n PSSV5)" "small 19 (get_f32 ?n PSSV33)"
        using v by (simp_all add: o(4) [of PSSPWR12 PSSA12] o(4) [of PSSPWR6 PSSA6] o(4) [of PSSPWR5 PSSA5] o(4) [of PSSPWR33 PSSA33] pss_rails_def)
      have "small 19 (get_f32 ?n PSSV)" using lim(1) [of PSSMINV] by (simp add: o(5) small_mono [of 16 _ 19])
      then show ?case using 3 g cs vs w unfolding pss_sim_step_def by (elim insertE emptyE) (simp_all add: small_mono [of 16 _ 19])
    qed
  qed
qed

lemma default_bounded: "p < PSS_COUNT \<Longrightarrow> pss_bound p (case sim_vars p of V_f32 x \<Rightarrow> x | _ \<Rightarrow> Fin 0)"
proof -
  assume p: "p < PSS_COUNT"
  have ids: "map fst sim_pss_vars = [0..<31]" by (simp add: sim_pss_vars_def upt_conv_Cons)
  have ok: "list_all (\<lambda>(p, v). pss_bound p (case v of V_f32 x \<Rightarrow> x | _ \<Rightarrow> Fin 0)) sim_pss_vars"
    unfolding pss_bound_def small_def whole_def exact_in_def by code_simp
  have "p \<in> set (map fst sim_pss_vars)" using p by (simp only: ids) (simp add: PSS_COUNT_def)
  then obtain v where "(p, v) \<in> set sim_pss_vars" by auto
  moreover from this have "sim_vars p = v" by (intro sim_vars_at) (simp add: all_vars_def)
  ultimately show ?thesis using ok by (auto simp: list_all_iff)
qed

lemma init_bounded:
  assumes "pss_typed m"
  obtains m' where "pss_sim_init m = Some m'" "pss_typed m'" "pss_bounded m'"
proof -
  have "pss_typed (\<lambda>q. if q < PSS_COUNT then sim_vars q else m q)" using sim_vars_typed by (simp add: pss_typed_def)
  moreover have "pss_bounded (\<lambda>q. if q < PSS_COUNT then sim_vars q else m q)" using default_bounded by (simp add: pss_bounded_def get_f32_def)
  ultimately show thesis using that pss_init_defaults [of m] by (simp add: pss_sim_init_def)
qed

subsection \<open>The ticks of the node\<close>

text \<open>The stages of a tick: the clock, with power the commands and the telemetry, the bus, the power commands.\<close>

lemma pss_step_parts:
  assumes "pss_ok e"
  obtains w e2 x out b e' where "ps_bus e2 = (ps_bus e)\<lparr>b_writer_tick := tick\<rparr>" "ps_mem e2 = ps_mem e" "pss_ok e2"
    "(if w then ISYSALG (hk_ISYSALG pss_base_hooks) (Some e2) else Some e2) = Some x"
    "IBUS_EXCHANGE no_bus_hooks rx (ps_bus x) = (out, b)" "ICMDPWRUPD (x\<lparr>ps_bus := b\<rparr>) = Some e'"
    "pss_runtime_step tick rx e = (out, Some e')" "pss_ok e'" "pss_ok (x\<lparr>ps_bus := b\<rparr>)"
proof -
  obtain out e' where s: "pss_runtime_step tick rx e = (out, Some e')" "pss_ok e'" using pss_step_eq [OF assms] by metis
  let ?e1 = "e\<lparr>ps_soft := (ps_soft e)\<lparr>ss_current_tick := tick\<rparr>, ps_bus := (ps_bus e)\<lparr>b_writer_tick := tick\<rparr>\<rparr>"
  let ?e2 = "?e1\<lparr>ps_soft := (ps_soft ?e1)\<lparr>ss_tick := ISYSTEP (ss_tick (ps_soft ?e1))\<rparr>\<rparr>"
  have init: "ss_initialized (ps_soft e)" using assms by (simp add: pss_ok_def pss_inv_def)
  have l: "ps_bus ?e2 = (ps_bus e)\<lparr>b_writer_tick := tick\<rparr>" "ps_mem ?e2 = ps_mem e" by simp_all
  have "pss_bus_ok ((ps_bus e)\<lparr>b_writer_tick := tick\<rparr>)"
    by (rule pss_bus_ok_good [OF _ pss_ok_bus [OF assms]]) (simp add: good_step_def same_wiring_def bus_wf_def)
  then have "pss_ok ?e1" using assms init by (simp add: pss_ok_def pss_inv_def)
  then have 2: "pss_ok ?e2" by (rule pss_ok_fields(2)) (simp add: init)
  obtain w where w: "pss_is_power_on ?e1 = Some w" using s(1) init by (auto simp: pss_runtime_step_def Let_def split: option.splits)
  define e3 where "e3 = (if w then ISYSALG (hk_ISYSALG pss_base_hooks) (Some ?e2) else Some ?e2)"
  have st: "pss_runtime_step tick rx e = (let (out, b) = IBUS_EXCHANGE no_bus_hooks rx (env_bus e3)
      in (out, Option.bind (put_env_bus e3 b) ICMDPWRUPD))"
    using init w by (simp add: pss_runtime_step_def ISYSBASEALG_def e3_def put_env_tick_def env_tick_def Let_def call_hook_def case_prod_unfold)
  obtain x where x: "e3 = Some x" using s(1) by (cases e3) (auto simp: st put_env_bus_def case_prod_unfold Let_def)
  have okx: "pss_ok x"
  proof (cases w)
    case True
    then show ?thesis using x pss_sysalg [OF 2] by (metis e3_def option.sel)
  qed (use x 2 in \<open>simp add: e3_def\<close>)
  obtain b where b: "IBUS_EXCHANGE no_bus_hooks rx (ps_bus x) = (out, b)" "ICMDPWRUPD (x\<lparr>ps_bus := b\<rparr>) = Some e'"
    using s(1) by (auto simp: st x env_bus_def put_env_bus_def case_prod_unfold Let_def prod_eq_iff)
  have "pss_bus_ok b" using pss_bus_ok_good [OF good_EXCHANGE pss_ok_bus [OF okx], of rx] b by simp
  then have "pss_ok (x\<lparr>ps_bus := b\<rparr>)" by (rule pss_ok_fields(1) [OF okx])
  with that [OF l 2 x [unfolded e3_def] b s] show thesis .
qed

lemma cell_step_bounded:
  assumes "pss_bound q (case v of V_f32 x \<Rightarrow> x | _ \<Rightarrow> Fin 0)" "q < PSS_COUNT" "\<bar>pss_cmd_value (sl c) c\<bar> < 2 ^ 16"
  shows "pss_bound q (case cell_step sl q c v of V_f32 x \<Rightarrow> x | _ \<Rightarrow> Fin 0)"
  using assms by (simp add: cell_step_def cell_after_def default_bounded pss_setting_def bound_int)

lemma fold_bounded:
  "pss_bound q (case v of V_f32 x \<Rightarrow> x | _ \<Rightarrow> Fin 0) \<Longrightarrow> q < PSS_COUNT \<Longrightarrow> \<forall>c \<in> set cs. \<bar>pss_cmd_value (sl c) c\<bar> < 2 ^ 16 \<Longrightarrow>
    pss_bound q (case fold (cell_step sl q) cs v of V_f32 x \<Rightarrow> x | _ \<Rightarrow> Fin 0)"
  by (induction cs arbitrary: v) (simp_all add: cell_step_bounded)

lemma sysalg_bounded:
  assumes "pss_ok e" "pss_bounded (ps_mem e)" "ISYSALG (hk_ISYSALG pss_base_hooks) (Some e) = Some e'"
  shows "pss_bounded (ps_mem e')"
proof -
  have inv: "pss_inv e" "exportable (ps_mem e)" using assms(1) by (simp_all add: pss_ok_def)
  obtain e1 where 1: "apply_system_commands e = Some e1" "\<forall>q < PSS_COUNT. ps_mem e1 q = fold (cell_step (pss_slot e) q) pss_ids (ps_mem e q)"
    "pss_ok e1" using system_commands_eq [OF inv(1)] inv(2) by metis
  have "IPRMUPD e1 = Some e'"
    using assms(3) 1(1) by (simp add: ISYSALG_def pss_base_hooks_def call_hook_def ICMDUPD_def PSS_LOCALSYSALG_def ISYSNODES_def)
  moreover obtain ys where "IPRMUPD e1 = Some (e1\<lparr>ps_bus := (ps_bus e1)\<lparr>b_prm := Some ys, b_prm_buf := Some ys\<rparr>\<rparr>)"
    using 1(3) IPRMUPD_eq [of e1] by (metis pss_ok_def)
  ultimately have m: "ps_mem e' = ps_mem e1" by auto
  have "pss_bound q (get_f32 (ps_mem e1) q)" if "q < PSS_COUNT" for q
    using fold_bounded [of q "ps_mem e q" pss_ids "pss_slot e"] assms(2) that pss_get(2) [OF inv(1)] 1(2)
    by (simp add: pss_bounded_def get_f32_def)
  then show ?thesis by (simp add: pss_bounded_def m)
qed

lemma tick_bounded:
  assumes "pss_ok e" "pss_bounded (ps_mem e)" "pss_runtime_step tick rx e = (out, Some e')"
  shows "pss_ok e'" "pss_bounded (ps_mem e')"
proof -
  obtain w e2 x b where s: "ps_mem e2 = ps_mem e" "pss_ok e2"
    "(if w then ISYSALG (hk_ISYSALG pss_base_hooks) (Some e2) else Some e2) = Some x"
    "ICMDPWRUPD (x\<lparr>ps_bus := b\<rparr>) = Some e'" "pss_ok e'" "pss_ok (x\<lparr>ps_bus := b\<rparr>)"
    by (rule pss_step_parts [OF assms(1), of tick rx]) (use assms(3) in auto)
  show "pss_ok e'" by (rule s(5))
  have x: "pss_bounded (ps_mem x)"
    using s(1,3) assms(2) sysalg_bounded [OF s(2), of x] by (auto split: if_splits)
  have "pss_inv (x\<lparr>ps_bus := b\<rparr>)" using s(6) by (simp add: pss_ok_def)
  from power_commands_eq [OF this] have "\<forall>q < PSS_COUNT. (\<exists>k. ps_mem e' q = V_u8 k) \<or> ps_mem e' q = ps_mem x q"
    using s(4) by (elim exE conjE) (simp add: ICMDPWRUPD_def)
  then have "get_f32 (ps_mem e') q = Fin 0 \<or> get_f32 (ps_mem e') q = get_f32 (ps_mem x) q" if "q < PSS_COUNT" for q
    using that by (auto simp: get_f32_def)
  then show "pss_bounded (ps_mem e')" using x unfolding pss_bounded_def by (metis bound_0)
qed

subsection \<open>The node and the model together\<close>

text \<open>The steps of the two threads in any order: ticks of the node on any byte, the start and the steps of the model.\<close>

inductive pss_loop :: "pss_env \<Rightarrow> bool" where
  loop_start: "\<not> ss_initialized (ps_soft e) \<Longrightarrow> \<not> ps_bus_ready e \<Longrightarrow> ps_mem e = sim_vars \<Longrightarrow> pss_loop (pss_runtime_init e)"
| loop_tick: "pss_loop e \<Longrightarrow> pss_runtime_step t rx e = (out, Some e') \<Longrightarrow> pss_loop e'"
| loop_model_init: "pss_loop e \<Longrightarrow> pss_sim_init (ps_mem e) = Some m \<Longrightarrow> pss_loop (e\<lparr>ps_mem := m\<rparr>)"
| loop_model_step: "pss_loop e \<Longrightarrow> pss_loop (e\<lparr>ps_mem := pss_sim_step (ps_mem e)\<rparr>)"

lemma start_vars_ok: "pss_bounded sim_vars" "pss_typed sim_vars"
  using default_bounded sim_vars_typed by (simp_all add: pss_bounded_def get_f32_def)

lemma loop_ok: "pss_loop e \<Longrightarrow> pss_ok e \<and> pss_bounded (ps_mem e)"
proof (induction rule: pss_loop.induct)
  case (loop_start e)
  then have "pss_start e" using start_vars_ok bounded_exportable by (simp add: pss_start_def)
  then show ?case using pss_init_ok(1,2) [of e] loop_start(3) start_vars_ok by simp
next
  case (loop_tick e t rx out e')
  then show ?case using tick_bounded by blast
next
  case (loop_model_init e m)
  then have "pss_typed (ps_mem e)" by (simp add: pss_ok_def pss_inv_def)
  from init_bounded [OF this] loop_model_init.hyps(2) have "pss_typed m" "pss_bounded m" by auto
  then show ?case using loop_model_init.IH bounded_exportable by (simp add: pss_ok_def pss_inv_mem)
next
  case (loop_model_step e)
  then have "pss_typed (ps_mem e)" by (simp add: pss_ok_def pss_inv_def)
  then show ?case using step_bounded [of "ps_mem e"] loop_model_step.IH bounded_exportable by (simp add: pss_ok_def pss_inv_mem)
qed

lemma cell_small: "case ISIMF32 (V_u8 k) of Fin x \<Rightarrow> \<bar>x\<bar> \<le> 2 ^ 19 | _ \<Rightarrow> False"
    "case ISIMF32 (V_s8 l) of Fin x \<Rightarrow> \<bar>x\<bar> \<le> 2 ^ 19 | _ \<Rightarrow> False"
proof -
  have "\<bar>uint k\<bar> < 2 ^ 16" by (rule uint_u8_small)
  moreover have "\<bar>sint l\<bar> < 2 ^ 16" for l :: u8 using sint_greater_eq [of l] sint_less [of l] by simp
  moreover have "\<bar>of_int n :: rat\<bar> \<le> 2 ^ 19" if "\<bar>n\<bar> < 2 ^ 16" for n using that by (simp add: abs_less_iff abs_le_iff)
  ultimately show "case ISIMF32 (V_u8 k) of Fin x \<Rightarrow> \<bar>x\<bar> \<le> 2 ^ 19 | _ \<Rightarrow> False"
    "case ISIMF32 (V_s8 l) of Fin x \<Rightarrow> \<bar>x\<bar> \<le> 2 ^ 19 | _ \<Rightarrow> False"
    by (simp_all add: ISIMF32_def fp_of_small del: of_int_uint of_int_sint)
qed

text \<open>
  C16: the node and the model of its hardware can run forever. In whatever order the threads run, from
  the start with the static values and with any bytes on the bus, the next tick of the node is defined,
  and every variable is finite and at most \<open>2 ^ 19\<close>: no limit that a command sets and no number of
  steps of the model makes a value that the telemetry could not convert.
\<close>
theorem pss_loop_bounded:
  assumes "pss_loop e"
  shows "\<exists>out e'. pss_runtime_step t rx e = (out, Some e') \<and> pss_loop e' \<and> exportable (ps_mem e') \<and>
    (\<forall>p < PSS_COUNT. case ISIMF32 (ps_mem e' p) of Fin x \<Rightarrow> \<bar>x\<bar> \<le> 2 ^ 19 | _ \<Rightarrow> False)"
proof -
  obtain out e' where s: "pss_runtime_step t rx e = (out, Some e')" using pss_step_eq loop_ok [OF assms] by metis
  then have l: "pss_loop e'" by (rule loop_tick [OF assms])
  then have b: "pss_ok e'" "pss_bounded (ps_mem e')" using loop_ok by simp_all
  have "case ISIMF32 (ps_mem e' p) of Fin x \<Rightarrow> \<bar>x\<bar> \<le> 2 ^ 19 | _ \<Rightarrow> False" if p: "p < PSS_COUNT" for p
  proof -
    have sm: "small 19 (get_f32 (ps_mem e') p)" using b(2) p by (intro bound_small [of p]) (simp add: pss_bounded_def)
    have "kind_of (ps_mem e' p) \<in> {kind_u8, kind_s8, kind_f32}" using b(1) p by (auto simp: pss_ok_def pss_inv_def pss_typed_def pss_kind_def)
    then show ?thesis
    proof (cases "ps_mem e' p")
      case (V_f32 y)
      then show ?thesis using sm by (simp add: get_f32_def ISIMF32_def small_def split: fp.splits)
    qed (use cell_small in simp_all)
  qed
  with s l b(1) show ?thesis by (auto simp: pss_ok_def)
qed

definition loop_demo :: pss_env where
  "loop_demo = (let e = pss_runtime_init (pss_env0 sim_vars) in e\<lparr>ps_mem := pss_sim_step (ps_mem e)\<rparr>)"

theorem pss_loop_bounded_witness:
  "\<exists>out e'. pss_runtime_step 1 None loop_demo = (out, Some e') \<and> exportable (ps_mem e')"
proof -
  have "pss_loop (pss_runtime_init (pss_env0 sim_vars))"
    using pss_start_demo by (intro loop_start) (simp_all add: pss_start_def pss_env0_def)
  then have "pss_loop loop_demo" using loop_model_step by (simp add: loop_demo_def Let_def)
  from pss_loop_bounded [OF this, of 1 None] show ?thesis by blast
qed

end
