(* ===== verification/Cargo.thy ===== *)
theory Cargo
  imports Conversation
begin

text \<open>
  What a conversation carries: the command window of the master, byte by byte, into the command buffer
  of the device that it addresses. As in \<open>Conversation\<close> both nodes may change everything but their
  command buffers between the ticks.
\<close>

text \<open>A byte of the command buffer.\<close>

definition got :: "bus_state \<Rightarrow> nat \<Rightarrow> u8 option" where
  "got s j = read_buffer_byte (b_cmd_buf s) (b_cmd_buf_blocks s) (b_cmd_buf_u8 s) j"

definition stocked :: "bus_state \<Rightarrow> bool" where
  "stocked s \<longleftrightarrow> b_cmd_buf s \<noteq> None \<and> 0 < b_cmd_buf_blocks s \<and> span_ok (b_cmd_buf s) (b_cmd_buf_blocks s)"

definition filling :: "bus_state \<Rightarrow> bool" where
  "filling s \<longleftrightarrow> b_exchange_flag s = ex_rx \<and> b_rx_flag s = rx_data \<and> b_adr_flag s \<and> b_msg_flag s = ARP_FLAG_CMD_REQ"

lemma got_cong: "b_cmd_buf s' = b_cmd_buf s \<Longrightarrow> b_cmd_buf s \<noteq> None \<Longrightarrow> b_cmd_buf_blocks s' = b_cmd_buf_blocks s \<Longrightarrow> got s' j = got s j"
  by (auto simp: got_def read_buffer_byte_def)

lemma got_some: "stocked s \<Longrightarrow> j < 2 * b_cmd_buf_blocks s \<Longrightarrow> got s j \<noteq> None"
  by (auto simp: got_def stocked_def read_buffer_byte_def blk_read_byte_def Let_def k_block_bytes_def)

lemma reset_buf [simp]: "b_cmd_buf (reset_to_idle s) = b_cmd_buf s"
  by (simp add: reset_to_idle_def IBUS_RESET_FRAME_LAYOUT_def)

lemma header_buf [simp]: "b_cmd_buf (write_header_byte s i v) = b_cmd_buf s" "b_cmd_buf (IBUS_PARSE_STD_HEADER s) = b_cmd_buf s"
    "b_cmd_buf (IBUS_GEN_STD_HEADER s) = b_cmd_buf s" "b_cmd_buf (mark_result s r) = b_cmd_buf s"
  by (simp_all add: write_header_byte_def IBUS_PARSE_STD_HEADER_def IBUS_GEN_STD_HEADER_def mark_result_def Let_def split: option.split)

lemma store_other_buf: "\<not> (b_adr_flag s \<and> b_msg_flag s = ARP_FLAG_CMD_REQ) \<Longrightarrow> b_cmd_buf (store_rx_byte s v) = b_cmd_buf s"
  by (simp add: store_rx_byte_def Let_def split: prod.split)

lemma merge_buf [simp]: "b_cmd_buf (merge_nonzero_cmd_fields s) = b_cmd_buf s"
  by (simp add: merge_nonzero_cmd_fields_def)

lemma cmd_buf_kept:
  assumes "\<not> filling s" "IBUS_EXCHANGE no_bus_hooks rx s = (w, s')"
  shows "b_cmd_buf s' = b_cmd_buf s"
proof -
  have "b_cmd_buf (snd (IBUS_EXCHANGE no_bus_hooks rx s)) = b_cmd_buf s"
  proof (cases "b_exchange_flag s")
    case ex_rx
    let ?e = "if b_role s = bus_master \<and> b_busy s then s\<lparr>b_wait_clock := b_wait_clock s + 1\<rparr> else s"
    have e: "b_cmd_buf ?e = b_cmd_buf s" "b_adr_flag ?e = b_adr_flag s" "b_msg_flag ?e = b_msg_flag s" "b_rx_flag ?e = b_rx_flag s" by simp_all
    have "b_cmd_buf (IRX_SOF rx z) = b_cmd_buf z" "b_cmd_buf (IRX_HEADER no_bus_hooks rx z) = b_cmd_buf z" "b_cmd_buf (IRX_EOF no_bus_hooks rx z) = b_cmd_buf z" for z
      by (simp_all add: IRX_SOF_def IRX_HEADER_def IRX_EOF_def to_response_def Let_def split: option.split)
    moreover have "b_rx_flag s = rx_data \<Longrightarrow> b_cmd_buf (IRX_DATA rx ?e) = b_cmd_buf s"
      using assms(1) ex_rx by (auto simp: IRX_DATA_def Let_def filling_def store_other_buf split: option.split)
    ultimately show ?thesis
      unfolding IBUS_EXCHANGE_def IBUS_RX_EXCHANGE_def Let_def ex_rx by (auto simp: e split: rx_flag_t.split)
  next
    case ex_tx
    then show ?thesis
      by (cases "b_tx_flag s") (auto simp: IBUS_EXCHANGE_def IBUS_TX_EXCHANGE_def ITX_SOF_def ITX_HEADER_def ITX_DATA_def ITX_EOF_def Let_def)
  next
    case ex_bypass
    then show ?thesis by (simp add: IBUS_EXCHANGE_def IBUS_BYPASS_def)
  qed
  then show ?thesis using assms(2) by simp
qed

lemma filling_step:
  assumes "filling s" "b_wait_clock s < 10" "stocked s" "unat (b_sub_clock s) < com_capacity_bytes s"
    "IBUS_EXCHANGE no_bus_hooks (Some v) s = (w, s')"
  shows "stocked s' \<and> got s' j = (if j = unat (b_sub_clock s) then Some v else got s j)"
proof -
  let ?e = "rx_entry (b_writer_tick s) s" and ?k = "unat (b_sub_clock s)"
  obtain xs where xs: "b_cmd_buf s = Some xs" "span_ok (Some xs) (b_cmd_buf_blocks s)" "0 < b_cmd_buf_blocks s" using assms(3) by (auto simp: stocked_def)
  have e: "b_cmd_buf ?e = Some xs" "b_cmd_buf_blocks ?e = b_cmd_buf_blocks s" "b_sub_clock ?e = b_sub_clock s" "b_adr_flag ?e"
    "b_msg_flag ?e = ARP_FLAG_CMD_REQ" "cmd_frame_blocks ?e = cmd_frame_blocks s"
    using assms(1) xs by (simp_all add: entry_same filling_def cmd_frame_blocks_def)
  have k: "?k < 2 * b_cmd_buf_blocks s" using assms(4) xs(3) by (simp add: com_capacity_bytes_def cmd_frame_blocks_def clamp_frame_blocks_def split: if_splits)
  then obtain ys where ys: "blk_write_byte (Some xs) (b_cmd_buf_blocks s) ?k v = Some ys" using blk_write_byte_defined [of xs "b_cmd_buf_blocks s" ?k v] by auto
  define z where "z = store_rx_byte (?e\<lparr>b_wait_clock := 0\<rparr>) v"
  have "cmd_frame_blocks (x\<lparr>b_wait_clock := 0\<rparr>) = cmd_frame_blocks x" for x by (simp add: cmd_frame_blocks_def)
  then have "com_capacity_bytes (?e\<lparr>b_wait_clock := 0\<rparr>) = com_capacity_bytes s" by (simp add: com_capacity_bytes_def e(6))
  then have z: "b_cmd_buf z = Some ys" "b_cmd_buf_blocks z = b_cmd_buf_blocks s"
    using e ys assms(4) by (simp_all add: z_def store_rx_byte_def write_buffer_byte_def Let_def)
  have "s' = IRX_DATA (Some v) ?e" using assms(1,2,5) by (simp add: rx_now filling_def)
  then have s': "b_cmd_buf s' = Some ys" "b_cmd_buf_blocks s' = b_cmd_buf_blocks s" using z by (simp_all add: IRX_DATA_def z_def [symmetric] Let_def)
  have "span_ok (Some ys) (b_cmd_buf_blocks s)" using xs(2) blk_write_byte_length [OF ys] by (simp add: span_ok_def)
  with s' xs(3) blk_read_byte_write_byte [OF xs(2) ys] show ?thesis by (simp add: stocked_def got_def xs(1) read_buffer_byte_def)
qed

lemma sends_data: "b_exchange_flag s = ex_tx \<Longrightarrow> b_tx_flag s = tx_data \<Longrightarrow> IBUS_EXCHANGE no_bus_hooks rx s = (w, s') \<Longrightarrow> w = Some (tx_data_byte s)"
  by (auto simp: IBUS_EXCHANGE_def IBUS_TX_EXCHANGE_def ITX_DATA_def Let_def)

text \<open>What the phase says of the two command buffers.\<close>

fun carried :: "phase \<Rightarrow> u8 option \<Rightarrow> bus_state \<Rightarrow> bus_state \<Rightarrow> bool" where
  "carried (Asking a f n i) c m d = (f = ARP_FLAG_CMD_REQ \<longrightarrow> n = cmd_frame_blocks m \<and> (a = b_self_addr d \<longrightarrow>
     (\<forall>j < i - 4. j < 2 * n \<longrightarrow> got d j = got m j) \<and> (4 \<le> i \<and> i < 4 + 2 * n \<longrightarrow> c = got m (i - 4))))"
| "carried (Answering f n i) c m d = (f = ARP_FLAG_CMD_RESP \<longrightarrow> (\<forall>j < 2 * cmd_frame_blocks m. got d j = got m j))"
| "carried ph c m d = True"

definition roomy :: "bus_state \<Rightarrow> bus_state \<Rightarrow> bool" where
  "roomy m d \<longleftrightarrow> stocked m \<and> stocked d \<and> cmd_frame_blocks m \<le> cmd_frame_blocks d"

lemma frame_in_buffer: "stocked s \<Longrightarrow> j < 2 * cmd_frame_blocks s \<Longrightarrow> got s j \<noteq> None"
  by (rule got_some) (auto simp: stocked_def cmd_frame_blocks_def clamp_frame_blocks_def split: if_splits)

text \<open>The frame stays as it is until the node goes back to rest.\<close>

lemma frame_kept:
  assumes "IBUS_EXCHANGE no_bus_hooks rx s = (w, s')" "b_exchange_flag s = ex_tx \<or> b_exchange_flag s = ex_rx \<and> b_rx_flag s \<noteq> rx_eof \<and> b_wait_clock s < 10"
  shows "cmd_frame_blocks s' = cmd_frame_blocks s"
proof -
  have h: "cmd_frame_blocks (z\<lparr>b_sub_clock := c\<rparr>) = cmd_frame_blocks z" "cmd_frame_blocks (z\<lparr>b_tx_flag := g\<rparr>) = cmd_frame_blocks z"
    "cmd_frame_blocks (IBUS_GEN_STD_HEADER z) = cmd_frame_blocks z" for z c g
    by (simp_all add: cmd_frame_blocks_def IBUS_GEN_STD_HEADER_def Let_def)
  have t: "cmd_frame_blocks (snd (ITX_SOF z)) = cmd_frame_blocks z" "cmd_frame_blocks (snd (ITX_HEADER no_bus_hooks z)) = cmd_frame_blocks z"
    "cmd_frame_blocks (snd (ITX_DATA z)) = cmd_frame_blocks z" for z
    by (auto simp: cmd_frame_blocks_def ITX_SOF_def ITX_HEADER_def ITX_DATA_def IBUS_GEN_STD_HEADER_def Let_def)
  have u: "cmd_frame_blocks (snd (ITX_EOF z)) = cmd_frame_blocks z" for z
    by (auto simp: cmd_frame_blocks_def ITX_EOF_def Let_def)
  have r: "cmd_frame_blocks (IRX_SOF rx z) = cmd_frame_blocks z" "cmd_frame_blocks (IRX_HEADER no_bus_hooks rx z) = cmd_frame_blocks z"
    "cmd_frame_blocks (IRX_DATA rx z) = cmd_frame_blocks z" for z
    by (auto simp: cmd_frame_blocks_def IRX_SOF_def IRX_HEADER_def IRX_DATA_def write_header_byte_def IBUS_PARSE_STD_HEADER_def store_rx_byte_def
        Let_def split: option.splits prod.splits)
  have e: "cmd_frame_blocks (rx_entry (b_writer_tick s) s) = cmd_frame_blocks s" "b_rx_flag (rx_entry (b_writer_tick s) s) = b_rx_flag s"
    by (simp_all add: entry_same cmd_frame_blocks_def)
  show ?thesis
  proof (cases "b_exchange_flag s = ex_tx")
    case True
    have "s' = snd (IBUS_TX_EXCHANGE no_bus_hooks s)" using assms(1) True by (simp add: IBUS_EXCHANGE_def)
    then show ?thesis using t [of s] u [of s] by (cases "b_tx_flag s") (simp_all add: IBUS_TX_EXCHANGE_def)
  next
    case False
    then have x: "b_exchange_flag s = ex_rx" "b_wait_clock s < 10" "b_rx_flag s \<noteq> rx_eof" using assms(2) by simp_all
    show ?thesis using assms(1) x(3) r [of "rx_entry (b_writer_tick s) s"] e by (cases "b_rx_flag s") (auto simp: rx_now [OF x(1,2)])
  qed
qed

lemma carried_step:
  assumes "link A D R ph (c, m, d)" "ph \<noteq> Rest" "carried ph c m d" "roomy m d"
    "IBUS_EXCHANGE no_bus_hooks c m = (om, m')" "IBUS_EXCHANGE no_bus_hooks c d = (od, d')"
  shows "carried (next_phase D R ph) (last_of om od) m' d' \<and> stocked d' \<and> b_cmd_buf m' = b_cmd_buf m"
proof -
  have "good_step m m'" "good_step d d'" using good_EXCHANGE [of m c] good_EXCHANGE [of d c] assms(5,6) by simp_all
  then have fm: "b_cmd_buf_blocks m' = b_cmd_buf_blocks m" and fd: "b_cmd_buf_blocks d' = b_cmd_buf_blocks d" "b_self_addr d' = b_self_addr d"
    by (simp_all add: good_step_def same_wiring_def)
  have room: "stocked m" "stocked d" "cmd_frame_blocks m \<le> cmd_frame_blocks d" using assms(4) by (simp_all add: roomy_def)
  have mk: "b_cmd_buf m' = b_cmd_buf m \<and> (\<forall>j. got m' j = got m j)" if "\<not> filling m"
    using cmd_buf_kept [OF that assms(5)] got_cong [of m' m] room(1) fm by (auto simp: stocked_def)
  have dk: "stocked d' \<and> (\<forall>j. got d' j = got d j)" if "\<not> filling d"
    using cmd_buf_kept [OF that assms(6)] got_cong [of d' d] room(2) fd by (auto simp: stocked_def)
  show ?thesis
  proof (cases ph)
    case Rest
    then show ?thesis using assms(2) by simp
  next
    case (Asking a f n i)
    note p = assms(1) [unfolded link_def Asking, simplified]
    have pd: "n < 32" "f = ARP_FLAG_CMD_REQ \<or> f = ARP_FLAG_DATA_REQ" "i \<le> 4 + 2 * n" "b_self_addr d = D" using p by (simp_all add: paired_def)
    obtain k where k: "on_wire a f k n i c m d" using p by blast
    have cr: "f = ARP_FLAG_CMD_REQ \<Longrightarrow> n = cmd_frame_blocks m \<and> (a = D \<longrightarrow> (\<forall>j < i - 4. j < 2 * n \<longrightarrow> got d j = got m j) \<and>
      (4 \<le> i \<and> i < 4 + 2 * n \<longrightarrow> c = got m (i - 4)))" using assms(3) pd(4) by (simp add: Asking)
    have fb: "cmd_frame_blocks m' = cmd_frame_blocks m"
      by (rule frame_kept [OF assms(5)]) (use k p in \<open>cases "i = 4 + 2 * n"; auto simp: on_wire_def sending_def at_home_def home_def\<close>)
    have "\<not> filling m" using k p by (cases "i = 4 + 2 * n") (auto simp: on_wire_def sending_def at_home_def home_def filling_def)
    then have gm: "b_cmd_buf m' = b_cmd_buf m" "got m' j = got m j" for j using mk by auto
    show ?thesis
    proof (cases "i = 4 + 2 * n")
      case True
      then have "receiving a f k n (3 + 2 * n) d" using k by (auto simp: on_wire_def)
      then have "\<not> filling d" by (auto simp: receiving_def filling_def)
      then have gd: "stocked d'" "got d' j = got d j" for j using dk by auto
      show ?thesis using cr pd(2) True by (auto simp: Asking gm gd fb)
    next
      case False
      then have i: "i < 4 + 2 * n" using pd(3) by simp
      then have sd: "sending a f k n i m" using k by (simp add: on_wire_def)
      have od: "od = None" using assms(6) k p by (cases "i = 0") (auto simp: on_wire_def receiving_def at_home_def home_def IBUS_EXCHANGE_def)
      have out: "last_of om od = got m (i - 3)" if "f = ARP_FLAG_CMD_REQ" "3 \<le> i" "i < 3 + 2 * n"
      proof -
        have t: "b_exchange_flag m = ex_tx" "b_tx_flag m = tx_data" "b_sub_clock m = of_nat (i - 3)" "b_msg_flag m = f"
          using sd that by (simp_all add: sending_def)
        have u: "unat (b_sub_clock m) = i - 3" unfolding t(3) by (rule unat_block_index [OF pd(1)]) (use that in simp)
        have "i - 3 < 2 * cmd_frame_blocks m" using cr [OF that(1)] that by simp
        then have "got m (i - 3) = Some (tx_data_byte m)"
          using frame_in_buffer [OF room(1), of "i - 3"] by (auto simp: tx_data_byte_def u t(4) that(1) com_capacity_bytes_def got_def)
        then show ?thesis using sends_data [OF t(1,2) assms(5)] od by (simp add: last_of_def)
      qed
      have dd: "stocked d'" "f = ARP_FLAG_CMD_REQ \<Longrightarrow> a = D \<Longrightarrow> j < Suc i - 4 \<Longrightarrow> j < 2 * n \<Longrightarrow> got d' j = got m j" for j
      proof -
        have "stocked d' \<and> (f = ARP_FLAG_CMD_REQ \<longrightarrow> a = D \<longrightarrow> j < Suc i - 4 \<longrightarrow> j < 2 * n \<longrightarrow> got d' j = got m j)"
        proof (cases "4 \<le> i \<and> f = ARP_FLAG_CMD_REQ \<and> a = D")
          case True
          then have r: "receiving a f k n (i - 1) d" using k by (auto simp: on_wire_def)
          then have fl: "filling d" "b_wait_clock d < 10" "b_sub_clock d = of_nat (i - 4)" using True i pd(4) by (auto simp: receiving_def filling_def)
          have u: "unat (b_sub_clock d) = i - 4" unfolding fl(3) by (rule unat_block_index [OF pd(1)]) (use i in simp)
          have c: "c = got m (i - 4)" using cr True i by simp
          have lt: "i - 4 < 2 * cmd_frame_blocks m" using cr True i by (simp add: less_diff_conv2)
          then obtain v where v: "got m (i - 4) = Some v" using frame_in_buffer [OF room(1)] by blast
          have "unat (b_sub_clock d) < com_capacity_bytes d" using lt room(3) by (simp add: u com_capacity_bytes_def)
          from filling_step [OF fl(1,2) room(2) this assms(6) [unfolded c v]] u v cr True show ?thesis by auto
        next
          case False
          have "\<not> filling d" using False k p pd(4) i by (cases "i = 0") (auto simp: on_wire_def receiving_def at_home_def home_def filling_def split: if_splits)
          then show ?thesis using dk cr False by auto
        qed
        then show "stocked d'" "f = ARP_FLAG_CMD_REQ \<Longrightarrow> a = D \<Longrightarrow> j < Suc i - 4 \<Longrightarrow> j < 2 * n \<Longrightarrow> got d' j = got m j" by auto
      qed
      have self: "b_self_addr d' = D" using fd pd(4) by simp
      show ?thesis using i cr out dd gm by (auto simp: Asking fb self)
    qed
  next
    case (Answering f n i)
    note p = assms(1) [unfolded link_def Answering, simplified]
    have pd: "f = ARP_FLAG_CMD_RESP \<or> f = ARP_FLAG_DATA_RESP" "i \<le> 4 + 2 * n" using p by auto
    obtain k where k: "on_wire A f k n i c d m" using p by blast
    have "\<not> filling m" "\<not> filling d"
      using k p pd by (cases "i = 0"; cases "i = 4 + 2 * n"; auto simp: on_wire_def sending_def receiving_def at_home_def home_def filling_def split: if_splits)+
    note kept = mk [OF this(1)] dk [OF this(2)]
    show ?thesis
    proof (cases "i < 4 + 2 * n")
      case True
      then have "cmd_frame_blocks m' = cmd_frame_blocks m"
        by (intro frame_kept [OF assms(5)]) (use k p in \<open>cases "i = 0"; auto simp: on_wire_def receiving_def at_home_def home_def split: if_splits\<close>)
      then show ?thesis using assms(3) kept by (auto simp: Answering)
    next
      case False
      then show ?thesis using kept by (simp add: Answering)
    qed
  next
    case (Unanswered w)
    then have "\<not> filling m" "\<not> filling d" using assms(1) by (auto simp: link_def at_home_def home_def filling_def)
    then show ?thesis using mk dk by (simp add: Unanswered)
  qed
qed

text \<open>What only the line and the command buffers decide.\<close>

lemma carried_line:
  assumes "line m' = line m" "line d' = line d" "b_cmd_buf m' = b_cmd_buf m" "b_cmd_buf d' = b_cmd_buf d"
  shows "carried ph c m' d' = carried ph c m d"
proof -
  have g: "got s' j = got s j" "cmd_frame_blocks s' = cmd_frame_blocks s" "b_self_addr s' = b_self_addr s"
    if "line s' = line s" "b_cmd_buf s' = b_cmd_buf s" for s s' j
  proof -
    note f = fixed_fields [OF line_fixed [OF that(1)]]
    have "b_cmd_buf_u8 s' = b_cmd_buf_u8 s" using arg_cong [OF that(1), of b_cmd_buf_u8] by (simp add: line_def)
    then show "got s' j = got s j" by (simp add: got_def that(2) f)
    show "cmd_frame_blocks s' = cmd_frame_blocks s" "b_self_addr s' = b_self_addr s" by (simp_all add: cmd_frame_blocks_def f)
  qed
  show ?thesis by (cases ph) (simp_all add: g [OF assms(1,3)] g [OF assms(2,4)])
qed

text \<open>A device with the default layout and a buffer of \<open>N\<close> blocks takes frames of up to \<open>N\<close> blocks.\<close>

lemma default_room:
  assumes "default_layout d" "b_cmd_blocks d = N" "b_cmd_buf_blocks d = N"
  shows "cmd_frame_blocks d = N"
proof -
  have "b_cmd_frame_blocks (IBUS_RESET_FRAME_LAYOUT (fixed_part d)) = b_cmd_frame_blocks (fixed_part d)"
    using assms(1) by (simp only: default_layout_def)
  moreover have "b_cmd_frame_blocks (IBUS_RESET_FRAME_LAYOUT z) = clamp_frame_blocks (b_cmd_blocks z) (b_cmd_buf_blocks z)" for z
    by (simp add: IBUS_RESET_FRAME_LAYOUT_def)
  moreover have "b_cmd_frame_blocks (fixed_part d) = b_cmd_frame_blocks d" "b_cmd_blocks (fixed_part d) = N" "b_cmd_buf_blocks (fixed_part d) = N"
    using assms(2,3) by (simp_all add: fixed_part_def line_def)
  ultimately show ?thesis using assms(2,3) by (cases "N = 0") (auto simp: cmd_frame_blocks_def clamp_frame_blocks_def)
qed

text \<open>A buffer of which every byte is the one of another is that buffer.\<close>

lemma got_all:
  assumes "b_cmd_buf m = Some xs" "b_cmd_buf d = Some ys" "length xs = N" "length ys = N" "b_cmd_buf_blocks m = N" "b_cmd_buf_blocks d = N"
    "\<forall>j < 2 * N. got d j = got m j"
  shows "b_cmd_buf d = b_cmd_buf m"
proof -
  have g: "got m j = Some (if even j then byte_lo (xs ! (j div 2)) else byte_hi (xs ! (j div 2)))"
    "got d j = Some (if even j then byte_lo (ys ! (j div 2)) else byte_hi (ys ! (j div 2)))" if "j < 2 * N" for j
    using that assms(1,2,5,6) by (auto simp: got_def read_buffer_byte_def blk_read_byte_def k_block_bytes_def Let_def even_iff_mod_2_eq_zero)
  have "ys ! i = xs ! i" if "i < N" for i
    using assms(7) [rule_format, of "2 * i"] assms(7) [rule_format, of "2 * i + 1"] g [of "2 * i"] g [of "2 * i + 1"] that
    by (intro block_of_bytes) simp_all
  then have "ys = xs" using assms(3,4) by (intro nth_equalityI) simp_all
  with assms(1,2) show ?thesis by simp
qed

text \<open>With the last byte of a command request its device merges the command buffer into its commands.\<close>

lemma request_merged:
  assumes "link A D R (Asking D ARP_FLAG_CMD_REQ n (4 + 2 * n)) (c, m, d)" "IBUS_EXCHANGE no_bus_hooks c d = (w, d')"
  shows "b_cmd d' = b_cmd (merge_nonzero_cmd_fields d)"
proof -
  note p = assms(1) [unfolded link_def, simplified]
  obtain k where k: "on_wire D ARP_FLAG_CMD_REQ k n (4 + 2 * n) c m d" using p by blast
  then obtain b where b: "c = Some b" "frame_byte D ARP_FLAG_CMD_REQ k n (3 + 2 * n) b" "receiving D ARP_FLAG_CMD_REQ k n (3 + 2 * n) d"
    by (auto simp: on_wire_def)
  have eof: "b = ARP_BUS_EOF" using b(2) by (simp add: frame_byte_def)
  have d: "b_exchange_flag d = ex_rx" "b_wait_clock d < 10" "b_rx_flag d = rx_eof" "b_adr_flag d" "b_msg_flag d = ARP_FLAG_CMD_REQ"
    "b_role d = bus_device" using b(3) p by (auto simp: receiving_def paired_def)
  have "rx_entry (b_writer_tick d) d = d" using d(6) by (simp add: entry_same)
  then show ?thesis using assms(2) d by (auto simp: rx_now b(1) eof IRX_EOF_def to_response_def)
qed

end
