(* ===== verification/SysRun.thy ===== *)
theory SysRun
  imports CsRun PssLoop Cargo
begin

text \<open>
  The two nodes composed: the central system and the power system over the simulated bus, one tick
  after the other, while lines are typed and the model of the power system changes its variables
  between the ticks. What a tick of either node does besides the exchange leaves the line alone, so the
  phases of \<open>Conversation\<close> carry over: the system is never in a state without a next tick, the nodes never
  write in the same tick, and every exchange that CS starts ends.
\<close>

subsection \<open>What CS does besides the exchange\<close>

text \<open>The active task as the exchange sees it.\<close>

definition core :: "task_t \<Rightarrow> bool \<times> bool \<times> bool \<times> task_kind_t \<times> nat option \<times> u32" where
  "core t = (t_used t, t_active t, t_armed t, t_kind t, t_node t, t_id t)"

definition act_view :: "sched \<Rightarrow> (nat \<times> bool \<times> bool \<times> bool \<times> task_kind_t \<times> nat option \<times> u32) option" where
  "act_view s = map_option (\<lambda>i. (i, core (sc_tasks s ! i))) (sc_active s)"

lemma view_set_task: "(\<And>t. core (f t) = core t) \<Longrightarrow> act_view (set_task i f s) = act_view s"
  by (cases "sc_active s"; cases "i < length (sc_tasks s)")
    (auto simp: act_view_def set_task_def nth_list_update list_update_beyond)

lemma view_set_other: "sc_active s \<noteq> Some i \<Longrightarrow> act_view (set_task i f s) = act_view s"
  by (cases "sc_active s") (auto simp: act_view_def set_task_def)

lemma view_other [simp]:
  "act_view (s\<lparr>sc_normal := a\<rparr>) = act_view s" "act_view (s\<lparr>sc_priority := a\<rparr>) = act_view s"
  "act_view (s\<lparr>sc_next_id := e\<rparr>) = act_view s" "act_view (s\<lparr>sc_completions := d\<rparr>) = act_view s"
  "act_view (s\<lparr>sc_msg_cmd := x\<rparr>) = act_view s" "act_view (s\<lparr>sc_msg_cmd_buf := y\<rparr>) = act_view s"
  by (simp_all add: act_view_def)

lemma core_other [simp]:
  "core (t\<lparr>t_queued := a\<rparr>) = core t" "core (t\<lparr>t_enabled := a\<rparr>) = core t" "core (t\<lparr>t_periodic := a\<rparr>) = core t"
  "core (t\<lparr>t_queue := b\<rparr>) = core t"
  by (simp_all add: core_def)

lemma view_queue_slot: "act_view (queue_task_slot i s) = act_view s"
  by (simp add: queue_task_slot_def Let_def view_set_task)

lemma view_remove_slot: "act_view (remove_slot_from_queues i s) = act_view s"
proof -
  have "act_view (s\<lparr>sc_normal := a, sc_priority := b\<rparr>) = act_view s" for a b by (simp add: act_view_def)
  then show ?thesis by (simp add: remove_slot_from_queues_def Let_def view_set_task)
qed

lemma view_update_class: "act_view (update_task_queue_class i q s) = act_view s"
  by (simp add: update_task_queue_class_def Let_def view_set_task view_queue_slot view_remove_slot)

lemma free_slot_idle:
  assumes "sched_inv s" "alloc_task_slot s = Some i"
  shows "sc_active s \<noteq> Some i"
proof -
  have i: "i < length (sc_tasks s)" "\<not> t_used (sc_tasks s ! i)" using assms(2) find_index_Some [of _ "sc_tasks s" i] by (auto simp: alloc_task_slot_def)
  then have "i < k_max_tasks" using assms(1) by (simp add: sched_inv_def sched_shape_def)
  then have "slot_ok s i" using assms(1) by (simp add: sched_inv_def)
  then show ?thesis using i(2) by (auto simp: slot_ok_def task_ok_def Let_def)
qed

lemma view_add_task: "sched_inv s \<Longrightarrow> act_view (snd (add_task n k q p cid cv hv st s)) = act_view s"
  using free_slot_idle [of s] by (auto simp: add_task_def Let_def view_queue_slot view_set_other split: option.split)

lemma view_cancel_slot: "act_view (cancel_slot i s) = act_view s"
proof (cases "Some i = sc_active s")
  case True
  then show ?thesis by (simp add: cancel_slot_def view_set_task)
next
  case False
  have "sc_active (remove_slot_from_queues i s) = sc_active s" by (simp add: remove_slot_from_queues_def Let_def set_task_def)
  with False show ?thesis by (auto simp: cancel_slot_def clear_task_slot_def view_set_other view_remove_slot)
qed

lemma view_interface:
  assumes "sched_inv s"
  shows "act_view (snd (enqueue_exchange t q p s)) = act_view s" "act_view (snd (ensure_periodic_exchange t q s)) = act_view s"
    "act_view (snd (cancel_periodic_exchange t s)) = act_view s" "act_view (snd (add_staged_command_task n tq s)) = act_view s"
    "act_view (snd (enqueue_command t cid v hv q s)) = act_view s"
  using assms by (auto simp: enqueue_exchange_def ensure_periodic_exchange_def cancel_periodic_exchange_def add_staged_command_task_def
      enqueue_command_def view_add_task view_cancel_slot view_update_class view_set_task split: option.split)

lemma view_node_steps: "sched_inv s \<Longrightarrow> act_view (run_node_step_order om s) = act_view s"
proof -
  have p: "sched_inv u \<Longrightarrow> sched_inv (apply_periodic_policy om t u) \<and> act_view (apply_periodic_policy om t u) = act_view u" for t u
    by (auto simp: apply_periodic_policy_def Let_def cancel_periodic_exchange_def inv_ensure view_interface view_cancel_slot
        dest: periodic_slot intro!: inv_cancel_slot split: option.split)
  show "sched_inv s \<Longrightarrow> act_view (run_node_step_order om s) = act_view s"
    unfolding run_node_step_order_def G_NODE_STEP_ORDER_def tcs_step_def pss_step_def tms_step_def mns_step_def ls_step_def
    by (simp add: p)
qed

lemma view_drain: "act_view (fst (drain_completions s om)) = act_view s"
proof (induction s om rule: drain_completions.induct)
  case (1 s om)
  show ?case
  proof (cases "sc_completions s")
    case Nil
    then show ?thesis by (subst drain_completions.simps) (simp add: try_pop_completion_def)
  next
    case (Cons c cs)
    then have p: "try_pop_completion s = (Some c, s\<lparr>sc_completions := cs\<rparr>)" by (simp add: try_pop_completion_def)
    show ?thesis using "1.IH" [OF p [symmetric] refl] p by (subst drain_completions.simps) simp
  qed
qed

text \<open>None of these operations touches the command buffer, which the exchange may be sending from.\<close>

lemma buf_slots [simp]:
  "sc_msg_cmd_buf (set_task i f s) = sc_msg_cmd_buf s" "sc_msg_cmd_buf (queue_task_slot i s) = sc_msg_cmd_buf s"
  "sc_msg_cmd_buf (remove_slot_from_queues i s) = sc_msg_cmd_buf s" "sc_msg_cmd_buf (clear_task_slot i s) = sc_msg_cmd_buf s"
  "sc_msg_cmd_buf (update_task_queue_class i q s) = sc_msg_cmd_buf s"
  by (simp_all add: set_task_def queue_task_slot_def remove_slot_from_queues_def clear_task_slot_def update_task_queue_class_def Let_def)

lemma buf_add_task [simp]: "sc_msg_cmd_buf (snd (add_task n k q p cid cv hv st s)) = sc_msg_cmd_buf s" "sc_msg_cmd_buf (cancel_slot i s) = sc_msg_cmd_buf s"
  by (auto simp: add_task_def cancel_slot_def Let_def split: option.split)

lemma buf_interface [simp]:
  "sc_msg_cmd_buf (snd (enqueue_exchange t q p s)) = sc_msg_cmd_buf s" "sc_msg_cmd_buf (snd (ensure_periodic_exchange t q s)) = sc_msg_cmd_buf s"
  "sc_msg_cmd_buf (snd (cancel_periodic_exchange t s)) = sc_msg_cmd_buf s" "sc_msg_cmd_buf (snd (add_staged_command_task n tq s)) = sc_msg_cmd_buf s"
  "sc_msg_cmd_buf (snd (enqueue_command t cid v hv q s)) = sc_msg_cmd_buf s"
  by (auto simp: enqueue_exchange_def ensure_periodic_exchange_def cancel_periodic_exchange_def add_staged_command_task_def
      enqueue_command_def split: option.split)

lemma buf_node_steps: "sc_msg_cmd_buf (run_node_step_order om s) = sc_msg_cmd_buf s"
proof -
  have "sc_msg_cmd_buf (apply_periodic_policy om t u) = sc_msg_cmd_buf u" for t u by (auto simp: apply_periodic_policy_def Let_def)
  then show ?thesis
    unfolding run_node_step_order_def G_NODE_STEP_ORDER_def tcs_step_def pss_step_def tms_step_def mns_step_def ls_step_def by simp
qed

lemma buf_drain: "sc_msg_cmd_buf (fst (drain_completions s om)) = sc_msg_cmd_buf s"
proof (induction s om rule: drain_completions.induct)
  case (1 s om)
  show ?case
  proof (cases "sc_completions s")
    case Nil
    then show ?thesis by (subst drain_completions.simps) (simp add: try_pop_completion_def)
  next
    case (Cons c cs)
    then have p: "try_pop_completion s = (Some c, s\<lparr>sc_completions := cs\<rparr>)" by (simp add: try_pop_completion_def)
    show ?thesis using "1.IH" [OF p [symmetric] refl] p by (subst drain_completions.simps) simp
  qed
qed

text \<open>A step of CS that leaves the line, the command buffer and the active task alone.\<close>

definition aside :: "cs_env \<Rightarrow> cs_env \<Rightarrow> bool" where
  "aside e e' \<longleftrightarrow> line (cs_bus e') = line (cs_bus e) \<and> act_view (cs_sched e') = act_view (cs_sched e) \<and>
     b_cmd_buf (cs_bus e') = b_cmd_buf (cs_bus e)"

lemma aside_refl [simp]: "aside e e"
  by (simp add: aside_def)

lemma aside_trans: "aside e1 e2 \<Longrightarrow> aside e2 e3 \<Longrightarrow> aside e1 e3"
  by (simp add: aside_def)

lemma line_store: "line (cs_bus (store_sched s e)) = line (cs_bus e)"
  by (simp add: store_sched_def line_def)

lemma view_load: "act_view (load_sched e) = act_view (cs_sched e)"
proof -
  have "act_view (s\<lparr>sc_msg_cmd := x, sc_msg_cmd_buf := y\<rparr>) = act_view s" for s x y by (simp add: act_view_def)
  then show ?thesis by (simp only: load_sched_def Let_def)
qed

lemma buf_store: "sc_msg_cmd_buf s = sc_msg_cmd_buf (load_sched e) \<Longrightarrow> b_cmd_buf (cs_bus (store_sched s e)) = b_cmd_buf (cs_bus e)"
  by (simp add: store_sched_def load_sched_def Let_def split: if_splits)

lemma aside_on_sched: "act_view (f (load_sched e)) = act_view (load_sched e) \<Longrightarrow> sc_msg_cmd_buf (f (load_sched e)) = sc_msg_cmd_buf (load_sched e) \<Longrightarrow>
    aside e (on_sched f e)"
  by (simp add: aside_def on_sched_def line_store view_load buf_store) (simp add: store_sched_def)

lemma aside_om: "aside e (e\<lparr>cs_om := om\<rparr>)"
  by (simp add: aside_def)

lemma load_inv: "cs_inv e \<Longrightarrow> sched_inv (load_sched e)"
  using load_ok [of e] by (simp add: cs_sched_ok_def)

lemma aside_handle:
  assumes "cs_inv e" "handle_command c e = Some e'"
  shows "aside e e'"
proof -
  note v = view_interface [OF load_inv [OF assms(1)]]
  have ex: "aside e (handle_exchange_command c e)" "aside e (handle_cmd_command c e)" "aside e (handle_sendcmd_command c e)"
    by (auto simp: handle_exchange_command_def handle_cmd_command_def handle_sendcmd_command_def Let_def v intro!: aside_on_sched split: option.split)
  have om: "aside e (handle_enable_command c e)" "aside e (handle_disable_command c e)" "aside e (handle_focus_command c e)"
    "aside e (handle_nominal_command e)"
    by (auto simp: handle_enable_command_def handle_disable_command_def handle_focus_command_def handle_nominal_command_def aside_om split: option.split)
  have im: "aside e e1" if "cs_imsgset i x e = Some (st, e1)" for i x st e1
    using that by (auto simp: cs_imsgset_def put_cs_ctx_def aside_def line_def)
  have st: "aside e e1" if "handle_stagecmd_command c e = Some e1" for e1
    using that im by (auto simp: handle_stagecmd_command_def Let_def split: option.splits if_splits)
  show ?thesis using assms(2) ex om st unfolding handle_command_def by (auto split: if_splits)
qed

lemma aside_handle_all:
  "cs_inv e \<Longrightarrow> \<forall>c \<in> set cs. sendable (cm_value c) \<Longrightarrow> fold (\<lambda>c r. Option.bind r (handle_command c)) cs (Some e) = Some e' \<Longrightarrow> aside e e'"
proof (induction cs arbitrary: e)
  case (Cons c cs)
  obtain e1 where 1: "handle_command c e = Some e1" "cs_inv e1" using handle_command_ok [OF Cons.prems(1), of c] Cons.prems(2) by auto
  have "aside e1 e'" using Cons.IH [OF 1(2)] Cons.prems 1(1) by simp
  with aside_handle [OF Cons.prems(1) 1(1)] show ?case by (rule aside_trans)
qed simp

text \<open>The first part of a tick: the clock, the console, the operating mode and the nodes.\<close>

definition cs_front :: "u32 \<Rightarrow> console \<times> cs_env \<Rightarrow> (console \<times> cs_env) option" where
  "cs_front t = (\<lambda>(con, e). map_option (\<lambda>(con1, e1). (con1, ICSNODES (CS_LOCALSYSALG (ICSHIALG e1))))
     (control_bridge_step con (e\<lparr>cs_bus := (cs_bus e)\<lparr>b_writer_tick := t\<rparr>,
        cs_soft := (cs_soft e)\<lparr>ss_current_tick := t, ss_tick := ISYSTEP (ss_tick (cs_soft e))\<rparr>\<rparr>)))"

lemma cs_front_ok:
  assumes "console_ok con" "cs_inv e"
  obtains con' e' where "cs_front t (con, e) = Some (con', e')" "console_ok con'" "cs_inv e'" "aside e e'" "waiting_for tgt_cs con' = []"
proof -
  let ?e1 = "e\<lparr>cs_bus := (cs_bus e)\<lparr>b_writer_tick := t\<rparr>, cs_soft := (cs_soft e)\<lparr>ss_current_tick := t, ss_tick := ISYSTEP (ss_tick (cs_soft e))\<rparr>\<rparr>"
  have e1: "cs_inv ?e1" using assms(2) bus_ok_layout(6) by (simp add: cs_inv_def)
  obtain con' e2 where b: "control_bridge_step con ?e1 = Some (con', e2)" "cs_inv e2" "waiting_for tgt_cs con' = []"
    "fold (\<lambda>c r. Option.bind r (handle_command c)) (waiting_for tgt_cs con) (Some ?e1) = Some e2" "console_ok con'"
    by (rule bridge_ok [OF assms(1) e1])
  have w: "\<forall>c \<in> set (waiting_for tgt_cs con). sendable (cm_value c)"
    using console_okD [OF assms(1), of 0] console_okD [OF assms(1), of 1] by (auto simp: waiting_for_def ctl_target_index_def)
  have "aside e ?e1" by (simp add: aside_def line_def)
  from aside_trans [OF this aside_handle_all [OF e1 w b(4)]] have 1: "aside e e2" .
  have h: "cs_inv (ICSHIALG e2)" by (rule hialg_ok [OF b(2)])
  have "act_view (fst (om_step (load_sched e2) (cs_om e2))) = act_view (load_sched e2)"
    by (simp add: om_step_def update_completion_feedback_def case_prod_unfold Let_def view_drain)
  moreover have hb: "sc_msg_cmd_buf (fst (om_step (load_sched e2) (cs_om e2))) = sc_msg_cmd_buf (load_sched e2)"
    by (simp add: om_step_def update_completion_feedback_def case_prod_unfold Let_def buf_drain)
  ultimately have 2: "aside e2 (ICSHIALG e2)"
    by (simp add: ICSHIALG_def case_prod_unfold Let_def aside_def line_store view_load buf_store hb) (simp add: store_sched_def)
  have 3: "aside (ICSHIALG e2) (ICSNODES (ICSHIALG e2))"
    unfolding ICSNODES_def by (rule aside_on_sched) (rule view_node_steps [OF load_inv [OF h]], rule buf_node_steps)
  have "cs_front t (con, e) = Some (con', ICSNODES (ICSHIALG e2))" by (simp add: cs_front_def b(1) CS_LOCALSYSALG_def)
  then show thesis by (rule that) (use b(3,5) nodes_ok [OF h] aside_trans [OF aside_trans [OF 1 2] 3] in blast)+
qed

lemma cs_step_front:
  assumes "cs_inv e"
  shows "cs_runtime_step t rx (con, e) = (case cs_front t (con, e) of None \<Rightarrow> (None, None)
    | Some (con1, e1) \<Rightarrow> (case CS_IBUSEXCHANGE rx (ICSSCHEDULER e1) of (w, e2) \<Rightarrow> (w, map_option (Pair con1) e2)))"
proof -
  have i: "ss_initialized (cs_soft e)" "cs_init_bus_state e = e" using assms by (simp_all add: cs_init_bus_state_def cs_inv_def)
  have sw: "e\<lparr>cs_soft := x, cs_bus := y\<rparr> = e\<lparr>cs_bus := y, cs_soft := x\<rparr>" for x y by simp
  show ?thesis
    by (simp add: cs_runtime_step_def i Let_def ICSBASEALG_def ICSALG_def cs_front_def option.case_eq_if case_prod_unfold map_option_case)
qed

subsection \<open>What PSS does besides the exchange\<close>

definition pss_aside :: "pss_env \<Rightarrow> pss_env \<Rightarrow> bool" where
  "pss_aside e e' \<longleftrightarrow> line (ps_bus e') = line (ps_bus e) \<and> b_cmd_buf (ps_bus e') = b_cmd_buf (ps_bus e)"

lemma pss_aside_refl [simp]: "pss_aside e e" "pss_aside e (e\<lparr>ps_mem := m\<rparr>)" "pss_aside e (e\<lparr>ps_soft := s\<rparr>)"
  by (simp_all add: pss_aside_def)

lemma pss_aside_trans: "pss_aside e1 e2 \<Longrightarrow> pss_aside e2 e3 \<Longrightarrow> pss_aside e1 e3"
  by (simp add: pss_aside_def)

lemma pss_aside_clear: "pss_aside e (clear_command c (e\<lparr>ps_mem := m\<rparr>))" "pss_aside e (clear_command c (e\<lparr>ps_soft := s\<rparr>))"
  by (simp_all add: clear_command_def put_pss_ctx_def pss_aside_def line_def)

lemma pss_aside_apply:
  "apply_i32_command c p v e = Some (b, e') \<Longrightarrow> pss_aside e e'" "apply_f32_command c p e = Some (b, e') \<Longrightarrow> pss_aside e e'"
  "apply_value_command c p e = Some e' \<Longrightarrow> pss_aside e e'"
  by (auto simp: apply_i32_command_def apply_f32_command_def apply_value_command_def pss_aside_clear split: if_splits option.splits prod.splits)

lemma pss_aside_execute: "execute_system_command c e = Some e' \<Longrightarrow> pss_aside e e'"
  unfolding execute_system_command_def by (auto simp: pss_aside_apply pss_aside_clear split: if_splits)

lemma pss_aside_loop: "system_command_loop cs e = Some e' \<Longrightarrow> pss_aside e e'"
proof (induction cs arbitrary: e)
  case (Cons c cs)
  then show ?case by (auto intro: pss_aside_trans [OF pss_aside_execute] split: if_splits option.splits)
qed simp

lemma pss_aside_sysalg: "ISYSALG (hk_ISYSALG pss_base_hooks) (Some e) = Some e' \<Longrightarrow> pss_aside e e'"
proof -
  assume "ISYSALG (hk_ISYSALG pss_base_hooks) (Some e) = Some e'"
  then obtain e1 where 1: "apply_system_commands e = Some e1" "IPRMUPD e1 = Some e'"
    by (auto simp: ISYSALG_def pss_base_hooks_def call_hook_def ICMDUPD_def PSS_LOCALSYSALG_def ISYSNODES_def Option.bind_eq_Some_conv)
  have "pss_aside e1 e'" using 1(2) by (auto simp: IPRMUPD_def put_pss_ctx_def ISYS_SYNC_MSGPRM_TO_BUF_def pss_aside_def line_def Let_def)
  with pss_aside_loop [of _ e e1] 1(1) show ?thesis unfolding apply_system_commands_def by (blast intro: pss_aside_trans)
qed

lemma pss_aside_power: "ICMDPWRUPD e = Some e' \<Longrightarrow> pss_aside e e'"
proof -
  have x: "pss_aside e e'" if "execute_power_command c e = Some e'" for c e e'
    using that by (auto simp: execute_power_command_def pss_aside_apply split: if_splits)
  have r: "pss_aside e e'" if "set_rail_off p e = Some e'" for p e e'
    using that by (auto simp: set_rail_off_def)
  show "ICMDPWRUPD e = Some e' \<Longrightarrow> pss_aside e e'"
    unfolding ICMDPWRUPD_def apply_power_commands_def
    by (auto simp: Option.bind_eq_Some_conv split: option.splits if_splits dest!: x r) (simp_all add: pss_aside_def)
qed

text \<open>The slots of the power commands: the commands of the system leave them, the power commands clear them.\<close>

definition pss_power :: "pss_env \<Rightarrow> u32 \<times> u32" where
  "pss_power e = (pss_slot e CPSSPWROFF, pss_slot e CPSSPWRON)"

lemma power_ids: "CPSSPWRON \<in> set pss_ids" "CPSSPWROFF \<in> set pss_ids"
  by (simp_all add: pss_ids_def CPSS_BASE_def CPSS_COUNT_def)

lemma power_same: "b_cmd (ps_bus e') = b_cmd (ps_bus e) \<Longrightarrow> pss_power e' = pss_power e"
  by (simp add: pss_power_def pss_slot_def cmd_mem_def)

lemma power_sysalg:
  assumes "pss_ok e" "ISYSALG (hk_ISYSALG pss_base_hooks) (Some e) = Some e'"
  shows "pss_power e' = pss_power e"
proof -
  obtain e1 where 1: "apply_system_commands e = Some e1" "IPRMUPD e1 = Some e'"
    using assms(2) by (auto simp: ISYSALG_def pss_base_hooks_def call_hook_def ICMDUPD_def PSS_LOCALSYSALG_def ISYSNODES_def Option.bind_eq_Some_conv)
  have "pss_power e1 = pss_power e"
    using system_commands_eq [of e] assms(1) 1(1) power_ids by (metis option.sel pss_ok_def pss_power_def)
  moreover have "pss_ok e1" using system_commands_eq [of e] assms(1) 1(1) by (metis option.sel pss_ok_def)
  then obtain ys where "IPRMUPD e1 = Some (e1\<lparr>ps_bus := (ps_bus e1)\<lparr>b_prm := Some ys, b_prm_buf := Some ys\<rparr>\<rparr>)"
    using IPRMUPD_eq [of e1] by (metis pss_ok_def)
  then have "pss_power e' = pss_power e1" using 1(2) by (intro power_same) auto
  ultimately show ?thesis by simp
qed

lemma pss_step_line:
  assumes "pss_ok e"
  obtains x out b2 e' where "line (ps_bus x) = line (ps_bus e)" "IBUS_EXCHANGE no_bus_hooks rx (ps_bus x) = (out, b2)"
    "pss_runtime_step t rx e = (out, Some e')" "line (ps_bus e') = line b2" "pss_ok e'"
    "b_cmd_buf (ps_bus x) = b_cmd_buf (ps_bus e)" "b_cmd_buf (ps_bus e') = b_cmd_buf b2" "pss_ok x" "pss_power x = pss_power e"
    "ICMDPWRUPD (x\<lparr>ps_bus := b2\<rparr>) = Some e'" "pss_ok (x\<lparr>ps_bus := b2\<rparr>)" "pss_power e' = (0, 0)"
proof -
  obtain w e2 x out b e' where s: "ps_bus e2 = (ps_bus e)\<lparr>b_writer_tick := t\<rparr>" "pss_ok e2"
    "(if w then ISYSALG (hk_ISYSALG pss_base_hooks) (Some e2) else Some e2) = Some x"
    "IBUS_EXCHANGE no_bus_hooks rx (ps_bus x) = (out, b)" "ICMDPWRUPD (x\<lparr>ps_bus := b\<rparr>) = Some e'"
    "pss_runtime_step t rx e = (out, Some e')" "pss_ok e'" "pss_ok (x\<lparr>ps_bus := b\<rparr>)"
    by (rule pss_step_parts [OF assms])
  have "pss_power e2 = pss_power e" by (rule power_same) (simp add: s(1))
  then have px: "pss_power x = pss_power e" using s(3) power_sysalg [OF s(2), of x] by (cases w) simp_all
  have ox: "pss_ok x" using s(2,3) pss_sysalg [OF s(2)] by (cases w) (simp_all, metis option.sel)
  have "pss_aside e2 x" using s(3) pss_aside_sysalg [of e2 x] by (cases w) simp_all
  then have "line (ps_bus x) = line (ps_bus e)" "b_cmd_buf (ps_bus x) = b_cmd_buf (ps_bus e)" using s(1) by (simp_all add: pss_aside_def line_def)
  moreover have "line (ps_bus e') = line b" "b_cmd_buf (ps_bus e') = b_cmd_buf b" using pss_aside_power [OF s(5)] by (simp_all add: pss_aside_def)
  moreover have "pss_power e' = (0, 0)"
    using power_commands_eq [of "x\<lparr>ps_bus := b\<rparr>"] s(5,8) power_ids by (auto simp: pss_power_def ICMDPWRUPD_def pss_ok_def)
  ultimately show thesis using that [of x out b e'] s(4-8) px ox by simp
qed

subsection \<open>The second part of a tick of CS\<close>

definition active_armed :: "cs_env \<Rightarrow> bool" where
  "active_armed e \<longleftrightarrow> (case sc_active (cs_sched e) of None \<Rightarrow> False | Some i \<Rightarrow> t_armed (sc_tasks (cs_sched e) ! i))"

text \<open>The bus address of the node that the active task is for.\<close>

definition active_addr :: "cs_env \<Rightarrow> u8" where
  "active_addr e = (case sc_active (cs_sched e) of None \<Rightarrow> 0
     | Some i \<Rightarrow> (case t_node (sc_tasks (cs_sched e) ! i) of None \<Rightarrow> 0 | Some n \<Rightarrow> nl_bus_addr (sc_nodes (cs_sched e) ! n)))"

definition expected_result :: "u8 \<Rightarrow> exchange_result_t" where
  "expected_result a = (if a = ARP_ADDR_PSS then res_success else res_timeout)"

lemma view_armed: "active_armed e = (case act_view (cs_sched e) of None \<Rightarrow> False | Some (i, u, a, ar, k, n, j) \<Rightarrow> ar)"
  by (simp add: active_armed_def act_view_def core_def split: option.split)

lemma view_addr: "active_addr e = (case act_view (cs_sched e) of None \<Rightarrow> 0
    | Some (i, u, a, ar, k, n, j) \<Rightarrow> (case n of None \<Rightarrow> 0 | Some m \<Rightarrow> nl_bus_addr (sc_nodes (cs_sched e) ! m)))"
  by (simp add: active_addr_def act_view_def core_def split: option.split)

lemma cs_inv_nodes: "cs_inv e \<Longrightarrow> sc_nodes (cs_sched e) = cs_nodes"
  by (simp add: cs_inv_def cs_sched_ok_def)

lemma aside_active:
  assumes "aside e e'" "cs_inv e" "cs_inv e'"
  shows "active_armed e' = active_armed e" "active_addr e' = active_addr e"
proof -
  have n: "sc_nodes (cs_sched e') = sc_nodes (cs_sched e)" using assms(2,3) by (simp only: cs_inv_nodes)
  show "active_armed e' = active_armed e" "active_addr e' = active_addr e"
    using assms(1) by (simp_all only: view_armed view_addr aside_def n)
qed

text \<open>What CS is waiting for agrees with the phase of the conversation.\<close>

definition turn_ok :: "phase \<Rightarrow> cs_env \<Rightarrow> bool" where
  "turn_ok ph e \<longleftrightarrow> (if ph = Rest then active_armed e \<longrightarrow> b_result_ready (cs_bus e) \<and> b_last_result (cs_bus e) = expected_result (active_addr e)
     else active_armed e \<and> outcome ARP_ADDR_PSS ph = expected_result (active_addr e))"

lemma turn_aside: "aside e e' \<Longrightarrow> cs_inv e \<Longrightarrow> cs_inv e' \<Longrightarrow> turn_ok ph e' = turn_ok ph e"
  using line_eqs [of "cs_bus e'" "cs_bus e"] by (simp add: turn_ok_def aside_active) (simp add: aside_def)

lemma pop_active: "sc_active (snd (pop_next_task_slot s)) = sc_active s"
proof -
  have p: "sc_active (snd (pop_priority u)) = sc_active u" "sc_active (snd (pop_normal u)) = sc_active u" for u
    by (simp_all add: pop_priority_def pop_normal_def case_prod_unfold Let_def)
  have q: "pop_priority u = (r, v) \<Longrightarrow> sc_active v = sc_active u" "pop_normal u = (r, v) \<Longrightarrow> sc_active v = sc_active u" for u v r
    using p [of u] by simp_all
  show ?thesis unfolding pop_next_task_slot_def Let_def by (auto dest!: q split: prod.splits option.splits if_splits)
qed

lemma activate_next_unarmed:
  assumes "sc_active s = None"
  shows "case sc_active (activate_next_task s) of None \<Rightarrow> True | Some i \<Rightarrow> \<not> t_armed (sc_tasks (activate_next_task s) ! i)"
  using pop_active [of s] assms
  by (auto simp: activate_next_task_def activate_task_def Let_def set_task_def split: prod.splits option.splits)

lemma active_set [simp]: "sc_active (set_task i f s) = sc_active s"
  by (simp add: set_task_def)

lemma queue_clear_none: "sc_active (queue_task_slot i s) = sc_active s" "sc_active (clear_task_slot i s) = sc_active s"
  by (simp_all add: queue_task_slot_def clear_task_slot_def Let_def)

text \<open>With the bus at rest the scheduler takes a result that is there; what is active afterwards is not armed.\<close>

lemma scheduler_rest:
  assumes "cs_inv e" "\<not> b_busy (cs_bus e)" "active_armed e \<longrightarrow> b_result_ready (cs_bus e)"
  shows "\<not> active_armed (ICSSCHEDULER e)" "cs_inv (ICSSCHEDULER e)"
    "line (cs_bus (ICSSCHEDULER e)) = line (cs_bus e) \<or>
     line (cs_bus (ICSSCHEDULER e)) = line (IBUS_RESET_FRAME_LAYOUT (IBUS_CLEAR_RESULT (cs_bus e)))"
proof -
  let ?s = "load_sched e"
  obtain bus s where c: "exchange_control (cs_bus e) ?s = (bus, s)" by (cases "exchange_control (cs_bus e) ?s") auto
  have sch: "ICSSCHEDULER e = store_sched s (e\<lparr>cs_bus := bus\<rparr>)" using assms(2) by (simp add: ICSSCHEDULER_def c)
  show "cs_inv (ICSSCHEDULER e)" by (rule scheduler_ok [OF assms(1)])
  have "line (cs_bus (ICSSCHEDULER e)) = line bus" unfolding sch line_store by simp
  then show "line (cs_bus (ICSSCHEDULER e)) = line (cs_bus e) \<or>
     line (cs_bus (ICSSCHEDULER e)) = line (IBUS_RESET_FRAME_LAYOUT (IBUS_CLEAR_RESULT (cs_bus e)))"
    using control_bus [of "cs_bus e" ?s] by (auto simp: c)
  have ready: "sc_ready ?s" using load_ok [OF assms(1)] by (simp add: cs_sched_ok_def)
  have av: "active_armed e = (case sc_active ?s of None \<Rightarrow> False | Some i \<Rightarrow> t_armed (sc_tasks ?s ! i))"
    by (simp add: active_armed_def load_sched_def Let_def split: option.split)
  have "case sc_active s of None \<Rightarrow> True | Some i \<Rightarrow> \<not> t_armed (sc_tasks s ! i)"
  proof (cases "active_armed e")
    case True
    then obtain i where i: "sc_active ?s = Some i" "t_armed (sc_tasks ?s ! i)" using av by (auto split: option.splits)
    have "IBUS_TAKE_RESULT (cs_bus e) = (Some (b_last_result (cs_bus e)), IBUS_CLEAR_RESULT (cs_bus e))"
      using assms(3) True by (simp add: IBUS_TAKE_RESULT_def)
    from finalize_cases [OF i this] c ready have "sc_active s = None"
      by (auto simp: exchange_control_def task_completion_def Let_def queue_clear_none released_def)
    then show ?thesis by simp
  next
    case False
    then have none: "\<nexists>i r bus1. sc_active ?s = Some i \<and> t_armed (sc_tasks ?s ! i) \<and> IBUS_TAKE_RESULT (cs_bus e) = (Some r, bus1)"
      using av by auto
    show ?thesis
    proof (cases "sc_active ?s")
      case None
      then have "s = activate_next_task ?s" using c ready finalize_none [OF none] by (simp add: exchange_control_def no_completion_def)
      with activate_next_unarmed [OF None] show ?thesis by (simp split: option.splits)
    next
      case (Some i)
      then have "s = ?s" using c ready finalize_none [OF none] by (simp add: exchange_control_def no_completion_def)
      with Some False av show ?thesis by simp
    qed
  qed
  then show "\<not> active_armed (ICSSCHEDULER e)" unfolding sch by (simp add: active_armed_def store_sched_def split: option.splits)
qed

lemma cs_node_addr: "n < 5 \<Longrightarrow> nl_bus_addr (cs_nodes ! n) < 32"
proof -
  assume "n < 5"
  have "list_all (\<lambda>n. nl_bus_addr n < 32) cs_nodes \<and> length cs_nodes = 5" unfolding cs_nodes_def by code_simp
  then show ?thesis using \<open>n < 5\<close> by (simp add: list_all_length)
qed

text \<open>The frame of a request for the power system is its whole command message.\<close>

lemma cs_node_pss: "n < 5 \<Longrightarrow> nl_bus_addr (cs_nodes ! n) = ARP_ADDR_PSS \<Longrightarrow> nl_com_cs_base_block (cs_nodes ! n) + nl_com_blocks (cs_nodes ! n) \<le> 16 \<and> nl_com_blocks (cs_nodes ! n) = 8"
proof -
  assume n: "n < 5" "nl_bus_addr (cs_nodes ! n) = ARP_ADDR_PSS"
  have "list_all (\<lambda>n. nl_bus_addr n = ARP_ADDR_PSS \<longrightarrow> nl_com_cs_base_block n + nl_com_blocks n \<le> 16 \<and> nl_com_blocks n = 8) cs_nodes \<and> length cs_nodes = 5"
    unfolding cs_nodes_def by code_simp
  then have "cs_nodes ! n \<in> set cs_nodes" "list_all (\<lambda>n. nl_bus_addr n = ARP_ADDR_PSS \<longrightarrow>
      nl_com_cs_base_block n + nl_com_blocks n \<le> 16 \<and> nl_com_blocks n = 8) cs_nodes" using n(1) by (metis nth_mem, blast)
  then show ?thesis using n(2) unfolding list_all_iff by blast
qed

lemma frame_of_node:
  assumes "b_cmd_blocks b = 16" "b_cmd_buf_blocks b = 8" "nl_com_cs_base_block n + nl_com_blocks n \<le> 16" "nl_com_blocks n = 8"
  shows "cmd_frame_blocks (set_frames n b) = 8"
  using assms by (auto simp: set_frames_def IBUS_SET_CMD_FRAME_def IBUS_SET_PRM_FRAME_def cmd_frame_blocks_def clamp_frame_blocks_def)

lemma frame_bus_rest: "bus_rest b' = bus_rest b \<Longrightarrow> cmd_frame_blocks b' = cmd_frame_blocks b"
proof -
  have "cmd_frame_blocks (bus_rest z) = cmd_frame_blocks z" for z by (simp add: bus_rest_def cmd_frame_blocks_def)
  then show "bus_rest b' = bus_rest b \<Longrightarrow> cmd_frame_blocks b' = cmd_frame_blocks b" by metis
qed

text \<open>What a request that is about to be sent says of the frame of its sender.\<close>

definition frame_ok :: "u8 \<Rightarrow> u8 \<Rightarrow> nat \<Rightarrow> bus_state \<Rightarrow> bool" where
  "frame_ok a f n b \<longleftrightarrow> (f = ARP_FLAG_CMD_REQ \<longrightarrow> n = cmd_frame_blocks b \<and> (a = ARP_ADDR_PSS \<longrightarrow> n = 8))"

text \<open>Arming starts a request.\<close>

lemma arm_rest:
  assumes "cs_inv e" "\<not> active_armed e" "sc_active (cs_sched e) = Some i"
  obtains e' f n where "arm_active_exchange e = Some e'" "cs_inv e'" "active_armed e'" "active_addr e' < 32"
    "f = ARP_FLAG_CMD_REQ \<and> n \<le> 8 \<or> f = ARP_FLAG_DATA_REQ \<and> n = 0" "b_busy (cs_bus e')" "sending (active_addr e') f 0 n 0 (cs_bus e')"
    "frame_ok (active_addr e') f n (cs_bus e')"
proof -
  note Some = assms(3)
  have inv: "sched_inv (cs_sched e)" using assms(1) by (simp add: cs_inv_def cs_sched_ok_def)
  have i: "i < k_max_tasks" "length (sc_tasks (cs_sched e)) = k_max_tasks" "length (sc_nodes (cs_sched e)) = 5"
    using inv Some by (simp_all add: sched_inv_def sched_shape_def)
  let ?t = "sc_tasks (cs_sched e) ! i"
  have "slot_ok (cs_sched e) i" using inv i by (simp add: sched_inv_def)
  then have t: "t_active ?t" "t_used ?t" "has_node 5 ?t" using Some i by (auto simp: slot_ok_def task_ok_def Let_def split: if_splits)
  then obtain n where n: "t_node ?t = Some n" "n < 5" by (auto simp: has_node_def split: option.splits)
  have arm: "armable e i n" using Some i t n assms(2) by (simp add: armable_def Let_def active_armed_def)
  let ?e0 = "e\<lparr>cs_bus := IBUS_RESET_FRAME_LAYOUT (cs_bus e)\<rparr>"
  have st: "sendable_task ?t" using assms(1) i by (simp add: cs_inv_def cs_sched_ok_def)
  have e0: "cs_inv ?e0" by (rule cs_inv_bus [OF assms(1)]) (use assms(1) in \<open>simp add: bus_ok_layout cs_inv_def\<close>)
  obtain e1 where e1: "prepared ?t ?e0 = Some e1"
    "only_commands (?e0\<lparr>cs_bus := set_frames (sc_nodes (cs_sched ?e0) ! n) (cs_bus ?e0)\<rparr>) e1"
    by (rule prepared_keeps [OF e0 st n(1)])
  have c1: "cs_inv e1" "sc_active (cs_sched e1) = Some i" "sc_tasks (cs_sched e1) = sc_tasks (cs_sched e)"
    using e1(2) Some by (simp_all add: only_commands_def)
  let ?f = "request_flag ?t"
  let ?e' = "armed_env i n ?f e1"
  have eq: "arm_active_exchange e = Some ?e'" unfolding arm_cases(2) [OF arm] e1(1) by simp
  obtain e2 where "arm_active_exchange e = Some e2" "cs_inv e2" using arm_ok [OF assms(1)] by blast
  then have inv': "cs_inv ?e'" using eq by simp
  have av: "active_armed ?e'" "active_addr ?e' = nl_bus_addr (cs_nodes ! n)"
    using c1 i n(1) cs_inv_nodes [OF c1(1)] by (simp_all add: active_armed_def active_addr_def armed_env_def set_task_def)
  have f: "?f = ARP_FLAG_CMD_REQ \<or> ?f = ARP_FLAG_DATA_REQ" by (simp add: request_flag_def)
  define m where "m = (if ?f = ARP_FLAG_CMD_REQ then cmd_frame_blocks (cs_bus ?e') else 0)"
  have bok: "cs_bus_ok (cs_bus ?e')" using inv' by (simp add: cs_inv_def)
  have "b_cmd_buf_blocks (cs_bus ?e') = 8" using bok by (simp add: cs_bus_ok_def)
  then have "cmd_frame_blocks (cs_bus ?e') \<le> 8" using frame_blocks_bound(1) [of "cs_bus ?e'"] by simp
  moreover have "m \<le> cmd_frame_blocks (cs_bus ?e')" by (simp add: m_def)
  ultimately have m: "?f = ARP_FLAG_CMD_REQ \<and> m \<le> 8 \<or> ?f = ARP_FLAG_DATA_REQ \<and> m = 0" using f by (auto simp: m_def)
  have bf: "b_exchange_flag (cs_bus ?e') = ex_tx" "b_tx_flag (cs_bus ?e') = tx_sof" "b_msg_flag (cs_bus ?e') = ?f"
    "b_target_addr (cs_bus ?e') = nl_bus_addr (sc_nodes (cs_sched e1) ! n)" "b_busy (cs_bus ?e')"
    by (simp_all add: armed_env_def start_exchange_def IBUS_CLEAR_RESULT_def)
  have hh: "has_header (cs_bus ?e')" using bok by (simp add: cs_bus_ok_def has_header_def)
  have "calc_nblocks (cs_bus ?e') = of_nat m" using f bf(3) by (auto simp: calc_nblocks_def m_def)
  then have s: "sending (active_addr ?e') ?f 0 m 0 (cs_bus ?e')"
    using bf hh cs_inv_nodes [OF c1(1)] by (simp add: sending_def av(2))
  have "active_addr ?e' < 32" using cs_node_addr [OF n(2)] by (simp add: av(2))
  moreover have "frame_ok (active_addr ?e') ?f m (cs_bus ?e')"
  proof -
    have eb: "cs_bus_ok (cs_bus ?e0)" using e0 by (simp add: cs_inv_def)
    have "cmd_frame_blocks (cs_bus ?e') = cmd_frame_blocks (cs_bus e1)"
      by (simp add: armed_env_def start_exchange_def IBUS_CLEAR_RESULT_def cmd_frame_blocks_def)
    also have "\<dots> = cmd_frame_blocks (set_frames (cs_nodes ! n) (cs_bus ?e0))"
      using e1(2) cs_inv_nodes [OF e0] by (intro frame_bus_rest) (simp add: only_commands_def)
    finally have fe: "cmd_frame_blocks (cs_bus ?e') = cmd_frame_blocks (set_frames (cs_nodes ! n) (cs_bus ?e0))" .
    have "b_cmd_blocks (cs_bus ?e0) = 16" "b_cmd_buf_blocks (cs_bus ?e0) = 8" using eb by (simp_all only: cs_bus_ok_def)
    from frame_of_node [OF this] cs_node_pss [OF n(2)]
    have "nl_bus_addr (cs_nodes ! n) = ARP_ADDR_PSS \<longrightarrow> cmd_frame_blocks (cs_bus ?e') = 8" unfolding fe by blast
    then show ?thesis by (auto simp: frame_ok_def m_def av(2))
  qed
  ultimately show thesis using that [OF eq inv' av(1) _ m bf(5) s] by blast
qed

subsection \<open>The system\<close>

text \<open>
  The nodes as functions of the byte they read; a node whose step is undefined is \<open>None\<close> from then on.
  A tick of the system is what \<open>sim_operator.cpp\<close> does between two completions of its barrier.
\<close>

definition cs_node_fn :: "u32 \<Rightarrow> (console \<times> cs_env) option node_fn" where
  "cs_node_fn t rx x = (case x of None \<Rightarrow> (None, None) | Some s \<Rightarrow> cs_runtime_step t rx s)"

definition pss_node_fn :: "u32 \<Rightarrow> pss_env option node_fn" where
  "pss_node_fn t rx x = (case x of None \<Rightarrow> (None, None) | Some e \<Rightarrow> pss_runtime_step t rx e)"

type_synonym system = "mock_bus \<times> (console \<times> cs_env) option \<times> pss_env option"

definition system_start :: "pss_env \<Rightarrow> system" where
  "system_start p = (mock_bus_init, Some (console0, cs_runtime_init cs_env0), Some (pss_runtime_init p))"

definition system_tick :: "u32 \<Rightarrow> system \<Rightarrow> system" where
  "system_tick t = pair_tick mock_bus_read_u8 mock_bus_write_u8 mock_bus_tick (cs_node_fn t) (pss_node_fn t) t"

text \<open>
  What may happen between two ticks: a line of the terminal or of the control file, a step of the model.
  A line whose finite value is above \<open>2 ^ 61\<close> in magnitude is not among them (\<open>large_value_undefined\<close> of
  \<open>CsRun\<close> says why).
\<close>

inductive between :: "system \<Rightarrow> system \<Rightarrow> bool" where
  idle: "between s s"
| typed: "between s (b, Some (con, e), y) \<Longrightarrow> sendable_line l \<Longrightarrow> between s (b, Some (snd (console_line l con), e), y)"
| filed: "between s (b, Some (con, e), y) \<Longrightarrow> sendable_line l \<Longrightarrow> between s (b, Some (file_line l con, e), y)"
| model: "between s (b, x, Some p) \<Longrightarrow> pss_typed m \<Longrightarrow> exportable m \<Longrightarrow> between s (b, x, Some (p\<lparr>ps_mem := m\<rparr>))"

text \<open>A run of \<open>k\<close> ticks, from a state before tick \<open>t\<close> to one before tick \<open>t + k\<close>.\<close>

inductive system_run :: "u32 \<Rightarrow> system \<Rightarrow> nat \<Rightarrow> system \<Rightarrow> bool" for t s where
  run_start: "between s s' \<Longrightarrow> system_run t s 0 s'"
| run_tick: "system_run t s k s' \<Longrightarrow> between (system_tick (t + of_nat k) s') s'' \<Longrightarrow> system_run t s (Suc k) s''"

text \<open>A request with commands for the power system is one of 8 blocks.\<close>

definition whole_frame :: "phase \<Rightarrow> bool" where
  "whole_frame ph \<longleftrightarrow> (\<forall>n i. ph = Asking ARP_ADDR_PSS ARP_FLAG_CMD_REQ n i \<longrightarrow> n = 8)"

text \<open>The invariant, on the byte that is on the wire and the two nodes.\<close>

definition wire_ok :: "phase \<Rightarrow> u8 option \<times> (console \<times> cs_env) option \<times> pss_env option \<Rightarrow> bool" where
  "wire_ok ph = (\<lambda>(c, x, y). \<exists>con e p. x = Some (con, e) \<and> y = Some p \<and> console_ok con \<and> cs_inv e \<and> pss_ok p \<and>
     link ARP_ADDR_CS ARP_ADDR_PSS 15 ph (c, cs_bus e, ps_bus p) \<and> turn_ok ph e \<and> ticks_left ARP_ADDR_PSS 15 ph \<le> 39 \<and>
     carried ph c (cs_bus e) (ps_bus p) \<and> whole_frame ph \<and> pss_power p = (0, 0))"

definition system_ok :: "u32 \<Rightarrow> phase \<Rightarrow> system \<Rightarrow> bool" where
  "system_ok t ph = (\<lambda>(b, x, y). bus_quiet b \<and> wire_ok ph (mock_bus_read_u8 b t, x, y))"

text \<open>One tick of CS while it waits, and at rest.\<close>

lemma cs_busy_tick:
  assumes "console_ok con" "cs_inv e" "b_busy (cs_bus e)"
  obtains con' e1 w e' where "cs_runtime_step t rx (con, e) = (w, Some (con', e'))" "console_ok con'" "cs_inv e'" "aside e e1" "cs_inv e1"
    "IBUS_EXCHANGE no_bus_hooks rx (cs_bus e1) = (w, cs_bus e')" "cs_sched e' = cs_sched e1"
proof -
  obtain con' e1 where f: "cs_front t (con, e) = Some (con', e1)" "console_ok con'" "cs_inv e1" "aside e e1"
    by (rule cs_front_ok [OF assms(1,2)])
  have b: "b_busy (cs_bus e1)" using f(4) assms(3) line_eqs(9) [of "cs_bus e1" "cs_bus e"] by (simp add: aside_def)
  obtain w z where x: "IBUS_EXCHANGE no_bus_hooks rx (cs_bus e1) = (w, z)" by (cases "IBUS_EXCHANGE no_bus_hooks rx (cs_bus e1)") auto
  have "CS_IBUSEXCHANGE rx (ICSSCHEDULER e1) = (w, Some (e1\<lparr>cs_bus := z\<rparr>))" using b x by (simp add: CS_IBUSEXCHANGE_def ICSSCHEDULER_def)
  then have st: "cs_runtime_step t rx (con, e) = (w, Some (con', e1\<lparr>cs_bus := z\<rparr>))" by (simp add: cs_step_front [OF assms(2)] f(1))
  have "cs_bus_ok z" using exchange_bus_ok [of "cs_bus e1" rx] f(3) x by (simp add: cs_inv_def)
  then have "cs_inv (e1\<lparr>cs_bus := z\<rparr>)" by (rule cs_inv_bus [OF f(3)])
  with st f x that show thesis by simp
qed

lemma cs_rest_tick:
  assumes "console_ok con" "cs_inv e" "link A D R Rest (None, cs_bus e, d)" "turn_ok Rest e"
  obtains con' e1 w e' where "cs_runtime_step t None (con, e) = (w, Some (con', e'))" "console_ok con'" "cs_inv e'" "cs_inv e1"
    "IBUS_EXCHANGE no_bus_hooks None (cs_bus e1) = (w, cs_bus e')" "cs_sched e' = cs_sched e1"
    "\<not> active_armed e1 \<and> link A D R Rest (None, cs_bus e1, d) \<or>
     (\<exists>f n. active_armed e1 \<and> link A D R (Asking (active_addr e1) f n 0) (None, cs_bus e1, d) \<and>
       (f = ARP_FLAG_CMD_REQ \<and> n \<le> 8 \<or> f = ARP_FLAG_DATA_REQ \<and> n = 0) \<and> frame_ok (active_addr e1) f n (cs_bus e1))"
proof -
  obtain con' e1 where f: "cs_front t (con, e) = Some (con', e1)" "console_ok con'" "cs_inv e1" "aside e e1"
    by (rule cs_front_ok [OF assms(1,2)])
  have l1: "link A D R Rest (None, cs_bus e1, d)" using assms(3) link_line [of "cs_bus e1" "cs_bus e" d d] f(4) by (simp add: aside_def)
  have t1: "turn_ok Rest e1" using turn_aside [OF f(4) assms(2) f(3)] assms(4) by simp
  define e2 where "e2 = ICSSCHEDULER e1"
  have nb: "\<not> b_busy (cs_bus e1)" using l1 by (simp add: link_def)
  have ready: "active_armed e1 \<longrightarrow> b_result_ready (cs_bus e1)" using t1 by (simp add: turn_ok_def)
  note s = scheduler_rest [OF f(3) nb ready, folded e2_def]
  note e2 = s(1,2)
  have l2: "link A D R Rest (None, cs_bus e2, d)"
  proof -
    have "link A D R Rest (None, IBUS_RESET_FRAME_LAYOUT (IBUS_CLEAR_RESULT (cs_bus e1)), d)"
      using l1 by (simp add: link_def paired_def home_def has_header_def IBUS_RESET_FRAME_LAYOUT_def IBUS_CLEAR_RESULT_def)
    with s(3) l1 link_line [of "cs_bus e2" _ d d] show ?thesis by blast
  qed
  then have nb2: "\<not> b_busy (cs_bus e2)" by (simp add: link_def)
  obtain e3 where e3: "arm_active_exchange e2 = Some e3" "cs_inv e3"
    "\<not> active_armed e3 \<and> link A D R Rest (None, cs_bus e3, d) \<or>
     (\<exists>f n. active_armed e3 \<and> link A D R (Asking (active_addr e3) f n 0) (None, cs_bus e3, d) \<and>
       (f = ARP_FLAG_CMD_REQ \<and> n \<le> 8 \<or> f = ARP_FLAG_DATA_REQ \<and> n = 0) \<and> frame_ok (active_addr e3) f n (cs_bus e3))"
  proof (cases "sc_active (cs_sched e2)")
    case None
    then have "arm_active_exchange e2 = Some e2" by (simp add: arm_active_exchange_def)
    then show thesis using that [of e2] e2 l2 by blast
  next
    case (Some i)
    obtain e3 f n where a: "arm_active_exchange e2 = Some e3" "cs_inv e3" "active_armed e3" "active_addr e3 < 32"
      "f = ARP_FLAG_CMD_REQ \<and> n \<le> 8 \<or> f = ARP_FLAG_DATA_REQ \<and> n = 0" "b_busy (cs_bus e3)" "sending (active_addr e3) f 0 n 0 (cs_bus e3)" "frame_ok (active_addr e3) f n (cs_bus e3)"
      by (rule arm_rest [OF e2(2,1) Some])
    have "on_wire (active_addr e3) f 0 n 0 None (cs_bus e3) d" using a(7) by (simp add: on_wire_def)
    moreover have "paired A D R (cs_bus e3) d"
    proof -
      have "b_role (cs_bus e3) = bus_master" "b_self_addr (cs_bus e3) = ARP_ADDR_CS" "b_self_addr (cs_bus e2) = ARP_ADDR_CS"
        using a(2) e2(2) by (simp_all add: cs_inv_def cs_bus_ok_def)
      then show ?thesis using l2 line_has_header(1) [OF a(7)] by (simp add: link_def paired_def)
    qed
    ultimately have "link A D R (Asking (active_addr e3) f n 0) (None, cs_bus e3, d)" using a l2 by (auto simp: link_def)
    with a(1-3,5,8) that show thesis by blast
  qed
  obtain w z where x: "IBUS_EXCHANGE no_bus_hooks None (cs_bus e3) = (w, z)" by (cases "IBUS_EXCHANGE no_bus_hooks None (cs_bus e3)") auto
  have "CS_IBUSEXCHANGE None (ICSSCHEDULER e1) = (w, Some (e3\<lparr>cs_bus := z\<rparr>))"
    using nb2 e3(1) x by (simp add: CS_IBUSEXCHANGE_def e2_def [symmetric])
  then have st: "cs_runtime_step t None (con, e) = (w, Some (con', e3\<lparr>cs_bus := z\<rparr>))" by (simp add: cs_step_front [OF assms(2)] f(1))
  have "cs_bus_ok z" using exchange_bus_ok [of "cs_bus e3" None] e3(2) x by (simp add: cs_inv_def)
  then have "cs_inv (e3\<lparr>cs_bus := z\<rparr>)" by (rule cs_inv_bus [OF e3(2)])
  with st f(2) e3 x that show thesis by simp
qed

lemma link_busy: "link A D R ph (c, m, d) \<Longrightarrow> ph \<noteq> Rest \<Longrightarrow> b_busy m"
  by (cases ph) (simp_all add: link_def)

lemma next_phase_outcome: "next_phase D R ph \<noteq> Rest \<Longrightarrow> outcome D (next_phase D R ph) = outcome D ph"
  by (cases ph) (auto split: if_splits)

lemma next_phase_ticks:
  assumes "link A D R ph (c, m, d)" "ph \<noteq> Rest"
  shows "ticks_left D R ph = Suc (ticks_left D R (next_phase D R ph))"
  using assms by (cases ph) (auto simp: link_def)

lemma nodes_roomy:
  assumes "cs_inv e" "pss_ok p" "link A D R ph (c, cs_bus e, ps_bus p)"
  shows "roomy (cs_bus e) (ps_bus p)"
proof -
  have sz: "comm_msg_blocks SYS_PSS = 8" by code_simp
  have m: "cs_bus_ok (cs_bus e)" using assms(1) by (simp add: cs_inv_def)
  have d: "pss_bus_ok (ps_bus p)" by (rule pss_ok_bus [OF assms(2)])
  have "cmd_frame_blocks (ps_bus p) = 8" using assms(3) d by (intro default_room) (simp_all add: link_def paired_def pss_bus_ok_def sz)
  moreover have "cmd_frame_blocks (cs_bus e) \<le> 8" using m frame_blocks_bound(1) [of "cs_bus e"] by (simp add: cs_bus_ok_def)
  moreover have "stocked (cs_bus e)" using m by (auto simp: stocked_def cs_bus_ok_def span_ok_def)
  moreover have "stocked (ps_bus p)" using d by (auto simp: stocked_def pss_bus_ok_def bus_bound_def span_ok_def sz)
  ultimately show ?thesis by (simp add: roomy_def)
qed

lemma next_whole: "whole_frame ph \<Longrightarrow> whole_frame (next_phase D R ph)"
  by (cases ph) (auto simp: whole_frame_def split: if_splits)

text \<open>One tick on the wire.\<close>

lemma wire_step:
  assumes "wire_ok ph (c, Some (con, e), Some p)"
  obtains ph' om con' e' od p' where "cs_node_fn t c (Some (con, e)) = (om, Some (con', e'))" "pss_node_fn t c (Some p) = (od, Some p')"
    "om = None \<or> od = None" "wire_ok ph' (last_of om od, Some (con', e'), Some p')"
    "ph \<noteq> Rest \<Longrightarrow> ph' = next_phase ARP_ADDR_PSS 15 ph \<and> act_view (cs_sched e') = act_view (cs_sched e) \<and> b_cmd_buf (cs_bus e') = b_cmd_buf (cs_bus e)"
proof -
  have ok: "console_ok con" "cs_inv e" "pss_ok p" "link ARP_ADDR_CS ARP_ADDR_PSS 15 ph (c, cs_bus e, ps_bus p)" "turn_ok ph e"
    "ticks_left ARP_ADDR_PSS 15 ph \<le> 39" "carried ph c (cs_bus e) (ps_bus p)" "whole_frame ph" using assms by (simp_all add: wire_ok_def)
  obtain x od b2 p' where p: "line (ps_bus x) = line (ps_bus p)" "IBUS_EXCHANGE no_bus_hooks c (ps_bus x) = (od, b2)"
    "pss_runtime_step t c p = (od, Some p')" "line (ps_bus p') = line b2" "pss_ok p'"
    "b_cmd_buf (ps_bus x) = b_cmd_buf (ps_bus p)" "b_cmd_buf (ps_bus p') = b_cmd_buf b2" "pss_ok x" "pss_power p' = (0, 0)"
    by (rule pss_step_line [OF ok(3)])
  let ?b1 = "ps_bus x"
  note line_d = link_line [OF refl p(4), of ARP_ADDR_CS ARP_ADDR_PSS 15]
  show thesis
  proof (cases "ph = Rest")
    case False
    have busy: "b_busy (cs_bus e)" by (rule link_busy [OF ok(4) False])
    obtain con' e1 om e' where s: "cs_runtime_step t c (con, e) = (om, Some (con', e'))" "console_ok con'" "cs_inv e'" "aside e e1" "cs_inv e1"
      "IBUS_EXCHANGE no_bus_hooks c (cs_bus e1) = (om, cs_bus e')" "cs_sched e' = cs_sched e1" by (rule cs_busy_tick [OF ok(1,2) busy])
    have l1: "link ARP_ADDR_CS ARP_ADDR_PSS 15 ph (c, cs_bus e1, ?b1)"
      using link_line [of "cs_bus e1" "cs_bus e" ?b1 "ps_bus p"] s(4) p(1) ok(4) by (simp add: aside_def)
    have "carried ph c (cs_bus e1) ?b1"
      using carried_line [of "cs_bus e1" "cs_bus e" ?b1 "ps_bus p"] s(4) p(1,6) ok(7) by (simp add: aside_def)
    from carried_step [OF l1 False this nodes_roomy [OF s(5) p(8) l1] s(6) p(2)]
    have cd: "carried (next_phase ARP_ADDR_PSS 15 ph) (last_of om od) (cs_bus e') (ps_bus p')" "b_cmd_buf (cs_bus e') = b_cmd_buf (cs_bus e)"
      using carried_line [OF refl p(4) refl p(7)] s(4) by (simp_all add: aside_def)
    from link_step [OF l1 False] s(6) p(2) have l: "link ARP_ADDR_CS ARP_ADDR_PSS 15 (next_phase ARP_ADDR_PSS 15 ph) (last_of om od, cs_bus e', b2)"
      "om = None \<or> od = None" "next_phase ARP_ADDR_PSS 15 ph = Rest \<longrightarrow> b_result_ready (cs_bus e') \<and> b_last_result (cs_bus e') = outcome ARP_ADDR_PSS ph"
      by auto
    have v: "act_view (cs_sched e') = act_view (cs_sched e)" using s(4,7) by (simp add: aside_def)
    have n: "sc_nodes (cs_sched e') = sc_nodes (cs_sched e)" using cs_inv_nodes [OF s(3)] cs_inv_nodes [OF ok(2)] by simp
    have av: "active_armed e' = active_armed e" "active_addr e' = active_addr e" by (simp_all only: view_armed view_addr v n)
    have "turn_ok (next_phase ARP_ADDR_PSS 15 ph) e'"
      using ok(5) False l(3) next_phase_outcome [of ARP_ADDR_PSS 15 ph] by (auto simp: turn_ok_def av)
    moreover have "ticks_left ARP_ADDR_PSS 15 (next_phase ARP_ADDR_PSS 15 ph) \<le> 39" using next_phase_ticks [OF ok(4) False] ok(6) by simp
    ultimately have "wire_ok (next_phase ARP_ADDR_PSS 15 ph) (last_of om od, Some (con', e'), Some p')"
      using s(2,3) p(5,9) l(1) cd(1) next_whole [OF ok(8)] by (simp add: wire_ok_def line_d)
    then show thesis by (intro that [of om con' e' od p']) (simp_all add: cs_node_fn_def pss_node_fn_def s(1) p(3) l(2) v cd(2))
  next
    case True
    have c: "c = None" using ok(4) True by (simp add: link_def)
    have l0: "link ARP_ADDR_CS ARP_ADDR_PSS 15 Rest (None, cs_bus e, ps_bus p)" "turn_ok Rest e" using ok(4,5) True c by simp_all
    have l0': "link ARP_ADDR_CS ARP_ADDR_PSS 15 Rest (None, cs_bus e, ?b1)" using l0(1) link_line [OF refl p(1)] by simp
    obtain con' e1 om e' where s: "cs_runtime_step t None (con, e) = (om, Some (con', e'))" "console_ok con'" "cs_inv e'" "cs_inv e1"
      "IBUS_EXCHANGE no_bus_hooks None (cs_bus e1) = (om, cs_bus e')" "cs_sched e' = cs_sched e1"
      "\<not> active_armed e1 \<and> link ARP_ADDR_CS ARP_ADDR_PSS 15 Rest (None, cs_bus e1, ?b1) \<or>
       (\<exists>f n. active_armed e1 \<and> link ARP_ADDR_CS ARP_ADDR_PSS 15 (Asking (active_addr e1) f n 0) (None, cs_bus e1, ?b1) \<and>
         (f = ARP_FLAG_CMD_REQ \<and> n \<le> 8 \<or> f = ARP_FLAG_DATA_REQ \<and> n = 0) \<and> frame_ok (active_addr e1) f n (cs_bus e1))"
      by (rule cs_rest_tick [OF ok(1,2) l0' l0(2)])
    have av: "active_armed e' = active_armed e1" "active_addr e' = active_addr e1" by (simp_all only: active_armed_def active_addr_def s(6))
    show thesis using s(7)
    proof
      assume "\<not> active_armed e1 \<and> link ARP_ADDR_CS ARP_ADDR_PSS 15 Rest (None, cs_bus e1, ?b1)"
      then have r: "\<not> active_armed e1" "link ARP_ADDR_CS ARP_ADDR_PSS 15 Rest (None, cs_bus e1, ?b1)" by simp_all
      have "IBUS_EXCHANGE no_bus_hooks None (cs_bus e1) = (None, cs_bus e1)" "IBUS_EXCHANGE no_bus_hooks None ?b1 = (None, ?b1)"
        using r(2) by (simp_all add: home_step link_def paired_def at_home_def)
      then have w: "om = None" "cs_bus e' = cs_bus e1" "od = None" "b2 = ?b1" using s(5) p(2) c by simp_all
      have "turn_ok Rest e'" using r(1) by (simp add: turn_ok_def av)
      then have "wire_ok Rest (last_of om od, Some (con', e'), Some p')"
        using s(2,3) p(5,9) r(2) w line_d [of Rest "last_of om od" "cs_bus e'"] by (simp add: wire_ok_def last_of_def whole_frame_def)
      then show thesis by (intro that [of om con' e' od p']) (simp_all add: cs_node_fn_def pss_node_fn_def s(1) p(3) [unfolded c] c w True)
    next
      assume "\<exists>f n. active_armed e1 \<and> link ARP_ADDR_CS ARP_ADDR_PSS 15 (Asking (active_addr e1) f n 0) (None, cs_bus e1, ?b1) \<and>
         (f = ARP_FLAG_CMD_REQ \<and> n \<le> 8 \<or> f = ARP_FLAG_DATA_REQ \<and> n = 0) \<and> frame_ok (active_addr e1) f n (cs_bus e1)"
      then obtain f n where r: "active_armed e1" "link ARP_ADDR_CS ARP_ADDR_PSS 15 (Asking (active_addr e1) f n 0) (None, cs_bus e1, ?b1)"
        "f = ARP_FLAG_CMD_REQ \<and> n \<le> 8 \<or> f = ARP_FLAG_DATA_REQ \<and> n = 0" "frame_ok (active_addr e1) f n (cs_bus e1)" by blast
      let ?ph = "Asking (active_addr e1) f n 1"
      from link_step [OF r(2)] s(5) p(2) c have l: "link ARP_ADDR_CS ARP_ADDR_PSS 15 ?ph (last_of om od, cs_bus e', b2)" "om = None \<or> od = None"
        by auto
      have "carried (Asking (active_addr e1) f n 0) None (cs_bus e1) ?b1" using r(4) by (simp add: frame_ok_def)
      from carried_step [OF r(2) _ this nodes_roomy [OF s(4) p(8) r(2)] s(5) p(2) [unfolded c]]
      have cd: "carried ?ph (last_of om od) (cs_bus e') (ps_bus p')" using carried_line [OF refl p(4) refl p(7)] by simp
      have wf: "whole_frame ?ph" using r(4) unfolding whole_frame_def frame_ok_def by auto
      have "turn_ok ?ph e'" using r(1) by (simp add: turn_ok_def av expected_result_def)
      moreover have "ticks_left ARP_ADDR_PSS 15 ?ph \<le> 39" using r(3) by auto
      ultimately have "wire_ok ?ph (last_of om od, Some (con', e'), Some p')"
        using s(2,3) p(5,9) l(1) line_d [of ?ph] cd wf by (simp add: wire_ok_def)
      then show thesis using l(2) by (intro that [of om con' e' od p']) (simp_all add: cs_node_fn_def pss_node_fn_def s(1) p(3) [unfolded c] c True)
    qed
  qed
qed

subsection \<open>Runs of the system\<close>

lemma start_power:
  assumes "ps_bus e = put_bus_wire (clear_wire_storage pss_wire0) (bind_standard_bus bus_device SYS_PSS ARP_ADDR_PSS ARP_ADDR_CS pss_wire0)"
  shows "pss_power e = (0, 0)"
proof -
  let ?b = "put_bus_wire (clear_wire_storage pss_wire0) (bind_standard_bus bus_device SYS_PSS ARP_ADDR_PSS ARP_ADDR_CS pss_wire0)"
  have "list_all (\<lambda>c. the (blk_rd (Some (the (b_cmd ?b)), length (the (b_cmd ?b))) (cmd_slot c)) = 0) [CPSSPWROFF, CPSSPWRON]"
    by code_simp
  then show ?thesis using assms by (simp add: pss_power_def pss_slot_def cmd_mem_def)
qed

lemma start_ok:
  assumes "pss_start p"
  shows "system_ok 0 Rest (system_start p)"
proof -
  let ?e = "cs_runtime_init cs_env0" and ?d = "ps_bus (pss_runtime_init p)"
  have e: "cs_inv ?e" by (rule init_ok)
  have m: "b_role (cs_bus ?e) = bus_master" "b_self_addr (cs_bus ?e) = ARP_ADDR_CS" "has_header (cs_bus ?e)"
    using e by (auto simp: cs_inv_def cs_bus_ok_def has_header_def)
  have mh: "home (cs_bus ?e)" "\<not> b_busy (cs_bus ?e)"
    by (simp_all add: cs_runtime_init_def cs_init_isim_registry_def cs_init_msg_buffers_def cs_init_bus_state_def cs_env0_def Let_def
        reset_software_state_def IBUS_RESET_FRAME_LAYOUT_def put_bus_wire_def bind_standard_bus_def IBUS_BIND_STD_def bus_state0_def home_def)
  have d: "?d = put_bus_wire (clear_wire_storage pss_wire0) (bind_standard_bus bus_device SYS_PSS ARP_ADDR_PSS ARP_ADDR_CS pss_wire0)"
    by (rule pss_init_ok(3) [OF assms])
  have sz: "comm_msg_blocks SYS_PSS = 8" "param_msg_blocks SYS_PSS = 15" by code_simp+
  have "b_role ?d = bus_device" "b_self_addr ?d = ARP_ADDR_PSS" "b_target_addr ?d = ARP_ADDR_CS" "home ?d" "b_wait_clock ?d = 0"
    "prm_frame_blocks ?d = 15" "default_layout ?d" "has_header ?d"
    by (simp_all add: d put_bus_wire_def bind_standard_bus_def IBUS_BIND_STD_def bus_state0_def home_def prm_frame_blocks_def
        default_layout_def fixed_part_def line_def IBUS_RESET_FRAME_LAYOUT_def has_header_def clear_wire_storage_def pss_wire0_def wire_storage0_def
        clamp_frame_blocks_def sz)
  then have "link ARP_ADDR_CS ARP_ADDR_PSS 15 Rest (None, cs_bus ?e, ?d)" using m mh by (simp add: link_def paired_def at_home_def)
  moreover have "\<not> active_armed ?e"
    by (simp add: active_armed_def cs_runtime_init_def sched_reset_def reset_software_state_def Let_def)
  moreover have "console_ok console0" by (simp add: console_ok_def console_wf_0) (simp add: console0_def)
  moreover have "pss_power (pss_runtime_init p) = (0, 0)" by (rule start_power [OF d])
  ultimately have "wire_ok Rest (None, Some (console0, ?e), Some (pss_runtime_init p))"
    using e pss_init_ok(1) [OF assms] by (simp add: wire_ok_def turn_ok_def whole_frame_def)
  then show ?thesis by (simp add: system_ok_def system_start_def mock_bus_init_def mock_bus_read_u8_def bus_quiet_def)
qed

lemma system_parts: "system_ok t ph s \<Longrightarrow> \<exists>b con e p. s = (b, Some (con, e), Some p)"
  by (auto simp: system_ok_def wire_ok_def)

text \<open>What CS works on: the active task and the commands in its buffer.\<close>

definition cs_turn :: "system \<Rightarrow> ((nat \<times> bool \<times> bool \<times> bool \<times> task_kind_t \<times> nat option \<times> u32) option \<times> u16 list option) option" where
  "cs_turn = (\<lambda>(b, x, y). map_option (\<lambda>(con, e). (act_view (cs_sched e), b_cmd_buf (cs_bus e))) x)"

lemma between_ok: "between s s' \<Longrightarrow> system_ok t ph s \<Longrightarrow> system_ok t ph s' \<and> cs_turn s' = cs_turn s"
proof (induction rule: between.induct)
  case (idle s)
  then show ?case by simp
next
  case (typed s b con e y l)
  then show ?case using typed_ok(1) [of con l] by (auto simp: system_ok_def wire_ok_def cs_turn_def)
next
  case (filed s b con e y l)
  then show ?case using typed_ok(2) [of con l] by (auto simp: system_ok_def wire_ok_def cs_turn_def)
next
  case (model s b x p m)
  have "pss_power (p\<lparr>ps_mem := m\<rparr>) = pss_power p" by (rule power_same) simp
  with model show ?case by (auto simp: system_ok_def wire_ok_def cs_turn_def pss_ok_def pss_inv_def)
qed

lemma system_tick_nodes:
  assumes "bus_quiet b" "cs_node_fn t (mock_bus_read_u8 b t) x = (om, x')" "pss_node_fn t (mock_bus_read_u8 b t) y = (od, y')"
  obtains b' where "system_tick t (b, x, y) = (b', x', y')" "bus_quiet b'" "mock_bus_read_u8 b' (t + 1) = last_of om od"
proof -
  have "mockbus.sees t (b, x, y) (mock_bus_read_u8 b t, x, y)" using assms(1) by (simp add: mockbus.sees_def)
  from mockbus.pair_tick_refines [OF this, of "cs_node_fn t" "pss_node_fn t"]
  have "mockbus.sees (t + 1) (system_tick t (b, x, y)) (last_of om od, x', y')"
    by (simp add: system_tick_def wire_tick_def assms(2,3))
  then show thesis using that by (cases "system_tick t (b, x, y)") (auto simp: mockbus.sees_def)
qed

lemma tick_ok:
  assumes "system_ok t ph s"
  obtains ph' where "system_ok (t + 1) ph' (system_tick t s)"
    "ph \<noteq> Rest \<Longrightarrow> ph' = next_phase ARP_ADDR_PSS 15 ph \<and> cs_turn (system_tick t s) = cs_turn s"
proof -
  obtain b con e p where s: "s = (b, Some (con, e), Some p)" using system_parts [OF assms] by blast
  let ?c = "mock_bus_read_u8 b t"
  have w: "wire_ok ph (?c, Some (con, e), Some p)" and q: "bus_quiet b" using assms by (simp_all add: system_ok_def s)
  obtain ph' om con' e' od p' where st: "cs_node_fn t ?c (Some (con, e)) = (om, Some (con', e'))" "pss_node_fn t ?c (Some p) = (od, Some p')"
    "wire_ok ph' (last_of om od, Some (con', e'), Some p')"
    "ph \<noteq> Rest \<Longrightarrow> ph' = next_phase ARP_ADDR_PSS 15 ph \<and> act_view (cs_sched e') = act_view (cs_sched e) \<and> b_cmd_buf (cs_bus e') = b_cmd_buf (cs_bus e)"
    using wire_step [OF w] by metis
  obtain b' where b': "system_tick t s = (b', Some (con', e'), Some p')" "bus_quiet b'" "mock_bus_read_u8 b' (t + 1) = last_of om od"
    using system_tick_nodes [OF q st(1,2)] s by metis
  show thesis
    by (rule that [of ph']) (use b' st(3,4) in \<open>simp_all add: system_ok_def cs_turn_def s\<close>)
qed

lemma system_run_total: "\<exists>s'. system_run t s k s'"
proof (induction k)
  case 0
  show ?case using run_start [OF idle] by blast
next
  case (Suc k)
  then show ?case using run_tick [OF _ idle] by blast
qed

lemma run_system_ok:
  assumes "system_run t s k s'" "system_ok t ph s"
  shows "\<exists>ph'. system_ok (t + of_nat k) ph' s'"
  using assms(1)
proof induction
  case (run_start s')
  then show ?case using between_ok [OF run_start assms(2)] by (intro exI [of _ ph]) simp
next
  case (run_tick k s' s'')
  then obtain ph' where "system_ok (t + of_nat k) ph' s'" by blast
  from tick_ok [OF this] obtain ph'' where "system_ok (t + of_nat k + 1) ph'' (system_tick (t + of_nat k) s')" by metis
  with between_ok [OF run_tick(2)] show ?case by (auto simp: add.assoc add.commute [of 1])
qed

text \<open>While an exchange goes on, its phase after \<open>k\<close> ticks is known.\<close>

lemma run_phase:
  assumes "system_run t s k s'" "system_ok t ph s" "k \<le> ticks_left ARP_ADDR_PSS 15 ph"
  shows "system_ok (t + of_nat k) ((next_phase ARP_ADDR_PSS 15 ^^ k) ph) s' \<and> cs_turn s' = cs_turn s \<and>
    ticks_left ARP_ADDR_PSS 15 ((next_phase ARP_ADDR_PSS 15 ^^ k) ph) = ticks_left ARP_ADDR_PSS 15 ph - k"
  using assms(1,3)
proof (induction)
  case (run_start s')
  then show ?case using between_ok [OF run_start(1) assms(2)] by simp
next
  case (run_tick k s' s'')
  let ?ph = "(next_phase ARP_ADDR_PSS 15 ^^ k) ph"
  have ih: "system_ok (t + of_nat k) ?ph s'" "cs_turn s' = cs_turn s"
    "ticks_left ARP_ADDR_PSS 15 ?ph = ticks_left ARP_ADDR_PSS 15 ph - k" using run_tick by simp_all
  have nr: "?ph \<noteq> Rest" using ih(3) run_tick.prems by auto
  obtain ph' where ph': "system_ok (t + of_nat k + 1) ph' (system_tick (t + of_nat k) s')"
    "ph' = next_phase ARP_ADDR_PSS 15 ?ph" "cs_turn (system_tick (t + of_nat k) s') = cs_turn s'"
    using tick_ok [OF ih(1)] nr by metis
  obtain b con e p where s': "s' = (b, Some (con, e), Some p)" using system_parts [OF ih(1)] by blast
  have "link ARP_ADDR_CS ARP_ADDR_PSS 15 ?ph (mock_bus_read_u8 b (t + of_nat k), cs_bus e, ps_bus p)"
    using ih(1) by (simp add: system_ok_def wire_ok_def s')
  from next_phase_ticks [OF this nr] ih(3) ph' ih(2) between_ok [OF run_tick.hyps(2) ph'(1)] show ?case
    by (simp add: add.assoc add.commute [of 1])
qed

lemma run_no_ticks: "system_run t s 0 s' \<Longrightarrow> between s s'"
  by (auto elim: system_run.cases)

lemma between_cs: "between s s' \<Longrightarrow> map_option snd (fst (snd s')) = map_option snd (fst (snd s))"
  by (induction rule: between.induct) auto

text \<open>The tick after the end of an exchange: the scheduler takes the result and reports the completion.\<close>

lemma rest_completes:
  assumes "console_ok con" "cs_inv e" "\<not> b_busy (cs_bus e)" "b_result_ready (cs_bus e)"
    "act_view (cs_sched e) = Some (i, u, a, True, kd, Some n, j)" "cs_runtime_step t rx (con, e) = (w, Some (con', e'))"
  shows "sc_active (cs_sched e') = None" "\<exists>cs p. sc_completions (cs_sched e') = cs @ [\<lparr>cp_valid = True, cp_target = nl_target (cs_nodes ! n),
      cp_kind = to_public_completion_kind kd, cp_periodic = p, cp_have_result = True,
      cp_result = to_public_completion_result (b_last_result (cs_bus e))\<rparr>]"
proof -
  obtain con1 e1 where f: "cs_front t (con, e) = Some (con1, e1)" "console_ok con1" "cs_inv e1" "aside e e1"
    by (rule cs_front_ok [OF assms(1,2)])
  have l: "\<not> b_busy (cs_bus e1)" "b_result_ready (cs_bus e1)" "b_last_result (cs_bus e1) = b_last_result (cs_bus e)"
    using f(4) assms(3,4) line_eqs [of "cs_bus e1" "cs_bus e"] by (simp_all add: aside_def)
  let ?s = "load_sched e1"
  have v: "act_view ?s = Some (i, u, a, True, kd, Some n, j)" using f(4) assms(5) by (simp add: aside_def view_load)
  then have i: "sc_active ?s = Some i" "t_armed (sc_tasks ?s ! i)" "t_kind (sc_tasks ?s ! i) = kd" "t_node (sc_tasks ?s ! i) = Some n"
    by (auto simp: act_view_def core_def)
  have ready: "sc_ready ?s" and nodes: "sc_nodes ?s = cs_nodes" using load_ok [OF f(3)] by (simp_all add: cs_sched_ok_def)
  have take: "IBUS_TAKE_RESULT (cs_bus e1) = (Some (b_last_result (cs_bus e)), IBUS_CLEAR_RESULT (cs_bus e1))"
    using l by (simp add: IBUS_TAKE_RESULT_def)
  obtain bus s where c: "exchange_control (cs_bus e1) ?s = (bus, s)" by (cases "exchange_control (cs_bus e1) ?s") auto
  have sc: "sc_active s = None" "\<exists>cs p. sc_completions s = cs @ [\<lparr>cp_valid = True, cp_target = nl_target (cs_nodes ! n),
      cp_kind = to_public_completion_kind kd, cp_periodic = p, cp_have_result = True,
      cp_result = to_public_completion_result (b_last_result (cs_bus e))\<rparr>]"
    using finalize_cases [OF i(1,2) take] c ready
    by (auto simp: exchange_control_def task_completion_def Let_def queue_clear_none released_def i(3,4) nodes)
  have sch: "ICSSCHEDULER e1 = store_sched s (e1\<lparr>cs_bus := bus\<rparr>)" using l(1) by (simp add: ICSSCHEDULER_def c)
  have st: "cs_sched (store_sched s e0) = s" for e0 by (simp add: store_sched_def)
  have arm: "arm_active_exchange (ICSSCHEDULER e1) = Some (ICSSCHEDULER e1)" by (simp add: arm_active_exchange_def sch st sc(1))
  have "cs_sched e' = s"
    using assms(6) by (auto simp: cs_step_front [OF assms(2)] f(1) CS_IBUSEXCHANGE_def sch arm [unfolded sch] st split: prod.splits if_splits)
  then show "sc_active (cs_sched e') = None" "\<exists>cs p. sc_completions (cs_sched e') = cs @ [\<lparr>cp_valid = True, cp_target = nl_target (cs_nodes ! n),
      cp_kind = to_public_completion_kind kd, cp_periodic = p, cp_have_result = True,
      cp_result = to_public_completion_result (b_last_result (cs_bus e))\<rparr>]" using sc by simp_all
qed

lemma wire_nodes:
  assumes "wire_ok ph (c, Some (con, e), Some p)"
  obtains om con' e' od p' where "cs_node_fn t c (Some (con, e)) = (om, Some (con', e'))" "pss_node_fn t c (Some p) = (od, Some p')"
    "om = None \<or> od = None"
  by (rule wire_step [OF assms, of t]) (rule that)

lemma no_ticks_rest: "link A D R ph w \<Longrightarrow> ticks_left D R ph = 0 \<Longrightarrow> ph = Rest"
  by (cases ph) (auto simp: link_def split: if_splits prod.splits)

lemma exchange_reported:
  assumes "system_ok t ph (b, Some (con, e), y)" "act_view (cs_sched e) = Some (i, u, a, True, kd, Some n, j)"
    "system_run t (b, Some (con, e), y) (Suc (ticks_left ARP_ADDR_PSS 15 ph)) s'"
  shows "\<exists>b' con' e' y' cs p. s' = (b', Some (con', e'), y') \<and> sc_active (cs_sched e') = None \<and>
    sc_completions (cs_sched e') = cs @ [\<lparr>cp_valid = True, cp_target = nl_target (cs_nodes ! n), cp_kind = to_public_completion_kind kd,
      cp_periodic = p, cp_have_result = True, cp_result = (if nl_bus_addr (cs_nodes ! n) = ARP_ADDR_PSS then cr_success else cr_timeout)\<rparr>]"
proof -
  let ?k = "ticks_left ARP_ADDR_PSS 15 ph" and ?s = "(b, Some (con, e), y)"
  obtain s1 where s1: "system_run t ?s ?k s1" "between (system_tick (t + of_nat ?k) s1) s'"
    using assms(3) by (auto elim: system_run.cases)
  note r = run_phase [OF s1(1) assms(1) order_refl]
  let ?ph = "(next_phase ARP_ADDR_PSS 15 ^^ ?k) ph" and ?t = "t + of_nat ?k"
  obtain b1 con1 e1 q1 where e1: "s1 = (b1, Some (con1, e1), Some q1)" using system_parts [of ?t ?ph s1] r by blast
  let ?c = "mock_bus_read_u8 b1 ?t"
  have w: "wire_ok ?ph (?c, Some (con1, e1), Some q1)" "bus_quiet b1" using r by (simp_all add: system_ok_def e1)
  have rest: "?ph = Rest" using no_ticks_rest [of _ _ _ ?ph] w(1) r by (auto simp: wire_ok_def)
  have v: "act_view (cs_sched e1) = Some (i, u, a, True, kd, Some n, j)" using r assms(2) by (simp add: cs_turn_def e1)
  have w1: "console_ok con1" "cs_inv e1" "\<not> b_busy (cs_bus e1)" "turn_ok Rest e1" using w(1) by (simp_all add: wire_ok_def rest link_def)
  have ar: "active_armed e1" "active_addr e1 = nl_bus_addr (cs_nodes ! n)"
    using v cs_inv_nodes [OF w1(2)] by (simp_all add: view_armed view_addr)
  have res: "b_result_ready (cs_bus e1)" "b_last_result (cs_bus e1) = expected_result (nl_bus_addr (cs_nodes ! n))"
    using w1(4) ar by (simp_all add: turn_ok_def)
  obtain om con2 e2 od q2 where st: "cs_node_fn ?t ?c (Some (con1, e1)) = (om, Some (con2, e2))" "pss_node_fn ?t ?c (Some q1) = (od, Some q2)"
    by (rule wire_nodes [OF w(1)])
  obtain b2 where b2: "system_tick ?t s1 = (b2, Some (con2, e2), Some q2)" using system_tick_nodes [OF w(2) st] e1 by metis
  have "cs_runtime_step ?t ?c (con1, e1) = (om, Some (con2, e2))" using st(1) by (simp add: cs_node_fn_def)
  note reported = rest_completes [OF w1(1-3) res(1) v this, unfolded res(2)]
  have pub: "to_public_completion_result (expected_result z) = (if z = ARP_ADDR_PSS then cr_success else cr_timeout)" for z
    by (simp add: expected_result_def to_public_completion_result_def)
  obtain b' x' y' where s': "s' = (b', x', y')" by (cases s') auto
  then obtain con' where "x' = Some (con', e2)" using between_cs [OF s1(2)] b2 by auto
  with reported s' show ?thesis unfolding pub by auto
qed

text \<open>
  C9: the two nodes together. From the start of the program, whatever lines are typed or appended (with
  finite values of magnitude at most 2^61; larger ones make the tick of CS undefined) and however the
  model of the power system moves between the ticks, every state that is reached has a next tick of both
  nodes; at most one of them writes to the bus in it, so the tick does not depend on which thread runs
  first; and the queues of the scheduler stay consistent.
\<close>
theorem system_never_collides:
  assumes "pss_start p" "system_run 0 (system_start p) k (b, x, y)"
  shows "\<exists>con e w con' e' v y'. x = Some (con, e) \<and> sched_inv (cs_sched e) \<and>
    cs_node_fn (of_nat k) (mock_bus_read_u8 b (of_nat k)) x = (w, Some (con', e')) \<and>
    pss_node_fn (of_nat k) (mock_bus_read_u8 b (of_nat k)) y = (v, Some y') \<and> (w = None \<or> v = None) \<and>
    pair_tick_swapped mock_bus_read_u8 mock_bus_write_u8 mock_bus_tick (cs_node_fn (of_nat k)) (pss_node_fn (of_nat k)) (of_nat k) (b, x, y) =
      system_tick (of_nat k) (b, x, y)"
proof -
  obtain ph where ok: "system_ok (of_nat k) ph (b, x, y)" using run_system_ok [OF assms(2) start_ok [OF assms(1)]] by auto
  obtain con e q where xy: "x = Some (con, e)" "y = Some q" using system_parts [OF ok] by blast
  have w: "wire_ok ph (mock_bus_read_u8 b (of_nat k), Some (con, e), Some q)" using ok by (simp add: system_ok_def xy)
  have si: "sched_inv (cs_sched e)" using w by (simp add: wire_ok_def cs_inv_def cs_sched_ok_def)
  obtain om con' e' od q' where st: "cs_node_fn (of_nat k) (mock_bus_read_u8 b (of_nat k)) (Some (con, e)) = (om, Some (con', e'))"
    "pss_node_fn (of_nat k) (mock_bus_read_u8 b (of_nat k)) (Some q) = (od, Some q')" "om = None \<or> od = None"
    by (rule wire_nodes [OF w])
  have "pair_tick_swapped mock_bus_read_u8 mock_bus_write_u8 mock_bus_tick (cs_node_fn (of_nat k)) (pss_node_fn (of_nat k)) (of_nat k) (b, x, y) =
      system_tick (of_nat k) (b, x, y)"
    unfolding system_tick_def by (rule mockbus.order_irrelevant) (use st xy in auto)
  with st xy si show ?thesis by simp
qed

theorem system_never_collides_witness:
  "\<exists>w v x' y'. cs_node_fn 0 (mock_bus_read_u8 mock_bus_init 0) (fst (snd (system_start (pss_env0 sim_vars)))) = (w, Some x') \<and>
     pss_node_fn 0 (mock_bus_read_u8 mock_bus_init 0) (snd (snd (system_start (pss_env0 sim_vars)))) = (v, Some y') \<and> (w = None \<or> v = None)"
proof -
  obtain b x y where s: "system_start (pss_env0 sim_vars) = (b, x, y)" "b = mock_bus_init" by (simp add: system_start_def)
  from system_never_collides [OF pss_start_demo, of 0 b x y] s run_start [OF idle, of 0 "system_start (pss_env0 sim_vars)"]
  show ?thesis by auto
qed

text \<open>
  C3: every exchange ends. When the scheduler of CS has armed a task for a node, then in every
  continuation of the run (lines of the console whose finite values have magnitude at most 2^61, and
  steps of the model, may come between the ticks), within 40 ticks the task is no longer active and its completion is the last
  one in the queue: success for the power system, the only device on the bus, and a timeout for the others.
\<close>
theorem system_exchange_ends:
  assumes "pss_start p" "system_run 0 (system_start p) k (b, Some (con, e), y)"
    "sc_active (cs_sched e) = Some i" "t_armed (sc_tasks (cs_sched e) ! i)" "t_node (sc_tasks (cs_sched e) ! i) = Some n"
  shows "\<exists>m \<le> 40. (\<exists>s'. system_run (of_nat k) (b, Some (con, e), y) m s') \<and>
    (\<forall>s'. system_run (of_nat k) (b, Some (con, e), y) m s' \<longrightarrow>
      (\<exists>b' con' e' y' cs c. s' = (b', Some (con', e'), y') \<and> sc_active (cs_sched e') = None \<and> sc_completions (cs_sched e') = cs @ [c] \<and>
        cp_target c = nl_target (cs_nodes ! n) \<and> cp_kind c = to_public_completion_kind (t_kind (sc_tasks (cs_sched e) ! i)) \<and>
        cp_have_result c \<and> cp_result c = (if nl_bus_addr (cs_nodes ! n) = ARP_ADDR_PSS then cr_success else cr_timeout)))"
proof -
  let ?s = "(b, Some (con, e), y)"
  obtain ph where ok: "system_ok (of_nat k) ph ?s" using run_system_ok [OF assms(2) start_ok [OF assms(1)]] by auto
  have lim: "ticks_left ARP_ADDR_PSS 15 ph \<le> 39" using ok by (auto simp: system_ok_def wire_ok_def)
  obtain u a j where v: "act_view (cs_sched e) = Some (i, u, a, True, t_kind (sc_tasks (cs_sched e) ! i), Some n, j)"
    using assms(3-5) by (simp add: act_view_def core_def)
  show ?thesis
  proof (intro exI [of _ "Suc (ticks_left ARP_ADDR_PSS 15 ph)"] conjI allI impI)
    show "Suc (ticks_left ARP_ADDR_PSS 15 ph) \<le> 40" using lim by simp
    show "\<exists>s'. system_run (of_nat k) ?s (Suc (ticks_left ARP_ADDR_PSS 15 ph)) s'" by (rule system_run_total)
    fix s' assume "system_run (of_nat k) ?s (Suc (ticks_left ARP_ADDR_PSS 15 ph)) s'"
    from exchange_reported [OF ok v this]
    show "\<exists>b' con' e' y' cs c. s' = (b', Some (con', e'), y') \<and> sc_active (cs_sched e') = None \<and> sc_completions (cs_sched e') = cs @ [c] \<and>
        cp_target c = nl_target (cs_nodes ! n) \<and> cp_kind c = to_public_completion_kind (t_kind (sc_tasks (cs_sched e) ! i)) \<and>
        cp_have_result c \<and> cp_result c = (if nl_bus_addr (cs_nodes ! n) = ARP_ADDR_PSS then cr_success else cr_timeout)"
      by fastforce
  qed
qed

text \<open>
  The demo: the operator types \<open>exchange pss\<close> before the first tick, which arms a request for the power
  system. The state after the start is written with the context and the registry as parameters.
\<close>

definition cs_boot :: "context_t \<Rightarrow> registry_t option \<Rightarrow> cs_env" where
  "cs_boot c r = (let e1 = (cs_init_msg_buffers cs_env0)\<lparr>cs_reg := r\<rparr>; w = bus_wire (cs_bus e1);
      s = sched_reset (sched_init (Some c) (Some (w_cmd w)) (length (w_cmd w)) (Some (w_cmd_buf w)) (length (w_cmd_buf w)) (cs_sched e1));
      (soft, last) = reset_software_state
    in e1\<lparr>cs_sched := s, cs_om := om_reset, cs_soft := soft, cs_last_tick_log := last\<rparr>)"

lemma init_boot: "\<exists>c r. cs_runtime_init cs_env0 = cs_boot c r"
  by (rule exI [of _ "cs_ctx (cs_init_isim_registry (cs_init_msg_buffers cs_env0))"],
      rule exI [of _ "cs_reg (cs_init_isim_registry (cs_init_msg_buffers cs_env0))"])
    (simp add: cs_runtime_init_def cs_boot_def cs_init_isim_registry_def Let_def)

definition ex_pss :: command_t where
  "ex_pss = \<lparr>cm_target = tgt_cs, cm_verb = ''exchange'', cm_arg0 = ''pss'', cm_arg1 = [], cm_value = Fin 0,
     cm_has_value = False, cm_raw = ''exchange pss''\<rparr>"

lemma boot_arms:
  "case arm_active_exchange (ICSSCHEDULER (ICSNODES (CS_LOCALSYSALG (ICSHIALG (handle_exchange_command ex_pss
     ((cs_boot c r)\<lparr>cs_bus := (cs_bus (cs_boot c r))\<lparr>b_writer_tick := 0\<rparr>, cs_soft := s\<rparr>)))))) of None \<Rightarrow> False
   | Some e \<Rightarrow> sc_active (cs_sched e) = Some 0 \<and> t_armed (sc_tasks (cs_sched e) ! 0) \<and> t_node (sc_tasks (cs_sched e) ! 0) = Some 0"
  by code_simp

lemma boot_bus: "\<not> b_busy (cs_bus (ICSSCHEDULER (ICSNODES (CS_LOCALSYSALG (ICSHIALG (handle_exchange_command ex_pss
     ((cs_boot c r)\<lparr>cs_bus := (cs_bus (cs_boot c r))\<lparr>b_writer_tick := 0\<rparr>, cs_soft := s\<rparr>)))))))"
  by code_simp

text \<open>The first tick with one command waiting: what the scheduler has made of it is armed and the exchange begins.\<close>

lemma boot_tick:
  assumes "sendable_line l" "waiting_for tgt_cs (snd (console_line l console0)) = [cm]" "\<And>e. handle_command cm e = Some (h e)"
    and P: "\<And>c r s. P (ICSSCHEDULER (ICSNODES (CS_LOCALSYSALG (ICSHIALG (h
      ((cs_boot c r)\<lparr>cs_bus := (cs_bus (cs_boot c r))\<lparr>b_writer_tick := 0\<rparr>, cs_soft := s\<rparr>))))))"
  obtains w con e2 e3 z where "cs_inv e2" "P e2" "arm_active_exchange e2 = Some e3" "IBUS_EXCHANGE no_bus_hooks None (cs_bus e3) = (w, z)"
    "\<not> b_busy (cs_bus e2) \<longrightarrow> cs_runtime_step 0 None (snd (console_line l console0), cs_runtime_init cs_env0) = (w, Some (con, e3\<lparr>cs_bus := z\<rparr>))"
proof -
  let ?con = "snd (console_line l console0)"
  obtain c r where b: "cs_runtime_init cs_env0 = cs_boot c r" using init_boot by blast
  define e0 where "e0 = (cs_boot c r)\<lparr>cs_bus := (cs_bus (cs_boot c r))\<lparr>b_writer_tick := 0\<rparr>,
    cs_soft := (cs_soft (cs_boot c r))\<lparr>ss_current_tick := 0, ss_tick := ISYSTEP (ss_tick (cs_soft (cs_boot c r)))\<rparr>\<rparr>"
  have inv: "cs_inv (cs_boot c r)" using init_ok by (simp add: b)
  then have i0: "cs_inv e0" using bus_ok_layout(6) by (simp add: cs_inv_def e0_def)
  have "console_ok console0" by (simp add: console_ok_def console_wf_0) (simp add: console0_def)
  then have con: "console_ok ?con" by (rule typed_ok(1)) (rule assms(1))
  obtain con' e1 where br: "control_bridge_step ?con e0 = Some (con', e1)" "cs_inv e1" "fold (\<lambda>c r. Option.bind r (handle_command c)) [cm] (Some e0) = Some e1"
    using bridge_ok [OF con i0, unfolded assms(2)] by metis
  have e1: "e1 = h e0" using br(3) by (simp add: assms(3))
  have fr: "cs_front 0 (?con, cs_boot c r) = Some (con', ICSNODES (CS_LOCALSYSALG (ICSHIALG e1)))"
    using br(1) by (simp add: cs_front_def e0_def)
  let ?e2 = "ICSSCHEDULER (ICSNODES (CS_LOCALSYSALG (ICSHIALG e1)))"
  have i2: "cs_inv ?e2" unfolding CS_LOCALSYSALG_def by (intro scheduler_ok nodes_ok hialg_ok br(2))
  obtain e3 where e3: "arm_active_exchange ?e2 = Some e3" using arm_ok [OF i2] by blast
  obtain w z where x: "IBUS_EXCHANGE no_bus_hooks None (cs_bus e3) = (w, z)" by fastforce
  have "P ?e2" using P [where c = c and r = r and s = "cs_soft e0"] by (simp add: e1 e0_def)
  moreover have "cs_runtime_step 0 None (?con, cs_boot c r) = (w, Some (con', e3\<lparr>cs_bus := z\<rparr>))" if "\<not> b_busy (cs_bus ?e2)"
    using that e3 x by (simp add: cs_step_front [OF inv] fr CS_IBUSEXCHANGE_def)
  ultimately show thesis by (intro that [OF i2 _ e3 x, of con']) (simp_all add: b)
qed

lemma first_tick:
  obtains w con e where "cs_runtime_step 0 None (snd (console_line ''exchange pss'' console0), cs_runtime_init cs_env0) = (w, Some (con, e))"
    "sc_active (cs_sched e) = Some 0" "t_armed (sc_tasks (cs_sched e) ! 0)" "t_node (sc_tasks (cs_sched e) ! 0) = Some 0"
proof -
  have l: "sendable_line ''exchange pss''" "waiting_for tgt_cs (snd (console_line ''exchange pss'' console0)) = [ex_pss]" by code_simp+
  have h: "handle_command ex_pss e = Some (handle_exchange_command ex_pss e)" for e by (simp add: handle_command_def ex_pss_def)
  let ?P = "\<lambda>e. \<not> b_busy (cs_bus e) \<and> (case arm_active_exchange e of None \<Rightarrow> False
   | Some e \<Rightarrow> sc_active (cs_sched e) = Some 0 \<and> t_armed (sc_tasks (cs_sched e) ! 0) \<and> t_node (sc_tasks (cs_sched e) ! 0) = Some 0)"
  obtain w con e2 e3 z where s: "?P e2" "arm_active_exchange e2 = Some e3"
    "\<not> b_busy (cs_bus e2) \<longrightarrow> cs_runtime_step 0 None (snd (console_line ''exchange pss'' console0), cs_runtime_init cs_env0) = (w, Some (con, e3\<lparr>cs_bus := z\<rparr>))"
    by (rule boot_tick [OF l h, of ?P]) (use boot_arms boot_bus in blast)+
  show thesis by (rule that [OF mp [OF s(3)]]) (use s(1,2) in simp_all)
qed

theorem system_exchange_ends_witness:
  "\<exists>s con e m. system_run 0 (system_start (pss_env0 sim_vars)) 1 s \<and> fst (snd s) = Some (con, e) \<and>
     sc_active (cs_sched e) = Some 0 \<and> m \<le> 40 \<and>
     (\<exists>b con' e' y cs c. system_run 1 s m (b, Some (con', e'), y) \<and> sc_active (cs_sched e') = None \<and>
       sc_completions (cs_sched e') = cs @ [c] \<and> cp_target c = tgt_pss \<and> cp_result c = cr_success)"
proof -
  let ?p = "pss_env0 sim_vars" and ?con = "snd (console_line ''exchange pss'' console0)"
  let ?s0 = "(mock_bus_init, Some (?con, cs_runtime_init cs_env0), Some (pss_runtime_init ?p))"
  have l: "sendable_line ''exchange pss''" by code_simp
  have "between (system_start ?p) ?s0"
    using typed [OF idle l] by (simp add: system_start_def)
  then have r0: "system_run 0 (system_start ?p) 0 ?s0" by (rule run_start)
  from run_tick [OF r0 idle] have r1: "system_run 0 (system_start ?p) 1 (system_tick 0 ?s0)" by simp
  obtain w con e where f: "cs_runtime_step 0 None (?con, cs_runtime_init cs_env0) = (w, Some (con, e))"
    "sc_active (cs_sched e) = Some 0" "t_armed (sc_tasks (cs_sched e) ! 0)" "t_node (sc_tasks (cs_sched e) ! 0) = Some 0"
    by (rule first_tick)
  have rd: "mock_bus_read_u8 mock_bus_init 0 = None" by (simp add: mock_bus_init_def mock_bus_read_u8_def)
  obtain v y where pn: "pss_node_fn 0 None (Some (pss_runtime_init ?p)) = (v, y)" by fastforce
  obtain b where tick: "system_tick 0 ?s0 = (b, Some (con, e), y)"
    using system_tick_nodes [of mock_bus_init 0, unfolded rd, OF _ _ pn, of "Some (?con, cs_runtime_init cs_env0)" w "Some (con, e)"] f(1)
    by (auto simp: cs_node_fn_def bus_quiet_def mock_bus_init_def)
  have n0: "nl_bus_addr (cs_nodes ! 0) = ARP_ADDR_PSS" "nl_target (cs_nodes ! 0) = tgt_pss" unfolding cs_nodes_def by code_simp+
  from system_exchange_ends [OF pss_start_demo r1 [unfolded tick] f(2-4), unfolded of_nat_1]
  obtain m s' where m: "m \<le> 40" "system_run 1 (b, Some (con, e), y) m s'"
    "\<exists>b' con' e' y' cs c. s' = (b', Some (con', e'), y') \<and> sc_active (cs_sched e') = None \<and> sc_completions (cs_sched e') = cs @ [c] \<and>
        cp_target c = nl_target (cs_nodes ! 0) \<and> cp_kind c = to_public_completion_kind (t_kind (sc_tasks (cs_sched e) ! 0)) \<and>
        cp_have_result c \<and> cp_result c = (if nl_bus_addr (cs_nodes ! 0) = ARP_ADDR_PSS then cr_success else cr_timeout)" by blast
  obtain b' con' e' y' cs c where z: "s' = (b', Some (con', e'), y')" "sc_active (cs_sched e') = None" "sc_completions (cs_sched e') = cs @ [c]"
    "cp_target c = tgt_pss" "cp_result c = cr_success" using m(3) unfolding n0 by auto
  have "\<exists>b' con' e' y' cs c. system_run 1 (b, Some (con, e), y) m (b', Some (con', e'), y') \<and> sc_active (cs_sched e') = None \<and>
       sc_completions (cs_sched e') = cs @ [c] \<and> cp_target c = tgt_pss \<and> cp_result c = cr_success"
    by (rule exI [of _ b'], rule exI [of _ con'], rule exI [of _ e'], rule exI [of _ y'], rule exI [of _ cs], rule exI [of _ c])
      (use z m(2) in simp)
  then show ?thesis
    by - (rule exI [of _ "(b, Some (con, e), y)"], rule exI [of _ con], rule exI [of _ e], rule exI [of _ m], use m(1) f(2) r1 tick in simp)
qed

end
