(* ===== verification/Delivery.thy ===== *)
theory Delivery
  imports SysRun
begin

text \<open>
  A command from the buffer of CS to the main switch of the power system: the bytes go over the bus one
  per tick, the device merges them into its commands with the last one, and the power commands of the
  same tick act on them.
\<close>

subsection \<open>Merging the buffer into the commands of a node\<close>

text \<open>A command in the buffer of a node.\<close>

definition buf_slot :: "bus_state \<Rightarrow> nat \<Rightarrow> u32" where
  "buf_slot b c = the (blk_rd (b_cmd_buf b, b_cmd_buf_blocks b) (cmd_slot c))"

lemma pss_slot_merged:
  assumes "pss_ok x" "c \<in> set pss_ids" "b_cmd b = b_cmd (merge_nonzero_cmd_fields (ps_bus x))"
  shows "pss_slot (x\<lparr>ps_bus := b\<rparr>) c = (if buf_slot (ps_bus x) c = 0 then pss_slot x c else buf_slot (ps_bus x) c)"
proof -
  let ?d = "ps_bus x" and ?r = "S_basecommtab ! (c - Param_max)"
  have d: "pss_bus_ok ?d" by (rule pss_ok_bus [OF assms(1)])
  have inv: "pss_inv x" using assms(1) by (simp add: pss_ok_def)
  obtain xs ys where xs: "b_cmd ?d = Some xs" "b_cmd_buf ?d = Some ys" using d by (auto simp: pss_bus_ok_def bus_bound_def)
  then have len: "length xs = b_cmd_blocks ?d" "length ys = b_cmd_buf_blocks ?d" "b_cmd_buf_blocks ?d = b_cmd_blocks ?d" "b_system_id ?d = SYS_PSS"
    using d by (simp_all add: pss_bus_ok_def)
  let ?src = "(Some ys, b_cmd_buf_blocks ?d)" and ?dst = "(Some xs, b_cmd_blocks ?d)"
  let ?m = "merge_slots blk_rd blk_wr ?src item_slot item_slot (own_rows SYS_PSS) ?dst"
  have own: "own_command (pss_ctx x) c" by (rule own_pss [OF assms(2)])
  then have r: "?r \<in> set S_basecommtab" "te_sys_id ?r = SYS_PSS" using own_command_row(1) [OF own] by (simp_all add: own_command_def)
  then have mem: "?r \<in> set (own_rows SYS_PSS)" and sl: "item_slot ?r = cmd_slot c" using row_slot [OF r(1)] by (simp_all add: own_rows_def cmd_slot_def)
  have rd: "blk_rd ?dst (cmd_slot c) = Some (pss_slot x c)"
    using pss_slot_read [OF inv assms(2)] len(1) by (simp add: cmd_mem_def xs)
  then have "blk_rd ?src (cmd_slot c) \<noteq> None" using blk_rd_shape [of xs _ _ ys] len(3) by simp
  then have src: "blk_rd ?src (cmd_slot c) = Some (buf_slot ?d c)" by (simp add: buf_slot_def xs)
  have merged: "blk_rd ?m (cmd_slot c) = Some (if buf_slot ?d c = 0 then pss_slot x c else buf_slot ?d c)"
    using blkmem.merge_slots_value [OF own_rows_apart mem, of ?dst ?src item_slot] rd src blkmem.rd_fits
    by (simp add: sl blk_inv_def span_ok_def len(1))
  have b: "b_cmd b = fst ?m" using assms(3) len(4) by (simp add: merge_nonzero_cmd_fields_def xs own_rows_def)
  have "map_option length (fst ?m) = Some (length xs)" by (simp add: merge_slots_length)
  then obtain zs where zs: "fst ?m = Some zs" "length zs = b_cmd_blocks ?d" using len(1) by auto
  have "?m = (Some zs, b_cmd_blocks ?d)" using zs(1) merge_slots_blocks [of ?src item_slot item_slot _ ?dst] by (simp add: prod_eq_iff)
  with merged show ?thesis by (simp add: pss_slot_def cmd_mem_def b zs)
qed

subsection \<open>The last tick of a command request\<close>

lemma delivered:
  assumes "wire_ok (Asking ARP_ADDR_PSS ARP_FLAG_CMD_REQ n (4 + 2 * n)) (c, Some (con, e), Some p)" "pss_node_fn t c (Some p) = (od, Some p')"
  defines "off \<equiv> buf_slot (cs_bus e) CPSSPWROFF" and "on \<equiv> buf_slot (cs_bus e) CPSSPWRON"
  shows "off \<noteq> 0 \<Longrightarrow> q \<in> {PSSPWR, PSSPWR12, PSSPWR6, PSSPWR5, PSSPWR33} \<Longrightarrow> get_u8 (ps_mem p') q = 0"
    "off = 0 \<Longrightarrow> on \<noteq> 0 \<Longrightarrow> get_u8 (ps_mem p') PSSPWR = 1"
proof -
  let ?ph = "Asking ARP_ADDR_PSS ARP_FLAG_CMD_REQ n (4 + 2 * n)"
  have ok: "cs_inv e" "pss_ok p" "link ARP_ADDR_CS ARP_ADDR_PSS 15 ?ph (c, cs_bus e, ps_bus p)" "carried ?ph c (cs_bus e) (ps_bus p)"
    "n = 8" "pss_power p = (0, 0)" using assms(1) by (auto simp: wire_ok_def whole_frame_def)
  obtain x out b2 p2 where x: "line (ps_bus x) = line (ps_bus p)" "IBUS_EXCHANGE no_bus_hooks c (ps_bus x) = (out, b2)"
    "pss_runtime_step t c p = (out, Some p2)" "b_cmd_buf (ps_bus x) = b_cmd_buf (ps_bus p)" "pss_ok x" "pss_power x = pss_power p"
    "ICMDPWRUPD (x\<lparr>ps_bus := b2\<rparr>) = Some p2" "pss_ok (x\<lparr>ps_bus := b2\<rparr>)" by (rule pss_step_line [OF ok(2)])
  have p2: "p2 = p'" using assms(2) x(3) by (simp add: pss_node_fn_def)
  have "link ARP_ADDR_CS ARP_ADDR_PSS 15 ?ph (c, cs_bus e, ps_bus x)" using link_line [OF refl x(1)] ok(3) by simp
  from request_merged [OF this x(2)] have mg: "b_cmd b2 = b_cmd (merge_nonzero_cmd_fields (ps_bus x))" .
  have sz: "comm_msg_blocks SYS_PSS = 8" by code_simp
  have m: "cs_bus_ok (cs_bus e)" using ok(1) by (simp add: cs_inv_def)
  have d: "pss_bus_ok (ps_bus p)" "pss_bus_ok (ps_bus x)" using pss_ok_bus ok(2) x(5) by blast+
  obtain xs where xs: "b_cmd_buf (cs_bus e) = Some xs" "length xs = 8" using m by (auto simp: cs_bus_ok_def)
  obtain ys where ys: "b_cmd_buf (ps_bus p) = Some ys" "length ys = 8" using d(1) by (auto simp: pss_bus_ok_def bus_bound_def sz)
  have n8: "b_cmd_buf_blocks (cs_bus e) = 8" "b_cmd_buf_blocks (ps_bus p) = 8" "b_cmd_buf_blocks (ps_bus x) = 8"
    using m d by (simp_all add: cs_bus_ok_def pss_bus_ok_def sz)
  have "b_self_addr (ps_bus p) = ARP_ADDR_PSS" using ok(3) by (simp add: link_def paired_def)
  then have "\<forall>j < 2 * 8. got (ps_bus p) j = got (cs_bus e) j" using ok(4,5) by simp
  then have "b_cmd_buf (ps_bus x) = b_cmd_buf (cs_bus e)" unfolding x(4)
    by (rule got_all [OF xs(1) ys(1) xs(2) ys(2) n8(1,2)])
  then have bs: "buf_slot (ps_bus x) z = buf_slot (cs_bus e) z" for z by (simp add: buf_slot_def n8)
  let ?z = "x\<lparr>ps_bus := b2\<rparr>"
  have sl: "pss_slot ?z CPSSPWROFF = off" "pss_slot ?z CPSSPWRON = on"
    using pss_slot_merged [OF x(5) power_ids(1) mg] pss_slot_merged [OF x(5) power_ids(2) mg] x(6) ok(6)
    by (simp_all add: pss_power_def bs off_def on_def)
  have "pss_inv ?z" using x(8) by (simp add: pss_ok_def)
  from power_commands_eq [OF this, unfolded sl] x(7) have pw: "\<forall>q < PSS_COUNT. ps_mem p' q =
      (let pwr = (if off \<noteq> 0 then 0 else if on \<noteq> 0 then 1 else get_u8 (ps_mem ?z) PSSPWR)
       in if q = PSSPWR then V_u8 pwr else if pwr = 0 \<and> q \<in> {PSSPWR12, PSSPWR6, PSSPWR5, PSSPWR33} then V_u8 0 else ps_mem ?z q)"
    by (auto simp: ICMDPWRUPD_def p2 Let_def)
  have lt: "q \<in> {PSSPWR, PSSPWR12, PSSPWR6, PSSPWR5, PSSPWR33} \<Longrightarrow> q < PSS_COUNT" for q by (auto simp: PSS_COUNT_def)
  show "off \<noteq> 0 \<Longrightarrow> q \<in> {PSSPWR, PSSPWR12, PSSPWR6, PSSPWR5, PSSPWR33} \<Longrightarrow> get_u8 (ps_mem p') q = 0"
    using pw lt [of q] by (auto simp: get_u8_def)
  show "off = 0 \<Longrightarrow> on \<noteq> 0 \<Longrightarrow> get_u8 (ps_mem p') PSSPWR = 1"
    using pw lt [of PSSPWR] by (simp add: get_u8_def)
qed

lemma sender_asks:
  assumes "link A D R ph (c, m, d)" "b_exchange_flag m = ex_tx"
  obtains n i where "ph = Asking (b_target_addr m) (b_msg_flag m) n i" "i < 4 + 2 * n"
proof (cases ph)
  case (Asking a f n i)
  with assms have "i \<noteq> 4 + 2 * n" "i \<le> 4 + 2 * n" by (auto simp: link_def at_home_def home_def)
  then have "i < 4 + 2 * n" by simp
  moreover from this assms(1) Asking have "a = b_target_addr m" "f = b_msg_flag m" by (auto simp: link_def on_wire_def sending_def)
  ultimately show thesis using that Asking by blast
next
  case (Answering f n i)
  with assms show thesis by (cases "i = 0") (auto simp: link_def home_def on_wire_def receiving_def)
qed (use assms in \<open>auto simp: link_def home_def\<close>)

lemma asking_ahead: "i + k \<le> 4 + 2 * n \<Longrightarrow> (next_phase D R ^^ k) (Asking a f n i) = Asking a f n (i + k)"
  by (induction k) simp_all

text \<open>
  C2: a power command that CS sends arrives and is obeyed. While CS sends a command request to the
  power system, then in every continuation of the run there is a tick, at most 20 ticks later, after which
  the main switch is what the command in the buffer of CS says: off, with all four rails, when it has the
  command to switch off, else on when it has the command to switch on. No line that is typed or appended
  between the ticks, with a value of magnitude at most 2^61 if it is finite, and no step of the model
  between the ticks changes that.
\<close>
theorem power_command_delivered:
  assumes "pss_start p" "system_run 0 (system_start p) k (b, Some (con, e), y)"
    "b_exchange_flag (cs_bus e) = ex_tx" "b_msg_flag (cs_bus e) = ARP_FLAG_CMD_REQ" "b_target_addr (cs_bus e) = ARP_ADDR_PSS"
  shows "\<exists>m \<le> 20. (\<exists>s'. system_run (of_nat k) (b, Some (con, e), y) m s') \<and>
    (\<forall>s'. system_run (of_nat k) (b, Some (con, e), y) m s' \<longrightarrow>
      (\<exists>b' x' q. system_tick (of_nat k + of_nat m) s' = (b', x', Some q) \<and>
        (buf_slot (cs_bus e) CPSSPWROFF \<noteq> 0 \<longrightarrow> (\<forall>r \<in> {PSSPWR, PSSPWR12, PSSPWR6, PSSPWR5, PSSPWR33}. get_u8 (ps_mem q) r = 0)) \<and>
        (buf_slot (cs_bus e) CPSSPWROFF = 0 \<and> buf_slot (cs_bus e) CPSSPWRON \<noteq> 0 \<longrightarrow> get_u8 (ps_mem q) PSSPWR = 1)))"
proof -
  let ?s = "(b, Some (con, e), y)" and ?a = "ARP_ADDR_PSS" and ?f = "ARP_FLAG_CMD_REQ"
  obtain ph where ok: "system_ok (of_nat k) ph ?s" using run_system_ok [OF assms(2) start_ok [OF assms(1)]] by auto
  then obtain c d where l: "link ARP_ADDR_CS ?a 15 ph (c, cs_bus e, d)" by (auto simp: system_ok_def wire_ok_def)
  obtain n i where ph: "ph = Asking ?a ?f n i" "i < 4 + 2 * n" by (rule sender_asks [OF l assms(3)]) (use assms(4,5) in simp)
  have n: "n = 8" using ok ph(1) by (auto simp: system_ok_def wire_ok_def whole_frame_def)
  let ?m = "4 + 2 * n - i"
  have mt: "i + ?m = 4 + 2 * n" "?m \<le> ticks_left ?a 15 ph" using ph by simp_all
  show ?thesis
  proof (intro exI [of _ ?m] conjI allI impI)
    show "?m \<le> 20" by (simp add: n)
    show "\<exists>s'. system_run (of_nat k) ?s ?m s'" by (rule system_run_total)
    fix s' assume "system_run (of_nat k) ?s ?m s'"
    note r = run_phase [OF this ok mt(2)]
    let ?t = "of_nat k + of_nat ?m :: u32"
    have e: "(next_phase ?a 15 ^^ ?m) ph = Asking ?a ?f n (4 + 2 * n)" using asking_ahead [of i ?m n] mt(1) ph(1) by simp
    obtain b1 con1 e1 p1 where s': "s' = (b1, Some (con1, e1), Some p1)" using system_parts r by metis
    let ?c = "mock_bus_read_u8 b1 ?t"
    have w: "wire_ok (Asking ?a ?f n (4 + 2 * n)) (?c, Some (con1, e1), Some p1)" "bus_quiet b1" using r unfolding e by (simp_all add: system_ok_def s')
    have buf: "b_cmd_buf (cs_bus e1) = b_cmd_buf (cs_bus e)" using r by (simp add: cs_turn_def s')
    have "b_cmd_buf_blocks (cs_bus e1) = 8" "b_cmd_buf_blocks (cs_bus e) = 8"
      using w(1) ok by (auto simp: wire_ok_def system_ok_def cs_inv_def cs_bus_ok_def)
    then have bs: "buf_slot (cs_bus e1) z = buf_slot (cs_bus e) z" for z by (simp add: buf_slot_def buf)
    obtain om con2 e2 od q where st: "cs_node_fn ?t ?c (Some (con1, e1)) = (om, Some (con2, e2))" "pss_node_fn ?t ?c (Some p1) = (od, Some q)"
      by (rule wire_nodes [OF w(1)])
    obtain b2 where "system_tick ?t s' = (b2, Some (con2, e2), Some q)" using system_tick_nodes [OF w(2) st] s' by metis
    with delivered [OF w(1) st(2), unfolded bs] show "\<exists>b' x' q. system_tick ?t s' = (b', x', Some q) \<and>
        (buf_slot (cs_bus e) CPSSPWROFF \<noteq> 0 \<longrightarrow> (\<forall>r \<in> {PSSPWR, PSSPWR12, PSSPWR6, PSSPWR5, PSSPWR33}. get_u8 (ps_mem q) r = 0)) \<and>
        (buf_slot (cs_bus e) CPSSPWROFF = 0 \<and> buf_slot (cs_bus e) CPSSPWRON \<noteq> 0 \<longrightarrow> get_u8 (ps_mem q) PSSPWR = 1)"
      by blast
  qed
qed

text \<open>The demo: the operator types \<open>cmd pss CPSSPWROFF\<close> before the first tick.\<close>

definition cmd_off :: command_t where
  "cmd_off = \<lparr>cm_target = tgt_cs, cm_verb = ''cmd'', cm_arg0 = ''pss'', cm_arg1 = ''CPSSPWROFF'', cm_value = Fin 0,
     cm_has_value = False, cm_raw = ''cmd pss CPSSPWROFF''\<rparr>"

definition ready_off :: "cs_env \<Rightarrow> bool" where
  "ready_off e \<longleftrightarrow> sc_active (cs_sched e) = Some 0 \<and> (case sc_tasks (cs_sched e) ! 0 of t \<Rightarrow>
     t_used t \<and> t_active t \<and> \<not> t_armed t \<and> t_node t = Some 0 \<and> t_kind t = tk_command \<and> \<not> t_staged t \<and> t_command_id t = CPSSPWROFF \<and>
     \<not> t_has_value t) \<and> b_cmd (cs_bus e) = Some (replicate 16 0) \<and> b_prm (cs_bus e) = Some (replicate 26 0) \<and>
   b_cmd_buf (cs_bus e) = Some (replicate 8 0) \<and> sc_pending (cs_sched e) ! 0 = replicate 8 0 \<and> length (sc_pending (cs_sched e)) = 5 \<and>
   \<not> b_busy (cs_bus e)"

lemma off_ready:
  "ready_off (ICSSCHEDULER (ICSNODES (CS_LOCALSYSALG (ICSHIALG (handle_cmd_command cmd_off
     ((cs_boot c r)\<lparr>cs_bus := (cs_bus (cs_boot c r))\<lparr>b_writer_tick := 0\<rparr>, cs_soft := s\<rparr>))))))"
  by code_simp

abbreviation off_image :: "nat \<Rightarrow> u16 list" where "off_image n \<equiv> 4 # replicate n 0"

lemma off_value: "map_option (\<lambda>(st, x). (st, msg_cmd x))
    (IMSGSET (ISYSCTX role_cs SYS_CS (Some (replicate 26 0)) 26 (Some (replicate 16 0)) 16) CPSSPWROFF (Fin 1)) = Some (par_ok, Some (off_image 15))"
  by code_simp

lemma off_merged: "fst (merge_slots blk_rd blk_wr (Some (off_image 15), 16) cs_item_slot item_slot
    (filter (\<lambda>e. te_sys_id e = nl_system_id (cs_nodes ! 0) \<and> type_width_bits (te_type e) \<noteq> 0) S_basecommtab) (Some (replicate 8 0), 8)) =
    Some (off_image 7)"
  by code_simp

lemma off_windows: "clear_window 0 8 (replicate 8 0) = (replicate 8 0 :: u16 list)"
    "copy_blocks (Some (replicate 8 0)) 8 0 (Some (replicate 8 0)) 8 0 8 = Some (replicate 8 0)" "window_fits 0 8 8"
    "nl_com_blocks (cs_nodes ! 0) = 8" "nl_bus_addr (cs_nodes ! 0) = ARP_ADDR_PSS"
  unfolding cs_nodes_def by code_simp+

text \<open>What a step on the windows makes of the buffer, and what it leaves.\<close>

definition windows :: "cs_env \<Rightarrow> u16 list option \<times> u16 list option \<times> u16 list option \<times> u16 list list" where
  "windows e = (b_cmd (cs_bus e), b_prm (cs_bus e), b_cmd_buf (cs_bus e), sc_pending (cs_sched e))"

definition bound :: "cs_env \<Rightarrow> bool" where
  "bound e \<longleftrightarrow> sc_nodes (cs_sched e) = cs_nodes \<and> sc_msg_cmd (cs_sched e) \<noteq> None \<and> sc_msg_cmd_buf (cs_sched e) \<noteq> None \<and>
     sc_msg_cmd_blocks (cs_sched e) = 16 \<and> sc_msg_cmd_buf_blocks (cs_sched e) = 8"

lemma windows_on_sched:
  assumes "bound e" "windows e = (Some a, p, Some b, ps)"
    "f (load_sched e) = (load_sched e)\<lparr>sc_msg_cmd := Some a', sc_msg_cmd_buf := Some b'\<rparr>"
  shows "bound (on_sched f e) \<and> windows (on_sched f e) = (Some a', p, Some b', ps)"
  using assms by (simp add: bound_def windows_def on_sched_def store_sched_def load_sched_def Let_def)

lemma windows_loaded:
  assumes "bound e" "windows e = (Some a, p, Some b, ps)"
  shows "sc_msg_cmd (load_sched e) = Some a" "sc_msg_cmd_buf (load_sched e) = Some b" "sc_pending (load_sched e) = ps"
    "sc_nodes (load_sched e) = cs_nodes" "sc_msg_cmd_blocks (load_sched e) = 16" "sc_msg_cmd_buf_blocks (load_sched e) = 8"
  using assms by (simp_all add: bound_def windows_def load_sched_def Let_def)

lemma off_armed:
  assumes "cs_inv e" "ready_off e" "arm_active_exchange e = Some e3"
  shows "b_cmd_buf (cs_bus e3) = Some (off_image 7)" "b_exchange_flag (cs_bus e3) = ex_tx" "b_tx_flag (cs_bus e3) = tx_sof"
    "b_msg_flag (cs_bus e3) = ARP_FLAG_CMD_REQ" "b_target_addr (cs_bus e3) = ARP_ADDR_PSS"
proof -
  let ?t = "sc_tasks (cs_sched e) ! 0" and ?e0 = "e\<lparr>cs_bus := IBUS_RESET_FRAME_LAYOUT (cs_bus e)\<rparr>" and ?n = "cs_nodes ! 0"
  have r: "sc_active (cs_sched e) = Some 0" "t_used ?t" "t_active ?t" "\<not> t_armed ?t" "t_node ?t = Some 0" "t_kind ?t = tk_command" "\<not> t_staged ?t"
    "t_command_id ?t = CPSSPWROFF" "\<not> t_has_value ?t" "b_cmd (cs_bus e) = Some (replicate 16 0)" "b_prm (cs_bus e) = Some (replicate 26 0)"
    "b_cmd_buf (cs_bus e) = Some (replicate 8 0)" "sc_pending (cs_sched e) ! 0 = replicate 8 0" "length (sc_pending (cs_sched e)) = 5"
    using assms(2) by (simp_all add: ready_off_def)
  have sc: "cs_sched_ok (cs_sched e)" using assms(1) by (simp add: cs_inv_def)
  then have k: "sc_nodes (cs_sched e) = cs_nodes" "sc_imsg_ctx (cs_sched e) \<noteq> None" and b: "bound ?e0" by (auto simp: cs_sched_ok_def bound_def)
  have "sched_inv (cs_sched e)" using sc by (simp add: cs_sched_ok_def)
  then have arm: "armable e 0 0" using r(1-5) k by (simp add: armable_def sched_inv_def sched_shape_def k_max_tasks_def)
  let ?Z = "replicate 8 0 :: u16 list"
  define w where "w = (\<lambda>a b. (Some (a :: u16 list), Some (replicate 26 (0 :: u16)), Some (b :: u16 list), sc_pending (cs_sched e)))"
  have w0: "windows ?e0 = w (replicate 16 0) ?Z" using r(10-12) by (simp add: windows_def w_def IBUS_RESET_FRAME_LAYOUT_def)
  note ld = windows_loaded [OF b w0 [unfolded w_def]]
  have w1: "bound (on_sched (clear_command_buffer_window ?n) ?e0) \<and> windows (on_sched (clear_command_buffer_window ?n) ?e0) = w (replicate 16 0) ?Z"
    unfolding w_def by (rule windows_on_sched [OF b w0 [unfolded w_def]]) (simp add: clear_command_buffer_window_def ld off_windows)
  let ?e1 = "on_sched (clear_command_buffer_window ?n) ?e0"
  note ld1 = windows_loaded [OF conjunct1 [OF w1] conjunct2 [OF w1, unfolded w_def]]
  have w2: "bound (on_sched (load_pending_command_window 0) ?e1) \<and> windows (on_sched (load_pending_command_window 0) ?e1) = w (replicate 16 0) ?Z"
    unfolding w_def by (rule windows_on_sched [OF conjunct1 [OF w1] conjunct2 [OF w1, unfolded w_def]])
      (simp add: load_pending_command_window_def ld1 off_windows r(13,14) Let_def)
  define z where "z = command_loaded 0 ?e0"
  have zb: "bound z" and zw: "windows z = w (replicate 16 0) ?Z"
    using w2 k(1) by (simp_all add: z_def command_loaded_def bound_def windows_def set_frames_def IBUS_SET_CMD_FRAME_def IBUS_SET_PRM_FRAME_def Let_def)
  have ctx: "cs_ctx z = ISYSCTX role_cs SYS_CS (Some (replicate 26 0)) 26 (Some (replicate 16 0)) 16"
    using zw by (simp add: cs_ctx_def make_imsg_context_def bus_wire_def windows_def w_def)
  obtain x where x: "IMSGSET (cs_ctx z) CPSSPWROFF (Fin 1) = Some (par_ok, x)" "msg_cmd x = Some (off_image 15)"
    using off_value unfolding ctx by auto
  define z2 where "z2 = put_cs_ctx x z"
  have st: "value_stored ?t z = Some z2" using r(7-9) by (simp add: value_stored_def cs_imsgset_def x(1) z2_def)
  obtain q where q: "bound z2" "windows z2 = (Some (off_image 15), q, Some ?Z, sc_pending (cs_sched e))"
    using zb zw x(2) by (simp add: bound_def windows_def z2_def put_cs_ctx_def w_def)
  note ld2 = windows_loaded [OF q]
  let ?e4 = "on_sched (merge_command_window_to_buffer ?n) z2"
  have w4: "bound ?e4 \<and> windows ?e4 = (Some (off_image 15), q, Some (off_image 7), sc_pending (cs_sched e))"
    by (rule windows_on_sched [OF q]) (simp add: merge_command_window_to_buffer_def ld2 off_merged)
  let ?s5 = "clear_command_msg_window ?n (load_sched ?e4)"
  have "sc_msg_cmd_buf ?s5 = sc_msg_cmd_buf (load_sched ?e4)" "sc_nodes ?s5 = cs_nodes"
    using windows_loaded(4) [OF conjunct1 [OF w4] conjunct2 [OF w4]] by (simp_all add: clear_command_msg_window_def)
  then have m: "sc_nodes (cs_sched (command_merged ?n z2)) = cs_nodes" "b_cmd_buf (cs_bus (command_merged ?n z2)) = Some (off_image 7)"
    using w4 buf_store [of ?s5 ?e4] by (simp_all add: command_merged_def on_sched_def [of _ ?e4] windows_def) (simp add: store_sched_def)
  have "prepared ?t ?e0 = Some (command_merged ?n z2)"
    using prepare_command_eq [of ?e0 ?t 0] k r(5,6) st by (simp add: prepared_def z_def)
  then have "e3 = armed_env 0 0 ARP_FLAG_CMD_REQ (command_merged ?n z2)"
    using assms(3) r(6) unfolding arm_cases(2) [OF arm] by (simp add: request_flag_def)
  with m show "b_cmd_buf (cs_bus e3) = Some (off_image 7)" "b_exchange_flag (cs_bus e3) = ex_tx" "b_tx_flag (cs_bus e3) = tx_sof"
    "b_msg_flag (cs_bus e3) = ARP_FLAG_CMD_REQ" "b_target_addr (cs_bus e3) = ARP_ADDR_PSS"
    by (simp_all add: armed_env_def start_exchange_def IBUS_CLEAR_RESULT_def off_windows)
qed

theorem power_command_delivered_witness:
  "\<exists>s con e m s' b x q. system_run 0 (system_start (pss_env0 sim_vars)) 1 s \<and> fst (snd s) = Some (con, e) \<and>
     b_exchange_flag (cs_bus e) = ex_tx \<and> buf_slot (cs_bus e) CPSSPWROFF = 1 \<and> m \<le> 20 \<and> system_run 1 s m s' \<and>
     system_tick (1 + of_nat m) s' = (b, x, Some q) \<and> get_u8 (ps_mem q) PSSPWR = 0"
proof -
  let ?p = "pss_env0 sim_vars" and ?l = "''cmd pss CPSSPWROFF''"
  let ?con = "snd (console_line ?l console0)"
  let ?s0 = "(mock_bus_init, Some (?con, cs_runtime_init cs_env0), Some (pss_runtime_init ?p))"
  have l: "sendable_line ?l" "waiting_for tgt_cs ?con = [cmd_off]" by code_simp+
  have h: "handle_command cmd_off e = Some (handle_cmd_command cmd_off e)" for e by (simp add: handle_command_def cmd_off_def)
  obtain w con e2 e3 z where t: "cs_inv e2" "ready_off e2" "arm_active_exchange e2 = Some e3" "IBUS_EXCHANGE no_bus_hooks None (cs_bus e3) = (w, z)"
    "\<not> b_busy (cs_bus e2) \<longrightarrow> cs_runtime_step 0 None (?con, cs_runtime_init cs_env0) = (w, Some (con, e3\<lparr>cs_bus := z\<rparr>))"
    by (rule boot_tick [OF l h, of ready_off, OF off_ready])
  let ?e = "e3\<lparr>cs_bus := z\<rparr>"
  have f: "cs_runtime_step 0 None (?con, cs_runtime_init cs_env0) = (w, Some (con, ?e))" using t(2,5) by (simp add: ready_off_def)
  note a = off_armed [OF t(1-3)]
  have zf: "b_cmd_buf z = Some (off_image 7)" "b_exchange_flag z = ex_tx" "b_msg_flag z = ARP_FLAG_CMD_REQ" "b_target_addr z = ARP_ADDR_PSS"
    using t(4) a by (auto simp: IBUS_EXCHANGE_def IBUS_TX_EXCHANGE_def ITX_SOF_def Let_def)
  have "cs_inv e3" using arm_ok [OF t(1)] t(3) by auto
  then have "cs_bus_ok z" using exchange_bus_ok [of "cs_bus e3" None] t(4) by (simp add: cs_inv_def)
  then have "b_cmd_buf_blocks z = 8" by (simp add: cs_bus_ok_def)
  moreover have "blk_rd (Some (off_image 7), 8) (cmd_slot CPSSPWROFF) = Some 1" by code_simp
  ultimately have slot: "buf_slot z CPSSPWROFF = 1" by (simp add: buf_slot_def zf(1))
  have "between (system_start ?p) ?s0" using typed [OF idle l(1)] by (simp add: system_start_def)
  then have r0: "system_run 0 (system_start ?p) 0 ?s0" by (rule run_start)
  from run_tick [OF r0 idle] have r1: "system_run 0 (system_start ?p) 1 (system_tick 0 ?s0)" by simp
  have rd: "mock_bus_read_u8 mock_bus_init 0 = None" by (simp add: mock_bus_init_def mock_bus_read_u8_def)
  obtain v y where pn: "pss_node_fn 0 None (Some (pss_runtime_init ?p)) = (v, y)" by fastforce
  obtain b where tick: "system_tick 0 ?s0 = (b, Some (con, ?e), y)"
    using system_tick_nodes [of mock_bus_init 0, unfolded rd, OF _ _ pn, of "Some (?con, cs_runtime_init cs_env0)" w "Some (con, ?e)"] f
    by (auto simp: cs_node_fn_def bus_quiet_def mock_bus_init_def)
  have hyp: "b_exchange_flag (cs_bus ?e) = ex_tx" "b_msg_flag (cs_bus ?e) = ARP_FLAG_CMD_REQ" "b_target_addr (cs_bus ?e) = ARP_ADDR_PSS"
    "buf_slot (cs_bus ?e) CPSSPWROFF = 1" using zf slot by simp_all
  note D = power_command_delivered [OF pss_start_demo r1 [unfolded tick] hyp(1-3), unfolded of_nat_1]
  let ?R = "system_run 1 (b, Some (con, ?e), y)"
  let ?Q = "\<lambda>m s'. \<exists>b' x' q. system_tick (1 + of_nat m) s' = (b', x', Some q) \<and>
    (buf_slot (cs_bus ?e) CPSSPWROFF \<noteq> 0 \<longrightarrow> (\<forall>r \<in> {PSSPWR, PSSPWR12, PSSPWR6, PSSPWR5, PSSPWR33}. get_u8 (ps_mem q) r = 0)) \<and>
    (buf_slot (cs_bus ?e) CPSSPWROFF = 0 \<and> buf_slot (cs_bus ?e) CPSSPWRON \<noteq> 0 \<longrightarrow> get_u8 (ps_mem q) PSSPWR = 1)"
  from D obtain m where mm: "m \<le> 20 \<and> (\<exists>s'. ?R m s') \<and> (\<forall>s'. ?R m s' \<longrightarrow> ?Q m s')" by (rule exE)
  note m = conjunct1 [OF mm] conjunct1 [OF conjunct2 [OF mm]] conjunct2 [OF conjunct2 [OF mm]]
  from m(2) obtain s' where s': "?R m s'" by (rule exE)
  from mp [OF spec [OF m(3)] s'] obtain b' x' q where z': "system_tick (1 + of_nat m) s' = (b', x', Some q)"
    "buf_slot (cs_bus ?e) CPSSPWROFF \<noteq> 0 \<longrightarrow> (\<forall>r \<in> {PSSPWR, PSSPWR12, PSSPWR6, PSSPWR5, PSSPWR33}. get_u8 (ps_mem q) r = 0)"
    by (elim exE conjE) (rule that)
  then have off: "get_u8 (ps_mem q) PSSPWR = 0" using hyp(4) by simp
  show ?thesis
    by (intro exI [of _ "(b, Some (con, ?e), y)"] exI [of _ con] exI [of _ ?e] exI [of _ m] exI [of _ s'] exI [of _ b'] exI [of _ x'] exI [of _ q])
      (use m(1) s' z'(1) off hyp r1 tick in simp)
qed

end
