(* ===== verification/Process.thy ===== *)
theory Process
  imports SysRun
begin

text \<open>
  The process, \<open>sim_operator.cpp\<close>: two worker threads run the nodes over the simulated bus and meet at a
  \<open>std::barrier\<close> after each tick, whose completion moves the bus to the next tick; a third thread runs
  the model of the power system; signals and the duration guard ask for the end. A worker is a program
  counter with its tick number, and the state of the process moves by one atomic action of one thread.
  Every interleaving of the threads refines the runs of \<open>SysRun\<close>, no worker waits forever at a barrier,
  and the workers end once the end is asked for. How long a thread sleeps is not modelled, since no
  state depends on it. A step of the model or a line of the console is atomic and does not fall inside
  the action of a worker that runs its node.
\<close>

subsection \<open>Barriers\<close>

text \<open>\<open>std::barrier\<close>: the phase, the number of threads that take part, and how many of them the phase waits for.\<close>

record barrier =
  ba_phase :: nat
  ba_expected :: nat
  ba_pending :: nat

definition barrier_of :: "nat \<Rightarrow> barrier" where
  "barrier_of n = \<lparr>ba_phase = 0, ba_expected = n, ba_pending = n\<rparr>"

text \<open>An arrival; the last one completes the phase. A thread that arrived in a phase waits until the phase is over.\<close>

definition arrive :: "barrier \<Rightarrow> barrier \<times> bool" where
  "arrive b = (if ba_pending b = 1 then (\<lparr>ba_phase = Suc (ba_phase b), ba_expected = ba_expected b, ba_pending = ba_expected b\<rparr>, True)
     else (b\<lparr>ba_pending := ba_pending b - 1\<rparr>, False))"

definition arrive_and_drop :: "barrier \<Rightarrow> barrier \<times> bool" where
  "arrive_and_drop b = arrive (b\<lparr>ba_expected := ba_expected b - 1\<rparr>)"

subsection \<open>The workers\<close>

datatype pc = Starting | Entering | Entered nat | Testing | Reading | Running "u8 option" | Arriving | Arrived nat | Leaving | Ended

record worker =
  w_pc :: pc
  w_tick :: u32

definition k_bus_system_thread_count :: nat where "k_bus_system_thread_count = 2"

text \<open>What the two workers share, and the process.\<close>

record shared =
  sh_bus :: mock_bus
  sh_next :: u32
  sh_start :: barrier
  sh_barrier :: barrier

record proc =
  pr_stop :: bool
  pr_shared :: shared
  pr_cs :: worker
  pr_pss :: worker
  pr_cs_node :: "(console \<times> cs_env) option"
  pr_pss_node :: "pss_env option"

definition worker0 :: worker where "worker0 = \<lparr>w_pc = Starting, w_tick = 0\<rparr>"

text \<open>The process after \<open>mock_bus_init\<close> and \<open>control::start\<close>, when its threads start.\<close>

definition proc_start :: "pss_env \<Rightarrow> proc" where
  "proc_start p = \<lparr>pr_stop = False, pr_shared = \<lparr>sh_bus = mock_bus_init, sh_next = 1,
       sh_start = barrier_of k_bus_system_thread_count, sh_barrier = barrier_of k_bus_system_thread_count\<rparr>,
     pr_cs = worker0, pr_pss = worker0, pr_cs_node = Some (console0, cs_env0), pr_pss_node = Some p\<rparr>"

text \<open>
  The actions of the loop of a worker that do not touch its node: the two barriers and the test of the
  stop flag. The result has the barriers, whether a tick was completed, and the worker; \<open>None\<close> while it waits.
\<close>

definition control_move :: "bool \<Rightarrow> barrier \<Rightarrow> barrier \<Rightarrow> worker \<Rightarrow> (barrier \<times> barrier \<times> bool \<times> worker) option" where
  "control_move stop st tk w =
     (case w_pc w of
        Entering \<Rightarrow> Some (fst (arrive st), tk, False, w\<lparr>w_pc := Entered (ba_phase st)\<rparr>)
      | Entered j \<Rightarrow> if ba_phase st = j then None else Some (st, tk, False, w\<lparr>w_pc := Testing\<rparr>)
      | Testing \<Rightarrow> Some (st, tk, False, w\<lparr>w_pc := (if stop then Leaving else Reading)\<rparr>)
      | Arriving \<Rightarrow> (case arrive tk of (tk', fin) \<Rightarrow> Some (st, tk', fin, w\<lparr>w_pc := Arrived (ba_phase tk)\<rparr>))
      | Arrived j \<Rightarrow> if ba_phase tk = j then None else Some (st, tk, False, w\<lparr>w_pc := Testing\<rparr>)
      | Leaving \<Rightarrow> (case arrive_and_drop tk of (tk', fin) \<Rightarrow> Some (st, tk', fin, w\<lparr>w_pc := Ended\<rparr>))
      | _ \<Rightarrow> None)"

text \<open>The completion function of the tick barrier.\<close>

definition complete_tick :: "bool \<Rightarrow> shared \<Rightarrow> shared" where
  "complete_tick fin h = (if fin then h\<lparr>sh_bus := mock_bus_tick (sh_bus h) (sh_next h), sh_next := sh_next h + 1\<rparr> else h)"

text \<open>
  One action of a worker, for \<open>ini\<close> and \<open>f\<close> the start and the tick of its node: \<open>cs_worker_loop\<close> and
  \<open>pss_worker_loop\<close> are the same code around their own node. The tick reads the bus first and writes last.
\<close>

definition worker_move :: "('n \<Rightarrow> 'n) \<Rightarrow> (u32 \<Rightarrow> 'n node_fn) \<Rightarrow> bool \<Rightarrow> shared \<Rightarrow> worker \<Rightarrow> 'n \<Rightarrow> (shared \<times> worker \<times> 'n) option" where
  "worker_move ini f stop h w x =
     (case w_pc w of
        Starting \<Rightarrow> Some (h, w\<lparr>w_pc := Entering\<rparr>, ini x)
      | Reading \<Rightarrow> Some (h, w\<lparr>w_pc := Running (mock_bus_read_u8 (sh_bus h) (w_tick w))\<rparr>, x)
      | Running rx \<Rightarrow> (case f (w_tick w) rx x of (out, x1) \<Rightarrow>
          Some (h\<lparr>sh_bus := put_opt mock_bus_write_u8 (sh_bus h) (w_tick w) out\<rparr>, \<lparr>w_pc = Arriving, w_tick = w_tick w + 1\<rparr>, x1))
      | _ \<Rightarrow> map_option (\<lambda>(st, tk, fin, w1). (complete_tick fin (h\<lparr>sh_start := st, sh_barrier := tk\<rparr>), w1, x))
               (control_move stop (sh_start h) (sh_barrier h) w))"

definition cs_start_node :: "(console \<times> cs_env) option \<Rightarrow> (console \<times> cs_env) option" where
  "cs_start_node = map_option (\<lambda>(con, e). (con, cs_runtime_init e))"

definition cs_move :: "proc \<Rightarrow> proc option" where
  "cs_move s = map_option (\<lambda>(h, w, x). s\<lparr>pr_shared := h, pr_cs := w, pr_cs_node := x\<rparr>)
     (worker_move cs_start_node cs_node_fn (pr_stop s) (pr_shared s) (pr_cs s) (pr_cs_node s))"

definition pss_move :: "proc \<Rightarrow> proc option" where
  "pss_move s = map_option (\<lambda>(h, w, y). s\<lparr>pr_shared := h, pr_pss := w, pr_pss_node := y\<rparr>)
     (worker_move (map_option pss_runtime_init) pss_node_fn (pr_stop s) (pr_shared s) (pr_pss s) (pr_pss_node s))"

text \<open>
  The other threads: the two inputs of the console, the thread of the model, and the end. Lines with a
  finite value above \<open>2 ^ 61\<close> in magnitude are left out, as in \<open>CsRun\<close>; a step of the model is one action,
  between two actions of the workers, of which the tick of a node is one.
\<close>

inductive other_move :: "proc \<Rightarrow> proc \<Rightarrow> bool" where
  on_signal: "other_move s (s\<lparr>pr_stop := True\<rparr>)"
| line_typed: "pr_cs_node s = Some (con, e) \<Longrightarrow> sendable_line l \<Longrightarrow> other_move s (s\<lparr>pr_cs_node := Some (snd (console_line l con), e)\<rparr>)"
| line_filed: "pr_cs_node s = Some (con, e) \<Longrightarrow> sendable_line l \<Longrightarrow> other_move s (s\<lparr>pr_cs_node := Some (file_line l con, e)\<rparr>)"
| model_init: "pr_pss_node s = Some e \<Longrightarrow> pss_sim_init (ps_mem e) = Some m \<Longrightarrow> other_move s (s\<lparr>pr_pss_node := Some (e\<lparr>ps_mem := m\<rparr>)\<rparr>)"
| model_step: "pr_pss_node s = Some e \<Longrightarrow> other_move s (s\<lparr>pr_pss_node := Some (e\<lparr>ps_mem := pss_sim_step (ps_mem e)\<rparr>)\<rparr>)"

text \<open>Executions, with the number of actions of the two workers.\<close>

inductive proc_run :: "proc \<Rightarrow> nat \<Rightarrow> proc \<Rightarrow> bool" for s where
  proc_begin: "proc_run s 0 s"
| proc_cs: "proc_run s n s1 \<Longrightarrow> cs_move s1 = Some s2 \<Longrightarrow> proc_run s (Suc n) s2"
| proc_pss: "proc_run s n s1 \<Longrightarrow> pss_move s1 = Some s2 \<Longrightarrow> proc_run s (Suc n) s2"
| proc_other: "proc_run s n s1 \<Longrightarrow> other_move s1 s2 \<Longrightarrow> proc_run s n s2"

lemma run_append: "proc_run s1 n s2 \<Longrightarrow> proc_run s m s1 \<Longrightarrow> proc_run s (m + n) s2"
  by (induction rule: proc_run.induct) (auto intro: proc_run.intros)

subsection \<open>No deadlock, and the end\<close>

text \<open>
  The barriers in every state: a worker that waits arrived in the current phase, all others that are in
  it have arrived too or will, and only workers that have not ended are expected.
\<close>

definition waits_at :: "barrier \<Rightarrow> worker \<Rightarrow> nat" where
  "waits_at b w = (if w_pc w = Arrived (ba_phase b) then 1 else 0)"

definition entered :: "worker \<Rightarrow> nat" where
  "entered w = (if w_pc w \<in> {Starting, Entering} then 0 else 1)"

definition live :: "worker \<Rightarrow> nat" where
  "live w = (if w_pc w = Ended then 0 else 1)"

definition before_loop :: "barrier \<Rightarrow> worker \<Rightarrow> bool" where
  "before_loop st w \<longleftrightarrow> (\<forall>j. w_pc w = Entered j \<longrightarrow> j = 0) \<and> (ba_phase st = 0 \<longrightarrow> w_pc w \<in> {Starting, Entering, Entered 0})"

definition start_barrier_ok :: "barrier \<Rightarrow> worker \<Rightarrow> worker \<Rightarrow> bool" where
  "start_barrier_ok st w v \<longleftrightarrow> ba_expected st = 2 \<and> before_loop st w \<and> before_loop st v \<and>
     (if entered w + entered v = 2 then ba_phase st = 1 else ba_phase st = 0 \<and> ba_pending st + entered w + entered v = 2)"

definition tick_barrier_ok :: "barrier \<Rightarrow> worker \<Rightarrow> worker \<Rightarrow> bool" where
  "tick_barrier_ok tk w v \<longleftrightarrow> ba_expected tk = live w + live v \<and> ba_pending tk + waits_at tk w + waits_at tk v = live w + live v \<and>
     (0 < live w + live v \<longrightarrow> 0 < ba_pending tk) \<and> (\<forall>j. w_pc w = Arrived j \<longrightarrow> j \<le> ba_phase tk) \<and> (\<forall>j. w_pc v = Arrived j \<longrightarrow> j \<le> ba_phase tk)"

lemma barriers_swap: "start_barrier_ok st w v \<longleftrightarrow> start_barrier_ok st v w" "tick_barrier_ok tk w v \<longleftrightarrow> tick_barrier_ok tk v w"
  by (auto simp: start_barrier_ok_def tick_barrier_ok_def add.commute add.left_commute)

lemma arrive_ok:
  assumes "tick_barrier_ok tk w v" "w_pc w = Arriving" "arrive tk = (tk', fin)"
  shows "tick_barrier_ok tk' (w\<lparr>w_pc := Arrived (ba_phase tk)\<rparr>) v"
proof -
  have w: "live w = 1" "waits_at tk w = 0" using assms(2) by (simp_all add: live_def waits_at_def)
  have l: "ba_expected tk = 1 + live v" "ba_pending tk + waits_at tk v = 1 + live v" "0 < ba_pending tk"
    "\<And>j. w_pc v = Arrived j \<Longrightarrow> j \<le> ba_phase tk" using assms(1) w by (simp_all add: tick_barrier_ok_def)
  let ?w = "w\<lparr>w_pc := Arrived (ba_phase tk)\<rparr>"
  have w': "live ?w = 1" by (simp add: live_def)
  show ?thesis
  proof (cases "ba_pending tk = 1")
    case True
    then have tk': "ba_phase tk' = Suc (ba_phase tk)" "ba_expected tk' = ba_expected tk" "ba_pending tk' = ba_expected tk"
      using assms(3) by (auto simp: arrive_def)
    have "waits_at tk' ?w = 0" "waits_at tk' v = 0" using l(4) by (auto simp: waits_at_def tk')
    then show ?thesis using l w' by (auto simp: tick_barrier_ok_def tk' le_Suc_eq)
  next
    case False
    then have tk': "ba_phase tk' = ba_phase tk" "ba_expected tk' = ba_expected tk" "ba_pending tk' = ba_pending tk - 1"
      using assms(3) by (auto simp: arrive_def)
    have "waits_at tk' ?w = 1" "waits_at tk' v = waits_at tk v" by (simp_all add: waits_at_def tk')
    then show ?thesis using l w' False by (auto simp: tick_barrier_ok_def tk')
  qed
qed

lemma leave_ok:
  assumes "tick_barrier_ok tk w v" "w_pc w = Leaving" "arrive_and_drop tk = (tk', fin)"
  shows "tick_barrier_ok tk' (w\<lparr>w_pc := Ended\<rparr>) v"
proof -
  have w: "live w = 1" "waits_at tk w = 0" using assms(2) by (simp_all add: live_def waits_at_def)
  have l: "ba_expected tk = 1 + live v" "ba_pending tk + waits_at tk v = 1 + live v" "0 < ba_pending tk"
    "\<And>j. w_pc v = Arrived j \<Longrightarrow> j \<le> ba_phase tk" using assms(1) w by (simp_all add: tick_barrier_ok_def)
  let ?w = "w\<lparr>w_pc := Ended\<rparr>"
  have w': "live ?w = 0" "waits_at b ?w = 0" for b by (simp_all add: live_def waits_at_def)
  show ?thesis
  proof (cases "ba_pending tk = 1")
    case True
    then have tk': "ba_phase tk' = Suc (ba_phase tk)" "ba_expected tk' = live v" "ba_pending tk' = live v"
      using assms(3) l(1) by (auto simp: arrive_def arrive_and_drop_def)
    have "waits_at tk' v = 0" using l(4) by (auto simp: waits_at_def tk')
    then show ?thesis using l(4) w' by (auto simp: tick_barrier_ok_def tk' le_Suc_eq)
  next
    case False
    then have tk': "ba_phase tk' = ba_phase tk" "ba_expected tk' = live v" "ba_pending tk' = ba_pending tk - 1"
      using assms(3) l(1) by (auto simp: arrive_def arrive_and_drop_def)
    have "waits_at tk' v = waits_at tk v" by (simp add: waits_at_def tk')
    then show ?thesis using l w' False by (auto simp: tick_barrier_ok_def tk')
  qed
qed

lemma enter_ok:
  assumes "start_barrier_ok st w v" "w_pc w = Entering"
  shows "start_barrier_ok (fst (arrive st)) (w\<lparr>w_pc := Entered (ba_phase st)\<rparr>) v"
proof -
  have w: "entered w = 0" using assms(2) by (simp add: entered_def)
  have v: "entered v = 0 \<or> entered v = 1" by (simp add: entered_def)
  then have l: "ba_expected st = 2" "before_loop st v" "ba_phase st = 0" "ba_pending st + entered v = 2"
    using assms(1) w by (auto simp: start_barrier_ok_def)
  show ?thesis using v
  proof
    assume "entered v = 0"
    then show ?thesis using l by (simp add: start_barrier_ok_def arrive_def entered_def before_loop_def split: if_splits)
  next
    assume "entered v = 1"
    then show ?thesis using l by (auto simp: start_barrier_ok_def arrive_def entered_def before_loop_def)
  qed
qed

lemma moved_ok:
  assumes "w_pc w \<notin> {Ended, Starting, Entering}" "c \<in> {Testing, Reading, Leaving, Arriving} \<or> (\<exists>rx. c = Running rx)"
    "w_pc w \<noteq> Arrived (ba_phase tk)" "w_pc w \<noteq> Entered (ba_phase st)"
  shows "start_barrier_ok st w v \<Longrightarrow> start_barrier_ok st \<lparr>w_pc = c, w_tick = t\<rparr> v" "tick_barrier_ok tk w v \<Longrightarrow> tick_barrier_ok tk \<lparr>w_pc = c, w_tick = t\<rparr> v"
proof -
  have "entered \<lparr>w_pc = c, w_tick = t\<rparr> = entered w" "live \<lparr>w_pc = c, w_tick = t\<rparr> = live w"
    "waits_at tk \<lparr>w_pc = c, w_tick = t\<rparr> = waits_at tk w"
    using assms by (auto simp: entered_def live_def waits_at_def)
  moreover have "before_loop st w \<Longrightarrow> before_loop st \<lparr>w_pc = c, w_tick = t\<rparr>" using assms by (auto simp: before_loop_def)
  ultimately show "start_barrier_ok st w v \<Longrightarrow> start_barrier_ok st \<lparr>w_pc = c, w_tick = t\<rparr> v" "tick_barrier_ok tk w v \<Longrightarrow> tick_barrier_ok tk \<lparr>w_pc = c, w_tick = t\<rparr> v"
    using assms(2) by (auto simp: start_barrier_ok_def tick_barrier_ok_def)
qed

lemma control_barriers:
  assumes "start_barrier_ok st w v" "tick_barrier_ok tk w v" "control_move stop st tk w = Some (st', tk', fin, w')"
  shows "start_barrier_ok st' w' v \<and> tick_barrier_ok tk' w' v"
proof -
  have upd: "w\<lparr>w_pc := c\<rparr> = \<lparr>w_pc = c, w_tick = w_tick w\<rparr>" for c by (cases w) simp
  have keep: "start_barrier_ok st (w\<lparr>w_pc := c\<rparr>) v" if "w_pc w \<in> {Arriving, Leaving}" "c \<in> {Arrived j, Ended}" for c j
    using assms(1) that by (auto simp: start_barrier_ok_def before_loop_def entered_def)
  have keep2: "tick_barrier_ok tk (w\<lparr>w_pc := Entered j\<rparr>) v" if "w_pc w = Entering" for j
    using assms(2) that by (simp add: tick_barrier_ok_def live_def waits_at_def)
  show ?thesis
  proof (cases "w_pc w")
    case Entering
    then show ?thesis using assms(3) enter_ok [OF assms(1) Entering] keep2 by (auto simp: control_move_def)
  next
    case (Entered j)
    then show ?thesis using assms moved_ok [of w Testing tk st v "w_tick w"] by (auto simp: control_move_def upd split: if_splits)
  next
    case Testing
    then show ?thesis
      using assms moved_ok [of w Reading tk st v "w_tick w"] moved_ok [of w Leaving tk st v "w_tick w"]
      by (auto simp: control_move_def upd split: if_splits)
  next
    case Arriving
    then show ?thesis using assms(3) arrive_ok [OF assms(2) Arriving] keep by (auto simp: control_move_def split: prod.splits)
  next
    case (Arrived j)
    then show ?thesis using assms moved_ok [of w Testing tk st v "w_tick w"] by (auto simp: control_move_def upd split: if_splits)
  next
    case Leaving
    then show ?thesis using assms(3) leave_ok [OF assms(2) Leaving] keep by (auto simp: control_move_def split: prod.splits)
  qed (use assms(3) in \<open>simp_all add: control_move_def\<close>)
qed

text \<open>What a move of a worker does to the control state.\<close>

definition loop_move :: "bool \<Rightarrow> shared \<Rightarrow> worker \<Rightarrow> shared \<Rightarrow> worker \<Rightarrow> bool" where
  "loop_move stop h w h' w' \<longleftrightarrow>
     (w_pc w = Starting \<and> w' = w\<lparr>w_pc := Entering\<rparr> \<or> w_pc w = Reading \<and> (\<exists>rx. w' = w\<lparr>w_pc := Running rx\<rparr>) \<or>
      (\<exists>rx. w_pc w = Running rx) \<and> w' = \<lparr>w_pc = Arriving, w_tick = w_tick w + 1\<rparr>) \<and> sh_start h' = sh_start h \<and> sh_barrier h' = sh_barrier h \<or>
     (\<exists>fin. control_move stop (sh_start h) (sh_barrier h) w = Some (sh_start h', sh_barrier h', fin, w'))"

lemma complete_fields [simp]: "sh_start (complete_tick fin h) = sh_start h" "sh_barrier (complete_tick fin h) = sh_barrier h"
  by (simp_all add: complete_tick_def)

lemma worker_loop_move: "worker_move ini f stop h w x = Some (h', w', x') \<Longrightarrow> loop_move stop h w h' w'"
  by (cases "w_pc w") (auto simp: worker_move_def loop_move_def split: prod.splits)

lemma move_parts:
  "cs_move s = Some s' \<Longrightarrow> \<exists>h w x. worker_move cs_start_node cs_node_fn (pr_stop s) (pr_shared s) (pr_cs s) (pr_cs_node s) = Some (h, w, x) \<and>
     s' = s\<lparr>pr_shared := h, pr_cs := w, pr_cs_node := x\<rparr>"
  "pss_move s = Some s' \<Longrightarrow> \<exists>h w y. worker_move (map_option pss_runtime_init) pss_node_fn (pr_stop s) (pr_shared s) (pr_pss s) (pr_pss_node s) = Some (h, w, y) \<and>
     s' = s\<lparr>pr_shared := h, pr_pss := w, pr_pss_node := y\<rparr>"
  by (auto simp: cs_move_def pss_move_def)

lemma move_control:
  "cs_move s = Some s' \<Longrightarrow> loop_move (pr_stop s) (pr_shared s) (pr_cs s) (pr_shared s') (pr_cs s') \<and> pr_pss s' = pr_pss s \<and> pr_stop s' = pr_stop s"
  "pss_move s = Some s' \<Longrightarrow> loop_move (pr_stop s) (pr_shared s) (pr_pss s) (pr_shared s') (pr_pss s') \<and> pr_cs s' = pr_cs s \<and> pr_stop s' = pr_stop s"
proof -
  assume "cs_move s = Some s'"
  then obtain h w x where m: "worker_move cs_start_node cs_node_fn (pr_stop s) (pr_shared s) (pr_cs s) (pr_cs_node s) = Some (h, w, x)"
    "s' = s\<lparr>pr_shared := h, pr_cs := w, pr_cs_node := x\<rparr>" using move_parts(1) by blast
  show "loop_move (pr_stop s) (pr_shared s) (pr_cs s) (pr_shared s') (pr_cs s') \<and> pr_pss s' = pr_pss s \<and> pr_stop s' = pr_stop s"
    using worker_loop_move [OF m(1)] by (simp add: m(2))
next
  assume "pss_move s = Some s'"
  then obtain h w y where m: "worker_move (map_option pss_runtime_init) pss_node_fn (pr_stop s) (pr_shared s) (pr_pss s) (pr_pss_node s) = Some (h, w, y)"
    "s' = s\<lparr>pr_shared := h, pr_pss := w, pr_pss_node := y\<rparr>" using move_parts(2) by blast
  show "loop_move (pr_stop s) (pr_shared s) (pr_pss s) (pr_shared s') (pr_pss s') \<and> pr_cs s' = pr_cs s \<and> pr_stop s' = pr_stop s"
    using worker_loop_move [OF m(1)] by (simp add: m(2))
qed

definition barriers_ok :: "shared \<Rightarrow> worker \<Rightarrow> worker \<Rightarrow> bool" where
  "barriers_ok h w v \<longleftrightarrow> start_barrier_ok (sh_start h) w v \<and> tick_barrier_ok (sh_barrier h) w v"

lemma loop_move_barriers:
  assumes "loop_move stop h w h' w'" "barriers_ok h w v"
  shows "barriers_ok h' w' v"
proof -
  let ?st = "sh_start h" and ?tk = "sh_barrier h"
  have ok: "start_barrier_ok ?st w v" "tick_barrier_ok ?tk w v" using assms(2) by (simp_all add: barriers_ok_def)
  have upd: "w\<lparr>w_pc := c\<rparr> = \<lparr>w_pc = c, w_tick = w_tick w\<rparr>" for c by (cases w) simp
  consider "w_pc w = Starting" "w' = w\<lparr>w_pc := Entering\<rparr>" "sh_start h' = ?st" "sh_barrier h' = ?tk"
    | rx where "w_pc w = Reading" "w' = w\<lparr>w_pc := Running rx\<rparr>" "sh_start h' = ?st" "sh_barrier h' = ?tk"
    | rx where "w_pc w = Running rx" "w' = \<lparr>w_pc = Arriving, w_tick = w_tick w + 1\<rparr>" "sh_start h' = ?st" "sh_barrier h' = ?tk"
    | fin where "control_move stop ?st ?tk w = Some (sh_start h', sh_barrier h', fin, w')"
    using assms(1) unfolding loop_move_def by blast
  then have "start_barrier_ok (sh_start h') w' v \<and> tick_barrier_ok (sh_barrier h') w' v"
  proof cases
    case 1
    then have "entered w' = entered w" "live w' = live w" "waits_at ?tk w' = waits_at ?tk w" "before_loop ?st w'"
      "\<forall>j. w_pc w' \<noteq> Arrived j" by (simp_all add: before_loop_def entered_def live_def waits_at_def)
    then show ?thesis using 1 ok by (simp add: start_barrier_ok_def tick_barrier_ok_def)
  next
    case (2 rx)
    then show ?thesis using ok moved_ok [of w "Running rx" ?tk ?st v "w_tick w"] by (simp add: upd)
  next
    case (3 rx)
    then show ?thesis using ok moved_ok [of w Arriving ?tk ?st v "w_tick w + 1"] by simp
  next
    case (4 fin)
    then show ?thesis using control_barriers [OF ok] by blast
  qed
  then show ?thesis by (simp add: barriers_ok_def)
qed

lemma other_keeps: "other_move s s' \<Longrightarrow> pr_shared s' = pr_shared s \<and> pr_cs s' = pr_cs s \<and> pr_pss s' = pr_pss s \<and> (pr_stop s \<longrightarrow> pr_stop s')"
  by (induction rule: other_move.induct) simp_all

lemma run_barriers:
  assumes "proc_run (proc_start p) n s"
  shows "barriers_ok (pr_shared s) (pr_cs s) (pr_pss s)"
  using assms
proof (induction rule: proc_run.induct)
  case proc_begin
  show ?case by (simp add: proc_start_def barrier_of_def k_bus_system_thread_count_def worker0_def barriers_ok_def start_barrier_ok_def tick_barrier_ok_def
        before_loop_def entered_def live_def waits_at_def)
next
  case (proc_cs n s1 s2)
  then show ?case using move_control(1) [of s1 s2] loop_move_barriers by auto
next
  case (proc_pss n s1 s2)
  then show ?case using move_control(2) [of s1 s2] loop_move_barriers by (metis barriers_ok_def barriers_swap)
next
  case (proc_other n s1 s2)
  then show ?case using other_keeps [OF proc_other(2)] by simp
qed

lemma worker_stuck: "worker_move ini f stop h w x = None \<Longrightarrow>
    w_pc w = Ended \<or> w_pc w = Entered (ba_phase (sh_start h)) \<or> w_pc w = Arrived (ba_phase (sh_barrier h))"
  by (cases "w_pc w") (auto simp: worker_move_def control_move_def split: prod.splits if_splits)

lemma stuck_cases:
  "cs_move s = None \<Longrightarrow> w_pc (pr_cs s) = Ended \<or> w_pc (pr_cs s) = Entered (ba_phase (sh_start (pr_shared s))) \<or>
     w_pc (pr_cs s) = Arrived (ba_phase (sh_barrier (pr_shared s)))"
  "pss_move s = None \<Longrightarrow> w_pc (pr_pss s) = Ended \<or> w_pc (pr_pss s) = Entered (ba_phase (sh_start (pr_shared s))) \<or>
     w_pc (pr_pss s) = Arrived (ba_phase (sh_barrier (pr_shared s)))"
  unfolding cs_move_def pss_move_def map_option_is_None by (erule worker_stuck)+

lemma nobody_stuck:
  assumes "barriers_ok h w v"
    "w_pc w = Ended \<or> w_pc w = Entered (ba_phase (sh_start h)) \<or> w_pc w = Arrived (ba_phase (sh_barrier h))"
    "w_pc v = Ended \<or> w_pc v = Entered (ba_phase (sh_start h)) \<or> w_pc v = Arrived (ba_phase (sh_barrier h))"
  shows "w_pc w = Ended \<and> w_pc v = Ended"
proof -
  let ?tk = "sh_barrier h"
  have b: "start_barrier_ok (sh_start h) w v" "tick_barrier_ok ?tk w v" using assms(1) by (simp_all add: barriers_ok_def)
  have e: "entered w = 1" "entered v = 1" using assms(2,3) by (auto simp: entered_def)
  then have "ba_phase (sh_start h) = 1" "before_loop (sh_start h) w" "before_loop (sh_start h) v" using b(1) by (simp_all add: start_barrier_ok_def)
  then have "w_pc w = Ended \<or> w_pc w = Arrived (ba_phase ?tk)" "w_pc v = Ended \<or> w_pc v = Arrived (ba_phase ?tk)"
    using assms(2,3) by (auto simp: before_loop_def)
  then have l: "live w = waits_at ?tk w" "live v = waits_at ?tk v" by (auto simp: live_def waits_at_def)
  have t: "ba_pending ?tk + waits_at ?tk w + waits_at ?tk v = live w + live v" "0 < live w + live v \<longrightarrow> 0 < ba_pending ?tk"
    using b(2) by (auto simp only: tick_barrier_ok_def)
  have "ba_pending ?tk = 0" using t(1) l by linarith
  with t(2) have "live w = 0" "live v = 0" by simp_all
  then show ?thesis by (simp_all add: live_def split: if_splits)
qed

text \<open>How many actions a worker has left once it sees that the end is asked for.\<close>

definition actions_left :: "worker \<Rightarrow> nat" where
  "actions_left w = (case w_pc w of Ended \<Rightarrow> 0 | Leaving \<Rightarrow> 1 | Testing \<Rightarrow> 2 | Arrived j \<Rightarrow> 3 | Entered j \<Rightarrow> 3 | Arriving \<Rightarrow> 4 | Entering \<Rightarrow> 4
     | Running rx \<Rightarrow> 5 | Starting \<Rightarrow> 5 | Reading \<Rightarrow> 6)"

lemma loop_move_left: "loop_move True h w h' w' \<Longrightarrow> actions_left w = Suc (actions_left w')"
  by (cases "w_pc w") (auto simp: loop_move_def control_move_def actions_left_def split: prod.splits if_splits)

lemma run_left:
  assumes "proc_run s n s'" "pr_stop s"
  shows "pr_stop s' \<and> actions_left (pr_cs s') + actions_left (pr_pss s') + n = actions_left (pr_cs s) + actions_left (pr_pss s)"
  using assms
proof (induction rule: proc_run.induct)
  case proc_begin
  then show ?case by simp
next
  case (proc_cs n s1 s2)
  then show ?case using move_control(1) [of s1 s2] loop_move_left by fastforce
next
  case (proc_pss n s1 s2)
  then show ?case using move_control(2) [of s1 s2] loop_move_left by fastforce
next
  case (proc_other n s1 s2)
  with other_keeps [OF proc_other(2)] show ?case by simp
qed

lemma actions_bound: "actions_left w \<le> 6"
  by (simp add: actions_left_def split: pc.split)

text \<open>
  C11: the process ends and never hangs. In every state that any interleaving of the threads reaches, as
  long as a worker has not ended, one of the two can act, whatever the other waits for; and once a
  signal or the duration guard has asked for the end, the workers take at most 12 actions, with any
  actions of the other threads in between, until both have left their loops.
\<close>
theorem workers_end:
  assumes "proc_run (proc_start p) n s"
  shows "(w_pc (pr_cs s) = Ended \<and> w_pc (pr_pss s) = Ended \<or> cs_move s \<noteq> None \<or> pss_move s \<noteq> None) \<and>
    (pr_stop s \<longrightarrow> (\<forall>m s'. proc_run s m s' \<longrightarrow> m \<le> 12))"
proof
  show "w_pc (pr_cs s) = Ended \<and> w_pc (pr_pss s) = Ended \<or> cs_move s \<noteq> None \<or> pss_move s \<noteq> None"
    using nobody_stuck [OF run_barriers [OF assms]] stuck_cases [of s] by blast
  show "pr_stop s \<longrightarrow> (\<forall>m s'. proc_run s m s' \<longrightarrow> m \<le> 12)"
  proof (intro impI allI)
    fix m s' assume "pr_stop s" "proc_run s m s'"
    then show "m \<le> 12" using run_left [of s m s'] actions_bound [of "pr_cs s"] actions_bound [of "pr_pss s"] by simp
  qed
qed

theorem workers_end_witness:
  "let s = (proc_start (pss_env0 sim_vars))\<lparr>pr_stop := True\<rparr> in
     (cs_move s \<noteq> None \<or> pss_move s \<noteq> None) \<and> (\<forall>m s'. proc_run s m s' \<longrightarrow> m \<le> 12)"
proof -
  have r: "proc_run (proc_start (pss_env0 sim_vars)) 0 ((proc_start (pss_env0 sim_vars))\<lparr>pr_stop := True\<rparr>)"
    by (rule proc_other [OF proc_begin on_signal])
  from workers_end [OF r] show ?thesis by (simp add: Let_def proc_start_def worker0_def)
qed

subsection \<open>The threads refine the runs of the system\<close>

lemma between_trans: "between s1 s2 \<Longrightarrow> between s0 s1 \<Longrightarrow> between s0 s2"
  by (induction rule: between.induct) (auto intro: between.intros)

lemma run_extend: "system_run t s k s' \<Longrightarrow> between s' s'' \<Longrightarrow> system_run t s k s''"
  by (induction rule: system_run.cases) (auto intro: system_run.intros between_trans)

text \<open>What the other threads do to one of the nodes.\<close>

definition cs_moves :: "(console \<times> cs_env) option \<Rightarrow> (console \<times> cs_env) option \<Rightarrow> bool" where
  "cs_moves x x' \<longleftrightarrow> (\<forall>b y. between (b, x, y) (b, x', y))"

definition pss_moves :: "pss_env option \<Rightarrow> pss_env option \<Rightarrow> bool" where
  "pss_moves y y' \<longleftrightarrow> (\<forall>b x. between (b, x, y) (b, x, y'))"

lemma moves_refl: "cs_moves x x" "pss_moves y y"
  by (simp_all add: cs_moves_def pss_moves_def idle)

lemma moves_trans: "cs_moves x1 x2 \<Longrightarrow> cs_moves x2 x3 \<Longrightarrow> cs_moves x1 x3" "pss_moves y1 y2 \<Longrightarrow> pss_moves y2 y3 \<Longrightarrow> pss_moves y1 y3"
  unfolding cs_moves_def pss_moves_def by (meson between_trans)+

lemma moves_both: "cs_moves x x' \<Longrightarrow> pss_moves y y' \<Longrightarrow> between (b, x, y) (b, x', y')"
  unfolding cs_moves_def pss_moves_def by (meson between_trans)

text \<open>The node as the runs see it: a worker that has not started yet counts as one that has.\<close>

definition now :: "('n \<Rightarrow> 'n) \<Rightarrow> worker \<Rightarrow> 'n \<Rightarrow> 'n" where
  "now ini w n = (if w_pc w = Starting then ini n else n)"

text \<open>
  Tick \<open>k\<close> from the side of one worker: either its node is still to run and is \<open>x\<close>, the one of the run,
  or it has run on the byte of the tick and wrote \<open>out\<close>, and since then only the other threads moved it.
\<close>

definition fresh :: "nat \<Rightarrow> mock_bus \<Rightarrow> worker \<Rightarrow> bool" where
  "fresh k b w \<longleftrightarrow> w_tick w = of_nat k \<and> (case w_pc w of Running rx \<Rightarrow> rx = mock_bus_read_u8 b (of_nat k)
     | Arrived j \<Rightarrow> j < k | Arriving \<Rightarrow> False | Leaving \<Rightarrow> False | Ended \<Rightarrow> False | _ \<Rightarrow> True)"

definition side :: "'n node_fn \<Rightarrow> ('n \<Rightarrow> 'n \<Rightarrow> bool) \<Rightarrow> nat \<Rightarrow> mock_bus \<Rightarrow> worker \<Rightarrow> 'n \<Rightarrow> 'n \<Rightarrow> u8 option \<Rightarrow> bool" where
  "side f mv k b w x cur out \<longleftrightarrow> fresh k b w \<and> out = None \<and> cur = x \<or>
     w_tick w = of_nat (Suc k) \<and> (w_pc w = Arriving \<or> w_pc w = Arrived k) \<and>
     (\<exists>x1. f (mock_bus_read_u8 b (of_nat k)) x = (out, x1) \<and> mv x1 cur)"

definition in_loop :: "worker \<Rightarrow> bool" where
  "in_loop w \<longleftrightarrow> w_pc w \<noteq> Leaving \<and> w_pc w \<noteq> Ended"

lemma side_control:
  assumes "side f mv k b w x cur out" "control_move stop st tk w = Some (st', tk', fin, w')" "ba_phase tk = k" "in_loop w'"
  shows "\<not> fin \<Longrightarrow> side f mv k b w' x cur out \<and> ba_phase tk' = k"
    "fin \<Longrightarrow> w_pc w = Arriving \<and> w_pc w' = Arrived k \<and> w_tick w' = w_tick w \<and> ba_pending tk = 1 \<and> ba_phase tk' = Suc k"
  by (use assms in \<open>cases "w_pc w"; auto simp: side_def fresh_def in_loop_def control_move_def arrive_def split: prod.splits if_splits\<close>)+

lemma side_moves:
  assumes "side f mv k b w x cur out" "mv cur cur'" "\<And>a b c. mv a b \<Longrightarrow> mv b c \<Longrightarrow> mv a c"
  obtains x' where "x' = x \<or> mv x x'" "side f mv k b w x' cur' out"
proof (cases "fresh k b w \<and> out = None \<and> cur = x")
  case True
  then show thesis using that [of cur'] assms(2) by (simp add: side_def)
next
  case False
  then have "side f mv k b w x cur' out" using assms unfolding side_def by blast
  then show thesis using that by blast
qed

lemma last_of_simps [simp]: "last_of None z = z" "last_of z None = z"
  by (simp_all add: last_of_def split: option.split)

lemma one_talker:
  assumes "pss_start p" "system_run 0 (system_start p) k (b, x, y)"
  obtains con e q om x' od y' where "x = Some (con, e)" "y = Some q" "pss_ok q"
    "cs_node_fn (of_nat k) (mock_bus_read_u8 b (of_nat k)) x = (om, Some x')"
    "pss_node_fn (of_nat k) (mock_bus_read_u8 b (of_nat k)) y = (od, Some y')" "om = None \<or> od = None"
proof -
  obtain ph where ok: "system_ok (of_nat k) ph (b, x, y)" using run_system_ok [OF assms(2) start_ok [OF assms(1)]] by auto
  obtain con e q where xy: "x = Some (con, e)" "y = Some q" using system_parts [OF ok] by blast
  have w: "wire_ok ph (mock_bus_read_u8 b (of_nat k), Some (con, e), Some q)" using ok by (simp add: system_ok_def xy)
  have q: "pss_ok q" using w by (simp add: wire_ok_def)
  obtain om con' e' od p' where st: "cs_node_fn (of_nat k) (mock_bus_read_u8 b (of_nat k)) (Some (con, e)) = (om, Some (con', e'))"
    "pss_node_fn (of_nat k) (mock_bus_read_u8 b (of_nat k)) (Some q) = (od, Some p')" "om = None \<or> od = None"
    by (rule wire_nodes [OF w])
  show thesis by (rule that [OF xy q]) (use st xy in auto)
qed

text \<open>The last arrival of a tick completes the tick of the system.\<close>

lemma synced_tick:
  assumes "system_run 0 (system_start p) k (b, x, y)"
    "cs_node_fn (of_nat k) (mock_bus_read_u8 b (of_nat k)) x = (om, x1)" "cs_moves x1 x2"
    "pss_node_fn (of_nat k) (mock_bus_read_u8 b (of_nat k)) y = (od, y1)" "pss_moves y1 y2"
  shows "system_run 0 (system_start p) (Suc k)
    (mock_bus_tick (put_opt mock_bus_write_u8 b (of_nat k) (last_of om od)) (of_nat (Suc k)), x2, y2)"
proof -
  have "system_tick (of_nat k) (b, x, y) = (mock_bus_tick (put_opt mock_bus_write_u8 b (of_nat k) (last_of om od)) (of_nat (Suc k)), x1, y1)"
    using assms(2,4) by (simp add: system_tick_def pair_tick_def Let_def mockbus.put_opt_twice add.commute)
  then have "between (system_tick (0 + of_nat k) (b, x, y)) (mock_bus_tick (put_opt mock_bus_write_u8 b (of_nat k) (last_of om od)) (of_nat (Suc k)), x2, y2)"
    using moves_both [OF assms(3,5)] by simp
  then show ?thesis by (rule run_tick [OF assms(1)])
qed

lemma side_done:
  assumes "side f mv k b w x cur out" "w_pc w = Arriving \<or> w_pc w = Arrived k"
  obtains x1 where "w_tick w = of_nat (Suc k)" "f (mock_bus_read_u8 b (of_nat k)) x = (out, x1)" "mv x1 cur"
  using assms by (auto simp: side_def fresh_def split: pc.splits)

lemma side_next: "w_pc w = Arrived k \<Longrightarrow> w_tick w = of_nat (Suc k) \<Longrightarrow> side f mv (Suc k) b w x x None"
  by (simp add: side_def fresh_def)

lemma pending_one:
  assumes "tick_barrier_ok tk w v" "ba_phase tk = k" "ba_pending tk = 1" "w_pc w = Arriving" "in_loop v"
  shows "w_pc v = Arrived k"
proof -
  have "live w = 1" "waits_at tk w = 0" using assms(4) by (simp_all add: live_def waits_at_def)
  moreover have "live v = 1" using assms(5) by (simp add: live_def in_loop_def)
  moreover have "ba_pending tk + waits_at tk w + waits_at tk v = live w + live v" using assms(1) by (simp only: tick_barrier_ok_def)
  ultimately have "waits_at tk v = 1" using assms(3) by linarith
  then show ?thesis using assms(2) by (simp add: waits_at_def split: if_splits)
qed

lemma side_stays:
  "side f mv k b w x cur out \<Longrightarrow> w_pc w \<in> {Starting, Reading} \<Longrightarrow> side f mv k b (w\<lparr>w_pc := Entering\<rparr>) x cur out"
  "side f mv k b w x cur out \<Longrightarrow> w_pc w = Reading \<Longrightarrow> side f mv k b (w\<lparr>w_pc := Running (mock_bus_read_u8 b (w_tick w))\<rparr>) x cur out"
  by (auto simp: side_def fresh_def)

lemma side_running:
  assumes "side f mv k b w x cur out" "w_pc w = Running rx"
  shows "out = None" "cur = x" "w_tick w = of_nat k" "rx = mock_bus_read_u8 b (of_nat k)"
  using assms by (auto simp: side_def fresh_def)

lemma side_ran: "f (mock_bus_read_u8 b (of_nat k)) x = (out, x1) \<Longrightarrow> mv x1 x1 \<Longrightarrow> side f mv k b \<lparr>w_pc = Arriving, w_tick = of_nat k + 1\<rparr> x x1 out"
  by (simp add: side_def add.commute)

lemma side_out: "side f mv k b w x cur out \<Longrightarrow> out = None \<or> out = fst (f (mock_bus_read_u8 b (of_nat k)) x)"
  by (auto simp: side_def)

lemma worker_control:
  assumes "worker_move ini f stop h w n = Some (h', w', n')" "w_pc w \<notin> {Starting, Reading}" "\<forall>rx. w_pc w \<noteq> Running rx"
  obtains st tk fin where "control_move stop (sh_start h) (sh_barrier h) w = Some (st, tk, fin, w')"
    "h' = complete_tick fin (h\<lparr>sh_start := st, sh_barrier := tk\<rparr>)" "n' = n" "w_pc w' \<noteq> Starting"
proof -
  have m: "worker_move ini f stop h w n = map_option (\<lambda>(st, tk, fin, w1). (complete_tick fin (h\<lparr>sh_start := st, sh_barrier := tk\<rparr>), w1, n))
      (control_move stop (sh_start h) (sh_barrier h) w)"
    using assms(2,3) by (cases "w_pc w") (simp_all add: worker_move_def)
  obtain st tk fin w1 where c: "control_move stop (sh_start h) (sh_barrier h) w = Some (st, tk, fin, w1)"
    using assms(1) unfolding m by auto
  have "w_pc w1 \<noteq> Starting" using c by (cases "w_pc w") (auto simp: control_move_def split: prod.splits if_splits)
  with c that assms(1) show thesis by (simp add: m)
qed

text \<open>
  A move of a worker, seen from tick \<open>k\<close>: either the tick goes on, or both nodes have run and the bus
  moves to the next tick. \<open>own\<close> and \<open>other\<close> are the bytes that the two nodes wrote.
\<close>

lemma worker_sync:
  assumes "side (f (of_nat k)) mv k b w x (now ini w n) own" "side g mv' k b v y cur other" "tick_barrier_ok (sh_barrier h) w v"
    "ba_phase (sh_barrier h) = k" "sh_next h = of_nat (Suc k)" "sh_bus h = put_opt mock_bus_write_u8 b (of_nat k) (last_of own other)"
    "worker_move ini f stop h w n = Some (h', w', n')" "in_loop w'" "in_loop v" "\<And>z. mv z z"
    "fst (f (of_nat k) (mock_bus_read_u8 b (of_nat k)) x) = None \<or> fst (g (mock_bus_read_u8 b (of_nat k)) y) = None"
  obtains own' where "ba_phase (sh_barrier h') = k" "sh_next h' = sh_next h" "sh_bus h' = put_opt mock_bus_write_u8 b (of_nat k) (last_of own' other)"
      "own' = None \<or> other = None" "side (f (of_nat k)) mv k b w' x (now ini w' n') own'"
  | x1 y1 where "f (of_nat k) (mock_bus_read_u8 b (of_nat k)) x = (own, x1)" "mv x1 (now ini w' n')"
      "g (mock_bus_read_u8 b (of_nat k)) y = (other, y1)" "mv' y1 cur" "ba_phase (sh_barrier h') = Suc k" "sh_next h' = of_nat (Suc (Suc k))"
      "sh_bus h' = mock_bus_tick (put_opt mock_bus_write_u8 b (of_nat k) (last_of own other)) (of_nat (Suc k))"
      "w_pc w' = Arrived k" "w_tick w' = of_nat (Suc k)" "w_pc v = Arrived k" "w_tick v = of_nat (Suc k)"
proof -
  have one: "own = None \<or> other = None" using side_out [OF assms(1)] side_out [OF assms(2)] assms(11) by metis
  consider "w_pc w = Starting" | "w_pc w = Reading" | rx where "w_pc w = Running rx"
    | "w_pc w \<notin> {Starting, Reading}" "\<forall>rx. w_pc w \<noteq> Running rx" by blast
  then show thesis
  proof cases
    case 1
    then have "h' = h" "w' = w\<lparr>w_pc := Entering\<rparr>" "now ini w' n' = now ini w n" using assms(7) by (auto simp: worker_move_def now_def)
    then show thesis using that(1) [of own] assms(1,4,6) one 1 side_stays(1) [OF assms(1)] by simp
  next
    case 2
    then have "h' = h" "w' = w\<lparr>w_pc := Running (mock_bus_read_u8 b (w_tick w))\<rparr>" "now ini w' n' = now ini w n"
      using assms(7) by (auto simp: worker_move_def now_def assms(6))
    then show thesis using that(1) [of own] assms(1,4,6) one side_stays(2) [OF assms(1) 2] by simp
  next
    case (3 rx)
    note r = side_running [OF assms(1) 3]
    have n: "n = x" using r(2) 3 by (simp add: now_def)
    obtain out x1 where run: "f (of_nat k) (mock_bus_read_u8 b (of_nat k)) x = (out, x1)" by fastforce
    have m: "h' = h\<lparr>sh_bus := put_opt mock_bus_write_u8 (sh_bus h) (of_nat k) out\<rparr>" "w' = \<lparr>w_pc = Arriving, w_tick = of_nat k + 1\<rparr>" "n' = x1"
      using assms(7) 3 run r by (auto simp: worker_move_def n)
    have o: "out = None \<or> other = None" using side_out [OF assms(2)] assms(11) run by auto
    then have "last_of other out = last_of out other" by auto
    then have "sh_bus h' = put_opt mock_bus_write_u8 b (of_nat k) (last_of out other)" by (simp add: m assms(6) r(1) mockbus.put_opt_twice)
    moreover have "side (f (of_nat k)) mv k b w' x (now ini w' n') out"
      unfolding m now_def by simp (rule side_ran, rule run, rule assms(10))
    ultimately show thesis using that(1) [of out] assms(4) o by (simp add: m)
  next
    case 4
    obtain st tk fin where c: "control_move stop (sh_start h) (sh_barrier h) w = Some (st, tk, fin, w')"
      "h' = complete_tick fin (h\<lparr>sh_start := st, sh_barrier := tk\<rparr>)" "n' = n" "w_pc w' \<noteq> Starting"
      by (rule worker_control [OF assms(7) 4])
    have n: "now ini w' n' = now ini w n" using 4 by (simp add: now_def c(3,4))
    note sc = side_control [OF assms(1) c(1) assms(4,8)]
    show thesis
    proof (cases fin)
      case False
      then show thesis using that(1) [of own] sc(1) n one assms(6) by (simp add: c(2) complete_tick_def)
    next
      case True
      note e = sc(2) [OF True]
      have v: "w_pc v = Arrived k" using pending_one [OF assms(3,4)] e assms(9) by simp
      obtain x1 where d1: "w_tick w = of_nat (Suc k)" "f (of_nat k) (mock_bus_read_u8 b (of_nat k)) x = (own, x1)" "mv x1 (now ini w n)"
        by (rule side_done [OF assms(1)]) (use e in simp_all)
      obtain y1 where d2: "w_tick v = of_nat (Suc k)" "g (mock_bus_read_u8 b (of_nat k)) y = (other, y1)" "mv' y1 cur"
        by (rule side_done [OF assms(2)]) (use v in simp_all)
      show thesis
        by (rule that(2) [OF d1(2) d1(3) [folded n] d2(2,3)])
          (use e d1(1) d2(1) v assms(5,6) in \<open>simp_all add: c(2) complete_tick_def True\<close>)
    qed
  qed
qed

text \<open>The process at tick \<open>k\<close>, with the state of the run that it refines.\<close>

definition cs_now :: "proc \<Rightarrow> (console \<times> cs_env) option" where
  "cs_now s = now cs_start_node (pr_cs s) (pr_cs_node s)"

definition pss_now :: "proc \<Rightarrow> pss_env option" where
  "pss_now s = now (map_option pss_runtime_init) (pr_pss s) (pr_pss_node s)"

definition synced :: "pss_env \<Rightarrow> nat \<Rightarrow> mock_bus \<Rightarrow> (console \<times> cs_env) option \<Rightarrow> pss_env option \<Rightarrow> proc \<Rightarrow> bool" where
  "synced p k b x y s \<longleftrightarrow> system_run 0 (system_start p) k (b, x, y) \<and> ba_phase (sh_barrier (pr_shared s)) = k \<and>
     sh_next (pr_shared s) = of_nat (Suc k) \<and>
     (\<exists>om od. (om = None \<or> od = None) \<and> sh_bus (pr_shared s) = put_opt mock_bus_write_u8 b (of_nat k) (last_of om od) \<and>
       side (cs_node_fn (of_nat k)) cs_moves k b (pr_cs s) x (cs_now s) om \<and>
       side (pss_node_fn (of_nat k)) pss_moves k b (pr_pss s) y (pss_now s) od)"

lemma syncedI:
  assumes "system_run 0 (system_start p) k (b, x, y)" "ba_phase (sh_barrier (pr_shared s)) = k" "sh_next (pr_shared s) = of_nat (Suc k)"
    "sh_bus (pr_shared s) = put_opt mock_bus_write_u8 b (of_nat k) (last_of om od)" "om = None \<or> od = None"
    "side (cs_node_fn (of_nat k)) cs_moves k b (pr_cs s) x (cs_now s) om" "side (pss_node_fn (of_nat k)) pss_moves k b (pr_pss s) y (pss_now s) od"
  shows "synced p k b x y s"
  unfolding synced_def using assms by blast

lemma syncedE:
  assumes "synced p k b x y s"
  obtains om od where "system_run 0 (system_start p) k (b, x, y)" "ba_phase (sh_barrier (pr_shared s)) = k" "sh_next (pr_shared s) = of_nat (Suc k)"
    "sh_bus (pr_shared s) = put_opt mock_bus_write_u8 b (of_nat k) (last_of om od)" "om = None \<or> od = None"
    "side (cs_node_fn (of_nat k)) cs_moves k b (pr_cs s) x (cs_now s) om" "side (pss_node_fn (of_nat k)) pss_moves k b (pr_pss s) y (pss_now s) od"
  using assms unfolding synced_def by blast

lemma swap_out: "u = None \<or> v = None \<Longrightarrow> last_of u v = last_of v u"
  by auto

lemma synced_cs:
  assumes "pss_start p" "synced p k b x y s" "cs_move s = Some s'" "in_loop (pr_cs s')" "in_loop (pr_pss s)" "barriers_ok (pr_shared s) (pr_cs s) (pr_pss s)"
  shows "\<exists>k b x y. synced p k b x y s'"
proof -
  obtain om od where s: "system_run 0 (system_start p) k (b, x, y)" "ba_phase (sh_barrier (pr_shared s)) = k" "sh_next (pr_shared s) = of_nat (Suc k)"
    "sh_bus (pr_shared s) = put_opt mock_bus_write_u8 b (of_nat k) (last_of om od)" "om = None \<or> od = None"
    "side (cs_node_fn (of_nat k)) cs_moves k b (pr_cs s) x (now cs_start_node (pr_cs s) (pr_cs_node s)) om"
    "side (pss_node_fn (of_nat k)) pss_moves k b (pr_pss s) y (pss_now s) od"
    by (rule syncedE [OF assms(2), unfolded cs_now_def])
  obtain h w n where m: "worker_move cs_start_node cs_node_fn (pr_stop s) (pr_shared s) (pr_cs s) (pr_cs_node s) = Some (h, w, n)"
    "s' = s\<lparr>pr_shared := h, pr_cs := w, pr_cs_node := n\<rparr>" using move_parts(1) [OF assms(3)] by blast
  have f: "pr_shared s' = h" "pr_cs s' = w" "pr_pss s' = pr_pss s" "pss_now s' = pss_now s" "cs_now s' = now cs_start_node w n"
    by (simp_all add: m(2) pss_now_def cs_now_def)
  have tb: "tick_barrier_ok (sh_barrier (pr_shared s)) (pr_cs s) (pr_pss s)" using assms(6) by (simp add: barriers_ok_def)
  have talk: "fst (cs_node_fn (of_nat k) (mock_bus_read_u8 b (of_nat k)) x) = None \<or> fst (pss_node_fn (of_nat k) (mock_bus_read_u8 b (of_nat k)) y) = None"
    by (rule one_talker [OF assms(1) s(1)]) auto
  show ?thesis
  proof (rule worker_sync [OF s(6,7) tb s(2-4) m(1) assms(4) [unfolded f] assms(5) moves_refl(1) talk], goal_cases)
    case (1 own')
    have "synced p k b x y s'" by (rule syncedI [OF s(1), where om = own' and od = od]) (use 1 s(3,7) in \<open>simp_all only: f\<close>)
    then show ?case by blast
  next
    case (2 x1 y1)
    let ?b = "mock_bus_tick (put_opt mock_bus_write_u8 b (of_nat k) (last_of om od)) (of_nat (Suc k))"
    have run: "system_run 0 (system_start p) (Suc k) (?b, cs_now s', pss_now s')" unfolding f by (rule synced_tick [OF s(1) 2(1-4)])
    have "synced p (Suc k) ?b (cs_now s') (pss_now s') s'"
      by (rule syncedI [OF run, where om = None and od = None])
        (use 2(5-7) side_next [OF 2(8,9)] side_next [OF 2(10,11)] in \<open>simp_all add: f put_opt_def\<close>)
    then show ?case by blast
  qed
qed

lemma synced_pss:
  assumes "pss_start p" "synced p k b x y s" "pss_move s = Some s'" "in_loop (pr_pss s')" "in_loop (pr_cs s)" "barriers_ok (pr_shared s) (pr_cs s) (pr_pss s)"
  shows "\<exists>k b x y. synced p k b x y s'"
proof -
  obtain om od where s: "system_run 0 (system_start p) k (b, x, y)" "ba_phase (sh_barrier (pr_shared s)) = k" "sh_next (pr_shared s) = of_nat (Suc k)"
    "sh_bus (pr_shared s) = put_opt mock_bus_write_u8 b (of_nat k) (last_of om od)" "om = None \<or> od = None"
    "side (cs_node_fn (of_nat k)) cs_moves k b (pr_cs s) x (cs_now s) om"
    "side (pss_node_fn (of_nat k)) pss_moves k b (pr_pss s) y (now (map_option pss_runtime_init) (pr_pss s) (pr_pss_node s)) od"
    by (rule syncedE [OF assms(2), unfolded pss_now_def])
  obtain h w n where m: "worker_move (map_option pss_runtime_init) pss_node_fn (pr_stop s) (pr_shared s) (pr_pss s) (pr_pss_node s) = Some (h, w, n)"
    "s' = s\<lparr>pr_shared := h, pr_pss := w, pr_pss_node := n\<rparr>" using move_parts(2) [OF assms(3)] by blast
  have f: "pr_shared s' = h" "pr_pss s' = w" "pr_cs s' = pr_cs s" "cs_now s' = cs_now s" "pss_now s' = now (map_option pss_runtime_init) w n"
    by (simp_all add: m(2) cs_now_def pss_now_def)
  have tb: "tick_barrier_ok (sh_barrier (pr_shared s)) (pr_pss s) (pr_cs s)" using assms(6) barriers_swap(2) by (auto simp: barriers_ok_def)
  have talk: "fst (pss_node_fn (of_nat k) (mock_bus_read_u8 b (of_nat k)) y) = None \<or> fst (cs_node_fn (of_nat k) (mock_bus_read_u8 b (of_nat k)) x) = None"
    by (rule one_talker [OF assms(1) s(1)]) auto
  have bus: "sh_bus (pr_shared s) = put_opt mock_bus_write_u8 b (of_nat k) (last_of od om)" using s(4) swap_out [OF s(5)] by simp
  show ?thesis
  proof (rule worker_sync [OF s(7,6) tb s(2,3) bus m(1) assms(4) [unfolded f] assms(5) moves_refl(2) talk], goal_cases)
    case (1 own')
    have "sh_bus h = put_opt mock_bus_write_u8 b (of_nat k) (last_of om own')" using 1(3) swap_out [OF 1(4)] by simp
    moreover have "om = None \<or> own' = None" using 1(4) by blast
    ultimately have "synced p k b x y s'"
      by (intro syncedI [OF s(1), where om = om and od = own']) (use 1 s(3,6) in \<open>simp_all only: f\<close>)
    then show ?case by blast
  next
    case (2 y1 x1)
    let ?b = "mock_bus_tick (put_opt mock_bus_write_u8 b (of_nat k) (last_of om od)) (of_nat (Suc k))"
    have run: "system_run 0 (system_start p) (Suc k) (?b, cs_now s', pss_now s')" unfolding f by (rule synced_tick [OF s(1) 2(3,4,1,2)])
    have "synced p (Suc k) ?b (cs_now s') (pss_now s') s'"
      by (rule syncedI [OF run, where om = None and od = None])
        (use 2(5-7) side_next [OF 2(8,9)] side_next [OF 2(10,11)] swap_out [OF s(5)] in \<open>simp_all add: f put_opt_def\<close>)
    then show ?case by blast
  qed
qed

text \<open>The variables stay bounded, so the steps of the model are among those that \<open>between\<close> allows.\<close>

definition pss_fine :: "pss_env option \<Rightarrow> bool" where
  "pss_fine y \<longleftrightarrow> (\<exists>e. y = Some e \<and> pss_typed (ps_mem e) \<and> pss_bounded (ps_mem e))"

lemma pss_init_mem: "pss_runtime_init (e\<lparr>ps_mem := m\<rparr>) = (pss_runtime_init e)\<lparr>ps_mem := m\<rparr>" "ps_mem (pss_runtime_init e) = ps_mem e"
  by (simp_all add: pss_runtime_init_def pss_init_isim_registry_def pss_init_msg_buffers_def pss_init_bus_state_def reset_software_state_def Let_def)

lemma other_cs:
  assumes "pr_cs_node s = Some (con, e)" "sendable_line l" "f = (\<lambda>con. snd (console_line l con)) \<or> f = file_line l"
  shows "cs_moves (cs_now s) (now cs_start_node (pr_cs s) (Some (f con, e)))"
proof -
  have t: "cs_moves (Some (con, z)) (Some (f con, z))" for z using assms(2,3) typed [OF idle] filed [OF idle] by (auto simp: cs_moves_def)
  then show ?thesis by (simp add: cs_now_def now_def assms(1) cs_start_node_def)
qed

lemma other_pss:
  assumes "pr_pss_node s = Some e" "pss_typed m" "pss_bounded m"
  shows "pss_moves (pss_now s) (now (map_option pss_runtime_init) (pr_pss s) (Some (e\<lparr>ps_mem := m\<rparr>)))"
proof -
  have "pss_moves (Some z) (Some (z\<lparr>ps_mem := m\<rparr>))" for z
    using model [OF idle assms(2) bounded_exportable [OF assms(3,2)]] by (simp add: pss_moves_def)
  then show ?thesis by (simp add: pss_now_def now_def assms(1) pss_init_mem)
qed

lemma other_moves:
  assumes "other_move s s'" "pss_fine (pr_pss_node s)"
  shows "cs_moves (cs_now s) (cs_now s') \<and> pss_moves (pss_now s) (pss_now s') \<and> pss_fine (pr_pss_node s')"
  using assms
proof (induction rule: other_move.induct)
  case (on_signal s)
  then show ?case by (simp add: cs_now_def pss_now_def moves_refl)
next
  case (line_typed s con e l)
  then show ?case using other_cs [OF line_typed(1,2), of "\<lambda>con. snd (console_line l con)"] by (simp add: cs_now_def pss_now_def moves_refl)
next
  case (line_filed s con e l)
  then show ?case using other_cs [OF line_filed(1,2), of "file_line l"] by (simp add: cs_now_def pss_now_def moves_refl)
next
  case (model_init s e m)
  then have "pss_typed (ps_mem e)" by (simp add: pss_fine_def)
  from init_bounded [OF this] model_init(2) have m: "pss_typed m" "pss_bounded m" by auto
  then show ?case using other_pss [OF model_init(1) m] by (simp add: cs_now_def pss_now_def moves_refl pss_fine_def)
next
  case (model_step s e)
  then have m: "pss_typed (pss_sim_step (ps_mem e))" "pss_bounded (pss_sim_step (ps_mem e))"
    using step_bounded [of "ps_mem e"] by (simp_all add: pss_fine_def)
  then show ?case using other_pss [OF model_step(1) m] by (simp add: cs_now_def pss_now_def moves_refl pss_fine_def)
qed

lemma synced_other:
  assumes "synced p k b x y s" "other_move s s'" "pss_fine (pr_pss_node s)"
  shows "\<exists>x y. synced p k b x y s'"
proof -
  obtain om od where s: "system_run 0 (system_start p) k (b, x, y)" "ba_phase (sh_barrier (pr_shared s)) = k" "sh_next (pr_shared s) = of_nat (Suc k)"
    "sh_bus (pr_shared s) = put_opt mock_bus_write_u8 b (of_nat k) (last_of om od)" "om = None \<or> od = None"
    "side (cs_node_fn (of_nat k)) cs_moves k b (pr_cs s) x (cs_now s) om" "side (pss_node_fn (of_nat k)) pss_moves k b (pr_pss s) y (pss_now s) od"
    by (rule syncedE [OF assms(1)])
  note keep = other_keeps [OF assms(2)]
  have mv: "cs_moves (cs_now s) (cs_now s')" "pss_moves (pss_now s) (pss_now s')" using other_moves [OF assms(2,3)] by simp_all
  obtain x' where x': "x' = x \<or> cs_moves x x'" "side (cs_node_fn (of_nat k)) cs_moves k b (pr_cs s) x' (cs_now s') om"
    by (rule side_moves [OF s(6) mv(1) moves_trans(1)])
  obtain y' where y': "y' = y \<or> pss_moves y y'" "side (pss_node_fn (of_nat k)) pss_moves k b (pr_pss s) y' (pss_now s') od"
    by (rule side_moves [OF s(7) mv(2) moves_trans(2)])
  have "between (b, x, y) (b, x', y')" by (rule moves_both) (use x'(1) y'(1) moves_refl in auto)
  then have "system_run 0 (system_start p) k (b, x', y')" by (rule run_extend [OF s(1)])
  then have "synced p k b x' y' s'" by (rule syncedI [where om = om and od = od]) (use s(2-5) x'(2) y'(2) keep in simp_all)
  then show ?thesis by blast
qed

text \<open>A move of a worker that has left its loop does not bring it back.\<close>

lemma back_in_loop: "worker_move ini f stop h w n = Some (h', w', n') \<Longrightarrow> in_loop w' \<Longrightarrow> in_loop w"
  by (auto simp: worker_move_def control_move_def in_loop_def split: prod.splits)

lemma pss_tick_fine:
  assumes "pss_start p" "synced p k b x y s" "pss_fine (pr_pss_node s)"
    "worker_move (map_option pss_runtime_init) pss_node_fn (pr_stop s) (pr_shared s) (pr_pss s) (pr_pss_node s) = Some (h, w, n)"
  shows "pss_fine n"
proof (cases "\<exists>rx. w_pc (pr_pss s) = Running rx")
  case True
  then obtain rx where rx: "w_pc (pr_pss s) = Running rx" by blast
  obtain om od where s: "system_run 0 (system_start p) k (b, x, y)" "side (pss_node_fn (of_nat k)) pss_moves k b (pr_pss s) y (pss_now s) od"
    by (rule syncedE [OF assms(2)])
  note r = side_running [OF s(2) rx]
  have y: "pr_pss_node s = y" using r(2) rx by (simp add: pss_now_def now_def)
  obtain q od1 y1 where q: "y = Some q" "pss_ok q" "pss_node_fn (of_nat k) (mock_bus_read_u8 b (of_nat k)) y = (od1, Some y1)"
    by (rule one_talker [OF assms(1) s(1)])
  then have n: "n = Some y1" using assms(4) rx r(3,4) by (simp add: worker_move_def y)
  have "pss_runtime_step (of_nat k) (mock_bus_read_u8 b (of_nat k)) q = (od1, Some y1)" using q(1,3) by (simp add: pss_node_fn_def)
  moreover have "pss_bounded (ps_mem q)" using assms(3) by (simp add: pss_fine_def y q(1))
  ultimately show ?thesis using tick_bounded [OF q(2)] by (auto simp: pss_fine_def n pss_ok_def pss_inv_def)
next
  case False
  then have "n = pr_pss_node s \<or> n = map_option pss_runtime_init (pr_pss_node s)"
    using assms(4) by (cases "w_pc (pr_pss s)") (auto simp: worker_move_def)
  then show ?thesis using assms(3) by (auto simp: pss_fine_def pss_init_mem)
qed

lemma run_synced:
  assumes "pss_start p" "pss_bounded (ps_mem p)" "proc_run (proc_start p) n s" "in_loop (pr_cs s)" "in_loop (pr_pss s)"
  shows "(\<exists>k b x y. synced p k b x y s) \<and> pss_fine (pr_pss_node s)"
  using assms(3-5)
proof (induction rule: proc_run.induct)
  case proc_begin
  have "system_run 0 (system_start p) 0 (mock_bus_init, cs_now (proc_start p), pss_now (proc_start p))"
    by (rule run_start) (simp add: proc_start_def worker0_def cs_now_def pss_now_def now_def cs_start_node_def system_start_def idle)
  then have "synced p 0 mock_bus_init (cs_now (proc_start p)) (pss_now (proc_start p)) (proc_start p)"
    by (rule syncedI [where om = None and od = None])
      (simp_all add: proc_start_def worker0_def barrier_of_def put_opt_def side_def fresh_def)
  moreover have "pss_fine (pr_pss_node (proc_start p))" using assms(1,2) by (simp add: proc_start_def pss_fine_def pss_start_def)
  ultimately show ?case by blast
next
  case (proc_cs n s1 s2)
  obtain h w x where m: "worker_move cs_start_node cs_node_fn (pr_stop s1) (pr_shared s1) (pr_cs s1) (pr_cs_node s1) = Some (h, w, x)"
    "s2 = s1\<lparr>pr_shared := h, pr_cs := w, pr_cs_node := x\<rparr>" using move_parts(1) [OF proc_cs.hyps(2)] by blast
  have l: "in_loop (pr_cs s1)" "in_loop (pr_pss s1)" using back_in_loop [OF m(1)] proc_cs.prems by (simp_all add: m(2))
  then show ?case using proc_cs synced_cs [OF assms(1) _ proc_cs.hyps(2)] run_barriers [OF proc_cs.hyps(1)] by (auto simp: m(2))
next
  case (proc_pss n s1 s2)
  obtain h w y where m: "worker_move (map_option pss_runtime_init) pss_node_fn (pr_stop s1) (pr_shared s1) (pr_pss s1) (pr_pss_node s1) = Some (h, w, y)"
    "s2 = s1\<lparr>pr_shared := h, pr_pss := w, pr_pss_node := y\<rparr>" using move_parts(2) [OF proc_pss.hyps(2)] by blast
  have l: "in_loop (pr_cs s1)" "in_loop (pr_pss s1)" using back_in_loop [OF m(1)] proc_pss.prems by (simp_all add: m(2))
  then obtain k b x z where y: "synced p k b x z s1" "pss_fine (pr_pss_node s1)" using proc_pss.IH by blast
  have "\<exists>k b x y. synced p k b x y s2"
    by (rule synced_pss [OF assms(1) y(1) proc_pss.hyps(2)]) (use proc_pss.prems l run_barriers [OF proc_pss.hyps(1)] in simp_all)
  moreover have "pss_fine (pr_pss_node s2)" using pss_tick_fine [OF assms(1) y m(1)] by (simp add: m(2))
  ultimately show ?case by blast
next
  case (proc_other n s1 s2)
  note keep = other_keeps [OF proc_other.hyps(2)]
  then obtain k b x y where y: "synced p k b x y s1" "pss_fine (pr_pss_node s1)" using proc_other by auto
  then show ?case using synced_other [OF y(1) proc_other.hyps(2) y(2)] other_moves [OF proc_other.hyps(2) y(2)] by blast
qed

text \<open>
  C4: the threads refine the system. From the start of the process with the static values of the
  variables, in every state that any interleaving of the two workers with the threads of the console
  and of the model reaches (the tick of a node and the step of the model each one action, the lines of the
  console with finite values of magnitude at most 2^61), when both workers are at the head of their loops they have made the same
  number of ticks, and the bus with the two nodes is the state after that many ticks of a run of the
  system: what holds in all runs, as that nobody talks over the other and that every exchange ends,
  holds for the threads.
\<close>
theorem threads_refine_system:
  assumes "proc_run (proc_start (pss_env0 sim_vars)) n s" "w_pc (pr_cs s) = Testing" "w_pc (pr_pss s) = Testing"
  shows "\<exists>k. w_tick (pr_cs s) = of_nat k \<and> w_tick (pr_pss s) = of_nat k \<and> sh_next (pr_shared s) = of_nat k + 1 \<and>
    system_run 0 (system_start (pss_env0 sim_vars)) k (sh_bus (pr_shared s), pr_cs_node s, pr_pss_node s)"
proof -
  have p: "pss_bounded (ps_mem (pss_env0 sim_vars))" using start_vars_ok by (simp add: pss_env0_def)
  obtain k b x y where sy: "synced (pss_env0 sim_vars) k b x y s"
    using run_synced [OF pss_start_demo p assms(1)] assms(2,3) by (auto simp: in_loop_def)
  obtain om od where s: "system_run 0 (system_start (pss_env0 sim_vars)) k (b, x, y)" "sh_next (pr_shared s) = of_nat (Suc k)"
    "sh_bus (pr_shared s) = put_opt mock_bus_write_u8 b (of_nat k) (last_of om od)"
    "side (cs_node_fn (of_nat k)) cs_moves k b (pr_cs s) x (cs_now s) om" "side (pss_node_fn (of_nat k)) pss_moves k b (pr_pss s) y (pss_now s) od"
    by (rule syncedE [OF sy])
  have a: "om = None" "cs_now s = x" "w_tick (pr_cs s) = of_nat k" using s(4) assms(2) by (simp_all add: side_def fresh_def)
  have d: "od = None" "pss_now s = y" "w_tick (pr_pss s) = of_nat k" using s(5) assms(3) by (simp_all add: side_def fresh_def)
  show ?thesis
    using s(1-3) a d assms(2,3) by (intro exI [of _ k]) (simp add: put_opt_def cs_now_def pss_now_def now_def add.commute)
qed

theorem threads_refine_system_witness:
  "\<exists>n s. proc_run (proc_start (pss_env0 sim_vars)) n s \<and> w_pc (pr_cs s) = Testing \<and> w_pc (pr_pss s) = Testing \<and>
     (\<exists>k. system_run 0 (system_start (pss_env0 sim_vars)) k (sh_bus (pr_shared s), pr_cs_node s, pr_pss_node s))"
proof -
  let ?s = "proc_start (pss_env0 sim_vars)"
  note d = cs_move_def pss_move_def worker_move_def control_move_def arrive_def proc_start_def worker0_def barrier_of_def
    k_bus_system_thread_count_def complete_tick_def
  obtain s1 where 1: "cs_move ?s = Some s1" "w_pc (pr_cs s1) = Entering" "w_pc (pr_pss s1) = Starting" "sh_start (pr_shared s1) = barrier_of 2"
    by (simp add: d)
  obtain s2 where 2: "pss_move s1 = Some s2" "w_pc (pr_cs s2) = Entering" "w_pc (pr_pss s2) = Entering" "sh_start (pr_shared s2) = barrier_of 2"
    using 1 by (simp add: d)
  obtain s3 where 3: "cs_move s2 = Some s3" "w_pc (pr_cs s3) = Entered 0" "w_pc (pr_pss s3) = Entering" "sh_start (pr_shared s3) = \<lparr>ba_phase = 0, ba_expected = 2, ba_pending = 1\<rparr>"
    using 2 by (simp add: d)
  obtain s4 where 4: "pss_move s3 = Some s4" "w_pc (pr_cs s4) = Entered 0" "w_pc (pr_pss s4) = Entered 0" "sh_start (pr_shared s4) = \<lparr>ba_phase = 1, ba_expected = 2, ba_pending = 2\<rparr>"
    using 3 by (simp add: d)
  obtain s5 where 5: "cs_move s4 = Some s5" "w_pc (pr_cs s5) = Testing" "w_pc (pr_pss s5) = Entered 0" "sh_start (pr_shared s5) = \<lparr>ba_phase = 1, ba_expected = 2, ba_pending = 2\<rparr>"
    using 4 by (simp add: d)
  obtain s6 where 6: "pss_move s5 = Some s6" "w_pc (pr_cs s6) = Testing" "w_pc (pr_pss s6) = Testing"
    using 5 by (simp add: d)
  have r: "proc_run ?s 6 s6"
    using proc_pss [OF proc_cs [OF proc_pss [OF proc_cs [OF proc_pss [OF proc_cs [OF proc_begin 1(1)] 2(1)] 3(1)] 4(1)] 5(1)] 6(1)]
    by (simp add: numeral_eq_Suc)
  from threads_refine_system [OF r 6(2,3)] r 6(2,3) show ?thesis by blast
qed

end
