(* ===== verification/Logging.thy ===== *)
theory Logging
  imports Console
begin

text \<open>
  The log of the process, \<open>common/src/common.cpp\<close>: a logger of its own for each thread, and the shared
  loggers of \<open>write_for_module\<close>, one per module behind a mutex. The files are a map from paths to
  contents, a stream an offset in one of them. A module name
  is one component of a path, as the names of this program are. What the file system answers is a parameter: which
  directories exist, whether a directory can be created and a file opened. The clock is the argument
  \<open>now\<close>, already split by \<open>localtime_r\<close>.
\<close>

subsection \<open>Levels and lines\<close>

datatype level_t = lvl_info | lvl_warning | lvl_error

record init_config_t =
  min_level :: level_t
  truncate_on_init :: bool

definition level_code :: "level_t \<Rightarrow> nat" where
  "level_code l = (case l of lvl_info \<Rightarrow> 0 | lvl_warning \<Rightarrow> 1 | lvl_error \<Rightarrow> 2)"

definition level_allowed :: "level_t \<Rightarrow> level_t \<Rightarrow> bool" where
  "level_allowed l m \<longleftrightarrow> level_code m \<le> level_code l"

definition level_to_string :: "level_t \<Rightarrow> string" where
  "level_to_string l = (case l of lvl_info \<Rightarrow> ''info'' | lvl_warning \<Rightarrow> ''warning'' | lvl_error \<Rightarrow> ''error'')"

text \<open>The local time: year, month, day, hour, minute, second, millisecond.\<close>

type_synonym clock = "nat \<times> nat \<times> nat \<times> nat \<times> nat \<times> nat \<times> nat"

text \<open>\<open>std::setw(w)\<close> with \<open>std::setfill('0')\<close>, as \<open>std::put_time\<close> pads its fields too.\<close>

definition padded :: "nat \<Rightarrow> nat \<Rightarrow> string" where
  "padded w n = (let ds = decimal n in replicate (w - length ds) (CHR ''0'') @ ds)"

definition now_timestamp :: "clock \<Rightarrow> string" where
  "now_timestamp = (\<lambda>(y, mo, d, h, mi, s, ms). decimal y @ ''-'' @ padded 2 mo @ ''-'' @ padded 2 d @ '' '' @
     padded 2 h @ '':'' @ padded 2 mi @ '':'' @ padded 2 s @ ''.'' @ padded 3 ms)"

definition log_line :: "clock \<Rightarrow> level_t \<Rightarrow> string \<Rightarrow> string" where
  "log_line now l msg = now_timestamp now @ '': '' @ level_to_string l @ '': '' @ msg @ [newline]"

subsection \<open>The file system\<close>

type_synonym path = "string list"
type_synonym files = "path \<rightharpoonup> string"

record file_system =
  fs_is_dir :: "path \<Rightarrow> bool"
  fs_cwd :: path
  fs_can_create :: "path \<Rightarrow> bool"
  fs_can_open :: "path \<Rightarrow> bool"

text \<open>
  The search for the directory of the logs: the nearest directory above the current one that has
  \<open>software/sim\<close>, up to and with the root, which is the empty path here; then two relative paths.
\<close>

fun find_root :: "(path \<Rightarrow> bool) \<Rightarrow> path \<Rightarrow> nat \<Rightarrow> path option" where
  "find_root is_dir p 0 = (if is_dir (p @ [''software'', ''sim'']) then Some (p @ [''software'', ''sim'', ''log'']) else None)"
| "find_root is_dir p (Suc n) = (if is_dir (p @ [''software'', ''sim'']) then Some (p @ [''software'', ''sim'', ''log''])
     else find_root is_dir (butlast p) n)"

definition resolve_log_dir :: "file_system \<Rightarrow> path" where
  "resolve_log_dir fs = (case find_root (fs_is_dir fs) (fs_cwd fs) (length (fs_cwd fs)) of
       Some d \<Rightarrow> d
     | None \<Rightarrow> if fs_is_dir fs (fs_cwd fs @ [''software'', ''sim'']) then fs_cwd fs @ [''software'', ''sim'', ''log'']
               else fs_cwd fs @ [''sim'', ''log''])"

definition log_path :: "file_system \<Rightarrow> string \<Rightarrow> path" where
  "log_path fs name = resolve_log_dir fs @ [name @ ''_log.log'']"

text \<open>An output stream: it writes at its offset, or at the end when it was opened with \<open>std::ios::app\<close>.\<close>

record stream =
  st_path :: path
  st_pos :: nat
  st_app :: bool

definition open_stream :: "bool \<Rightarrow> path \<Rightarrow> files \<Rightarrow> stream \<times> files" where
  "open_stream trunc p m = (\<lparr>st_path = p, st_pos = 0, st_app = \<not> trunc\<rparr>,
     m(p \<mapsto> (if trunc then [] else case m p of None \<Rightarrow> [] | Some c \<Rightarrow> c)))"

text \<open>Bytes between the end of the file and the offset read as NUL.\<close>

definition put_at :: "nat \<Rightarrow> string \<Rightarrow> string \<Rightarrow> string" where
  "put_at n txt c = take n (c @ replicate (n - length c) (CHR 0x00)) @ txt @ drop (n + length txt) c"

definition stream_write :: "string \<Rightarrow> stream \<Rightarrow> files \<Rightarrow> stream \<times> files" where
  "stream_write txt st m = (let c = (case m (st_path st) of None \<Rightarrow> [] | Some c \<Rightarrow> c);
       n = (if st_app st then length c else st_pos st)
     in (st\<lparr>st_pos := n + length txt\<rparr>, m(st_path st \<mapsto> put_at n txt c)))"

subsection \<open>Loggers\<close>

record logger_state_t =
  lg_initialized :: bool
  lg_min_level :: level_t
  lg_stream :: "stream option"

definition logger0 :: logger_state_t where
  "logger0 = \<lparr>lg_initialized = False, lg_min_level = lvl_info, lg_stream = None\<rparr>"

text \<open>\<open>init_for_module\<close> on the logger of the calling thread; the result, the logger and the files.\<close>

definition init_for_module :: "file_system \<Rightarrow> string \<Rightarrow> init_config_t \<Rightarrow> logger_state_t \<times> files \<Rightarrow> bool \<times> logger_state_t \<times> files" where
  "init_for_module fs name cfg = (\<lambda>(g, m).
     if name = [] then (False, g, m)
     else if \<not> fs_can_create fs (resolve_log_dir fs) then (False, g, m)
     else if \<not> fs_can_open fs (log_path fs name) then (False, g\<lparr>lg_stream := None, lg_initialized := False\<rparr>, m)
     else let (st, m1) = open_stream (truncate_on_init cfg) (log_path fs name) m
          in (True, g\<lparr>lg_stream := Some st, lg_min_level := min_level cfg, lg_initialized := True\<rparr>, m1))"

definition logger_put :: "clock \<Rightarrow> level_t \<Rightarrow> string \<Rightarrow> logger_state_t \<times> files \<Rightarrow> logger_state_t \<times> files" where
  "logger_put now l msg = (\<lambda>(g, m). case lg_stream g of None \<Rightarrow> (g, m)
     | Some st \<Rightarrow> let (st1, m1) = stream_write (log_line now l msg) st m in (g\<lparr>lg_stream := Some st1\<rparr>, m1))"

definition log_write :: "clock \<Rightarrow> level_t \<Rightarrow> string \<Rightarrow> logger_state_t \<times> files \<Rightarrow> logger_state_t \<times> files" where
  "log_write now l msg = (\<lambda>(g, m). if \<not> lg_initialized g \<or> \<not> level_allowed l (lg_min_level g) then (g, m) else logger_put now l msg (g, m))"

definition log_info :: "clock \<Rightarrow> string \<Rightarrow> logger_state_t \<times> files \<Rightarrow> logger_state_t \<times> files" where
  "log_info now msg = log_write now lvl_info msg"

definition log_warning :: "clock \<Rightarrow> string \<Rightarrow> logger_state_t \<times> files \<Rightarrow> logger_state_t \<times> files" where
  "log_warning now msg = log_write now lvl_warning msg"

definition log_error :: "clock \<Rightarrow> string \<Rightarrow> logger_state_t \<times> files \<Rightarrow> logger_state_t \<times> files" where
  "log_error now msg = log_write now lvl_error msg"

text \<open>
  The shared loggers: the first message for a module opens its file with the configuration of that
  call, a failure is tried again with the next one, and later configurations are ignored.
\<close>

type_synonym shared_loggers = "string \<rightharpoonup> logger_state_t"

definition write_for_module :: "file_system \<Rightarrow> clock \<Rightarrow> string \<Rightarrow> level_t \<Rightarrow> string \<Rightarrow> init_config_t \<Rightarrow>
    shared_loggers \<times> files \<Rightarrow> shared_loggers \<times> files" where
  "write_for_module fs now name l msg cfg = (\<lambda>(g, m).
     if name = [] then (g, m)
     else let lg = (case g name of None \<Rightarrow> logger0 | Some x \<Rightarrow> x);
              (ok, lg1, m1) = (if lg_initialized lg then (True, lg, m) else init_for_module fs name cfg (lg, m))
          in if \<not> ok \<or> \<not> level_allowed l (lg_min_level lg1) then (g(name \<mapsto> lg1), m1)
             else let (lg2, m2) = logger_put now l msg (lg1, m1) in (g(name \<mapsto> lg2), m2))"

subsection \<open>What a log contains\<close>

lemma put_at_end [simp]: "put_at (length c) txt c = c @ txt"
  by (simp add: put_at_def)

text \<open>A logger that is the only one to write to its file: its offset is the end of the file.\<close>

definition sole_writer :: "logger_state_t \<Rightarrow> path \<Rightarrow> files \<Rightarrow> bool" where
  "sole_writer g p m \<longleftrightarrow> lg_initialized g \<and> (\<exists>st c. lg_stream g = Some st \<and> st_path st = p \<and> m p = Some c \<and> (st_app st \<or> st_pos st = length c))"

lemma put_sole:
  assumes "sole_writer g p m" "logger_put now l msg (g, m) = (g', m')"
  shows "sole_writer g' p m' \<and> lg_min_level g' = lg_min_level g \<and> m' = m(p \<mapsto> the (m p) @ log_line now l msg)"
  using assms by (auto simp: sole_writer_def logger_put_def stream_write_def Let_def)

lemma init_sole:
  assumes "init_for_module fs name cfg (g, m) = (True, g', m')"
  shows "sole_writer g' (log_path fs name) m'" "lg_min_level g' = min_level cfg"
    "m' = m(log_path fs name \<mapsto> (if truncate_on_init cfg then [] else case m (log_path fs name) of None \<Rightarrow> [] | Some c \<Rightarrow> c))"
  using assms by (auto simp: init_for_module_def sole_writer_def open_stream_def Let_def split: if_splits)

lemma log_path_inj [simp]: "log_path fs a = log_path fs b \<longleftrightarrow> a = b"
  by (simp add: log_path_def)

lemma sole_other [simp]: "q \<noteq> p \<Longrightarrow> sole_writer g p (m(q \<mapsto> c)) = sole_writer g p m"
  by (auto simp: sole_writer_def)

text \<open>A message for a module: its time, the module, the level, the text, and the configuration of the call.\<close>

type_synonym entry = "clock \<times> string \<times> level_t \<times> string \<times> init_config_t"

definition log_entry :: "file_system \<Rightarrow> entry \<Rightarrow> shared_loggers \<times> files \<Rightarrow> shared_loggers \<times> files" where
  "log_entry fs = (\<lambda>(now, name, l, msg, cfg). write_for_module fs now name l msg cfg)"

definition entry_name :: "entry \<Rightarrow> string" where "entry_name e = fst (snd e)"
definition entry_cfg :: "entry \<Rightarrow> init_config_t" where "entry_cfg e = snd (snd (snd (snd e)))"

text \<open>What a module logs at a level and above.\<close>

definition entry_text :: "level_t \<Rightarrow> entry \<Rightarrow> string" where
  "entry_text m = (\<lambda>(now, name, l, msg, cfg). if level_allowed l m then log_line now l msg else [])"

definition before_log :: "init_config_t \<Rightarrow> string option \<Rightarrow> string" where
  "before_log cfg old = (if truncate_on_init cfg then [] else case old of None \<Rightarrow> [] | Some c \<Rightarrow> c)"

text \<open>The file of a module after the messages \<open>es\<close> of all modules: the first message of the module says how it begins.\<close>

definition module_file :: "entry list \<Rightarrow> string \<Rightarrow> string option \<Rightarrow> string option" where
  "module_file es name old = (case filter (\<lambda>e. entry_name e = name) es of [] \<Rightarrow> old
     | e # r \<Rightarrow> Some (before_log (entry_cfg e) old @ concat (map (entry_text (min_level (entry_cfg e))) (e # r))))"

definition fs_works :: "file_system \<Rightarrow> bool" where
  "fs_works fs \<longleftrightarrow> fs_can_create fs (resolve_log_dir fs) \<and> (\<forall>name. fs_can_open fs (log_path fs name))"

lemma write_open:
  assumes "name \<noteq> []" "g name = Some lg" "sole_writer lg (log_path fs name) m"
    "write_for_module fs now name l msg cfg (g, m) = (g', m')"
  shows "\<exists>lg'. g' = g(name \<mapsto> lg') \<and> sole_writer lg' (log_path fs name) m' \<and> lg_min_level lg' = lg_min_level lg \<and>
    m' = m(log_path fs name \<mapsto> the (m (log_path fs name)) @ entry_text (lg_min_level lg) (now, name, l, msg, cfg))"
proof -
  have i: "lg_initialized lg" and ex: "\<exists>c. m (log_path fs name) = Some c" using assms(3) by (auto simp: sole_writer_def)
  show ?thesis
  proof (cases "level_allowed l (lg_min_level lg)")
    case True
    obtain lg2 m2 where p: "logger_put now l msg (lg, m) = (lg2, m2)" by fastforce
    then have r: "g' = g(name \<mapsto> lg2)" "m' = m2" using assms(1,2,4) i True by (auto simp: write_for_module_def)
    have t: "entry_text (lg_min_level lg) (now, name, l, msg, cfg) = log_line now l msg" using True by (simp add: entry_text_def)
    show ?thesis unfolding r t using put_sole [OF assms(3) p] by blast
  next
    case False
    then have "g' = g(name \<mapsto> lg)" "m' = m" using assms(1,2,4) i by (auto simp: write_for_module_def)
    then show ?thesis using assms(3) False ex by (auto simp: entry_text_def)
  qed
qed

lemma write_first:
  assumes "name \<noteq> []" "g name = None" "fs_works fs" "write_for_module fs now name l msg cfg (g, m) = (g', m')"
  shows "\<exists>lg'. g' = g(name \<mapsto> lg') \<and> sole_writer lg' (log_path fs name) m' \<and> lg_min_level lg' = min_level cfg \<and>
    m' = m(log_path fs name \<mapsto> before_log cfg (m (log_path fs name)) @ entry_text (min_level cfg) (now, name, l, msg, cfg))"
proof -
  obtain lg m1 where i: "init_for_module fs name cfg (logger0, m) = (True, lg, m1)"
    using assms(1,3) by (cases "open_stream (truncate_on_init cfg) (log_path fs name) m") (simp add: init_for_module_def fs_works_def Let_def)
  note s = init_sole [OF i]
  have li: "lg_initialized lg" using s(1) by (simp add: sole_writer_def)
  have "write_for_module fs now name l msg cfg (g(name \<mapsto> lg), m1) = (g', m')"
    using assms(1,2,4) i li by (auto simp: write_for_module_def logger0_def split: prod.splits if_splits)
  from write_open [OF assms(1) _ s(1) this] show ?thesis
    by (auto simp: s(2,3) before_log_def)
qed

definition log_inv :: "file_system \<Rightarrow> entry list \<Rightarrow> files \<Rightarrow> shared_loggers \<times> files \<Rightarrow> string \<Rightarrow> bool" where
  "log_inv fs es m0 = (\<lambda>(g, m) name. m (log_path fs name) = module_file es name (m0 (log_path fs name)) \<and>
    (case filter (\<lambda>e. entry_name e = name) es of [] \<Rightarrow> g name = None
     | e # r \<Rightarrow> \<exists>lg. g name = Some lg \<and> sole_writer lg (log_path fs name) m \<and> lg_min_level lg = min_level (entry_cfg e)))"

lemma log_inv_entry:
  assumes "fs_works fs" "\<And>n. n \<noteq> [] \<Longrightarrow> log_inv fs es m0 (g1, m1) n" "n \<noteq> []" "name \<noteq> []"
    "write_for_module fs now n l msg cfg (g1, m1) = (g, m)"
  shows "log_inv fs (es @ [(now, n, l, msg, cfg)]) m0 (g, m) name"
proof -
  note ih = assms(2) [unfolded log_inv_def prod.case] and d = log_inv_def module_file_def entry_name_def entry_cfg_def
  have i: "m1 (log_path fs n) = module_file es n (m0 (log_path fs n))" using ih [OF assms(3)] by blast
  show ?thesis
  proof (cases "filter (\<lambda>e. entry_name e = n) es")
    case Nil
    then have n: "g1 n = None" using ih [OF assms(3)] by simp
    obtain lg where w: "g = g1(n \<mapsto> lg)" "sole_writer lg (log_path fs n) m" "lg_min_level lg = min_level cfg"
      "m = m1(log_path fs n \<mapsto> before_log cfg (m1 (log_path fs n)) @ entry_text (min_level cfg) (now, n, l, msg, cfg))"
      using write_first [OF assms(3) n assms(1,5)] by blast
    show ?thesis
    proof (cases "n = name")
      case True
      then show ?thesis using Nil w i by (simp add: d)
    next
      case False
      then show ?thesis using ih [OF assms(4)] w(1,4) by (auto simp: d split: list.splits)
    qed
  next
    case (Cons e r)
    then obtain lg0 where lg: "g1 n = Some lg0" "sole_writer lg0 (log_path fs n) m1" "lg_min_level lg0 = min_level (entry_cfg e)"
      using ih [OF assms(3)] by auto
    obtain lg where w: "g = g1(n \<mapsto> lg)" "sole_writer lg (log_path fs n) m" "lg_min_level lg = lg_min_level lg0"
      "m = m1(log_path fs n \<mapsto> the (m1 (log_path fs n)) @ entry_text (lg_min_level lg0) (now, n, l, msg, cfg))"
      using write_open [where fs = fs and m = m1, OF assms(3) lg(1,2) assms(5)] by blast
    show ?thesis
    proof (cases "n = name")
      case True
      then show ?thesis using Cons w i lg(3) by (simp add: d)
    next
      case False
      then show ?thesis using ih [OF assms(4)] w(1,4) by (auto simp: d split: list.splits)
    qed
  qed
qed

text \<open>
  What the shared logs contain. Whatever modules log in whatever order, the file of a module
  holds exactly its own messages at or above the level of the first one, in order, one line each, after
  what the configuration of the first one keeps of the old file; modules that log nothing keep their file.
\<close>
lemma shared_logs_exact:
  assumes "fs_works fs" "\<forall>e \<in> set es. entry_name e \<noteq> []" "fold (log_entry fs) es (Map.empty, m0) = (g, m)" "name \<noteq> []"
  shows "m (log_path fs name) = module_file es name (m0 (log_path fs name))"
proof -
  have "name \<noteq> [] \<Longrightarrow> log_inv fs es m0 (g, m) name" for name
    using assms(2,3)
  proof (induction es arbitrary: g m name rule: rev_induct)
    case Nil
    then show ?case by (auto simp: log_inv_def module_file_def)
  next
    case (snoc x es)
    obtain g1 m1 where 1: "fold (log_entry fs) es (Map.empty, m0) = (g1, m1)" by fastforce
    obtain now n l msg cfg where x: "x = (now, n, l, msg, cfg)" by (cases x) auto
    have "n \<noteq> []" using snoc.prems(2) by (simp add: x entry_name_def)
    moreover have "write_for_module fs now n l msg cfg (g1, m1) = (g, m)" using snoc.prems(3) 1 by (simp add: log_entry_def x)
    moreover have "a \<noteq> [] \<Longrightarrow> log_inv fs es m0 (g1, m1) a" for a using snoc.IH [OF _ _ 1] snoc.prems(2) by simp
    ultimately show ?case unfolding x by (intro log_inv_entry [OF assms(1) _ _ snoc.prems(1)])
  qed
  then show ?thesis using assms(4) by (simp add: log_inv_def)
qed

definition demo_fs :: file_system where
  "demo_fs = \<lparr>fs_is_dir = (\<lambda>p. p = [''home'', ''arp'', ''src'', ''software'', ''sim'']), fs_cwd = [''home'', ''arp'', ''src'', ''build''],
     fs_can_create = (\<lambda>p. True), fs_can_open = (\<lambda>p. True)\<rparr>"

text \<open>A run of two messages for one module, the second below the level of the first.\<close>

lemma shared_logs_demo:
  "snd (fold (log_entry demo_fs) [((2024, 5, 1, 9, 7, 3, 42), ''a'', lvl_warning, ''x'', \<lparr>min_level = lvl_warning, truncate_on_init = True\<rparr>),
      ((2024, 5, 1, 9, 7, 3, 43), ''a'', lvl_info, ''y'', \<lparr>min_level = lvl_info, truncate_on_init = True\<rparr>)] (Map.empty, Map.empty))
    [''home'', ''arp'', ''src'', ''software'', ''sim'', ''log'', ''a_log.log''] = Some (''2024-05-01 09:07:03.042: warning: x'' @ [newline])"
proof -
  let ?c = "\<lparr>min_level = lvl_warning, truncate_on_init = True\<rparr>" and ?d = "\<lparr>min_level = lvl_info, truncate_on_init = True\<rparr>"
  let ?es = "[((2024, 5, 1, 9, 7, 3, 42), ''a'', lvl_warning, ''x'', ?c), ((2024, 5, 1, 9, 7, 3, 43), ''a'', lvl_info, ''y'', ?d)] :: entry list"
  obtain g m where f: "fold (log_entry demo_fs) ?es (Map.empty, Map.empty) = (g, m)" by fastforce
  have "fs_works demo_fs" by (simp add: fs_works_def demo_fs_def)
  from shared_logs_exact [OF this _ f, of "''a''"]
  have "m (log_path demo_fs ''a'') = module_file ?es ''a'' None" by (simp add: entry_name_def)
  moreover have "log_path demo_fs ''a'' = [''home'', ''arp'', ''src'', ''software'', ''sim'', ''log'', ''a_log.log'']" by code_simp
  moreover have "module_file ?es ''a'' None = Some (''2024-05-01 09:07:03.042: warning: x'' @ [newline])" by code_simp
  ultimately show ?thesis unfolding f by simp
qed

end
