(* ===== verification/Startup.thy ===== *)
theory Startup
  imports MockBus Logging
begin

text \<open>
  The start of the process, \<open>sim_operator.cpp\<close>: its settings from the environment, the period of the
  ticks, the table of its 17 threads with their log files, and the loop of the threads that have no
  system yet. The environment and the clock are arguments; times are in microseconds.
\<close>

subsection \<open>Settings from the environment\<close>

text \<open>
  \<open>std::strtoul\<close> with base 10, for an \<open>unsigned long\<close> of 64 bits: white space, a sign, digits. The
  value with the rest of the string, \<open>None\<close> when there are no digits and \<open>end\<close> stays at the beginning.
\<close>

definition strtoul_dec :: "string \<Rightarrow> (nat \<times> string) option" where
  "strtoul_dec s =
     (let t = dropWhile char_space s;
          neg = (t \<noteq> [] \<and> hd t = CHR ''-'');
          u = (if t \<noteq> [] \<and> (hd t = CHR ''-'' \<or> hd t = CHR ''+'') then tl t else t);
          ds = takeWhile (\<lambda>c. hex_val c < 10) u;
          n = digits_val 10 ds
      in if ds = [] then None
         else Some (if 2 ^ 64 \<le> n then 2 ^ 64 - 1 else if neg then (2 ^ 64 - n) mod 2 ^ 64 else n,
                    dropWhile (\<lambda>c. hex_val c < 10) u))"

definition read_duration_from_env_seconds :: "string option \<Rightarrow> u32" where
  "read_duration_from_env_seconds env =
     (case env of None \<Rightarrow> 0
      | Some raw \<Rightarrow> if raw = [] then 0
          else case strtoul_dec raw of None \<Rightarrow> 0
               | Some (value, rest) \<Rightarrow> if rest \<noteq> [] then 0 else of_nat value)"

definition console_enabled :: "string option \<Rightarrow> bool" where
  "console_enabled control_env \<longleftrightarrow> control_env = None \<or> control_env \<noteq> Some ''0''"

definition control_cfg :: "string option \<Rightarrow> config_t" where
  "control_cfg control_env = \<lparr>cfg_enabled = True, cfg_echo = False, cfg_console_enabled = console_enabled control_env, cfg_file_enabled = True\<rparr>"

text \<open>The path of the control file as text: from the environment, else in the log directory; empty for none.\<close>

definition path_text :: "path \<Rightarrow> string" where
  "path_text p = concat (map (\<lambda>c. CHR ''/'' # c) p)"

definition resolve_control_file :: "string option \<Rightarrow> file_system \<Rightarrow> string" where
  "resolve_control_file env fs =
     (case env of Some raw \<Rightarrow> if raw = [] then path_text (resolve_log_dir fs @ [''control_in.txt'']) else if raw = ''0'' then [] else raw
      | None \<Rightarrow> path_text (resolve_log_dir fs @ [''control_in.txt'']))"

text \<open>\<open>main\<close> up to the threads: the bus, the console, and which of its two threads start.\<close>

definition main_start :: "string option \<Rightarrow> string option \<Rightarrow> file_system \<Rightarrow> mock_bus \<times> console \<times> bool \<times> bool" where
  "main_start control_env file_env fs = (mock_bus_init, ctl_start (control_cfg control_env) (resolve_control_file file_env fs) console0)"

subsection \<open>The period of the ticks\<close>

definition ARP_TICK_HZ :: u32 where "ARP_TICK_HZ = 100"
definition ARP_SIM_SPEED_PERCENT :: u32 where "ARP_SIM_SPEED_PERCENT = 20"

text \<open>\<open>duration_cast\<close> from seconds in \<open>double\<close> to whole microseconds, towards 0.\<close>

definition to_microseconds :: "fp \<Rightarrow> int option" where
  "to_microseconds sec = (case fp_mul f64 sec (Fin 1000000) of
     Fin x \<Rightarrow> in_i64 (if x < 0 then - \<lfloor>- x\<rfloor> else \<lfloor>x\<rfloor>) | _ \<Rightarrow> None)"

definition tick_period :: "u32 \<Rightarrow> u32 \<Rightarrow> int option" where
  "tick_period tick_hz sim_speed_percent =
     (let hz = (if tick_hz = 0 then 1000 else tick_hz);
          speed_percent = (if sim_speed_percent = 0 then 100 else sim_speed_percent);
          base_period_sec = fp_div f64 (Fin 1) (fp_of_int f64 (uint hz));
          scaled_period_sec = fp_mul f64 base_period_sec (fp_div f64 (Fin 100) (fp_of_int f64 (uint speed_percent)))
      in map_option (\<lambda>period. if period \<le> 0 then 1 else period) (to_microseconds scaled_period_sec))"

definition sleep_to_next_tick :: "int \<Rightarrow> int \<Rightarrow> int \<Rightarrow> int" where
  "sleep_to_next_tick period now next_wakeup =
     (if next_wakeup + period \<le> now then now + period else next_wakeup + period)"

subsection \<open>The threads\<close>

definition char_alnum :: "char \<Rightarrow> bool" where
  "char_alnum c = (let n = (of_char c :: nat) in (48 \<le> n \<and> n \<le> 57) \<or> (65 \<le> n \<and> n \<le> 90) \<or> (97 \<le> n \<and> n \<le> 122))"

definition normalize_module_name :: "string \<Rightarrow> string" where
  "normalize_module_name name =
     (let module = map (\<lambda>ch. if char_alnum ch then char_lower ch else CHR ''_'') name
      in if module = [] then ''thread'' else module)"

text \<open>The threads of \<open>main\<close> in order: what each runs, and its period in periods of the systems.\<close>

datatype thread_fn = Cs_worker | Pss_worker | Pss_sim_worker | Idle_worker string

definition worker_threads :: "(thread_fn \<times> nat) list" where
  "worker_threads =
     [(Cs_worker, 1), (Pss_worker, 1), (Idle_worker ''SYS_TCS'', 1), (Idle_worker ''SYS_MNS'', 1),
      (Idle_worker ''SYS_TMS'', 1), (Idle_worker ''SYS_LS'', 1),
      (Idle_worker ''SIM_CS'', 5), (Pss_sim_worker, 5), (Idle_worker ''SIM_TCS'', 5), (Idle_worker ''SIM_TMS'', 5),
      (Idle_worker ''SIM_MNS'', 5), (Idle_worker ''SIM_INM'', 5), (Idle_worker ''SIM_DCM'', 5), (Idle_worker ''SIM_NM'', 5),
      (Idle_worker ''SIM_CVM'', 5), (Idle_worker ''SIM_AM'', 5), (Idle_worker ''SIM_LS'', 5)]"

definition worker_module :: "thread_fn \<Rightarrow> string" where
  "worker_module f = (case f of Cs_worker \<Rightarrow> ''cs'' | Pss_worker \<Rightarrow> ''pss'' | Pss_sim_worker \<Rightarrow> ''sim_pss''
     | Idle_worker name \<Rightarrow> normalize_module_name name)"

definition thread_log_config :: init_config_t where
  "thread_log_config = \<lparr>min_level = lvl_info, truncate_on_init = True\<rparr>"

definition init_thread_logger :: "file_system \<Rightarrow> clock \<Rightarrow> string \<Rightarrow> logger_state_t \<times> files \<Rightarrow> logger_state_t \<times> files" where
  "init_thread_logger fs now name = (\<lambda>(g, m). case init_for_module fs name thread_log_config (g, m) of
     (ok, g1, m1) \<Rightarrow> if ok then log_info now ''logger initialized'' (g1, m1) else (g1, m1))"

text \<open>The logger of the two threads of the console: \<open>ensure_logger\<close>.\<close>

definition ensure_logger :: "file_system \<Rightarrow> logger_state_t \<times> files \<Rightarrow> logger_state_t \<times> files" where
  "ensure_logger fs = (\<lambda>(g, m). if lg_initialized g then (g, m) else snd (init_for_module fs ''control'' thread_log_config (g, m)))"

text \<open>One turn of the loop of a thread without a system: its tick and its next time to wake up.\<close>

definition idle_turn :: "int \<Rightarrow> int \<Rightarrow> 64 word \<times> int \<Rightarrow> 64 word \<times> int" where
  "idle_turn period now = (\<lambda>(tick, next_wakeup). (tick + 1, sleep_to_next_tick period now next_wakeup))"

subsection \<open>The settings\<close>

lemma strtoul_decimal: "strtoul_dec (decimal n) = Some (if 2 ^ 64 \<le> n then 2 ^ 64 - 1 else n, [])"
proof -
  note d = decimal_digits [of n] and c = decimal_chars [of _ n]
  obtain x xs where x: "decimal n = x # xs" using d by (cases "decimal n") auto
  have s: "dropWhile char_space (decimal n) = decimal n" using c [of x] by (simp add: x)
  have h: "hd (decimal n) \<noteq> CHR ''-''" "hd (decimal n) \<noteq> CHR ''+''" using c [of x] by (simp_all add: x)
  have t: "takeWhile (\<lambda>c. hex_val c < 10) (decimal n) = decimal n" "dropWhile (\<lambda>c. hex_val c < 10) (decimal n) = []"
    using c by (simp_all add: takeWhile_eq_all_conv dropWhile_eq_Nil_conv)
  show ?thesis using d h by (simp add: strtoul_dec_def Let_def s t)
qed

text \<open>
  A duration that fits 32 bits is taken as it is; a longer one is reduced modulo \<open>2 ^ 32\<close>, so that the
  duration of \<open>2 ^ 32\<close> seconds means no end at all, as does a negative number of that size.
\<close>

lemma duration_of_decimal: "n < 2 ^ 64 \<Longrightarrow> read_duration_from_env_seconds (Some (decimal n)) = of_nat n"
  using decimal_digits [of n] by (simp add: read_duration_from_env_seconds_def strtoul_decimal)

lemma duration_wraps: "read_duration_from_env_seconds (Some ''4294967296'') = 0" "read_duration_from_env_seconds (Some ''-1'') = - 1"
  by (simp_all add: read_duration_from_env_seconds_def strtoul_dec_def char_space_def hex_val_def digits_val_def Let_def)

subsection \<open>Times\<close>

lemma int_64:
  assumes "\<bar>n\<bar> < 2 ^ 53"
  shows "rnd f64 (of_int n) = of_int n" "to_fp f64 (of_int n) = Fin (of_int n)"
proof -
  show r: "rnd f64 (of_int n) = of_int n" using assms by (intro rnd_of_int) (auto simp: f64_def)
  have "\<bar>of_int n :: rat\<bar> < of_int (2 ^ 53)" using assms by (simp only: of_int_abs [symmetric] of_int_less_iff)
  also have "\<dots> \<le> 2 powi (femax f64 + 1)" by (simp add: f64_def power_int_def)
  finally show "to_fp f64 (of_int n) = Fin (of_int n)" using to_fp_in_range [of f64 "of_int n"] by (simp add: r)
qed

lemma to_fp_64_between:
  assumes "0 \<le> x" "x \<le> of_int n" "n < 2 ^ 53"
  obtains y where "to_fp f64 x = Fin y" "0 \<le> y" "y \<le> of_int n"
proof -
  have n: "0 \<le> n" using assms(1,2) by (metis of_int_0_le_iff order_trans)
  have b: "0 \<le> rnd f64 x" "rnd f64 x \<le> of_int n"
    using rnd_nonneg [OF assms(1)] rnd_mono [OF assms(1,2), of f64] n assms(3) by (simp_all add: int_64) (simp add: f64_def)
  have "(of_int n :: rat) < of_int (2 ^ 53)" using assms(3) by (simp only: of_int_less_iff)
  also have "\<dots> \<le> 2 powi (femax f64 + 1)" by (simp add: f64_def power_int_def)
  finally have "\<bar>rnd f64 x\<bar> < 2 powi (femax f64 + 1)" using b by simp
  then show thesis using that [of "rnd f64 x"] b to_fp_in_range by blast
qed

text \<open>
  The period is defined for every configuration, never zero and never more than 100 seconds, so the
  loops of the threads make progress.
\<close>

lemma tick_period_bounds: "\<exists>p. tick_period hz speed = Some p \<and> 1 \<le> p \<and> p \<le> 10 ^ 8"
proof -
  define h where "h = uint (if hz = 0 then 1000 else hz)"
  define s where "s = uint (if speed = 0 then 100 else speed)"
  have u: "0 < uint w" if "w \<noteq> 0" for w :: u32 using that uint_0_iff [of w] uint_ge_0 [of w] by linarith
  have "uint w < 2 ^ 32" for w :: u32 using uint_lt2p [of w] by simp
  then have l: "h < 2 ^ 32" "s < 2 ^ 32" unfolding h_def s_def by blast+
  have hs: "1 \<le> h" "1 \<le> s" using u [of hz] u [of speed] by (auto simp: h_def s_def)
  have e: "fp_of_int f64 h = Fin (of_int h)" "fp_of_int f64 s = Fin (of_int s)"
    using hs l by (simp_all add: fp_of_int_def int_64)
  have hr: "1 \<le> (of_int h :: rat)" "1 \<le> (of_int s :: rat)" using hs by simp_all
  obtain b where b: "to_fp f64 (1 / of_int h) = Fin b" "0 \<le> b" "b \<le> of_int 1"
    by (rule to_fp_64_between [of "1 / of_int h" 1]) (use hr in simp_all)
  obtain q where q: "to_fp f64 (100 / of_int s) = Fin q" "0 \<le> q" "q \<le> of_int 100"
    by (rule to_fp_64_between [of "100 / of_int s" 100]) (use hr in \<open>simp_all add: divide_le_eq\<close>)
  have bq: "0 \<le> b * q" "b * q \<le> of_int 100" using b q mult_mono [of b 1 q 100] by simp_all
  obtain p where p: "to_fp f64 (b * q) = Fin p" "0 \<le> p" "p \<le> of_int 100" by (rule to_fp_64_between [OF bq]) simp_all
  have pm: "0 \<le> p * 1000000" "p * 1000000 \<le> of_int 100000000" using p by simp_all
  obtain u where u: "to_fp f64 (p * 1000000) = Fin u" "0 \<le> u" "u \<le> of_int 100000000" by (rule to_fp_64_between [OF pm]) simp_all
  have k: "0 \<le> \<lfloor>u\<rfloor>" "\<lfloor>u\<rfloor> \<le> 100000000" using u floor_mono [OF u(3)] by (simp_all del: of_int_numeral)
  have "to_microseconds (Fin p) = Some \<lfloor>u\<rfloor>" using u k by (simp add: to_microseconds_def in_i64_def fits_i64_def)
  moreover have "tick_period hz speed = map_option (\<lambda>p. if p \<le> 0 then 1 else p) (to_microseconds (Fin p))"
    using hs b(1) q(1) p(1) by (simp add: tick_period_def Let_def h_def [symmetric] s_def [symmetric] e)
  ultimately show ?thesis using k by simp
qed

text \<open>With the configured rate of 100 ticks per second at a speed of 20 percent, a tick takes 50 milliseconds.\<close>

lemma configured_period: "tick_period ARP_TICK_HZ ARP_SIM_SPEED_PERCENT = Some 50000"
proof -
  have 1: "fp_div f64 (Fin 1) (fp_of_int f64 100) = Fin (5764607523034235/576460752303423488)" by code_simp
  have 2: "fp_div f64 (Fin 100) (fp_of_int f64 20) = Fin 5" by code_simp
  have 3: "fp_mul f64 (Fin (5764607523034235/576460752303423488)) (Fin 5) = Fin (3602879701896397/72057594037927936)" by code_simp
  then have 3: "to_fp f64 (5764607523034235/576460752303423488 * 5) = Fin (3602879701896397/72057594037927936)" by (simp only: fp_mul.simps)
  have 4: "to_microseconds (Fin (3602879701896397/72057594037927936)) = Some 50000" by code_simp
  show ?thesis by (simp add: tick_period_def ARP_TICK_HZ_def ARP_SIM_SPEED_PERCENT_def 1 2 3 [simplified] 4)
qed

text \<open>
  A thread never sleeps until a time that is over, and at most one period when it is late; on time it
  does not drift: the wake-up times are multiples of the period.
\<close>

lemma sleep_not_over: "0 < period \<Longrightarrow> now < sleep_to_next_tick period now next"
  by (simp add: sleep_to_next_tick_def)

lemma no_drift:
  assumes "0 < period" "\<forall>i < length nows. nows ! i < start + (int i + 1) * period"
  shows "fold (\<lambda>now next. sleep_to_next_tick period now next) nows start = start + int (length nows) * period"
  using assms(2)
proof (induction nows rule: rev_induct)
  case (snoc now nows)
  have "\<forall>i < length nows. nows ! i < start + (int i + 1) * period" 
    using snoc.prems by (metis (no_types, lifting) length_append_singleton less_Suc_eq nth_append)
  moreover have "now < start + (int (length nows) + 1) * period" using snoc.prems by (auto dest!: spec [of _ "length nows"])
  ultimately show ?case using snoc.IH by (simp add: sleep_to_next_tick_def algebra_simps)
qed simp

subsection \<open>The logs of the threads\<close>

lemma normal_name_chars: "c \<in> set (normalize_module_name name) \<Longrightarrow> char_alnum c \<and> char_lower c = c \<or> c = CHR ''_''"
proof -
  have l: "char_alnum (char_lower ch) \<and> char_lower (char_lower ch) = char_lower ch" if "char_alnum ch" for ch
    using that by (cases "65 \<le> (of_char ch :: nat) \<and> (of_char ch :: nat) \<le> 90") (auto simp: char_alnum_def char_lower_def Let_def)
  have t: "\<forall>c \<in> set ''thread''. char_alnum c \<and> char_lower c = c" by (simp add: char_alnum_def char_lower_def)
  show "c \<in> set (normalize_module_name name) \<Longrightarrow> char_alnum c \<and> char_lower c = c \<or> c = CHR ''_''"
    using l t by (auto simp: normalize_module_name_def Let_def split: if_splits)
qed

text \<open>A name that is normal stays as it is.\<close>

lemma normalize_idem: "normalize_module_name (normalize_module_name name) = normalize_module_name name"
proof -
  have "map (\<lambda>ch. if char_alnum ch then char_lower ch else CHR ''_'') (normalize_module_name name) = normalize_module_name name"
    by (intro map_idI) (auto dest!: normal_name_chars simp: char_alnum_def char_lower_def)
  moreover have "normalize_module_name name \<noteq> []" by (simp add: normalize_module_name_def Let_def)
  ultimately show ?thesis by (subst normalize_module_name_def) simp
qed

text \<open>
  What the threads do to the files, one call of a thread at a time: each thread has a logger of its own.
\<close>

datatype log_call = Log_init string init_config_t | Log_line clock level_t string

type_synonym logs = "(nat \<Rightarrow> logger_state_t) \<times> files"

definition thread_log :: "file_system \<Rightarrow> nat \<times> log_call \<Rightarrow> logs \<Rightarrow> logs" where
  "thread_log fs = (\<lambda>(i, c) (g, m). case (case c of
       Log_init name cfg \<Rightarrow> snd (init_for_module fs name cfg (g i, m))
     | Log_line now l msg \<Rightarrow> log_write now l msg (g i, m)) of (x, m1) \<Rightarrow> (g(i := x), m1))"

text \<open>
  What one thread writes, without streams and offsets: the contents of its file, and its level once it
  has opened its file.
\<close>

definition own_call :: "log_call \<Rightarrow> level_t option \<times> string option \<Rightarrow> level_t option \<times> string option" where
  "own_call c = (\<lambda>(lv, f). case c of
       Log_init name cfg \<Rightarrow> (Some (min_level cfg), Some (before_log cfg f))
     | Log_line now l msg \<Rightarrow> (case lv of None \<Rightarrow> (lv, f)
         | Some m \<Rightarrow> if level_allowed l m then (lv, map_option (\<lambda>t. t @ log_line now l msg) f) else (lv, f)))"

definition own_file :: "nat \<Rightarrow> (nat \<times> log_call) list \<Rightarrow> string option \<Rightarrow> level_t option \<times> string option" where
  "own_file i es old = fold own_call (map snd (filter (\<lambda>e. fst e = i) es)) (None, old)"

definition logger_agrees :: "logger_state_t \<Rightarrow> path \<Rightarrow> files \<Rightarrow> level_t option \<times> string option \<Rightarrow> bool" where
  "logger_agrees g p m = (\<lambda>(lv, f). m p = f \<and> (case lv of None \<Rightarrow> g = logger0
     | Some l \<Rightarrow> sole_writer g p m \<and> lg_min_level g = l))"

definition away_from :: "path \<Rightarrow> logger_state_t \<Rightarrow> bool" where
  "away_from p g \<longleftrightarrow> (\<forall>st. lg_stream g = Some st \<longrightarrow> st_path st \<noteq> p)"

definition opens_only :: "string \<Rightarrow> log_call \<Rightarrow> bool" where
  "opens_only name c \<longleftrightarrow> (\<forall>n cfg. c = Log_init n cfg \<longrightarrow> n = name)"

definition opens_other :: "string \<Rightarrow> log_call \<Rightarrow> bool" where
  "opens_other name c \<longleftrightarrow> (\<forall>n cfg. c = Log_init n cfg \<longrightarrow> n \<noteq> name)"

lemma own_step:
  assumes "fs_works fs" "name \<noteq> []" "opens_only name c" "logger_agrees (g i) (log_path fs name) m x"
    "thread_log fs (i, c) (g, m) = (g', m')"
  shows "logger_agrees (g' i) (log_path fs name) m' (own_call c x) \<and> (\<forall>j. j \<noteq> i \<longrightarrow> g' j = g j)"
proof (cases c)
  case (Log_init n cfg)
  then have n: "n = name" using assms(3) by (simp add: opens_only_def)
  obtain lg m1 where i: "init_for_module fs name cfg (g i, m) = (True, lg, m1)"
    using assms(1,2) by (cases "open_stream (truncate_on_init cfg) (log_path fs name) m") (simp add: init_for_module_def fs_works_def Let_def)
  have r: "g' = g(i := lg)" "m' = m1" using assms(5) Log_init n i by (auto simp: thread_log_def)
  show ?thesis using init_sole [OF i] assms(4)
    by (auto simp: r Log_init own_call_def logger_agrees_def before_log_def split: prod.splits)
next
  case (Log_line now l msg)
  obtain lv f where x: "x = (lv, f)" by fastforce
  obtain lg m1 where w: "log_write now l msg (g i, m) = (lg, m1)" by fastforce
  have r: "g' = g(i := lg)" "m' = m1" using assms(5) Log_line w by (auto simp: thread_log_def)
  have a: "m (log_path fs name) = f" "case lv of None \<Rightarrow> g i = logger0 | Some l \<Rightarrow> sole_writer (g i) (log_path fs name) m \<and> lg_min_level (g i) = l"
    using assms(4) by (simp_all add: logger_agrees_def x)
  show ?thesis
  proof (cases lv)
    case None
    then show ?thesis using a w by (auto simp: r Log_line own_call_def x logger_agrees_def log_write_def logger0_def)
  next
    case (Some mn)
    then have s: "sole_writer (g i) (log_path fs name) m" "lg_min_level (g i) = mn" "lg_initialized (g i)"
      using a(2) by (auto simp: sole_writer_def)
    show ?thesis
    proof (cases "level_allowed l mn")
      case True
      then have p: "logger_put now l msg (g i, m) = (lg, m1)" using w s by (simp add: log_write_def)
      obtain t where "f = Some t" using s(1) a(1) by (auto simp: sole_writer_def)
      then show ?thesis using put_sole [OF s(1) p] True a(1) s(2) by (auto simp: r Log_line own_call_def x Some logger_agrees_def)
    next
      case False
      then show ?thesis using w s a(1) by (auto simp: r Log_line own_call_def x Some logger_agrees_def log_write_def)
    qed
  qed
qed

lemma other_step:
  assumes "opens_other name c" "away_from (log_path fs name) (g j)" "thread_log fs (j, c) (g, m) = (g', m')"
  shows "away_from (log_path fs name) (g' j) \<and> m' (log_path fs name) = m (log_path fs name) \<and> (\<forall>i. i \<noteq> j \<longrightarrow> g' i = g i)"
proof (cases c)
  case (Log_init n cfg)
  then show ?thesis using assms
    by (auto simp: thread_log_def opens_other_def away_from_def init_for_module_def open_stream_def Let_def split: if_splits)
next
  case (Log_line now l msg)
  then show ?thesis using assms
    by (auto simp: thread_log_def away_from_def log_write_def logger_put_def stream_write_def Let_def split: if_splits option.splits prod.splits)
qed

lemma agrees_other: "m' p = m p \<Longrightarrow> logger_agrees g p m' x = logger_agrees g p m x"
  by (auto simp: logger_agrees_def sole_writer_def split: option.splits)

lemma private_log:
  assumes "fs_works fs" "name \<noteq> []" "\<forall>(j, c) \<in> set es. if j = i then opens_only name c else opens_other name c"
    "fold (thread_log fs) es (\<lambda>j. logger0, m0) = (g, m)"
  shows "logger_agrees (g i) (log_path fs name) m (own_file i es (m0 (log_path fs name))) \<and>
    (\<forall>j. j \<noteq> i \<longrightarrow> away_from (log_path fs name) (g j))"
  using assms(3,4)
proof (induction es arbitrary: g m rule: rev_induct)
  case Nil
  then show ?case by (auto simp: own_file_def logger_agrees_def away_from_def logger0_def)
next
  case (snoc e es)
  obtain j c where e: "e = (j, c)" by fastforce
  obtain g1 m1 where 1: "fold (thread_log fs) es (\<lambda>j. logger0, m0) = (g1, m1)" by fastforce
  have ih: "logger_agrees (g1 i) (log_path fs name) m1 (own_file i es (m0 (log_path fs name)))"
    "\<And>j. j \<noteq> i \<Longrightarrow> away_from (log_path fs name) (g1 j)" using snoc.IH [OF _ 1] snoc.prems(1) by auto
  have s: "thread_log fs (j, c) (g1, m1) = (g, m)" using snoc.prems(2) 1 by (simp add: e)
  show ?case
  proof (cases "j = i")
    case True
    have "opens_only name c" using snoc.prems(1) True by (simp add: e)
    from own_step [OF assms(1,2) this ih(1) s [unfolded True]] ih(2) show ?thesis
      by (simp add: own_file_def e True)
  next
    case False
    have "opens_other name c" using snoc.prems(1) False by (simp add: e)
    note o = other_step [OF this ih(2) [OF False] s]
    have f: "own_file i (es @ [e]) old = own_file i es old" for old using False by (simp add: own_file_def e)
    have "g i = g1 i" using o False by simp
    then have "logger_agrees (g i) (log_path fs name) m (own_file i (es @ [e]) (m0 (log_path fs name)))"
      unfolding f using ih(1) agrees_other [of m "log_path fs name" m1] o by simp
    moreover have "away_from (log_path fs name) (g k)" if "k \<noteq> i" for k using o ih(2) [OF that] by (cases "k = j") simp_all
    ultimately show ?thesis by blast
  qed
qed

text \<open>
  The files of the process: the 17 workers, numbered as they start, and the two threads of the console.
\<close>

definition log_module :: "nat \<Rightarrow> string" where
  "log_module i = (if i < length worker_threads then worker_module (fst (worker_threads ! i)) else ''control'')"

lemma worker_modules: "map log_module [0..<17] = [''cs'', ''pss'', ''sys_tcs'', ''sys_mns'', ''sys_tms'', ''sys_ls'', ''sim_cs'', ''sim_pss'',
    ''sim_tcs'', ''sim_tms'', ''sim_mns'', ''sim_inm'', ''sim_dcm'', ''sim_nm'', ''sim_cvm'', ''sim_am'', ''sim_ls'']"
  by code_simp

lemma log_module_inj: "i < 17 \<Longrightarrow> log_module j = log_module i \<Longrightarrow> j = i"
proof -
  assume i: "i < 17" and e: "log_module j = log_module i"
  have "distinct (''control'' # map log_module [0..<17])" unfolding worker_modules by simp
  then have d: "distinct (map log_module [0..<17])" "''control'' \<notin> log_module ` {0..<17}" by simp_all
  have l: "length worker_threads = 17" by (simp add: worker_threads_def)
  have "j < 17"
  proof (rule ccontr)
    assume "\<not> j < 17"
    then have "''control'' = log_module i" using e by (simp add: log_module_def l)
    then show False using d(2) i by auto
  qed
  then show "j = i" using inj_onD [OF distinct_map [THEN iffD1, OF d(1), THEN conjunct2], of j i] i e by simp
qed

lemma log_module_nonempty: "log_module i \<noteq> []"
  by (cases "worker_threads ! i") (auto simp: log_module_def worker_module_def normalize_module_name_def Let_def split: thread_fn.splits)

text \<open>
  C40: the logs of the workers. However the calls of all threads interleave, with each thread opening
  only its own module, the file of a worker holds exactly what that worker wrote, in order: no line of
  another thread, and no line lost, since the 17 modules differ from each other and from the one of the console.
\<close>
theorem worker_logs_exact:
  assumes "fs_works fs" "\<forall>(j, c) \<in> set es. opens_only (log_module j) c"
    "fold (thread_log fs) es (\<lambda>j. logger0, m0) = (g, m)" "i < length worker_threads"
  shows "m (log_path fs (log_module i)) = snd (own_file i es (m0 (log_path fs (log_module i))))"
proof -
  have i: "i < 17" using assms(4) by (simp add: worker_threads_def)
  have "\<forall>(j, c) \<in> set es. if j = i then opens_only (log_module i) c else opens_other (log_module i) c"
    using assms(2) log_module_inj [OF i] by (fastforce simp: opens_only_def opens_other_def)
  from private_log [OF assms(1) log_module_nonempty this assms(3)] show ?thesis
    by (simp add: logger_agrees_def split: prod.splits)
qed

definition demo_calls :: "(nat \<times> log_call) list" where
  "demo_calls = [(0, Log_init ''cs'' thread_log_config), (1, Log_init ''pss'' thread_log_config),
     (0, Log_line (2024, 5, 1, 9, 7, 3, 42) lvl_info ''a''), (1, Log_line (2024, 5, 1, 9, 7, 3, 43) lvl_error ''b''),
     (0, Log_line (2024, 5, 1, 9, 7, 4, 0) lvl_warning ''c'')]"

theorem worker_logs_exact_witness:
  "snd (fold (thread_log demo_fs) demo_calls (\<lambda>j. logger0, Map.empty)) (log_path demo_fs ''cs'') =
     Some (''2024-05-01 09:07:03.042: info: a'' @ [newline] @ ''2024-05-01 09:07:04.000: warning: c'' @ [newline])"
proof -
  have w: "fs_works demo_fs" by (simp add: fs_works_def demo_fs_def)
  obtain g m where f: "fold (thread_log demo_fs) demo_calls (\<lambda>j. logger0, Map.empty) = (g, m)" by fastforce
  have n: "log_module 0 = ''cs''" "log_module 1 = ''pss''" by code_simp+
  have o: "\<forall>(j, c) \<in> set demo_calls. opens_only (log_module j) c" by (simp add: demo_calls_def opens_only_def n(1) n(2) [unfolded One_nat_def])
  have "snd (own_file 0 demo_calls None) = Some (''2024-05-01 09:07:03.042: info: a'' @ [newline] @ ''2024-05-01 09:07:04.000: warning: c'' @ [newline])"
    by code_simp
  with worker_logs_exact [OF w o f, of 0] show ?thesis by (simp add: f n worker_threads_def)
qed

text \<open>
  The two threads of the console share a module but not a logger: the one that opens the file second
  empties it, so the line that the first one wrote is lost, and its next line comes after NUL bytes.
\<close>

lemma console_log_lost:
  "let es = [(17, Log_init ''control'' thread_log_config), (17, Log_line (2024, 5, 1, 9, 7, 3, 42) lvl_info ''a''),
        (18, Log_init ''control'' thread_log_config)];
      lines = (\<lambda>cs. snd (fold (thread_log demo_fs) cs (\<lambda>j. logger0, Map.empty)) (log_path demo_fs ''control''))
   in lines es = Some [] \<and>
      lines (es @ [(17, Log_line (2024, 5, 1, 9, 7, 4, 0) lvl_info ''b'')]) =
        Some (replicate 33 (CHR 0x00) @ ''2024-05-01 09:07:04.000: info: b'' @ [newline])"
  by code_simp

end
