(* ===== verification/NodeLog.thy ===== *)
theory NodeLog
  imports Startup SimTables CsNode PssNode
begin

text \<open>
  What the nodes write to their logs: the tick lines and snapshots of the messages, the snapshot of the
  model of the power system, the status that an operator asks CS for; and the lookups in the parameter
  tables by identifier and by name. The texts are functions of the state; \<open>ready\<close> says that the logger
  of the node is open.
\<close>

subsection \<open>Texts\<close>

definition isim_status_to_string :: "sim_status \<Rightarrow> string" where
  "isim_status_to_string s = (case s of sim_ok \<Rightarrow> ''OK'' | sim_no_registry \<Rightarrow> ''NO_REGISTRY'' | sim_bad_argument \<Rightarrow> ''BAD_ARGUMENT''
     | sim_id_not_found \<Rightarrow> ''ID_NOT_FOUND'' | sim_type_mismatch \<Rightarrow> ''TYPE_MISMATCH''
     | sim_value_out_of_range \<Rightarrow> ''VALUE_OUT_OF_RANGE'' | sim_null_pointer \<Rightarrow> ''NULL_POINTER'')"

definition bit_text :: "bool \<Rightarrow> string" where
  "bit_text b = (if b then ''1'' else ''0'')"

definition signed_decimal :: "int \<Rightarrow> string" where
  "signed_decimal k = (if k < 0 then CHR ''-'' # decimal (nat (- k)) else decimal (nat k))"

text \<open>\<open>std::fixed\<close> with two digits; there is no negative zero among the values of \<open>fp\<close>.\<close>

definition fixed2 :: "fp \<Rightarrow> string" where
  "fixed2 v = (case v of
     Fin x \<Rightarrow> (let n = nat (rne (100 * \<bar>x\<bar>))
       in (if x < 0 then ''-'' else []) @ decimal (n div 100) @ ''.'' @ two_digits (n mod 100))
   | PInf \<Rightarrow> ''inf'' | MInf \<Rightarrow> ''-inf'' | NaN \<Rightarrow> ''nan'')"

definition log_isim_status :: "bool \<Rightarrow> level_t \<Rightarrow> string \<Rightarrow> sim_status \<Rightarrow> u16 \<Rightarrow> (level_t \<times> string) list" where
  "log_isim_status ready level prefix st i =
     (if \<not> ready then [] else [(level, prefix @ ''id='' @ decimal (unat i) @ '' status='' @ isim_status_to_string st)])"

definition log_command_status :: "bool \<Rightarrow> u16 \<Rightarrow> sim_status \<Rightarrow> (level_t \<times> string) list" where
  "log_command_status ready i st = log_isim_status ready lvl_warning ''ISIMSET failed: '' st i"

text \<open>The start of the logger of a node; \<open>name\<close> is \<open>cs\<close> or \<open>pss\<close>.\<close>

definition ensure_logger_initialized :: "file_system \<Rightarrow> clock \<Rightarrow> string \<Rightarrow> bool \<times> logger_state_t \<times> files \<Rightarrow> bool \<times> logger_state_t \<times> files" where
  "ensure_logger_initialized fs now name = (\<lambda>(ready, g, m).
     if ready then (ready, g, m)
     else case init_for_module fs name thread_log_config (g, m) of
       (ok, g1, m1) \<Rightarrow> (ok, if ok then log_info now ''logger initialized'' (g1, m1) else (g1, m1)))"

text \<open>The messages of a node.\<close>

definition log_msg_snapshot :: "bool \<Rightarrow> context_t \<Rightarrow> string \<Rightarrow> (level_t \<times> string) list" where
  "log_msg_snapshot ready ctx stage =
     (if \<not> ready then []
      else [(lvl_info, ''MSG snapshot ['' @ stage @ '']: '' @
        ''MSG_CMD('' @ decimal (msg_cmd_blocks ctx) @ '')='' @ format_msg_words (msg_cmd ctx) (msg_cmd_blocks ctx) @ '' '' @
        ''MSG_PRM('' @ decimal (msg_prm_blocks ctx) @ '')='' @ format_msg_words (msg_prm ctx) (msg_prm_blocks ctx))])"

definition ilog_line :: "tick_state \<Rightarrow> bool \<Rightarrow> string \<Rightarrow> context_t \<Rightarrow> string" where
  "ilog_line tick on extra ctx =
     ''tick: count='' @ decimal (unat (tk_count tick)) @ '' clock='' @ decimal (unat (tk_clock tick)) @
     '' power='' @ bit_text on @ extra @ '' '' @
     ''MSG_CMD='' @ format_msg_words (msg_cmd ctx) (msg_cmd_blocks ctx) @ '' '' @
     ''MSG_PRM='' @ format_msg_words (msg_prm ctx) (msg_prm_blocks ctx)"

definition pss_ILOG :: "bool \<Rightarrow> pss_env \<Rightarrow> (level_t \<times> string) list option" where
  "pss_ILOG ready e = (if \<not> ready then Some []
     else map_option (\<lambda>on. [(lvl_info, ilog_line (ss_tick (ps_soft e)) on [] (pss_ctx e))]) (pss_is_power_on e))"

text \<open>CS reads its own power state through its registry.\<close>

definition LCSPWR :: nat where "LCSPWR = 32768"

definition cs_is_power_on :: "cs_env \<Rightarrow> mem \<Rightarrow> bool option" where
  "cs_is_power_on e m = map_option (\<lambda>(st, v). st \<noteq> sim_ok \<or> v \<noteq> Some 0) (ISIMGETI32 (cs_reg e) m LCSPWR (Some 1))"

definition cs_ILOG :: "bool \<Rightarrow> cs_env \<Rightarrow> mem \<Rightarrow> (level_t \<times> string) list option" where
  "cs_ILOG ready e m = (if \<not> ready then Some []
     else map_option (\<lambda>on. [(lvl_info, ilog_line (ss_tick (cs_soft e)) on
       ('' exchange_busy='' @ bit_text (b_busy (cs_bus e))) (cs_ctx e))]) (cs_is_power_on e m))"

text \<open>The variables of the model of the power system.\<close>

definition value_text :: "physical_type_t \<Rightarrow> value_t \<Rightarrow> string" where
  "value_text ty v = (case ty of
       phys_boolean \<Rightarrow> (case v of V_u8 x \<Rightarrow> bit_text (x \<noteq> 0) | _ \<Rightarrow> ''?'')
     | phys_int8 \<Rightarrow> (case v of V_s8 x \<Rightarrow> signed_decimal (sint x) | _ \<Rightarrow> ''?'')
     | phys_uint8 \<Rightarrow> (case v of V_u8 x \<Rightarrow> decimal (unat x) | _ \<Rightarrow> ''?'')
     | phys_int16 \<Rightarrow> (case v of V_s16 x \<Rightarrow> signed_decimal (sint x) | _ \<Rightarrow> ''?'')
     | phys_uint16 \<Rightarrow> (case v of V_u16 x \<Rightarrow> decimal (unat x) | _ \<Rightarrow> ''?'')
     | _ \<Rightarrow> (case v of V_f32 x \<Rightarrow> fixed2 x | _ \<Rightarrow> ''?''))"

definition state_item :: "mem \<Rightarrow> param_entry list \<Rightarrow> nat \<Rightarrow> string" where
  "state_item m ps i = (let entry = ps ! i in (if i \<noteq> 0 then '' '' else []) @ pe_key entry @ ''='' @
     value_text (pe_physical_type entry) (m (the (pe_ptr entry))))"

definition log_state_snapshot :: "bool \<Rightarrow> mem \<Rightarrow> string \<Rightarrow> (level_t \<times> string) list" where
  "log_state_snapshot ready m tag = (if \<not> ready then []
     else [(lvl_info, ''state['' @ tag @ '']: '' @ concat (map (state_item m sim_pss_PARAMS) [0..<sim_pss_k_param_count]))])"

subsection \<open>The status of CS\<close>

definition status_line :: "om_state \<Rightarrow> target_t \<Rightarrow> (level_t \<times> string) list" where
  "status_line s item = (case build_target_status s item of None \<Rightarrow> []
     | Some st \<Rightarrow> [(lvl_info, ''cs status: target='' @ target_to_string item @
         '' bg='' @ bit_text (ts_background_enabled st) @ '' focused='' @ bit_text (ts_focused st) @
         '' cooldown='' @ bit_text (ts_in_cooldown st) @ '' cooldown_ticks='' @ decimal (unat (ts_cooldown_ticks st)) @
         '' failure_streak='' @ decimal (unat (ts_failure_streak st)) @
         '' last_result='' @ (if ts_has_last_result st then result_to_string (ts_last_result st) else ''none''))])"

definition log_status :: "om_state \<Rightarrow> target_t \<Rightarrow> (level_t \<times> string) list" where
  "log_status s target =
     (lvl_info, ''cs status: mode='' @ (if current_mode s = mode_focus then ''focus'' else ''nominal'') @
        '' focus='' @ target_to_string (focus_target s)) #
     (if target \<noteq> tgt_any then status_line s target
      else concat (map (status_line s) [tgt_pss, tgt_tcs, tgt_tms, tgt_mns, tgt_ls]))"

definition handle_status_command :: "command_t \<Rightarrow> om_state \<Rightarrow> (level_t \<times> string) list" where
  "handle_status_command c s =
     (if cm_arg0 c = [] then log_status s tgt_any
      else case try_parse_target (cm_arg0 c) of
          None \<Rightarrow> [(lvl_warning, ''control: unknown status target: '' @ cm_arg0 c)]
        | Some target \<Rightarrow> log_status s target)"

subsection \<open>Lookups in the parameter tables\<close>

fun find_param_by_id :: "param_entry list \<Rightarrow> nat \<Rightarrow> param_entry option" where
  "find_param_by_id [] i = None"
| "find_param_by_id (entry # ps) i = (if pe_id entry = i then Some entry else find_param_by_id ps i)"

fun find_param_by_key :: "param_entry list \<Rightarrow> string \<Rightarrow> param_entry option" where
  "find_param_by_key [] key = None"
| "find_param_by_key (entry # ps) key = (if key = pe_key entry then Some entry else find_param_by_key ps key)"

subsection \<open>What a line tells\<close>

text \<open>A printed \<open>float\<close> is the value to within half a hundredth.\<close>

lemma hundredths: "\<bar>m - 100 * y\<bar> \<le> 1 / 2 \<Longrightarrow> m = 100 * a + b \<Longrightarrow> \<bar>(a + b / 100) - y\<bar> \<le> 1 / 200" for y :: rat
proof -
  assume h: "\<bar>m - 100 * y\<bar> \<le> 1 / 2" "m = 100 * a + b"
  have "(a + b / 100) - y = (m - 100 * y) / 100" using h(2) by (simp add: field_simps)
  then have "\<bar>(a + b / 100) - y\<bar> = \<bar>m - 100 * y\<bar> / 100" by (simp only: abs_divide abs_numeral)
  also have "\<dots> \<le> (1 / 2) / 100" using h(1) by (rule divide_right_mono) simp
  finally show "\<bar>(a + b / 100) - y\<bar> \<le> 1 / 200" by simp
qed

lemma fixed2_near:
  obtains a b where "fixed2 (Fin x) = (if x < 0 then ''-'' else []) @ decimal a @ ''.'' @ two_digits b" "b < 100"
    "\<bar>(of_nat a + of_nat b / 100) - \<bar>x\<bar>\<bar> \<le> 1 / 200"
proof -
  define n where "n = nat (rne (100 * \<bar>x\<bar>))"
  have "0 \<le> rne (100 * \<bar>x\<bar>)" using rne_ge [of 0 "100 * \<bar>x\<bar>"] by simp
  then have "\<bar>of_nat n - 100 * \<bar>x\<bar>\<bar> \<le> 1 / 2" using rne_near [of "100 * \<bar>x\<bar>"] by (simp add: n_def of_nat_nat)
  moreover have "of_nat n = 100 * (of_nat (n div 100) :: rat) + of_nat (n mod 100)"
    by (metis of_nat_add of_nat_mult of_nat_numeral mult_div_mod_eq)
  ultimately have "\<bar>(of_nat (n div 100) + of_nat (n mod 100) / 100) - \<bar>x\<bar>\<bar> \<le> 1 / 200" by (rule hundredths)
  then show thesis by (rule that [rotated 2]) (simp_all add: fixed2_def Let_def n_def)
qed

text \<open>The four digits determine the block, and the words of a message its blocks.\<close>

lemma hex_val_hex_digit: "d < 16 \<Longrightarrow> hex_val (hex_digit d) = unat d"
proof -
  assume d: "d < 16"
  then have n: "unat d < 16" by (simp add: word_less_nat_alt)
  have "of_char (char_of (48 + unat d) :: char) = (48 + unat d :: nat)" "of_char (char_of (55 + unat d) :: char) = (55 + unat d :: nat)"
    using n by (simp_all add: take_bit_nat_eq_self)
  then show ?thesis using n by (auto simp: hex_val_def hex_digit_def Let_def word_less_nat_alt)
qed

definition unhex :: "string \<Rightarrow> nat" where
  "unhex ds = digits_val 16 ds"

lemma unhex_hex4: "unhex (hex4 x) = unat x"
proof -
  have m: "x AND 0xF = take_bit 4 x" for x :: u16 by (simp add: take_bit_eq_mask mask_eq_exp_minus_1)
  have w: "unat x < 65536" using unsigned_less [where 'a = nat and w = x] by simp
  have u: "unat (drop_bit k x) = unat x div 2 ^ k" "unat (take_bit 4 y) = unat y mod 16" for k and y :: u16
    by (simp_all only: unat_drop_bit_eq unsigned_take_bit_eq) (simp_all add: drop_bit_eq_div take_bit_eq_mod)
  have lt: "drop_bit 12 x < 16" "\<And>y :: u16. take_bit 4 y < 16"
    using w unfolding word_less_nat_alt u by simp_all
  have e: "unhex (hex4 x) = ((unat x div 4096 * 16 + unat x div 256 mod 16) * 16 + unat x div 16 mod 16) * 16 + unat x mod 16"
    by (simp add: unhex_def hex4_def digits_val_def m hex_val_hex_digit lt u)
  have "unat x div 4096 = unat x div 16 div 16 div 16" "unat x div 256 = unat x div 16 div 16" by (simp_all add: div_mult2_eq [symmetric])
  then show ?thesis unfolding e by (simp only: div_mult_mod_eq)
qed

lemma hex4_inj: "hex4 x = hex4 y \<longleftrightarrow> x = y"
  using unhex_hex4 [of x] unhex_hex4 [of y] by (metis word_eq_iff_unsigned)

lemma words_inj:
  "concat (map (\<lambda>i. msg_word i (xs ! i)) [k..<k + n]) @ u = concat (map (\<lambda>i. msg_word i (ys ! i)) [k..<k + n]) @ v \<Longrightarrow>
    (\<forall>i < n. xs ! (k + i) = ys ! (k + i)) \<and> u = v"
proof (induction n arbitrary: k)
  case (Suc n)
  have r: "[k..<k + Suc n] = k # [Suc k..<Suc k + n]" by (simp add: upt_rec)
  have "hex4 (xs ! k) @ concat (map (\<lambda>i. msg_word i (xs ! i)) [Suc k..<Suc k + n]) @ u =
      hex4 (ys ! k) @ concat (map (\<lambda>i. msg_word i (ys ! i)) [Suc k..<Suc k + n]) @ v"
    using Suc.prems unfolding r by (simp add: msg_word_def)
  moreover have "length (hex4 x) = 4" for x by (simp add: hex4_def)
  ultimately have h: "xs ! k = ys ! k" "concat (map (\<lambda>i. msg_word i (xs ! i)) [Suc k..<Suc k + n]) @ u =
      concat (map (\<lambda>i. msg_word i (ys ! i)) [Suc k..<Suc k + n]) @ v"
    by (auto simp: append_eq_append_conv hex4_inj)
  from Suc.IH [OF h(2)] have "(\<forall>i < n. xs ! (Suc k + i) = ys ! (Suc k + i)) \<and> u = v" .
  then show ?case using h(1) by (auto simp: less_Suc_eq_0_disj)
qed simp

lemma format_inj:
  assumes "format_msg_words (Some xs) n @ u = format_msg_words (Some ys) n @ v" "n \<le> length xs" "n \<le> length ys"
  shows "take n xs = take n ys \<and> u = v"
proof (cases "n = 0")
  case False
  have "(\<forall>i < n. xs ! (0 + i) = ys ! (0 + i)) \<and> ('']'' @ u = '']'' @ v)"
    by (rule words_inj) (use assms(1) False in \<open>simp add: format_msg_words_def\<close>)
  then have "u = v" "\<forall>i < n. xs ! i = ys ! i" by simp_all
  moreover from this(2) have "take n xs = take n ys" using assms(2,3) by (simp add: list_eq_iff_nth_eq)
  ultimately show ?thesis by simp
qed (use assms in \<open>simp add: format_msg_words_def\<close>)

lemma find_param_entry_by_id: "distinct (map pe_id ps) \<Longrightarrow> find_param_by_id ps i = Some entry \<longleftrightarrow> entry \<in> set ps \<and> pe_id entry = i"
  by (induction ps) (auto simp: image_iff)

lemma find_param_entry_by_key: "distinct (map pe_key ps) \<Longrightarrow> find_param_by_key ps key = Some entry \<longleftrightarrow> entry \<in> set ps \<and> pe_key entry = key"
  by (induction ps) (auto simp: image_iff)

text \<open>A line ends the number of blocks it shows.\<close>

lemma decimal_paren:
  assumes "decimal a @ CHR '')'' # u = decimal b @ CHR '')'' # v"
  shows "a = b \<and> u = v"
proof -
  have c: "c \<noteq> CHR '')''" if "c \<in> set (decimal n)" for c n
    using decimal_digits [of n] that by (auto simp: list_all_iff)
  have t: "takeWhile (\<lambda>c. c \<noteq> CHR '')'') (decimal n @ CHR '')'' # w) = decimal n" for n w
    using c by (subst takeWhile_append2) auto
  have "decimal a = decimal b" using arg_cong [OF assms, of "takeWhile (\<lambda>c. c \<noteq> CHR '')'')"] by (simp only: t)
  moreover from this have "a = b" using decimal_digits [of a] decimal_digits [of b] by metis
  ultimately show ?thesis using assms by simp
qed

text \<open>
  A snapshot of the messages in a log tells everything: when two nodes write the same line for the
  same stage, the command messages and the parameter messages of both have the same lengths and blocks.
\<close>
lemma snapshot_determines_messages:
  assumes "log_msg_snapshot True ctx stage = log_msg_snapshot True ctx' stage"
    "msg_cmd ctx = Some c" "msg_prm ctx = Some p" "msg_cmd ctx' = Some c'" "msg_prm ctx' = Some p'"
    "msg_cmd_blocks ctx = length c" "msg_prm_blocks ctx = length p" "msg_cmd_blocks ctx' = length c'" "msg_prm_blocks ctx' = length p'"
  shows "c = c' \<and> p = p'"
proof -
  have 1: "length c = length c' \<and> ''='' @ format_msg_words (Some c) (length c) @ '' MSG_PRM('' @ decimal (length p) @ '')='' @ format_msg_words (Some p) (length p) =
      ''='' @ format_msg_words (Some c') (length c') @ '' MSG_PRM('' @ decimal (length p') @ '')='' @ format_msg_words (Some p') (length p')"
    using assms by (intro decimal_paren) (simp add: log_msg_snapshot_def)
  then have "format_msg_words (Some c) (length c) @ '' MSG_PRM('' @ decimal (length p) @ '')='' @ format_msg_words (Some p) (length p) =
      format_msg_words (Some c') (length c) @ '' MSG_PRM('' @ decimal (length p') @ '')='' @ format_msg_words (Some p') (length p')"
    unfolding same_append_eq by (elim conjE) (simp only:)
  from format_inj [OF this] 1 have 2: "c = c'" "decimal (length p) @ '')='' @ format_msg_words (Some p) (length p) =
      decimal (length p') @ '')='' @ format_msg_words (Some p') (length p')" by simp_all
  from 2(2) have 3: "length p = length p' \<and> ''='' @ format_msg_words (Some p) (length p) = ''='' @ format_msg_words (Some p') (length p')"
    by (intro decimal_paren) simp
  then have "p = p'" using format_inj [of p "length p" "[]" p' "[]"] by auto
  with 2(1) show ?thesis by simp
qed

end
