(* ===== verification/Spec2Isabelle.thy ===== *)
theory Spec2Isabelle
  imports Prelude MsgBlock MsgHeader MockBus Flt Tables ParCodec SimStore CmdExec BusExchange BusLink Scheduler OperatingMode
    SimTables PssSim SysTools PssNode PssRun Console CsNode CsRun Conversation
    PssLoop Cargo SysRun Delivery Process Logging Startup NodeLog
begin

text \<open>
  A verification library for the simulated on-board software of Arachnopod (\<open>src/software/sim/sim\<close>).

  The program. A central system (CS) and a power system (PSS) run in two threads that a barrier keeps
  in step, at 100 ticks per second of the simulation. They exchange frames over a byte-wide bus that carries one byte
  per tick: SOF, a two-byte header, the data bytes, EOF. CS is the master: a scheduler picks the next
  task (a command or a request for data), the exchange sends its frame, waits for the answer and
  reports success, a timeout or a bad end of frame; an operating mode turns these completions into a
  policy, which node to poll and how urgently. A device node commits the commands it receives,
  executes them on the variables of its simulation and sends its parameters back. Commands and
  parameters are packed in 16-bit message blocks as the base tables say.

  The theories, in the order of the layers:
  \<^item> \<open>Prelude\<close>: words, lists and maps shared by the rest.
  \<^item> \<open>MsgBlock\<close> (\<open>i_msg_block.cpp\<close>): values of 1, 8 and 16 bits in an array of 16-bit blocks. A null
    pointer is \<open>None\<close>, the block array with its length is a list and a count. The locale \<open>field_store\<close>
    is the contract of such an array, interpreted on these operations.
  \<^item> \<open>MsgHeader\<close> (\<open>i_msg_header.cpp\<close>): the frame header, its bit fields, parity and two storage views.
  \<^item> \<open>MockBus\<close> (\<open>mock_bus.cpp\<close>, the tick of \<open>sim_operator.cpp\<close>): the bus and one barrier tick of two nodes.
  \<^item> \<open>Flt\<close>: the values of \<open>float\<close> and \<open>double\<close> that the codec computes with, and their rounding.
  \<^item> \<open>Tables\<close> (\<open>base/\<close>): the identifiers and the rows of the parameter and command tables.
  \<^item> \<open>ParCodec\<close> (\<open>i_par.cpp\<close>): reading and generating one item of a message.
  \<^item> \<open>SimStore\<close> (\<open>i_sim.cpp\<close>, \<open>i_isim_registry.cpp\<close>, \<open>sim_base.hpp\<close>): the typed variables of a simulation
    and their registry.
  \<^item> \<open>CmdExec\<close> (\<open>i_cmd.cpp\<close>, \<open>i_cmd_exec.cpp\<close>): reading and clearing commands, executing bound commands.
  \<^item> \<open>BusExchange\<close> (\<open>i_sys_algo.cpp\<close>, \<open>i_sys.cpp\<close>): the exchange of a node, one byte per tick, as a
    function of the received byte and the state that gives the byte sent and the next state.
  \<^item> \<open>BusLink\<close>: two nodes and the bus composed: a master and a device over \<open>MockBus\<close>.
  \<^item> \<open>Scheduler\<close> (\<open>cs_scheduler.cpp\<close>, \<open>cs_scheduler_support.cpp\<close>): task slots, the two queues, the command
    windows and the completions. The locale \<open>two_class_queue\<close> is the contract of the queue,
    interpreted on the scheduler.
  \<^item> \<open>OperatingMode\<close> (\<open>cs_operating_mode.cpp\<close>, \<open>cs_operating_mode_support.cpp\<close>, \<open>cs_nodes.cpp\<close>,
    \<open>cs_systems_support.cpp\<close>): focus, background polling, cooldowns and the node steps.
  \<^item> \<open>SimTables\<close> (\<open>sim_*_base.hpp\<close>, \<open>local_param_list.hpp\<close>, \<open>sys_id_range.hpp\<close>): the parameter tables of the six
    simulations, their variables and initial values, the id ranges.
  \<^item> \<open>PssSim\<close> (\<open>pss_sim.cpp\<close>): one step of the electrical model of the power system.
  \<^item> \<open>SysTools\<close> (\<open>system_software_tools.hpp\<close>): the wire storage and software state every node has.
  \<^item> \<open>PssNode\<close> (\<open>pss.cpp\<close>, \<open>pss_support.cpp\<close>): the software of the power system, one tick at a time;
    \<open>PssRun\<close>: its invariant over all runs, its commands, the power interlock and its telemetry.
  \<^item> \<open>Console\<close> (\<open>control_support.cpp\<close>, \<open>control_console.cpp\<close>): the command lines, their parser, the queues
    and the two inputs, the terminal and the control file. The locale \<open>command_source\<close> is the contract
    between the console and a system that takes its commands.
  \<^item> \<open>CsNode\<close> (\<open>cs.cpp\<close>, \<open>cs_support.cpp\<close>, \<open>cs_control_support.cpp\<close>, \<open>cs_control_bridge.cpp\<close>): the software of
    the central system, one tick at a time; \<open>CsRun\<close>: its invariant over all runs.
  \<^item> \<open>Conversation\<close>: an abstract exchange of a master and a device, as a phase that advances by one in
    each tick; the two nodes of \<open>BusExchange\<close> follow it whatever they do between their turns. \<open>Cargo\<close>: the
    bytes of the command window that such an exchange carries.
  \<^item> \<open>PssLoop\<close> (\<open>pss_worker_loop\<close>, \<open>pss_sim_worker_loop\<close>): the node and the model of the power system in any
    order; \<open>SysRun\<close> (\<open>cs_worker_loop\<close>, \<open>pss_worker_loop\<close>): the two nodes over the bus, tick by tick, with the
    console and the model acting between ticks; \<open>Delivery\<close>: a command from the buffer of CS to the switch.
  \<^item> \<open>Process\<close> (\<open>sim_operator.cpp\<close>): the threads with their barriers and the stop flag, one atomic action
    at a time, and their refinement to the runs of \<open>SysRun\<close>.
  \<^item> \<open>Logging\<close> (\<open>common.cpp\<close>): log lines, loggers and the files they write; \<open>Startup\<close> (\<open>sim_operator.cpp\<close>,
    parts of \<open>control_support.cpp\<close>): settings from the environment, the period of the ticks, the 17
    threads and their logs; \<open>NodeLog\<close> (\<open>cs_support.cpp\<close>, \<open>pss_support.cpp\<close>): what the nodes log in a tick, the
    snapshots of their messages and the status that decides when they do.

  What the lemmas show. Blocks: what is written is read back and nothing else changes; headers: make
  and parse are inverse, one flipped bit is always detected. Tables: every row fits, no two overlap,
  checked by evaluation over all rows. Codec: a value sent by one side is decoded by the other as the
  nearest integer the field can hold (for every row but the four set points of the fans, which have an
  offset). Exchange: each tick keeps the state well-formed; over the bus a
  request completes in exactly 2 F + 10 ticks for F data blocks and moves exactly the window it
  names; a device takes exactly the fields of its own commands that are not zero. Scheduler: an invariant ties slots, queues and the active task together; the queue order
  refines a two-class queue with a burst limit, so a normal task waits a bounded number of rounds; a
  cancelled target leaves no task, pending command or window behind. Operating mode: the scheduler polls
  what the policy wants when it has five free slots and no node is polled twice, failures cost a cooldown
  of an exact number of steps. Simulation tables: they agree row by row with the wire tables, and the
  declared id ranges are exactly the ids of each system. Model: the currents keep to the maxima of the
  rails and the total limit, temperatures and charge settle. PSS: the tick of
  the node is defined in every run, commands are consumed with the effect they name, the rails are off
  whenever the main switch is, and CS decodes what the variables hold. Console: a command is
  parsed exactly however it is spaced and capitalised, queued once and in order. CS: whatever comes over
  the bus and from the console (within the bound on values below), the tick is defined, keeps the invariants of the scheduler, the operating mode and the bus state, and
  takes every console command that waits for it. System: in every run the two nodes are defined, never
  write in the same tick, and report every armed task within 40 ticks, with success for the power
  system and a timeout for a node that is not there; a power command that CS has begun to send is obeyed
  within 20 ticks; every variable of the model stays below \<open>2 ^ 19\<close>.
  Threads: every interleaving refines such a run, none leaves both workers waiting at a barrier, and
  after a stop request the two workers take at most 12 more actions. Start-up: the period of a tick is
  positive and bounded for every configuration, and the log of a worker holds exactly its own lines.

  The bound on values. A line of the console may carry any number. A finite one that is too large is
  converted from \<open>double\<close> to \<open>int64_t\<close> out of range when the command is stored (\<open>add_quant_candidates\<close> of
  \<open>i_par.cpp\<close>), which C++ leaves undefined: \<open>IMSGSET\<close> and with it the tick of CS is then \<open>None\<close>
  (\<open>large_value_undefined\<close> of \<open>CsRun\<close>, for 1e30). The runs of \<open>CsRun\<close>, \<open>SysRun\<close>, \<open>Delivery\<close> and \<open>Process\<close> therefore
  admit exactly the lines whose values are not finite or of magnitude at most \<open>2 ^ 61\<close> (\<open>sendable_line\<close>), and
  what is proved of every run is proved of these.

  Conventions. Code that can go on past the end of an array or use an uninitialised value is not
  given a meaning: the definition then returns \<open>None\<close> or is only described inside its range.
  Loops over arrays are folds or structural recursions; the binary search, the integer square root
  and the drain of the completions are \<open>function\<close>s with a termination proof, so no fuel is needed.
  Static variables of a source file are the record passed to and returned by its functions.
  Pointers between components are passed as arguments. The log lines of a tick are in \<open>NodeLog\<close>, the logger
  itself in \<open>Logging\<close>; the one-line notices that the nodes log at single events are left out. The answers of the clock, the environment and the file system
  are arguments. The bounds: 40 ticks are 2 F + 10 for the longest frame, the 15 parameter blocks of
  the power system, and cover the timeouts; 20 are the 4 + 2 F bytes of a frame of 8 blocks; \<open>2 ^ 19\<close> bounds the sums and products of the model for settings of at most 16 bits.

  Not modelled: sleeping, since no state depends on how long a thread sleeps (the wake-up times are in
  \<open>Startup\<close>), the joining of the threads at the end, and the messages on the standard output. In
  \<open>Process\<close> the tick of a node is one action from its read to its write: a step of the model or a line
  of the console falls before or after it, not inside it. The queues of the console are behind a mutex.
  The variables of the model are behind another, which a step of the model holds throughout and a node
  takes for each access alone: in the code a step of the model can fall between two accesses of one tick,
  here it does not. The loggers are modelled apart from the threads of \<open>Process\<close>. The files of the
  systems TCS, TMS, MNS and LS and of their simulations are empty at this commit.
\<close>

end
